(* ===== verification/Prelude.thy ===== *)
theory Prelude
  imports Main "HOL-Library.Finite_Map" "HOL-Library.Word" "HOL-Library.List_Lexorder"
begin

text \<open>
  Shared vocabulary of the development: results of fallible operations (an error of the
  component, or a panic), the loops Rust writes with \<open>?\<close>, LMDB databases as finite maps,
  checked machine arithmetic and the list facts the components share.

  A database transaction that fails is dropped by its caller and leaves the stored data as
  it was, so a fallible operation returns either a failure or the new state, never both.
\<close>

named_theorems result_simps \<open>equations for results that carry a value\<close>
named_theorems db_simps \<open>extensional equations for databases\<close>

section \<open>Results\<close>

text \<open>
  A failing call returns an error value of its component, panics (a failed assertion, an
  \<open>expect\<close> on nothing, an arithmetic overflow, an index out of range), or runs a loop that never
  ends.
\<close>

datatype 'e fail = Err 'e | Panic | Diverge

type_synonym ('e, 'a) result = "'e fail + 'a"

definition and_then :: "'e + 'a \<Rightarrow> ('a \<Rightarrow> 'e + 'b) \<Rightarrow> 'e + 'b" where
  "and_then m f = (case m of Inl e \<Rightarrow> Inl e | Inr x \<Rightarrow> f x)"

definition ok_or :: "'e \<Rightarrow> 'a option \<Rightarrow> ('e, 'a) result" where
  "ok_or e x = (case x of None \<Rightarrow> Inl (Err e) | Some v \<Rightarrow> Inr v)"

definition expect :: "'a option \<Rightarrow> ('e, 'a) result" where
  "expect x = (case x of None \<Rightarrow> Inl Panic | Some v \<Rightarrow> Inr v)"

definition assert_that :: "bool \<Rightarrow> ('e, unit) result" where
  "assert_that b = (if b then Inr () else Inl Panic)"

definition map_err :: "('e \<Rightarrow> 'f) \<Rightarrow> ('e, 'a) result \<Rightarrow> ('f, 'a) result" where
  "map_err f r = (case r of Inl (Err e) \<Rightarrow> Inl (Err (f e)) | Inl Panic \<Rightarrow> Inl Panic
                     | Inl Diverge \<Rightarrow> Inl Diverge | Inr x \<Rightarrow> Inr x)"

definition map_ok :: "('a \<Rightarrow> 'b) \<Rightarrow> 'e + 'a \<Rightarrow> 'e + 'b" where
  "map_ok f r = (case r of Inl e \<Rightarrow> Inl e | Inr x \<Rightarrow> Inr (f x))"

text \<open>\<open>for x in xs { s = f(s, x)?; }\<close> and \<open>xs.map(f).collect::<Result<_, _>>()\<close>.\<close>

primrec fold_res :: "('s \<Rightarrow> 'x \<Rightarrow> 'e + 's) \<Rightarrow> 's \<Rightarrow> 'x list \<Rightarrow> 'e + 's" where
  "fold_res f s [] = Inr s"
| "fold_res f s (x # xs) = and_then (f s x) (\<lambda>s'. fold_res f s' xs)"

primrec map_res :: "('x \<Rightarrow> 'e + 'y) \<Rightarrow> 'x list \<Rightarrow> 'e + 'y list" where
  "map_res f [] = Inr []"
| "map_res f (x # xs) = and_then (f x) (\<lambda>y. map_ok (Cons y) (map_res f xs))"

text \<open>\<open>any\<close> and \<open>max_by_key\<close> of a fallible iterator.\<close>

primrec any_res :: "('x \<Rightarrow> 'e + bool) \<Rightarrow> 'x list \<Rightarrow> 'e + bool" where
  "any_res f [] = Inr False"
| "any_res f (x # xs) = and_then (f x) (\<lambda>b. if b then Inr True else any_res f xs)"

fun max_by_key :: "('x \<Rightarrow> 'e + nat) \<Rightarrow> 'x list \<Rightarrow> 'e + 'x option" where
  "max_by_key f [] = Inr None"
| "max_by_key f (x # xs) =
     and_then (f x) (\<lambda>k. map_ok (\<lambda>m. Some (snd m))
       (fold_res (\<lambda>m y. map_ok (\<lambda>k'. if fst m > k' then m else (k', y)) (f y)) (k, x) xs))"

lemma and_then_Inl [simp]: "and_then (Inl e) f = Inl e"
  by (simp add: and_then_def)

lemma and_then_Inr [simp]: "and_then (Inr x) f = f x"
  by (simp add: and_then_def)

lemma and_then_eq_Inr [result_simps]:
  "and_then m f = Inr y \<longleftrightarrow> (\<exists>x. m = Inr x \<and> f x = Inr y)"
  by (cases m) auto

lemma and_then_assoc: "and_then (and_then m f) g = and_then m (\<lambda>x. and_then (f x) g)"
  by (cases m) auto

lemma and_then_cong [fundef_cong]:
  "m = m' \<Longrightarrow> (\<And>x. m' = Inr x \<Longrightarrow> f x = f' x) \<Longrightarrow> and_then m f = and_then m' f'"
  by (cases m') auto

lemma ok_or_simps [simp]: "ok_or e None = Inl (Err e)" "ok_or e (Some v) = Inr v"
  by (simp_all add: ok_or_def)

lemma ok_or_eq_Inr [result_simps]: "ok_or e x = Inr v \<longleftrightarrow> x = Some v"
  by (cases x) auto

lemma expect_simps [simp]: "expect None = Inl Panic" "expect (Some v) = Inr v"
  by (simp_all add: expect_def)

lemma expect_eq_Inr [result_simps]: "expect x = Inr v \<longleftrightarrow> x = Some v"
  by (cases x) auto

lemma assert_that_simps [simp]: "assert_that True = Inr ()" "assert_that False = Inl Panic"
  by (simp_all add: assert_that_def)

lemma assert_that_eq_Inr [result_simps]: "assert_that b = Inr u \<longleftrightarrow> b"
  by (simp add: assert_that_def)

lemma map_err_simps [simp]:
  "map_err f (Inr x) = Inr x" "map_err f (Inl (Err e)) = Inl (Err (f e))"
  "map_err f (Inl Panic) = Inl Panic" "map_err f (Inl Diverge) = Inl Diverge"
  by (simp_all add: map_err_def)

lemma map_err_eq_Inr [result_simps]: "map_err f r = Inr x \<longleftrightarrow> r = Inr x"
  by (auto simp: map_err_def split: sum.splits fail.splits)

lemma map_ok_simps [simp]: "map_ok f (Inr x) = Inr (f x)" "map_ok f (Inl e) = Inl e"
  by (simp_all add: map_ok_def)

lemma map_ok_eq_Inr [result_simps]: "map_ok f r = Inr y \<longleftrightarrow> (\<exists>x. r = Inr x \<and> y = f x)"
  by (cases r) auto

lemma if_err_eq_Inr [result_simps]:
  "(if b then Inl e else m) = Inr y \<longleftrightarrow> \<not> b \<and> m = Inr y"
  "(if b then m else Inl e) = Inr y \<longleftrightarrow> b \<and> m = Inr y"
  by auto

lemma fold_res_append:
  "fold_res f s (xs @ ys) = and_then (fold_res f s xs) (\<lambda>s'. fold_res f s' ys)"
  by (induction xs arbitrary: s) (simp_all add: and_then_assoc)

lemma fold_res_invariant:
  assumes "fold_res f s xs = Inr s'" and "P s"
    and "\<And>t x t'. x \<in> set xs \<Longrightarrow> P t \<Longrightarrow> f t x = Inr t' \<Longrightarrow> P t'"
  shows "P s'"
  using assms
proof (induction xs arbitrary: s)
  case Nil
  then show ?case by simp
next
  case (Cons x xs)
  then show ?case by (auto simp: result_simps)
qed

lemma fold_res_map: "fold_res f s (map g xs) = fold_res (\<lambda>s x. f s (g x)) s xs"
  by (induction xs arbitrary: s) (auto simp: and_then_def split: sum.split)

text \<open>
  A loop whose steps can be undone: if every step has an inverse step, running the inverses in
  the reverse order from the final state returns to the initial one.
\<close>

lemma fold_res_undo:
  assumes "fold_res f s xs = Inr s'" and "P s"
    and "\<And>t x t'. x \<in> set xs \<Longrightarrow> P t \<Longrightarrow> f t x = Inr t' \<Longrightarrow> P t' \<and> g t' x = Inr t"
  shows "fold_res g s' (rev xs) = Inr s"
  using assms
proof (induction xs arbitrary: s)
  case Nil
  then show ?case by simp
next
  case (Cons x xs)
  from Cons.prems(1) obtain t where t: "f s x = Inr t" "fold_res f t xs = Inr s'"
    by (auto simp: result_simps)
  with Cons.prems(2,3) have "P t" "g t x = Inr s" by auto
  with Cons.IH [of t] t(2) Cons.prems(3) have "fold_res g s' (rev xs) = Inr t"
    by auto
  with \<open>g t x = Inr s\<close> show ?case by (simp add: fold_res_append)
qed

lemma map_res_eq_Inr_length: "map_res f xs = Inr ys \<Longrightarrow> length ys = length xs"
  by (induction xs arbitrary: ys) (auto simp: result_simps)

lemma map_res_eq_Inr_nth:
  "map_res f xs = Inr ys \<Longrightarrow> i < length xs \<Longrightarrow> f (xs ! i) = Inr (ys ! i)"
proof (induction xs arbitrary: ys i)
  case Nil
  then show ?case by simp
next
  case (Cons x xs)
  then show ?case by (cases i) (auto simp: result_simps)
qed

section \<open>Databases\<close>

text \<open>
  An LMDB database opened through heed and sneed is a finite map. \<open>put\<close> is \<^const>\<open>fmupd\<close>,
  \<open>try_get\<close> is \<^const>\<open>fmlookup\<close>; \<open>delete\<close> reports whether the key existed. A database with the
  unit key is an \<open>option\<close>. Iteration visits the entries in the order of the encoded keys.
\<close>

type_synonym ('k, 'v) db = "('k, 'v) fmap"

abbreviation has_key :: "('k, 'v) db \<Rightarrow> 'k \<Rightarrow> bool" where
  "has_key m k \<equiv> fmlookup m k \<noteq> None"

lemma fmdrop_fmupd_absent [db_simps]: "fmlookup m k = None \<Longrightarrow> fmdrop k (fmupd k v m) = m"
  by (rule fmap_ext) (simp add: fmdom_notI)

lemma fmupd_fmdrop_present [db_simps]: "fmlookup m k = Some v \<Longrightarrow> fmupd k v (fmdrop k m) = m"
  by (rule fmap_ext) auto

lemma fmdrop_absent [db_simps]: "fmlookup m k = None \<Longrightarrow> fmdrop k m = m"
  by (rule fmap_ext) auto

lemma fmupd_same [db_simps]: "fmlookup m k = Some v \<Longrightarrow> fmupd k v m = m"
  by (rule fmap_ext) auto

text \<open>Iteration in the order of the keys.\<close>

lemma distinct_sorted_list_of_fmap: "distinct (map fst (sorted_list_of_fmap m))"
  by (simp add: sorted_list_of_fmap_def comp_def sorted_list_of_fset.rep_eq)

lemma in_sorted_list_of_fmap: "(k, v) \<in> set (sorted_list_of_fmap m) \<longleftrightarrow> fmlookup m k = Some v"
  by (metis distinct_sorted_list_of_fmap map_of_eq_Some_iff map_of_sorted_list)

text \<open>Sequences of deletions and of puts.\<close>

abbreviation puts :: "('k \<times> 'v) list \<Rightarrow> ('k, 'v) db \<Rightarrow> ('k, 'v) db" where
  "puts xs m \<equiv> fold (\<lambda>(k, v). fmupd k v) xs m"

abbreviation drops :: "'k list \<Rightarrow> ('k, 'v) db \<Rightarrow> ('k, 'v) db" where
  "drops ks m \<equiv> fold fmdrop ks m"

lemma lookup_drops: "fmlookup (drops ks m) k = (if k \<in> set ks then None else fmlookup m k)"
  by (induction ks arbitrary: m) auto

lemma lookup_puts:
  "fmlookup (puts xs m) k =
     (let ys = filter (\<lambda>x. fst x = k) xs in if ys = [] then fmlookup m k else Some (snd (last ys)))"
  by (induction xs arbitrary: m) (auto simp: Let_def)

lemma lookup_puts_absent: "k \<notin> fst ` set xs \<Longrightarrow> fmlookup (puts xs m) k = fmlookup m k"
  by (induction xs arbitrary: m) (auto split: prod.splits)

lemma drops_sort: "drops (sort ks) m = drops ks m"
  by (rule fmap_ext) (simp add: lookup_drops)

lemma puts_sort: "puts (sort_key fst xs) m = puts xs m"
  by (rule fmap_ext) (simp add: lookup_puts sort_key_stable)

lemma fmdrop_puts: "k \<notin> fst ` set xs \<Longrightarrow> fmdrop k (puts xs m) = puts xs (fmdrop k m)"
  by (induction xs arbitrary: m) (auto simp: fmdrop_fmupd split: prod.splits)

lemma drops_puts:
  "set ks \<inter> fst ` set xs = {} \<Longrightarrow> drops ks (puts xs m) = puts xs (drops ks m)"
  by (induction ks arbitrary: m) (auto simp: fmdrop_puts)

section \<open>Machine integers\<close>

text \<open>
  \<open>u32\<close>, \<open>u64\<close> and \<open>usize\<close> values are natural numbers, with the width written out where an
  operation can leave it. Plain \<open>+\<close> on integers panics on overflow, the \<open>checked_\<close> operations
  return \<open>None\<close>.
\<close>

definition checked_add :: "nat \<Rightarrow> nat \<Rightarrow> nat \<Rightarrow> nat option" where
  "checked_add w a b = (if a + b < 2 ^ w then Some (a + b) else None)"

definition checked_sub :: "nat \<Rightarrow> nat \<Rightarrow> nat option" where
  "checked_sub a b = (if b \<le> a then Some (a - b) else None)"

definition add_u32 :: "nat \<Rightarrow> nat \<Rightarrow> ('e, nat) result" where
  "add_u32 a b = expect (checked_add 32 a b)"

definition sub_u32 :: "nat \<Rightarrow> nat \<Rightarrow> ('e, nat) result" where
  "sub_u32 a b = expect (checked_sub a b)"

lemma checked_add_eq_Some [result_simps]:
  "checked_add w a b = Some c \<longleftrightarrow> c = a + b \<and> a + b < 2 ^ w"
  by (auto simp: checked_add_def)

lemma checked_sub_eq_Some [result_simps]: "checked_sub a b = Some c \<longleftrightarrow> c = a - b \<and> b \<le> a"
  by (auto simp: checked_sub_def)

lemma add_u32_eq_Inr [result_simps]: "add_u32 a b = Inr c \<longleftrightarrow> c = a + b \<and> a + b < 2 ^ 32"
  by (auto simp: add_u32_def result_simps)

lemma add_u32_ok: "a + b < 2 ^ 32 \<Longrightarrow> add_u32 a b = Inr (a + b)"
  by (simp add: result_simps)

lemma sub_u32_eq_Inr [result_simps]: "sub_u32 a b = Inr c \<longleftrightarrow> c = a - b \<and> b \<le> a"
  by (auto simp: sub_u32_def result_simps)

text \<open>\<open>u32::ilog2\<close>: the position of the highest set bit (of a number that is not zero).\<close>

fun ilog2 :: "nat \<Rightarrow> nat" where
  "ilog2 n = (if n < 2 then 0 else Suc (ilog2 (n div 2)))"

declare ilog2.simps [simp del]

lemma ilog2_bounds: "0 < n \<Longrightarrow> 2 ^ ilog2 n \<le> n \<and> n < 2 ^ Suc (ilog2 n)"
proof (induction n rule: ilog2.induct)
  case (1 n)
  show ?case
  proof (cases "n < 2")
    case True
    with "1.prems" show ?thesis by (simp add: ilog2.simps [of n])
  next
    case False
    with "1.IH" have "2 ^ ilog2 (n div 2) \<le> n div 2 \<and> n div 2 < 2 ^ Suc (ilog2 (n div 2))"
      by simp
    with False show ?thesis by (simp add: ilog2.simps [of n]) linarith
  qed
qed

lemma ilog2_pos: "2 \<le> n \<Longrightarrow> 0 < ilog2 n"
  by (simp add: ilog2.simps [of n])

lemma ilog2_le: "0 < n \<Longrightarrow> n \<le> m \<Longrightarrow> ilog2 n \<le> ilog2 m"
proof -
  assume "0 < n" "n \<le> m"
  then have "(2::nat) ^ ilog2 n < 2 ^ Suc (ilog2 m)"
    using ilog2_bounds [of n] ilog2_bounds [of m] by linarith
  then have "ilog2 n < Suc (ilog2 m)" by (rule power_less_imp_less_exp [rotated]) simp
  then show ?thesis by simp
qed

lemma ilog2_unique:
  assumes "2 ^ m \<le> n" "n < 2 ^ Suc m"
  shows "ilog2 n = m"
proof -
  have "0 < n" using assms(1) by (metis less_le_trans zero_less_numeral zero_less_power)
  with assms ilog2_bounds [of n] have "(2::nat) ^ m < 2 ^ Suc (ilog2 n)" "(2::nat) ^ ilog2 n < 2 ^ Suc m"
    by linarith+
  then have "m < Suc (ilog2 n)" "ilog2 n < Suc m"
    by (auto intro: power_less_imp_less_exp [rotated])
  then show ?thesis by simp
qed

end
