(* ===== verification/Rollback.thy ===== *)
theory Rollback
  imports Prelude
begin

text \<open>
  \<open>lib/state/rollback.rs\<close>: values stamped with the block height of their last update, kept as
  a non-empty stack so that an update can be rolled back. The locale \<open>undo_log\<close> states the
  contract its clients (withdrawal bundle statuses, the latest failed bundle) rely on.
\<close>

record 'a height_stamped =
  hs_value :: 'a
  hs_height :: nat

text \<open>\<open>NonEmpty { head, tail }\<close> of the nonempty crate.\<close>

datatype 'a rollback = RollBack "'a height_stamped" "'a height_stamped list"

definition rb_new :: "'a \<Rightarrow> nat \<Rightarrow> 'a rollback" where
  "rb_new v h = RollBack \<lparr>hs_value = v, hs_height = h\<rparr> []"

fun rb_pop :: "'a rollback \<Rightarrow> 'a rollback option \<times> 'a height_stamped" where
  "rb_pop (RollBack x0 xs) =
     (if xs = [] then (None, x0) else (Some (RollBack x0 (butlast xs)), last xs))"

fun rb_earliest :: "'a rollback \<Rightarrow> 'a height_stamped" where
  "rb_earliest (RollBack x0 xs) = x0"

fun rb_iter :: "'a rollback \<Rightarrow> 'a height_stamped list" where
  "rb_iter (RollBack x0 xs) = x0 # xs"

fun rb_latest :: "'a rollback \<Rightarrow> 'a height_stamped" where
  "rb_latest (RollBack x0 xs) = (if xs = [] then x0 else last xs)"

fun rb_push :: "'a rollback \<Rightarrow> 'a \<Rightarrow> nat \<Rightarrow> 'a + 'a rollback" where
  "rb_push (RollBack x0 xs) v h =
     (if hs_height (rb_latest (RollBack x0 xs)) > h then Inl v
      else Inr (RollBack x0 (xs @ [\<lparr>hs_value = v, hs_height = h\<rparr>])))"

text \<open>\<open>push(..).expect(..)\<close>, as every caller writes it.\<close>

definition rb_push_expect :: "'a rollback \<Rightarrow> 'a \<Rightarrow> nat \<Rightarrow> ('e, 'a rollback) result" where
  "rb_push_expect r v h = (case rb_push r v h of Inl _ \<Rightarrow> Inl Panic | Inr r' \<Rightarrow> Inr r')"

definition rb_wf :: "'a rollback \<Rightarrow> bool" where
  "rb_wf r \<longleftrightarrow> sorted (map hs_height (rb_iter r))"

section \<open>The contract of an undo log\<close>

locale undo_log =
  fixes new :: "'a \<Rightarrow> nat \<Rightarrow> 'r"
    and push :: "'r \<Rightarrow> 'a \<Rightarrow> nat \<Rightarrow> 'a + 'r"
    and pop :: "'r \<Rightarrow> 'r option \<times> 'a height_stamped"
    and latest :: "'r \<Rightarrow> 'a height_stamped"
    and wf :: "'r \<Rightarrow> bool"
  assumes pop_new: "pop (new v h) = (None, \<lparr>hs_value = v, hs_height = h\<rparr>)"
    and push_ok: "push r v h = Inr r' \<longleftrightarrow>
      hs_height (latest r) \<le> h \<and> pop r' = (Some r, \<lparr>hs_value = v, hs_height = h\<rparr>)"
    and latest_pop: "latest r = snd (pop r)"
    and wf_new: "wf (new v h)"
    and wf_push: "wf r \<Longrightarrow> push r v h = Inr r' \<Longrightarrow> wf r'"
    and wf_pop: "wf r \<Longrightarrow> pop r = (Some r', x) \<Longrightarrow> wf r' \<and> hs_height (latest r') \<le> hs_height x"
begin

lemma latest_new: "latest (new v h) = \<lparr>hs_value = v, hs_height = h\<rparr>"
  by (simp add: latest_pop pop_new)

lemma latest_push: "push r v h = Inr r' \<Longrightarrow> latest r' = \<lparr>hs_value = v, hs_height = h\<rparr>"
  by (simp add: latest_pop push_ok)

lemma pushes_undone:
  assumes "fold_res (\<lambda>r (v, h). push r v h) r xs = Inr r'"
  shows "((\<lambda>x. Option.bind x (\<lambda>r. fst (pop r))) ^^ length xs) (Some r') = Some r"
  using assms
proof (induction xs arbitrary: r)
  case Nil
  then show ?case by simp
next
  case (Cons x xs)
  then obtain s where s: "push r (fst x) (snd x) = Inr s"
      "fold_res (\<lambda>r (v, h). push r v h) s xs = Inr r'"
    by (auto simp: result_simps split: prod.splits)
  then have "pop s = (Some r, \<lparr>hs_value = fst x, hs_height = snd x\<rparr>)" by (simp add: push_ok)
  with Cons.IH [OF s(2)] show ?case by simp
qed

end

lemma rb_push_ok:
  "rb_push r v h = Inr r' \<longleftrightarrow>
     hs_height (rb_latest r) \<le> h \<and> rb_pop r' = (Some r, \<lparr>hs_value = v, hs_height = h\<rparr>)"
proof (cases r)
  case (RollBack x0 xs)
  have inv: "rb_pop r' = (Some (RollBack x0 xs), x) \<longleftrightarrow> r' = RollBack x0 (xs @ [x])" for x
    by (cases r') (auto simp: butlast_append intro: append_butlast_last_id [symmetric])
  show ?thesis using RollBack by (auto simp: inv)
qed

interpretation rb: undo_log rb_new rb_push rb_pop rb_latest rb_wf
proof
  show "rb_pop (rb_new v h) = (None, \<lparr>hs_value = v, hs_height = h\<rparr>)" for v :: 'a and h
    by (simp add: rb_new_def)
  show "rb_push r v h = Inr r' \<longleftrightarrow>
      hs_height (rb_latest r) \<le> h \<and> rb_pop r' = (Some r, \<lparr>hs_value = v, hs_height = h\<rparr>)"
    for r :: "'a rollback" and v h r' by (rule rb_push_ok)
  show "rb_latest r = snd (rb_pop r)" for r :: "'a rollback" by (cases r) simp
  show "rb_wf (rb_new v h)" for v :: 'a and h by (simp add: rb_wf_def rb_new_def)
  show "rb_wf r'" if "rb_wf r" "rb_push r v h = Inr r'" for r :: "'a rollback" and v h r'
    using that
  proof (cases r)
    case (RollBack x0 xs)
    with that show ?thesis
      by (cases xs rule: rev_cases) (fastforce simp: rb_wf_def sorted_append split: if_splits)+
  qed
  show "rb_wf r' \<and> hs_height (rb_latest r') \<le> hs_height x" if "rb_wf r" "rb_pop r = (Some r', x)"
    for r :: "'a rollback" and r' x
    using that
  proof (cases r)
    case (RollBack x0 xs)
    with that show ?thesis
      by (cases xs rule: rev_cases)
        (auto simp: rb_wf_def sorted_append split: if_splits)
  qed
qed

text \<open>
  A sequence of pushes on a rollback stack is undone exactly by as many pops: the stack
  that remains is the original one, whatever values and heights were pushed.
\<close>

theorem rollback_push_pop_inverse:
  assumes "fold_res (\<lambda>r (v, h). rb_push r v h) r xs = Inr r'"
  shows "((\<lambda>x. Option.bind x (\<lambda>r. fst (rb_pop r))) ^^ length xs) (Some r') = Some r"
  using assms by (rule rb.pushes_undone)

theorem rollback_push_pop_inverse_witness:
  "((\<lambda>x. Option.bind x (\<lambda>r. fst (rb_pop r))) ^^ 2)
     (Some (RollBack \<lparr>hs_value = True, hs_height = 3\<rparr>
       [\<lparr>hs_value = False, hs_height = 3\<rparr>, \<lparr>hs_value = True, hs_height = 5\<rparr>]))
   = Some (rb_new True 3)"
  using rollback_push_pop_inverse [of "rb_new True 3" "[(False, 3), (True, 5)]"]
  by (simp add: rb_new_def numeral_2_eq_2)

end
