(* ===== verification/Types.thy ===== *)
theory Types
  imports Prelude "HOL-Library.Product_Lexorder"
begin

text \<open>
  The data of \<open>lib/types\<close>: hashes, out points, outputs, transactions, bodies, headers, two-way
  peg events, and their canonical Borsh encoding with the database key of an out point.

  Code of other crates is an argument of the definitions that use it, collected in the record
  \<open>ext\<close>: the hash functions, the encodings of bitcoin addresses and Orchard bundles, the Utreexo
  forest, the Orchard commitment frontier, signature and proof verification.
\<close>

section \<open>Bytes and hashes\<close>

type_synonym u8 = "8 word"

text \<open>\<open>[u8; 32]\<close>, read as a big-endian number, so that the order of arrays is the order of words.\<close>

type_synonym hash = "256 word"

datatype block_hash = BlockHash hash
datatype main_hash = MainHash hash
datatype merkle_root = MerkleRoot hash
datatype txid = Txid hash
datatype m6id = M6id hash
datatype transparent_address = TransparentAddress "160 word"
datatype nullifier = Nullifier hash
datatype anchor = Anchor hash
datatype cmx = Cmx hash

text \<open>\<open>bitcoin::BlockHash::all_zeros()\<close>.\<close>

definition all_zeros :: main_hash where
  "all_zeros = MainHash 0"

text \<open>
  \<open>bitcoin::Address<NetworkUnchecked>\<close> is opaque; the order of the representation stands for its
  \<open>Ord\<close> instance.
\<close>

datatype main_address = MainAddress "u8 list"

instantiation main_address :: linorder
begin

fun less_eq_main_address :: "main_address \<Rightarrow> main_address \<Rightarrow> bool" where
  "less_eq_main_address (MainAddress a) (MainAddress b) = (a \<le> b)"

fun less_main_address :: "main_address \<Rightarrow> main_address \<Rightarrow> bool" where
  "less_main_address (MainAddress a) (MainAddress b) = (a < b)"

instance
proof
  fix x y z :: main_address
  show "(x < y) = (x \<le> y \<and> \<not> y \<le> x)" by (cases x; cases y) auto
  show "x \<le> x" by (cases x) auto
  show "x \<le> y \<Longrightarrow> y \<le> z \<Longrightarrow> x \<le> z" by (cases x; cases y; cases z) auto
  show "x \<le> y \<Longrightarrow> y \<le> x \<Longrightarrow> x = y" by (cases x; cases y) auto
  show "x \<le> y \<or> y \<le> x" by (cases x; cases y) auto
qed

end

instantiation block_hash :: linorder
begin

fun less_eq_block_hash :: "block_hash \<Rightarrow> block_hash \<Rightarrow> bool" where
  "less_eq_block_hash (BlockHash a) (BlockHash b) = (a \<le> b)"

fun less_block_hash :: "block_hash \<Rightarrow> block_hash \<Rightarrow> bool" where
  "less_block_hash (BlockHash a) (BlockHash b) = (a < b)"

instance
proof
  fix x y z :: block_hash
  show "(x < y) = (x \<le> y \<and> \<not> y \<le> x)" by (cases x; cases y) auto
  show "x \<le> x" by (cases x) auto
  show "x \<le> y \<Longrightarrow> y \<le> z \<Longrightarrow> x \<le> z" by (cases x; cases y; cases z) auto
  show "x \<le> y \<Longrightarrow> y \<le> x \<Longrightarrow> x = y" by (cases x; cases y) auto
  show "x \<le> y \<or> y \<le> x" by (cases x; cases y) auto
qed

end

instantiation txid :: linorder
begin

fun less_eq_txid :: "txid \<Rightarrow> txid \<Rightarrow> bool" where
  "less_eq_txid (Txid a) (Txid b) = (a \<le> b)"

fun less_txid :: "txid \<Rightarrow> txid \<Rightarrow> bool" where
  "less_txid (Txid a) (Txid b) = (a < b)"

instance
proof
  fix x y z :: txid
  show "(x < y) = (x \<le> y \<and> \<not> y \<le> x)" by (cases x; cases y) auto
  show "x \<le> x" by (cases x) auto
  show "x \<le> y \<Longrightarrow> y \<le> z \<Longrightarrow> x \<le> z" by (cases x; cases y; cases z) auto
  show "x \<le> y \<Longrightarrow> y \<le> x \<Longrightarrow> x = y" by (cases x; cases y) auto
  show "x \<le> y \<or> y \<le> x" by (cases x; cases y) auto
qed

end

section \<open>Out points and outputs\<close>

datatype out_point =
    Regular txid "32 word"
  | Coinbase merkle_root "32 word"
  | Deposit hash "32 word"

datatype in_point =
    InRegular txid "32 word"
  | InWithdrawal m6id

datatype content =
    Value nat
  | Withdrawal nat nat main_address

record tx_output =
  address :: transparent_address
  content :: content

record spent_output =
  so_output :: tx_output
  so_inpoint :: in_point

fun is_withdrawal :: "content \<Rightarrow> bool" where
  "is_withdrawal (Value _) = False"
| "is_withdrawal (Withdrawal _ _ _) = True"

text \<open>\<open>bitcoin::Amount::MAX\<close>; the checked operations of \<open>Amount\<close> are those of \<open>u64\<close>.\<close>

definition amount_max :: nat where
  "amount_max = 2 ^ 64 - 1"

fun content_get_value :: "content \<Rightarrow> nat" where
  "content_get_value (Value v) = v"
| "content_get_value (Withdrawal v main_fee _) =
     (case checked_add 64 v main_fee of Some x \<Rightarrow> x | None \<Rightarrow> amount_max)"

definition get_value :: "tx_output \<Rightarrow> nat" where
  "get_value out = content_get_value (content out)"

text \<open>The derived \<open>Ord\<close> of \<open>OutPoint\<close>: by variant, then by hash, then by index.\<close>

fun out_point_rank :: "out_point \<Rightarrow> nat \<times> hash \<times> 32 word" where
  "out_point_rank (Regular (Txid h) vout) = (0, h, vout)"
| "out_point_rank (Coinbase (MerkleRoot h) vout) = (1, h, vout)"
| "out_point_rank (Deposit h vout) = (2, h, vout)"

lemma out_point_rank_inj: "out_point_rank a = out_point_rank b \<longleftrightarrow> a = b"
  by (cases a rule: out_point_rank.cases; cases b rule: out_point_rank.cases) auto

instantiation out_point :: linorder
begin

definition less_eq_out_point :: "out_point \<Rightarrow> out_point \<Rightarrow> bool" where
  "less_eq_out_point a b \<longleftrightarrow> out_point_rank a \<le> out_point_rank b"

definition less_out_point :: "out_point \<Rightarrow> out_point \<Rightarrow> bool" where
  "less_out_point a b \<longleftrightarrow> out_point_rank a < out_point_rank b"

instance
proof
  fix x y z :: out_point
  show "(x < y) = (x \<le> y \<and> \<not> y \<le> x)" unfolding less_out_point_def less_eq_out_point_def by auto
  show "x \<le> x" unfolding less_eq_out_point_def by simp
  show "x \<le> y \<Longrightarrow> y \<le> z \<Longrightarrow> x \<le> z" unfolding less_eq_out_point_def by (rule order_trans)
  show "x \<le> y \<Longrightarrow> y \<le> x \<Longrightarrow> x = y"
    unfolding less_eq_out_point_def by (metis antisym out_point_rank_inj)
  show "x \<le> y \<or> y \<le> x" unfolding less_eq_out_point_def by (rule linear)
qed

end

section \<open>Transactions, bodies, headers\<close>

record action =
  act_nullifier :: nullifier
  act_cmx :: cmx
  act_data :: "u8 list"

text \<open>\<open>orchard::Bundle<Authorized>\<close>: the parts the node reads, the rest opaque.\<close>

record orchard_bundle =
  actions :: "action list"
  spends_enabled :: bool
  value_balance :: int
  bundle_anchor :: anchor
  bundle_authorization :: "u8 list"

definition nullifiers :: "orchard_bundle \<Rightarrow> nullifier list" where
  "nullifiers b = map act_nullifier (actions b)"

definition extracted_note_commitments :: "orchard_bundle \<Rightarrow> cmx list" where
  "extracted_note_commitments b = map act_cmx (actions b)"

record 'pf transaction =
  inputs :: "(out_point \<times> hash) list"
  utreexo_proof :: 'pf
  outputs :: "tx_output list"
  orchard_bundle :: "orchard_bundle option"

definition tx_nullifiers :: "'pf transaction \<Rightarrow> nullifier list" where
  "tx_nullifiers tx = (case orchard_bundle tx of None \<Rightarrow> [] | Some bundle \<Rightarrow> nullifiers bundle)"

record authorization =
  verifying_key :: hash
  signature :: "512 word"

record 'pf authorized_transaction =
  transaction :: "'pf transaction"
  authorizations :: "authorization list"

record 'pf filled_transaction =
  ft_transaction :: "'pf transaction"
  spent_utxos :: "tx_output list"

record 'pf body =
  coinbase :: "tx_output list"
  body_transactions :: "'pf transaction list"
  body_authorizations :: "authorization list"

record header =
  merkle_root :: merkle_root
  prev_side_hash :: "block_hash option"
  prev_main_hash :: main_hash
  roots :: "hash list"

record tip =
  tip_block_hash :: block_hash
  tip_main_block_hash :: main_hash

datatype bmm_result = BmmVerified | BmmFailed

section \<open>Mainchain data\<close>

datatype withdrawal_bundle_event_status = EvConfirmed | EvFailed | EvSubmitted

datatype withdrawal_bundle_status =
  Confirmed | Dropped | Failed | Pending | Submitted | SubmittedUnexpected

record deposit =
  tx_index :: nat
  dep_txid :: hash
  dep_vout :: "32 word"
  dep_output :: tx_output

datatype block_event =
    DepositEvent deposit
  | WithdrawalBundleEvent m6id withdrawal_bundle_event_status

record block_header_info =
  info_block_hash :: main_hash
  prev_block_hash :: main_hash
  info_height :: nat
  work :: nat

record block_info =
  bmm_commitment :: "block_hash option"
  events :: "block_event list"

text \<open>
  A withdrawal bundle: the UTXOs it spends and the outputs (amount and script) of its mainchain
  transaction, which has no inputs, version 2 and lock time 0.
\<close>

type_synonym txout = "nat \<times> u8 list"

record withdrawal_bundle =
  wb_spend_utxos :: "(out_point, tx_output) fmap"
  wb_tx :: "txout list"

text \<open>\<open>LinkedHashMap<BlockHash, BlockInfo>\<close>: distinct keys in insertion order.\<close>

type_synonym two_way_peg_data = "(main_hash \<times> block_info) list"

section \<open>Code of other crates\<close>

record ('acc, 'fr, 'pf) ext =
  blake3 :: "u8 list \<Rightarrow> hash"
  blake3_xof20 :: "u8 list \<Rightarrow> 160 word"
  script_pubkey :: "main_address \<Rightarrow> u8 list"
  address_from_script :: "u8 list \<Rightarrow> main_address option"
  bundle_bytes :: "orchard_bundle \<Rightarrow> u8 list"
  bundle_bytes_without_auth :: "orchard_bundle \<Rightarrow> u8 list"
  forest_modify :: "'acc \<Rightarrow> hash list \<Rightarrow> hash list \<Rightarrow> 'acc option"
  forest_roots :: "'acc \<Rightarrow> hash list"
  forest_prove :: "'acc \<Rightarrow> hash list \<Rightarrow> 'pf option"
  forest_verify :: "'acc \<Rightarrow> 'pf \<Rightarrow> hash list \<Rightarrow> bool option"
  frontier_append :: "'fr \<Rightarrow> cmx \<Rightarrow> 'fr option"
  frontier_root :: "'fr \<Rightarrow> anchor"
  frontier_empty :: "'fr"
  empty_anchor :: anchor
  accumulator_default :: "'acc"
  verify_batch :: "(u8 list \<times> 512 word \<times> hash) list \<Rightarrow> bool"
  verify_binding_sig :: "hash \<Rightarrow> orchard_bundle \<Rightarrow> bool"
  verify_spend_auths :: "hash \<Rightarrow> orchard_bundle \<Rightarrow> bool"
  verify_orchard_proof :: "orchard_bundle \<Rightarrow> bool"
  compute_txid :: "txout list \<Rightarrow> m6id"
  tx_weight :: "txout list \<Rightarrow> nat"
  varint_size :: "nat \<Rightarrow> nat"
  growth_limit :: "nat \<Rightarrow> nat \<Rightarrow> nat"

section \<open>Canonical encoding (Borsh)\<close>

primrec le_bytes :: "nat \<Rightarrow> nat \<Rightarrow> u8 list" where
  "le_bytes 0 n = []"
| "le_bytes (Suc k) n = word_of_nat n # le_bytes k (n div 256)"

primrec le_nat :: "u8 list \<Rightarrow> nat" where
  "le_nat [] = 0"
| "le_nat (b # bs) = unat b + 256 * le_nat bs"

definition hash_bytes :: "hash \<Rightarrow> u8 list" where
  "hash_bytes h = rev (le_bytes 32 (unat h))"

definition hash_of_bytes :: "u8 list \<Rightarrow> hash" where
  "hash_of_bytes bs = word_of_nat (le_nat (rev bs))"

definition address_bytes :: "transparent_address \<Rightarrow> u8 list" where
  "address_bytes a = (case a of TransparentAddress w \<Rightarrow> rev (le_bytes 20 (unat w)))"

definition ser_vec :: "('a \<Rightarrow> u8 list) \<Rightarrow> 'a list \<Rightarrow> u8 list" where
  "ser_vec f xs = le_bytes 4 (length xs) @ concat (map f xs)"

definition ser_option :: "('a \<Rightarrow> u8 list) \<Rightarrow> 'a option \<Rightarrow> u8 list" where
  "ser_option f x = (case x of None \<Rightarrow> [0] | Some v \<Rightarrow> 1 # f v)"

fun ser_out_point :: "out_point \<Rightarrow> u8 list" where
  "ser_out_point (Regular (Txid h) vout) = 0 # hash_bytes h @ le_bytes 4 (unat vout)"
| "ser_out_point (Coinbase (MerkleRoot h) vout) = 1 # hash_bytes h @ le_bytes 4 (unat vout)"
| "ser_out_point (Deposit h vout) = 2 # hash_bytes h @ le_bytes 4 (unat vout)"

fun ser_content :: "('acc, 'fr, 'pf) ext \<Rightarrow> content \<Rightarrow> u8 list" where
  "ser_content E (Value v) = 0 # le_bytes 8 v"
| "ser_content E (Withdrawal v main_fee addr) =
     1 # le_bytes 8 v @ le_bytes 8 main_fee @ ser_vec (\<lambda>b. [b]) (script_pubkey E addr)"

definition ser_output :: "('acc, 'fr, 'pf) ext \<Rightarrow> tx_output \<Rightarrow> u8 list" where
  "ser_output E out = address_bytes (address out) @ ser_content E (content out)"

definition ser_input :: "out_point \<times> hash \<Rightarrow> u8 list" where
  "ser_input i = ser_out_point (fst i) @ hash_bytes (snd i)"

definition ser_transaction :: "('acc, 'fr, 'pf) ext \<Rightarrow> 'pf transaction \<Rightarrow> u8 list" where
  "ser_transaction E tx =
     ser_vec ser_input (inputs tx) @ ser_vec (ser_output E) (outputs tx)
       @ ser_option (bundle_bytes E) (orchard_bundle tx)"

definition ser_authorization :: "authorization \<Rightarrow> u8 list" where
  "ser_authorization a =
     hash_bytes (verifying_key a) @ rev (le_bytes 64 (unat (signature a)))"

definition ser_body :: "('acc, 'fr, 'pf) ext \<Rightarrow> 'pf body \<Rightarrow> u8 list" where
  "ser_body E b =
     ser_vec (ser_output E) (coinbase b) @ ser_vec (ser_transaction E) (body_transactions b)
       @ ser_vec ser_authorization (body_authorizations b)"

definition ser_header :: "header \<Rightarrow> u8 list" where
  "ser_header h =
     (case merkle_root h of MerkleRoot r \<Rightarrow> hash_bytes r)
       @ ser_option (\<lambda>b. case b of BlockHash x \<Rightarrow> hash_bytes x) (prev_side_hash h)
       @ (case prev_main_hash h of MainHash x \<Rightarrow> hash_bytes x)
       @ ser_vec hash_bytes (roots h)"

text \<open>\<open>hash\<close> and \<open>hash_with_scratch_buffer\<close> are \<open>blake3\<close> of the encoding.\<close>

definition header_hash :: "('acc, 'fr, 'pf) ext \<Rightarrow> header \<Rightarrow> block_hash" where
  "header_hash E h = BlockHash (blake3 E (ser_header h))"

definition pointed_output_hash :: "('acc, 'fr, 'pf) ext \<Rightarrow> out_point \<Rightarrow> tx_output \<Rightarrow> hash" where
  "pointed_output_hash E op out = blake3 E (ser_out_point op @ ser_output E out)"

definition txid_bytes :: "('acc, 'fr, 'pf) ext \<Rightarrow> 'pf transaction \<Rightarrow> u8 list" where
  "txid_bytes E tx =
     ser_vec ser_input (inputs tx) @ ser_vec (ser_output E) (outputs tx)
       @ (case orchard_bundle tx of None \<Rightarrow> [] | Some b \<Rightarrow> bundle_bytes_without_auth E b)"

definition tx_txid :: "('acc, 'fr, 'pf) ext \<Rightarrow> 'pf transaction \<Rightarrow> txid" where
  "tx_txid E tx = Txid (blake3 E (txid_bytes E tx))"

definition compute_merkle_root :: "('acc, 'fr, 'pf) ext \<Rightarrow> 'pf body \<Rightarrow> merkle_root" where
  "compute_merkle_root E b =
     MerkleRoot (blake3 E (ser_vec (ser_output E) (coinbase b)
       @ ser_vec (ser_transaction E) (body_transactions b)))"

subsection \<open>Little-endian numbers\<close>

lemma length_le_bytes [simp]: "length (le_bytes k n) = k"
  by (induction k arbitrary: n) auto

lemma le_nat_le_bytes: "le_nat (le_bytes k n) = n mod 256 ^ k"
proof (induction k arbitrary: n)
  case 0
  show ?case by simp
next
  case (Suc k)
  have "unat (word_of_nat n :: u8) = n mod 256"
    by (simp add: unat_of_nat)
  then show ?case by (simp add: Suc.IH mod_mult2_eq)
qed

lemma le_nat_bound: "le_nat bs < 256 ^ length bs"
proof (induction bs)
  case Nil
  show ?case by simp
next
  case (Cons b bs)
  have "unat b < 256" using unsigned_less [of b, where ?'a = nat] by simp
  with Cons.IH show ?case by simp
qed

lemma le_bytes_le_nat: "length bs = k \<Longrightarrow> le_bytes k (le_nat bs) = bs"
proof (induction bs arbitrary: k)
  case Nil
  then show ?case by simp
next
  case (Cons b bs)
  have "unat b < 256" using unsigned_less [of b, where ?'a = nat] by simp
  moreover have "(256 :: u8) = 0" by simp
  then have "word_of_nat (unat b + 256 * le_nat bs) = b"
    by (simp only: of_nat_add of_nat_mult of_nat_numeral mult_zero_left) simp
  ultimately show ?case using Cons by auto
qed

lemma le_bytes_inj: "n < 256 ^ k \<Longrightarrow> m < 256 ^ k \<Longrightarrow> le_bytes k n = le_bytes k m \<longleftrightarrow> n = m"
  by (metis le_nat_le_bytes mod_less)

lemma length_hash_bytes [simp]: "length (hash_bytes h) = 32"
  by (simp add: hash_bytes_def)

lemma hash_of_bytes_hash_bytes [simp]: "hash_of_bytes (hash_bytes h) = h"
proof -
  have "unat h < 256 ^ 32" using unsigned_less [of h, where ?'a = nat] by (simp add: power_mult [symmetric])
  then show ?thesis by (simp add: hash_of_bytes_def hash_bytes_def le_nat_le_bytes)
qed

lemma hash_bytes_inj [simp]: "hash_bytes h = hash_bytes h' \<longleftrightarrow> h = h'"
  by (metis hash_of_bytes_hash_bytes)

lemma hash_bytes_hash_of_bytes: "length bs = 32 \<Longrightarrow> hash_bytes (hash_of_bytes bs) = bs"
proof -
  assume len: "length bs = 32"
  then have "le_nat (rev bs) < 256 ^ 32" using le_nat_bound [of "rev bs"] by simp
  then have "unat (word_of_nat (le_nat (rev bs)) :: hash) = le_nat (rev bs)"
    by (simp add: unat_of_nat)
  with len show ?thesis
    by (simp add: hash_bytes_def hash_of_bytes_def le_bytes_le_nat [of "rev bs"])
qed

section \<open>A concrete instance of the other crates\<close>

text \<open>
  Simple total functions in the place of the other crates, so that the definitions can be
  evaluated on examples: the length of the bytes as their hash, the forest and the frontier as plain lists of
  leaves, addresses as their own scripts, signatures that accept everything.
\<close>

definition compact_size :: "nat \<Rightarrow> nat" where
  "compact_size n = (if n < 253 then 1 else if n < 2 ^ 16 then 3 else if n < 2 ^ 32 then 5 else 9)"

definition example_ext :: "(hash list, cmx list, unit) ext" where
  "example_ext =
    \<lparr>blake3 = (\<lambda>bs. word_of_nat (length bs)),
     blake3_xof20 = (\<lambda>bs. word_of_nat (length bs)),
     script_pubkey = (\<lambda>a. case a of MainAddress bs \<Rightarrow> bs),
     address_from_script = (\<lambda>bs. Some (MainAddress bs)),
     bundle_bytes = (\<lambda>b. concat (map act_data (actions b)) @ bundle_authorization b),
     bundle_bytes_without_auth = (\<lambda>b. concat (map act_data (actions b))),
     forest_modify = (\<lambda>acc ins dels. if set dels \<subseteq> set acc
        then Some (foldl (\<lambda>a d. remove1 d a) acc dels @ ins) else None),
     forest_roots = (\<lambda>acc. acc),
     forest_prove = (\<lambda>acc ts. if set ts \<subseteq> set acc then Some () else None),
     forest_verify = (\<lambda>acc _ ts. Some (set ts \<subseteq> set acc)),
     frontier_append = (\<lambda>fr c. Some (fr @ [c])),
     frontier_root = (\<lambda>fr. Anchor (sum_list (map (\<lambda>c. case c of Cmx w \<Rightarrow> w + 1) fr))),
     frontier_empty = [],
     empty_anchor = Anchor 0,
     accumulator_default = [],
     verify_batch = (\<lambda>_. True),
     verify_binding_sig = (\<lambda>_ _. True),
     verify_spend_auths = (\<lambda>_ _. True),
     verify_orchard_proof = (\<lambda>_. True),
     compute_txid = (\<lambda>outs. M6id (word_of_nat (length outs))),
     tx_weight = (\<lambda>outs. 4 * (9 + compact_size (length outs)
        + sum_list (map (\<lambda>(_, spk). 8 + compact_size (length spk) + length spk) outs)) + 2),
     varint_size = compact_size,
     growth_limit = (\<lambda>base h. base + h)\<rparr>"

definition example_output :: "nat \<Rightarrow> tx_output" where
  "example_output v = \<lparr>address = TransparentAddress 32, content = Value v\<rparr>"

end
