(* ===== verification/Codec.thy ===== *)
theory Codec
  imports Types
begin

text \<open>
  Database keys of out points and the decoders of \<open>lib/types/transaction.rs\<close>, with the facts
  that make the encodings usable as commitments: the key of an out point determines it, the
  decoder of an output's content inverts the encoder, and the bytes hashed into a transaction id
  determine the inputs and the outputs.

  The locale \<open>prefix_code\<close> is the interface between encoders: an encoder that can be read back
  from the front of any byte string lifts to vectors and to records of such encoders.
\<close>

section \<open>Keys of out points\<close>

definition OUTPOINT_KEY_SIZE :: nat where
  "OUTPOINT_KEY_SIZE = 37"

definition out_point_key :: "out_point \<Rightarrow> u8 list" where
  "out_point_key op = ser_out_point op"

definition read_exact :: "nat \<Rightarrow> u8 list \<Rightarrow> (u8 list \<times> u8 list) option" where
  "read_exact n bs = (if length bs < n then None else Some (take n bs, drop n bs))"

fun out_point_of_parts :: "u8 \<Rightarrow> hash \<Rightarrow> 32 word \<Rightarrow> out_point option" where
  "out_point_of_parts t h vout =
     (if t = 0 then Some (Regular (Txid h) vout)
      else if t = 1 then Some (Coinbase (MerkleRoot h) vout)
      else if t = 2 then Some (Deposit h vout)
      else None)"

definition de_out_point :: "u8 list \<Rightarrow> (out_point \<times> u8 list) option" where
  "de_out_point bs =
     Option.bind (read_exact 1 bs) (\<lambda>(t, bs).
     Option.bind (read_exact 32 bs) (\<lambda>(h, bs).
     Option.bind (read_exact 4 bs) (\<lambda>(v, bs).
     map_option (\<lambda>op. (op, bs))
       (out_point_of_parts (hd t) (hash_of_bytes h) (word_of_nat (le_nat v))))))"

text \<open>\<open>OutPoint::from(OutPointKey)\<close> panics on bytes that are not an encoding.\<close>

definition out_point_of_key :: "u8 list \<Rightarrow> ('e, out_point) result" where
  "out_point_of_key key = expect (map_option fst (de_out_point key))"

text \<open>\<open>BytesDecode for OutPointKey\<close>: what a key read from the database must satisfy.\<close>

definition key_bytes_decode :: "u8 list \<Rightarrow> u8 list option" where
  "key_bytes_decode bs =
     (if length bs \<noteq> OUTPOINT_KEY_SIZE then None
      else case de_out_point bs of None \<Rightarrow> None | Some _ \<Rightarrow> Some bs)"

lemma read_exact_append [simp]: "length xs = n \<Longrightarrow> read_exact n (xs @ ys) = Some (xs, ys)"
  by (simp add: read_exact_def)

lemma read_exact_Cons [simp]:
  "read_exact 1 (x # xs) = Some ([x], xs)" "read_exact (Suc 0) (x # xs) = Some ([x], xs)"
  by (simp_all add: read_exact_def)

lemma read_exact_eq_Some:
  "read_exact n bs = Some (xs, ys) \<longleftrightarrow> bs = xs @ ys \<and> length xs = n"
  by (auto simp: read_exact_def append_eq_conv_conj min_def)

lemma append_split: "length a = length b \<Longrightarrow> a @ r = b @ s \<Longrightarrow> a = b \<and> r = s"
  by simp

lemma length_ser_out_point [simp]: "length (ser_out_point op) = 37"
  by (cases op rule: ser_out_point.cases) simp_all

lemma word32_le_bytes [simp]: "word_of_nat (le_nat (le_bytes 4 (unat (v :: 32 word)))) = v"
proof -
  have "unat v < 256 ^ 4" using unsigned_less [of v, where ?'a = nat] by simp
  then show ?thesis by (simp add: le_nat_le_bytes)
qed

lemma de_out_point_ser [simp]: "de_out_point (ser_out_point op @ bs) = Some (op, bs)"
  by (cases op rule: ser_out_point.cases) (simp_all add: de_out_point_def)

lemma de_out_point_canonical:
  assumes "de_out_point bs = Some (op, rest)"
  shows "bs = ser_out_point op @ rest"
proof -
  from assms obtain t bs1 h bs2 v where
    r: "read_exact 1 bs = Some (t, bs1)" "read_exact 32 bs1 = Some (h, bs2)"
       "read_exact 4 bs2 = Some (v, rest)"
    and op: "out_point_of_parts (hd t) (hash_of_bytes h) (word_of_nat (le_nat v)) = Some op"
    by (auto simp: de_out_point_def bind_eq_Some_conv)
  then have bs: "bs = t @ h @ v @ rest" "length t = 1" "length h = 32" "length v = 4"
    by (auto simp: read_exact_eq_Some)
  have "le_nat v < 2 ^ 32" using le_nat_bound [of v] bs by simp
  then have "le_bytes 4 (unat (word_of_nat (le_nat v) :: 32 word)) = v"
    using bs by (simp add: unat_of_nat le_bytes_le_nat)
  moreover obtain b where "t = [b]" using bs by (auto simp: length_Suc_conv)
  ultimately show ?thesis
    using op bs by (auto simp: hash_bytes_hash_of_bytes split: if_splits)
qed

lemma out_point_of_key_key [simp]: "out_point_of_key (out_point_key op) = Inr op"
  using de_out_point_ser [of op "[]"] by (simp add: out_point_of_key_def out_point_key_def)

lemma out_point_key_inj [simp]: "out_point_key a = out_point_key b \<longleftrightarrow> a = b"
proof
  assume "out_point_key a = out_point_key b"
  then have "(Inr a :: (unit, out_point) result) = Inr b" by (metis out_point_of_key_key)
  then show "a = b" by simp
qed simp

lemma inj_out_point_key: "inj_on out_point_key A"
  by (simp add: inj_on_def)

text \<open>
  The 37 byte database key of an out point: the bytes the database accepts as a key are
  exactly the encodings of out points, and decoding a key gives back the out point it encodes.
\<close>

theorem out_point_key_codec:
  "key_bytes_decode bs = Some k \<longleftrightarrow>
     k = bs \<and> (\<exists>op. bs = out_point_key op \<and> length bs = OUTPOINT_KEY_SIZE
                  \<and> out_point_of_key bs = (Inr op :: (unit, out_point) result))"
proof
  assume l: "key_bytes_decode bs = Some k"
  then obtain op rest where d: "de_out_point bs = Some (op, rest)" and len: "length bs = 37"
    by (auto simp: key_bytes_decode_def OUTPOINT_KEY_SIZE_def split: if_splits option.splits)
  from de_out_point_canonical [OF d] len have "rest = []" "bs = out_point_key op"
    by (auto simp: out_point_key_def)
  with l len show "k = bs \<and> (\<exists>op. bs = out_point_key op \<and> length bs = OUTPOINT_KEY_SIZE
                  \<and> out_point_of_key bs = (Inr op :: (unit, out_point) result))"
    by (auto simp: key_bytes_decode_def OUTPOINT_KEY_SIZE_def split: if_splits option.splits)
next
  assume "k = bs \<and> (\<exists>op. bs = out_point_key op \<and> length bs = OUTPOINT_KEY_SIZE
                  \<and> out_point_of_key bs = (Inr op :: (unit, out_point) result))"
  then show "key_bytes_decode bs = Some k"
    using de_out_point_ser [of _ "[]"]
    by (auto simp: key_bytes_decode_def out_point_key_def OUTPOINT_KEY_SIZE_def)
qed

section \<open>Contents of outputs\<close>

definition de_content :: "('acc, 'fr, 'pf) ext \<Rightarrow> u8 list \<Rightarrow> (content \<times> u8 list) option" where
  "de_content E bs =
     Option.bind (read_exact 1 bs) (\<lambda>(variant, bs).
       if hd variant = 0 then
         Option.bind (read_exact 8 bs) (\<lambda>(sats, bs). Some (Value (le_nat sats), bs))
       else if hd variant = 1 then
         Option.bind (read_exact 8 bs) (\<lambda>(value_sats, bs).
         Option.bind (read_exact 8 bs) (\<lambda>(main_fee_sats, bs).
         Option.bind (read_exact 4 bs) (\<lambda>(len_buf, bs).
         Option.bind (read_exact (le_nat len_buf) bs) (\<lambda>(script_bytes, bs).
         Option.bind (address_from_script E script_bytes) (\<lambda>addr.
           Some (Withdrawal (le_nat value_sats) (le_nat main_fee_sats) addr, bs))))))
       else None)"

text \<open>
  What the types of the source give: amounts are \<open>u64\<close>, a script has less than \<open>2 ^ 32\<close> bytes,
  and the address is one that \<open>Address::from_script\<close> recovers from its script.
\<close>

fun content_ok :: "('acc, 'fr, 'pf) ext \<Rightarrow> content \<Rightarrow> bool" where
  "content_ok E (Value v) = (v < 2 ^ 64)"
| "content_ok E (Withdrawal v f a) =
     (v < 2 ^ 64 \<and> f < 2 ^ 64 \<and> length (script_pubkey E a) < 2 ^ 32
      \<and> address_from_script E (script_pubkey E a) = Some a)"

lemma le_nat_le_bytes_8 [simp]: "n < 2 ^ 64 \<Longrightarrow> le_nat (le_bytes 8 n) = n"
  by (simp add: le_nat_le_bytes)

lemma le_nat_le_bytes_4 [simp]: "n < 2 ^ 32 \<Longrightarrow> le_nat (le_bytes 4 n) = n"
  by (simp add: le_nat_le_bytes)

lemma concat_singletons [simp]: "concat (map (\<lambda>b. [b]) xs) = xs"
  by (induction xs) auto

lemma de_content_ser:
  "content_ok E c \<Longrightarrow> de_content E (ser_content E c @ rest) = Some (c, rest)"
  by (cases c) (simp_all add: de_content_def ser_vec_def)

text \<open>
  Decoding the Borsh encoding of an output's content gives the content back and leaves the
  bytes that follow it untouched.
\<close>

theorem content_borsh_roundtrip:
  assumes "content_ok E c"
  shows "de_content E (ser_content E c @ rest) = Some (c, rest)"
  using assms by (rule de_content_ser)

theorem content_borsh_roundtrip_witness:
  "de_content example_ext (ser_content example_ext (Withdrawal 5 1 (MainAddress [81, 32])) @ [9])
   = Some (Withdrawal 5 1 (MainAddress [81, 32]), [9])"
  using content_borsh_roundtrip [of example_ext "Withdrawal 5 1 (MainAddress [81, 32])" "[9]"]
  by (simp add: example_ext_def)

section \<open>Encoders that can be read back\<close>

locale prefix_code =
  fixes enc :: "'a \<Rightarrow> u8 list"
    and ok :: "'a \<Rightarrow> bool"
  assumes enc_prefix: "ok x \<Longrightarrow> ok y \<Longrightarrow> enc x @ r = enc y @ s \<Longrightarrow> x = y \<and> r = s"
begin

lemma enc_inj: "ok x \<Longrightarrow> ok y \<Longrightarrow> enc x = enc y \<longleftrightarrow> x = y"
  using enc_prefix [of x y "[]" "[]"] by auto

lemma concat_prefix:
  "\<forall>x\<in>set xs. ok x \<Longrightarrow> \<forall>y\<in>set ys. ok y \<Longrightarrow> length xs = length ys \<Longrightarrow>
   concat (map enc xs) @ r = concat (map enc ys) @ s \<Longrightarrow> xs = ys \<and> r = s"
proof (induction xs ys rule: list_induct2')
  case (4 x xs y ys)
  then have "x = y \<and> concat (map enc xs) @ r = concat (map enc ys) @ s"
    by (intro enc_prefix) auto
  with 4 show ?case by auto
qed auto

lemma vec_prefix:
  assumes "\<forall>x\<in>set xs. ok x" "\<forall>y\<in>set ys. ok y" "length xs < 2 ^ 32" "length ys < 2 ^ 32"
    and "ser_vec enc xs @ r = ser_vec enc ys @ s"
  shows "xs = ys \<and> r = s"
proof -
  from assms(5) have "le_bytes 4 (length xs) = le_bytes 4 (length ys)"
    and c: "concat (map enc xs) @ r = concat (map enc ys) @ s"
    using append_split [of "le_bytes 4 (length xs)" "le_bytes 4 (length ys)"]
    unfolding ser_vec_def append_assoc by (metis length_le_bytes)+
  with assms(3,4) have "length xs = length ys" by (metis le_nat_le_bytes_4)
  with assms(1,2) c show ?thesis by (intro concat_prefix)
qed

lemma pair_prefix:
  assumes "prefix_code enc2 ok2"
  shows "prefix_code (\<lambda>x. enc (fst x) @ enc2 (snd x)) (\<lambda>x. ok (fst x) \<and> ok2 (snd x))"
proof
  show "x = y \<and> r = s"
    if "ok (fst x) \<and> ok2 (snd x)" "ok (fst y) \<and> ok2 (snd y)"
      "(enc (fst x) @ enc2 (snd x)) @ r = (enc (fst y) @ enc2 (snd y)) @ s" for x y r s
  proof -
    from that have "fst x = fst y \<and> enc2 (snd x) @ r = enc2 (snd y) @ s"
      by (intro enc_prefix) auto
    moreover from this that have "snd x = snd y \<and> r = s"
      by (intro prefix_code.enc_prefix [OF assms]) auto
    ultimately show ?thesis by (simp add: prod_eq_iff)
  qed
qed

end

interpretation hash_code: prefix_code hash_bytes "\<lambda>_. True"
proof
  show "x = y \<and> r = s" if "hash_bytes x @ r = hash_bytes y @ s" for x y r s
    using append_split [OF _ that] by simp
qed

interpretation out_point_code: prefix_code ser_out_point "\<lambda>_. True"
proof
  show "x = y \<and> r = s" if "ser_out_point x @ r = ser_out_point y @ s" for x y r s
    using arg_cong [OF that, of de_out_point] by simp
qed

interpretation input_code: prefix_code ser_input "\<lambda>_. True"
  using out_point_code.pair_prefix [OF hash_code.prefix_code_axioms]
  by (simp add: ser_input_def [abs_def])

lemma address_bytes_inj [simp]: "address_bytes a = address_bytes b \<longleftrightarrow> a = b"
proof -
  have "unat w < 256 ^ 20" for w :: "160 word"
    using unsigned_less [of w, where ?'a = nat] by (simp add: power_mult [symmetric])
  then show ?thesis
    by (cases a; cases b) (auto simp: address_bytes_def le_bytes_inj intro: unsigned_word_eqI)
qed

lemma length_address_bytes [simp]: "length (address_bytes a) = 20"
  by (cases a) (simp add: address_bytes_def)

interpretation output_code: prefix_code "ser_output E" "\<lambda>out. content_ok E (content out)" for E
proof
  show "x = y \<and> r = s"
    if "content_ok E (content x)" "content_ok E (content y)" "ser_output E x @ r = ser_output E y @ s"
    for x y r s
  proof -
    from that(3) have a: "address x = address y"
      and c: "ser_content E (content x) @ r = ser_content E (content y) @ s"
      using append_split [of "address_bytes (address x)" "address_bytes (address y)"]
      unfolding ser_output_def append_assoc by (metis length_address_bytes address_bytes_inj)+
    from arg_cong [OF c, of "de_content E"] have "content x = content y \<and> r = s"
      by (simp add: de_content_ser that(1,2))
    with a show ?thesis by simp
  qed
qed

text \<open>
  The leaf hash of an unspent output commits to both the out point and the output: as long as
  the hash function does not collide on the two encodings, equal leaf hashes belong to the same
  out point and the same output.
\<close>

theorem pointed_output_hash_binding:
  assumes "inj_on (blake3 E) {ser_out_point op @ ser_output E out, ser_out_point op' @ ser_output E out'}"
    and "content_ok E (content out)" and "content_ok E (content out')"
    and "pointed_output_hash E op out = pointed_output_hash E op' out'"
  shows "op = op' \<and> out = out'"
proof -
  from assms(1,4) have "ser_out_point op @ ser_output E out = ser_out_point op' @ ser_output E out'"
    by (auto simp: pointed_output_hash_def dest: inj_onD)
  then have "op = op' \<and> ser_output E out = ser_output E out'"
    using out_point_code.enc_prefix by blast
  with assms(2,3) output_code.enc_inj show ?thesis by blast
qed

theorem pointed_output_hash_binding_witness:
  "pointed_output_hash example_ext (Regular (Txid 1) 7) (example_output 5)
     = pointed_output_hash example_ext (Regular (Txid 1) (3 + 4)) (example_output (2 + 3))
   \<and> (Regular (Txid 1) 7, example_output 5) = (Regular (Txid 1) (3 + 4), example_output (2 + 3))"
proof -
  have "pointed_output_hash example_ext (Regular (Txid 1) 7) (example_output 5)
     = pointed_output_hash example_ext (Regular (Txid 1) (3 + 4)) (example_output (2 + 3))"
    by simp
  with pointed_output_hash_binding [OF _ _ _ this] show ?thesis
    by (simp add: example_ext_def example_output_def)
qed

definition tx_ok :: "('acc, 'fr, 'pf) ext \<Rightarrow> 'pf transaction \<Rightarrow> bool" where
  "tx_ok E tx \<longleftrightarrow> length (inputs tx) < 2 ^ 32 \<and> length (outputs tx) < 2 ^ 32
     \<and> (\<forall>out\<in>set (outputs tx). content_ok E (content out))"

text \<open>
  A transaction id commits to the inputs and the outputs of the transaction, and to the
  encoding of its Orchard bundle: two transactions with the same id, on whose encodings the hash
  function does not collide, have the same inputs, outputs and bundle bytes.
\<close>

theorem txid_binding:
  assumes "inj_on (blake3 E) {txid_bytes E tx, txid_bytes E tx'}"
    and "tx_ok E tx" and "tx_ok E tx'" and "tx_txid E tx = tx_txid E tx'"
  shows "inputs tx = inputs tx' \<and> outputs tx = outputs tx'
    \<and> (case orchard_bundle tx of None \<Rightarrow> [] | Some b \<Rightarrow> bundle_bytes_without_auth E b)
      = (case orchard_bundle tx' of None \<Rightarrow> [] | Some b \<Rightarrow> bundle_bytes_without_auth E b)"
proof -
  from assms(1,4) have "txid_bytes E tx = txid_bytes E tx'" 
    by (auto simp: tx_txid_def dest: inj_onD)
  then have "inputs tx = inputs tx' \<and>
      ser_vec (ser_output E) (outputs tx)
        @ (case orchard_bundle tx of None \<Rightarrow> [] | Some b \<Rightarrow> bundle_bytes_without_auth E b)
      = ser_vec (ser_output E) (outputs tx')
        @ (case orchard_bundle tx' of None \<Rightarrow> [] | Some b \<Rightarrow> bundle_bytes_without_auth E b)"
    using assms(2,3) by (intro input_code.vec_prefix) (auto simp: txid_bytes_def tx_ok_def)
  moreover have "xs = ys \<and> r = s"
    if "ser_vec (ser_output E) xs @ r = ser_vec (ser_output E) ys @ s"
      "xs = outputs tx" "ys = outputs tx'" for xs ys r s
    using that assms(2,3) by (intro output_code.vec_prefix) (auto simp: tx_ok_def)
  ultimately show ?thesis by blast
qed

theorem txid_binding_witness:
  "let tx = \<lparr>inputs = [(Regular (Txid 1) 0, 9)], utreexo_proof = (), outputs = [example_output 5],
        orchard_bundle = None\<rparr>;
       tx' = tx\<lparr>orchard_bundle := Some \<lparr>actions = [], spends_enabled = True, value_balance = 0,
        bundle_anchor = Anchor 0, bundle_authorization = [1, 2, 3]\<rparr>\<rparr>
   in tx_txid example_ext tx = tx_txid example_ext tx' \<and> tx \<noteq> tx' \<and> inputs tx = inputs tx'"
proof -
  let ?tx = "\<lparr>inputs = [(Regular (Txid 1) 0, 9)], utreexo_proof = (), outputs = [example_output 5],
        orchard_bundle = None\<rparr>"
  let ?tx' = "?tx\<lparr>orchard_bundle := Some \<lparr>actions = [], spends_enabled = True, value_balance = 0,
        bundle_anchor = Anchor 0, bundle_authorization = [1, 2, 3]\<rparr>\<rparr>"
  have "txid_bytes example_ext ?tx = txid_bytes example_ext ?tx'"
    by (simp add: txid_bytes_def example_ext_def)
  then show ?thesis using txid_binding [of example_ext ?tx ?tx']
    by (simp add: tx_txid_def tx_ok_def example_output_def)
qed

end
