(* ===== verification/Chain_Index.thy ===== *)
theory Chain_Index
  imports Prelude
begin

text \<open>
  The exponential ancestor index that \<open>lib/archive.rs\<close> keeps twice, for sidechain headers and for
  mainchain headers. The loops are written once, over the lookups of one of the two indexes, and
  instantiated in the theory Archive.

  The reference notion is \<open>nth_parent\<close>: following the parent link \<open>n\<close> times. The locale
  \<open>chain_index\<close> states what the loops need of the lookups on a set of blocks that is closed under
  parents, and proves that the logarithmic walks compute \<open>nth_parent\<close>, that the descendant test is
  correct and that the binary search finds the last common ancestor.
\<close>

section \<open>Ancestors\<close>

primrec nth_parent :: "('b \<Rightarrow> 'b option) \<Rightarrow> 'b \<Rightarrow> nat \<Rightarrow> 'b option" where
  "nth_parent par b 0 = Some b"
| "nth_parent par b (Suc n) = Option.bind (par b) (\<lambda>p. nth_parent par p n)"

definition is_ancestor :: "('b \<Rightarrow> 'b option) \<Rightarrow> 'b \<Rightarrow> 'b \<Rightarrow> bool" where
  "is_ancestor par a b \<longleftrightarrow> (\<exists>n. nth_parent par b n = Some a)"

text \<open>
  The loop of \<open>get_nth_ancestor\<close> and \<open>get_nth_main_ancestor\<close>. \<open>e\<close> is the error with the original
  arguments; an index outside the stored vector panics.
\<close>

function nth_ancestor_loop ::
  "('b \<Rightarrow> ('e, nat) result) \<Rightarrow> ('b \<Rightarrow> ('e, 'b) result) \<Rightarrow> ('b \<Rightarrow> ('e, 'b list) result) \<Rightarrow> 'e
    \<Rightarrow> 'b \<Rightarrow> nat \<Rightarrow> ('e, 'b) result" where
  "nth_ancestor_loop gh gp ge e b n =
     (if n = 0 then Inr b
      else and_then (gh b) (\<lambda>height.
        if n > height then Inl (Err e)
        else if n = 1 then gp b
        else and_then (ge b) (\<lambda>xs.
          if ilog2 n - 1 < length xs
          then nth_ancestor_loop gh gp ge e (xs ! (ilog2 n - 1)) (n - 2 * 2 ^ (ilog2 n - 1))
          else Inl Panic)))"
  by pat_completeness auto
termination
  by (relation "measure (\<lambda>(_, _, _, _, _, n). n)") auto

declare nth_ancestor_loop.simps [simp del]

text \<open>
  The loop that fills the index for a new block: the depth runs through the powers of two, \<open>2 ^ k\<close>,
  and is cast to \<open>u32\<close> before it is halved.
\<close>

function exponential_loop ::
  "('b \<Rightarrow> nat \<Rightarrow> ('e, 'b) result) \<Rightarrow> nat \<Rightarrow> 'b list \<Rightarrow> nat \<Rightarrow> ('e, 'b list) result" where
  "exponential_loop anc height xs k =
     (if 2 ^ k \<le> height
      then and_then (anc (last xs) ((2 ^ k mod 2 ^ 32) div 2)) (\<lambda>a.
        exponential_loop anc height (xs @ [a]) (Suc k))
      else Inr xs)"
  by pat_completeness auto
termination
proof (relation "measure (\<lambda>(_, height, _, k). height - k)", goal_cases)
  case 1
  show ?case by simp
next
  case (2 anc height xs k a)
  then have "k < height" using less_exp [of k] by linarith
  then show ?case by simp
qed

declare exponential_loop.simps [simp del]

definition exponential_ancestors_of ::
  "('b \<Rightarrow> nat \<Rightarrow> ('e, 'b) result) \<Rightarrow> nat \<Rightarrow> 'b option \<Rightarrow> ('e, 'b list) result" where
  "exponential_ancestors_of anc height parent =
     (if height \<ge> 2
      then and_then (expect parent) (\<lambda>p. and_then (anc p 1) (\<lambda>grandparent.
        exponential_loop anc height [grandparent] 2))
      else Inr [])"

text \<open>\<open>is_descendant\<close> and \<open>is_main_descendant\<close>.\<close>

definition descendant_test ::
  "('b \<Rightarrow> ('e, nat) result) \<Rightarrow> ('b \<Rightarrow> nat \<Rightarrow> ('e, 'b) result) \<Rightarrow> 'b \<Rightarrow> 'b \<Rightarrow> ('e, bool) result" where
  "descendant_test gh anc ancestor descendant =
     (if ancestor = descendant then Inr True
      else and_then (gh ancestor) (\<lambda>ancestor_height.
        and_then (gh descendant) (\<lambda>descendant_height.
        if ancestor_height > descendant_height then Inr False
        else map_ok (\<lambda>a. ancestor = a) (anc descendant (descendant_height - ancestor_height)))))"

text \<open>The match that brings two blocks to the lower of their heights.\<close>

definition equalize_heights ::
  "('b \<Rightarrow> nat \<Rightarrow> ('e, 'b) result) \<Rightarrow> 'b \<Rightarrow> nat \<Rightarrow> 'b \<Rightarrow> nat \<Rightarrow> ('e, 'b \<times> 'b \<times> nat) result" where
  "equalize_heights anc b0 h0 b1 h1 =
     (if h0 = h1 then Inr (b0, b1, h0)
      else if h0 < h1 then map_ok (\<lambda>b1. (b0, b1, h0)) (anc b1 (h1 - h0))
      else map_ok (\<lambda>b0. (b0, b1, h1)) (anc b0 (h0 - h1)))"

text \<open>The binary search over depths; the addition of two \<open>u32\<close> depths may overflow.\<close>

function lca_search ::
  "('b \<Rightarrow> nat \<Rightarrow> ('e, 'b) result) \<Rightarrow> 'b \<Rightarrow> 'b \<Rightarrow> nat \<Rightarrow> nat \<Rightarrow> ('e, nat) result" where
  "lca_search anc b0 b1 lo_depth hi_depth =
     (if lo_depth < hi_depth
      then and_then (add_u32 lo_depth hi_depth) (\<lambda>s.
        and_then (anc b0 ((lo_depth + hi_depth) div 2)) (\<lambda>mid_ancestor0.
        and_then (anc b1 ((lo_depth + hi_depth) div 2)) (\<lambda>mid_ancestor1.
        if mid_ancestor0 = mid_ancestor1
        then lca_search anc b0 b1 lo_depth ((lo_depth + hi_depth) div 2)
        else lca_search anc b0 b1 ((lo_depth + hi_depth) div 2 + 1) hi_depth)))
      else Inr hi_depth)"
  by pat_completeness auto
termination
  by (relation "measure (\<lambda>(_, _, _, lo, hi). hi - lo)") auto

declare lca_search.simps [simp del]

text \<open>
  Linking a new block into the successor sets: it is added to the set of its predecessor \<open>p\<close>, and
  its own set, under the key \<open>k\<close>, is created unless it exists.
\<close>

definition link_successor ::
  "'k \<Rightarrow> 'k \<Rightarrow> 'b \<Rightarrow> 'b list \<Rightarrow> ('k, 'b list) db \<Rightarrow> ('k, 'b list) db" where
  "link_successor p k b pred_successors S =
     (let S = fmupd p (List.insert b pred_successors) S
      in fmupd k (case fmlookup S k of Some own \<Rightarrow> own | None \<Rightarrow> []) S)"

section \<open>Following parents\<close>

lemma nth_parent_add:
  "nth_parent par b (m + n) = Option.bind (nth_parent par b m) (\<lambda>c. nth_parent par c n)"
  by (induction m arbitrary: b) simp_all

lemma nth_parent_Suc_right:
  "nth_parent par b (Suc n) = Option.bind (nth_parent par b n) par"
  using nth_parent_add [of par b n 1] by simp

lemma is_ancestor_refl [simp]: "is_ancestor par b b"
  by (auto simp: is_ancestor_def intro: exI [of _ 0])

lemma is_ancestor_trans: "is_ancestor par a b \<Longrightarrow> is_ancestor par b c \<Longrightarrow> is_ancestor par a c"
  unfolding is_ancestor_def by (metis nth_parent_add bind.bind_lunit)

lemma nth_parent_cong:
  assumes "\<And>b. b \<in> K \<Longrightarrow> par b = par' b" and "\<And>b p. b \<in> K \<Longrightarrow> par b = Some p \<Longrightarrow> p \<in> K"
  shows "b \<in> K \<Longrightarrow> nth_parent par b n = nth_parent par' b n"
proof (induction n arbitrary: b)
  case 0
  show ?case by simp
next
  case (Suc n)
  then show ?case using assms [of b] by (cases "par' b") auto
qed

text \<open>The last common ancestor: a common ancestor of which every common ancestor is an ancestor.\<close>

definition last_common :: "('b \<Rightarrow> 'b option) \<Rightarrow> 'b \<Rightarrow> 'b \<Rightarrow> 'b \<Rightarrow> bool" where
  "last_common par a b c \<longleftrightarrow> is_ancestor par c a \<and> is_ancestor par c b
     \<and> (\<forall>d. is_ancestor par d a \<longrightarrow> is_ancestor par d b \<longrightarrow> is_ancestor par d c)"

text \<open>
  What the stored vector of a block at height \<open>h\<close> has to be: one entry for every power of two from
  \<open>2\<close> up to the height, the entry \<open>i\<close> being the ancestor \<open>2 ^ (i + 1)\<close> blocks before.
\<close>

definition expo_entry :: "('b \<Rightarrow> 'b option) \<Rightarrow> 'b \<Rightarrow> nat \<Rightarrow> 'b list \<Rightarrow> bool" where
  "expo_entry par b h xs \<longleftrightarrow> length xs = ilog2 h
     \<and> (\<forall>i < length xs. nth_parent par b (2 ^ Suc i) = Some (xs ! i))"

text \<open>
  The index is right on a set of blocks: the set is closed under parents, heights count the
  distance to a block without parent and fit in a \<open>u32\<close>, and the vectors are right.
\<close>

definition node_ok ::
  "('b \<Rightarrow> nat option) \<Rightarrow> ('b \<Rightarrow> 'b option) \<Rightarrow> ('b \<Rightarrow> 'b list option) \<Rightarrow> 'b set \<Rightarrow> 'b \<Rightarrow> bool" where
  "node_ok ht par ex K b \<longleftrightarrow>
     (\<exists>h. ht b = Some h \<and> h < 2 ^ 32 \<and>
       (case h of 0 \<Rightarrow> par b = None
        | Suc h' \<Rightarrow> (\<exists>p\<in>K. par b = Some p \<and> ht p = Some h')
            \<and> (\<exists>xs. ex b = Some xs \<and> expo_entry par b h xs)))"

definition index_ok ::
  "('b \<Rightarrow> nat option) \<Rightarrow> ('b \<Rightarrow> 'b option) \<Rightarrow> ('b \<Rightarrow> 'b list option) \<Rightarrow> 'b set \<Rightarrow> bool" where
  "index_ok ht par ex K \<longleftrightarrow> (\<forall>b\<in>K. node_ok ht par ex K b)"

lemma node_ok_genesis: "ht b = Some 0 \<Longrightarrow> node_ok ht par ex K b \<longleftrightarrow> par b = None"
  by (simp add: node_ok_def)

lemma node_ok_Suc:
  "ht b = Some (Suc h) \<Longrightarrow> node_ok ht par ex K b \<longleftrightarrow> Suc h < 2 ^ 32
     \<and> (\<exists>p\<in>K. par b = Some p \<and> ht p = Some h) \<and> (\<exists>xs. ex b = Some xs \<and> expo_entry par b (Suc h) xs)"
  by (simp add: node_ok_def)

lemma node_ok_height: "node_ok ht par ex K b \<Longrightarrow> \<exists>h. ht b = Some h \<and> h < 2 ^ 32"
  by (auto simp: node_ok_def)

lemma node_ok_cases:
  assumes "node_ok ht par ex K b"
  obtains "ht b = Some 0" "par b = None"
  | h p xs where "ht b = Some (Suc h)" "Suc h < 2 ^ 32" "p \<in> K" "par b = Some p" "ht p = Some h"
      "ex b = Some xs" "expo_entry par b (Suc h) xs"
proof -
  obtain h where h: "ht b = Some h" using node_ok_height [OF assms] by blast
  then show thesis
    using assms that by (cases h) (auto simp: node_ok_genesis node_ok_Suc)
qed

lemma node_ok_mono: "node_ok ht par ex K b \<Longrightarrow> K \<subseteq> K' \<Longrightarrow> node_ok ht par ex K' b"
  by (elim node_ok_cases) (auto simp: node_ok_genesis node_ok_Suc)

section \<open>The contract of an index\<close>

locale chain_index =
  fixes ht :: "'s \<Rightarrow> 'b \<Rightarrow> nat option"
    and par :: "'s \<Rightarrow> 'b \<Rightarrow> 'b option"
    and ex :: "'s \<Rightarrow> 'b \<Rightarrow> 'b list option"
    and get_h :: "'s \<Rightarrow> 'b \<Rightarrow> ('e, nat) result"
    and get_p :: "'s \<Rightarrow> 'b \<Rightarrow> ('e, 'b) result"
    and get_e :: "'s \<Rightarrow> 'b \<Rightarrow> ('e, 'b list) result"
    and no_height :: "'b \<Rightarrow> 'e"
    and no_anc :: "'b \<Rightarrow> nat \<Rightarrow> 'e"
  assumes get_h: "get_h s b = ok_or (no_height b) (ht s b)"
    and get_p: "par s b = Some p \<Longrightarrow> get_p s b = Inr p"
    and get_e: "ex s b = Some xs \<Longrightarrow> get_e s b = Inr xs"
begin

abbreviation ok :: "'s \<Rightarrow> 'b set \<Rightarrow> bool" where
  "ok s \<equiv> index_ok (ht s) (par s) (ex s)"

abbreviation anc :: "'s \<Rightarrow> 'b \<Rightarrow> nat \<Rightarrow> ('e, 'b) result" where
  "anc s b n \<equiv> nth_ancestor_loop (get_h s) (get_p s) (get_e s) (no_anc b n) b n"

lemma height_known:
  assumes "ok s K" "b \<in> K"
  obtains h where "ht s b = Some h" "h < 2 ^ 32"
  using assms by (meson index_ok_def node_ok_height)

lemma genesis: "ok s K \<Longrightarrow> b \<in> K \<Longrightarrow> ht s b = Some 0 \<Longrightarrow> par s b = None"
  by (auto simp: index_ok_def node_ok_genesis)

lemma parent:
  assumes "ok s K" "b \<in> K" "ht s b = Some (Suc h)"
  obtains p xs where "p \<in> K" "par s b = Some p" "ht s p = Some h"
    "ex s b = Some xs" "expo_entry (par s) b (Suc h) xs"
  using assms node_ok_Suc [of "ht s" b h "par s" "ex s" K] unfolding index_ok_def by blast

lemma parent_height:
  assumes "ok s K" "b \<in> K" "par s b = Some p" "ht s p = Some h"
  shows "ht s b = Some (Suc h)"
proof -
  obtain k where k: "ht s b = Some k" using assms height_known by metis
  show ?thesis
  proof (cases k)
    case 0
    with genesis [OF assms(1,2)] k assms(3) show ?thesis by simp
  next
    case (Suc k')
    with parent [OF assms(1,2), of k'] k obtain q where "par s b = Some q" "ht s q = Some k'" by metis
    with assms(3,4) k Suc show ?thesis by simp
  qed
qed

lemma nth_parent_total:
  "ok s K \<Longrightarrow> b \<in> K \<Longrightarrow> ht s b = Some h \<Longrightarrow> n \<le> h \<Longrightarrow>
   \<exists>c\<in>K. nth_parent (par s) b n = Some c \<and> ht s c = Some (h - n)"
proof (induction n arbitrary: b h)
  case 0
  then show ?case by auto
next
  case (Suc n)
  then obtain h' where h': "h = Suc h'" by (cases h) auto
  with Suc.prems obtain p where "p \<in> K" "par s b = Some p" "ht s p = Some h'"
    by (auto elim: parent)
  with Suc.IH [of p h'] Suc.prems h' show ?case by auto
qed

lemma nth_parent_beyond:
  assumes "ok s K" "b \<in> K" "ht s b = Some h" "h < n"
  shows "nth_parent (par s) b n = None"
proof -
  obtain c where "c \<in> K" "nth_parent (par s) b h = Some c" "ht s c = Some 0"
    using nth_parent_total [OF assms(1-3), of h] by auto
  moreover from this assms(1) have "par s c = None" by (blast intro: genesis)
  moreover obtain m where "n = Suc (h + m)" using assms(4) less_imp_Suc_add by blast
  then have "n = h + Suc m" by simp
  ultimately show ?thesis using nth_parent_add [of "par s" b h "Suc m"] by simp
qed

lemma nth_parent_height:
  assumes "ok s K" "b \<in> K" "ht s b = Some h" "nth_parent (par s) b n = Some c"
  shows "c \<in> K \<and> n \<le> h \<and> ht s c = Some (h - n)"
proof -
  have "n \<le> h" using nth_parent_beyond [OF assms(1-3), of n] assms(4) by force
  with nth_parent_total [OF assms(1-3)] assms(4) show ?thesis by force
qed

lemma anc_loop_correct:
  assumes "ok s K"
  shows "b \<in> K \<Longrightarrow> nth_parent (par s) b n = Some c \<Longrightarrow>
    nth_ancestor_loop (get_h s) (get_p s) (get_e s) e b n = Inr c"
proof (induction n arbitrary: b rule: less_induct)
  case (less n)
  obtain h where h: "ht s b = Some h" using assms less.prems by (auto elim: height_known)
  have n: "n \<le> h" using nth_parent_height [OF assms less.prems(1) h less.prems(2)] by simp
  show ?case
  proof (cases "n = 0")
    case True
    with less.prems show ?thesis by (simp add: nth_ancestor_loop.simps)
  next
    case False
    with n obtain h' where h': "h = Suc h'" by (cases h) auto
    obtain p xs where p: "p \<in> K" "par s b = Some p" "ht s p = Some h'"
      and xs: "ex s b = Some xs" "expo_entry (par s) b h xs"
      using parent [OF assms less.prems(1)] h h' by metis
    show ?thesis
    proof (cases "n = 1")
      case True
      with p less.prems h n show ?thesis
        by (subst nth_ancestor_loop.simps) (simp add: get_h get_p)
    next
      case n1: False
      with False have n2: "2 \<le> n" by simp
      define i where "i = ilog2 n - 1"
      have si: "Suc i = ilog2 n" using ilog2_pos [OF n2] by (simp add: i_def)
      have len: "i < length xs" using xs(2) ilog2_le [of n h] n n2 si by (simp add: expo_entry_def)
      have d: "nth_parent (par s) b (2 ^ Suc i) = Some (xs ! i)"
        using xs(2) len unfolding expo_entry_def by blast
      have le: "2 ^ Suc i \<le> n" using ilog2_bounds [of n] n2 unfolding si by simp
      then have "nth_parent (par s) (xs ! i) (n - 2 ^ Suc i) = Some c"
        using less.prems(2) nth_parent_add [of "par s" b "2 ^ Suc i" "n - 2 ^ Suc i"] d by simp
      moreover have "xs ! i \<in> K" using nth_parent_height [OF assms less.prems(1) h d] by simp
      moreover have "n - 2 ^ Suc i < n" using n2 by simp
      ultimately have
        "nth_ancestor_loop (get_h s) (get_p s) (get_e s) e (xs ! i) (n - 2 ^ Suc i) = Inr c"
        by (intro less.IH)
      moreover have "get_e s b = Inr xs" using get_e xs by simp
      ultimately show ?thesis
        using h n n1 n2 len by (subst nth_ancestor_loop.simps) (simp add: get_h i_def)
    qed
  qed
qed

lemma anc_correct:
  "ok s K \<Longrightarrow> b \<in> K \<Longrightarrow> nth_parent (par s) b n = Some c \<Longrightarrow> anc s b n = Inr c"
  by (rule anc_loop_correct)

lemma anc_beyond:
  "ok s K \<Longrightarrow> b \<in> K \<Longrightarrow> nth_parent (par s) b n = None \<Longrightarrow> anc s b n = Inl (Err (no_anc b n))"
proof -
  assume a: "ok s K" "b \<in> K" "nth_parent (par s) b n = None"
  then obtain h where h: "ht s b = Some h" by (auto elim: height_known)
  with a nth_parent_total [of s K b h n] have "h < n" by (cases "n \<le> h") auto
  with h show ?thesis by (subst nth_ancestor_loop.simps) (simp add: get_h)
qed

lemma anc_iff:
  "ok s K \<Longrightarrow> b \<in> K \<Longrightarrow> anc s b n = Inr c \<longleftrightarrow> nth_parent (par s) b n = Some c"
  by (cases "nth_parent (par s) b n") (auto simp: anc_correct anc_beyond)

lemma descendant_correct:
  assumes "ok s K" "a \<in> K" "d \<in> K"
  shows "descendant_test (get_h s) (anc s) a d = Inr (is_ancestor (par s) a d)"
proof (cases "a = d")
  case True
  then show ?thesis by (simp add: descendant_test_def)
next
  case False
  obtain ha hd' where h: "ht s a = Some ha" "ht s d = Some hd'"
    using assms by (meson height_known)
  have only: "n = hd' - ha \<and> ha \<le> hd'" if "nth_parent (par s) d n = Some a" for n
    using nth_parent_height [OF assms(1,3) h(2) that] h(1) by auto
  show ?thesis
  proof (cases "ha \<le> hd'")
    case True
    then obtain c where c: "nth_parent (par s) d (hd' - ha) = Some c"
      using nth_parent_total [OF assms(1,3) h(2), of "hd' - ha"] by auto
    then have "is_ancestor (par s) a d \<longleftrightarrow> a = c" using only by (force simp: is_ancestor_def)
    with True False h anc_correct [OF assms(1,3) c] show ?thesis
      by (simp add: descendant_test_def get_h)
  next
    case no: False
    with only False h show ?thesis by (auto simp: descendant_test_def get_h is_ancestor_def)
  qed
qed

lemma ancestor_depth:
  assumes "ok s K" "b \<in> K" "ht s b = Some h" "is_ancestor (par s) a b"
  obtains n where "nth_parent (par s) b n = Some a" "n \<le> h" "ht s a = Some (h - n)" "a \<in> K"
  using assms nth_parent_height unfolding is_ancestor_def by metis

lemma equalize_correct:
  assumes "ok s K" "b0 \<in> K" "b1 \<in> K" "ht s b0 = Some h0" "ht s b1 = Some h1"
  obtains c0 c1 where "equalize_heights (anc s) b0 h0 b1 h1 = Inr (c0, c1, min h0 h1)"
    "nth_parent (par s) b0 (h0 - min h0 h1) = Some c0"
    "nth_parent (par s) b1 (h1 - min h0 h1) = Some c1"
    "c0 \<in> K" "c1 \<in> K" "ht s c0 = Some (min h0 h1)" "ht s c1 = Some (min h0 h1)"
proof -
  obtain c0 where c0: "c0 \<in> K" "nth_parent (par s) b0 (h0 - min h0 h1) = Some c0"
      "ht s c0 = Some (min h0 h1)"
    using nth_parent_total [OF assms(1,2,4), of "h0 - min h0 h1"] by auto
  obtain c1 where c1: "c1 \<in> K" "nth_parent (par s) b1 (h1 - min h0 h1) = Some c1"
      "ht s c1 = Some (min h0 h1)"
    using nth_parent_total [OF assms(1,3,5), of "h1 - min h0 h1"] by auto
  have "equalize_heights (anc s) b0 h0 b1 h1 = Inr (c0, c1, min h0 h1)"
    using anc_correct [OF assms(1,2) c0(2)] anc_correct [OF assms(1,3) c1(2)] c0(2) c1(2)
    by (auto simp: equalize_heights_def min_def split: if_splits)
  with c0 c1 that show ?thesis by blast
qed

lemma same_depth_ancestor:
  assumes "ok s K" "b0 \<in> K" "b1 \<in> K" "ht s b0 = Some h" "ht s b1 = Some h"
    and "is_ancestor (par s) a b0" "is_ancestor (par s) a b1"
  obtains n where "nth_parent (par s) b0 n = Some a" "nth_parent (par s) b1 n = Some a" "n \<le> h"
proof -
  from assms obtain n m where "nth_parent (par s) b0 n = Some a" "n \<le> h" "ht s a = Some (h - n)"
      "nth_parent (par s) b1 m = Some a" "m \<le> h" "ht s a = Some (h - m)"
    by (metis ancestor_depth)
  moreover from this have "n = m" by simp
  ultimately show ?thesis using that by blast
qed

lemma last_common_below:
  assumes "ok s K" "b \<in> K" "ht s b = Some h" "nth_parent (par s) b n = Some c"
    and "is_ancestor (par s) a b" "ht s a = Some k" "k \<le> h - n"
  shows "is_ancestor (par s) a c"
proof -
  obtain m where m: "nth_parent (par s) b m = Some a" "m \<le> h" "k = h - m"
    using ancestor_depth [OF assms(1-3,5)] assms(6) by auto
  moreover have "n \<le> h" using nth_parent_height [OF assms(1-4)] by simp
  ultimately have "n \<le> m" using assms(7) by simp
  then have "nth_parent (par s) c (m - n) = Some a"
    using nth_parent_add [of "par s" b n "m - n"] m(1) assms(4) by simp
  then show ?thesis by (auto simp: is_ancestor_def)
qed

lemma last_common_lift:
  assumes "ok s K" "b0 \<in> K" "b1 \<in> K" "ht s b0 = Some h0" "ht s b1 = Some h1"
    and c0: "nth_parent (par s) b0 (h0 - min h0 h1) = Some c0"
    and c1: "nth_parent (par s) b1 (h1 - min h0 h1) = Some c1"
    and lc: "last_common (par s) c0 c1 c"
  shows "last_common (par s) b0 b1 c"
  unfolding last_common_def
proof (intro conjI allI impI)
  have up: "is_ancestor (par s) c0 b0" "is_ancestor (par s) c1 b1"
    using c0 c1 by (auto simp: is_ancestor_def)
  with lc show "is_ancestor (par s) c b0" "is_ancestor (par s) c b1"
    unfolding last_common_def by (blast intro: is_ancestor_trans)+
  fix d
  assume d: "is_ancestor (par s) d b0" "is_ancestor (par s) d b1"
  obtain k where k: "ht s d = Some k" "k \<le> h0" "k \<le> h1"
    using ancestor_depth [OF assms(1,2,4) d(1)] ancestor_depth [OF assms(1,3,5) d(2)]
    by (metis diff_le_self option.inject)
  have "is_ancestor (par s) d c0" "is_ancestor (par s) d c1"
    using last_common_below [OF assms(1,2,4) c0 d(1) k(1)]
      last_common_below [OF assms(1,3,5) c1 d(2) k(1)] k by auto
  with lc show "is_ancestor (par s) d c" by (simp add: last_common_def)
qed

lemma no_common:
  assumes "ok s K" "b0 \<in> K" "b1 \<in> K" "ht s b0 = Some h0" "ht s b1 = Some h1"
    and c0: "nth_parent (par s) b0 (h0 - min h0 h1) = Some c0"
    and c1: "nth_parent (par s) b1 (h1 - min h0 h1) = Some c1"
    and r: "nth_parent (par s) c0 (min h0 h1) = Some r0" "nth_parent (par s) c1 (min h0 h1) = Some r1"
    and ne: "r0 \<noteq> r1"
  shows "\<not> (is_ancestor (par s) e b0 \<and> is_ancestor (par s) e b1)"
proof
  assume "is_ancestor (par s) e b0 \<and> is_ancestor (par s) e b1"
  then obtain n m where e: "nth_parent (par s) b0 n = Some e" "n \<le> h0" "ht s e = Some (h0 - n)"
      "nth_parent (par s) b1 m = Some e" "m \<le> h1" "ht s e = Some (h1 - m)" "e \<in> K"
    using ancestor_depth [OF assms(1,2,4)] ancestor_depth [OF assms(1,3,5)] by metis
  have "nth_parent (par s) b0 h0 = Some r0" "nth_parent (par s) b1 h1 = Some r1"
    using nth_parent_add [of "par s" b0 "h0 - min h0 h1" "min h0 h1"] c0 r(1)
      nth_parent_add [of "par s" b1 "h1 - min h0 h1" "min h0 h1"] c1 r(2) by simp_all
  then have "nth_parent (par s) e (h0 - n) = Some r0" "nth_parent (par s) e (h1 - m) = Some r1"
    using nth_parent_add [of "par s" b0 n "h0 - n"] nth_parent_add [of "par s" b1 m "h1 - m"] e
    by simp_all
  moreover have "h0 - n = h1 - m" using e by simp
  ultimately show False using ne by simp
qed

lemma equal_level_iff:
  assumes "ok s K" "b0 \<in> K" "b1 \<in> K" "ht s b0 = Some h0" "ht s b1 = Some h1"
    and c0: "nth_parent (par s) b0 (h0 - min h0 h1) = Some c0"
    and c1: "nth_parent (par s) b1 (h1 - min h0 h1) = Some c1"
  shows "c0 = c1 \<longleftrightarrow> is_ancestor (par s) b0 b1 \<or> is_ancestor (par s) b1 b0"
proof
  assume "c0 = c1"
  with c0 c1 show "is_ancestor (par s) b0 b1 \<or> is_ancestor (par s) b1 b0"
    unfolding is_ancestor_def by (cases "h0 \<le> h1") (auto simp: min_def split: if_splits)
next
  assume "is_ancestor (par s) b0 b1 \<or> is_ancestor (par s) b1 b0"
  then show "c0 = c1"
  proof
    assume "is_ancestor (par s) b0 b1"
    then obtain n where "nth_parent (par s) b1 n = Some b0" "n \<le> h1" "h0 = h1 - n"
      using ancestor_depth [OF assms(1,3,5)] assms(4) by (metis option.inject)
    with c0 c1 show "c0 = c1" by (simp add: min_def)
  next
    assume "is_ancestor (par s) b1 b0"
    then obtain n where "nth_parent (par s) b0 n = Some b1" "n \<le> h0" "h1 = h0 - n"
      using ancestor_depth [OF assms(1,2,4)] assms(5) by (metis option.inject)
    with c0 c1 show "c0 = c1" by (cases "n = 0") (auto simp: min_def split: if_splits)
  qed
qed

lemma lca_search_correct:
  assumes "ok s K" "b0 \<in> K" "b1 \<in> K" "ht s b0 = Some h" "ht s b1 = Some h" "h < 2 ^ 31"
  shows "1 \<le> lo \<Longrightarrow> lo \<le> hi \<Longrightarrow> hi \<le> h
    \<Longrightarrow> nth_parent (par s) b0 hi = nth_parent (par s) b1 hi
    \<Longrightarrow> nth_parent (par s) b0 (lo - 1) \<noteq> nth_parent (par s) b1 (lo - 1)
    \<Longrightarrow> \<exists>d. lca_search (anc s) b0 b1 lo hi = Inr d \<and> 1 \<le> d \<and> d \<le> h
          \<and> nth_parent (par s) b0 d = nth_parent (par s) b1 d
          \<and> nth_parent (par s) b0 (d - 1) \<noteq> nth_parent (par s) b1 (d - 1)"
proof (induction "hi - lo" arbitrary: lo hi rule: less_induct)
  case less
  show ?case
  proof (cases "lo < hi")
    case False
    with less.prems show ?thesis by (subst lca_search.simps) auto
  next
    case True
    define mid where "mid = (lo + hi) div 2"
    have mid: "lo \<le> mid" "mid < hi" "mid \<le> h" "mid - lo < hi - lo" "hi - (mid + 1) < hi - lo"
      using True less.prems(3) by (auto simp: mid_def)
    obtain a0 a1 where a: "nth_parent (par s) b0 mid = Some a0" "nth_parent (par s) b1 mid = Some a1"
      using nth_parent_total [OF assms(1,2,4) mid(3)] nth_parent_total [OF assms(1,3,5) mid(3)]
      by auto
    have "lo + hi < 2 ^ 32" using True less.prems(3) assms(6) by simp
    then have step: "lca_search (anc s) b0 b1 lo hi
        = (if a0 = a1 then lca_search (anc s) b0 b1 lo mid
           else lca_search (anc s) b0 b1 (mid + 1) hi)"
      using True anc_correct [OF assms(1,2) a(1)] anc_correct [OF assms(1,3) a(2)]
      by (subst lca_search.simps) (simp add: mid_def [symmetric] add_u32_ok)
    show ?thesis
    proof (cases "a0 = a1")
      case True
      with less.hyps [OF mid(4)] less.prems mid a step show ?thesis by simp
    next
      case False
      with less.hyps [OF mid(5)] less.prems mid a step show ?thesis by simp
    qed
  qed
qed

lemma lca_level_correct:
  assumes "ok s K" "b0 \<in> K" "b1 \<in> K" "ht s b0 = Some h" "ht s b1 = Some h" "h < 2 ^ 31"
    and ne: "b0 \<noteq> b1" and root: "nth_parent (par s) b0 h = nth_parent (par s) b1 h"
  obtains d c where "lca_search (anc s) b0 b1 1 h = Inr d" "anc s b0 d = Inr c"
    "last_common (par s) b0 b1 c"
proof -
  have "h \<noteq> 0" using ne root by (cases h) auto
  then obtain d where d: "lca_search (anc s) b0 b1 1 h = Inr d" "1 \<le> d" "d \<le> h"
      "nth_parent (par s) b0 d = nth_parent (par s) b1 d"
      "nth_parent (par s) b0 (d - 1) \<noteq> nth_parent (par s) b1 (d - 1)"
    using lca_search_correct [OF assms(1-6), of 1 h] ne root by auto
  obtain c where c: "nth_parent (par s) b0 d = Some c"
    using nth_parent_total [OF assms(1,2,4) d(3)] by auto
  have "is_ancestor (par s) e c" if "is_ancestor (par s) e b0" "is_ancestor (par s) e b1" for e
  proof -
    from that obtain n where n: "nth_parent (par s) b0 n = Some e" "nth_parent (par s) b1 n = Some e"
      using same_depth_ancestor [OF assms(1-5)] by metis
    have "d \<le> n"
    proof (rule ccontr)
      assume "\<not> d \<le> n"
      then have "d - 1 = n + (d - 1 - n)" by simp
      with n have "nth_parent (par s) b0 (d - 1) = nth_parent (par s) b1 (d - 1)"
        by (metis nth_parent_add)
      with d(5) show False by contradiction
    qed
    then have "nth_parent (par s) c (n - d) = Some e"
      using nth_parent_add [of "par s" b0 d "n - d"] n(1) c by simp
    then show ?thesis by (auto simp: is_ancestor_def)
  qed
  then have "last_common (par s) b0 b1 c"
    using c d(4) by (auto simp: last_common_def is_ancestor_def)
  with d(1) anc_correct [OF assms(1,2) c] that show ?thesis by blast
qed

lemma exponential_loop_correct:
  assumes ok: "ok s K" and p: "p \<in> K" "ht s p = Some h" "par s b = Some p" "Suc h < 2 ^ 32"
  shows "2 \<le> k \<Longrightarrow> length xs = k - 1 \<Longrightarrow> 2 ^ (k - 1) \<le> Suc h
    \<Longrightarrow> (\<forall>i < length xs. nth_parent (par s) b (2 ^ Suc i) = Some (xs ! i))
    \<Longrightarrow> \<exists>ys. exponential_loop (anc s) (Suc h) xs k = Inr ys \<and> expo_entry (par s) b (Suc h) ys"
proof (induction "Suc h - k" arbitrary: k xs rule: less_induct)
  case less
  show ?case
  proof (cases "2 ^ k \<le> Suc h")
    case False
    then have "ilog2 (Suc h) = k - 1" using less.prems(1,3) by (intro ilog2_unique) simp_all
    with False less.prems show ?thesis
      by (subst exponential_loop.simps) (simp add: expo_entry_def)
  next
    case True
    obtain j where j: "k = Suc (Suc j)" using less.prems(1) by (metis add_2_eq_Suc le_Suc_ex)
    have half: "(2 ^ k mod 2 ^ 32) div 2 = (2::nat) ^ (k - 1)" using True p(4) j by simp
    have lst: "last xs = xs ! j" using less.prems(2) j by (subst last_conv_nth) auto
    have at: "nth_parent (par s) b (2 ^ Suc j) = Some (xs ! j)"
      using less.prems(2,4) j by (metis Suc_diff_1 diff_Suc_1 lessI)
    have dbl: "(2::nat) ^ k = Suc (2 ^ k - 1)" "(2::nat) ^ Suc j = Suc (2 ^ Suc j - 1)" by simp_all
    obtain c where c: "nth_parent (par s) p (2 ^ k - 1) = Some c"
      using nth_parent_total [OF ok p(1,2), of "2 ^ k - 1"] True by (auto simp: le_diff_conv)
    have cb: "nth_parent (par s) b (2 ^ k) = Some c" 
      using c p(3) nth_parent.simps(2) [of "par s" b "2 ^ k - 1"] by (simp only: dbl(1) [symmetric]) simp
    have "nth_parent (par s) p (2 ^ Suc j - 1) = Some (xs ! j)"
      using at p(3) nth_parent.simps(2) [of "par s" b "2 ^ Suc j - 1"]
      by (simp only: dbl(2) [symmetric]) simp
    then have K: "xs ! j \<in> K" using nth_parent_height [OF ok p(1,2)] by blast
    have "nth_parent (par s) (xs ! j) (2 ^ (k - 1)) = Some c"
      using cb at nth_parent_add [of "par s" b "2 ^ Suc j" "2 ^ Suc j"] j by (simp add: mult_2)
    then have a: "anc s (last xs) ((2 ^ k mod 2 ^ 32) div 2) = Inr c"
      unfolding half lst by (rule anc_correct [OF ok K])
    have entries: "\<forall>i < length (xs @ [c]). nth_parent (par s) b (2 ^ Suc i) = Some ((xs @ [c]) ! i)"
    proof (intro allI impI)
      fix i
      assume "i < length (xs @ [c])"
      then consider "i < length xs" | "i = length xs" by fastforce
      then show "nth_parent (par s) b (2 ^ Suc i) = Some ((xs @ [c]) ! i)"
      proof cases
        case 1
        with less.prems(4) show ?thesis by (simp add: nth_append del: power_Suc)
      next
        case 2
        with less.prems(2) cb j show ?thesis by (simp add: nth_append)
      qed
    qed
    have "Suc h - Suc k < Suc h - k" using True less_exp [of k] by linarith
    from less.hyps [OF this, of "xs @ [c]"] entries True less.prems(1,2)
    obtain ys where ys: "exponential_loop (anc s) (Suc h) (xs @ [c]) (Suc k) = Inr ys"
        "expo_entry (par s) b (Suc h) ys" by fastforce
    then show ?thesis using True a by (subst exponential_loop.simps) simp
  qed
qed

lemma exponential_ancestors_correct:
  assumes "ok s K" "p \<in> K" "ht s p = Some h" "par s b = Some p" "Suc h < 2 ^ 32"
  obtains xs where "exponential_ancestors_of (anc s) (Suc h) (Some p) = Inr xs"
    "expo_entry (par s) b (Suc h) xs"
proof (cases "h = 0")
  case True
  then show ?thesis using that [of "[]"]
    by (simp add: exponential_ancestors_of_def expo_entry_def ilog2.simps)
next
  case False
  obtain g where g: "nth_parent (par s) p 1 = Some g"
    using nth_parent_total [OF assms(1-3), of 1] False by auto
  then have "nth_parent (par s) b (2 ^ Suc 0) = Some g" by (simp add: assms(4) numeral_2_eq_2)
  then obtain ys where "exponential_loop (anc s) (Suc h) [g] 2 = Inr ys"
      "expo_entry (par s) b (Suc h) ys"
    using exponential_loop_correct [OF assms, of 2 "[g]"] False by auto
  with anc_correct [OF assms(1,2) g] False that show ?thesis
    by (auto simp: exponential_ancestors_of_def)
qed

end

section \<open>Adding a block to an index\<close>

lemma index_ok_closed: "index_ok ht par ex K \<Longrightarrow> b \<in> K \<Longrightarrow> par b = Some p \<Longrightarrow> p \<in> K"
  unfolding index_ok_def by (metis node_ok_cases option.distinct(1) option.inject)

lemma node_ok_cong:
  assumes "index_ok ht par ex K" "b \<in> K" "ex' b = ex b"
    and "\<And>b. b \<in> K \<Longrightarrow> ht' b = ht b \<and> par' b = par b"
  shows "node_ok ht' par' ex' K b"
proof -
  have "nth_parent par b n = nth_parent par' b n" for n
    using nth_parent_cong [of K par par' b n] index_ok_closed [OF assms(1)] assms(2,4) by metis
  then have e: "expo_entry par' b h xs = expo_entry par b h xs" for h xs
    by (simp add: expo_entry_def)
  have "node_ok ht par ex K b" using assms(1,2) by (simp add: index_ok_def)
  then show ?thesis
    by (elim node_ok_cases) (use assms(2-4) e in \<open>auto simp: node_ok_genesis node_ok_Suc\<close>)
qed

lemma index_ok_cong:
  assumes "index_ok ht par ex K"
    and "\<And>b. b \<in> K \<Longrightarrow> ht' b = ht b \<and> par' b = par b \<and> ex' b = ex b"
  shows "index_ok ht' par' ex' K"
  using assms(2) by (auto simp: index_ok_def intro: node_ok_cong [OF assms(1)])

lemma index_ok_insert:
  assumes "index_ok ht par ex K"
    and "p \<in> K" "ht p = Some h" "Suc h < 2 ^ 32"
    and "b \<in> K \<Longrightarrow> par b = Some p"
    and "ht' b = Some (Suc h)" "par' b = Some p" "ex' b = Some xs" "expo_entry par' b (Suc h) xs"
    and "\<And>c. c \<in> K \<Longrightarrow> c \<noteq> b \<Longrightarrow> ht' c = ht c \<and> par' c = par c \<and> ex' c = ex c"
  shows "index_ok ht' par' ex' (insert b K)"
proof -
  have "ht b = Some (Suc h)" if "b \<in> K"
    using assms(1,3,5) that unfolding index_ok_def by (fastforce elim: node_ok_cases)
  then have same: "ht' c = ht c \<and> par' c = par c" if "c \<in> K" for c
    using that assms(5,6,7,10) by (cases "c = b") auto
  have "node_ok ht' par' ex' (insert b K) b"
    using assms(2-4,6-9) same [of p] by (auto simp: node_ok_Suc)
  moreover have "node_ok ht' par' ex' (insert b K) c" if "c \<in> K" "c \<noteq> b" for c
    using that assms(10) same by (intro node_ok_mono [OF node_ok_cong [OF assms(1)]]) auto
  ultimately show ?thesis unfolding index_ok_def by blast
qed

lemma index_ok_insert_genesis:
  assumes "index_ok ht par ex K"
    and "b \<in> K \<Longrightarrow> par b = None" "ht' b = Some 0" "par' b = None"
    and "\<And>c. c \<in> K \<Longrightarrow> c \<noteq> b \<Longrightarrow> ht' c = ht c \<and> par' c = par c \<and> ex' c = ex c"
  shows "index_ok ht' par' ex' (insert b K)"
proof -
  have "ht b = Some 0" if "b \<in> K"
    using assms(1,2) that unfolding index_ok_def by (fastforce elim: node_ok_cases)
  then have same: "ht' c = ht c \<and> par' c = par c" if "c \<in> K" for c
    using that assms(2-5) by (cases "c = b") auto
  have "node_ok ht' par' ex' (insert b K) c" if "c \<in> K" "c \<noteq> b" for c
    using that assms(5) same by (intro node_ok_mono [OF node_ok_cong [OF assms(1)]]) auto
  moreover have "node_ok ht' par' ex' (insert b K) b" using assms(3,4) by (simp add: node_ok_genesis)
  ultimately show ?thesis unfolding index_ok_def by blast
qed

text \<open>
  The successor sets invert the map \<open>pk\<close> from a block to the key of its predecessor, and exist for
  exactly the keys \<open>D\<close>.
\<close>

definition succ_ok :: "'k set \<Rightarrow> ('b \<Rightarrow> 'k option) \<Rightarrow> ('k, 'b list) db \<Rightarrow> bool" where
  "succ_ok D pk S \<longleftrightarrow> fmdom' S = D
     \<and> (\<forall>p s. fmlookup S p = Some s \<longrightarrow> (\<forall>b. b \<in> set s \<longleftrightarrow> pk b = Some p))"

lemma succ_ok_link:
  assumes S: "succ_ok D pk S" and p: "fmlookup S p = Some preds" "k \<noteq> p"
    and b: "pk b = None \<or> pk b = Some p"
    and k: "k \<notin> D \<Longrightarrow> (\<forall>c. pk c \<noteq> Some k)"
  shows "succ_ok (insert k D) (pk(b := Some p)) (link_successor p k b preds S)"
proof -
  have dom: "fmdom' S = D" and inv: "\<And>q s c. fmlookup S q = Some s \<Longrightarrow> c \<in> set s \<longleftrightarrow> pk c = Some q"
    using S by (auto simp: succ_ok_def)
  have pD: "p \<in> D" using p(1) dom by (auto dest: fmdom'I)
  have "c \<in> set s \<longleftrightarrow> (pk(b := Some p)) c = Some q"
    if l: "fmlookup (link_successor p k b preds S) q = Some s" for q s c
  proof -
    consider "q = k" | "q \<noteq> k" "q = p" | "q \<noteq> k" "q \<noteq> p" by blast
    then show ?thesis
    proof cases
      case 1
      show ?thesis
      proof (cases "fmlookup S k")
        case None
        then have "k \<notin> D" unfolding dom [symmetric] by (simp add: fmlookup_dom'_iff)
        with k 1 None l p(2) show ?thesis by (auto simp: link_successor_def Let_def)
      next
        case (Some s')
        with 1 l p(2) inv [OF Some] b show ?thesis by (auto simp: link_successor_def Let_def)
      qed
    next
      case 2
      then have "s = List.insert b preds" using l by (simp add: link_successor_def Let_def)
      with 2 inv [OF p(1), of c] show ?thesis by auto
    next
      case 3
      then have "fmlookup S q = Some s" using l by (simp add: link_successor_def Let_def)
      from inv [OF this, of c] 3 b show ?thesis by (auto simp: link_successor_def Let_def)
    qed
  qed
  moreover have "fmdom' (link_successor p k b preds S) = insert k D"
    using dom pD by (auto simp: link_successor_def Let_def)
  ultimately show ?thesis by (simp add: succ_ok_def)
qed

end
