(* ===== verification/Archive.thy ===== *)
theory Archive
  imports Types Chain_Index "HOL-Library.AList" "HOL-Library.Option_ord"
begin

text \<open>
  \<open>lib/archive.rs\<close>: the store of sidechain and mainchain headers, bodies, BMM results, and the
  exponential ancestor indexes over both chains.

  A \<open>HashSet\<close> is the list of its distinct elements and a \<open>HashMap\<close> an association list with
  distinct keys, both in some iteration order. Iteration over the ancestors of a block gets the
  number of stored headers as fuel: a longer walk has met a block twice and never ends, which the
  model reports as \<open>Diverge\<close>.
\<close>

section \<open>State\<close>

record version =
  major :: nat
  minor :: nat
  patch :: nat

datatype archive_error =
    DbMissingKey
  | IncompatibleVersion version
  | InvalidMerkleRoot
  | InvalidPrevSideHash
  | NoAccumulator block_hash
  | NoAncestor block_hash nat
  | NoMainAncestor main_hash nat
  | NoBlockHash block_hash
  | NoBmmResult block_hash
  | NoBody block_hash
  | NoDepositsInfo main_hash
  | NoHeader block_hash
  | NoHeight block_hash
  | NoMainBlockHash main_hash
  | NoMainBlockInfo main_hash
  | NoMainHeaderInfo main_hash
  | NoMainHeight main_hash

type_synonym bmm_map = "(main_hash \<times> bmm_result) list"

record ('acc, 'fr, 'pf) archive =
  accumulators :: "(block_hash option, 'acc) db"
  block_hash_to_height :: "(block_hash, nat) db"
  bmm_results :: "(block_hash, bmm_map) db"
  bodies :: "(block_hash, 'pf body) db"
  exponential_ancestors :: "(block_hash, block_hash list) db"
  exponential_main_ancestors :: "(main_hash, main_hash list) db"
  headers :: "(block_hash, header) db"
  main_block_hash_to_height :: "(main_hash, nat) db"
  main_block_infos :: "(main_hash, block_info) db"
  main_header_infos :: "(main_hash, block_header_info) db"
  main_successors :: "(main_hash, main_hash list) db"
  orchard_frontiers :: "(block_hash option, 'fr) db"
  successors :: "(block_hash option, block_hash list) db"
  total_work :: "(main_hash, nat) db"
  txid_to_inclusions :: "(txid, (block_hash, nat) fmap) db"
  archive_version :: "version option"

type_synonym 'a archive_result = "(archive_error, 'a) result"

text \<open>\<open>Archive::new\<close> on the databases found on disk.\<close>

definition version_less :: "version \<Rightarrow> version \<Rightarrow> bool" where
  "version_less v w \<longleftrightarrow> major v < major w
     \<or> major v = major w \<and> (minor v < minor w \<or> minor v = minor w \<and> patch v < patch w)"

definition put_default :: "'k \<Rightarrow> 'v \<Rightarrow> ('k, 'v) db \<Rightarrow> ('k, 'v) db" where
  "put_default k v m = (if has_key m k then m else fmupd k v m)"

definition archive_new ::
  "('acc, 'fr, 'pf) ext \<Rightarrow> version \<Rightarrow> ('acc, 'fr, 'pf) archive \<Rightarrow> ('acc, 'fr, 'pf) archive archive_result"
where
  "archive_new E VERSION A =
     and_then
       (case archive_version A of
          Some db_version \<Rightarrow>
            if version_less db_version \<lparr>major = 0, minor = 16, patch = 0\<rparr>
            then Inl (Err (IncompatibleVersion db_version)) else Inr A
        | None \<Rightarrow> Inr (A\<lparr>archive_version := Some VERSION\<rparr>))
       (\<lambda>A. Inr (A\<lparr>accumulators := put_default None (accumulator_default E) (accumulators A),
                  main_successors := put_default all_zeros [] (main_successors A),
                  orchard_frontiers := put_default None (frontier_empty E) (orchard_frontiers A),
                  successors := put_default None [] (successors A)\<rparr>))"

definition empty_archive :: "('acc, 'fr, 'pf) archive" where
  "empty_archive =
     \<lparr>accumulators = fmempty, block_hash_to_height = fmempty, bmm_results = fmempty,
      bodies = fmempty, exponential_ancestors = fmempty, exponential_main_ancestors = fmempty,
      headers = fmempty, main_block_hash_to_height = fmempty, main_block_infos = fmempty,
      main_header_infos = fmempty, main_successors = fmempty, orchard_frontiers = fmempty,
      successors = fmempty, total_work = fmempty, txid_to_inclusions = fmempty,
      archive_version = None\<rparr>"

section \<open>Lookups\<close>

definition get_accumulator ::
  "('acc, 'fr, 'pf) archive \<Rightarrow> block_hash option \<Rightarrow> 'acc archive_result" where
  "get_accumulator A b =
     (case fmlookup (accumulators A) b of Some acc \<Rightarrow> Inr acc
      | None \<Rightarrow> (case b of Some h \<Rightarrow> Inl (Err (NoAccumulator h)) | None \<Rightarrow> Inl Panic))"

definition try_get_height :: "('acc, 'fr, 'pf) archive \<Rightarrow> block_hash \<Rightarrow> nat option" where
  "try_get_height A b = fmlookup (block_hash_to_height A) b"

definition get_height :: "('acc, 'fr, 'pf) archive \<Rightarrow> block_hash \<Rightarrow> nat archive_result" where
  "get_height A b = ok_or (NoHeight b) (try_get_height A b)"

definition get_bmm_results :: "('acc, 'fr, 'pf) archive \<Rightarrow> block_hash \<Rightarrow> bmm_map" where
  "get_bmm_results A b = (case fmlookup (bmm_results A) b of Some m \<Rightarrow> m | None \<Rightarrow> [])"

definition try_get_bmm_result ::
  "('acc, 'fr, 'pf) archive \<Rightarrow> block_hash \<Rightarrow> main_hash \<Rightarrow> bmm_result option" where
  "try_get_bmm_result A b m = map_of (get_bmm_results A b) m"

definition get_bmm_result ::
  "('acc, 'fr, 'pf) archive \<Rightarrow> block_hash \<Rightarrow> main_hash \<Rightarrow> bmm_result archive_result" where
  "get_bmm_result A b m = ok_or (NoBmmResult b) (try_get_bmm_result A b m)"

definition try_get_body :: "('acc, 'fr, 'pf) archive \<Rightarrow> block_hash \<Rightarrow> 'pf body option" where
  "try_get_body A b = fmlookup (bodies A) b"

definition get_body :: "('acc, 'fr, 'pf) archive \<Rightarrow> block_hash \<Rightarrow> 'pf body archive_result" where
  "get_body A b = ok_or (NoBody b) (try_get_body A b)"

definition try_get_header :: "('acc, 'fr, 'pf) archive \<Rightarrow> block_hash \<Rightarrow> header option" where
  "try_get_header A b = fmlookup (headers A) b"

definition get_header :: "('acc, 'fr, 'pf) archive \<Rightarrow> block_hash \<Rightarrow> header archive_result" where
  "get_header A b = ok_or (NoHeader b) (try_get_header A b)"

definition try_get_main_block_info ::
  "('acc, 'fr, 'pf) archive \<Rightarrow> main_hash \<Rightarrow> block_info option" where
  "try_get_main_block_info A m = fmlookup (main_block_infos A) m"

definition get_main_block_info ::
  "('acc, 'fr, 'pf) archive \<Rightarrow> main_hash \<Rightarrow> block_info archive_result" where
  "get_main_block_info A m = ok_or (NoMainBlockInfo m) (try_get_main_block_info A m)"

definition try_get_main_height :: "('acc, 'fr, 'pf) archive \<Rightarrow> main_hash \<Rightarrow> nat option" where
  "try_get_main_height A m =
     (if m = all_zeros then Some 0 else fmlookup (main_block_hash_to_height A) m)"

definition get_main_height :: "('acc, 'fr, 'pf) archive \<Rightarrow> main_hash \<Rightarrow> nat archive_result" where
  "get_main_height A m = ok_or (NoMainHeight m) (try_get_main_height A m)"

definition try_get_main_header_info ::
  "('acc, 'fr, 'pf) archive \<Rightarrow> main_hash \<Rightarrow> block_header_info option" where
  "try_get_main_header_info A m = fmlookup (main_header_infos A) m"

definition get_main_header_info ::
  "('acc, 'fr, 'pf) archive \<Rightarrow> main_hash \<Rightarrow> block_header_info archive_result" where
  "get_main_header_info A m = ok_or (NoMainHeaderInfo m) (try_get_main_header_info A m)"

definition try_get_main_successors ::
  "('acc, 'fr, 'pf) archive \<Rightarrow> main_hash \<Rightarrow> main_hash list option" where
  "try_get_main_successors A m = fmlookup (main_successors A) m"

definition get_main_successors ::
  "('acc, 'fr, 'pf) archive \<Rightarrow> main_hash \<Rightarrow> main_hash list archive_result" where
  "get_main_successors A m = ok_or (NoMainBlockHash m) (try_get_main_successors A m)"

definition try_get_successors ::
  "('acc, 'fr, 'pf) archive \<Rightarrow> block_hash option \<Rightarrow> block_hash list option" where
  "try_get_successors A b = fmlookup (successors A) b"

definition get_successors ::
  "('acc, 'fr, 'pf) archive \<Rightarrow> block_hash option \<Rightarrow> block_hash list archive_result" where
  "get_successors A b =
     (case try_get_successors A b of Some s \<Rightarrow> Inr s
      | None \<Rightarrow> (case b of Some h \<Rightarrow> Inl (Err (NoBlockHash h)) | None \<Rightarrow> Inl Panic))"

definition try_get_total_work :: "('acc, 'fr, 'pf) archive \<Rightarrow> main_hash \<Rightarrow> nat option" where
  "try_get_total_work A m = fmlookup (total_work A) m"

definition get_total_work :: "('acc, 'fr, 'pf) archive \<Rightarrow> main_hash \<Rightarrow> nat archive_result" where
  "get_total_work A m = ok_or (NoMainHeaderInfo m) (try_get_total_work A m)"

definition get_tx_inclusions :: "('acc, 'fr, 'pf) archive \<Rightarrow> txid \<Rightarrow> (block_hash, nat) fmap" where
  "get_tx_inclusions A t =
     (case fmlookup (txid_to_inclusions A) t of Some m \<Rightarrow> m | None \<Rightarrow> fmempty)"

definition try_get_best_main_verification ::
  "('acc, 'fr, 'pf) archive \<Rightarrow> block_hash \<Rightarrow> main_hash option archive_result" where
  "try_get_best_main_verification A b =
     max_by_key (get_total_work A) [m. (m, r) \<leftarrow> get_bmm_results A b, r = BmmVerified]"

definition get_best_main_verification ::
  "('acc, 'fr, 'pf) archive \<Rightarrow> block_hash \<Rightarrow> main_hash archive_result" where
  "get_best_main_verification A b =
     and_then (try_get_best_main_verification A b) (ok_or (NoBmmResult b))"

section \<open>Ancestors\<close>

definition get_exponential_ancestors ::
  "('acc, 'fr, 'pf) archive \<Rightarrow> block_hash \<Rightarrow> block_hash list archive_result" where
  "get_exponential_ancestors A b = ok_or DbMissingKey (fmlookup (exponential_ancestors A) b)"

definition get_parent :: "('acc, 'fr, 'pf) archive \<Rightarrow> block_hash \<Rightarrow> block_hash archive_result" where
  "get_parent A b = and_then (get_header A b) (\<lambda>h. expect (prev_side_hash h))"

definition get_nth_ancestor ::
  "('acc, 'fr, 'pf) archive \<Rightarrow> block_hash \<Rightarrow> nat \<Rightarrow> block_hash archive_result" where
  "get_nth_ancestor A b n =
     nth_ancestor_loop (get_height A) (get_parent A) (get_exponential_ancestors A)
       (NoAncestor b n) b n"

definition get_exponential_main_ancestors ::
  "('acc, 'fr, 'pf) archive \<Rightarrow> main_hash \<Rightarrow> main_hash list archive_result" where
  "get_exponential_main_ancestors A m =
     ok_or DbMissingKey (fmlookup (exponential_main_ancestors A) m)"

definition get_main_parent :: "('acc, 'fr, 'pf) archive \<Rightarrow> main_hash \<Rightarrow> main_hash archive_result" where
  "get_main_parent A m = map_ok prev_block_hash (get_main_header_info A m)"

definition get_nth_main_ancestor ::
  "('acc, 'fr, 'pf) archive \<Rightarrow> main_hash \<Rightarrow> nat \<Rightarrow> main_hash archive_result" where
  "get_nth_main_ancestor A m n =
     nth_ancestor_loop (get_main_height A) (get_main_parent A) (get_exponential_main_ancestors A)
       (NoMainAncestor m n) m n"

definition get_block_locator ::
  "('acc, 'fr, 'pf) archive \<Rightarrow> block_hash \<Rightarrow> block_hash list archive_result" where
  "get_block_locator A b =
     and_then (get_header A b) (\<lambda>header.
     and_then (get_exponential_ancestors A b) (\<lambda>res.
     case prev_side_hash header of
       Some parent \<Rightarrow> Inr (rev (rev res @ [parent]))
     | None \<Rightarrow> Inr res))"

definition is_descendant ::
  "('acc, 'fr, 'pf) archive \<Rightarrow> block_hash \<Rightarrow> block_hash \<Rightarrow> bool archive_result" where
  "is_descendant A ancestor descendant =
     descendant_test (get_height A) (get_nth_ancestor A) ancestor descendant"

definition is_main_descendant ::
  "('acc, 'fr, 'pf) archive \<Rightarrow> main_hash \<Rightarrow> main_hash \<Rightarrow> bool archive_result" where
  "is_main_descendant A ancestor descendant =
     descendant_test (get_main_height A) (get_nth_main_ancestor A) ancestor descendant"

definition last_common_ancestor ::
  "('acc, 'fr, 'pf) archive \<Rightarrow> block_hash \<Rightarrow> block_hash \<Rightarrow> block_hash option archive_result" where
  "last_common_ancestor A block_hash0 block_hash1 =
     and_then (get_height A block_hash0) (\<lambda>height0.
     and_then (get_height A block_hash1) (\<lambda>height1.
     and_then (equalize_heights (get_nth_ancestor A) block_hash0 height0 block_hash1 height1)
       (\<lambda>(block_hash0, block_hash1, height0).
     if block_hash0 = block_hash1 then Inr (Some block_hash0)
     else
       and_then (get_nth_ancestor A block_hash0 height0) (\<lambda>oldest_ancestor_0.
       and_then (get_nth_ancestor A block_hash1 height0) (\<lambda>oldest_ancestor_1.
       if oldest_ancestor_0 \<noteq> oldest_ancestor_1 then Inr None
       else
         and_then (lca_search (get_nth_ancestor A) block_hash0 block_hash1 1 height0) (\<lambda>hi_depth.
         map_ok Some (get_nth_ancestor A block_hash0 hi_depth)))))))"

definition last_common_main_ancestor ::
  "('acc, 'fr, 'pf) archive \<Rightarrow> main_hash \<Rightarrow> main_hash \<Rightarrow> main_hash archive_result" where
  "last_common_main_ancestor A block_hash0 block_hash1 =
     and_then (get_main_height A block_hash0) (\<lambda>height0.
     and_then (get_main_height A block_hash1) (\<lambda>height1.
     and_then (equalize_heights (get_nth_main_ancestor A) block_hash0 height0 block_hash1 height1)
       (\<lambda>(block_hash0, block_hash1, height0).
     if block_hash0 = block_hash1 then Inr block_hash0
     else
       and_then (lca_search (get_nth_main_ancestor A) block_hash0 block_hash1 1 height0) (\<lambda>hi_depth.
       get_nth_main_ancestor A block_hash0 hi_depth))))"

definition shared_mainchain_lineage ::
  "('acc, 'fr, 'pf) archive \<Rightarrow> main_hash \<Rightarrow> main_hash \<Rightarrow> bool archive_result" where
  "shared_mainchain_lineage A block_hash0 block_hash1 =
     and_then (get_main_height A block_hash0) (\<lambda>height0.
     and_then (get_main_height A block_hash1) (\<lambda>height1.
     map_ok (\<lambda>(block_hash0, block_hash1, _). block_hash0 = block_hash1)
       (equalize_heights (get_nth_main_ancestor A) block_hash0 height0 block_hash1 height1)))"

section \<open>Iteration over ancestors\<close>

text \<open>
  \<open>AncestorHeaders::next\<close> walks the parent links from a block. \<open>find_map\<close>, \<open>take_while\<close> with
  \<open>filter_map\<close> and \<open>take\<close> on it are the three recursions below; \<open>ancestors\<close> yields only the hashes.
\<close>

definition ancestor_fuel :: "('acc, 'fr, 'pf) archive \<Rightarrow> nat" where
  "ancestor_fuel A = Suc (fcard (fmdom (headers A)))"

primrec find_map_ancestors ::
  "nat \<Rightarrow> ('acc, 'fr, 'pf) archive \<Rightarrow> (block_hash \<Rightarrow> 'r option archive_result)
    \<Rightarrow> block_hash option \<Rightarrow> 'r option archive_result" where
  "find_map_ancestors 0 A f b = Inl Diverge"
| "find_map_ancestors (Suc fuel) A f b =
     (case b of None \<Rightarrow> Inr None
      | Some block_hash \<Rightarrow>
          and_then (get_header A block_hash) (\<lambda>header.
          and_then (f block_hash) (\<lambda>r.
          case r of Some x \<Rightarrow> Inr (Some x)
          | None \<Rightarrow> find_map_ancestors fuel A f (prev_side_hash header))))"

primrec missing_bodies_loop ::
  "nat \<Rightarrow> ('acc, 'fr, 'pf) archive \<Rightarrow> block_hash option \<Rightarrow> block_hash option
    \<Rightarrow> block_hash list archive_result" where
  "missing_bodies_loop 0 A ancestor b = Inl Diverge"
| "missing_bodies_loop (Suc fuel) A ancestor b =
     (case b of None \<Rightarrow> Inr []
      | Some block_hash \<Rightarrow>
          and_then (get_header A block_hash) (\<lambda>header.
          if ancestor = Some block_hash then Inr []
          else map_ok (\<lambda>res. if try_get_body A block_hash = None then block_hash # res else res)
                 (missing_bodies_loop fuel A ancestor (prev_side_hash header))))"

definition get_missing_bodies ::
  "('acc, 'fr, 'pf) archive \<Rightarrow> block_hash \<Rightarrow> block_hash option \<Rightarrow> block_hash list archive_result" where
  "get_missing_bodies A b ancestor =
     map_ok rev (missing_bodies_loop (ancestor_fuel A) A ancestor (Some b))"

primrec take_ancestor_headers ::
  "nat \<Rightarrow> ('acc, 'fr, 'pf) archive \<Rightarrow> block_hash option \<Rightarrow> (block_hash \<times> header) list archive_result"
where
  "take_ancestor_headers 0 A b = Inr []"
| "take_ancestor_headers (Suc n) A b =
     (case b of None \<Rightarrow> Inr []
      | Some block_hash \<Rightarrow>
          and_then (get_header A block_hash) (\<lambda>header.
          map_ok (Cons (block_hash, header)) (take_ancestor_headers n A (prev_side_hash header))))"

text \<open>\<open>AncestorsRev\<close>: batches of ancestors from a start height up to a block, oldest first.\<close>

record ancestors_rev =
  batch_start_height :: "nat option"
  rev_block_hash :: block_hash
  rev_inner :: "(nat \<times> (block_hash \<times> header) list) option"

definition MAX_BATCH_SIZE :: nat where
  "MAX_BATCH_SIZE = 32"

definition ancestors_rev_new :: "block_hash \<Rightarrow> nat \<Rightarrow> ancestors_rev" where
  "ancestors_rev_new b start_height =
     \<lparr>batch_start_height = Some start_height, rev_block_hash = b, rev_inner = None\<rparr>"

definition pop_buffer ::
  "ancestors_rev \<Rightarrow> nat \<Rightarrow> (block_hash \<times> header) list \<Rightarrow> ancestors_rev \<times> (block_hash \<times> header) option"
where
  "pop_buffer it end_height buffer =
     (if buffer = [] then (it\<lparr>rev_inner := Some (end_height, [])\<rparr>, None)
      else (it\<lparr>rev_inner := Some (end_height, butlast buffer)\<rparr>, Some (last buffer)))"

definition ancestors_rev_next ::
  "('acc, 'fr, 'pf) archive \<Rightarrow> ancestors_rev
    \<Rightarrow> (ancestors_rev \<times> (block_hash \<times> header) option) archive_result" where
  "ancestors_rev_next A it =
     and_then
       (case rev_inner it of
          Some inner \<Rightarrow> Inr inner
        | None \<Rightarrow> map_ok (\<lambda>end_height. (end_height, [])) (get_height A (rev_block_hash it)))
       (\<lambda>(end_height, buffer).
     if buffer \<noteq> [] then Inr (pop_buffer it end_height buffer)
     else case batch_start_height it of
       None \<Rightarrow> Inr (it\<lparr>rev_inner := Some (end_height, [])\<rparr>, None)
     | Some batch_start \<Rightarrow>
         (case checked_sub end_height batch_start of
            None \<Rightarrow> Inr (it\<lparr>rev_inner := Some (end_height, [])\<rparr>, None)
          | Some height_diff \<Rightarrow>
              let ancestor_offset = min height_diff (MAX_BATCH_SIZE - 1);
                  batch_size = ancestor_offset + 1;
                  nth_anc = height_diff - ancestor_offset
              in and_then (get_nth_ancestor A (rev_block_hash it) nth_anc) (\<lambda>ancestor.
                 and_then (take_ancestor_headers batch_size A (Some ancestor)) (\<lambda>items.
                 let next_start = (case checked_add 32 batch_start batch_size of
                       Some s \<Rightarrow> if s \<le> end_height then Some s else None
                     | None \<Rightarrow> None)
                 in Inr (pop_buffer (it\<lparr>batch_start_height := next_start\<rparr>) end_height items)))))"

primrec missing_bodies_rev ::
  "nat \<Rightarrow> nat \<Rightarrow> ('acc, 'fr, 'pf) archive \<Rightarrow> ancestors_rev \<Rightarrow> block_hash list archive_result" where
  "missing_bodies_rev 0 n A it = Inl Diverge"
| "missing_bodies_rev (Suc fuel) n A it =
     (if n = 0 then Inr []
      else
        and_then (ancestors_rev_next A it) (\<lambda>(it, item).
        case item of None \<Rightarrow> Inr []
        | Some (ancestor, _) \<Rightarrow>
            if try_get_body A ancestor = None then map_ok (Cons ancestor) (missing_bodies_rev fuel (n - 1) A it)
            else missing_bodies_rev fuel n A it))"

text \<open>The first \<open>n\<close> items of the lazy \<open>iter_missing_bodies\<close>; it yields at most one per stored header.\<close>

definition iter_missing_bodies ::
  "('acc, 'fr, 'pf) archive \<Rightarrow> block_hash \<Rightarrow> nat \<Rightarrow> nat \<Rightarrow> block_hash list archive_result" where
  "iter_missing_bodies A b start_height n =
     missing_bodies_rev (ancestor_fuel A) n A (ancestors_rev_new b start_height)"

primrec main_ancestors_loop ::
  "nat \<Rightarrow> ('acc, 'fr, 'pf) archive \<Rightarrow> main_hash \<Rightarrow> main_hash list archive_result" where
  "main_ancestors_loop 0 A m = Inl Diverge"
| "main_ancestors_loop (Suc fuel) A m =
     (if m = all_zeros then Inr []
      else and_then (get_main_header_info A m) (\<lambda>header_info.
        map_ok (Cons m) (main_ancestors_loop fuel A (prev_block_hash header_info))))"

definition main_ancestors :: "('acc, 'fr, 'pf) archive \<Rightarrow> main_hash \<Rightarrow> main_hash list archive_result" where
  "main_ancestors A m = main_ancestors_loop (Suc (fcard (fmdom (main_header_infos A)))) A m"

section \<open>Updates\<close>

definition put_accumulator ::
  "('acc, 'fr, 'pf) archive \<Rightarrow> block_hash \<Rightarrow> 'acc \<Rightarrow> ('acc, 'fr, 'pf) archive" where
  "put_accumulator A b acc = A\<lparr>accumulators := fmupd (Some b) acc (accumulators A)\<rparr>"

definition put_orchard_frontier ::
  "('acc, 'fr, 'pf) archive \<Rightarrow> block_hash \<Rightarrow> 'fr \<Rightarrow> ('acc, 'fr, 'pf) archive" where
  "put_orchard_frontier A b fr = A\<lparr>orchard_frontiers := fmupd (Some b) fr (orchard_frontiers A)\<rparr>"

definition put_tx_inclusion ::
  "('acc, 'fr, 'pf) ext \<Rightarrow> block_hash \<Rightarrow> ('acc, 'fr, 'pf) archive \<Rightarrow> nat \<times> 'pf transaction
    \<Rightarrow> ('acc, 'fr, 'pf) archive" where
  "put_tx_inclusion E b A x =
     (case x of (txin, tx) \<Rightarrow>
        let txid = tx_txid E tx
        in A\<lparr>txid_to_inclusions :=
               fmupd txid (fmupd b (txin mod 2 ^ 32) (get_tx_inclusions A txid))
                 (txid_to_inclusions A)\<rparr>)"

definition put_body ::
  "('acc, 'fr, 'pf) ext \<Rightarrow> ('acc, 'fr, 'pf) archive \<Rightarrow> block_hash \<Rightarrow> 'pf body
    \<Rightarrow> ('acc, 'fr, 'pf) archive archive_result" where
  "put_body E A b body =
     and_then (get_header A b) (\<lambda>_.
     Inr (foldl (put_tx_inclusion E b) (A\<lparr>bodies := fmupd b body (bodies A)\<rparr>)
       (List.enumerate 0 (body_transactions body))))"

text \<open>
  The check that some mainchain block in the ancestry of \<open>main_block\<close> verified the parent.
\<close>

definition parent_verified_in ::
  "('acc, 'fr, 'pf) archive \<Rightarrow> bmm_map \<Rightarrow> main_hash \<Rightarrow> bool archive_result" where
  "parent_verified_in A parent_bmm_results main_block =
     any_res (\<lambda>(bmm_block, bmm_result).
       if bmm_result = BmmVerified then is_main_descendant A bmm_block main_block else Inr False)
       parent_bmm_results"

definition bmm_check ::
  "('acc, 'fr, 'pf) archive \<Rightarrow> block_hash \<Rightarrow> header \<Rightarrow> bmm_map option \<Rightarrow> main_hash
    \<Rightarrow> bmm_result archive_result" where
  "bmm_check A block_hash header parent_bmm_results main_block =
     and_then (get_main_block_info A main_block) (\<lambda>info.
     case bmm_commitment info of
       None \<Rightarrow> Inr BmmFailed
     | Some commitment \<Rightarrow>
         if commitment \<noteq> block_hash then Inr BmmFailed
         else and_then (get_main_header_info A main_block) (\<lambda>main_header_info.
           if prev_main_hash header \<noteq> prev_block_hash main_header_info then Inr BmmFailed
           else case parent_bmm_results of
             None \<Rightarrow> Inr BmmVerified
           | Some parent_results \<Rightarrow>
               map_ok (\<lambda>v. if v then BmmVerified else BmmFailed)
                 (parent_verified_in A parent_results main_block)))"

definition put_header_bmm ::
  "('acc, 'fr, 'pf) archive \<Rightarrow> block_hash \<Rightarrow> header \<Rightarrow> ('acc, 'fr, 'pf) archive archive_result" where
  "put_header_bmm A block_hash header =
     (let parent_bmm_results = map_option (get_bmm_results A) (prev_side_hash header)
      in and_then (get_main_successors A (prev_main_hash header)) (\<lambda>main_blocks.
         map_ok (\<lambda>results. A\<lparr>bmm_results := fmupd block_hash results (bmm_results A)\<rparr>)
           (fold_res (\<lambda>results main_block.
              map_ok (\<lambda>r. AList.update main_block r results)
                (bmm_check A block_hash header parent_bmm_results main_block))
            (get_bmm_results A block_hash) main_blocks)))"

definition put_header_index ::
  "('acc, 'fr, 'pf) archive \<Rightarrow> block_hash \<Rightarrow> header \<Rightarrow> ('acc, 'fr, 'pf) archive archive_result" where
  "put_header_index A block_hash header =
     and_then
       (case prev_side_hash header of
          None \<Rightarrow> Inr 0
        | Some parent \<Rightarrow> and_then (ok_or InvalidPrevSideHash (try_get_height A parent)) (\<lambda>h. add_u32 h 1))
       (\<lambda>height.
     let A = A\<lparr>block_hash_to_height := fmupd block_hash height (block_hash_to_height A),
               headers := fmupd block_hash header (headers A)\<rparr>
     in and_then (get_successors A (prev_side_hash header)) (\<lambda>pred_successors.
        let A = A\<lparr>successors := link_successor (prev_side_hash header) (Some block_hash) block_hash
                  pred_successors (successors A)\<rparr>
        in map_ok
             (\<lambda>xs. A\<lparr>exponential_ancestors := fmupd block_hash xs (exponential_ancestors A)\<rparr>)
             (exponential_ancestors_of (get_nth_ancestor A) height (prev_side_hash header))))"

definition put_header ::
  "('acc, 'fr, 'pf) ext \<Rightarrow> ('acc, 'fr, 'pf) archive \<Rightarrow> header \<Rightarrow> ('acc, 'fr, 'pf) archive archive_result"
where
  "put_header E A header =
     and_then (put_header_index A (header_hash E header) header) (\<lambda>A.
     put_header_bmm A (header_hash E header) header)"

definition put_main_block_info ::
  "('acc, 'fr, 'pf) archive \<Rightarrow> main_hash \<Rightarrow> block_info \<Rightarrow> ('acc, 'fr, 'pf) archive archive_result" where
  "put_main_block_info A main_hash block_info =
     and_then (get_main_header_info A main_hash) (\<lambda>main_header_info.
     and_then
       (if prev_block_hash main_header_info \<noteq> all_zeros
        then map_ok (\<lambda>_. ()) (get_main_block_info A (prev_block_hash main_header_info))
        else Inr ())
       (\<lambda>_.
     let A = A\<lparr>main_block_infos := fmupd main_hash block_info (main_block_infos A)\<rparr>
     in case bmm_commitment block_info of
       None \<Rightarrow> Inr A
     | Some commitment \<Rightarrow>
         (case try_get_header A commitment of
            None \<Rightarrow> Inr A
          | Some header \<Rightarrow>
              map_ok (\<lambda>bmm_result.
                  A\<lparr>bmm_results := fmupd commitment
                      (AList.update main_hash bmm_result (get_bmm_results A commitment))
                      (bmm_results A)\<rparr>)
                (if prev_main_hash header \<noteq> prev_block_hash main_header_info then Inr BmmFailed
                 else case prev_side_hash header of
                   Some parent \<Rightarrow>
                     map_ok (\<lambda>v. if v then BmmVerified else BmmFailed)
                       (parent_verified_in A (get_bmm_results A parent) main_hash)
                 | None \<Rightarrow> Inr BmmVerified))))"

text \<open>\<open>bitcoin::Work\<close> is a 256 bit number.\<close>

definition add_work :: "nat \<Rightarrow> nat \<Rightarrow> nat archive_result" where
  "add_work a b = expect (checked_add 256 a b)"

definition put_main_header_info ::
  "('acc, 'fr, 'pf) archive \<Rightarrow> block_header_info \<Rightarrow> ('acc, 'fr, 'pf) archive archive_result" where
  "put_main_header_info A header_info =
     (if try_get_main_header_info A (prev_block_hash header_info) = None
         \<and> prev_block_hash header_info \<noteq> all_zeros
      then Inl (Err (NoMainHeaderInfo (prev_block_hash header_info)))
      else
     and_then (get_main_height A (prev_block_hash header_info)) (\<lambda>prev_height.
     and_then (add_u32 prev_height 1) (\<lambda>height.
     and_then
       (if prev_block_hash header_info \<noteq> all_zeros
        then and_then (get_total_work A (prev_block_hash header_info))
               (\<lambda>prev_work. add_work prev_work (work header_info))
        else Inr (work header_info))
       (\<lambda>new_work.
     let b = info_block_hash header_info;
         A = A\<lparr>main_block_hash_to_height := fmupd b height (main_block_hash_to_height A),
               main_header_infos := fmupd b header_info (main_header_infos A),
               total_work := fmupd b new_work (total_work A)\<rparr>
     in and_then (get_main_successors A (prev_block_hash header_info)) (\<lambda>pred_successors.
        let A = A\<lparr>main_successors := link_successor (prev_block_hash header_info) b b
                  pred_successors (main_successors A)\<rparr>
        in map_ok
             (\<lambda>xs. A\<lparr>exponential_main_ancestors := fmupd b xs (exponential_main_ancestors A)\<rparr>)
             (exponential_ancestors_of (get_nth_main_ancestor A) height
               (Some (prev_block_hash header_info))))))))"

section \<open>Choice of the better tip\<close>

text \<open>
  The \<open>find_map\<close> over the ancestors of a tip: the last one whose \<open>prev_main_hash\<close> lies strictly
  before the common mainchain ancestor.
\<close>

definition ancestor_before_main ::
  "('acc, 'fr, 'pf) archive \<Rightarrow> main_hash \<Rightarrow> (block_hash \<Rightarrow> header \<Rightarrow> 'r archive_result) \<Rightarrow> block_hash
    \<Rightarrow> 'r option archive_result" where
  "ancestor_before_main A main_ancestor g b =
     find_map_ancestors (ancestor_fuel A) A (\<lambda>tip_ancestor.
       and_then (get_header A tip_ancestor) (\<lambda>header.
       and_then (is_main_descendant A (prev_main_hash header) main_ancestor) (\<lambda>desc.
       if \<not> desc then Inr None
       else if prev_main_hash header = main_ancestor then Inr None
       else map_ok Some (g tip_ancestor header)))) (Some b)"

definition ancestor_height_and_work ::
  "('acc, 'fr, 'pf) archive \<Rightarrow> main_hash \<Rightarrow> nat \<Rightarrow> block_hash \<Rightarrow> header
    \<Rightarrow> (nat \<times> nat) archive_result" where
  "ancestor_height_and_work A main_ancestor main_ancestor_height tip_ancestor header =
     and_then (get_height A tip_ancestor) (\<lambda>height.
     and_then (get_main_height A (prev_main_hash header)) (\<lambda>prev_height.
     and_then (add_u32 prev_height 1) (\<lambda>main_height.
     and_then (sub_u32 main_ancestor_height main_height) (\<lambda>depth.
     and_then (get_nth_main_ancestor A main_ancestor depth) (\<lambda>main_block.
     map_ok (\<lambda>w. (height, w)) (get_total_work A main_block))))))"

definition better_tip ::
  "('acc, 'fr, 'pf) archive \<Rightarrow> tip \<Rightarrow> tip \<Rightarrow> tip option archive_result" where
  "better_tip A tip0 tip1 =
     (if tip0 = tip1 then Inr None
      else
     and_then (get_height A (tip_block_hash tip0)) (\<lambda>height0.
     and_then (get_height A (tip_block_hash tip1)) (\<lambda>height1.
     if height0 = 0 \<and> height1 = 0 then Inr None
     else if height0 = 0 then Inr (Some tip1)
     else if height1 = 0 then Inr (Some tip0)
     else
     and_then (get_total_work A (tip_main_block_hash tip0)) (\<lambda>work0.
     and_then (get_total_work A (tip_main_block_hash tip1)) (\<lambda>work1.
     if work0 \<le> work1 \<and> height0 < height1 then Inr (Some tip1)
     else if work0 \<ge> work1 \<and> height0 > height1 then Inr (Some tip0)
     else if work0 < work1 \<and> height0 = height1 then
       map_ok (\<lambda>shared. if shared then Some tip0 else Some tip1)
         (shared_mainchain_lineage A (tip_main_block_hash tip0) (tip_main_block_hash tip1))
     else if work0 > work1 \<and> height0 = height1 then
       map_ok (\<lambda>shared. if \<not> shared then Some tip0 else Some tip1)
         (shared_mainchain_lineage A (tip_main_block_hash tip0) (tip_main_block_hash tip1))
     else if work0 < work1 \<and> height0 > height1 then
       and_then (last_common_main_ancestor A (tip_main_block_hash tip0) (tip_main_block_hash tip1))
         (\<lambda>main_ancestor.
       map_ok (\<lambda>tip0_ancestor_height.
           if tip0_ancestor_height \<ge> Some height1 then Some tip0 else Some tip1)
         (ancestor_before_main A main_ancestor (\<lambda>b _. get_height A b) (tip_block_hash tip0)))
     else if work0 > work1 \<and> height0 < height1 then
       and_then (last_common_main_ancestor A (tip_main_block_hash tip0) (tip_main_block_hash tip1))
         (\<lambda>main_ancestor.
       map_ok (\<lambda>tip1_ancestor_height.
           if tip1_ancestor_height < Some height0 then Some tip0 else Some tip1)
         (ancestor_before_main A main_ancestor (\<lambda>b _. get_height A b) (tip_block_hash tip1)))
     else if tip_block_hash tip0 = tip_block_hash tip1 then Inr (Some tip0)
     else
       and_then (last_common_main_ancestor A (tip_main_block_hash tip0) (tip_main_block_hash tip1))
         (\<lambda>main_ancestor.
       and_then (get_main_height A main_ancestor) (\<lambda>main_ancestor_height.
       and_then (ancestor_before_main A main_ancestor
           (ancestor_height_and_work A main_ancestor main_ancestor_height) (tip_block_hash tip0))
         (\<lambda>a0.
       and_then (ancestor_before_main A main_ancestor
           (ancestor_height_and_work A main_ancestor main_ancestor_height) (tip_block_hash tip1))
         (\<lambda>a1.
       if (map_option snd a0 \<le> map_option snd a1 \<and> map_option fst a0 = map_option fst a1)
           \<or> map_option fst a0 > map_option fst a1
       then Inr (Some tip0) else Inr (Some tip1))))))))))"

end
