(* ===== verification/Archive_Index.thy ===== *)
theory Archive_Index
  imports Archive
begin

text \<open>
  Correctness of the ancestor indexes of \<open>lib/archive.rs\<close>: the invariant of the archive, that
  \<open>put_header\<close> and \<open>put_main_header_info\<close> preserve it, and, through the two interpretations of
  \<open>chain_index\<close>, what the lookups over ancestors return in an archive that satisfies it.
\<close>

section \<open>Parents and the invariant\<close>

definition side_parent :: "('acc, 'fr, 'pf) archive \<Rightarrow> block_hash \<Rightarrow> block_hash option" where
  "side_parent A b = Option.bind (fmlookup (headers A) b) prev_side_hash"

definition main_parent :: "('acc, 'fr, 'pf) archive \<Rightarrow> main_hash \<Rightarrow> main_hash option" where
  "main_parent A m =
     (if m = all_zeros then None else map_option prev_block_hash (fmlookup (main_header_infos A) m))"

interpretation side: chain_index try_get_height side_parent "\<lambda>A. fmlookup (exponential_ancestors A)"
  get_height get_parent get_exponential_ancestors NoHeight NoAncestor
  by unfold_locales
    (auto simp: get_height_def side_parent_def get_parent_def get_header_def try_get_header_def
      get_exponential_ancestors_def bind_eq_Some_conv)

interpretation main: chain_index try_get_main_height main_parent
  "\<lambda>A. fmlookup (exponential_main_ancestors A)"
  get_main_height get_main_parent get_exponential_main_ancestors NoMainHeight NoMainAncestor
  by unfold_locales
    (auto simp: get_main_height_def main_parent_def get_main_parent_def get_main_header_info_def
      try_get_main_header_info_def get_exponential_main_ancestors_def split: if_splits)

text \<open>The blocks with a stored header, and the mainchain blocks including the all-zero hash.\<close>

definition side_known :: "('acc, 'fr, 'pf) archive \<Rightarrow> block_hash set" where
  "side_known A = fmdom' (headers A)"

definition main_known :: "('acc, 'fr, 'pf) archive \<Rightarrow> main_hash set" where
  "main_known A = insert all_zeros (fmdom' (main_header_infos A))"

definition side_index :: "('acc, 'fr, 'pf) archive \<Rightarrow> bool" where
  "side_index A \<longleftrightarrow>
     index_ok (try_get_height A) (side_parent A) (fmlookup (exponential_ancestors A)) (side_known A)
     \<and> fmdom' (block_hash_to_height A) = side_known A
     \<and> side_known A \<subseteq> fmdom' (exponential_ancestors A)
     \<and> (\<forall>b h. fmlookup (headers A) b = Some h \<longrightarrow> prev_side_hash h = None
          \<longrightarrow> fmlookup (exponential_ancestors A) b = Some [])"

definition main_index :: "('acc, 'fr, 'pf) archive \<Rightarrow> bool" where
  "main_index A \<longleftrightarrow>
     index_ok (try_get_main_height A) (main_parent A) (fmlookup (exponential_main_ancestors A))
       (main_known A)
     \<and> all_zeros \<notin> fmdom' (main_header_infos A)
     \<and> fmdom' (main_block_hash_to_height A) = fmdom' (main_header_infos A)"

text \<open>The successor sets invert the parent links.\<close>

definition successors_ok :: "('acc, 'fr, 'pf) archive \<Rightarrow> bool" where
  "successors_ok A \<longleftrightarrow>
     succ_ok (insert None (Some ` side_known A)) (\<lambda>b. map_option prev_side_hash (fmlookup (headers A) b))
       (successors A)"

definition main_successors_ok :: "('acc, 'fr, 'pf) archive \<Rightarrow> bool" where
  "main_successors_ok A \<longleftrightarrow>
     succ_ok (main_known A) (\<lambda>b. map_option prev_block_hash (fmlookup (main_header_infos A) b))
       (main_successors A)"

text \<open>Total work adds up along the mainchain.\<close>

definition total_work_ok :: "('acc, 'fr, 'pf) archive \<Rightarrow> bool" where
  "total_work_ok A \<longleftrightarrow>
     (\<forall>m i. fmlookup (main_header_infos A) m = Some i \<longrightarrow>
        fmlookup (total_work A) m =
          (if prev_block_hash i = all_zeros then Some (work i)
           else map_option (\<lambda>w. w + work i) (fmlookup (total_work A) (prev_block_hash i)))
        \<and> fmlookup (total_work A) m \<noteq> None)"

definition archive_inv :: "('acc, 'fr, 'pf) archive \<Rightarrow> bool" where
  "archive_inv A \<longleftrightarrow> side_index A \<and> main_index A \<and> successors_ok A \<and> main_successors_ok A
     \<and> total_work_ok A"

lemma side_known_iff: "b \<in> side_known A \<longleftrightarrow> fmlookup (headers A) b \<noteq> None"
  by (auto simp: side_known_def fmlookup_dom'_iff)

lemma main_known_iff: "m \<in> main_known A \<longleftrightarrow> m = all_zeros \<or> fmlookup (main_header_infos A) m \<noteq> None"
  by (auto simp: main_known_def fmlookup_dom'_iff)

lemma side_index_ok:
  "archive_inv A \<Longrightarrow>
   index_ok (try_get_height A) (side_parent A) (fmlookup (exponential_ancestors A)) (side_known A)"
  by (simp add: archive_inv_def side_index_def)

lemma main_index_ok:
  "archive_inv A \<Longrightarrow> index_ok (try_get_main_height A) (main_parent A)
     (fmlookup (exponential_main_ancestors A)) (main_known A)"
  by (simp add: archive_inv_def main_index_def)

lemmas side_anc_correct = side.anc_correct [folded get_nth_ancestor_def]
lemmas side_equalize_correct = side.equalize_correct [folded get_nth_ancestor_def]
lemmas side_lca_level_correct = side.lca_level_correct [folded get_nth_ancestor_def]
lemmas side_descendant_correct = side.descendant_correct [folded get_nth_ancestor_def]
lemmas side_exponential_correct = side.exponential_ancestors_correct [folded get_nth_ancestor_def]
lemmas main_descendant_correct = main.descendant_correct [folded get_nth_main_ancestor_def]
lemmas main_exponential_correct = main.exponential_ancestors_correct [folded get_nth_main_ancestor_def]
lemmas main_anc_correct = main.anc_correct [folded get_nth_main_ancestor_def]
lemmas main_equalize_correct = main.equalize_correct [folded get_nth_main_ancestor_def]
lemmas main_lca_level_correct = main.lca_level_correct [folded get_nth_main_ancestor_def]

section \<open>Lookups over ancestors\<close>

text \<open>
  C24. In an archive that satisfies its invariant, looking up the \<open>n\<close>-th ancestor of a stored block
  through the exponential index returns exactly the block reached by following the parent link
  \<open>n\<close> times, and the error \<open>NoAncestor\<close> when the chain is shorter; it always terminates and never
  panics.
\<close>

theorem get_nth_ancestor_correct:
  assumes "archive_inv A" and "b \<in> side_known A"
  shows "get_nth_ancestor A b n =
    (case nth_parent (side_parent A) b n of Some c \<Rightarrow> Inr c | None \<Rightarrow> Inl (Err (NoAncestor b n)))"
  using side.anc_correct [OF side_index_ok] side.anc_beyond [OF side_index_ok] assms
  by (cases "nth_parent (side_parent A) b n") (auto simp: get_nth_ancestor_def)

text \<open>
  \<open>is_descendant\<close> decides ancestry: on stored blocks it returns whether the first block is
  reached from the second by following parents.
\<close>

theorem is_descendant_correct:
  assumes "archive_inv A" and "a \<in> side_known A" and "d \<in> side_known A"
  shows "is_descendant A a d = Inr (is_ancestor (side_parent A) a d)"
  using side_descendant_correct [OF side_index_ok] assms by (simp add: is_descendant_def)

lemma is_main_descendant_correct:
  "archive_inv A \<Longrightarrow> a \<in> main_known A \<Longrightarrow> d \<in> main_known A
    \<Longrightarrow> is_main_descendant A a d = Inr (is_ancestor (main_parent A) a d)"
  using main_descendant_correct [OF main_index_ok] by (simp add: is_main_descendant_def)

lemma last_common_ancestor_found:
  assumes inv: "archive_inv A" and K: "b0 \<in> side_known A" "b1 \<in> side_known A"
    and small: "\<forall>b h. try_get_height A b = Some h \<longrightarrow> h < 2 ^ 31"
  shows "\<exists>r. last_common_ancestor A b0 b1 = Inr r \<and>
    (case r of
       Some c \<Rightarrow> last_common (side_parent A) b0 b1 c
     | None \<Rightarrow> \<not> (\<exists>c. is_ancestor (side_parent A) c b0 \<and> is_ancestor (side_parent A) c b1))"
proof -
  note ok = side_index_ok [OF inv]
  obtain h0 h1 where h: "try_get_height A b0 = Some h0" "try_get_height A b1 = Some h1"
    using ok K by (meson side.height_known)
  obtain c0 c1 where eq: "equalize_heights (get_nth_ancestor A) b0 h0 b1 h1 = Inr (c0, c1, min h0 h1)"
    and c: "nth_parent (side_parent A) b0 (h0 - min h0 h1) = Some c0"
      "nth_parent (side_parent A) b1 (h1 - min h0 h1) = Some c1"
    and cK: "c0 \<in> side_known A" "c1 \<in> side_known A"
    and ch: "try_get_height A c0 = Some (min h0 h1)" "try_get_height A c1 = Some (min h0 h1)"
    using side_equalize_correct [OF ok K h] by metis
  note lift = side.last_common_lift [OF ok K h c]
  obtain r0 r1 where r: "nth_parent (side_parent A) c0 (min h0 h1) = Some r0"
      "nth_parent (side_parent A) c1 (min h0 h1) = Some r1"
    using side.nth_parent_total [OF ok cK(1) ch(1), of "min h0 h1"]
      side.nth_parent_total [OF ok cK(2) ch(2), of "min h0 h1"] by auto
  have run: "last_common_ancestor A b0 b1 =
      (if c0 = c1 then Inr (Some c0) else if r0 \<noteq> r1 then Inr None
       else and_then (lca_search (get_nth_ancestor A) c0 c1 1 (min h0 h1)) (\<lambda>d. map_ok Some (get_nth_ancestor A c0 d)))"
    using eq h side_anc_correct [OF ok cK(1) r(1)] side_anc_correct [OF ok cK(2) r(2)]
    by (simp add: last_common_ancestor_def get_height_def)
  show ?thesis
  proof (cases "c0 = c1")
    case True
    then have "last_common (side_parent A) c0 c1 c0" by (simp add: last_common_def)
    with True run lift show ?thesis by simp
  next
    case ne: False
    show ?thesis
    proof (cases "r0 = r1")
      case True
      then obtain d e where "lca_search (get_nth_ancestor A) c0 c1 1 (min h0 h1) = Inr d"
          "get_nth_ancestor A c0 d = Inr e" "last_common (side_parent A) c0 c1 e"
        using side_lca_level_correct [OF ok cK ch _ ne] r small ch by (metis (no_types))
      with ne True run lift show ?thesis by simp
    next
      case False
      have "\<not> (is_ancestor (side_parent A) e b0 \<and> is_ancestor (side_parent A) e b1)" for e
        using side.no_common [OF ok K h c r False] by blast
      with ne False run show ?thesis by simp
    qed
  qed
qed

text \<open>
  C30. The binary search of \<open>last_common_ancestor\<close> finds the last common ancestor of two stored
  blocks (every common ancestor is an ancestor of it), and returns nothing exactly when the two
  blocks have no common ancestor at all.
\<close>

theorem last_common_ancestor_correct:
  assumes inv: "archive_inv A" and K: "b0 \<in> side_known A" "b1 \<in> side_known A"
    and small: "\<forall>b h. try_get_height A b = Some h \<longrightarrow> h < 2 ^ 31"
  shows "\<exists>r. last_common_ancestor A b0 b1 = Inr r \<and>
    (case r of
       Some c \<Rightarrow> last_common (side_parent A) b0 b1 c
     | None \<Rightarrow> \<not> (\<exists>c. is_ancestor (side_parent A) c b0 \<and> is_ancestor (side_parent A) c b1))"
  using assms by (rule last_common_ancestor_found)

lemma main_genesis:
  assumes "archive_inv A" "m \<in> main_known A" "try_get_main_height A m = Some 0"
  shows "m = all_zeros"
proof (rule ccontr)
  assume "m \<noteq> all_zeros"
  with assms(2) have "main_parent A m \<noteq> None" by (auto simp: main_known_iff main_parent_def)
  with main.genesis [OF main_index_ok [OF assms(1)] assms(2,3)] show False by simp
qed

text \<open>
  On the mainchain, where every stored block descends from the all-zero hash, the search always
  finds the last common ancestor, and two blocks share a lineage exactly when one of them is an
  ancestor of the other.
\<close>

theorem last_common_main_ancestor_correct:
  assumes inv: "archive_inv A" and K: "b0 \<in> main_known A" "b1 \<in> main_known A"
    and small: "\<forall>b h. try_get_main_height A b = Some h \<longrightarrow> h < 2 ^ 31"
  shows "(\<exists>c. last_common_main_ancestor A b0 b1 = Inr c \<and> last_common (main_parent A) b0 b1 c)
    \<and> shared_mainchain_lineage A b0 b1
      = Inr (is_ancestor (main_parent A) b0 b1 \<or> is_ancestor (main_parent A) b1 b0)"
proof -
  note ok = main_index_ok [OF inv]
  obtain h0 h1 where h: "try_get_main_height A b0 = Some h0" "try_get_main_height A b1 = Some h1"
    using ok K by (meson main.height_known)
  obtain c0 c1 where eq: "equalize_heights (get_nth_main_ancestor A) b0 h0 b1 h1 = Inr (c0, c1, min h0 h1)"
    and c: "nth_parent (main_parent A) b0 (h0 - min h0 h1) = Some c0"
      "nth_parent (main_parent A) b1 (h1 - min h0 h1) = Some c1"
    and cK: "c0 \<in> main_known A" "c1 \<in> main_known A"
    and ch: "try_get_main_height A c0 = Some (min h0 h1)" "try_get_main_height A c1 = Some (min h0 h1)"
    using main_equalize_correct [OF ok K h] by metis
  note lift = main.last_common_lift [OF ok K h c]
  have root: "nth_parent (main_parent A) c0 (min h0 h1) = nth_parent (main_parent A) c1 (min h0 h1)"
    using main.nth_parent_total [OF ok cK(1) ch(1), of "min h0 h1"]
      main.nth_parent_total [OF ok cK(2) ch(2), of "min h0 h1"] main_genesis [OF inv]
    by (metis diff_self_eq_0 order_refl)
  have "\<exists>c. last_common_main_ancestor A b0 b1 = Inr c \<and> last_common (main_parent A) b0 b1 c"
  proof (cases "c0 = c1")
    case True
    then have "last_common (main_parent A) c0 c1 c0" by (simp add: last_common_def)
    with True eq h lift show ?thesis by (simp add: last_common_main_ancestor_def get_main_height_def)
  next
    case False
    obtain d e where "lca_search (get_nth_main_ancestor A) c0 c1 1 (min h0 h1) = Inr d"
        "get_nth_main_ancestor A c0 d = Inr e" "last_common (main_parent A) c0 c1 e"
      using main_lca_level_correct [OF ok cK ch _ False root] small ch by (metis (no_types))
    with False eq h lift show ?thesis by (simp add: last_common_main_ancestor_def get_main_height_def)
  qed
  moreover have "c0 = c1 \<longleftrightarrow> is_ancestor (main_parent A) b0 b1 \<or> is_ancestor (main_parent A) b1 b0"
    by (rule main.equal_level_iff [OF ok K h c])
  with eq h have "shared_mainchain_lineage A b0 b1
      = Inr (is_ancestor (main_parent A) b0 b1 \<or> is_ancestor (main_parent A) b1 b0)"
    by (simp add: shared_mainchain_lineage_def get_main_height_def)
  ultimately show ?thesis by blast
qed

section \<open>Storing a header\<close>

lemma put_header_index_Inr:
  assumes "put_header_index A b h = Inr A'"
  obtains height preds xs where
    "case prev_side_hash h of None \<Rightarrow> height = 0
      | Some p \<Rightarrow> (\<exists>hp. try_get_height A p = Some hp \<and> height = Suc hp \<and> height < 2 ^ 32)"
    "fmlookup (successors A) (prev_side_hash h) = Some preds"
    "A' = A\<lparr>block_hash_to_height := fmupd b height (block_hash_to_height A),
            headers := fmupd b h (headers A),
            successors := link_successor (prev_side_hash h) (Some b) b preds (successors A),
            exponential_ancestors := fmupd b xs (exponential_ancestors A)\<rparr>"
    "exponential_ancestors_of
       (get_nth_ancestor (A'\<lparr>exponential_ancestors := exponential_ancestors A\<rparr>))
       height (prev_side_hash h) = Inr xs"
  using assms
  by (auto simp: put_header_index_def result_simps Let_def get_successors_def try_get_successors_def
      split: option.splits)

lemma side_put_expo:
  assumes inv: "archive_inv A" and p: "try_get_height A p = Some hp" "Suc hp < 2 ^ 32"
    and h: "prev_side_hash h = Some p"
    and nocoll: "\<And>h'. fmlookup (headers A) b = Some h' \<Longrightarrow> h' = h"
    and B: "headers B = fmupd b h (headers A)" "exponential_ancestors B = exponential_ancestors A"
      "block_hash_to_height B = fmupd b (Suc hp) (block_hash_to_height A)"
  obtains ys where "exponential_ancestors_of (get_nth_ancestor B) (Suc hp) (Some p) = Inr ys"
    "expo_entry (side_parent B) b (Suc hp) ys"
proof -
  note ok = side_index_ok [OF inv]
  have pK: "p \<in> side_known A"
    using inv p(1) unfolding archive_inv_def side_index_def try_get_height_def
    by (auto dest: fmdom'I)
  have par: "side_parent B = (side_parent A)(b := Some p)"
    and ht: "try_get_height B = (try_get_height A)(b := Some (Suc hp))"
    using h by (auto simp: fun_eq_iff side_parent_def try_get_height_def B)
  have old: "side_parent A b = Some p" if "b \<in> side_known A"
    using that nocoll h by (auto simp: side_known_iff side_parent_def)
  have htb: "try_get_height A b = Some (Suc hp)" if "b \<in> side_known A"
    using side.parent_height [OF ok that] old [OF that] p by simp
  have okB: "index_ok (try_get_height B) (side_parent B) (fmlookup (exponential_ancestors B)) (side_known A)"
    by (rule index_ok_cong [OF ok]) (use old htb in \<open>auto simp: par ht B\<close>)
  have "try_get_height B p = Some hp" "side_parent B b = Some p"
    using p htb pK by (auto simp: par ht)
  with side_exponential_correct [OF okB pK _ _ p(2)] that show ?thesis by metis
qed

lemma side_index_put:
  assumes inv: "archive_inv A" and put: "put_header_index A b h = Inr A'"
    and nocoll: "\<And>h'. fmlookup (headers A) b = Some h' \<Longrightarrow> h' = h"
  shows "side_index A'"
proof -
  note ok = side_index_ok [OF inv]
  from put obtain height xs where
    height: "case prev_side_hash h of None \<Rightarrow> height = 0
      | Some p \<Rightarrow> (\<exists>hp. try_get_height A p = Some hp \<and> height = Suc hp \<and> height < 2 ^ 32)"
    and A': "block_hash_to_height A' = fmupd b height (block_hash_to_height A)"
      "headers A' = fmupd b h (headers A)"
      "exponential_ancestors A' = fmupd b xs (exponential_ancestors A)"
    and xs: "exponential_ancestors_of
       (get_nth_ancestor (A'\<lparr>exponential_ancestors := exponential_ancestors A\<rparr>))
       height (prev_side_hash h) = Inr xs"
    by (elim put_header_index_Inr) simp
  have par: "side_parent A' = (side_parent A)(b := prev_side_hash h)"
    and ht: "try_get_height A' = (try_get_height A)(b := Some height)"
    by (auto simp: fun_eq_iff side_parent_def try_get_height_def A')
  have old: "side_parent A b = prev_side_hash h" if "b \<in> side_known A"
    using that nocoll by (auto simp: side_known_iff side_parent_def)
  have "index_ok (try_get_height A') (side_parent A') (fmlookup (exponential_ancestors A')) (insert b (side_known A))
      \<and> (prev_side_hash h = None \<longrightarrow> xs = [])"
  proof (cases "prev_side_hash h")
    case None
    with height xs have "xs = []" "height = 0" by (auto simp: exponential_ancestors_of_def)
    moreover have "index_ok (try_get_height A') (side_parent A') (fmlookup (exponential_ancestors A'))
        (insert b (side_known A))"
      using None old calculation
      by (intro index_ok_insert_genesis [OF ok]) (auto simp: par ht A')
    ultimately show ?thesis by simp
  next
    case (Some p)
    then obtain hp where hp: "try_get_height A p = Some hp" "height = Suc hp" "Suc hp < 2 ^ 32"
      using height by auto
    have p: "p \<in> side_known A"
      using inv hp(1) unfolding archive_inv_def side_index_def try_get_height_def
      by (auto dest: fmdom'I)
    obtain ys where "exponential_ancestors_of
        (get_nth_ancestor (A'\<lparr>exponential_ancestors := exponential_ancestors A\<rparr>)) (Suc hp) (Some p) = Inr ys"
        "expo_entry (side_parent (A'\<lparr>exponential_ancestors := exponential_ancestors A\<rparr>)) b (Suc hp) ys"
      using side_put_expo [OF inv hp(1,3) Some nocoll,
          of b "A'\<lparr>exponential_ancestors := exponential_ancestors A\<rparr>"] by (auto simp: A' hp(2))
    with xs Some hp(2) have e: "expo_entry (side_parent A') b (Suc hp) xs"
      by (simp add: side_parent_def [abs_def])
    have "index_ok (try_get_height A') (side_parent A') (fmlookup (exponential_ancestors A'))
        (insert b (side_known A))"
      using hp e old Some by (intro index_ok_insert [OF ok p hp(1)]) (auto simp: par ht A')
    with Some show ?thesis by simp
  qed
  moreover have "side_known A' = insert b (side_known A)" by (simp add: side_known_def A')
  ultimately show ?thesis
    using inv unfolding archive_inv_def side_index_def by (auto simp: A')
qed

lemma put_header_index_succeeds:
  assumes inv: "archive_inv A"
    and parent: "\<And>p. prev_side_hash h = Some p \<Longrightarrow> \<exists>hp. try_get_height A p = Some hp \<and> Suc hp < 2 ^ 32"
    and nocoll: "\<And>h'. fmlookup (headers A) b = Some h' \<Longrightarrow> h' = h"
  shows "\<exists>A'. put_header_index A b h = Inr A'"
proof -
  have "prev_side_hash h \<in> insert None (Some ` side_known A)"
    using parent inv unfolding archive_inv_def side_index_def try_get_height_def
    by (cases "prev_side_hash h") (auto dest: fmdom'I)
  then obtain preds where preds: "fmlookup (successors A) (prev_side_hash h) = Some preds"
    using inv unfolding archive_inv_def successors_ok_def succ_ok_def
    by (metis fmlookup_dom'_iff)
  show ?thesis
  proof (cases "prev_side_hash h")
    case None
    with preds show ?thesis
      by (simp add: put_header_index_def get_successors_def try_get_successors_def
          exponential_ancestors_of_def Let_def)
  next
    case (Some p)
    then obtain hp where hp: "try_get_height A p = Some hp" "Suc hp < 2 ^ 32" using parent by auto
    let ?B = "A\<lparr>block_hash_to_height := fmupd b (Suc hp) (block_hash_to_height A),
        headers := fmupd b h (headers A),
        successors := link_successor (Some p) (Some b) b preds (successors A)\<rparr>"
    obtain ys where "exponential_ancestors_of (get_nth_ancestor ?B) (Suc hp) (Some p) = Inr ys"
      using side_put_expo [OF inv hp Some nocoll, of b ?B] by auto
    with Some preds hp show ?thesis
      by (simp add: put_header_index_def get_successors_def try_get_successors_def Let_def add_u32_ok)
  qed
qed

lemma side_parent_known:
  assumes "archive_inv A" "fmlookup (headers A) c = Some h" "prev_side_hash h = Some p"
  shows "p \<in> side_known A"
  using index_ok_closed [OF side_index_ok [OF assms(1)], of c p] assms(2,3)
  by (simp add: side_known_iff side_parent_def)

lemma put_parent_differs:
  assumes inv: "archive_inv A" and "prev_side_hash h = Some p" "try_get_height A p = Some hp"
    and nocoll: "\<And>h'. fmlookup (headers A) b = Some h' \<Longrightarrow> h' = h"
  shows "p \<noteq> b"
proof
  assume "p = b"
  with assms(3) inv have K: "b \<in> side_known A"
    unfolding archive_inv_def side_index_def try_get_height_def by (auto dest: fmdom'I)
  then have "side_parent A b = Some b"
    using nocoll assms(2) \<open>p = b\<close> by (auto simp: side_known_iff side_parent_def)
  with side.parent_height [OF side_index_ok [OF inv] K, of b hp] assms(3) \<open>p = b\<close> show False by simp
qed

lemma successors_put:
  assumes inv: "archive_inv A" and put: "put_header_index A b h = Inr A'"
    and nocoll: "\<And>h'. fmlookup (headers A) b = Some h' \<Longrightarrow> h' = h"
  shows "successors_ok A'"
proof -
  from put obtain height preds where
    height: "case prev_side_hash h of None \<Rightarrow> height = 0
      | Some p \<Rightarrow> (\<exists>hp. try_get_height A p = Some hp \<and> height = Suc hp \<and> height < 2 ^ 32)"
    and preds: "fmlookup (successors A) (prev_side_hash h) = Some preds"
    and A': "headers A' = fmupd b h (headers A)"
      "successors A' = link_successor (prev_side_hash h) (Some b) b preds (successors A)"
    by (elim put_header_index_Inr) simp
  let ?pk = "\<lambda>b. map_option prev_side_hash (fmlookup (headers A) b)"
  have "Some b \<noteq> prev_side_hash h"
    using height put_parent_differs [OF inv _ _ nocoll] by (cases "prev_side_hash h") auto
  moreover have "?pk b = None \<or> ?pk b = Some (prev_side_hash h)"
    using nocoll by (cases "fmlookup (headers A) b") auto
  moreover have "\<forall>c. ?pk c \<noteq> Some (Some b)" if "Some b \<notin> insert None (Some ` side_known A)"
    using that side_parent_known [OF inv] by auto
  ultimately have "succ_ok (insert (Some b) (insert None (Some ` side_known A)))
      (?pk(b := Some (prev_side_hash h))) (successors A')"
    unfolding A'(2) using inv by (intro succ_ok_link preds) (auto simp: archive_inv_def successors_ok_def)
  moreover have "(\<lambda>c. map_option prev_side_hash (fmlookup (headers A') c)) = ?pk(b := Some (prev_side_hash h))"
    by (auto simp: A'(1) fun_eq_iff)
  ultimately show ?thesis
    by (simp add: successors_ok_def side_known_def A'(1) insert_commute)
qed

lemma put_header_index_main:
  "put_header_index A b h = Inr A' \<Longrightarrow>
   main_header_infos A' = main_header_infos A \<and> main_successors A' = main_successors A
   \<and> main_block_hash_to_height A' = main_block_hash_to_height A
   \<and> exponential_main_ancestors A' = exponential_main_ancestors A
   \<and> total_work A' = total_work A \<and> main_block_infos A' = main_block_infos A
   \<and> bmm_results A' = bmm_results A \<and> headers A' = fmupd b h (headers A)"
  by (elim put_header_index_Inr) simp

lemma put_header_bmm_frame:
  "put_header_bmm A b h = Inr A' \<Longrightarrow> \<exists>r. A' = A\<lparr>bmm_results := fmupd b r (bmm_results A)\<rparr>"
  by (auto simp: put_header_bmm_def result_simps)

text \<open>The two halves of the invariant depend only on the fields they mention.\<close>

lemma main_frame:
  assumes "main_header_infos B = main_header_infos A" "main_successors B = main_successors A"
    "main_block_hash_to_height B = main_block_hash_to_height A"
    "exponential_main_ancestors B = exponential_main_ancestors A" "total_work B = total_work A"
  shows "main_parent B = main_parent A" "main_known B = main_known A"
    "main_index B \<longleftrightarrow> main_index A" "main_successors_ok B \<longleftrightarrow> main_successors_ok A"
    "total_work_ok B \<longleftrightarrow> total_work_ok A"
proof -
  show p: "main_parent B = main_parent A" and k: "main_known B = main_known A"
    by (simp_all add: fun_eq_iff main_parent_def main_known_def assms)
  have "try_get_main_height B = try_get_main_height A"
    by (simp add: fun_eq_iff try_get_main_height_def assms)
  with p k show "main_index B \<longleftrightarrow> main_index A" "main_successors_ok B \<longleftrightarrow> main_successors_ok A"
    "total_work_ok B \<longleftrightarrow> total_work_ok A"
    by (simp_all add: main_index_def main_successors_ok_def total_work_ok_def assms)
qed

lemma side_frame:
  assumes "headers B = headers A" "successors B = successors A"
    "block_hash_to_height B = block_hash_to_height A"
    "exponential_ancestors B = exponential_ancestors A"
  shows "side_parent B = side_parent A" "side_known B = side_known A"
    "side_index B \<longleftrightarrow> side_index A" "successors_ok B \<longleftrightarrow> successors_ok A"
proof -
  show p: "side_parent B = side_parent A" and k: "side_known B = side_known A"
    by (simp_all add: fun_eq_iff side_parent_def side_known_def assms)
  have "try_get_height B = try_get_height A"
    by (simp add: fun_eq_iff try_get_height_def assms)
  with p k show "side_index B \<longleftrightarrow> side_index A" "successors_ok B \<longleftrightarrow> successors_ok A"
    by (simp_all add: side_index_def successors_ok_def assms)
qed

lemma put_header_inv:
  assumes "archive_inv A" and "put_header E A h = Inr A'"
    and nocoll: "\<And>h'. fmlookup (headers A) (header_hash E h) = Some h' \<Longrightarrow> h' = h"
  shows "archive_inv A'" "side_known A' = insert (header_hash E h) (side_known A)"
    "side_parent A' = (side_parent A)(header_hash E h := prev_side_hash h)"
    "headers A' = fmupd (header_hash E h) h (headers A)" "main_successors A' = main_successors A"
proof -
  obtain B where B: "put_header_index A (header_hash E h) h = Inr B"
      "put_header_bmm B (header_hash E h) h = Inr A'"
    using assms(2) by (auto simp: put_header_def result_simps)
  then obtain r where A': "A' = B\<lparr>bmm_results := fmupd (header_hash E h) r (bmm_results B)\<rparr>"
    using put_header_bmm_frame by blast
  note idx = put_header_index_main [OF B(1)]
  have "side_index B" "successors_ok B"
    using side_index_put [OF assms(1) B(1) nocoll] successors_put [OF assms(1) B(1) nocoll] by blast+
  moreover have "main_index B" "main_successors_ok B" "total_work_ok B"
    using assms(1) main_frame [of B A] idx by (simp_all add: archive_inv_def)
  ultimately show "archive_inv A'" using main_frame [of A' B] side_frame [of A' B]
    by (simp add: A' archive_inv_def)
  show "side_parent A' = (side_parent A)(header_hash E h := prev_side_hash h)"
    using idx by (auto simp: A' fun_eq_iff side_parent_def)
  show "side_known A' = insert (header_hash E h) (side_known A)"
    "headers A' = fmupd (header_hash E h) h (headers A)" "main_successors A' = main_successors A"
    using idx by (simp_all add: A' side_known_def)
qed

text \<open>
  Storing a header keeps the archive's invariant: heights, the exponential ancestor index and
  the successor sets stay consistent with the parent links, whether the header is new or stored
  again, as long as its hash does not collide with that of a different stored header.
\<close>

theorem put_header_preserves:
  assumes "archive_inv A" and "put_header E A h = Inr A'"
    and "\<forall>h'. fmlookup (headers A) (header_hash E h) = Some h' \<longrightarrow> h' = h"
  shows "archive_inv A' \<and> side_known A' = insert (header_hash E h) (side_known A)
    \<and> side_parent A' = (side_parent A)(header_hash E h := prev_side_hash h)"
  using put_header_inv [OF assms(1,2)] assms(3) by blast

section \<open>Storing mainchain headers\<close>

lemma put_main_header_info_Inr:
  assumes "put_main_header_info A i = Inr A'"
  obtains hp w preds xs where
    "prev_block_hash i = all_zeros \<or> fmlookup (main_header_infos A) (prev_block_hash i) \<noteq> None"
    "try_get_main_height A (prev_block_hash i) = Some hp" "Suc hp < 2 ^ 32"
    "if prev_block_hash i = all_zeros then w = work i
     else \<exists>v. fmlookup (total_work A) (prev_block_hash i) = Some v \<and> w = v + work i"
    "fmlookup (main_successors A) (prev_block_hash i) = Some preds"
    "A' = A\<lparr>main_block_hash_to_height := fmupd (info_block_hash i) (Suc hp) (main_block_hash_to_height A),
            main_header_infos := fmupd (info_block_hash i) i (main_header_infos A),
            total_work := fmupd (info_block_hash i) w (total_work A),
            main_successors := link_successor (prev_block_hash i) (info_block_hash i) (info_block_hash i)
              preds (main_successors A),
            exponential_main_ancestors := fmupd (info_block_hash i) xs (exponential_main_ancestors A)\<rparr>"
    "exponential_ancestors_of
       (get_nth_main_ancestor (A'\<lparr>exponential_main_ancestors := exponential_main_ancestors A\<rparr>))
       (Suc hp) (Some (prev_block_hash i)) = Inr xs"
  using assms
  by (auto simp: put_main_header_info_def result_simps Let_def get_main_successors_def
      try_get_main_successors_def get_main_height_def get_total_work_def try_get_total_work_def
      try_get_main_header_info_def add_work_def split: if_splits)

lemma main_height_known:
  "archive_inv A \<Longrightarrow> try_get_main_height A m = Some h \<Longrightarrow> m \<in> main_known A"
  by (auto simp: try_get_main_height_def archive_inv_def main_index_def main_known_def
      split: if_splits dest: fmdom'I)

lemma put_main_parent_differs:
  assumes inv: "archive_inv A" and h: "try_get_main_height A (prev_block_hash i) = Some hp"
    and b: "info_block_hash i \<noteq> all_zeros"
    and nocoll: "\<And>i'. fmlookup (main_header_infos A) (info_block_hash i) = Some i' \<Longrightarrow> i' = i"
  shows "info_block_hash i \<noteq> prev_block_hash i"
proof
  assume eq: "info_block_hash i = prev_block_hash i"
  then have K: "info_block_hash i \<in> main_known A" using main_height_known [OF inv h] by simp
  then have "main_parent A (info_block_hash i) = Some (info_block_hash i)"
    using nocoll b eq by (auto simp: main_known_iff main_parent_def)
  with main.parent_height [OF main_index_ok [OF inv] K, of "info_block_hash i" hp] h eq
  show False by simp
qed

text \<open>The ancestor index of a mainchain header that is stored on a known parent, while the header is being stored.\<close>

lemma main_exponential_put:
  assumes inv: "archive_inv A" and hp: "try_get_main_height A (prev_block_hash i) = Some hp" "Suc hp < 2 ^ 32"
    and b: "info_block_hash i \<noteq> all_zeros"
    and nocoll: "\<And>i'. fmlookup (main_header_infos A) (info_block_hash i) = Some i' \<Longrightarrow> i' = i"
    and B: "main_block_hash_to_height B = fmupd (info_block_hash i) (Suc hp) (main_block_hash_to_height A)"
      "main_header_infos B = fmupd (info_block_hash i) i (main_header_infos A)"
      "exponential_main_ancestors B = exponential_main_ancestors A"
  obtains xs where "exponential_ancestors_of (get_nth_main_ancestor B) (Suc hp) (Some (prev_block_hash i)) = Inr xs"
    "expo_entry (main_parent B) (info_block_hash i) (Suc hp) xs"
proof -
  note ok = main_index_ok [OF inv]
  define m where "m = info_block_hash i"
  note p = main_height_known [OF inv hp(1)]
  have par: "main_parent B = (main_parent A)(m := Some (prev_block_hash i))"
    and ht: "try_get_main_height B = (try_get_main_height A)(m := Some (Suc hp))"
    using b by (auto simp: fun_eq_iff main_parent_def try_get_main_height_def B m_def)
  have old: "main_parent A m = Some (prev_block_hash i)" if "m \<in> main_known A"
    using that nocoll b by (auto simp: main_known_iff main_parent_def m_def)
  have htm: "try_get_main_height A m = Some (Suc hp)" if "m \<in> main_known A"
    using main.parent_height [OF ok that] old [OF that] hp by simp
  have okB: "index_ok (try_get_main_height B) (main_parent B)
      (fmlookup (exponential_main_ancestors B)) (main_known A)"
  proof (rule index_ok_cong [OF ok])
    fix c
    assume "c \<in> main_known A"
    then show "try_get_main_height B c = try_get_main_height A c \<and> main_parent B c = main_parent A c
        \<and> fmlookup (exponential_main_ancestors B) c = fmlookup (exponential_main_ancestors A) c"
      using old htm unfolding par ht by (auto simp: B)
  qed
  have "prev_block_hash i \<noteq> m" using put_main_parent_differs [OF inv hp(1) b nocoll] m_def by metis
  then have "try_get_main_height B (prev_block_hash i) = Some hp"
      "main_parent B m = Some (prev_block_hash i)"
    using hp(1) by (simp_all add: par ht)
  from main_exponential_correct [OF okB p this hp(2)] that m_def show thesis by metis
qed

lemma main_index_put:
  assumes inv: "archive_inv A" and put: "put_main_header_info A i = Inr A'"
    and b: "info_block_hash i \<noteq> all_zeros"
    and nocoll: "\<And>i'. fmlookup (main_header_infos A) (info_block_hash i) = Some i' \<Longrightarrow> i' = i"
  shows "main_index A'"
proof -
  note ok = main_index_ok [OF inv]
  define m where "m = info_block_hash i"
  from put obtain hp xs where
    hp: "try_get_main_height A (prev_block_hash i) = Some hp" "Suc hp < 2 ^ 32"
    and A': "main_block_hash_to_height A' = fmupd m (Suc hp) (main_block_hash_to_height A)"
      "main_header_infos A' = fmupd m i (main_header_infos A)"
      "exponential_main_ancestors A' = fmupd m xs (exponential_main_ancestors A)"
    and xs: "exponential_ancestors_of
       (get_nth_main_ancestor (A'\<lparr>exponential_main_ancestors := exponential_main_ancestors A\<rparr>))
       (Suc hp) (Some (prev_block_hash i)) = Inr xs"
    by (elim put_main_header_info_Inr) (simp add: m_def)
  note p = main_height_known [OF inv hp(1)]
  let ?B = "A'\<lparr>exponential_main_ancestors := exponential_main_ancestors A\<rparr>"
  have par: "main_parent A' = (main_parent A)(m := Some (prev_block_hash i))"
    and ht: "try_get_main_height A' = (try_get_main_height A)(m := Some (Suc hp))"
    using b by (auto simp: fun_eq_iff main_parent_def try_get_main_height_def A' m_def)
  have old: "main_parent A m = Some (prev_block_hash i)" if "m \<in> main_known A"
    using that nocoll b by (auto simp: main_known_iff main_parent_def m_def)
  obtain ys where "exponential_ancestors_of (get_nth_main_ancestor ?B) (Suc hp) (Some (prev_block_hash i)) = Inr ys"
      "expo_entry (main_parent ?B) m (Suc hp) ys"
    by (rule main_exponential_put [OF inv hp b nocoll, of ?B]) (auto simp: A' m_def)
  moreover have "main_parent ?B = main_parent A'" by (simp add: fun_eq_iff main_parent_def)
  ultimately have "expo_entry (main_parent A') m (Suc hp) xs" using xs by simp
  then have "index_ok (try_get_main_height A') (main_parent A')
      (fmlookup (exponential_main_ancestors A')) (insert m (main_known A))"
    using hp old by (intro index_ok_insert [OF ok p hp(1)]) (auto simp: par ht A')
  moreover have "main_known A' = insert m (main_known A)"
    by (auto simp: main_known_def A')
  ultimately show ?thesis using inv b
    unfolding archive_inv_def main_index_def by (auto simp: A' m_def)
qed

lemma main_successors_put:
  assumes inv: "archive_inv A" and put: "put_main_header_info A i = Inr A'"
    and b: "info_block_hash i \<noteq> all_zeros"
    and nocoll: "\<And>i'. fmlookup (main_header_infos A) (info_block_hash i) = Some i' \<Longrightarrow> i' = i"
  shows "main_successors_ok A'"
proof -
  define m where "m = info_block_hash i"
  from put obtain hp preds where
    hp: "try_get_main_height A (prev_block_hash i) = Some hp"
    and preds: "fmlookup (main_successors A) (prev_block_hash i) = Some preds"
    and A': "main_header_infos A' = fmupd m i (main_header_infos A)"
      "main_successors A' = link_successor (prev_block_hash i) m m preds (main_successors A)"
    by (elim put_main_header_info_Inr) (simp add: m_def)
  let ?pk = "\<lambda>c. map_option prev_block_hash (fmlookup (main_header_infos A) c)"
  have "m \<noteq> prev_block_hash i" using put_main_parent_differs [OF inv hp b nocoll] m_def by metis
  moreover have "?pk m = None \<or> ?pk m = Some (prev_block_hash i)"
    using nocoll m_def by (cases "fmlookup (main_header_infos A) m") auto
  moreover have "\<forall>c. ?pk c \<noteq> Some m" if "m \<notin> main_known A"
  proof (rule, rule)
    fix c
    assume c: "?pk c = Some m"
    then have "c \<in> main_known A" "main_parent A c = Some m"
      using inv by (auto simp: main_known_iff main_parent_def archive_inv_def main_index_def
          dest: fmdom'I)
    with index_ok_closed [OF main_index_ok [OF inv]] that show False by blast
  qed
  ultimately have "succ_ok (insert m (main_known A)) (?pk(m := Some (prev_block_hash i)))
      (main_successors A')"
    unfolding A'(2) using inv
    by (intro succ_ok_link preds) (auto simp: archive_inv_def main_successors_ok_def)
  moreover have "(\<lambda>c. map_option prev_block_hash (fmlookup (main_header_infos A') c))
      = ?pk(m := Some (prev_block_hash i))" by (auto simp: A'(1) fun_eq_iff)
  moreover have "main_known A' = insert m (main_known A)" by (auto simp: main_known_def A'(1))
  ultimately show ?thesis by (simp add: main_successors_ok_def)
qed

lemma total_work_put:
  assumes inv: "archive_inv A" and put: "put_main_header_info A i = Inr A'"
    and b: "info_block_hash i \<noteq> all_zeros"
    and nocoll: "\<And>i'. fmlookup (main_header_infos A) (info_block_hash i) = Some i' \<Longrightarrow> i' = i"
  shows "total_work_ok A'"
proof -
  define m where "m = info_block_hash i"
  from put obtain hp w where
    hp: "try_get_main_height A (prev_block_hash i) = Some hp"
    and w: "if prev_block_hash i = all_zeros then w = work i
        else \<exists>v. fmlookup (total_work A) (prev_block_hash i) = Some v \<and> w = v + work i"
    and A': "main_header_infos A' = fmupd m i (main_header_infos A)"
      "total_work A' = fmupd m w (total_work A)"
    by (elim put_main_header_info_Inr) (simp add: m_def)
  have inv_w: "total_work_ok A" using inv by (simp add: archive_inv_def)
  have ne: "m \<noteq> prev_block_hash i" using put_main_parent_differs [OF inv hp b nocoll] m_def by metis
  have m: "fmlookup (total_work A') m = (if prev_block_hash i = all_zeros then Some (work i)
        else map_option (\<lambda>w. w + work i) (fmlookup (total_work A') (prev_block_hash i)))"
    using w ne by (auto simp: A')
  have same: "fmlookup (total_work A) m = Some w" if "fmlookup (main_header_infos A) m \<noteq> None"
  proof -
    from that nocoll have "fmlookup (main_header_infos A) m = Some i" by (auto simp: m_def)
    with inv_w w show ?thesis unfolding total_work_ok_def by (auto split: if_splits)
  qed
  have closed: "fmlookup (main_header_infos A) m \<noteq> None"
    if "fmlookup (main_header_infos A) c = Some j" "prev_block_hash j = m" for c j
  proof -
    have "c \<in> main_known A" "main_parent A c = Some m"
      using inv that by (auto simp: main_known_iff main_parent_def archive_inv_def main_index_def
          dest: fmdom'I)
    then have "m \<in> main_known A" using index_ok_closed [OF main_index_ok [OF inv]] by blast
    with b show ?thesis by (simp add: main_known_iff m_def)
  qed
  show ?thesis
    unfolding total_work_ok_def
  proof (intro allI impI)
    fix c j
    assume c: "fmlookup (main_header_infos A') c = Some j"
    show "fmlookup (total_work A') c = (if prev_block_hash j = all_zeros then Some (work j)
        else map_option (\<lambda>w. w + work j) (fmlookup (total_work A') (prev_block_hash j)))
      \<and> fmlookup (total_work A') c \<noteq> None"
    proof (cases "c = m")
      case True
      with c have "j = i" by (simp add: A')
      moreover have "fmlookup (total_work A') m \<noteq> None" by (simp add: A')
      ultimately show ?thesis unfolding True using m by blast
    next
      case False
      with c have old: "fmlookup (main_header_infos A) c = Some j" by (simp add: A')
      have "fmlookup (total_work A') (prev_block_hash j) = fmlookup (total_work A) (prev_block_hash j)"
        using same closed [OF old] by (cases "prev_block_hash j = m") (auto simp: A')
      moreover have "fmlookup (total_work A') c = fmlookup (total_work A) c" using False by (simp add: A')
      ultimately show ?thesis using inv_w [unfolded total_work_ok_def, rule_format, OF old]
        by metis
    qed
  qed
qed

lemma put_main_header_info_inv:
  assumes "archive_inv A" and "put_main_header_info A i = Inr A'"
    and "info_block_hash i \<noteq> all_zeros"
    and nocoll: "\<And>i'. fmlookup (main_header_infos A) (info_block_hash i) = Some i' \<Longrightarrow> i' = i"
  shows "archive_inv A'" "main_known A' = insert (info_block_hash i) (main_known A)"
    "main_parent A' = (main_parent A)(info_block_hash i := Some (prev_block_hash i))"
    "main_header_infos A' = fmupd (info_block_hash i) i (main_header_infos A)"
    "headers A' = headers A"
proof -
  have "main_index A'" "main_successors_ok A'" "total_work_ok A'"
    using main_index_put [OF assms(1-3) nocoll] main_successors_put [OF assms(1-3) nocoll]
      total_work_put [OF assms(1-3) nocoll] by blast+
  moreover have f: "headers A' = headers A \<and> successors A' = successors A
      \<and> block_hash_to_height A' = block_hash_to_height A
      \<and> exponential_ancestors A' = exponential_ancestors A
      \<and> main_header_infos A' = fmupd (info_block_hash i) i (main_header_infos A)"
    using assms(2) by (elim put_main_header_info_Inr) simp
  ultimately show "archive_inv A'" "main_known A' = insert (info_block_hash i) (main_known A)"
    "main_parent A' = (main_parent A)(info_block_hash i := Some (prev_block_hash i))"
    "main_header_infos A' = fmupd (info_block_hash i) i (main_header_infos A)"
    "headers A' = headers A"
    using assms(1,3) side_frame [of A' A]
    by (auto simp: archive_inv_def main_known_def main_parent_def fun_eq_iff)
qed

text \<open>
  Storing a mainchain header keeps the invariant: the mainchain index, the successor sets and
  the total work stay consistent with the parent links, as long as the hash is not the all-zero
  hash and does not already belong to a different header.
\<close>

theorem put_main_header_info_preserves:
  assumes "archive_inv A" and "put_main_header_info A i = Inr A'"
    and "info_block_hash i \<noteq> all_zeros"
    and "\<forall>i'. fmlookup (main_header_infos A) (info_block_hash i) = Some i' \<longrightarrow> i' = i"
  shows "archive_inv A' \<and> main_known A' = insert (info_block_hash i) (main_known A)
    \<and> main_parent A' = (main_parent A)(info_block_hash i := Some (prev_block_hash i))"
  using put_main_header_info_inv [OF assms(1-3)] assms(4) by blast

section \<open>A new archive\<close>

text \<open>
  Opening an empty database succeeds and gives an archive that satisfies the invariant, and
  opening it again changes nothing.
\<close>

theorem archive_new_inv:
  "\<exists>A. archive_new E V empty_archive = Inr A \<and> archive_inv A \<and> side_known A = {}
     \<and> (version_less V \<lparr>major = 0, minor = 16, patch = 0\<rparr> \<or> archive_new E V A = Inr A)"
proof -
  obtain A where A: "archive_new E V empty_archive = Inr A" by (simp add: archive_new_def empty_archive_def)
  then have "archive_inv A \<and> side_known A = {}"
    by (auto simp: archive_new_def empty_archive_def put_default_def archive_inv_def side_index_def
        main_index_def successors_ok_def main_successors_ok_def total_work_ok_def side_known_def
        main_known_def index_ok_def succ_ok_def node_ok_genesis try_get_main_height_def main_parent_def
        split: if_splits)
  moreover have "version_less V \<lparr>major = 0, minor = 16, patch = 0\<rparr> \<or> archive_new E V A = Inr A"
    using A by (cases "version_less V \<lparr>major = 0, minor = 16, patch = 0\<rparr>")
      (auto simp: archive_new_def empty_archive_def put_default_def)
  ultimately show ?thesis using A by blast
qed

section \<open>Example archives\<close>

text \<open>Sequences of stored headers, on which the hash function does not collide.\<close>

lemma put_headers_inv:
  assumes "fold_res (put_header E) A hs = Inr A'" "archive_inv A" "inj_on (header_hash E) H"
    and "set hs \<subseteq> H"
    and "\<forall>b h. fmlookup (headers A) b = Some h \<longrightarrow> h \<in> H \<and> header_hash E h = b"
  shows "archive_inv A' \<and> (\<forall>b h. fmlookup (headers A') b = Some h \<longrightarrow> h \<in> H \<and> header_hash E h = b)"
proof (rule fold_res_invariant [OF assms(1)])
  fix B h B'
  assume "h \<in> set hs" and put: "put_header E B h = Inr B'"
    and B: "archive_inv B \<and> (\<forall>b h. fmlookup (headers B) b = Some h \<longrightarrow> h \<in> H \<and> header_hash E h = b)"
  then have "h \<in> H" using assms(4) by blast
  have "h' = h" if "fmlookup (headers B) (header_hash E h) = Some h'" for h'
    using B that assms(3) \<open>h \<in> H\<close> by (blast dest: inj_onD)
  from put_header_inv [OF _ put this] B \<open>h \<in> H\<close>
  show "archive_inv B' \<and> (\<forall>b h. fmlookup (headers B') b = Some h \<longrightarrow> h \<in> H \<and> header_hash E h = b)"
    by auto
qed (use assms in auto)

lemma put_main_header_infos_inv:
  assumes "fold_res put_main_header_info A is = Inr A'" "archive_inv A" "inj_on info_block_hash I"
    and "set is \<subseteq> I" "\<forall>i\<in>I. info_block_hash i \<noteq> all_zeros"
    and "\<forall>m i. fmlookup (main_header_infos A) m = Some i \<longrightarrow> i \<in> I \<and> info_block_hash i = m"
  shows "archive_inv A'
    \<and> (\<forall>m i. fmlookup (main_header_infos A') m = Some i \<longrightarrow> i \<in> I \<and> info_block_hash i = m)"
proof (rule fold_res_invariant [OF assms(1)])
  fix B i B'
  assume "i \<in> set is" and put: "put_main_header_info B i = Inr B'"
    and B: "archive_inv B
      \<and> (\<forall>m i. fmlookup (main_header_infos B) m = Some i \<longrightarrow> i \<in> I \<and> info_block_hash i = m)"
  then have i: "i \<in> I" "info_block_hash i \<noteq> all_zeros" using assms(4,5) by blast+
  have "i' = i" if "fmlookup (main_header_infos B) (info_block_hash i) = Some i'" for i'
    using B that assms(3) i(1) by (blast dest: inj_onD)
  from put_main_header_info_inv [OF _ put i(2) this] B i(1)
  show "archive_inv B'
      \<and> (\<forall>m i. fmlookup (main_header_infos B') m = Some i \<longrightarrow> i \<in> I \<and> info_block_hash i = m)"
    by auto
qed (use assms in auto)

definition example_archive :: "(hash list, cmx list, unit) archive" where
  "example_archive = empty_archive\<lparr>main_successors := fmupd all_zeros [] fmempty,
     successors := fmupd None [] fmempty\<rparr>"

definition example_header :: "block_hash option \<Rightarrow> nat \<Rightarrow> header" where
  "example_header prev n = \<lparr>merkle_root = MerkleRoot 0, prev_side_hash = prev,
     prev_main_hash = all_zeros, roots = replicate n 0\<rparr>"

text \<open>A genesis block with two children, the first of which has a child.\<close>

definition example_headers :: "header list" where
  "example_headers = [example_header None 0, example_header (Some (BlockHash 69)) 0,
     example_header (Some (BlockHash 69)) 2, example_header (Some (BlockHash 101)) 1]"

definition example_main_info :: "nat \<Rightarrow> nat \<Rightarrow> block_header_info" where
  "example_main_info n p = \<lparr>info_block_hash = MainHash (word_of_nat n),
     prev_block_hash = MainHash (word_of_nat p), info_height = n, work = 1\<rparr>"

definition example_main_infos :: "block_header_info list" where
  "example_main_infos = [example_main_info 1 0, example_main_info 2 1, example_main_info 3 2,
     example_main_info 4 1]"

lemma length_block_hash_bytes [simp]: "length (case p of BlockHash x \<Rightarrow> hash_bytes x) = 32"
  by (cases p) simp

lemma example_header_hash:
  "header_hash example_ext (example_header None n) = BlockHash (word_of_nat (69 + 32 * n))"
  "header_hash example_ext (example_header (Some p) n) = BlockHash (word_of_nat (101 + 32 * n))"
  by (simp_all add: header_hash_def ser_header_def example_header_def example_ext_def
      all_zeros_def ser_option_def ser_vec_def length_concat sum_list_replicate)

lemma example_archive_inv: "archive_inv example_archive"
  by (auto simp: example_archive_def empty_archive_def archive_inv_def side_index_def
      main_index_def successors_ok_def main_successors_ok_def total_work_ok_def side_known_def
      main_known_def index_ok_def succ_ok_def node_ok_genesis try_get_main_height_def main_parent_def
      split: if_splits)

lemmas lookup_defs = get_height_def try_get_height_def get_header_def try_get_header_def
  get_successors_def try_get_successors_def get_bmm_results_def get_parent_def get_nth_ancestor_def
  get_exponential_ancestors_def get_main_height_def try_get_main_height_def get_main_header_info_def
  try_get_main_header_info_def get_main_successors_def try_get_main_successors_def
  get_main_parent_def get_nth_main_ancestor_def get_exponential_main_ancestors_def
  get_total_work_def try_get_total_work_def

lemmas put_defs = put_header_def put_header_index_def put_header_bmm_def put_main_header_info_def
  link_successor_def exponential_ancestors_of_def Let_def add_u32_def checked_add_def add_work_def
  nth_ancestor_loop.simps exponential_loop.simps

lemma example_chain:
  obtains A where "fold_res (put_header example_ext) example_archive example_headers = Inr A"
    "archive_inv A" "side_known A = {BlockHash 69, BlockHash 101, BlockHash 133, BlockHash 165}"
    "block_hash_to_height A = fmupd (BlockHash 133) 2 (fmupd (BlockHash 165) 1
      (fmupd (BlockHash 101) 1 (fmupd (BlockHash 69) 0 fmempty)))"
    "headers A = fmupd (BlockHash 133) (example_header (Some (BlockHash 101)) 1)
      (fmupd (BlockHash 165) (example_header (Some (BlockHash 69)) 2)
      (fmupd (BlockHash 101) (example_header (Some (BlockHash 69)) 0)
      (fmupd (BlockHash 69) (example_header None 0) fmempty)))"
proof -
  have "\<exists>A. fold_res (put_header example_ext) example_archive example_headers = Inr A
      \<and> block_hash_to_height A = fmupd (BlockHash 133) 2 (fmupd (BlockHash 165) 1
      (fmupd (BlockHash 101) 1 (fmupd (BlockHash 69) 0 fmempty)))
      \<and> headers A = fmupd (BlockHash 133) (example_header (Some (BlockHash 101)) 1)
      (fmupd (BlockHash 165) (example_header (Some (BlockHash 69)) 2)
      (fmupd (BlockHash 101) (example_header (Some (BlockHash 69)) 0)
      (fmupd (BlockHash 69) (example_header None 0) fmempty)))"
    unfolding example_headers_def put_header_def fold_res.simps example_header_hash
    by (simp add: example_header_def put_defs lookup_defs example_archive_def empty_archive_def)
      (simp add: numeral_2_eq_2)
  then obtain A where A: "fold_res (put_header example_ext) example_archive example_headers = Inr A"
    "block_hash_to_height A = fmupd (BlockHash 133) 2 (fmupd (BlockHash 165) 1
      (fmupd (BlockHash 101) 1 (fmupd (BlockHash 69) 0 fmempty)))"
    "headers A = fmupd (BlockHash 133) (example_header (Some (BlockHash 101)) 1)
      (fmupd (BlockHash 165) (example_header (Some (BlockHash 69)) 2)
      (fmupd (BlockHash 101) (example_header (Some (BlockHash 69)) 0)
      (fmupd (BlockHash 69) (example_header None 0) fmempty)))" by blast
  have "inj_on (header_hash example_ext) (set example_headers)"
    by (auto simp: inj_on_def example_headers_def example_header_hash)
  then have "archive_inv A"
    using put_headers_inv [OF A(1) example_archive_inv] by (simp add: example_archive_def empty_archive_def)
  moreover have "side_known A = {BlockHash 69, BlockHash 101, BlockHash 133, BlockHash 165}"
    by (auto simp: side_known_def A)
  ultimately show thesis using that A by blast
qed

lemma example_main_chain:
  obtains A where "fold_res put_main_header_info example_archive example_main_infos = Inr A"
    "archive_inv A" "main_known A = {MainHash 0, MainHash 1, MainHash 2, MainHash 3, MainHash 4}"
    "\<And>m h. try_get_main_height A m = Some h \<Longrightarrow> h \<le> 3"
    "main_parent A (MainHash 3) = Some (MainHash 2)" "main_parent A (MainHash 2) = Some (MainHash 1)"
    "main_parent A (MainHash 4) = Some (MainHash 1)" "main_parent A (MainHash 1) = Some (MainHash 0)"
    "main_parent A (MainHash 0) = None"
proof -
  have "\<exists>A. fold_res put_main_header_info example_archive example_main_infos = Inr A
      \<and> main_block_hash_to_height A = fmupd (MainHash 4) 2 (fmupd (MainHash 3) 3
        (fmupd (MainHash 2) 2 (fmupd (MainHash 1) 1 fmempty)))
      \<and> main_header_infos A = fmupd (MainHash 4) (example_main_info 4 1)
        (fmupd (MainHash 3) (example_main_info 3 2) (fmupd (MainHash 2) (example_main_info 2 1)
        (fmupd (MainHash 1) (example_main_info 1 0) fmempty)))"
    unfolding example_main_infos_def fold_res.simps
    by (simp add: example_main_info_def put_defs lookup_defs example_archive_def empty_archive_def
        all_zeros_def) (simp add: numeral_2_eq_2 numeral_3_eq_3)
  then obtain A where A: "fold_res put_main_header_info example_archive example_main_infos = Inr A"
    "main_block_hash_to_height A = fmupd (MainHash 4) 2 (fmupd (MainHash 3) 3
        (fmupd (MainHash 2) 2 (fmupd (MainHash 1) 1 fmempty)))"
    "main_header_infos A = fmupd (MainHash 4) (example_main_info 4 1)
        (fmupd (MainHash 3) (example_main_info 3 2) (fmupd (MainHash 2) (example_main_info 2 1)
        (fmupd (MainHash 1) (example_main_info 1 0) fmempty)))" by blast
  have "inj_on info_block_hash (set example_main_infos)"
    by (simp add: example_main_infos_def example_main_info_def)
  from put_main_header_infos_inv [OF A(1) example_archive_inv this] have "archive_inv A"
    by (simp add: example_archive_def empty_archive_def example_main_infos_def example_main_info_def
        all_zeros_def)
  moreover have "main_known A = {MainHash 0, MainHash 1, MainHash 2, MainHash 3, MainHash 4}"
    by (auto simp: main_known_def A all_zeros_def)
  moreover have "h \<le> 3" if "try_get_main_height A m = Some h" for m h
    using that by (auto simp: try_get_main_height_def A split: if_splits)
  moreover have "main_parent A (MainHash 3) = Some (MainHash 2)"
    "main_parent A (MainHash 2) = Some (MainHash 1)" "main_parent A (MainHash 4) = Some (MainHash 1)"
    "main_parent A (MainHash 1) = Some (MainHash 0)" "main_parent A (MainHash 0) = None"
    by (simp_all add: main_parent_def A all_zeros_def example_main_info_def)
  ultimately show thesis using that A(1) by blast
qed

theorem get_nth_ancestor_correct_witness:
  "\<exists>A. fold_res (put_header example_ext) example_archive example_headers = Inr A
     \<and> get_nth_ancestor A (BlockHash 133) 2 = Inr (BlockHash 69)
     \<and> get_nth_ancestor A (BlockHash 133) 3 = Inl (Err (NoAncestor (BlockHash 133) 3))"
proof -
  obtain A where A: "fold_res (put_header example_ext) example_archive example_headers = Inr A"
    "archive_inv A" "BlockHash 133 \<in> side_known A"
    "headers A = fmupd (BlockHash 133) (example_header (Some (BlockHash 101)) 1)
      (fmupd (BlockHash 165) (example_header (Some (BlockHash 69)) 2)
      (fmupd (BlockHash 101) (example_header (Some (BlockHash 69)) 0)
      (fmupd (BlockHash 69) (example_header None 0) fmempty)))"
    using example_chain by (metis insertI1 insertI2)
  have "side_parent A (BlockHash 133) = Some (BlockHash 101)"
    "side_parent A (BlockHash 101) = Some (BlockHash 69)" "side_parent A (BlockHash 69) = None"
    by (simp_all add: side_parent_def A(4) example_header_def)
  then have "get_nth_ancestor A (BlockHash 133) 2 = Inr (BlockHash 69)"
    "get_nth_ancestor A (BlockHash 133) 3 = Inl (Err (NoAncestor (BlockHash 133) 3))"
    using get_nth_ancestor_correct [OF A(2,3), of 2] get_nth_ancestor_correct [OF A(2,3), of 3]
    by (simp_all add: numeral_2_eq_2 numeral_3_eq_3)
  with A(1) show ?thesis by blast
qed

theorem is_descendant_correct_witness:
  "\<exists>A. fold_res (put_header example_ext) example_archive example_headers = Inr A
     \<and> is_descendant A (BlockHash 69) (BlockHash 101) = Inr True"
proof -
  obtain A where A: "fold_res (put_header example_ext) example_archive example_headers = Inr A"
    "archive_inv A" "BlockHash 69 \<in> side_known A" "BlockHash 101 \<in> side_known A"
    "headers A = fmupd (BlockHash 133) (example_header (Some (BlockHash 101)) 1)
      (fmupd (BlockHash 165) (example_header (Some (BlockHash 69)) 2)
      (fmupd (BlockHash 101) (example_header (Some (BlockHash 69)) 0)
      (fmupd (BlockHash 69) (example_header None 0) fmempty)))"
    using example_chain by (metis insertI1 insertI2)
  have "nth_parent (side_parent A) (BlockHash 101) 1 = Some (BlockHash 69)"
    by (simp add: side_parent_def A(5) example_header_def)
  then have "is_ancestor (side_parent A) (BlockHash 69) (BlockHash 101)"
    unfolding is_ancestor_def by blast
  with is_descendant_correct [OF A(2-4)] A(1) show ?thesis by auto
qed

theorem last_common_ancestor_correct_witness:
  "\<exists>A r. fold_res (put_header example_ext) example_archive example_headers = Inr A
     \<and> last_common_ancestor A (BlockHash 133) (BlockHash 165) = Inr r
     \<and> (case r of Some c \<Rightarrow> last_common (side_parent A) (BlockHash 133) (BlockHash 165) c
        | None \<Rightarrow> \<not> (\<exists>c. is_ancestor (side_parent A) c (BlockHash 133)
            \<and> is_ancestor (side_parent A) c (BlockHash 165)))"
proof -
  obtain A where A: "fold_res (put_header example_ext) example_archive example_headers = Inr A"
    "archive_inv A" "BlockHash 133 \<in> side_known A" "BlockHash 165 \<in> side_known A"
    "block_hash_to_height A = fmupd (BlockHash 133) 2 (fmupd (BlockHash 165) 1
      (fmupd (BlockHash 101) 1 (fmupd (BlockHash 69) 0 fmempty)))"
    using example_chain by (metis insertI1 insertI2)
  have "\<forall>b h. try_get_height A b = Some h \<longrightarrow> h < 2 ^ 31"
    by (simp add: try_get_height_def A(5))
  with last_common_ancestor_correct [OF A(2-4)] A(1) show ?thesis by blast
qed

theorem last_common_main_ancestor_correct_witness:
  "\<exists>A c. fold_res put_main_header_info example_archive example_main_infos = Inr A
     \<and> last_common_main_ancestor A (MainHash 3) (MainHash 4) = Inr c
     \<and> last_common (main_parent A) (MainHash 3) (MainHash 4) c"
proof -
  obtain A where A: "fold_res put_main_header_info example_archive example_main_infos = Inr A"
    "archive_inv A" "MainHash 3 \<in> main_known A" "MainHash 4 \<in> main_known A"
    "\<And>m h. try_get_main_height A m = Some h \<Longrightarrow> h \<le> 3"
    using example_main_chain by (metis insertI1 insertI2)
  have "\<forall>m h. try_get_main_height A m = Some h \<longrightarrow> h < 2 ^ 31"
    using A(5) by (fastforce dest: order.strict_trans1 [where c = "2 ^ 31"])
  with last_common_main_ancestor_correct [OF A(2-4)] A(1) show ?thesis by blast
qed

theorem put_header_preserves_witness:
  "\<exists>A. put_header example_ext example_archive (example_header None 0) = Inr A
     \<and> archive_inv A \<and> side_known A = {BlockHash 69}"
proof -
  obtain A where A: "put_header example_ext example_archive (example_header None 0) = Inr A"
    by (rule example_chain) (auto simp: example_headers_def result_simps)
  with put_header_preserves [OF example_archive_inv A] show ?thesis
    by (simp add: example_archive_def empty_archive_def example_header_hash side_known_def)
qed

theorem put_main_header_info_preserves_witness:
  "\<exists>A. put_main_header_info example_archive (example_main_info 1 0) = Inr A
     \<and> archive_inv A \<and> MainHash 1 \<in> main_known A"
proof -
  obtain A where A: "put_main_header_info example_archive (example_main_info 1 0) = Inr A"
    by (rule example_main_chain) (auto simp: example_main_infos_def result_simps)
  with put_main_header_info_preserves [OF example_archive_inv A] show ?thesis
    by (simp add: example_archive_def empty_archive_def example_main_info_def all_zeros_def)
qed

end
