(* ===== verification/Accumulator.thy ===== *)
theory Accumulator
  imports Types "HOL-Library.AList"
begin

text \<open>
  \<open>AccumulatorDiff\<close> and \<open>Accumulator::apply_diff\<close> of \<open>lib/types/mod.rs\<close>: the pending insertions and
  deletions of Utreexo leaves of a block. A \<open>LinkedHashMap\<close> is an association list with distinct
  keys in insertion order. The counters are decremented only when they are positive
  (\<open>diff_wf\<close> below), so truncated subtraction is the subtraction of the code.
\<close>

record accumulator_diff =
  diff :: "(hash \<times> bool) list"
  insertions :: nat
  deletions :: nat

definition diff_default :: accumulator_diff where
  "diff_default = \<lparr>diff = [], insertions = 0, deletions = 0\<rparr>"

definition diff_insert :: "hash \<Rightarrow> accumulator_diff \<Rightarrow> accumulator_diff" where
  "diff_insert utxo_hash d =
     (case map_of (diff d) utxo_hash of
        Some entry \<Rightarrow>
          if \<not> entry
          then d\<lparr>diff := AList.delete utxo_hash (diff d), deletions := deletions d - 1\<rparr>
          else d
      | None \<Rightarrow> d\<lparr>diff := diff d @ [(utxo_hash, True)], insertions := insertions d + 1\<rparr>)"

definition diff_remove :: "hash \<Rightarrow> accumulator_diff \<Rightarrow> accumulator_diff" where
  "diff_remove utxo_hash d =
     (case map_of (diff d) utxo_hash of
        Some entry \<Rightarrow>
          if entry
          then d\<lparr>diff := AList.delete utxo_hash (diff d), insertions := insertions d - 1\<rparr>
          else d
      | None \<Rightarrow> d\<lparr>diff := diff d @ [(utxo_hash, False)], deletions := deletions d + 1\<rparr>)"

definition diff_counts :: "accumulator_diff \<Rightarrow> nat \<times> nat" where
  "diff_counts d = (insertions d, deletions d)"

definition diff_is_empty :: "accumulator_diff \<Rightarrow> bool" where
  "diff_is_empty d \<longleftrightarrow> diff d = []"

definition apply_diff :: "('acc, 'fr, 'pf) ext \<Rightarrow> 'acc \<Rightarrow> accumulator_diff \<Rightarrow> 'acc option" where
  "apply_diff E acc d =
     forest_modify E acc [h. (h, is_ins) \<leftarrow> diff d, is_ins] [h. (h, is_ins) \<leftarrow> diff d, \<not> is_ins]"

section \<open>What a diff represents\<close>

text \<open>
  The contract of a diff: for each leaf a cell that is empty, pending insertion or pending
  deletion, and two counters of the pending cells.
\<close>

definition cell_insert :: "bool option \<Rightarrow> bool option" where
  "cell_insert c = (case c of Some False \<Rightarrow> None | _ \<Rightarrow> Some True)"

definition cell_remove :: "bool option \<Rightarrow> bool option" where
  "cell_remove c = (case c of Some True \<Rightarrow> None | _ \<Rightarrow> Some False)"

definition diff_wf :: "accumulator_diff \<Rightarrow> bool" where
  "diff_wf d \<longleftrightarrow> distinct (map fst (diff d))
     \<and> insertions d = length (filter snd (diff d))
     \<and> deletions d = length (filter (\<lambda>x. \<not> snd x) (diff d))"

locale leaf_diff =
  fixes ins :: "hash \<Rightarrow> 'd \<Rightarrow> 'd" and rem :: "hash \<Rightarrow> 'd \<Rightarrow> 'd"
    and cells :: "'d \<Rightarrow> hash \<rightharpoonup> bool" and counts :: "'d \<Rightarrow> nat \<times> nat" and wf :: "'d \<Rightarrow> bool"
  assumes wf_ins: "wf d \<Longrightarrow> wf (ins h d)" and wf_rem: "wf d \<Longrightarrow> wf (rem h d)"
    and cells_ins: "wf d \<Longrightarrow> cells (ins h d) = (cells d)(h := cell_insert (cells d h))"
    and cells_rem: "wf d \<Longrightarrow> cells (rem h d) = (cells d)(h := cell_remove (cells d h))"
    and counts_cells: "wf d \<Longrightarrow>
      counts d = (card {h. cells d h = Some True}, card {h. cells d h = Some False})"
begin

lemma ins_rem_cancel: "wf d \<Longrightarrow> cells d h = None \<Longrightarrow> cells (rem h (ins h d)) = cells d"
  by (auto simp: cells_rem cells_ins wf_ins cell_insert_def cell_remove_def fun_eq_iff)

lemma rem_ins_cancel: "wf d \<Longrightarrow> cells d h = None \<Longrightarrow> cells (ins h (rem h d)) = cells d"
  by (auto simp: cells_rem cells_ins wf_rem cell_insert_def cell_remove_def fun_eq_iff)

lemma ins_commute: "wf d \<Longrightarrow> h \<noteq> k \<Longrightarrow> cells (ins h (rem k d)) = cells (rem k (ins h d))"
  by (auto simp: cells_rem cells_ins wf_rem wf_ins fun_eq_iff)

lemma wf_ops: "wf d \<Longrightarrow> wf (fold (\<lambda>(b, h). if b then ins h else rem h) ops d)"
  by (induction ops arbitrary: d) (auto simp: wf_ins wf_rem)

lemma cells_ops:
  "wf d \<Longrightarrow> cells (fold (\<lambda>(b, h). if b then ins h else rem h) ops d) h
    = fold (\<lambda>(b, k). if k \<noteq> h then id else if b then cell_insert else cell_remove) ops (cells d h)"
  by (induction ops arbitrary: d) (auto simp: wf_ins wf_rem cells_ins cells_rem)

end

lemma map_of_delete_fun: "map_of (AList.delete k xs) = (map_of xs)(k := None)"
  by (rule ext) (simp add: AList.delete_conv)

lemma AList_delete_absent: "k \<notin> fst ` set xs \<Longrightarrow> AList.delete k xs = xs"
  by (induction xs) auto

lemma length_filter_delete:
  "distinct (map fst xs) \<Longrightarrow> map_of xs k = Some v \<Longrightarrow>
   length (filter (\<lambda>x. P (snd x)) (AList.delete k xs))
     = length (filter (\<lambda>x. P (snd x)) xs) - (if P v then 1 else 0)
   \<and> (P v \<longrightarrow> length (filter (\<lambda>x. P (snd x)) xs) > 0)"
proof (induction xs)
  case Nil
  then show ?case by simp
next
  case (Cons x xs)
  obtain a b where x: "x = (a, b)" by (cases x)
  show ?case
  proof (cases "a = k")
    case True
    with Cons.prems x have "AList.delete k xs = xs" by (auto intro: AList_delete_absent)
    with True Cons.prems x show ?thesis by simp
  next
    case False
    with Cons x show ?thesis by auto
  qed
qed

lemmas filter_delete_True = length_filter_delete [where P = "\<lambda>b. b"]
lemmas filter_delete_False = length_filter_delete [where P = Not]

lemma diff_wf_insert: "diff_wf d \<Longrightarrow> diff_wf (diff_insert h d)"
  using filter_delete_True [of "diff d" h False] filter_delete_False [of "diff d" h False]
  by (auto simp: diff_wf_def diff_insert_def distinct_delete map_of_eq_None_iff
      split: option.splits)

lemma diff_wf_remove: "diff_wf d \<Longrightarrow> diff_wf (diff_remove h d)"
  using filter_delete_True [of "diff d" h True] filter_delete_False [of "diff d" h True]
  by (auto simp: diff_wf_def diff_remove_def distinct_delete map_of_eq_None_iff
      split: option.splits)

lemma map_of_append_single: "map_of xs k = None \<Longrightarrow> map_of (xs @ [(k, v)]) = (map_of xs)(k \<mapsto> v)"
  by (auto simp: fun_eq_iff map_add_def split: option.splits)

lemma card_cells:
  assumes "distinct (map fst xs)"
  shows "card {h. map_of xs h = Some v} = length (filter (\<lambda>x. snd x = v) xs)"
proof -
  have "{h. map_of xs h = Some v} = fst ` set (filter (\<lambda>x. snd x = v) xs)"
    using assms by (force simp: map_of_eq_Some_iff)
  moreover have "distinct (map fst (filter (\<lambda>x. snd x = v) xs))"
    using assms by (rule distinct_map_filter)
  ultimately show ?thesis by (metis distinct_card length_map list.set_map)
qed

interpretation acc_diff: leaf_diff diff_insert diff_remove "\<lambda>d. map_of (diff d)" diff_counts diff_wf
proof
  fix d h
  assume wf: "diff_wf d"
  show "diff_wf (diff_insert h d)" using wf by (rule diff_wf_insert)
  show "diff_wf (diff_remove h d)" using wf by (rule diff_wf_remove)
  show "map_of (diff (diff_insert h d)) = (map_of (diff d))(h := cell_insert (map_of (diff d) h))"
    by (cases "map_of (diff d) h")
      (auto simp: diff_insert_def cell_insert_def map_of_delete_fun fun_upd_idem
          simp del: map_of_append simp add: map_of_append_single)
  show "map_of (diff (diff_remove h d)) = (map_of (diff d))(h := cell_remove (map_of (diff d) h))"
    by (cases "map_of (diff d) h")
      (auto simp: diff_remove_def cell_remove_def map_of_delete_fun fun_upd_idem
          simp del: map_of_append simp add: map_of_append_single)
  show "diff_counts d
      = (card {h. map_of (diff d) h = Some True}, card {h. map_of (diff d) h = Some False})"
    using wf card_cells [of "diff d" True] card_cells [of "diff d" False]
    by (simp add: diff_wf_def diff_counts_def)
qed

text \<open>
  C33. After any sequence of insertions and removals the diff holds, for each leaf, the state of a
  three-valued cell driven by the operations on that leaf alone (an insertion and a removal cancel
  exactly once, repeated ones count once), and its two counters are the numbers of leaves pending
  insertion and deletion; no counter ever underflows.
\<close>

theorem accumulator_diff_refines:
  "let d = fold (\<lambda>(b, h). if b then diff_insert h else diff_remove h) ops diff_default
   in diff_wf d
    \<and> map_of (diff d) h
        = fold (\<lambda>(b, k). if k \<noteq> h then id else if b then cell_insert else cell_remove) ops None
    \<and> diff_counts d
        = (card {h. map_of (diff d) h = Some True}, card {h. map_of (diff d) h = Some False})"
proof -
  have "diff_wf diff_default" by (simp add: diff_wf_def diff_default_def)
  then show ?thesis
    using acc_diff.wf_ops [of diff_default ops] acc_diff.cells_ops [of diff_default ops h]
      acc_diff.counts_cells
    by (simp add: Let_def diff_default_def)
qed

end
