(* ===== verification/Authorization.thy ===== *)
theory Authorization
  imports Types
begin

text \<open>
  \<open>lib/authorization.rs\<close>: addresses of verifying keys and the verification of the signatures of a
  transaction and of a block body. Ed25519, RedPallas and the Orchard proof system are the
  functions of \<open>ext\<close>. The parallel iterators of the source are sequential here: only the choice of
  the error to report depends on their order.
\<close>

datatype auth_error =
    DalekError
  | NotEnoughAuthorizations
  | TooManyAuthorizations
  | OrchardProof
  | OrchardSignature

definition key_address :: "('acc, 'fr, 'pf) ext \<Rightarrow> hash \<Rightarrow> transparent_address" where
  "key_address E key = TransparentAddress (blake3_xof20 E (hash_bytes key))"

definition auth_address :: "('acc, 'fr, 'pf) ext \<Rightarrow> authorization \<Rightarrow> transparent_address" where
  "auth_address E a = key_address E (verifying_key a)"

definition verify_orchard :: "('acc, 'fr, 'pf) ext \<Rightarrow> 'pf transaction \<Rightarrow> (auth_error, unit) result" where
  "verify_orchard E tx =
     (case orchard_bundle tx of
        None \<Rightarrow> Inr ()
      | Some bundle \<Rightarrow>
          (case tx_txid E tx of Txid txid \<Rightarrow>
             if \<not> verify_binding_sig E txid bundle then Inl (Err OrchardSignature)
             else if \<not> verify_spend_auths E txid bundle then Inl (Err OrchardSignature)
             else if \<not> verify_orchard_proof E bundle then Inl (Err OrchardProof)
             else Inr ()))"

definition check_count :: "nat \<Rightarrow> nat \<Rightarrow> (auth_error, unit) result" where
  "check_count n required =
     (if n < required then Inl (Err NotEnoughAuthorizations)
      else if n > required then Inl (Err TooManyAuthorizations)
      else Inr ())"

definition verify_authorized_transaction ::
  "('acc, 'fr, 'pf) ext \<Rightarrow> 'pf authorized_transaction \<Rightarrow> (auth_error, unit) result" where
  "verify_authorized_transaction E at =
     and_then (check_count (length (authorizations at)) (length (inputs (transaction at)))) (\<lambda>_.
     and_then (verify_orchard E (transaction at)) (\<lambda>_.
     let tx_bytes = ser_transaction E (transaction at)
     in if verify_batch E (map (\<lambda>a. (tx_bytes, signature a, verifying_key a)) (authorizations at))
        then Inr () else Inl (Err DalekError)))"

fun chunks :: "nat \<Rightarrow> 'a list \<Rightarrow> 'a list list" where
  "chunks n xs = (if n = 0 \<or> xs = [] then [] else take n xs # chunks n (drop n xs))"

declare chunks.simps [simp del]

definition CHUNK_SIZE :: nat where
  "CHUNK_SIZE = 2 ^ 14"

definition body_messages :: "('acc, 'fr, 'pf) ext \<Rightarrow> 'pf transaction list \<Rightarrow> u8 list list" where
  "body_messages E txs = concat (map (\<lambda>tx. replicate (length (inputs tx)) (ser_transaction E tx)) txs)"

definition verify_authorizations :: "('acc, 'fr, 'pf) ext \<Rightarrow> 'pf body \<Rightarrow> (auth_error, unit) result" where
  "verify_authorizations E b =
     and_then (fold_res (\<lambda>_ tx. verify_orchard E tx) () (body_transactions b)) (\<lambda>_.
     let required = sum_list (map (\<lambda>tx. length (inputs tx)) (body_transactions b))
     in and_then (check_count (length (body_authorizations b)) required) (\<lambda>_.
        if required = 0 then Inr ()
        else
          let pairs = zip (body_authorizations b) (body_messages E (body_transactions b))
          in and_then (assert_that (length pairs = length (body_authorizations b))) (\<lambda>_.
             fold_res (\<lambda>_ chunk.
                if verify_batch E (map (\<lambda>(a, m). (m, signature a, verifying_key a)) chunk)
                then Inr () else Inl (Err DalekError)) () (chunks CHUNK_SIZE pairs))))"

section \<open>Every input is signed for its transaction\<close>

lemma concat_chunks: "0 < n \<Longrightarrow> concat (chunks n xs) = xs"
proof (induction n xs rule: chunks.induct)
  case (1 n xs)
  then show ?case by (subst chunks.simps) auto
qed

lemma check_count_ok [result_simps]: "check_count n r = Inr u \<longleftrightarrow> n = r"
  by (auto simp: check_count_def)

lemma fold_res_unit: "fold_res (\<lambda>_ x. f x) () xs = Inr () \<longleftrightarrow> (\<forall>x\<in>set xs. f x = Inr ())"
  by (induction xs) (auto simp: result_simps)

lemma length_body_messages:
  "length (body_messages E txs) = sum_list (map (\<lambda>tx. length (inputs tx)) txs)"
  by (induction txs) (auto simp: body_messages_def)

lemma verify_authorizations_ok:
  assumes "verify_authorizations E b = Inr ()"
    and batch: "\<forall>ms. verify_batch E ms \<longrightarrow> (\<forall>(m, s, k)\<in>set ms. valid m s k)"
  shows "length (body_authorizations b) = length (body_messages E (body_transactions b))
    \<and> (\<forall>i < length (body_authorizations b).
         valid (body_messages E (body_transactions b) ! i) (signature (body_authorizations b ! i))
           (verifying_key (body_authorizations b ! i)))
    \<and> (\<forall>tx\<in>set (body_transactions b). verify_orchard E tx = Inr ())"
proof -
  let ?ms = "body_messages E (body_transactions b)"
  let ?pairs = "zip (body_authorizations b) ?ms"
  from assms(1) have orch: "\<forall>tx\<in>set (body_transactions b). verify_orchard E tx = Inr ()"
    and len: "length (body_authorizations b) = length ?ms"
    by (auto simp: verify_authorizations_def result_simps Let_def fold_res_unit length_body_messages)
  have pair: "valid m (signature a) (verifying_key a)" if "(a, m) \<in> set ?pairs" for a m
  proof -
    from that len have "length ?ms \<noteq> 0" by auto
    with assms(1) len have "\<forall>c\<in>set (chunks CHUNK_SIZE ?pairs).
        verify_batch E (map (\<lambda>(a, m). (m, signature a, verifying_key a)) c)"
      by (auto simp: verify_authorizations_def result_simps Let_def fold_res_unit length_body_messages
          split: if_splits)
    moreover have "(a, m) \<in> set (concat (chunks CHUNK_SIZE ?pairs))"
      using that by (simp add: concat_chunks CHUNK_SIZE_def)
    ultimately show ?thesis using batch by fastforce
  qed
  have "\<forall>i < length (body_authorizations b).
      valid (?ms ! i) (signature (body_authorizations b ! i)) (verifying_key (body_authorizations b ! i))"
    using len by (auto intro!: pair simp: in_set_zip)
  with orch len show ?thesis by simp
qed

text \<open>
  A body whose authorizations verify has exactly one authorization per input, and the \<open>i\<close>-th
  authorization is a valid signature of the canonical bytes of the transaction that owns the
  \<open>i\<close>-th input of the block, given that an accepted batch contains only valid signatures; every
  Orchard bundle of the body passes its signature and proof checks. The split into chunks does not
  lose a signature.
\<close>

theorem verify_authorizations_sound:
  assumes "verify_authorizations E b = Inr ()"
    and batch: "\<forall>ms. verify_batch E ms \<longrightarrow> (\<forall>(m, s, k)\<in>set ms. valid m s k)"
  shows "length (body_authorizations b) = length (body_messages E (body_transactions b))
    \<and> (\<forall>i < length (body_authorizations b).
         let a = body_authorizations b ! i
         in valid (body_messages E (body_transactions b) ! i) (signature a) (verifying_key a))
    \<and> (\<forall>tx\<in>set (body_transactions b). verify_orchard E tx = Inr ())"
  using verify_authorizations_ok [OF assms] by (simp add: Let_def)

theorem verify_authorizations_sound_witness:
  "let tx = \<lparr>inputs = [(Regular (Txid 1) 0, 9)], utreexo_proof = (), outputs = [example_output 5],
        orchard_bundle = None\<rparr>;
       a = \<lparr>verifying_key = 3, signature = 4\<rparr>;
       b = \<lparr>coinbase = [], body_transactions = [tx], body_authorizations = [a]\<rparr>;
       E = example_ext\<lparr>verify_batch := (\<lambda>ms. \<forall>(m, s, k)\<in>set ms. unat s = unat k + 1)\<rparr>
   in verify_authorizations E b = Inr () \<and> unat (signature a) = unat (verifying_key a) + 1"
proof -
  let ?tx = "\<lparr>inputs = [(Regular (Txid 1) 0, 9)], utreexo_proof = (), outputs = [example_output 5],
        orchard_bundle = None\<rparr>"
  let ?a = "\<lparr>verifying_key = 3, signature = 4\<rparr>"
  let ?b = "\<lparr>coinbase = [], body_transactions = [?tx], body_authorizations = [?a]\<rparr>"
  let ?E = "example_ext\<lparr>verify_batch := (\<lambda>ms. \<forall>(m, s, k)\<in>set ms. unat s = unat k + 1)\<rparr>"
  have ok: "verify_authorizations ?E ?b = Inr ()"
    by (simp add: verify_authorizations_def verify_orchard_def check_count_def body_messages_def
        chunks.simps CHUNK_SIZE_def Let_def)
  have "unat (signature ?a) = unat (verifying_key ?a) + 1"
    using conjunct1 [OF conjunct2 [OF verify_authorizations_sound
        [OF ok, of "\<lambda>m s k. unat s = unat k + 1"]]] by (auto simp: Let_def)
  with ok show ?thesis by (simp add: Let_def)
qed

end
