(* ===== verification/State.thy ===== *)
theory State
  imports Rollback Codec Accumulator Authorization
begin

text \<open>
  \<open>lib/state/mod.rs\<close> and \<open>lib/state/orchard.rs\<close>: the databases of the sidechain state, its lookups
  and the validation of a transaction. Databases with the unit key are options; UTXO and STXO
  databases are keyed by the bytes of the out point, in whose order they are iterated.
\<close>

section \<open>Databases\<close>

datatype withdrawal_bundle_info =
    Known withdrawal_bundle
  | Unknown
  | UnknownConfirmed "(out_point, tx_output) fmap"

text \<open>\<open>lib/state/orchard.rs\<close>.\<close>

record 'fr orchard_dbs =
  block_hash_to_root :: "(block_hash option, anchor) db"
  frontier :: "'fr option"
  historical_roots :: "(anchor, block_hash option) db"
  db_nullifiers :: "(nullifier, unit) db"

record ('acc, 'fr) state =
  st_tip :: "block_hash option"
  st_height :: "nat option"
  utxos :: "(u8 list, tx_output) db"
  stxos :: "(u8 list, spent_output) db"
  pending_withdrawal_bundle :: "m6id option"
  latest_failed_withdrawal_bundle :: "m6id rollback option"
  withdrawal_bundles :: "(m6id, withdrawal_bundle_info \<times> withdrawal_bundle_status rollback) db"
  deposit_blocks :: "(nat, main_hash \<times> nat) db"
  withdrawal_bundle_event_blocks :: "(nat, main_hash \<times> nat) db"
  st_orchard :: "'fr orchard_dbs"
  utreexo_accumulator :: "'acc option"

definition WITHDRAWAL_BUNDLE_FAILURE_GAP :: nat where
  "WITHDRAWAL_BUNDLE_FAILURE_GAP = 4"

section \<open>Errors\<close>

datatype orchard_error =
    AppendCommitment
  | OrchardDb
  | EmptyAnchor
  | InvalidAnchor anchor
  | MissingNullifier nullifier
  | NullifierDoubleSpent nullifier

datatype connect_tx_error =
    CtNoUtxo out_point
  | CtOrchard orchard_error
  | CtUtreexoProofFailed

datatype invalid_header =
    IhBlockHash block_hash block_hash
  | IhPrevSideHash "block_hash option" "block_hash option"

datatype submitted_error =
    ConfirmedResubmitted main_hash m6id
  | DroppedPending m6id
  | SubNoUtxo out_point
  | SubPendingUnknown m6id
  | Resubmitted main_hash m6id nat
  | UnknownConfirmedFailed m6id nat
  | UnknownDropped m6id nat
  | UnknownPending m6id nat

datatype state_error =
    AuthorizationError
  | AmountOverflow
  | AmountUnderflow
  | BodyTooLarge
  | ConnectBlock connect_block_error
  | ConnectWithdrawalBundleSubmitted submitted_error
  | StateDb
  | InvalidBody merkle_root merkle_root
  | InvalidHeader invalid_header
  | NoDepositBlock
  | NotEnoughFees
  | NoTip
  | NoStxo out_point
  | NotEnoughValueIn
  | NoUtxo out_point
  | NoWithdrawalBundleEventBlock
  | OrchardError orchard_error
  | PendingWithdrawalBundleUnknown m6id
  | Utreexo
  | UtreexoProofFailed txid
  | UtreexoRootsMismatch
  | UtxoDoubleSpent
  | UtxoHashMismatch hash out_point hash
  | TooManySigops
  | UnexpectedWithdrawalBundleInsolvency main_hash m6id out_point
  | UnknownWithdrawalBundle m6id
  | UnknownWithdrawalBundleConfirmed main_hash m6id
  | UnknownWithdrawalBundleReconfirmed main_hash m6id
  | WrongPubKeyForAddress
  | WithdrawalBundleTooHeavy nat nat
and connect_block_error =
    CbConnectTransaction txid connect_tx_error
  | CbDb
  | CbInvalidBody merkle_root merkle_root
  | CbInvalidHeader invalid_header
  | CbOrchard orchard_error
  | CbUtreexo
  | CbAuthorizationError
  | CbNotEnoughFees
  | CbWrongPubKeyForAddress
  | CbUtreexoRootsMismatch
  | CbTooManySigops
  | CbBodyTooLarge
  | CbUtxoDoubleSpent
  | CbOther state_error

type_synonym 'a state_result = "(state_error, 'a) result"

section \<open>Orchard databases\<close>

text \<open>\<open>Orchard::new\<close> on the databases found on disk; the version entry is not modelled.\<close>

definition orchard_new :: "('acc, 'fr, 'pf) ext \<Rightarrow> 'fr orchard_dbs \<Rightarrow> 'fr orchard_dbs state_result" where
  "orchard_new E O' =
     (let O1 = (if frontier O' = None then O'\<lparr>frontier := Some (frontier_empty E)\<rparr> else O');
          empty_root = frontier_root E (frontier_empty E);
          O2 = (if fmdom (historical_roots O1) = {||}
                then O1\<lparr>block_hash_to_root := fmupd None empty_root (block_hash_to_root O1),
                        historical_roots := fmupd empty_root None (historical_roots O1)\<rparr>
                else O1)
      in and_then (assert_that (fmdom (block_hash_to_root O2) \<noteq> {||})) (\<lambda>_. Inr O2))"

definition put_frontier :: "'fr \<Rightarrow> 'fr orchard_dbs \<Rightarrow> 'fr orchard_dbs" where
  "put_frontier fr O' = O'\<lparr>frontier := Some fr\<rparr>"

definition put_historical_root ::
  "block_hash \<Rightarrow> anchor \<Rightarrow> 'fr orchard_dbs \<Rightarrow> 'fr orchard_dbs \<times> bool" where
  "put_historical_root b root O' =
     (if has_key (historical_roots O') root then (O', False)
      else (O'\<lparr>block_hash_to_root := fmupd (Some b) root (block_hash_to_root O'),
               historical_roots := fmupd root (Some b) (historical_roots O')\<rparr>, True))"

definition put_nullifier :: "nullifier \<Rightarrow> 'fr orchard_dbs \<Rightarrow> 'fr orchard_dbs" where
  "put_nullifier n O' = O'\<lparr>db_nullifiers := fmupd n () (db_nullifiers O')\<rparr>"

definition delete_historical_root :: "block_hash \<Rightarrow> 'fr orchard_dbs \<Rightarrow> 'fr orchard_dbs \<times> bool" where
  "delete_historical_root b O' =
     (case fmlookup (block_hash_to_root O') (Some b) of
        None \<Rightarrow> (O', False)
      | Some root \<Rightarrow>
          (O'\<lparr>block_hash_to_root := fmdrop (Some b) (block_hash_to_root O'),
              historical_roots := fmdrop root (historical_roots O')\<rparr>, True))"

definition delete_nullifier :: "nullifier \<Rightarrow> 'fr orchard_dbs \<Rightarrow> 'fr orchard_dbs" where
  "delete_nullifier n O' = O'\<lparr>db_nullifiers := fmdrop n (db_nullifiers O')\<rparr>"

section \<open>Lookups of the state\<close>

text \<open>\<open>State::new\<close> on the databases found on disk.\<close>

definition state_new :: "('acc, 'fr, 'pf) ext \<Rightarrow> ('acc, 'fr) state \<Rightarrow> ('acc, 'fr) state state_result" where
  "state_new E S =
     and_then (orchard_new E (st_orchard S)) (\<lambda>O'.
     Inr (S\<lparr>st_orchard := O',
            utreexo_accumulator :=
              (case utreexo_accumulator S of Some a \<Rightarrow> Some a | None \<Rightarrow> Some (accumulator_default E))\<rparr>))"

definition utxo_entries :: "('acc, 'fr) state \<Rightarrow> (u8 list \<times> tx_output) list" where
  "utxo_entries S = sorted_list_of_fmap (utxos S)"

definition get_utxos :: "('acc, 'fr) state \<Rightarrow> (out_point \<times> tx_output) list state_result" where
  "get_utxos S =
     map_res (\<lambda>(key, out). map_ok (\<lambda>op. (op, out)) (out_point_of_key key)) (utxo_entries S)"

definition get_utxos_by_addresses ::
  "('acc, 'fr) state \<Rightarrow> transparent_address list \<Rightarrow> (out_point \<times> tx_output) list state_result" where
  "get_utxos_by_addresses S addresses =
     map_res (\<lambda>(key, out). map_ok (\<lambda>op. (op, out)) (out_point_of_key key))
       (filter (\<lambda>(_, out). address out \<in> set addresses) (utxo_entries S))"

definition latest_failed_height :: "withdrawal_bundle_status rollback \<Rightarrow> nat option" where
  "latest_failed_height r =
     map_option hs_height (find (\<lambda>s. hs_value s = Failed) (rev (rb_iter r)))"

definition get_latest_failed_withdrawal_bundle ::
  "('acc, 'fr) state \<Rightarrow> (nat \<times> m6id) option state_result" where
  "get_latest_failed_withdrawal_bundle S =
     (case latest_failed_withdrawal_bundle S of
        None \<Rightarrow> Inr None
      | Some r \<Rightarrow>
          let m6id = hs_value (rb_latest r)
          in and_then (expect (fmlookup (withdrawal_bundles S) m6id)) (\<lambda>(_, bundle_status).
             and_then (expect (latest_failed_height bundle_status)) (\<lambda>failed_height.
             Inr (Some (failed_height, m6id)))))"

definition st_get_accumulator :: "('acc, 'fr, 'pf) ext \<Rightarrow> ('acc, 'fr) state \<Rightarrow> 'acc" where
  "st_get_accumulator E S =
     (case utreexo_accumulator S of Some a \<Rightarrow> a | None \<Rightarrow> accumulator_default E)"

definition regenerate_proof ::
  "('acc, 'fr, 'pf) ext \<Rightarrow> ('acc, 'fr) state \<Rightarrow> 'pf transaction \<Rightarrow> 'pf transaction state_result" where
  "regenerate_proof E S tx =
     map_ok (\<lambda>p. tx\<lparr>utreexo_proof := p\<rparr>)
       (ok_or Utreexo (forest_prove E (st_get_accumulator E S) (map snd (inputs tx))))"

definition get_utreexo_proof ::
  "('acc, 'fr, 'pf) ext \<Rightarrow> ('acc, 'fr) state \<Rightarrow> (out_point \<times> tx_output) list \<Rightarrow> 'pf state_result" where
  "get_utreexo_proof E S pointed =
     ok_or Utreexo (forest_prove E (st_get_accumulator E S)
       (map (\<lambda>(op, out). pointed_output_hash E op out) pointed))"

definition fill_transaction ::
  "('acc, 'fr) state \<Rightarrow> 'pf transaction \<Rightarrow> 'pf filled_transaction state_result" where
  "fill_transaction S tx =
     map_ok (\<lambda>spent. \<lparr>ft_transaction = tx, spent_utxos = spent\<rparr>)
       (map_res (\<lambda>(op, _). ok_or (NoUtxo op) (fmlookup (utxos S) (out_point_key op))) (inputs tx))"

definition try_get_pending_withdrawal_bundle ::
  "('acc, 'fr) state \<Rightarrow> (withdrawal_bundle \<times> nat) option state_result" where
  "try_get_pending_withdrawal_bundle S =
     (case pending_withdrawal_bundle S of
        None \<Rightarrow> Inr None
      | Some m6id \<Rightarrow>
          and_then (ok_or StateDb (fmlookup (withdrawal_bundles S) m6id)) (\<lambda>(info, status).
          case info of
            Known bundle \<Rightarrow> Inr (Some (bundle, hs_height (rb_latest status)))
          | _ \<Rightarrow> Inl (Err (PendingWithdrawalBundleUnknown m6id))))"

text \<open>The entry with the greatest key: keys are \<open>u32\<close> numbers in little-endian bytes.\<close>

definition db_last :: "(nat, 'v) db \<Rightarrow> (nat \<times> 'v) option" where
  "db_last m =
     (let keys = sort (map (\<lambda>k. (le_bytes 4 k, k)) (sorted_list_of_fset (fmdom m)))
      in if keys = [] then None
         else map_option (Pair (snd (last keys))) (fmlookup m (snd (last keys))))"

definition get_last_deposit_block_hash :: "('acc, 'fr) state \<Rightarrow> main_hash option" where
  "get_last_deposit_block_hash S = map_option (\<lambda>(_, block_hash, _). block_hash) (db_last (deposit_blocks S))"

definition get_last_withdrawal_bundle_event_block_hash :: "('acc, 'fr) state \<Rightarrow> main_hash option" where
  "get_last_withdrawal_bundle_event_block_hash S =
     map_option (\<lambda>(_, block_hash, _). block_hash) (db_last (withdrawal_bundle_event_blocks S))"

section \<open>Validation of a transaction\<close>

definition add_amount :: "nat \<Rightarrow> nat \<Rightarrow> nat state_result" where
  "add_amount a b = ok_or AmountOverflow (checked_add 64 a b)"

definition filled_inputs :: "'pf filled_transaction \<Rightarrow> (out_point \<times> hash \<times> tx_output) list" where
  "filled_inputs ft =
     map (\<lambda>((op, h), out). (op, h, out)) (zip (inputs (ft_transaction ft)) (spent_utxos ft))"

definition validate_utxo_hashes ::
  "('acc, 'fr, 'pf) ext \<Rightarrow> 'pf filled_transaction \<Rightarrow> unit state_result" where
  "validate_utxo_hashes E ft =
     fold_res (\<lambda>_ (op, utxo_hash, out).
       let computed = pointed_output_hash E op out
       in if utxo_hash \<noteq> computed then Inl (Err (UtxoHashMismatch computed op utxo_hash)) else Inr ())
       () (filled_inputs ft)"

definition validate_filled_transaction ::
  "('acc, 'fr, 'pf) ext \<Rightarrow> 'pf filled_transaction \<Rightarrow> nat state_result" where
  "validate_filled_transaction E ft =
     and_then (validate_utxo_hashes E ft) (\<lambda>_.
     and_then (fold_res (\<lambda>v out. add_amount v (get_value out)) 0 (spent_utxos ft)) (\<lambda>value_in.
     and_then (fold_res (\<lambda>v out. add_amount v (get_value out)) 0 (outputs (ft_transaction ft)))
       (\<lambda>value_out.
     and_then
       (case orchard_bundle (ft_transaction ft) of
          None \<Rightarrow> Inr (value_in, value_out)
        | Some bundle \<Rightarrow>
            if value_balance bundle > 0
            then map_ok (\<lambda>v. (v, value_out)) (add_amount value_in (nat \<bar>value_balance bundle\<bar>))
            else map_ok (\<lambda>v. (value_in, v)) (add_amount value_out (nat \<bar>value_balance bundle\<bar>)))
       (\<lambda>(value_in, value_out).
     if value_out > value_in then Inl (Err NotEnoughValueIn)
     else ok_or AmountUnderflow (checked_sub value_in value_out)))))"

definition validate_orchard_anchor ::
  "('acc, 'fr, 'pf) ext \<Rightarrow> ('acc, 'fr) state \<Rightarrow> orchard_bundle \<Rightarrow> unit state_result" where
  "validate_orchard_anchor E S bundle =
     (if bundle_anchor bundle = empty_anchor E \<and> spends_enabled bundle
      then Inl (Err (OrchardError EmptyAnchor))
      else if \<not> has_key (historical_roots (st_orchard S)) (bundle_anchor bundle)
      then Inl (Err (OrchardError (InvalidAnchor (bundle_anchor bundle))))
      else Inr ())"

definition check_addresses ::
  "('acc, 'fr, 'pf) ext \<Rightarrow> authorization list \<Rightarrow> tx_output list \<Rightarrow> unit state_result" where
  "check_addresses E auths spent =
     fold_res (\<lambda>_ (a, utxo). if auth_address E a \<noteq> address utxo
       then Inl (Err WrongPubKeyForAddress) else Inr ()) () (zip auths spent)"

definition validate_anchor_of ::
  "('acc, 'fr, 'pf) ext \<Rightarrow> ('acc, 'fr) state \<Rightarrow> 'pf transaction \<Rightarrow> unit state_result" where
  "validate_anchor_of E S tx =
     (case orchard_bundle tx of None \<Rightarrow> Inr () | Some bundle \<Rightarrow> validate_orchard_anchor E S bundle)"

definition validate_transaction ::
  "('acc, 'fr, 'pf) ext \<Rightarrow> ('acc, 'fr) state \<Rightarrow> 'pf authorized_transaction \<Rightarrow> nat state_result" where
  "validate_transaction E S at =
     and_then (fill_transaction S (transaction at)) (\<lambda>filled.
     and_then (check_addresses E (authorizations at) (spent_utxos filled)) (\<lambda>_.
     and_then (validate_anchor_of E S (transaction at)) (\<lambda>_.
     and_then
       (case verify_authorized_transaction E at of
          Inr _ \<Rightarrow> Inr () | Inl (Err _) \<Rightarrow> Inl (Err AuthorizationError)
        | Inl Panic \<Rightarrow> Inl Panic | Inl Diverge \<Rightarrow> Inl Diverge)
       (\<lambda>_. validate_filled_transaction E filled))))"

definition body_sigops_limit :: "('acc, 'fr, 'pf) ext \<Rightarrow> nat \<Rightarrow> nat" where
  "body_sigops_limit E height =
     (let month = height div (6 * 24 * 30)
      in if month < 120 then growth_limit E 42800 month else 42800 * 111)"

definition body_size_limit :: "('acc, 'fr, 'pf) ext \<Rightarrow> nat \<Rightarrow> nat" where
  "body_size_limit E height =
     (let month = height div (6 * 24 * 30)
      in if month < 120 then growth_limit E (8 * 1024 * 1024) month else 8 * 1024 * 1024 * 111)"

fun is_deposit :: "out_point \<Rightarrow> bool" where
  "is_deposit (Deposit _ _) = True"
| "is_deposit _ = False"

fun is_withdrawal_inpoint :: "in_point \<Rightarrow> bool" where
  "is_withdrawal_inpoint (InWithdrawal _) = True"
| "is_withdrawal_inpoint _ = False"

definition sidechain_wealth :: "('acc, 'fr) state \<Rightarrow> nat state_result" where
  "sidechain_wealth S =
     and_then (fold_res (\<lambda>total (key, out).
         and_then (out_point_of_key key) (\<lambda>op.
         if is_deposit op then add_amount total (get_value out) else Inr total))
       0 (sorted_list_of_fmap (utxos S))) (\<lambda>total_deposit_utxo_value.
     and_then (fold_res (\<lambda>(dep, wd) (key, spent).
         and_then (out_point_of_key key) (\<lambda>op.
         and_then (if is_deposit op then add_amount dep (get_value (so_output spent)) else Inr dep) (\<lambda>dep.
         and_then (if is_withdrawal_inpoint (so_inpoint spent)
                   then add_amount wd (get_value (so_output spent)) else Inr wd) (\<lambda>wd.
         Inr (dep, wd)))))
       (0, 0) (sorted_list_of_fmap (stxos S))) (\<lambda>(total_deposit_stxo_value, total_withdrawal_stxo_value).
     and_then (add_amount total_deposit_utxo_value total_deposit_stxo_value) (\<lambda>t.
     ok_or AmountOverflow (checked_sub t total_withdrawal_stxo_value))))"

section \<open>Value is conserved\<close>

lemma add_amount_ok [result_simps]: "add_amount a b = Inr c \<longleftrightarrow> c = a + b \<and> a + b < 2 ^ 64"
  by (auto simp: add_amount_def result_simps)

lemma fold_add_amount:
  "a < 2 ^ 64 \<Longrightarrow> fold_res (\<lambda>v x. add_amount v (f x)) a xs = Inr r
     \<longleftrightarrow> r = a + sum_list (map f xs) \<and> r < 2 ^ 64"
proof (induction xs arbitrary: a)
  case Nil
  then show ?case by auto
next
  case (Cons x xs)
  show ?case
  proof (cases "a + f x < 2 ^ 64")
    case True
    with Cons.IH [of "a + f x"] show ?thesis by (auto simp: result_simps add.assoc)
  next
    case False
    then show ?thesis by (auto simp: result_simps)
  qed
qed

lemma validate_utxo_hashes_ok:
  "validate_utxo_hashes E ft = Inr u \<longleftrightarrow>
     (\<forall>(op, h, out)\<in>set (filled_inputs ft). h = pointed_output_hash E op out)"
  unfolding validate_utxo_hashes_def
  by (induction "filled_inputs ft" arbitrary: ft) (auto simp: result_simps Let_def fold_res_unit)

definition bundle_balance :: "'pf transaction \<Rightarrow> int" where
  "bundle_balance tx = (case orchard_bundle tx of None \<Rightarrow> 0 | Some b \<Rightarrow> value_balance b)"

lemma validate_filled_cases:
  fixes ft :: "'pf filled_transaction"
  defines "tx \<equiv> ft_transaction ft"
    and "vin \<equiv> sum_list (map get_value (spent_utxos ft))"
    and "vout \<equiv> sum_list (map get_value (outputs (ft_transaction ft)))"
  shows "validate_filled_transaction E ft = Inr fee \<longleftrightarrow>
      (\<forall>(op, h, out)\<in>set (filled_inputs ft). h = pointed_output_hash E op out)
      \<and> vin < 2 ^ 64 \<and> vout < 2 ^ 64
      \<and> (case orchard_bundle tx of
           None \<Rightarrow> vout \<le> vin \<and> fee = vin - vout
         | Some b \<Rightarrow>
             if value_balance b > 0
             then vin + nat \<bar>value_balance b\<bar> < 2 ^ 64 \<and> vout \<le> vin + nat \<bar>value_balance b\<bar>
               \<and> fee = vin + nat \<bar>value_balance b\<bar> - vout
             else vout + nat \<bar>value_balance b\<bar> < 2 ^ 64 \<and> vout + nat \<bar>value_balance b\<bar> \<le> vin
               \<and> fee = vin - (vout + nat \<bar>value_balance b\<bar>))"
  unfolding validate_filled_transaction_def tx_def vin_def vout_def
  by (auto simp: result_simps fold_add_amount validate_utxo_hashes_ok split: option.splits if_splits)

text \<open>
  Acceptance of a filled transaction, exactly: every input carries the leaf hash of the output
  it spends, neither side overflows the range of amounts (the value that leaves the shielded pool
  counts as input, the value that enters it as output), and the fee returned is what the inputs
  hold beyond the outputs. In particular no value is created.
\<close>

theorem validate_filled_transaction_iff:
  "validate_filled_transaction E ft = Inr fee \<longleftrightarrow>
     (\<forall>(op, h, out)\<in>set (filled_inputs ft). h = pointed_output_hash E op out)
     \<and> (let value_in = int (sum_list (map get_value (spent_utxos ft)))
              + max 0 (bundle_balance (ft_transaction ft));
            value_out = int (sum_list (map get_value (outputs (ft_transaction ft))))
              + max 0 (- bundle_balance (ft_transaction ft))
        in value_in < 2 ^ 64 \<and> value_out < 2 ^ 64 \<and> value_in = value_out + int fee)"
  unfolding validate_filled_cases
  by (cases "orchard_bundle (ft_transaction ft)") (auto simp: bundle_balance_def Let_def)

theorem validate_filled_transaction_iff_witness:
  "let tx = \<lparr>inputs = [(Regular (Txid 1) 0, 66)], utreexo_proof = (), outputs = [example_output 5],
        orchard_bundle = Some \<lparr>actions = [], spends_enabled = True, value_balance = -2,
          bundle_anchor = Anchor 0, bundle_authorization = []\<rparr>\<rparr>
   in validate_filled_transaction example_ext
        \<lparr>ft_transaction = tx, spent_utxos = [example_output 10]\<rparr> = Inr 3"
proof -
  have "pointed_output_hash example_ext (Regular (Txid 1) 0) (example_output 10) = 66"
    by (simp add: pointed_output_hash_def example_ext_def ser_output_def example_output_def)
  then show ?thesis
    unfolding Let_def
    by (subst validate_filled_transaction_iff)
      (simp add: filled_inputs_def bundle_balance_def get_value_def example_output_def)
qed

section \<open>The order of the sequence numbers\<close>

text \<open>
  Sequence numbers are ordered by their little-endian bytes: entry 255 comes after entry 256, so the
  last entry is not the newest one.
\<close>

lemma db_last_little_endian:
  "db_last (fmupd 256 y (fmupd 255 x fmempty)) = Some (255, x)"
proof -
  have four: "(4::nat) = Suc (Suc (Suc (Suc 0)))" by simp
  have "le_bytes 4 255 = [255, 0, 0, 0]" "le_bytes 4 256 = [0, 1, 0, 0]"
    unfolding four le_bytes.simps by simp_all
  then show ?thesis by (simp add: db_last_def Let_def sorted_list_of_fset.rep_eq)
qed

end
