(* ===== verification/Bundle.thy ===== *)
theory Bundle
  imports State "HOL-Library.Multiset"
begin

text \<open>
  Withdrawal bundles: \<open>WithdrawalBundle\<close> and \<open>AggregatedWithdrawal\<close> of \<open>lib/types/mod.rs\<close> and
  \<open>collect_withdrawal_bundle\<close> of \<open>lib/state/two_way_peg_data.rs\<close>. The \<open>HashMap\<close> from destinations
  to aggregated withdrawals is an association list in the order of insertion; the bundle does not depend on
  the order in which its values are visited (\<open>bundle_of_values_order\<close>).
\<close>

section \<open>Sizes and weights\<close>

definition txout_size :: "('acc, 'fr, 'pf) ext \<Rightarrow> nat \<Rightarrow> nat option" where
  "txout_size E spk_size =
     Option.bind (checked_add 32 8 (varint_size E spk_size)) (\<lambda>size. checked_add 32 size spk_size)"

definition txin_base_size :: "('acc, 'fr, 'pf) ext \<Rightarrow> nat \<Rightarrow> nat option" where
  "txin_base_size E script_sig_size =
     Option.bind (checked_add 32 (36 + varint_size E script_sig_size) script_sig_size)
       (\<lambda>res. checked_add 32 res 4)"

definition tx_base_size :: "('acc, 'fr, 'pf) ext \<Rightarrow> nat \<Rightarrow> nat \<Rightarrow> nat \<Rightarrow> nat \<Rightarrow> nat option" where
  "tx_base_size E n_inputs sum_txin_base_sizes n_outputs sum_txout_sizes =
     Option.bind (checked_add 32 (varint_size E n_inputs) sum_txin_base_sizes) (\<lambda>vin_base_size.
     Option.bind (checked_add 32 4 vin_base_size) (\<lambda>res.
     Option.bind (checked_add 32 (varint_size E n_outputs) sum_txout_sizes) (\<lambda>vout_size.
     Option.bind (checked_add 32 res vout_size) (\<lambda>res.
     checked_add 32 res 4))))"

definition MAX_STANDARD_TX_WEIGHT :: nat where
  "MAX_STANDARD_TX_WEIGHT = 400000"

definition predict_weight :: "('acc, 'fr, 'pf) ext \<Rightarrow> nat \<Rightarrow> nat \<Rightarrow> nat option" where
  "predict_weight E n_outputs sum_txout_sizes =
     Option.bind (txin_base_size E 0) (\<lambda>sum_txin_base_sizes.
     Option.bind (checked_add 32 n_outputs 2) (\<lambda>n_outputs.
     Option.bind (txout_size E 34) (\<lambda>inputs_commitment_txout_size.
     Option.bind (txout_size E 10) (\<lambda>mainchain_fee_commitment_txout_size.
     Option.bind
       (checked_add 32 (inputs_commitment_txout_size + mainchain_fee_commitment_txout_size) sum_txout_sizes)
       (\<lambda>sum_txout_sizes.
     Option.bind (tx_base_size E 1 sum_txin_base_sizes n_outputs sum_txout_sizes) (\<lambda>base_size.
     if base_size * 4 \<ge> 2 ^ 64 then None
     else if base_size * 4 \<le> MAX_STANDARD_TX_WEIGHT then Some (base_size * 4) else None))))))"

section \<open>Bundles\<close>

definition inputs_commitment_txout ::
  "('acc, 'fr, 'pf) ext \<Rightarrow> nat \<Rightarrow> (out_point, tx_output) fmap \<Rightarrow> txout" where
  "inputs_commitment_txout E block_height spend_utxos =
     (let inputs = map fst (sorted_list_of_fmap spend_utxos)
            @ [Regular (Txid 0) (word_of_nat block_height)]
      in (0, [0x6a, 0x20] @ hash_bytes (blake3 E (ser_vec ser_out_point inputs))))"

definition mainchain_fee_txout :: "nat \<Rightarrow> txout" where
  "mainchain_fee_txout fee = (0, [0x6a, 0x08] @ rev (le_bytes 8 fee))"

definition bundle_new ::
  "('acc, 'fr, 'pf) ext \<Rightarrow> nat \<Rightarrow> nat \<Rightarrow> (out_point, tx_output) fmap \<Rightarrow> txout list
    \<Rightarrow> withdrawal_bundle state_result" where
  "bundle_new E block_height fee spend_utxos bundle_outputs =
     (let outs = [mainchain_fee_txout fee, inputs_commitment_txout E block_height spend_utxos] @ bundle_outputs
      in if tx_weight E outs > MAX_STANDARD_TX_WEIGHT
         then Inl (Err (WithdrawalBundleTooHeavy (tx_weight E outs) MAX_STANDARD_TX_WEIGHT))
         else Inr \<lparr>wb_spend_utxos = spend_utxos, wb_tx = outs\<rparr>)"

definition compute_m6id :: "('acc, 'fr, 'pf) ext \<Rightarrow> withdrawal_bundle \<Rightarrow> m6id" where
  "compute_m6id E bundle = compute_txid E (wb_tx bundle)"

section \<open>Collecting a bundle\<close>

record aggregated_withdrawal =
  ag_spend_utxos :: "(out_point, tx_output) fmap"
  ag_main_address :: main_address
  ag_value :: nat
  ag_main_fee :: nat

text \<open>\<open>Ord for AggregatedWithdrawal\<close>, and \<open>sort_by_key\<close> with \<open>Reverse\<close>: stable and descending.\<close>

definition agg_key :: "aggregated_withdrawal \<Rightarrow> nat \<times> nat \<times> main_address" where
  "agg_key a = (ag_main_fee a, ag_value a, ag_main_address a)"

definition sort_reverse :: "aggregated_withdrawal list \<Rightarrow> aggregated_withdrawal list" where
  "sort_reverse xs = rev (sort_key agg_key (rev xs))"

type_synonym aggregation = "(main_address \<times> aggregated_withdrawal) list"

definition aggregate_step :: "aggregation \<Rightarrow> u8 list \<times> tx_output \<Rightarrow> aggregation state_result" where
  "aggregate_step m x =
     (case x of (key, out) \<Rightarrow>
        case content out of
          Value _ \<Rightarrow> Inr m
        | Withdrawal v main_fee addr \<Rightarrow>
            let a = (case map_of m addr of
                       Some a \<Rightarrow> a
                     | None \<Rightarrow> \<lparr>ag_spend_utxos = fmempty, ag_main_address = addr, ag_value = 0, ag_main_fee = 0\<rparr>)
            in and_then (add_amount (ag_value a) v) (\<lambda>v'.
               and_then (add_amount (ag_main_fee a) main_fee) (\<lambda>f'.
               and_then (out_point_of_key key) (\<lambda>op.
               Inr (AList.update addr (a\<lparr>ag_value := v', ag_main_fee := f',
                 ag_spend_utxos := fmupd op out (ag_spend_utxos a)\<rparr>) m)))))"

text \<open>The loop over the sorted withdrawals: fee, spent UTXOs, outputs and their total size.\<close>

type_synonym bundle_parts = "nat \<times> (out_point, tx_output) fmap \<times> txout list \<times> nat"

fun bundle_loop ::
  "('acc, 'fr, 'pf) ext \<Rightarrow> bundle_parts \<Rightarrow> aggregated_withdrawal list \<Rightarrow> bundle_parts state_result" where
  "bundle_loop E parts [] = Inr parts"
| "bundle_loop E (fee, spend, outs, sz) (a # aggs) =
     (let spk = script_pubkey E (ag_main_address a)
      in if length outs + 1 \<ge> 2 ^ 32 then Inr (fee, spend, outs, sz)
         else if length spk \<ge> 2 ^ 32 then bundle_loop E (fee, spend, outs, sz) aggs
         else case txout_size E (length spk) of
           None \<Rightarrow> bundle_loop E (fee, spend, outs, sz) aggs
         | Some sz1 \<Rightarrow>
             (case checked_add 32 sz sz1 of
                None \<Rightarrow> Inr (fee, spend, outs, sz)
              | Some sz' \<Rightarrow>
                  if predict_weight E (length outs + 1) sz' = None
                  then Inr (fee, spend, outs, sz')
                  else and_then (expect (checked_add 64 fee (ag_main_fee a))) (\<lambda>fee'.
                    bundle_loop E (fee', spend ++\<^sub>f ag_spend_utxos a, outs @ [(ag_value a, spk)], sz')
                      aggs)))"

definition bundle_of_values ::
  "('acc, 'fr, 'pf) ext \<Rightarrow> nat \<Rightarrow> aggregated_withdrawal list \<Rightarrow> withdrawal_bundle option state_result" where
  "bundle_of_values E block_height aggs =
     (if aggs = [] then Inr None
      else and_then (bundle_loop E (0, fmempty, [], 0) (sort_reverse aggs)) (\<lambda>(fee, spend, outs, _).
           map_ok Some (bundle_new E block_height fee spend outs)))"

definition collect_withdrawal_bundle ::
  "('acc, 'fr, 'pf) ext \<Rightarrow> ('acc, 'fr) state \<Rightarrow> nat \<Rightarrow> withdrawal_bundle option state_result" where
  "collect_withdrawal_bundle E S block_height =
     and_then (fold_res aggregate_step [] (utxo_entries S)) (\<lambda>m.
     bundle_of_values E block_height (map snd m))"

section \<open>Aggregation\<close>

text \<open>The withdrawals among spent outputs: their values and their mainchain fees.\<close>

fun withdrawal_value :: "tx_output \<Rightarrow> nat" where
  "withdrawal_value out = (case content out of Value _ \<Rightarrow> 0 | Withdrawal v _ _ \<Rightarrow> v)"

fun withdrawal_fee :: "tx_output \<Rightarrow> nat" where
  "withdrawal_fee out = (case content out of Value _ \<Rightarrow> 0 | Withdrawal _ fee _ \<Rightarrow> fee)"

definition total_of :: "(tx_output \<Rightarrow> nat) \<Rightarrow> (out_point, tx_output) fmap \<Rightarrow> nat" where
  "total_of f m = (\<Sum>op\<in>fmdom' m. f (the (fmlookup m op)))"

lemma total_of_empty [simp]: "total_of f fmempty = 0"
  by (simp add: total_of_def)

lemma total_of_upd: "fmlookup m op = None \<Longrightarrow> total_of f (fmupd op out m) = f out + total_of f m"
proof -
  assume new: "fmlookup m op = None"
  then have "op \<notin> fmdom' m" by (simp add: fmdom'_notI)
  then show ?thesis
    by (simp add: total_of_def sum.insert cong: sum.cong) (intro sum.cong, auto)
qed

lemma total_of_add:
  assumes "fmdom' m \<inter> fmdom' n = {}"
  shows "total_of f (m ++\<^sub>f n) = total_of f m + total_of f n"
proof -
  have "total_of f (m ++\<^sub>f n) = (\<Sum>op\<in>fmdom' m \<union> fmdom' n. f (the (fmlookup (m ++\<^sub>f n) op)))"
    by (simp add: total_of_def)
  also have "\<dots> = (\<Sum>op\<in>fmdom' m. f (the (fmlookup (m ++\<^sub>f n) op)))
      + (\<Sum>op\<in>fmdom' n. f (the (fmlookup (m ++\<^sub>f n) op)))"
    using assms by (intro sum.union_disjoint) auto
  also have "\<dots> = total_of f m + total_of f n"
    using assms unfolding total_of_def
    by (intro arg_cong2 [where f = "(+)"] sum.cong refl) (auto simp: fmdom'_alt_def)
  finally show ?thesis .
qed

definition paid_to :: "('acc, 'fr) state \<Rightarrow> main_address \<Rightarrow> (out_point, tx_output) fmap \<Rightarrow> bool" where
  "paid_to S addr m \<longleftrightarrow> (\<forall>op out. fmlookup m op = Some out \<longrightarrow>
     fmlookup (utxos S) (out_point_key op) = Some out \<and> (\<exists>v fee. content out = Withdrawal v fee addr))"

text \<open>An aggregated withdrawal sums up withdrawals of the state to its address.\<close>

definition agg_ok :: "('acc, 'fr) state \<Rightarrow> aggregated_withdrawal \<Rightarrow> bool" where
  "agg_ok S a \<longleftrightarrow> paid_to S (ag_main_address a) (ag_spend_utxos a)
     \<and> ag_value a = total_of withdrawal_value (ag_spend_utxos a)
     \<and> ag_main_fee a = total_of withdrawal_fee (ag_spend_utxos a)"

definition aggregation_ok :: "('acc, 'fr) state \<Rightarrow> aggregation \<Rightarrow> bool" where
  "aggregation_ok S m \<longleftrightarrow> distinct (map fst m) \<and> (\<forall>(addr, a)\<in>set m. ag_main_address a = addr \<and> agg_ok S a)"

definition aggregated_ops :: "aggregation \<Rightarrow> out_point set" where
  "aggregated_ops m = (\<Union>(_, a)\<in>set m. fmdom' (ag_spend_utxos a))"

lemma set_update_cases: "(k', v') \<in> set (AList.update k v m) \<Longrightarrow> (k', v') = (k, v) \<or> (k', v') \<in> set m"
  by (induction m) (auto split: if_splits)

lemma aggregate_step_ok:
  assumes ok: "aggregation_ok S m" and step: "aggregate_step m (out_point_key op, out) = Inr m'"
    and S: "fmlookup (utxos S) (out_point_key op) = Some out" and new: "op \<notin> aggregated_ops m"
  shows "aggregation_ok S m'" "aggregated_ops m' \<subseteq> insert op (aggregated_ops m)"
proof (atomize (full), cases "content out")
  case (Value v)
  with step ok show "aggregation_ok S m' \<and> aggregated_ops m' \<subseteq> insert op (aggregated_ops m)"
    by (auto simp: aggregate_step_def)
next
  case (Withdrawal v fee addr)
  define a where "a = (case map_of m addr of Some a \<Rightarrow> a
    | None \<Rightarrow> \<lparr>ag_spend_utxos = fmempty, ag_main_address = addr, ag_value = 0, ag_main_fee = 0\<rparr>)"
  let ?a = "a\<lparr>ag_value := ag_value a + v, ag_main_fee := ag_main_fee a + fee,
     ag_spend_utxos := fmupd op out (ag_spend_utxos a)\<rparr>"
  have m': "m' = AList.update addr ?a m"
    using step Withdrawal by (auto simp: aggregate_step_def a_def [symmetric] result_simps)
  have a: "agg_ok S a" "ag_main_address a = addr" "fmdom' (ag_spend_utxos a) \<subseteq> aggregated_ops m"
    using ok map_of_SomeD [of m addr]
    by (force simp: a_def aggregation_ok_def aggregated_ops_def agg_ok_def paid_to_def split: option.splits)+
  then have fresh: "fmlookup (ag_spend_utxos a) op = None" using new by (meson fmdom'_notD subsetD)
  have "agg_ok S ?a"
    using a(1,2) S Withdrawal by (auto simp: agg_ok_def paid_to_def total_of_upd [OF fresh])
  then have "aggregation_ok S m'"
    using ok a(2) unfolding m' aggregation_ok_def
    by (auto simp: distinct_update dest!: set_update_cases)
  moreover have "aggregated_ops m' \<subseteq> insert op (aggregated_ops m)"
    using a(3) unfolding m' aggregated_ops_def by (force dest!: set_update_cases)
  ultimately show "aggregation_ok S m' \<and> aggregated_ops m' \<subseteq> insert op (aggregated_ops m)" by blast
qed

lemma aggregate_ok:
  assumes "fold_res aggregate_step m xs = Inr m'" "aggregation_ok S m" "distinct (map fst xs)"
    and "\<And>k out. (k, out) \<in> set xs \<Longrightarrow>
      \<exists>op. k = out_point_key op \<and> fmlookup (utxos S) k = Some out \<and> op \<notin> aggregated_ops m"
  shows "aggregation_ok S m'"
  using assms
proof (induction xs arbitrary: m)
  case Nil
  then show ?case by simp
next
  case (Cons x xs)
  obtain k out where x: "x = (k, out)" by (cases x)
  with Cons.prems(4) obtain op where op: "k = out_point_key op" "fmlookup (utxos S) k = Some out"
      "op \<notin> aggregated_ops m" by auto
  from Cons.prems(1) x op(1) obtain m1 where m1: "aggregate_step m (out_point_key op, out) = Inr m1"
      "fold_res aggregate_step m1 xs = Inr m'" by (auto simp: result_simps)
  note step = aggregate_step_ok [OF Cons.prems(2) m1(1) op(2) [unfolded op(1)] op(3)]
  show ?case
  proof (rule Cons.IH [OF m1(2) step(1)])
    show "distinct (map fst xs)" using Cons.prems(3) by simp
    fix k' out'
    assume in_xs: "(k', out') \<in> set xs"
    with Cons.prems(4) obtain op' where op': "k' = out_point_key op'" "fmlookup (utxos S) k' = Some out'"
        "op' \<notin> aggregated_ops m" by fastforce
    have "k' \<noteq> k" using Cons.prems(3) in_xs x by force
    with op op' step(2) show "\<exists>op. k' = out_point_key op \<and> fmlookup (utxos S) k' = Some out'
        \<and> op \<notin> aggregated_ops m1" by auto
  qed
qed

definition utxo_keys_ok :: "('acc, 'fr) state \<Rightarrow> bool" where
  "utxo_keys_ok S \<longleftrightarrow> (\<forall>k out. fmlookup (utxos S) k = Some out \<longrightarrow> (\<exists>op. k = out_point_key op))"

lemma collect_aggregation_ok:
  assumes "utxo_keys_ok S" "fold_res aggregate_step [] (utxo_entries S) = Inr m"
  shows "aggregation_ok S m"
proof (rule aggregate_ok [OF assms(2)])
  show "aggregation_ok S []" by (simp add: aggregation_ok_def)
  show "distinct (map fst (utxo_entries S))"
    by (simp add: utxo_entries_def distinct_sorted_list_of_fmap)
  fix k out
  assume "(k, out) \<in> set (utxo_entries S)"
  then have "fmlookup (utxos S) k = Some out"
    by (simp add: utxo_entries_def in_sorted_list_of_fmap)
  with assms(1) show "\<exists>op. k = out_point_key op \<and> fmlookup (utxos S) k = Some out \<and> op \<notin> aggregated_ops []"
    by (auto simp: utxo_keys_ok_def aggregated_ops_def)
qed

section \<open>The order of aggregation does not matter\<close>

lemma sort_reverse_unique:
  assumes "mset xs = mset ys" "inj_on agg_key (set xs)"
  shows "sort_reverse xs = sort_reverse ys"
proof -
  have "sort_key agg_key (rev xs) = sort_key agg_key (rev ys)"
    using assms by (intro sort_key_inj_key_eq) simp_all
  then show ?thesis by (simp add: sort_reverse_def)
qed

lemma inj_agg_key:
  assumes "aggregation_ok S m"
  shows "inj_on agg_key (set (map snd m))"
proof (rule inj_onI)
  fix a b
  assume "a \<in> set (map snd m)" "b \<in> set (map snd m)" and eq: "agg_key a = agg_key b"
  then obtain ka kb where k: "(ka, a) \<in> set m" "(kb, b) \<in> set m" by auto
  then have "ag_main_address a = ka" "ag_main_address b = kb"
    using assms by (auto simp: aggregation_ok_def)
  with eq k have "(kb, a) \<in> set m" by (simp add: agg_key_def)
  with k(2) show "a = b"
    using assms by (metis aggregation_ok_def map_of_eq_Some_iff option.inject)
qed

text \<open>
  The bundle a node proposes does not depend on the order in which its hash map of
  destinations is visited: for every permutation of the aggregated withdrawals the sorted bundle,
  and so its m6id, is the same.
\<close>

theorem bundle_of_values_order:
  assumes "utxo_keys_ok S" "fold_res aggregate_step [] (utxo_entries S) = Inr m"
    and "mset aggs = mset (map snd m)"
  shows "bundle_of_values E block_height aggs = collect_withdrawal_bundle E S block_height"
proof -
  have "inj_on agg_key (set (map snd m))"
    by (rule inj_agg_key [OF collect_aggregation_ok [OF assms(1,2)]])
  then have "sort_reverse (map snd m) = sort_reverse aggs" by (rule sort_reverse_unique [OF assms(3) [symmetric]])
  moreover have "aggs = [] \<longleftrightarrow> map snd m = []" using assms(3) by (metis mset_zero_iff)
  ultimately show ?thesis using assms(2) by (simp add: collect_withdrawal_bundle_def bundle_of_values_def)
qed

section \<open>A bundle pays out exactly what it spends\<close>

definition parts_ok :: "('acc, 'fr) state \<Rightarrow> main_address set \<Rightarrow> bundle_parts \<Rightarrow> bool" where
  "parts_ok S addrs parts =
     (case parts of (fee, spend, outs, _) \<Rightarrow>
        sum_list (map fst outs) = total_of withdrawal_value spend \<and> fee = total_of withdrawal_fee spend
        \<and> (\<forall>op out. fmlookup spend op = Some out \<longrightarrow> fmlookup (utxos S) (out_point_key op) = Some out
             \<and> (\<exists>v fee addr. content out = Withdrawal v fee addr \<and> addr \<in> addrs)))"

lemma parts_ok_add:
  assumes p: "parts_ok S addrs (fee, spend, outs, sz)" and a: "agg_ok S a" and new: "ag_main_address a \<notin> addrs"
  shows "parts_ok S (insert (ag_main_address a) addrs)
    (fee + ag_main_fee a, spend ++\<^sub>f ag_spend_utxos a, outs @ [(ag_value a, spk)], sz')"
proof -
  have "fmdom' spend \<inter> fmdom' (ag_spend_utxos a) = {}"
  proof (rule ccontr)
    assume "\<not> ?thesis"
    then obtain op out out' where "fmlookup spend op = Some out" "fmlookup (ag_spend_utxos a) op = Some out'"
      by (auto simp: fmlookup_dom'_iff)
    with p a new show False by (fastforce simp: parts_ok_def agg_ok_def paid_to_def)
  qed
  with p a show ?thesis
    by (auto simp: parts_ok_def agg_ok_def paid_to_def total_of_add fmlookup_dom_iff split: if_splits)
      (metis option.inject | blast)+
qed

lemma bundle_loop_cases:
  assumes "bundle_loop E (fee, spend, outs, sz) (a # aggs) = Inr parts'"
  obtains
    (stop) n where "parts' = (fee, spend, outs, n)"
  | (skip) "bundle_loop E (fee, spend, outs, sz) aggs = Inr parts'"
  | (take) n where "txout_size E (length (script_pubkey E (ag_main_address a))) = Some n"
      "predict_weight E (length outs + 1) (sz + n) \<noteq> None"
      "bundle_loop E (fee + ag_main_fee a, spend ++\<^sub>f ag_spend_utxos a,
         outs @ [(ag_value a, script_pubkey E (ag_main_address a))], sz + n) aggs = Inr parts'"
proof (cases "length outs + 1 \<ge> 2 ^ 32")
  case True
  with assms show thesis by (intro stop [of sz]) (auto simp: Let_def)
next
  case few: False
  show thesis
  proof (cases "length (script_pubkey E (ag_main_address a)) \<ge> 2 ^ 32
      \<or> txout_size E (length (script_pubkey E (ag_main_address a))) = None")
    case True
    with assms few skip show thesis by (auto simp: Let_def split: if_splits)
  next
    case False
    then obtain n where n: "txout_size E (length (script_pubkey E (ag_main_address a))) = Some n" by auto
    show thesis
    proof (cases "sz + n < 2 ^ 32 \<and> predict_weight E (length outs + 1) (sz + n) \<noteq> None")
      case True
      with assms few False n show thesis
        by (intro take [of n]) (auto simp: Let_def checked_add_def result_simps split: if_splits)
    next
      case stopped: False
      with assms few False n show thesis
        by (intro stop [of "if sz + n < 2 ^ 32 then sz + n else sz"])
          (auto simp: Let_def checked_add_def split: if_splits)
    qed
  qed
qed

lemma bundle_loop_parts_ok:
  assumes "bundle_loop E parts aggs = Inr parts'" "parts_ok S addrs parts"
    and "\<forall>a\<in>set aggs. agg_ok S a" "distinct (map ag_main_address aggs)"
    and "addrs \<inter> ag_main_address ` set aggs = {}"
  shows "\<exists>addrs. parts_ok S addrs parts'"
  using assms
proof (induction aggs arbitrary: parts addrs)
  case Nil
  then show ?case by auto
next
  case (Cons a aggs)
  obtain fee spend outs sz where parts: "parts = (fee, spend, outs, sz)" by (cases parts)
  from Cons.prems(1) [unfolded parts] show ?case
  proof (cases rule: bundle_loop_cases)
    case (stop n)
    with Cons.prems(2) parts show ?thesis by (intro exI [of _ addrs]) (auto simp: parts_ok_def)
  next
    case skip
    with Cons parts show ?thesis by auto
  next
    case (take n)
    have pk: "parts_ok S (insert (ag_main_address a) addrs) (fee + ag_main_fee a, spend ++\<^sub>f ag_spend_utxos a,
        outs @ [(ag_value a, script_pubkey E (ag_main_address a))], sz + n)"
      using Cons.prems parts by (intro parts_ok_add) auto
    have disj: "insert (ag_main_address a) addrs \<inter> ag_main_address ` set aggs = {}"
      using Cons.prems(4,5) by simp
    show ?thesis by (rule Cons.IH [OF take(3) pk _ _ disj]) (use Cons.prems(3,4) in simp_all)
  qed
qed

lemma collect_Inr:
  assumes "utxo_keys_ok S" "collect_withdrawal_bundle E S block_height = Inr (Some b)"
  obtains m fee spend outs sz where "aggregation_ok S m"
    "bundle_loop E (0, fmempty, [], 0) (sort_reverse (map snd m)) = Inr (fee, spend, outs, sz)"
    "bundle_new E block_height fee spend outs = Inr b"
  using assms collect_aggregation_ok [OF assms(1)]
  by (auto simp: collect_withdrawal_bundle_def bundle_of_values_def result_simps split: if_splits)

lemma collect_conserves:
  assumes "utxo_keys_ok S" "collect_withdrawal_bundle E S block_height = Inr (Some b)"
  shows "\<exists>outs. wb_tx b = mainchain_fee_txout (total_of withdrawal_fee (wb_spend_utxos b))
        # inputs_commitment_txout E block_height (wb_spend_utxos b) # outs
    \<and> sum_list (map fst outs) = total_of withdrawal_value (wb_spend_utxos b)
    \<and> (\<forall>op out. fmlookup (wb_spend_utxos b) op = Some out \<longrightarrow>
         fmlookup (utxos S) (out_point_key op) = Some out \<and> is_withdrawal (content out))"
proof -
  from assms obtain m fee spend outs sz where m: "aggregation_ok S m"
    and loop: "bundle_loop E (0, fmempty, [], 0) (sort_reverse (map snd m)) = Inr (fee, spend, outs, sz)"
    and new: "bundle_new E block_height fee spend outs = Inr b" by (rule collect_Inr)
  have "\<exists>addrs. parts_ok S addrs (fee, spend, outs, sz)"
  proof (rule bundle_loop_parts_ok [OF loop, where addrs = "{}"])
    show "parts_ok S {} (0, fmempty, [], 0)" by (simp add: parts_ok_def)
    show "\<forall>a\<in>set (sort_reverse (map snd m)). agg_ok S a"
      using m by (auto simp: sort_reverse_def aggregation_ok_def)
    have "mset (map ag_main_address (sort_reverse (map snd m))) = mset (map ag_main_address (map snd m))"
      by (simp add: sort_reverse_def multiset.map_comp)
    moreover have "map ag_main_address (map snd m) = map fst m"
      using m by (auto simp: aggregation_ok_def)
    ultimately show "distinct (map ag_main_address (sort_reverse (map snd m)))"
      using m by (metis aggregation_ok_def mset_eq_imp_distinct_iff)
  qed simp
  moreover have "b = \<lparr>wb_spend_utxos = spend, wb_tx = [mainchain_fee_txout fee,
      inputs_commitment_txout E block_height spend] @ outs\<rparr>"
    using new by (simp add: bundle_new_def Let_def split: if_splits)
  ultimately show ?thesis by (fastforce simp: parts_ok_def)
qed

text \<open>
  C25. A collected bundle spends unspent withdrawals of the state only, its payment outputs add up to
  exactly the values of these withdrawals, and the mainchain fee it commits to is exactly the sum
  of their fees.
\<close>

theorem collect_bundle_conserves:
  assumes "utxo_keys_ok S" "collect_withdrawal_bundle E S block_height = Inr (Some b)"
  shows "\<exists>outs. wb_tx b = mainchain_fee_txout (total_of withdrawal_fee (wb_spend_utxos b))
        # inputs_commitment_txout E block_height (wb_spend_utxos b) # outs
    \<and> sum_list (map fst outs) = total_of withdrawal_value (wb_spend_utxos b)
    \<and> (\<forall>op out. fmlookup (wb_spend_utxos b) op = Some out \<longrightarrow>
         fmlookup (utxos S) (out_point_key op) = Some out \<and> is_withdrawal (content out))"
  by (rule collect_conserves [OF assms])

section \<open>A collected bundle is never too heavy\<close>

text \<open>
  The documented sizes of the bitcoin crate: a compact size is 1, 3, 5 or 9 bytes long, and a
  transaction without inputs is serialized with the two bytes of the segwit marker and flag.
\<close>

definition txout_bytes :: "('acc, 'fr, 'pf) ext \<Rightarrow> txout \<Rightarrow> nat" where
  "txout_bytes E out = (case out of (_, spk) \<Rightarrow> 8 + varint_size E (length spk) + length spk)"

definition bitcoin_sizes :: "('acc, 'fr, 'pf) ext \<Rightarrow> bool" where
  "bitcoin_sizes E \<longleftrightarrow> varint_size E = compact_size
     \<and> (\<forall>outs. tx_weight E outs
          = 4 * (9 + varint_size E (length outs) + sum_list (map (txout_bytes E) outs)) + 2)"

lemma predict_weight_bound:
  assumes "bitcoin_sizes E" "predict_weight E n s \<noteq> None"
  shows "4 * (112 + varint_size E (n + 2) + s) \<le> MAX_STANDARD_TX_WEIGHT"
proof -
  have "varint_size E 0 = 1" "varint_size E 1 = 1" "varint_size E 10 = 1" "varint_size E 34 = 1"
    using assms(1) by (simp_all add: bitcoin_sizes_def compact_size_def)
  then have "txin_base_size E 0 = Some 41" "txout_size E 34 = Some 43" "txout_size E 10 = Some 19"
    "varint_size E (Suc 0) = 1"
    by (simp_all add: txin_base_size_def txout_size_def checked_add_def)
  with assms(2) show ?thesis
    by (auto simp: predict_weight_def tx_base_size_def checked_add_def split: if_splits)
qed

lemma bundle_loop_weight:
  assumes "bundle_loop E (fee, spend, outs, sum_list (map (txout_bytes E) outs)) aggs = Inr (fee', spend', outs', sz')"
    and "outs = [] \<or> predict_weight E (length outs) (sum_list (map (txout_bytes E) outs)) \<noteq> None"
  shows "outs' = [] \<or> predict_weight E (length outs') (sum_list (map (txout_bytes E) outs')) \<noteq> None"
  using assms
proof (induction aggs arbitrary: fee spend outs)
  case Nil
  then show ?case by auto
next
  case (Cons a aggs)
  from Cons.prems(1) show ?case
  proof (cases rule: bundle_loop_cases)
    case (stop n)
    with Cons.prems(2) show ?thesis by auto
  next
    case skip
    with Cons show ?thesis by auto
  next
    case (take n)
    let ?outs = "outs @ [(ag_value a, script_pubkey E (ag_main_address a))]"
    have "sum_list (map (txout_bytes E) outs) + n = sum_list (map (txout_bytes E) ?outs)"
      using take(1) by (auto simp: txout_size_def txout_bytes_def checked_add_def bind_eq_Some_conv split: if_splits)
    with Cons.IH [of _ _ ?outs] take(2,3) show ?thesis by simp
  qed
qed

lemma and_then_eq_Inl:
  "and_then m f = Inl e \<longleftrightarrow> m = Inl e \<or> (\<exists>x. m = Inr x \<and> f x = Inl e)"
  by (cases m) auto

lemma aggregate_step_failure:
  "aggregate_step m x = Inl e \<Longrightarrow> e = Err AmountOverflow \<or> e = Panic"
  by (auto simp: aggregate_step_def and_then_eq_Inl add_amount_def ok_or_def out_point_of_key_def expect_def Let_def
      split: prod.splits content.splits option.splits)

lemma aggregate_failure:
  "fold_res aggregate_step m xs = Inl e \<Longrightarrow> e = Err AmountOverflow \<or> e = Panic"
  by (induction xs arbitrary: m) (auto simp: and_then_eq_Inl dest: aggregate_step_failure)

lemma bundle_loop_failure: "bundle_loop E parts aggs = Inl e \<Longrightarrow> e = Panic"
  by (induction E parts aggs rule: bundle_loop.induct)
    (auto simp: Let_def and_then_eq_Inl expect_def split: if_splits option.splits)

text \<open>
  Collecting a bundle never fails with \<open>BundleTooHeavy\<close>: the predicted weight, with its treasury input,
  is an upper bound of the weight of the bundle transaction.
\<close>

theorem collect_never_too_heavy:
  assumes "bitcoin_sizes E"
  shows "collect_withdrawal_bundle E S block_height \<noteq> Inl (Err (WithdrawalBundleTooHeavy w max_w))"
proof -
  have "bundle_new E block_height fee spend outs \<noteq> Inl e"
    if "bundle_loop E (0, fmempty, [], 0) aggs = Inr (fee, spend, outs, sz)" for fee spend outs sz aggs e
  proof -
    let ?bytes = "sum_list (map (txout_bytes E) outs)"
    have "4 * (112 + varint_size E (length outs + 2) + ?bytes) \<le> MAX_STANDARD_TX_WEIGHT"
    proof (cases "outs = []")
      case True
      with assms show ?thesis by (simp add: bitcoin_sizes_def compact_size_def MAX_STANDARD_TX_WEIGHT_def)
    next
      case False
      with bundle_loop_weight [of E 0 fmempty "[]" aggs fee spend outs sz] that show ?thesis
        by (intro predict_weight_bound [OF assms]) auto
    qed
    moreover have "varint_size E 10 = 1" "varint_size E 34 = 1"
      using assms by (simp_all add: bitcoin_sizes_def compact_size_def)
    then have "txout_bytes E (mainchain_fee_txout fee) = 19"
      "txout_bytes E (inputs_commitment_txout E block_height spend) = 43"
      by (simp_all add: txout_bytes_def mainchain_fee_txout_def inputs_commitment_txout_def Let_def)
    ultimately have "tx_weight E ([mainchain_fee_txout fee, inputs_commitment_txout E block_height spend] @ outs)
        \<le> MAX_STANDARD_TX_WEIGHT"
      using assms by (simp add: bitcoin_sizes_def)
    then show ?thesis by (simp add: bundle_new_def Let_def)
  qed
  then show ?thesis
    by (auto simp: collect_withdrawal_bundle_def bundle_of_values_def and_then_eq_Inl map_ok_def
        split: if_splits sum.splits dest!: aggregate_failure bundle_loop_failure)
qed

section \<open>An example\<close>

text \<open>One withdrawal of 5 with a fee of 1 to the address with the script \<open>[9]\<close>.\<close>

definition example_withdrawal :: tx_output where
  "example_withdrawal = \<lparr>address = TransparentAddress 32, content = Withdrawal 5 1 (MainAddress [9])\<rparr>"

definition withdrawal_state :: "(hash list, cmx list) state" where
  "withdrawal_state = \<lparr>st_tip = Some (BlockHash 1), st_height = Some 7,
     utxos = fmap_of_list [(out_point_key (Deposit 1 0), example_withdrawal)], stxos = fmempty,
     pending_withdrawal_bundle = None, latest_failed_withdrawal_bundle = None,
     withdrawal_bundles = fmempty, deposit_blocks = fmempty, withdrawal_bundle_event_blocks = fmempty,
     st_orchard = \<lparr>block_hash_to_root = fmempty, frontier = Some [], historical_roots = fmempty,
       db_nullifiers = fmempty\<rparr>,
     utreexo_accumulator = Some [78]\<rparr>"

definition example_aggregated :: aggregated_withdrawal where
  "example_aggregated = \<lparr>ag_spend_utxos = fmap_of_list [(Deposit 1 0, example_withdrawal)],
     ag_main_address = MainAddress [9], ag_value = 5, ag_main_fee = 1\<rparr>"

definition example_bundle :: withdrawal_bundle where
  "example_bundle = \<lparr>wb_spend_utxos = fmap_of_list [(Deposit 1 0, example_withdrawal)],
     wb_tx = [mainchain_fee_txout 1,
       inputs_commitment_txout example_ext 7 (fmap_of_list [(Deposit 1 0, example_withdrawal)]), (5, [9])]\<rparr>"

lemma example_sizes: "bitcoin_sizes example_ext"
  by (simp add: bitcoin_sizes_def example_ext_def txout_bytes_def [abs_def])

lemma withdrawal_keys: "utxo_keys_ok withdrawal_state"
  by (auto simp: utxo_keys_ok_def withdrawal_state_def split: if_splits)

lemma withdrawal_entries:
  "utxo_entries withdrawal_state = [(out_point_key (Deposit 1 0), example_withdrawal)]"
  by (simp add: utxo_entries_def withdrawal_state_def sorted_list_of_fmap_def sorted_list_of_fset.rep_eq)

lemma example_aggregation:
  "fold_res aggregate_step [] (utxo_entries withdrawal_state) = Inr [(MainAddress [9], example_aggregated)]"
  by (simp add: withdrawal_entries aggregate_step_def example_withdrawal_def example_aggregated_def
      add_amount_def checked_add_def)

lemma example_collect:
  "collect_withdrawal_bundle example_ext withdrawal_state 7 = Inr (Some example_bundle)"
proof -
  have "script_pubkey example_ext (MainAddress [9]) = [9]" "varint_size example_ext = compact_size"
    by (simp_all add: example_ext_def)
  moreover have "tx_weight example_ext (wb_tx example_bundle) \<le> MAX_STANDARD_TX_WEIGHT"
    using example_sizes by (simp add: bitcoin_sizes_def example_bundle_def txout_bytes_def
        mainchain_fee_txout_def inputs_commitment_txout_def MAX_STANDARD_TX_WEIGHT_def Let_def)
      (simp add: example_ext_def compact_size_def)
  ultimately show ?thesis
    by (simp add: collect_withdrawal_bundle_def example_aggregation bundle_of_values_def sort_reverse_def
        example_aggregated_def txout_size_def predict_weight_def tx_base_size_def txin_base_size_def
        compact_size_def checked_add_def MAX_STANDARD_TX_WEIGHT_def bundle_new_def example_bundle_def)
qed

theorem bundle_of_values_order_witness:
  "bundle_of_values example_ext 7 [example_aggregated] = collect_withdrawal_bundle example_ext withdrawal_state 7"
  by (rule bundle_of_values_order [OF withdrawal_keys example_aggregation]) simp

theorem collect_bundle_conserves_witness:
  "collect_withdrawal_bundle example_ext withdrawal_state 7 = Inr (Some example_bundle)
   \<and> (\<exists>outs. wb_tx example_bundle = mainchain_fee_txout (total_of withdrawal_fee (wb_spend_utxos example_bundle))
        # inputs_commitment_txout example_ext 7 (wb_spend_utxos example_bundle) # outs
      \<and> sum_list (map fst outs) = total_of withdrawal_value (wb_spend_utxos example_bundle))"
  using collect_bundle_conserves [OF withdrawal_keys example_collect] example_collect by blast

theorem collect_never_too_heavy_witness:
  "bitcoin_sizes example_ext
   \<and> collect_withdrawal_bundle example_ext withdrawal_state 7 \<noteq> Inl (Err (WithdrawalBundleTooHeavy 1 2))"
  using collect_never_too_heavy [OF example_sizes] example_sizes by blast

end
