(* ===== verification/Two_Way_Peg.thy ===== *)
theory Two_Way_Peg
  imports Bundle
begin

text \<open>
  \<open>lib/state/two_way_peg_data.rs\<close>: deposits and withdrawal bundle events of the mainchain blocks are connected to and
  disconnected from the state. An operation takes the state and the accumulator diff and returns both.
  \<open>BTreeMap\<close>s are visited in the order of their keys.
\<close>

type_synonym ('acc, 'fr) peg = "('acc, 'fr) state \<times> accumulator_diff"

section \<open>Outputs of a bundle\<close>

text \<open>Mark an output of a bundle as spent; the error of the caller if it is not unspent.\<close>

definition spend_withdrawal ::
  "('acc, 'fr, 'pf) ext \<Rightarrow> (out_point \<Rightarrow> 'e) \<Rightarrow> m6id \<Rightarrow> ('acc, 'fr) peg \<Rightarrow> out_point \<times> tx_output
    \<Rightarrow> ('e, ('acc, 'fr) peg) result" where
  "spend_withdrawal E err m6id st x =
     (case st of (S, d) \<Rightarrow> case x of (op, out) \<Rightarrow>
        let key = out_point_key op
        in if \<not> has_key (utxos S) key then Inl (Err (err op))
           else Inr (S\<lparr>utxos := fmdrop key (utxos S),
                       stxos := fmupd key \<lparr>so_output = out, so_inpoint = InWithdrawal m6id\<rparr> (stxos S)\<rparr>,
                     diff_remove (pointed_output_hash E op out) d))"

text \<open>Return an output of a bundle to the UTXOs, whether or not it is recorded as spent.\<close>

definition restore_withdrawal ::
  "('acc, 'fr, 'pf) ext \<Rightarrow> ('acc, 'fr) peg \<Rightarrow> out_point \<times> tx_output \<Rightarrow> ('acc, 'fr) peg" where
  "restore_withdrawal E st x =
     (case st of (S, d) \<Rightarrow> case x of (op, out) \<Rightarrow>
        let key = out_point_key op
        in (S\<lparr>stxos := fmdrop key (stxos S), utxos := fmupd key out (utxos S)\<rparr>,
            diff_insert (pointed_output_hash E op out) d))"

definition restore_spent ::
  "('acc, 'fr, 'pf) ext \<Rightarrow> ('acc, 'fr) peg \<Rightarrow> out_point \<times> tx_output \<Rightarrow> ('acc, 'fr) peg state_result" where
  "restore_spent E st x =
     (case st of (S, _) \<Rightarrow> case x of (op, _) \<Rightarrow>
        if \<not> has_key (stxos S) (out_point_key op) then Inl (Err (NoStxo op))
        else Inr (restore_withdrawal E st x))"

abbreviation spends :: "withdrawal_bundle \<Rightarrow> (out_point \<times> tx_output) list" where
  "spends bundle \<equiv> sorted_list_of_fmap (wb_spend_utxos bundle)"

abbreviation put_bundle ::
  "m6id \<Rightarrow> withdrawal_bundle_info \<times> withdrawal_bundle_status rollback \<Rightarrow> ('acc, 'fr) state \<Rightarrow> ('acc, 'fr) state" where
  "put_bundle m6id x S \<equiv> S\<lparr>withdrawal_bundles := fmupd m6id x (withdrawal_bundles S)\<rparr>"

abbreviation latest_status :: "withdrawal_bundle_status rollback \<Rightarrow> withdrawal_bundle_status" where
  "latest_status status \<equiv> hs_value (rb_latest status)"

section \<open>Connecting events\<close>

fun check_resubmitted ::
  "main_hash \<Rightarrow> m6id \<Rightarrow> nat \<Rightarrow> withdrawal_bundle_info \<Rightarrow> withdrawal_bundle_status
    \<Rightarrow> (submitted_error, unit) result" where
  "check_resubmitted ev m6id height _ Confirmed = Inl (Err (ConfirmedResubmitted ev m6id))"
| "check_resubmitted ev m6id height _ Submitted = Inl (Err (Resubmitted ev m6id height))"
| "check_resubmitted ev m6id height _ SubmittedUnexpected = Inl (Err (Resubmitted ev m6id height))"
| "check_resubmitted ev m6id height (Known _) Dropped = Inr ()"
| "check_resubmitted ev m6id height _ Dropped = Inl (Err (UnknownDropped m6id height))"
| "check_resubmitted ev m6id height (Known _) Pending = Inl (Err (DroppedPending m6id))"
| "check_resubmitted ev m6id height _ Pending = Inl (Err (UnknownPending m6id height))"
| "check_resubmitted ev m6id height (UnknownConfirmed _) Failed = Inl (Err (UnknownConfirmedFailed m6id height))"
| "check_resubmitted ev m6id height _ Failed = Inr ()"

definition connect_withdrawal_bundle_submitted ::
  "('acc, 'fr, 'pf) ext \<Rightarrow> nat \<Rightarrow> main_hash \<Rightarrow> m6id \<Rightarrow> ('acc, 'fr) peg
    \<Rightarrow> (submitted_error, ('acc, 'fr) peg) result" where
  "connect_withdrawal_bundle_submitted E block_height ev m6id st =
     (case st of (S, d) \<Rightarrow>
        if pending_withdrawal_bundle S = Some m6id
        then and_then (ok_or (SubPendingUnknown m6id) (fmlookup (withdrawal_bundles S) m6id)) (\<lambda>(info, status).
          case info of
            Known bundle \<Rightarrow>
              and_then (fold_res (spend_withdrawal E SubNoUtxo m6id) (S, d) (spends bundle)) (\<lambda>(S, d).
              and_then (assert_that (latest_status status = Pending)) (\<lambda>_.
              and_then (rb_push_expect status Submitted block_height) (\<lambda>status.
              Inr ((put_bundle m6id (Known bundle, status) S)\<lparr>pending_withdrawal_bundle := None\<rparr>, d))))
          | _ \<Rightarrow> Inl (Err (SubPendingUnknown m6id)))
        else case fmlookup (withdrawal_bundles S) m6id of
          Some (info, status) \<Rightarrow>
            and_then (check_resubmitted ev m6id (hs_height (rb_latest status)) info (latest_status status)) (\<lambda>_.
            and_then (rb_push_expect status SubmittedUnexpected block_height) (\<lambda>status.
            Inr (put_bundle m6id (info, status) S, d)))
        | None \<Rightarrow> Inr (put_bundle m6id (Unknown, rb_new Submitted block_height) S, d))"

definition is_submitted :: "withdrawal_bundle_status \<Rightarrow> bool" where
  "is_submitted s \<longleftrightarrow> s = Submitted \<or> s = SubmittedUnexpected"

text \<open>An unknown bundle confirmed at height 0: every UTXO is considered spent.\<close>

definition spend_all ::
  "('acc, 'fr, 'pf) ext \<Rightarrow> m6id \<Rightarrow> ('acc, 'fr) peg \<Rightarrow> (('acc, 'fr) peg \<times> (out_point, tx_output) fmap) state_result"
where
  "spend_all E m6id st =
     (case st of (S, d) \<Rightarrow>
        map_ok (\<lambda>entries.
          let all = puts entries fmempty;
              (S, d) = fold (\<lambda>(op, out) (S, d).
                (S\<lparr>stxos := fmupd (out_point_key op) \<lparr>so_output = out, so_inpoint = InWithdrawal m6id\<rparr> (stxos S)\<rparr>,
                 diff_remove (pointed_output_hash E op out) d)) (sorted_list_of_fmap all) (S, d)
          in ((S\<lparr>utxos := fmempty\<rparr>, d), all)) (get_utxos S))"

definition connect_withdrawal_bundle_confirmed ::
  "('acc, 'fr, 'pf) ext \<Rightarrow> nat \<Rightarrow> main_hash \<Rightarrow> m6id \<Rightarrow> ('acc, 'fr) peg \<Rightarrow> ('acc, 'fr) peg state_result" where
  "connect_withdrawal_bundle_confirmed E block_height ev m6id st =
     (case st of (S, d) \<Rightarrow>
        and_then (ok_or (UnknownWithdrawalBundle m6id) (fmlookup (withdrawal_bundles S) m6id)) (\<lambda>(info, status).
        if latest_status status = Confirmed then Inr (S, d)
        else
        and_then (assert_that (is_submitted (latest_status status))) (\<lambda>_.
        and_then
          (case info of
             UnknownConfirmed _ \<Rightarrow> Inl (Err (UnknownWithdrawalBundleReconfirmed ev m6id))
           | Unknown \<Rightarrow>
               if block_height = 0
               then map_ok (\<lambda>(st, all). (st, UnknownConfirmed all)) (spend_all E m6id (S, d))
               else Inl (Err (UnknownWithdrawalBundleConfirmed ev m6id))
           | Known bundle \<Rightarrow>
               map_ok (\<lambda>st. (st, info))
                 (if latest_status status = SubmittedUnexpected
                  then fold_res (spend_withdrawal E (UnexpectedWithdrawalBundleInsolvency ev m6id) m6id)
                    (S, d) (spends bundle)
                  else Inr (S, d)))
          (\<lambda>((S, d), info).
        and_then (rb_push_expect status Confirmed block_height) (\<lambda>status.
        Inr (put_bundle m6id (info, status) S, d))))))"

definition push_latest_failed :: "nat \<Rightarrow> m6id \<Rightarrow> ('acc, 'fr) state \<Rightarrow> ('acc, 'fr) state state_result" where
  "push_latest_failed block_height m6id S =
     map_ok (\<lambda>r. S\<lparr>latest_failed_withdrawal_bundle := Some r\<rparr>)
       (case latest_failed_withdrawal_bundle S of
          Some r \<Rightarrow> rb_push_expect r m6id block_height
        | None \<Rightarrow> Inr (rb_new m6id block_height))"

definition connect_withdrawal_bundle_failed ::
  "('acc, 'fr, 'pf) ext \<Rightarrow> nat \<Rightarrow> m6id \<Rightarrow> ('acc, 'fr) peg \<Rightarrow> ('acc, 'fr) peg state_result" where
  "connect_withdrawal_bundle_failed E block_height m6id st =
     (case st of (S, d) \<Rightarrow>
        and_then (ok_or (UnknownWithdrawalBundle m6id) (fmlookup (withdrawal_bundles S) m6id)) (\<lambda>(info, status).
        if latest_status status = Failed then Inr (S, d)
        else
        and_then (assert_that (is_submitted (latest_status status))) (\<lambda>_.
        and_then
          (case info of
             Known bundle \<Rightarrow>
               if latest_status status = SubmittedUnexpected then Inr (S, d)
               else (case fold (\<lambda>x st. restore_withdrawal E st x) (spends bundle) (S, d) of (S, d) \<Rightarrow>
                 map_ok (\<lambda>S. (S, d)) (push_latest_failed block_height m6id S))
           | _ \<Rightarrow> Inr (S, d))
          (\<lambda>(S, d).
        and_then (rb_push_expect status Failed block_height) (\<lambda>status.
        Inr (put_bundle m6id (info, status) S, d))))))"

definition connect_withdrawal_bundle_event ::
  "('acc, 'fr, 'pf) ext \<Rightarrow> nat \<Rightarrow> main_hash \<Rightarrow> m6id \<Rightarrow> withdrawal_bundle_event_status \<Rightarrow> ('acc, 'fr) peg
    \<Rightarrow> ('acc, 'fr) peg state_result" where
  "connect_withdrawal_bundle_event E block_height ev m6id event_status st =
     (case event_status of
        EvSubmitted \<Rightarrow> map_err ConnectWithdrawalBundleSubmitted
          (connect_withdrawal_bundle_submitted E block_height ev m6id st)
      | EvConfirmed \<Rightarrow> connect_withdrawal_bundle_confirmed E block_height ev m6id st
      | EvFailed \<Rightarrow> connect_withdrawal_bundle_failed E block_height m6id st)"

text \<open>The latest blocks with a deposit and with a bundle event are tracked along the way.\<close>

record latest_blocks =
  latest_deposit_block_hash :: "main_hash option"
  latest_withdrawal_bundle_event_block_hash :: "main_hash option"

definition no_latest :: latest_blocks where
  "no_latest = \<lparr>latest_deposit_block_hash = None, latest_withdrawal_bundle_event_block_hash = None\<rparr>"

definition connect_event ::
  "('acc, 'fr, 'pf) ext \<Rightarrow> nat \<Rightarrow> ('acc, 'fr) peg \<times> latest_blocks \<Rightarrow> main_hash \<times> block_event
    \<Rightarrow> (('acc, 'fr) peg \<times> latest_blocks) state_result" where
  "connect_event E block_height st x =
     (case st of ((S, d), latest) \<Rightarrow> case x of (ev, event) \<Rightarrow>
        case event of
          DepositEvent dep \<Rightarrow>
            let op = Deposit (dep_txid dep) (dep_vout dep); out = dep_output dep
            in Inr ((S\<lparr>utxos := fmupd (out_point_key op) out (utxos S)\<rparr>,
                     diff_insert (pointed_output_hash E op out) d),
                    latest\<lparr>latest_deposit_block_hash := Some ev\<rparr>)
        | WithdrawalBundleEvent m6id event_status \<Rightarrow>
            map_ok (\<lambda>st. (st, latest\<lparr>latest_withdrawal_bundle_event_block_hash := Some ev\<rparr>))
              (connect_withdrawal_bundle_event E block_height ev m6id event_status (S, d)))"

text \<open>The events of the two-way peg data with the hashes of their blocks, in order.\<close>

definition peg_events :: "two_way_peg_data \<Rightarrow> (main_hash \<times> block_event) list" where
  "peg_events data = concat (map (\<lambda>(ev, info). map (Pair ev) (events info)) data)"

definition next_seq_idx :: "(nat, 'v) db \<Rightarrow> nat state_result" where
  "next_seq_idx m = (case db_last m of None \<Rightarrow> Inr 0 | Some (seq_idx, _) \<Rightarrow> add_u32 seq_idx 1)"

definition last_failure_height :: "('acc, 'fr) state \<Rightarrow> nat state_result" where
  "last_failure_height S =
     map_ok (\<lambda>x. case x of Some (height, _) \<Rightarrow> height | None \<Rightarrow> 0) (get_latest_failed_withdrawal_bundle S)"

definition record_blocks ::
  "nat \<Rightarrow> latest_blocks \<Rightarrow> ('acc, 'fr) state \<Rightarrow> ('acc, 'fr) state state_result" where
  "record_blocks block_height latest S =
     and_then
       (case latest_deposit_block_hash latest of
          None \<Rightarrow> Inr S
        | Some ev \<Rightarrow> map_ok (\<lambda>i. S\<lparr>deposit_blocks := fmupd i (ev, block_height) (deposit_blocks S)\<rparr>)
            (next_seq_idx (deposit_blocks S)))
       (\<lambda>S. case latest_withdrawal_bundle_event_block_hash latest of
          None \<Rightarrow> Inr S
        | Some ev \<Rightarrow> map_ok (\<lambda>i. S\<lparr>withdrawal_bundle_event_blocks :=
              fmupd i (ev, block_height) (withdrawal_bundle_event_blocks S)\<rparr>)
            (next_seq_idx (withdrawal_bundle_event_blocks S)))"

definition store_pending ::
  "('acc, 'fr, 'pf) ext \<Rightarrow> nat \<Rightarrow> withdrawal_bundle \<Rightarrow> ('acc, 'fr) state \<Rightarrow> ('acc, 'fr) state state_result" where
  "store_pending E block_height bundle S =
     (let m6id = compute_m6id E bundle
      in map_ok (\<lambda>status. (put_bundle m6id (Known bundle, status) S)\<lparr>pending_withdrawal_bundle := Some m6id\<rparr>)
           (case fmlookup (withdrawal_bundles S) m6id of
              Some (_, status) \<Rightarrow> rb_push_expect status Pending block_height
            | None \<Rightarrow> Inr (rb_new Pending block_height)))"

definition propose_bundle ::
  "('acc, 'fr, 'pf) ext \<Rightarrow> nat \<Rightarrow> ('acc, 'fr) state \<Rightarrow> ('acc, 'fr) state state_result" where
  "propose_bundle E block_height S =
     and_then (last_failure_height S) (\<lambda>last_height.
     and_then (sub_u32 block_height last_height) (\<lambda>gap.
     if gap \<ge> WITHDRAWAL_BUNDLE_FAILURE_GAP \<and> pending_withdrawal_bundle S = None
     then and_then (collect_withdrawal_bundle E S block_height) (\<lambda>bundle.
       case bundle of None \<Rightarrow> Inr S | Some bundle \<Rightarrow> store_pending E block_height bundle S)
     else Inr S))"

definition connect_two_way_peg_data ::
  "('acc, 'fr, 'pf) ext \<Rightarrow> two_way_peg_data \<Rightarrow> ('acc, 'fr) state \<Rightarrow> (('acc, 'fr) state \<times> 'acc) state_result" where
  "connect_two_way_peg_data E data S =
     and_then (ok_or NoTip (st_height S)) (\<lambda>block_height.
     and_then (ok_or StateDb (utreexo_accumulator S)) (\<lambda>accumulator.
     and_then (fold_res (connect_event E block_height) ((S, diff_default), no_latest) (peg_events data))
       (\<lambda>((S, d), latest).
     and_then (record_blocks block_height latest S) (\<lambda>S.
     and_then (propose_bundle E block_height S) (\<lambda>S.
     and_then (ok_or Utreexo (apply_diff E accumulator d)) (\<lambda>accumulator.
     Inr (S\<lparr>utreexo_accumulator := Some accumulator\<rparr>, accumulator)))))))"

section \<open>Disconnecting events\<close>

definition put_or_delete_bundle ::
  "m6id \<Rightarrow> withdrawal_bundle_info \<Rightarrow> withdrawal_bundle_status rollback option \<Rightarrow> ('acc, 'fr) state
    \<Rightarrow> ('acc, 'fr) state" where
  "put_or_delete_bundle m6id info status S =
     (case status of
        Some status \<Rightarrow> put_bundle m6id (info, status) S
      | None \<Rightarrow> S\<lparr>withdrawal_bundles := fmdrop m6id (withdrawal_bundles S)\<rparr>)"

definition disconnect_withdrawal_bundle_submitted ::
  "('acc, 'fr, 'pf) ext \<Rightarrow> nat \<Rightarrow> m6id \<Rightarrow> ('acc, 'fr) peg \<Rightarrow> ('acc, 'fr) peg state_result" where
  "disconnect_withdrawal_bundle_submitted E block_height m6id st =
     (case st of (S, d) \<Rightarrow>
        case fmlookup (withdrawal_bundles S) m6id of
          None \<Rightarrow>
            if pending_withdrawal_bundle S = Some m6id then Inr (S, d)
            else Inl (Err (UnknownWithdrawalBundle m6id))
        | Some (info, status) \<Rightarrow>
            (case rb_pop status of (prev, latest) \<Rightarrow>
               and_then (assert_that (is_submitted (hs_value latest))) (\<lambda>_.
               and_then (assert_that (hs_height latest = block_height)) (\<lambda>_.
               and_then
                 (case info of
                    Known bundle \<Rightarrow>
                      if map_option latest_status prev = Some Pending
                      then map_ok (\<lambda>(S, d). (S\<lparr>pending_withdrawal_bundle := Some m6id\<rparr>, d))
                        (fold_res (restore_spent E) (S, d) (rev (spends bundle)))
                      else Inr (S, d)
                  | _ \<Rightarrow> Inr (S, d))
                 (\<lambda>(S, d). Inr (put_or_delete_bundle m6id info prev S, d))))))"

definition disconnect_withdrawal_bundle_confirmed ::
  "('acc, 'fr, 'pf) ext \<Rightarrow> nat \<Rightarrow> m6id \<Rightarrow> ('acc, 'fr) peg \<Rightarrow> ('acc, 'fr) peg state_result" where
  "disconnect_withdrawal_bundle_confirmed E block_height m6id st =
     (case st of (S, d) \<Rightarrow>
        and_then (ok_or (UnknownWithdrawalBundle m6id) (fmlookup (withdrawal_bundles S) m6id)) (\<lambda>(info, status).
        case rb_pop status of (prev, latest) \<Rightarrow>
        if is_submitted (hs_value latest) then Inr (S, d)
        else
        and_then (assert_that (hs_value latest = Confirmed)) (\<lambda>_.
        and_then (assert_that (hs_height latest = block_height)) (\<lambda>_.
        and_then (expect prev) (\<lambda>prev.
        and_then (assert_that (is_submitted (latest_status prev))) (\<lambda>_.
        and_then
          (case info of
             Known bundle \<Rightarrow>
               map_ok (\<lambda>st. (st, info))
                 (if latest_status prev = SubmittedUnexpected
                  then fold_res (restore_spent E) (S, d) (spends bundle) else Inr (S, d))
           | UnknownConfirmed all \<Rightarrow>
               map_ok (\<lambda>st. (st, Unknown)) (fold_res (restore_spent E) (S, d) (sorted_list_of_fmap all))
           | Unknown \<Rightarrow> Inr ((S, d), info))
          (\<lambda>((S, d), info). Inr (put_bundle m6id (info, prev) S, d))))))))"

definition pop_latest_failed :: "nat \<Rightarrow> m6id \<Rightarrow> ('acc, 'fr) state \<Rightarrow> ('acc, 'fr) state state_result" where
  "pop_latest_failed block_height m6id S =
     and_then (expect (latest_failed_withdrawal_bundle S)) (\<lambda>r.
     case rb_pop r of (prev, latest) \<Rightarrow>
     and_then (assert_that (hs_value latest = m6id)) (\<lambda>_.
     and_then (assert_that (hs_height latest = block_height)) (\<lambda>_.
     Inr (S\<lparr>latest_failed_withdrawal_bundle := prev\<rparr>))))"

definition disconnect_withdrawal_bundle_failed ::
  "('acc, 'fr, 'pf) ext \<Rightarrow> nat \<Rightarrow> m6id \<Rightarrow> ('acc, 'fr) peg \<Rightarrow> ('acc, 'fr) peg state_result" where
  "disconnect_withdrawal_bundle_failed E block_height m6id st =
     (case st of (S, d) \<Rightarrow>
        and_then (ok_or (UnknownWithdrawalBundle m6id) (fmlookup (withdrawal_bundles S) m6id)) (\<lambda>(info, status).
        case rb_pop status of (prev, latest) \<Rightarrow>
        if hs_value latest = Submitted then Inr (S, d)
        else
        and_then (assert_that (hs_value latest = Failed)) (\<lambda>_.
        and_then (assert_that (hs_height latest = block_height)) (\<lambda>_.
        and_then (expect prev) (\<lambda>prev.
        and_then (assert_that (is_submitted (latest_status prev))) (\<lambda>_.
        and_then
          (case info of
             Known bundle \<Rightarrow>
               if latest_status prev = SubmittedUnexpected then Inr (S, d)
               else and_then (fold_res (spend_withdrawal E NoUtxo m6id) (S, d) (rev (spends bundle))) (\<lambda>(S, d).
                 map_ok (\<lambda>S. (S, d)) (pop_latest_failed block_height m6id S))
           | _ \<Rightarrow> Inr (S, d))
          (\<lambda>(S, d). Inr (put_bundle m6id (info, prev) S, d))))))))"

definition disconnect_withdrawal_bundle_event ::
  "('acc, 'fr, 'pf) ext \<Rightarrow> nat \<Rightarrow> m6id \<Rightarrow> withdrawal_bundle_event_status \<Rightarrow> ('acc, 'fr) peg
    \<Rightarrow> ('acc, 'fr) peg state_result" where
  "disconnect_withdrawal_bundle_event E block_height m6id event_status st =
     (case event_status of
        EvSubmitted \<Rightarrow> disconnect_withdrawal_bundle_submitted E block_height m6id st
      | EvConfirmed \<Rightarrow> disconnect_withdrawal_bundle_confirmed E block_height m6id st
      | EvFailed \<Rightarrow> disconnect_withdrawal_bundle_failed E block_height m6id st)"

definition disconnect_event ::
  "('acc, 'fr, 'pf) ext \<Rightarrow> nat \<Rightarrow> ('acc, 'fr) peg \<times> latest_blocks \<Rightarrow> main_hash \<times> block_event
    \<Rightarrow> (('acc, 'fr) peg \<times> latest_blocks) state_result" where
  "disconnect_event E block_height st x =
     (case st of ((S, d), latest) \<Rightarrow> case x of (ev, event) \<Rightarrow>
        case event of
          DepositEvent dep \<Rightarrow>
            let op = Deposit (dep_txid dep) (dep_vout dep); out = dep_output dep
            in if \<not> has_key (utxos S) (out_point_key op) then Inl (Err (NoUtxo op))
               else Inr ((S\<lparr>utxos := fmdrop (out_point_key op) (utxos S)\<rparr>,
                          diff_remove (pointed_output_hash E op out) d),
                         latest\<lparr>latest_deposit_block_hash := Some ev\<rparr>)
        | WithdrawalBundleEvent m6id event_status \<Rightarrow>
            map_ok (\<lambda>st. (st, latest\<lparr>latest_withdrawal_bundle_event_block_hash := Some ev\<rparr>))
              (disconnect_withdrawal_bundle_event E block_height m6id event_status (S, d)))"

text \<open>Forget the last recorded block, which must be the block of the events just disconnected.\<close>

definition forget_block ::
  "state_error \<Rightarrow> nat \<Rightarrow> main_hash option \<Rightarrow> (nat, main_hash \<times> nat) db \<Rightarrow> (nat, main_hash \<times> nat) db state_result"
where
  "forget_block err block_height latest m =
     (case latest of
        None \<Rightarrow> Inr m
      | Some ev \<Rightarrow>
          and_then (ok_or err (db_last m)) (\<lambda>(seq_idx, last_ev, last_height).
          and_then (assert_that (ev = last_ev)) (\<lambda>_.
          and_then (assert_that (block_height = last_height)) (\<lambda>_.
          if \<not> has_key m seq_idx then Inl (Err err) else Inr (fmdrop seq_idx m)))))"

definition withdraw_proposal ::
  "nat \<Rightarrow> ('acc, 'fr) state \<Rightarrow> ('acc, 'fr) state state_result" where
  "withdraw_proposal block_height S =
     and_then (last_failure_height S) (\<lambda>last_height.
     and_then (sub_u32 block_height last_height) (\<lambda>gap.
     if gap \<ge> WITHDRAWAL_BUNDLE_FAILURE_GAP
     then (case pending_withdrawal_bundle S of
             None \<Rightarrow> Inr S
           | Some m6id \<Rightarrow>
               and_then (ok_or (PendingWithdrawalBundleUnknown m6id) (fmlookup (withdrawal_bundles S) m6id))
                 (\<lambda>(info, status).
               if hs_height (rb_latest status) = block_height
               then Inr (put_or_delete_bundle m6id info (fst (rb_pop status))
                      (S\<lparr>pending_withdrawal_bundle := None\<rparr>))
               else Inr S))
     else Inr S))"

definition disconnect_two_way_peg_data ::
  "('acc, 'fr, 'pf) ext \<Rightarrow> two_way_peg_data \<Rightarrow> ('acc, 'fr) state \<Rightarrow> ('acc, 'fr) state state_result" where
  "disconnect_two_way_peg_data E data S =
     and_then (expect (st_height S)) (\<lambda>block_height.
     and_then (ok_or StateDb (utreexo_accumulator S)) (\<lambda>accumulator.
     and_then (fold_res (disconnect_event E block_height) ((S, diff_default), no_latest) (rev (peg_events data)))
       (\<lambda>((S, d), latest).
     and_then (forget_block NoWithdrawalBundleEventBlock block_height
         (latest_withdrawal_bundle_event_block_hash latest) (withdrawal_bundle_event_blocks S)) (\<lambda>m.
     let S = S\<lparr>withdrawal_bundle_event_blocks := m\<rparr>
     in and_then (withdraw_proposal block_height S) (\<lambda>S.
     and_then (forget_block NoDepositBlock block_height
         (latest_deposit_block_hash latest) (deposit_blocks S)) (\<lambda>m.
     let S = S\<lparr>deposit_blocks := m\<rparr>
     in and_then (ok_or Utreexo (apply_diff E accumulator d)) (\<lambda>accumulator.
     Inr (S\<lparr>utreexo_accumulator := Some accumulator\<rparr>))))))))"

end
