(* ===== verification/Peg_Invariant.thy ===== *)
theory Peg_Invariant
  imports Two_Way_Peg
begin

text \<open>
  What connecting two-way peg data keeps: outputs are never lost, created or spent twice by bundle
  events, and the status of every bundle agrees with the databases.
\<close>

section \<open>Bundle outputs in the databases\<close>

lemma lookup_puts_distinct:
  "distinct (map fst xs) \<Longrightarrow> fmlookup (puts xs m) k = (case map_of xs k of Some v \<Rightarrow> Some v | None \<Rightarrow> fmlookup m k)"
proof (induction xs arbitrary: m)
  case Nil
  then show ?case by simp
next
  case (Cons x xs)
  obtain k' v' where x: "x = (k', v')" by (cases x)
  have "map_of xs k' = None" using Cons.prems x by (simp add: map_of_eq_None_iff)
  with Cons x show ?case by (auto split: option.splits)
qed

definition keys_of :: "(out_point, tx_output) fmap \<Rightarrow> u8 list list" where
  "keys_of m = map (\<lambda>(op, out). out_point_key op) (sorted_list_of_fmap m)"

lemma distinct_keys: "distinct (keys_of m)"
  using distinct_sorted_list_of_fmap [of m]
  by (auto simp: keys_of_def distinct_map inj_on_def in_sorted_list_of_fmap)

lemma set_keys_of: "k \<in> set (keys_of m) \<longleftrightarrow> (\<exists>op out. k = out_point_key op \<and> fmlookup m op = Some out)"
  by (force simp: keys_of_def in_sorted_list_of_fmap)

lemma lookup_entries:
  "fmlookup (puts (map (\<lambda>(op, out). (out_point_key op, f out)) (sorted_list_of_fmap m)) n) (out_point_key op)
     = (case fmlookup m op of Some out \<Rightarrow> Some (f out) | None \<Rightarrow> fmlookup n (out_point_key op))"
  "k \<notin> set (keys_of m) \<Longrightarrow>
     fmlookup (puts (map (\<lambda>(op, out). (out_point_key op, f out)) (sorted_list_of_fmap m)) n) k = fmlookup n k"
proof -
  let ?xs = "map (\<lambda>(op, out). (out_point_key op, f out)) (sorted_list_of_fmap m)"
  have keys: "map fst ?xs = keys_of m" by (auto simp: keys_of_def)
  have dist: "distinct (map fst ?xs)" unfolding keys by (rule distinct_keys)
  have "map_of ?xs (out_point_key op) = map_option f (fmlookup m op)"
  proof (cases "fmlookup m op")
    case None
    then have "out_point_key op \<notin> set (map fst ?xs)" unfolding keys set_keys_of by auto
    then have "out_point_key op \<notin> fst ` set ?xs" by (simp add: image_image)
    then have "map_of ?xs (out_point_key op) = None"
      using map_of_eq_None_iff [of ?xs "out_point_key op"] by blast
    with None show ?thesis by simp
  next
    case (Some out)
    then have "(out_point_key op, f out) \<in> set ?xs" by (force simp: in_sorted_list_of_fmap)
    with dist Some show ?thesis by (simp add: map_of_eq_Some_iff)
  qed
  with dist show "fmlookup (puts ?xs n) (out_point_key op)
      = (case fmlookup m op of Some out \<Rightarrow> Some (f out) | None \<Rightarrow> fmlookup n (out_point_key op))"
    by (simp add: lookup_puts_distinct split: option.splits)
  assume "k \<notin> set (keys_of m)"
  then have "k \<notin> fst ` set ?xs" unfolding keys [symmetric] by (simp add: image_image)
  then show "fmlookup (puts ?xs n) k = fmlookup n k" by (rule lookup_puts_absent)
qed

text \<open>The output recorded under a key, spent or not.\<close>

definition recorded :: "('acc, 'fr) state \<Rightarrow> u8 list \<Rightarrow> tx_output option" where
  "recorded S k = (case fmlookup (utxos S) k of
     Some out \<Rightarrow> Some out | None \<Rightarrow> map_option so_output (fmlookup (stxos S) k))"

definition disjoint_dbs :: "('acc, 'fr) state \<Rightarrow> bool" where
  "disjoint_dbs S \<longleftrightarrow> (\<forall>k. fmlookup (utxos S) k = None \<or> fmlookup (stxos S) k = None)"

abbreviation spent_by :: "m6id \<Rightarrow> tx_output \<Rightarrow> spent_output" where
  "spent_by m6id out \<equiv> \<lparr>so_output = out, so_inpoint = InWithdrawal m6id\<rparr>"

definition spend_entries :: "m6id \<Rightarrow> (out_point, tx_output) fmap \<Rightarrow> ('acc, 'fr) state \<Rightarrow> ('acc, 'fr) state" where
  "spend_entries m6id m S = S\<lparr>utxos := drops (keys_of m) (utxos S),
     stxos := puts (map (\<lambda>(op, out). (out_point_key op, spent_by m6id out)) (sorted_list_of_fmap m)) (stxos S)\<rparr>"

definition restore_entries :: "(out_point, tx_output) fmap \<Rightarrow> ('acc, 'fr) state \<Rightarrow> ('acc, 'fr) state" where
  "restore_entries m S = S\<lparr>utxos := puts (map (\<lambda>(op, out). (out_point_key op, out)) (sorted_list_of_fmap m)) (utxos S),
     stxos := drops (keys_of m) (stxos S)\<rparr>"

lemma spend_withdrawal_Inr:
  "spend_withdrawal E err m6id (S, d) (op, out) = Inr (S', d') \<longleftrightarrow> has_key (utxos S) (out_point_key op)
     \<and> d' = diff_remove (pointed_output_hash E op out) d
     \<and> S' = S\<lparr>utxos := fmdrop (out_point_key op) (utxos S),
         stxos := fmupd (out_point_key op) (spent_by m6id out) (stxos S)\<rparr>"
  by (auto simp: spend_withdrawal_def Let_def)

lemma spend_withdrawals_Inr:
  "fold_res (spend_withdrawal E err m6id) (S, d) xs = Inr (S', d') \<Longrightarrow>
   (\<forall>(op, out)\<in>set xs. has_key (utxos S) (out_point_key op))
   \<and> S' = S\<lparr>utxos := drops (map (\<lambda>(op, out). out_point_key op) xs) (utxos S),
       stxos := puts (map (\<lambda>(op, out). (out_point_key op, spent_by m6id out)) xs) (stxos S)\<rparr>"
proof (induction xs arbitrary: S d)
  case Nil
  then show ?case by simp
next
  case (Cons x xs)
  obtain op out where x: "x = (op, out)" by (cases x)
  let ?S = "S\<lparr>utxos := fmdrop (out_point_key op) (utxos S),
     stxos := fmupd (out_point_key op) (spent_by m6id out) (stxos S)\<rparr>"
  from Cons.prems x have k: "has_key (utxos S) (out_point_key op)"
    and rest: "fold_res (spend_withdrawal E err m6id) (?S, diff_remove (pointed_output_hash E op out) d) xs = Inr (S', d')"
    by (auto simp: result_simps spend_withdrawal_Inr)
  from Cons.IH [OF rest] k x show ?case by (auto split: if_splits)
qed

corollary spend_bundle_Inr:
  assumes "fold_res (spend_withdrawal E err m6id) (S, d) (sorted_list_of_fmap m) = Inr (S', d')"
  shows "S' = spend_entries m6id m S" "\<And>op out. fmlookup m op = Some out \<Longrightarrow> has_key (utxos S) (out_point_key op)"
  using spend_withdrawals_Inr [OF assms] by (force simp: spend_entries_def keys_of_def in_sorted_list_of_fmap [symmetric])+

lemma restore_fold:
  "fold (\<lambda>x st. restore_withdrawal E st x) xs (S, d) =
     (S\<lparr>utxos := puts (map (\<lambda>(op, out). (out_point_key op, out)) xs) (utxos S),
        stxos := drops (map (\<lambda>(op, out). out_point_key op) xs) (stxos S)\<rparr>,
      fold (\<lambda>(op, out). diff_insert (pointed_output_hash E op out)) xs d)"
  by (induction xs arbitrary: S d) (auto simp: restore_withdrawal_def Let_def)

text \<open>Lookups after a bundle has been spent or restored.\<close>

lemma spend_entries_lookup:
  "fmlookup (utxos (spend_entries m6id m S)) k = (if k \<in> set (keys_of m) then None else fmlookup (utxos S) k)"
  "fmlookup (stxos (spend_entries m6id m S)) (out_point_key op)
     = (case fmlookup m op of Some out \<Rightarrow> Some (spent_by m6id out) | None \<Rightarrow> fmlookup (stxos S) (out_point_key op))"
  "k \<notin> set (keys_of m) \<Longrightarrow> fmlookup (stxos (spend_entries m6id m S)) k = fmlookup (stxos S) k"
  by (simp_all add: spend_entries_def lookup_drops lookup_entries)

lemma restore_entries_lookup:
  "fmlookup (stxos (restore_entries m S)) k = (if k \<in> set (keys_of m) then None else fmlookup (stxos S) k)"
  "fmlookup (utxos (restore_entries m S)) (out_point_key op)
     = (case fmlookup m op of Some out \<Rightarrow> Some out | None \<Rightarrow> fmlookup (utxos S) (out_point_key op))"
  "k \<notin> set (keys_of m) \<Longrightarrow> fmlookup (utxos (restore_entries m S)) k = fmlookup (utxos S) k"
  by (simp_all add: restore_entries_def lookup_drops lookup_entries)

definition entries_recorded :: "('acc, 'fr) state \<Rightarrow> (out_point, tx_output) fmap \<Rightarrow> bool" where
  "entries_recorded S m \<longleftrightarrow> (\<forall>op out. fmlookup m op = Some out \<longrightarrow> recorded S (out_point_key op) = Some out)"

lemma recorded_spend:
  assumes "entries_recorded S m"
  shows "recorded (spend_entries m6id m S) = recorded S"
proof
  fix k
  show "recorded (spend_entries m6id m S) k = recorded S k"
  proof (cases "k \<in> set (keys_of m)")
    case True
    then obtain op out where op: "k = out_point_key op" "fmlookup m op = Some out" unfolding set_keys_of by blast
    with assms True show ?thesis
      by (simp add: recorded_def [of "spend_entries m6id m S"] spend_entries_lookup entries_recorded_def)
  next
    case False
    then show ?thesis by (cases "fmlookup (utxos S) k") (simp_all add: recorded_def spend_entries_lookup)
  qed
qed

lemma recorded_restore:
  assumes "entries_recorded S m"
  shows "recorded (restore_entries m S) = recorded S"
proof
  fix k
  show "recorded (restore_entries m S) k = recorded S k"
  proof (cases "k \<in> set (keys_of m)")
    case True
    then obtain op out where op: "k = out_point_key op" "fmlookup m op = Some out" unfolding set_keys_of by blast
    with assms show ?thesis
      by (simp add: recorded_def [of "restore_entries m S"] restore_entries_lookup entries_recorded_def)
  next
    case False
    then show ?thesis by (cases "fmlookup (utxos S) k") (simp_all add: recorded_def restore_entries_lookup)
  qed
qed

lemma disjoint_spend:
  assumes "disjoint_dbs S" "\<And>op out. fmlookup m op = Some out \<Longrightarrow> has_key (utxos S) (out_point_key op)"
  shows "disjoint_dbs (spend_entries m6id m S)"
  unfolding disjoint_dbs_def
proof
  fix k
  show "fmlookup (utxos (spend_entries m6id m S)) k = None \<or> fmlookup (stxos (spend_entries m6id m S)) k = None"
    using assms(1) by (cases "k \<in> set (keys_of m)") (auto simp: spend_entries_lookup disjoint_dbs_def)
qed

lemma disjoint_restore:
  assumes "disjoint_dbs S"
  shows "disjoint_dbs (restore_entries m S)"
  unfolding disjoint_dbs_def
proof
  fix k
  show "fmlookup (utxos (restore_entries m S)) k = None \<or> fmlookup (stxos (restore_entries m S)) k = None"
    using assms by (cases "k \<in> set (keys_of m)") (auto simp: restore_entries_lookup disjoint_dbs_def)
qed

section \<open>The invariant\<close>

text \<open>
  The bundles of a state agree with its databases:
  \<^item> an output is not both unspent and spent, and keys are encoded out points;
  \<^item> the outputs of a known bundle are recorded, spent or not;
  \<^item> the outputs of a known bundle that was submitted as expected or confirmed are spent by it;
  \<^item> the pending bundle is the only one with the latest status \<open>Pending\<close>, and it is known.
\<close>

definition bundles_recorded :: "('acc, 'fr) state \<Rightarrow> bool" where
  "bundles_recorded S \<longleftrightarrow> (\<forall>m6id bundle status. fmlookup (withdrawal_bundles S) m6id = Some (Known bundle, status)
     \<longrightarrow> entries_recorded S (wb_spend_utxos bundle))"

definition spent_for :: "('acc, 'fr) state \<Rightarrow> m6id \<Rightarrow> withdrawal_bundle \<Rightarrow> bool" where
  "spent_for S m6id bundle \<longleftrightarrow> (\<forall>op out. fmlookup (wb_spend_utxos bundle) op = Some out
     \<longrightarrow> fmlookup (stxos S) (out_point_key op) = Some (spent_by m6id out))"

definition bundles_spent :: "('acc, 'fr) state \<Rightarrow> bool" where
  "bundles_spent S \<longleftrightarrow> (\<forall>m6id bundle status. fmlookup (withdrawal_bundles S) m6id = Some (Known bundle, status)
     \<longrightarrow> latest_status status = Submitted \<or> latest_status status = Confirmed \<longrightarrow> spent_for S m6id bundle)"

definition pending_ok :: "('acc, 'fr) state \<Rightarrow> bool" where
  "pending_ok S \<longleftrightarrow>
     (\<forall>m6id info status. fmlookup (withdrawal_bundles S) m6id = Some (info, status) \<longrightarrow> latest_status status = Pending
        \<longrightarrow> pending_withdrawal_bundle S = Some m6id)
     \<and> (\<forall>m6id. pending_withdrawal_bundle S = Some m6id \<longrightarrow>
        (\<exists>bundle status. fmlookup (withdrawal_bundles S) m6id = Some (Known bundle, status)
           \<and> latest_status status = Pending))"

definition peg_inv :: "('acc, 'fr) state \<Rightarrow> bool" where
  "peg_inv S \<longleftrightarrow> disjoint_dbs S \<and> utxo_keys_ok S \<and> bundles_recorded S \<and> bundles_spent S \<and> pending_ok S"

lemma rb_push_expect_latest:
  "rb_push_expect r v h = Inr r' \<Longrightarrow> rb_latest r' = \<lparr>hs_value = v, hs_height = h\<rparr>"
  by (cases r) (auto simp: rb_push_expect_def split: sum.splits if_splits)

lemma rb_push_expect_pop:
  "rb_push_expect r v h = Inr r' \<Longrightarrow> rb_pop r' = (Some r, \<lparr>hs_value = v, hs_height = h\<rparr>)"
  by (cases r) (auto simp: rb_push_expect_def split: sum.splits if_splits)

lemma rb_latest_new: "rb_latest (rb_new v h) = \<lparr>hs_value = v, hs_height = h\<rparr>"
  by (simp add: rb_new_def)

text \<open>Replacing the entry of one bundle.\<close>

lemma bundles_recorded_put:
  assumes "bundles_recorded S" "recorded S' = recorded S"
    and "withdrawal_bundles S' = fmupd m6id (info, status) (withdrawal_bundles S)"
    and "\<And>bundle. info = Known bundle \<Longrightarrow> entries_recorded S (wb_spend_utxos bundle)"
  shows "bundles_recorded S'"
  using assms by (auto simp: bundles_recorded_def entries_recorded_def split: if_splits)

lemma bundles_spent_put:
  assumes "bundles_spent S"
    and "withdrawal_bundles S' = fmupd m6id (info, status) (withdrawal_bundles S)"
    and "\<And>m bundle. m \<noteq> m6id \<Longrightarrow> spent_for S m bundle \<Longrightarrow> spent_for S' m bundle"
    and "\<And>bundle. info = Known bundle \<Longrightarrow> latest_status status = Submitted \<or> latest_status status = Confirmed
      \<Longrightarrow> spent_for S' m6id bundle"
  shows "bundles_spent S'"
  using assms by (auto simp: bundles_spent_def split: if_splits)

lemma pending_okD:
  "pending_ok S \<Longrightarrow> fmlookup (withdrawal_bundles S) m6id = Some (info, status) \<Longrightarrow> latest_status status = Pending
     \<Longrightarrow> pending_withdrawal_bundle S = Some m6id"
  "pending_ok S \<Longrightarrow> pending_withdrawal_bundle S = Some m6id \<Longrightarrow>
     \<exists>bundle status. fmlookup (withdrawal_bundles S) m6id = Some (Known bundle, status) \<and> latest_status status = Pending"
  by (simp_all add: pending_ok_def)

lemma pending_okI:
  assumes "\<And>m6id info status. fmlookup (withdrawal_bundles S) m6id = Some (info, status)
      \<Longrightarrow> latest_status status = Pending \<Longrightarrow> pending_withdrawal_bundle S = Some m6id"
    and "\<And>m6id. pending_withdrawal_bundle S = Some m6id \<Longrightarrow>
      \<exists>bundle status. fmlookup (withdrawal_bundles S) m6id = Some (Known bundle, status) \<and> latest_status status = Pending"
  shows "pending_ok S"
  unfolding pending_ok_def using assms by blast

lemma pending_ok_put:
  assumes "pending_ok S" "withdrawal_bundles S' = fmupd m6id (info, status) (withdrawal_bundles S)"
    and "pending_withdrawal_bundle S \<noteq> Some m6id" "latest_status status \<noteq> Pending"
    and "pending_withdrawal_bundle S' = pending_withdrawal_bundle S"
  shows "pending_ok S'"
proof (rule pending_okI)
  show "pending_withdrawal_bundle S' = Some m"
    if "fmlookup (withdrawal_bundles S') m = Some (i, s)" "latest_status s = Pending" for m i s
    using that assms(2,4,5) pending_okD(1) [OF assms(1), of m i s] by (auto split: if_splits)
  show "\<exists>b s. fmlookup (withdrawal_bundles S') m = Some (Known b, s) \<and> latest_status s = Pending"
    if "pending_withdrawal_bundle S' = Some m" for m
    using that assms(2,3,5) pending_okD(2) [OF assms(1), of m] by auto
qed

text \<open>Spending outputs that are unspent, or restoring outputs of one bundle, does not touch other bundles.\<close>

lemma spent_for_spend:
  assumes "disjoint_dbs S" "\<And>op out. fmlookup m op = Some out \<Longrightarrow> has_key (utxos S) (out_point_key op)"
    and "spent_for S m' bundle"
  shows "spent_for (spend_entries m6id m S) m' bundle"
  unfolding spent_for_def
proof (intro allI impI)
  fix op out
  assume "fmlookup (wb_spend_utxos bundle) op = Some out"
  then have st: "fmlookup (stxos S) (out_point_key op) = Some (spent_by m' out)"
    using assms(3) by (simp add: spent_for_def)
  then have "fmlookup (utxos S) (out_point_key op) = None"
    using assms(1) by (metis disjoint_dbs_def option.distinct(1))
  then have "fmlookup m op = None" using assms(2) by fastforce
  with st show "fmlookup (stxos (spend_entries m6id m S)) (out_point_key op) = Some (spent_by m' out)"
    by (simp add: spend_entries_lookup)
qed

lemma spent_for_restore:
  assumes "spent_for S m6id b" "spent_for S m' bundle" "m' \<noteq> m6id"
  shows "spent_for (restore_entries (wb_spend_utxos b) S) m' bundle"
  unfolding spent_for_def
proof (intro allI impI)
  fix op out
  assume "fmlookup (wb_spend_utxos bundle) op = Some out"
  then have st: "fmlookup (stxos S) (out_point_key op) = Some (spent_by m' out)"
    using assms(2) by (simp add: spent_for_def)
  then have "fmlookup (wb_spend_utxos b) op = None"
    using assms(1,3) by (cases "fmlookup (wb_spend_utxos b) op") (auto simp: spent_for_def)
  then have "out_point_key op \<notin> set (keys_of (wb_spend_utxos b))" unfolding set_keys_of by auto
  with st show "fmlookup (stxos (restore_entries (wb_spend_utxos b) S)) (out_point_key op) = Some (spent_by m' out)"
    by (simp add: restore_entries_lookup)
qed

section \<open>Every event keeps the invariant\<close>

lemma recorded_frame:
  "utxos S' = utxos S \<Longrightarrow> stxos S' = stxos S \<Longrightarrow> recorded S' = recorded S"
  by (simp add: fun_eq_iff recorded_def split: option.split)

lemma spent_for_frame: "stxos S' = stxos S \<Longrightarrow> spent_for S' m6id bundle = spent_for S m6id bundle"
  by (simp add: spent_for_def)

lemma dbs_frame:
  "utxos S' = utxos S \<Longrightarrow> stxos S' = stxos S \<Longrightarrow> disjoint_dbs S' = disjoint_dbs S"
  "utxos S' = utxos S \<Longrightarrow> utxo_keys_ok S' = utxo_keys_ok S"
  by (simp_all add: disjoint_dbs_def utxo_keys_ok_def)

lemma peg_frame [simp]:
  "recorded (S\<lparr>withdrawal_bundles := w\<rparr>) = recorded S" "recorded (S\<lparr>pending_withdrawal_bundle := p\<rparr>) = recorded S"
  "disjoint_dbs (S\<lparr>withdrawal_bundles := w\<rparr>) = disjoint_dbs S"
  "disjoint_dbs (S\<lparr>pending_withdrawal_bundle := p\<rparr>) = disjoint_dbs S"
  "utxo_keys_ok (S\<lparr>withdrawal_bundles := w\<rparr>) = utxo_keys_ok S"
  "utxo_keys_ok (S\<lparr>pending_withdrawal_bundle := p\<rparr>) = utxo_keys_ok S"
  "spent_for (S\<lparr>withdrawal_bundles := w\<rparr>) m6id b = spent_for S m6id b"
  "spent_for (S\<lparr>pending_withdrawal_bundle := p\<rparr>) m6id b = spent_for S m6id b"
  by (simp_all add: fun_eq_iff recorded_def disjoint_dbs_def utxo_keys_ok_def spent_for_def split: option.split)

lemma utxo_keys_spend: "utxo_keys_ok S \<Longrightarrow> utxo_keys_ok (spend_entries m6id m S)"
  by (auto simp: utxo_keys_ok_def spend_entries_lookup split: if_splits)

lemma utxo_keys_restore: "utxo_keys_ok S \<Longrightarrow> utxo_keys_ok (restore_entries m S)"
  unfolding utxo_keys_ok_def
proof (intro allI impI)
  fix k out
  assume "\<forall>k out. fmlookup (utxos S) k = Some out \<longrightarrow> (\<exists>op. k = out_point_key op)"
    "fmlookup (utxos (restore_entries m S)) k = Some out"
  then show "\<exists>op. k = out_point_key op"
    by (cases "k \<in> set (keys_of m)") (auto simp: set_keys_of restore_entries_lookup)
qed

lemma spend_entries_frame [simp]:
  "withdrawal_bundles (spend_entries m6id m S) = withdrawal_bundles S"
  "pending_withdrawal_bundle (spend_entries m6id m S) = pending_withdrawal_bundle S"
  by (simp_all add: spend_entries_def)

lemma restore_entries_frame [simp]:
  "withdrawal_bundles (restore_entries m S) = withdrawal_bundles S"
  "pending_withdrawal_bundle (restore_entries m S) = pending_withdrawal_bundle S"
  by (simp_all add: restore_entries_def)

lemma spent_for_spent: "spent_for (spend_entries m6id (wb_spend_utxos bundle) S) m6id bundle"
  by (simp add: spent_for_def spend_entries_lookup)

text \<open>A status change that moves no outputs.\<close>

lemma peg_inv_status:
  assumes "peg_inv S" "fmlookup (withdrawal_bundles S) m6id = Some (info, status0)"
    and "pending_withdrawal_bundle S \<noteq> Some m6id" "latest_status status \<noteq> Pending"
    and "latest_status status = Submitted \<or> latest_status status = Confirmed \<Longrightarrow>
      \<forall>bundle. info = Known bundle \<longrightarrow> spent_for S m6id bundle"
  shows "peg_inv (put_bundle m6id (info, status) S)"
proof -
  let ?S = "put_bundle m6id (info, status) S"
  note inv = assms(1) [unfolded peg_inv_def]
  have rec_eq: "recorded ?S = recorded S" by (rule recorded_frame) simp_all
  have "entries_recorded S (wb_spend_utxos b)" if "info = Known b" for b
    using inv assms(2) that by (auto simp: bundles_recorded_def)
  then have "bundles_recorded ?S"
    using inv by (intro bundles_recorded_put [OF _ rec_eq, of m6id info status]) auto
  moreover have "bundles_spent ?S"
    using inv assms(5) by (intro bundles_spent_put [of S ?S m6id info status]) auto
  moreover have "pending_ok ?S"
    using inv assms(3,4) by (intro pending_ok_put [of S ?S m6id info status]) auto
  ultimately show ?thesis using inv by (simp add: peg_inv_def)
qed

text \<open>A bundle whose outputs become spent.\<close>

lemma peg_inv_spend:
  assumes "peg_inv S" and er: "entries_recorded S m"
    and uns: "\<And>op out. fmlookup m op = Some out \<Longrightarrow> has_key (utxos S) (out_point_key op)"
    and info: "\<And>bundle. info = Known bundle \<Longrightarrow> wb_spend_utxos bundle = m"
    and "latest_status status \<noteq> Pending"
    and p: "pending = (if pending_withdrawal_bundle S = Some m6id then None else pending_withdrawal_bundle S)"
  defines "S' \<equiv> (put_bundle m6id (info, status) (spend_entries m6id m S))\<lparr>pending_withdrawal_bundle := pending\<rparr>"
  shows "peg_inv S' \<and> recorded S' = recorded S"
proof -
  note inv = assms(1) [unfolded peg_inv_def]
  have rec_eq: "recorded S' = recorded S" using recorded_spend [OF er] by (simp add: S'_def)
  have "bundles_recorded S'"
    using inv er rec_eq info by (intro bundles_recorded_put [of S S' m6id info status]) (auto simp: S'_def)
  moreover have "bundles_spent S'"
  proof (rule bundles_spent_put [of S S' m6id info status])
    show "bundles_spent S" using inv by simp
    show "withdrawal_bundles S' = fmupd m6id (info, status) (withdrawal_bundles S)"
      by (simp add: S'_def)
    show "spent_for S' m' b" if "spent_for S m' b" for m' b
      using inv spent_for_spend [OF _ uns that] by (simp add: S'_def)
    show "spent_for S' m6id b" if "info = Known b" for b
      using spent_for_spent [of m6id b S] info [OF that] by (simp add: S'_def)
  qed
  moreover have "pending_ok S'"
  proof (rule pending_okI)
    show "pending_withdrawal_bundle S' = Some m"
      if "fmlookup (withdrawal_bundles S') m = Some (i, s)" "latest_status s = Pending" for m i s
      using that assms(5) p inv pending_okD(1) [of S m i s] by (auto simp: S'_def split: if_splits)
    show "\<exists>b s. fmlookup (withdrawal_bundles S') m = Some (Known b, s) \<and> latest_status s = Pending"
      if "pending_withdrawal_bundle S' = Some m" for m
      using that p inv pending_okD(2) [of S m] by (auto simp: S'_def split: if_splits)
  qed
  moreover have "disjoint_dbs S'" using inv disjoint_spend [OF _ uns] by (simp add: S'_def)
  moreover have "utxo_keys_ok S'" using inv by (simp add: S'_def utxo_keys_spend)
  ultimately show ?thesis using rec_eq by (simp add: peg_inv_def)
qed

lemma known_recorded:
  "peg_inv S \<Longrightarrow> fmlookup (withdrawal_bundles S) m6id = Some (Known bundle, status)
     \<Longrightarrow> entries_recorded S (wb_spend_utxos bundle)"
  by (auto simp: peg_inv_def bundles_recorded_def)

text \<open>A submitted bundle whose outputs return to the UTXOs.\<close>

lemma peg_inv_restore:
  assumes "peg_inv S" "fmlookup (withdrawal_bundles S) m6id = Some (Known bundle, status0)"
    and "latest_status status0 = Submitted" "latest_status status = Failed"
    and S': "S' = put_bundle m6id (Known bundle, status)
    ((restore_entries (wb_spend_utxos bundle) S)\<lparr>latest_failed_withdrawal_bundle := failed\<rparr>)"
  shows "peg_inv S' \<and> recorded S' = recorded S"
proof -
  let ?S1 = "restore_entries (wb_spend_utxos bundle) S"
  note inv = assms(1) [unfolded peg_inv_def]
  have er: "entries_recorded S (wb_spend_utxos bundle)" and sp: "spent_for S m6id bundle"
    using inv assms(2,3) by (auto simp: bundles_recorded_def bundles_spent_def)
  have eq: "utxos S' = utxos ?S1" "stxos S' = stxos ?S1" by (simp_all add: S')
  have rec_eq: "recorded S' = recorded S"
    using recorded_frame [OF eq] recorded_restore [OF er] by simp
  have "bundles_recorded S'"
    using inv er rec_eq by (intro bundles_recorded_put [of S S' m6id "Known bundle" status]) (auto simp: S')
  moreover have "bundles_spent S'"
  proof (rule bundles_spent_put [of S S' m6id "Known bundle" status])
    show "bundles_spent S" using inv by simp
    show "withdrawal_bundles S' = fmupd m6id (Known bundle, status) (withdrawal_bundles S)"
      by (simp add: S')
    show "spent_for S' m b" if "m \<noteq> m6id" "spent_for S m b" for m b
      using spent_for_restore [OF sp that(2,1)] by (simp add: spent_for_frame [OF eq(2)])
  qed (use assms(4) in simp)
  moreover have "pending_ok S'"
  proof (rule pending_ok_put [of S S' m6id "Known bundle" status])
    show "pending_withdrawal_bundle S \<noteq> Some m6id"
      using inv assms(2,3) pending_okD(2) [of S m6id] by auto
  qed (use inv assms(4) in \<open>auto simp: S'\<close>)
  moreover have "disjoint_dbs S'" using inv by (simp add: dbs_frame(1) [OF eq] disjoint_restore)
  moreover have "utxo_keys_ok S'" using inv by (simp add: dbs_frame(2) [OF eq(1)] utxo_keys_restore)
  ultimately show ?thesis using rec_eq by (simp add: peg_inv_def)
qed

lemma not_pending:
  "peg_inv S \<Longrightarrow> fmlookup (withdrawal_bundles S) m6id = Some (info, status) \<Longrightarrow> latest_status status \<noteq> Pending
     \<Longrightarrow> pending_withdrawal_bundle S \<noteq> Some m6id"
  using pending_okD(2) [of S m6id] by (auto simp: peg_inv_def)

lemma connect_submitted_inv:
  assumes "peg_inv S" "connect_withdrawal_bundle_submitted E h ev m6id (S, d) = Inr (S', d')"
  shows "peg_inv S' \<and> recorded S' = recorded S"
proof (cases "pending_withdrawal_bundle S = Some m6id")
  case True
  from pending_okD(2) [OF _ True] assms(1) obtain bdl status where
    b: "fmlookup (withdrawal_bundles S) m6id = Some (Known bdl, status)" by (auto simp: peg_inv_def)
  with assms(2) True obtain S1 d1 status' where
    sp: "fold_res (spend_withdrawal E SubNoUtxo m6id) (S, d) (spends bdl) = Inr (S1, d1)"
    and st: "rb_push_expect status Submitted h = (Inr status' :: (submitted_error, withdrawal_bundle_status rollback) result)"
    and S': "S' = (put_bundle m6id (Known bdl, status') S1)\<lparr>pending_withdrawal_bundle := None\<rparr>"
    by (auto simp: connect_withdrawal_bundle_submitted_def result_simps)
  have lat: "latest_status status' = Submitted" using rb_push_expect_latest [OF st] by simp
  show ?thesis
    unfolding S' spend_bundle_Inr(1) [OF sp]
    by (rule peg_inv_spend [OF assms(1) known_recorded [OF assms(1) b] spend_bundle_Inr(2) [OF sp]])
      (use lat True in simp_all)
next
  case False
  show ?thesis
  proof (cases "fmlookup (withdrawal_bundles S) m6id")
    case None
    have S': "S' = put_bundle m6id (Unknown, rb_new Submitted h) S"
      using assms(2) False None by (simp add: connect_withdrawal_bundle_submitted_def)
    note inv = assms(1) [unfolded peg_inv_def]
    have "bundles_recorded S'"
      using inv by (intro bundles_recorded_put [of S S' m6id Unknown]) (auto simp: S' intro: recorded_frame)
    moreover have "bundles_spent S'"
      using inv by (intro bundles_spent_put [of S S' m6id Unknown]) (auto simp: S' spent_for_def)
    moreover have "pending_ok S'"
      using inv False by (intro pending_ok_put [of S S' m6id Unknown]) (auto simp: S' rb_latest_new)
    ultimately show ?thesis
      using assms(1) by (simp add: peg_inv_def S')
  next
    case (Some x)
    obtain info status where x: "x = (info, status)" by (cases x)
    with assms(2) False Some obtain status' where
      st: "rb_push_expect status SubmittedUnexpected h = (Inr status' :: (submitted_error, withdrawal_bundle_status rollback) result)"
      and S': "S' = put_bundle m6id (info, status') S"
      by (auto simp: connect_withdrawal_bundle_submitted_def result_simps)
    have "latest_status status' = SubmittedUnexpected" using rb_push_expect_latest [OF st] by simp
    with peg_inv_status [OF assms(1) Some [unfolded x] False, of status'] show ?thesis
      by (simp add: S')
  qed
qed

text \<open>An unknown bundle confirmed at height 0 spends every UTXO.\<close>

lemma decode_entries:
  assumes "\<forall>k out. (k, out) \<in> set xs \<longrightarrow> (\<exists>op. k = out_point_key op)"
  shows "\<exists>es. map_res (\<lambda>(key, out). map_ok (\<lambda>op. (op, out)) (out_point_of_key key)) xs
      = (Inr es :: (out_point \<times> tx_output) list state_result)
    \<and> map (\<lambda>(op, out). (out_point_key op, out)) es = xs"
  using assms
proof (induction xs)
  case Nil
  then show ?case by simp
next
  case (Cons x xs)
  obtain k out where kout: "x = (k, out)" by (cases x)
  with Cons.prems obtain op where x: "x = (k, out)" "k = out_point_key op" by auto
  from Cons obtain es where "map_res (\<lambda>(key, out). map_ok (\<lambda>op. (op, out)) (out_point_of_key key)) xs
      = (Inr es :: (out_point \<times> tx_output) list state_result)" "map (\<lambda>(op, out). (out_point_key op, out)) es = xs"
    by auto
  with x show ?case by (intro exI [of _ "(op, out) # es"]) simp
qed

lemma get_utxos_Inr:
  assumes "utxo_keys_ok S" "get_utxos S = Inr entries"
  shows "distinct (map fst entries)" "map (\<lambda>(op, out). (out_point_key op, out)) entries = utxo_entries S"
proof -
  show eq: "map (\<lambda>(op, out). (out_point_key op, out)) entries = utxo_entries S"
    using assms decode_entries [of "utxo_entries S"]
    by (auto simp: get_utxos_def utxo_keys_ok_def utxo_entries_def in_sorted_list_of_fmap)
  have "map fst (utxo_entries S) = map out_point_key (map fst entries)"
    unfolding eq [symmetric] by (auto simp: case_prod_beta)
  moreover have "distinct (map fst (utxo_entries S))"
    by (simp add: utxo_entries_def distinct_sorted_list_of_fmap)
  ultimately show "distinct (map fst entries)" by (metis distinct_map)
qed

lemma spend_all_Inr:
  assumes "utxo_keys_ok S" "spend_all E m6id (S, d) = Inr ((S', d'), all)"
  shows "S' = spend_entries m6id all S" "\<And>op. fmlookup all op = fmlookup (utxos S) (out_point_key op)"
proof -
  from assms(2) obtain entries where es: "get_utxos S = Inr entries" "all = puts entries fmempty"
    and S': "S' = (fst (fold (\<lambda>(op, out) (S, d).
       (S\<lparr>stxos := fmupd (out_point_key op) (spent_by m6id out) (stxos S)\<rparr>,
        diff_remove (pointed_output_hash E op out) d)) (sorted_list_of_fmap all) (S, d)))\<lparr>utxos := fmempty\<rparr>"
    by (auto simp: spend_all_def result_simps Let_def case_prod_beta)
  note g = get_utxos_Inr [OF assms(1) es(1)]
  have look: "fmlookup all op = map_of entries op" for op
    by (simp add: es(2) lookup_puts_distinct [OF g(1)] split: option.split)
  show all: "fmlookup all op = fmlookup (utxos S) (out_point_key op)" for op
  proof -
    have "fmlookup (utxos S) (out_point_key op) = map_of (utxo_entries S) (out_point_key op)"
      by (simp add: utxo_entries_def)
    also have "\<dots> = map_of entries op"
      unfolding g(2) [symmetric] by (induction entries) auto
    finally show ?thesis by (simp add: look)
  qed
  have fold_eq: "fst (fold (\<lambda>(op, out) (S, d).
       (S\<lparr>stxos := fmupd (out_point_key op) (spent_by m6id out) (stxos S)\<rparr>,
        diff_remove (pointed_output_hash E op out) d)) xs (S, d)) =
      S\<lparr>stxos := puts (map (\<lambda>(op, out). (out_point_key op, spent_by m6id out)) xs) (stxos S)\<rparr>" for xs S d
    by (induction xs arbitrary: S d) auto
  have "drops (keys_of all) (utxos S) = fmempty"
  proof (rule fmap_ext)
    fix k
    show "fmlookup (drops (keys_of all) (utxos S)) k = fmlookup fmempty k"
      using assms(1) all by (cases "fmlookup (utxos S) k") (auto simp: lookup_drops set_keys_of utxo_keys_ok_def)
  qed
  then show "S' = spend_entries m6id all S" by (simp add: S' fold_eq spend_entries_def)
qed

lemma connect_confirmed_inv:
  assumes "peg_inv S" "connect_withdrawal_bundle_confirmed E h ev m6id (S, d) = Inr (S', d')"
  shows "peg_inv S' \<and> recorded S' = recorded S"
proof -
  from assms(2) obtain info status where x: "fmlookup (withdrawal_bundles S) m6id = Some (info, status)"
    by (auto simp: connect_withdrawal_bundle_confirmed_def result_simps)
  show ?thesis
  proof (cases "latest_status status = Confirmed")
    case True
    with assms x show ?thesis by (simp add: connect_withdrawal_bundle_confirmed_def)
  next
    case False
    note run = assms(2) [unfolded connect_withdrawal_bundle_confirmed_def] x False
    from run have sub: "is_submitted (latest_status status)" by (auto simp: result_simps)
    then have np: "pending_withdrawal_bundle S \<noteq> Some m6id"
      using not_pending [OF assms(1) x] by (auto simp: is_submitted_def)
    show ?thesis
    proof (cases info)
      case (Known b)
      with run obtain S1 d1 status' where
        S1: "(if latest_status status = SubmittedUnexpected
          then fold_res (spend_withdrawal E (UnexpectedWithdrawalBundleInsolvency ev m6id) m6id) (S, d) (spends b)
          else Inr (S, d)) = Inr (S1, d1)"
        and st: "rb_push_expect status Confirmed h = (Inr status' :: withdrawal_bundle_status rollback state_result)"
        and S': "S' = put_bundle m6id (info, status') S1"
        by (auto simp: result_simps)
      have lat: "latest_status status' = Confirmed" using rb_push_expect_latest [OF st] by simp
      show ?thesis
      proof (cases "latest_status status = SubmittedUnexpected")
        case True
        with S1 have sp: "fold_res (spend_withdrawal E (UnexpectedWithdrawalBundleInsolvency ev m6id) m6id)
            (S, d) (spends b) = Inr (S1, d1)" by simp
        have "S' = (put_bundle m6id (info, status') (spend_entries m6id (wb_spend_utxos b) S))
            \<lparr>pending_withdrawal_bundle := pending_withdrawal_bundle S\<rparr>"
          by (simp add: S' spend_bundle_Inr(1) [OF sp] spend_entries_def)
        then show ?thesis
          by (simp only:) (rule peg_inv_spend [OF assms(1) known_recorded [OF assms(1) x [unfolded Known]]
              spend_bundle_Inr(2) [OF sp]], use lat np Known in simp_all)
      next
        case False
        with S1 sub have "S1 = S" "spent_for S m6id b"
          using assms(1) x Known by (auto simp: peg_inv_def bundles_spent_def is_submitted_def)
        with peg_inv_status [OF assms(1) x np, of status'] lat Known show ?thesis by (simp add: S')
      qed
    next
      case Unknown
      with run obtain S1 d1 all status' where
        S1: "spend_all E m6id (S, d) = Inr ((S1, d1), all)"
        and st: "rb_push_expect status Confirmed h = (Inr status' :: withdrawal_bundle_status rollback state_result)"
        and S': "S' = put_bundle m6id (UnknownConfirmed all, status') S1"
        by (auto simp: result_simps split: if_splits)
      have lat: "latest_status status' = Confirmed" using rb_push_expect_latest [OF st] by simp
      have "utxo_keys_ok S" using assms(1) by (simp add: peg_inv_def)
      note all = spend_all_Inr [OF this S1]
      have "entries_recorded S all" by (simp add: entries_recorded_def all(2) recorded_def)
      moreover have "S' = (put_bundle m6id (UnknownConfirmed all, status') (spend_entries m6id all S))
          \<lparr>pending_withdrawal_bundle := pending_withdrawal_bundle S\<rparr>"
        by (simp add: S' all(1) spend_entries_def)
      ultimately show ?thesis
        by (simp only:) (rule peg_inv_spend [OF assms(1)], use lat np all(2) in simp_all)
    next
      case (UnknownConfirmed m)
      with run show ?thesis by (auto simp: result_simps)
    qed
  qed
qed

lemma connect_failed_inv:
  assumes "peg_inv S" "connect_withdrawal_bundle_failed E h m6id (S, d) = Inr (S', d')"
  shows "peg_inv S' \<and> recorded S' = recorded S"
proof -
  from assms(2) obtain info status where x: "fmlookup (withdrawal_bundles S) m6id = Some (info, status)"
    by (auto simp: connect_withdrawal_bundle_failed_def result_simps)
  show ?thesis
  proof (cases "latest_status status = Failed")
    case True
    with assms x show ?thesis by (simp add: connect_withdrawal_bundle_failed_def)
  next
    case False
    note run = assms(2) [unfolded connect_withdrawal_bundle_failed_def] x False
    from run have sub: "is_submitted (latest_status status)" by (auto simp: result_simps)
    then have np: "pending_withdrawal_bundle S \<noteq> Some m6id"
      using not_pending [OF assms(1) x] by (auto simp: is_submitted_def)
    have plain: ?thesis if S': "S' = put_bundle m6id (info, status') S"
      and st: "rb_push_expect status Failed h = (Inr status' :: withdrawal_bundle_status rollback state_result)" for status'
    proof -
      have "latest_status status' = Failed" using rb_push_expect_latest [OF st] by simp
      with peg_inv_status [OF assms(1) x np, of status'] show ?thesis by (simp add: S')
    qed
    show ?thesis
    proof (cases "\<exists>b. info = Known b \<and> latest_status status = Submitted")
      case True
      then obtain b where b: "info = Known b" "latest_status status = Submitted" by blast
      with run obtain failed status' where
        st: "rb_push_expect status Failed h = (Inr status' :: withdrawal_bundle_status rollback state_result)"
        and S': "S' = put_bundle m6id (info, status')
          ((restore_entries (wb_spend_utxos b) S)\<lparr>latest_failed_withdrawal_bundle := failed\<rparr>)"
        by (auto simp: result_simps restore_fold push_latest_failed_def restore_entries_def keys_of_def)
      show ?thesis
        using rb_push_expect_latest [OF st] x b S' by (intro peg_inv_restore [OF assms(1)]) simp_all
    next
      case False
      with run sub obtain status' where "S' = put_bundle m6id (info, status') S"
        "rb_push_expect status Failed h = (Inr status' :: withdrawal_bundle_status rollback state_result)"
        by (cases info) (auto simp: result_simps is_submitted_def)
      then show ?thesis by (rule plain)
    qed
  qed
qed

lemma bundle_event_inv:
  assumes "peg_inv S" "connect_withdrawal_bundle_event E h ev m6id event_status (S, d) = Inr (S', d')"
  shows "peg_inv S' \<and> recorded S' = recorded S"
  using assms connect_confirmed_inv [OF assms(1), of E h ev m6id d S' d']
    connect_failed_inv [OF assms(1), of E h m6id d S' d'] connect_submitted_inv [OF assms(1), of E h ev m6id d S' d']
  by (cases event_status) (auto simp: connect_withdrawal_bundle_event_def result_simps)

text \<open>
  C20. Withdrawal bundle events neither create nor destroy outputs: whatever the event, the
  output recorded under each key, unspent or spent, stays the same; and the invariant that ties
  bundle statuses to the databases is kept.
\<close>

theorem bundle_event_conserves:
  assumes "peg_inv S" "connect_withdrawal_bundle_event E h ev m6id event_status (S, d) = Inr (S', d')"
  shows "recorded S' = recorded S \<and> peg_inv S'"
  using bundle_event_inv [OF assms] by simp

section \<open>Connecting two-way peg data\<close>

definition deposits_of :: "(main_hash \<times> block_event) list \<Rightarrow> (u8 list \<times> tx_output) list" where
  "deposits_of evs = concat (map (\<lambda>(_, e). case e of
     DepositEvent dep \<Rightarrow> [(out_point_key (Deposit (dep_txid dep) (dep_vout dep)), dep_output dep)]
   | WithdrawalBundleEvent _ _ \<Rightarrow> []) evs)"

lemma peg_inv_frame:
  assumes "utxos S' = utxos S" "stxos S' = stxos S" "withdrawal_bundles S' = withdrawal_bundles S"
    "pending_withdrawal_bundle S' = pending_withdrawal_bundle S"
  shows "peg_inv S' = peg_inv S"
  using assms dbs_frame [of S' S] recorded_frame [of S' S] spent_for_frame [of S' S]
  by (simp add: peg_inv_def bundles_recorded_def entries_recorded_def bundles_spent_def pending_ok_def)

lemma deposit_inv:
  assumes "peg_inv S" "recorded S (out_point_key op) = None"
    and S': "S' = S\<lparr>utxos := fmupd (out_point_key op) out (utxos S)\<rparr>"
  shows "peg_inv S'" "recorded S' = (recorded S)(out_point_key op \<mapsto> out)"
proof -
  note inv = assms(1) [unfolded peg_inv_def]
  have free: "fmlookup (utxos S) (out_point_key op) = None" "fmlookup (stxos S) (out_point_key op) = None"
    using assms(2) by (auto simp: recorded_def split: option.splits)
  show rec_eq: "recorded S' = (recorded S)(out_point_key op \<mapsto> out)"
    by (auto simp: fun_eq_iff recorded_def S' split: option.split)
  have "disjoint_dbs S'" using inv free by (auto simp: disjoint_dbs_def S')
  moreover have "utxo_keys_ok S'" using inv by (auto simp: utxo_keys_ok_def S')
  moreover have "bundles_recorded S'"
    using inv assms(2) unfolding bundles_recorded_def entries_recorded_def rec_eq
    by (auto simp: S') (metis option.distinct(1))+
  moreover have "bundles_spent S'" using inv by (auto simp: bundles_spent_def spent_for_def S')
  moreover have "pending_ok S'" using inv by (auto simp: pending_ok_def S')
  ultimately show "peg_inv S'" by (simp add: peg_inv_def)
qed

lemma connect_events_inv:
  assumes "fold_res (connect_event E h) ((S, d), l) evs = Inr ((S', d'), l')" "peg_inv S"
    and "distinct (map fst (deposits_of evs))" "\<forall>k\<in>fst ` set (deposits_of evs). recorded S k = None"
  shows "peg_inv S' \<and> recorded S' = recorded S ++ map_of (deposits_of evs)"
  using assms
proof (induction evs arbitrary: S d l)
  case Nil
  then show ?case by (simp add: deposits_of_def)
next
  case (Cons x evs)
  from Cons.prems(1) obtain S1 d1 l1 where step: "connect_event E h ((S, d), l) x = Inr ((S1, d1), l1)"
    and rest: "fold_res (connect_event E h) ((S1, d1), l1) evs = Inr ((S', d'), l')"
    by (auto simp: result_simps)
  obtain ev e where x: "x = (ev, e)" by (cases x)
  show ?case
  proof (cases e)
    case (DepositEvent dep)
    let ?op = "Deposit (dep_txid dep) (dep_vout dep)"
    have S1: "S1 = S\<lparr>utxos := fmupd (out_point_key ?op) (dep_output dep) (utxos S)\<rparr>"
      using step by (simp add: connect_event_def x DepositEvent Let_def)
    have deps: "deposits_of (x # evs) = (out_point_key ?op, dep_output dep) # deposits_of evs"
      by (simp add: deposits_of_def x DepositEvent)
    have "recorded S (out_point_key ?op) = None" using Cons.prems(4) by (simp add: deps)
    note dep = deposit_inv [OF Cons.prems(2) this S1]
    have new: "out_point_key ?op \<notin> fst ` set (deposits_of evs)"
      using Cons.prems(3) by (simp add: deps)
    then have "peg_inv S' \<and> recorded S' = recorded S1 ++ map_of (deposits_of evs)"
      using Cons.prems(3,4) by (intro Cons.IH [OF rest dep(1)]) (force simp: deps dep(2))+
    moreover have "map_of (deposits_of evs) (out_point_key ?op) = None"
      using new by (simp add: map_of_eq_None_iff)
    ultimately show ?thesis by (auto simp: deps dep(2) map_add_def fun_eq_iff split: option.splits)
  next
    case (WithdrawalBundleEvent m6id es)
    then have conn: "connect_withdrawal_bundle_event E h ev m6id es (S, d) = Inr (S1, d1)"
      using step by (auto simp: connect_event_def x result_simps)
    have deps: "deposits_of (x # evs) = deposits_of evs"
      by (simp add: deposits_of_def x WithdrawalBundleEvent)
    from bundle_event_inv [OF Cons.prems(2) conn] Cons.prems(3,4) Cons.IH [OF rest] show ?thesis
      by (simp add: deps)
  qed
qed

lemma store_pending_inv:
  assumes "peg_inv S" "pending_withdrawal_bundle S = None" "entries_recorded S (wb_spend_utxos b)"
    and "store_pending E h b S = Inr S'"
  shows "peg_inv S' \<and> recorded S' = recorded S"
proof -
  note inv = assms(1) [unfolded peg_inv_def]
  obtain status where S': "S' = (put_bundle (compute_m6id E b) (Known b, status) S)
      \<lparr>pending_withdrawal_bundle := Some (compute_m6id E b)\<rparr>" and lat: "latest_status status = Pending"
    using assms(4) rb_push_expect_latest
    by (fastforce simp: store_pending_def result_simps Let_def rb_latest_new split: option.splits)
  have rec_eq: "recorded S' = recorded S" by (simp add: S')
  have "bundles_recorded S'"
    using inv assms(3) by (intro bundles_recorded_put [OF _ rec_eq, of "compute_m6id E b" "Known b" status])
      (auto simp: S')
  moreover have "bundles_spent S'"
    using inv lat by (intro bundles_spent_put [of S S' "compute_m6id E b" "Known b" status]) (auto simp: S')
  moreover have "pending_ok S'"
  proof (rule pending_okI)
    show "pending_withdrawal_bundle S' = Some m"
      if "fmlookup (withdrawal_bundles S') m = Some (i, s)" "latest_status s = Pending" for m i s
      using that inv assms(2) pending_okD(1) [of S m i s] by (auto simp: S' split: if_splits)
    show "\<exists>b s. fmlookup (withdrawal_bundles S') m = Some (Known b, s) \<and> latest_status s = Pending"
      if "pending_withdrawal_bundle S' = Some m" for m
      using that lat by (auto simp: S')
  qed
  ultimately show ?thesis using inv rec_eq by (simp add: peg_inv_def S')
qed

lemma propose_bundle_inv:
  assumes "peg_inv S" "propose_bundle E h S = Inr S'"
  shows "peg_inv S' \<and> recorded S' = recorded S"
proof (cases "S' = S")
  case True
  with assms(1) show ?thesis by simp
next
  case False
  with assms(2) obtain b where b: "pending_withdrawal_bundle S = None"
      "collect_withdrawal_bundle E S h = Inr (Some b)" "store_pending E h b S = Inr S'"
    by (auto simp: propose_bundle_def result_simps split: if_splits option.splits)
  have "utxo_keys_ok S" using assms(1) by (simp add: peg_inv_def)
  from collect_conserves [OF this b(2)] have "entries_recorded S (wb_spend_utxos b)"
    by (auto simp: entries_recorded_def recorded_def)
  from store_pending_inv [OF assms(1) b(1) this b(3)] show ?thesis .
qed

lemma record_blocks_frame:
  assumes "record_blocks h l S = Inr S'"
  shows "utxos S' = utxos S" "stxos S' = stxos S" "withdrawal_bundles S' = withdrawal_bundles S"
    "pending_withdrawal_bundle S' = pending_withdrawal_bundle S"
  using assms by (auto simp: record_blocks_def result_simps split: option.splits)

lemma connect_peg_data_inv:
  assumes "peg_inv S" "connect_two_way_peg_data E data S = Inr (S', acc)"
    and "distinct (map fst (deposits_of (peg_events data)))"
    and "\<forall>k\<in>fst ` set (deposits_of (peg_events data)). recorded S k = None"
  shows "peg_inv S' \<and> recorded S' = recorded S ++ map_of (deposits_of (peg_events data))"
proof -
  from assms(2) obtain h S1 d1 l1 S2 S3 where
    evs: "fold_res (connect_event E h) ((S, diff_default), no_latest) (peg_events data) = Inr ((S1, d1), l1)"
    and blocks: "record_blocks h l1 S1 = Inr S2" and proposal: "propose_bundle E h S2 = Inr S3"
    and S': "S' = S3\<lparr>utreexo_accumulator := Some acc\<rparr>"
    by (auto simp: connect_two_way_peg_data_def result_simps)
  note r1 = connect_events_inv [OF evs assms(1,3,4)]
  note f = record_blocks_frame [OF blocks]
  have S2: "peg_inv S2" "recorded S2 = recorded S1"
    using r1 peg_inv_frame [OF f] recorded_frame [OF f(1,2)] by simp_all
  have "peg_inv S3" "recorded S3 = recorded S2"
    using propose_bundle_inv [OF S2(1) proposal] by simp_all
  moreover have "peg_inv S' = peg_inv S3" "recorded S' = recorded S3"
    by (rule peg_inv_frame; simp add: S') (rule recorded_frame; simp add: S')
  ultimately show ?thesis using r1 S2(2) by simp
qed

text \<open>
  C21. Connecting two-way peg data keeps the invariant of the peg, and the outputs recorded
  afterwards are exactly the outputs recorded before and the deposits of the connected mainchain
  blocks, given that these deposits are new.
\<close>

theorem connect_two_way_peg_data_inv:
  assumes "peg_inv S" "connect_two_way_peg_data E data S = Inr (S', acc)"
    and "distinct (map fst (deposits_of (peg_events data)))"
    and "\<forall>k\<in>fst ` set (deposits_of (peg_events data)). recorded S k = None"
  shows "peg_inv S' \<and> recorded S' = recorded S ++ map_of (deposits_of (peg_events data))"
  using connect_peg_data_inv [OF assms] .

end
