(* ===== verification/Peg_Undo.thy ===== *)
theory Peg_Undo
  imports Peg_Invariant
begin

text \<open>
  Disconnecting a withdrawal bundle event undoes connecting it.
\<close>

section \<open>Spending and restoring are inverse\<close>

lemma puts_rev: "distinct (map fst xs) \<Longrightarrow> puts (rev xs) m = puts xs m"
proof (rule fmap_ext)
  fix k
  assume dist: "distinct (map fst xs)"
  then have rev: "distinct (map fst (rev xs))" by (simp add: rev_map [symmetric])
  have "map_of (rev xs) = map_of xs" by (simp add: map_of_inject_set [OF rev dist])
  then show "fmlookup (puts (rev xs) m) k = fmlookup (puts xs m) k"
    by (simp add: lookup_puts_distinct [OF rev] lookup_puts_distinct [OF dist])
qed

lemma drops_rev: "drops (rev ks) m = drops ks m"
  by (rule fmap_ext) (simp add: lookup_drops)

lemma distinct_entries:
  fixes m :: "(out_point, tx_output) fmap"
  shows "distinct (map fst (map (\<lambda>(op, out). (out_point_key op, f out)) (sorted_list_of_fmap m)))"
proof -
  have "map fst (map (\<lambda>(op, out). (out_point_key op, f out)) (sorted_list_of_fmap m)) = keys_of m"
    by (auto simp: keys_of_def)
  then show ?thesis by (simp only: distinct_keys)
qed

lemma restore_spent_ok:
  assumes "distinct (map (\<lambda>(op, out). out_point_key op) xs)"
    and "\<And>op out. (op, out) \<in> set xs \<Longrightarrow> has_key (stxos X) (out_point_key op)"
  shows "\<exists>e'. fold_res (restore_spent E) (X, e) xs =
    Inr (X\<lparr>utxos := puts (map (\<lambda>(op, out). (out_point_key op, out)) xs) (utxos X),
           stxos := drops (map (\<lambda>(op, out). out_point_key op) xs) (stxos X)\<rparr>, e')"
  using assms
proof (induction xs arbitrary: X e)
  case Nil
  then show ?case by simp
next
  case (Cons x xs)
  obtain op out where x: "x = (op, out)" by (cases x)
  let ?X = "X\<lparr>stxos := fmdrop (out_point_key op) (stxos X), utxos := fmupd (out_point_key op) out (utxos X)\<rparr>"
  have k: "has_key (stxos X) (out_point_key op)" using Cons.prems(2) [of op out] x by simp
  have "has_key (stxos ?X) (out_point_key op')" if "(op', out') \<in> set xs" for op' out'
  proof -
    have "out_point_key op' \<noteq> out_point_key op" using Cons.prems(1) x that by force
    with Cons.prems(2) [of op' out'] that show ?thesis by simp
  qed
  from Cons.IH [of ?X "diff_insert (pointed_output_hash E op out) e", OF _ this] Cons.prems(1) x k
  show ?case by (auto simp: restore_spent_def restore_withdrawal_def Let_def)
qed

lemma restore_bundle_ok:
  assumes "\<And>op out. fmlookup m op = Some out \<Longrightarrow> has_key (stxos X) (out_point_key op)"
  shows "\<exists>e'. fold_res (restore_spent E) (X, e) (sorted_list_of_fmap m) = Inr (restore_entries m X, e')"
    "\<exists>e'. fold_res (restore_spent E) (X, e) (rev (sorted_list_of_fmap m)) = Inr (restore_entries m X, e')"
  using restore_spent_ok [of "sorted_list_of_fmap m" X E e] restore_spent_ok [of "rev (sorted_list_of_fmap m)" X E e]
    distinct_keys [of m] distinct_entries [of "\<lambda>x. x" m] assms
  by (auto simp: in_sorted_list_of_fmap restore_entries_def keys_of_def rev_map [symmetric] puts_rev drops_rev)

lemma spend_withdrawals_ok:
  assumes "distinct (map (\<lambda>(op, out). out_point_key op) xs)"
    and "\<And>op out. (op, out) \<in> set xs \<Longrightarrow> has_key (utxos X) (out_point_key op)"
  shows "\<exists>e'. fold_res (spend_withdrawal E err m6id) (X, e) xs =
    Inr (X\<lparr>utxos := drops (map (\<lambda>(op, out). out_point_key op) xs) (utxos X),
           stxos := puts (map (\<lambda>(op, out). (out_point_key op, spent_by m6id out)) xs) (stxos X)\<rparr>, e')"
  using assms
proof (induction xs arbitrary: X e)
  case Nil
  then show ?case by simp
next
  case (Cons x xs)
  obtain op out where x: "x = (op, out)" by (cases x)
  let ?X = "X\<lparr>utxos := fmdrop (out_point_key op) (utxos X),
     stxos := fmupd (out_point_key op) (spent_by m6id out) (stxos X)\<rparr>"
  have k: "has_key (utxos X) (out_point_key op)" using Cons.prems(2) [of op out] x by simp
  have "has_key (utxos ?X) (out_point_key op')" if "(op', out') \<in> set xs" for op' out'
  proof -
    have "out_point_key op' \<noteq> out_point_key op" using Cons.prems(1) x that by force
    with Cons.prems(2) [of op' out'] that show ?thesis by simp
  qed
  from Cons.IH [of ?X "diff_remove (pointed_output_hash E op out) e", OF _ this] Cons.prems(1) x k
  show ?case by (auto simp: spend_withdrawal_def Let_def)
qed

lemma spend_bundle_ok:
  assumes "\<And>op out. fmlookup m op = Some out \<Longrightarrow> has_key (utxos X) (out_point_key op)"
  shows "\<exists>e'. fold_res (spend_withdrawal E err m6id) (X, e) (rev (sorted_list_of_fmap m))
    = Inr (spend_entries m6id m X, e')"
  using spend_withdrawals_ok [of "rev (sorted_list_of_fmap m)" X E err m6id e]
    distinct_keys [of m] distinct_entries [of "spent_by m6id" m] assms
  by (auto simp: in_sorted_list_of_fmap spend_entries_def keys_of_def rev_map [symmetric] puts_rev drops_rev)

lemma restore_spend_entries:
  assumes "\<And>op out. fmlookup m op = Some out \<Longrightarrow> fmlookup (utxos S) (out_point_key op) = Some out
      \<and> fmlookup (stxos S) (out_point_key op) = None"
  shows "utxos (restore_entries m (spend_entries m6id m S)) = utxos S"
    "stxos (restore_entries m (spend_entries m6id m S)) = stxos S"
proof -
  show "utxos (restore_entries m (spend_entries m6id m S)) = utxos S"
  proof (rule fmap_ext)
    fix k
    show "fmlookup (utxos (restore_entries m (spend_entries m6id m S))) k = fmlookup (utxos S) k"
      using assms by (cases "k \<in> set (keys_of m)")
        (auto simp: restore_entries_lookup spend_entries_lookup set_keys_of)
  qed
  show "stxos (restore_entries m (spend_entries m6id m S)) = stxos S"
  proof (rule fmap_ext)
    fix k
    show "fmlookup (stxos (restore_entries m (spend_entries m6id m S))) k = fmlookup (stxos S) k"
      using assms by (cases "k \<in> set (keys_of m)")
        (auto simp: restore_entries_lookup spend_entries_lookup set_keys_of)
  qed
qed

lemma spend_restore_entries:
  assumes "\<And>op out. fmlookup m op = Some out \<Longrightarrow> fmlookup (utxos S) (out_point_key op) = None
      \<and> fmlookup (stxos S) (out_point_key op) = Some (spent_by m6id out)"
  shows "utxos (spend_entries m6id m (restore_entries m S)) = utxos S"
    "stxos (spend_entries m6id m (restore_entries m S)) = stxos S"
proof -
  show "utxos (spend_entries m6id m (restore_entries m S)) = utxos S"
  proof (rule fmap_ext)
    fix k
    show "fmlookup (utxos (spend_entries m6id m (restore_entries m S))) k = fmlookup (utxos S) k"
      using assms by (cases "k \<in> set (keys_of m)")
        (auto simp: restore_entries_lookup spend_entries_lookup set_keys_of)
  qed
  show "stxos (spend_entries m6id m (restore_entries m S)) = stxos S"
  proof (rule fmap_ext)
    fix k
    show "fmlookup (stxos (spend_entries m6id m (restore_entries m S))) k = fmlookup (stxos S) k"
      using assms by (cases "k \<in> set (keys_of m)")
        (auto simp: restore_entries_lookup spend_entries_lookup set_keys_of)
  qed
qed

section \<open>Undoing an event\<close>

text \<open>The status an event leads to; an event that finds it in place has been applied already.\<close>

fun event_target :: "withdrawal_bundle_event_status \<Rightarrow> withdrawal_bundle_status" where
  "event_target EvConfirmed = Confirmed"
| "event_target EvFailed = Failed"
| "event_target EvSubmitted = Submitted"

lemma recorded_unspent:
  assumes "peg_inv S" "entries_recorded S m"
    and "\<And>op out. fmlookup m op = Some out \<Longrightarrow> has_key (utxos S) (out_point_key op)"
    and "fmlookup m op = Some out"
  shows "fmlookup (utxos S) (out_point_key op) = Some out \<and> fmlookup (stxos S) (out_point_key op) = None"
proof -
  from assms(3) [OF assms(4)] obtain out' where out': "fmlookup (utxos S) (out_point_key op) = Some out'" by auto
  moreover have "recorded S (out_point_key op) = Some out" using assms(2,4) by (auto simp: entries_recorded_def)
  ultimately have "out' = out" by (simp add: recorded_def)
  moreover have "fmlookup (stxos S) (out_point_key op) = None"
    using assms(1) out' unfolding peg_inv_def disjoint_dbs_def by (metis option.distinct(1))
  ultimately show ?thesis using out' by simp
qed

lemma undo_submitted:
  assumes inv: "peg_inv S" and conn: "connect_withdrawal_bundle_submitted E h ev m6id (S, d) = Inr (S', d')"
  shows "\<exists>e'. disconnect_withdrawal_bundle_submitted E h m6id (S', e) = Inr (S, e')"
proof (cases "pending_withdrawal_bundle S = Some m6id")
  case True
  from pending_okD(2) [OF _ True] inv obtain b status where
    b: "fmlookup (withdrawal_bundles S) m6id = Some (Known b, status)" "latest_status status = Pending"
    by (auto simp: peg_inv_def)
  with conn True obtain S1 d1 status' where
    sp: "fold_res (spend_withdrawal E SubNoUtxo m6id) (S, d) (spends b) = Inr (S1, d1)"
    and st: "rb_push_expect status Submitted h = (Inr status' :: (submitted_error, withdrawal_bundle_status rollback) result)"
    and S': "S' = (put_bundle m6id (Known b, status') S1)\<lparr>pending_withdrawal_bundle := None\<rparr>"
    by (auto simp: connect_withdrawal_bundle_submitted_def result_simps)
  let ?m = "wb_spend_utxos b"
  note unspent = recorded_unspent [OF inv known_recorded [OF inv b(1)] spend_bundle_Inr(2) [OF sp]]
  have S1: "S1 = spend_entries m6id ?m S" by (rule spend_bundle_Inr(1) [OF sp])
  have "\<exists>e'. fold_res (restore_spent E) (S', e) (rev (spends b)) = Inr (restore_entries ?m S', e')"
    by (rule restore_bundle_ok(2)) (simp add: S' S1 spend_entries_lookup)
  then obtain e' where
    rest: "fold_res (restore_spent E) (S', e) (rev (spends b)) = Inr (restore_entries ?m S', e')" by blast
  have "utxos (restore_entries ?m S') = utxos S" "stxos (restore_entries ?m S') = stxos S"
    using restore_spend_entries [OF unspent, where m6id = m6id] by (simp_all add: S' S1 restore_entries_def)
  then have "put_bundle m6id (Known b, status) ((restore_entries ?m S')\<lparr>pending_withdrawal_bundle := Some m6id\<rparr>) = S"
    using True b(1) by (simp add: S' S1 restore_entries_def spend_entries_def db_simps)
  with rest rb_push_expect_pop [OF st] b(2) show ?thesis
    by (simp add: disconnect_withdrawal_bundle_submitted_def S' is_submitted_def put_or_delete_bundle_def)
next
  case False
  show ?thesis
  proof (cases "fmlookup (withdrawal_bundles S) m6id")
    case None
    have S': "S' = put_bundle m6id (Unknown, rb_new Submitted h) S"
      using conn False None by (simp add: connect_withdrawal_bundle_submitted_def)
    from None show ?thesis
      by (simp add: disconnect_withdrawal_bundle_submitted_def S' rb_new_def is_submitted_def
          put_or_delete_bundle_def db_simps)
  next
    case (Some x)
    obtain info status where x: "x = (info, status)" by (cases x)
    with conn False Some obtain status' where
      st: "rb_push_expect status SubmittedUnexpected h = (Inr status' :: (submitted_error, withdrawal_bundle_status rollback) result)"
      and S': "S' = put_bundle m6id (info, status') S"
      by (auto simp: connect_withdrawal_bundle_submitted_def result_simps)
    have "latest_status status \<noteq> Pending"
      using pending_okD(1) [of S m6id info status] inv Some x False by (auto simp: peg_inv_def)
    with rb_push_expect_pop [OF st] Some x show ?thesis
      by (cases info) (simp_all add: disconnect_withdrawal_bundle_submitted_def S' is_submitted_def
          put_or_delete_bundle_def db_simps)
  qed
qed

lemma undo_confirmed:
  assumes inv: "peg_inv S" and conn: "connect_withdrawal_bundle_confirmed E h ev m6id (S, d) = Inr (S', d')"
    and x: "fmlookup (withdrawal_bundles S) m6id = Some (info, status)" and new: "latest_status status \<noteq> Confirmed"
  shows "\<exists>e'. disconnect_withdrawal_bundle_confirmed E h m6id (S', e) = Inr (S, e')"
proof -
  note run = conn [unfolded connect_withdrawal_bundle_confirmed_def] x new
  from run have sub: "is_submitted (latest_status status)" by (auto simp: result_simps)
  have finish: ?thesis if st: "rb_push_expect status Confirmed h = (Inr status' :: withdrawal_bundle_status rollback state_result)"
    and S': "S' = put_bundle m6id (info', status') S1"
    and undo: "(case info' of
             Known bundle \<Rightarrow>
               map_ok (\<lambda>st. (st, info'))
                 (if latest_status status = SubmittedUnexpected
                  then fold_res (restore_spent E) (S', e) (spends bundle) else Inr (S', e))
           | UnknownConfirmed all \<Rightarrow>
               map_ok (\<lambda>st. (st, Unknown)) (fold_res (restore_spent E) (S', e) (sorted_list_of_fmap all))
           | Unknown \<Rightarrow> Inr ((S', e), info')) = Inr ((X, e'), info)"
      "put_bundle m6id (info, status) X = S" for info' status' S1 X e'
  proof -
    have "fmlookup (withdrawal_bundles S') m6id = Some (info', status')" by (simp add: S')
    then have "disconnect_withdrawal_bundle_confirmed E h m6id (S', e) = Inr (S, e')"
      using rb_push_expect_pop [OF st] sub
      by (simp add: disconnect_withdrawal_bundle_confirmed_def undo is_submitted_def)
    then show ?thesis by blast
  qed
  show ?thesis
  proof (cases info)
    case (Known b)
    let ?m = "wb_spend_utxos b"
    from Known run obtain S1 d1 status' where
      S1: "(if latest_status status = SubmittedUnexpected
        then fold_res (spend_withdrawal E (UnexpectedWithdrawalBundleInsolvency ev m6id) m6id) (S, d) (spends b)
        else Inr (S, d)) = Inr (S1, d1)"
      and st: "rb_push_expect status Confirmed h = (Inr status' :: withdrawal_bundle_status rollback state_result)"
      and S': "S' = put_bundle m6id (info, status') S1"
      by (auto simp: result_simps)
    show ?thesis
    proof (cases "latest_status status = SubmittedUnexpected")
      case True
      with S1 have sp: "fold_res (spend_withdrawal E (UnexpectedWithdrawalBundleInsolvency ev m6id) m6id)
          (S, d) (spends b) = Inr (S1, d1)" by simp
      have S1: "S1 = spend_entries m6id ?m S" by (rule spend_bundle_Inr(1) [OF sp])
      note unspent = recorded_unspent [OF inv known_recorded [OF inv x [unfolded Known]] spend_bundle_Inr(2) [OF sp]]
      have "\<exists>e'. fold_res (restore_spent E) (S', e) (spends b) = Inr (restore_entries ?m S', e')"
        by (rule restore_bundle_ok(1)) (simp add: S' S1 spend_entries_lookup)
      then obtain e' where
        rest: "fold_res (restore_spent E) (S', e) (spends b) = Inr (restore_entries ?m S', e')" by blast
      have "utxos (restore_entries ?m S') = utxos S" "stxos (restore_entries ?m S') = stxos S"
        using restore_spend_entries [OF unspent, where m6id = m6id] by (simp_all add: S' S1 restore_entries_def)
      then have eq: "put_bundle m6id (info, status) (restore_entries ?m S') = S"
        using x by (simp add: S' S1 restore_entries_def spend_entries_def db_simps)
      show ?thesis by (rule finish [OF st S' _ eq]) (simp add: rest True Known)
    next
      case False
      with S1 have "S1 = S" by simp
      with x S' have eq: "put_bundle m6id (info, status) S' = S" by (simp add: db_simps)
      show ?thesis by (rule finish [OF st S' _ eq]) (simp add: False Known)
    qed
  next
    case Unknown
    with run obtain S1 d1 all status' where
      S1: "spend_all E m6id (S, d) = Inr ((S1, d1), all)"
      and st: "rb_push_expect status Confirmed h = (Inr status' :: withdrawal_bundle_status rollback state_result)"
      and S': "S' = put_bundle m6id (UnknownConfirmed all, status') S1"
      by (auto simp: result_simps split: if_splits)
    have "utxo_keys_ok S" using inv by (simp add: peg_inv_def)
    note all = spend_all_Inr [OF this S1]
    have unspent: "fmlookup (utxos S) (out_point_key op) = Some out \<and> fmlookup (stxos S) (out_point_key op) = None"
      if "fmlookup all op = Some out" for op out
      using inv that unfolding peg_inv_def disjoint_dbs_def all(2) by (metis option.distinct(1))
    have "\<exists>e'. fold_res (restore_spent E) (S', e) (sorted_list_of_fmap all) = Inr (restore_entries all S', e')"
      by (rule restore_bundle_ok(1)) (simp add: S' all(1) spend_entries_lookup)
    then obtain e' where
      rest: "fold_res (restore_spent E) (S', e) (sorted_list_of_fmap all) = Inr (restore_entries all S', e')" by blast
    have "utxos (restore_entries all S') = utxos S" "stxos (restore_entries all S') = stxos S"
      using restore_spend_entries [OF unspent, where m6id = m6id] by (simp_all add: S' all(1) restore_entries_def)
    then have eq: "put_bundle m6id (info, status) (restore_entries all S') = S"
      using x by (simp add: S' all(1) restore_entries_def spend_entries_def db_simps)
    show ?thesis by (rule finish [OF st S' _ eq]) (simp add: rest Unknown)
  next
    case (UnknownConfirmed m)
    with run show ?thesis by (auto simp: result_simps)
  qed
qed

lemma push_pop_latest_failed:
  assumes "push_latest_failed h m6id S = Inr S1"
  shows "\<exists>r. S1 = S\<lparr>latest_failed_withdrawal_bundle := Some r\<rparr>
    \<and> rb_pop r = (latest_failed_withdrawal_bundle S, \<lparr>hs_value = m6id, hs_height = h\<rparr>)"
  using assms rb_push_expect_pop
  by (cases "latest_failed_withdrawal_bundle S")
    (fastforce simp: push_latest_failed_def result_simps rb_new_def)+

lemma undo_failed:
  assumes inv: "peg_inv S" and conn: "connect_withdrawal_bundle_failed E h m6id (S, d) = Inr (S', d')"
    and x: "fmlookup (withdrawal_bundles S) m6id = Some (info, status)" and new: "latest_status status \<noteq> Failed"
  shows "\<exists>e'. disconnect_withdrawal_bundle_failed E h m6id (S', e) = Inr (S, e')"
proof -
  note run = conn [unfolded connect_withdrawal_bundle_failed_def] x new
  from run have sub: "is_submitted (latest_status status)" by (auto simp: result_simps)
  show ?thesis
  proof (cases "\<exists>b. info = Known b \<and> latest_status status = Submitted")
    case True
    then obtain b where b: "info = Known b" "latest_status status = Submitted" by blast
    let ?m = "wb_spend_utxos b"
    from b run obtain status' S1 where
      st: "rb_push_expect status Failed h = (Inr status' :: withdrawal_bundle_status rollback state_result)"
      and S1: "push_latest_failed h m6id (restore_entries ?m S) = Inr S1"
      and S': "S' = put_bundle m6id (info, status') S1"
      by (auto simp: result_simps restore_fold restore_entries_def keys_of_def)
    from push_pop_latest_failed [OF S1] obtain r where
      r: "S1 = (restore_entries ?m S)\<lparr>latest_failed_withdrawal_bundle := Some r\<rparr>"
        "rb_pop r = (latest_failed_withdrawal_bundle (restore_entries ?m S), \<lparr>hs_value = m6id, hs_height = h\<rparr>)"
      by blast
    have spent: "fmlookup (utxos S) (out_point_key op) = None
        \<and> fmlookup (stxos S) (out_point_key op) = Some (spent_by m6id out)" if "fmlookup ?m op = Some out" for op out
    proof -
      have "fmlookup (stxos S) (out_point_key op) = Some (spent_by m6id out)"
        using inv x b that unfolding peg_inv_def bundles_spent_def spent_for_def by blast
      with inv show ?thesis unfolding peg_inv_def disjoint_dbs_def by (metis option.distinct(1))
    qed
    have "\<exists>e'. fold_res (spend_withdrawal E NoUtxo m6id) (S', e) (rev (spends b)) = Inr (spend_entries m6id ?m S', e')"
      by (rule spend_bundle_ok) (simp add: S' r(1) restore_entries_lookup)
    then obtain e' where
      rest: "fold_res (spend_withdrawal E NoUtxo m6id) (S', e) (rev (spends b)) = Inr (spend_entries m6id ?m S', e')"
      by blast
    have "utxos (spend_entries m6id ?m S') = utxos S" "stxos (spend_entries m6id ?m S') = stxos S"
      using spend_restore_entries [OF spent] by (simp_all add: S' r(1) spend_entries_def)
    then have "put_bundle m6id (info, status) ((spend_entries m6id ?m S')
        \<lparr>latest_failed_withdrawal_bundle := latest_failed_withdrawal_bundle S\<rparr>) = S"
      using x by (simp add: S' r(1) restore_entries_def spend_entries_def db_simps)
    moreover have "pop_latest_failed h m6id (spend_entries m6id ?m S') = Inr ((spend_entries m6id ?m S')
        \<lparr>latest_failed_withdrawal_bundle := latest_failed_withdrawal_bundle S\<rparr>)"
      using r(2) by (simp add: pop_latest_failed_def S' r(1) spend_entries_def restore_entries_def)
    ultimately show ?thesis
      using rest rb_push_expect_pop [OF st] b
      by (auto simp: disconnect_withdrawal_bundle_failed_def S' is_submitted_def)
  next
    case False
    with run sub obtain status' where S': "S' = put_bundle m6id (info, status') S"
      and st: "rb_push_expect status Failed h = (Inr status' :: withdrawal_bundle_status rollback state_result)"
      by (cases info) (auto simp: result_simps is_submitted_def)
    with rb_push_expect_pop [OF st] sub x False show ?thesis
      by (cases info) (auto simp: disconnect_withdrawal_bundle_failed_def is_submitted_def db_simps)
  qed
qed

text \<open>
  C34. Disconnecting a withdrawal bundle event right after connecting it, at the same height,
  succeeds and restores the state exactly, for every kind of event and every kind of bundle,
  unless the event had been applied before.
\<close>

theorem disconnect_bundle_event_undoes:
  assumes "peg_inv S" "connect_withdrawal_bundle_event E h ev m6id event_status (S, d) = Inr (S', d')"
    and "\<forall>info status. fmlookup (withdrawal_bundles S) m6id = Some (info, status)
      \<longrightarrow> latest_status status \<noteq> event_target event_status"
  shows "\<exists>e'. disconnect_withdrawal_bundle_event E h m6id event_status (S', e) = Inr (S, e')"
proof (cases event_status)
  case EvSubmitted
  with assms undo_submitted [OF assms(1), of E h ev m6id d S' d' e] show ?thesis
    by (auto simp: connect_withdrawal_bundle_event_def disconnect_withdrawal_bundle_event_def result_simps)
next
  case EvConfirmed
  then have conn: "connect_withdrawal_bundle_confirmed E h ev m6id (S, d) = Inr (S', d')"
    using assms(2) by (simp add: connect_withdrawal_bundle_event_def)
  then obtain info status where x: "fmlookup (withdrawal_bundles S) m6id = Some (info, status)"
    by (auto simp: connect_withdrawal_bundle_confirmed_def result_simps)
  from undo_confirmed [OF assms(1) conn x] assms(3) x EvConfirmed show ?thesis
    by (simp add: disconnect_withdrawal_bundle_event_def)
next
  case EvFailed
  then have conn: "connect_withdrawal_bundle_failed E h m6id (S, d) = Inr (S', d')"
    using assms(2) by (simp add: connect_withdrawal_bundle_event_def)
  then obtain info status where x: "fmlookup (withdrawal_bundles S) m6id = Some (info, status)"
    by (auto simp: connect_withdrawal_bundle_failed_def result_simps)
  from undo_failed [OF assms(1) conn x] assms(3) x EvFailed show ?thesis
    by (simp add: disconnect_withdrawal_bundle_event_def)
qed

section \<open>Examples\<close>

definition pending_state :: "(hash list, cmx list) state" where
  "pending_state = withdrawal_state\<lparr>pending_withdrawal_bundle := Some (M6id 3),
     withdrawal_bundles := fmap_of_list [(M6id 3, (Known example_bundle, rb_new Pending 7))]\<rparr>"

lemma pending_peg_inv: "peg_inv pending_state"
  by (auto simp: peg_inv_def disjoint_dbs_def utxo_keys_ok_def bundles_recorded_def entries_recorded_def
      bundles_spent_def pending_ok_def pending_state_def withdrawal_state_def example_bundle_def recorded_def
      rb_latest_new split: if_splits)

lemma spends_example: "spends example_bundle = [(Deposit 1 0, example_withdrawal)]"
  by (simp add: example_bundle_def sorted_list_of_fmap_def sorted_list_of_fset.rep_eq)

lemma example_submitted:
  "\<exists>S' d'. connect_withdrawal_bundle_event example_ext 8 (MainHash 2) (M6id 3) EvSubmitted
     (pending_state, diff_default) = Inr (S', d')"
  by (simp add: connect_withdrawal_bundle_event_def connect_withdrawal_bundle_submitted_def pending_state_def
      spends_example spend_withdrawal_def withdrawal_state_def rb_push_expect_def rb_new_def Let_def)

theorem bundle_event_conserves_witness:
  "peg_inv pending_state
   \<and> (\<exists>S' d'. connect_withdrawal_bundle_event example_ext 8 (MainHash 2) (M6id 3) EvSubmitted
         (pending_state, diff_default) = Inr (S', d')
       \<and> recorded S' = recorded pending_state \<and> peg_inv S')"
  using example_submitted pending_peg_inv bundle_event_conserves [OF pending_peg_inv] by metis

theorem disconnect_bundle_event_undoes_witness:
  "\<exists>S' d' e'. connect_withdrawal_bundle_event example_ext 8 (MainHash 2) (M6id 3) EvSubmitted
       (pending_state, diff_default) = Inr (S', d')
     \<and> disconnect_withdrawal_bundle_event example_ext 8 (M6id 3) EvSubmitted (S', diff_default)
       = Inr (pending_state, e')"
proof -
  from example_submitted obtain S' d' where
    ok: "connect_withdrawal_bundle_event example_ext 8 (MainHash 2) (M6id 3) EvSubmitted
      (pending_state, diff_default) = Inr (S', d')" by blast
  have "\<forall>info status. fmlookup (withdrawal_bundles pending_state) (M6id 3) = Some (info, status)
      \<longrightarrow> latest_status status \<noteq> event_target EvSubmitted"
    by (simp add: pending_state_def rb_latest_new)
  from disconnect_bundle_event_undoes [OF pending_peg_inv ok this, of diff_default] ok show ?thesis by blast
qed

text \<open>Two mainchain blocks with one deposit each.\<close>

definition example_deposit :: "hash \<Rightarrow> block_event" where
  "example_deposit txid = DepositEvent \<lparr>tx_index = 0, dep_txid = txid, dep_vout = 0, dep_output = example_output 9\<rparr>"

definition example_peg_data :: two_way_peg_data where
  "example_peg_data = [(MainHash 5, \<lparr>bmm_commitment = None, events = [example_deposit 10]\<rparr>),
     (MainHash 6, \<lparr>bmm_commitment = None, events = [example_deposit 11]\<rparr>)]"

definition low_state :: "(hash list, cmx list) state" where
  "low_state = withdrawal_state\<lparr>st_height := Some 1\<rparr>"

definition deposited_state :: "(hash list, cmx list) state" where
  "deposited_state = low_state\<lparr>
     utxos := fmupd (out_point_key (Deposit 11 0)) (example_output 9)
       (fmupd (out_point_key (Deposit 10 0)) (example_output 9) (utxos low_state)),
     deposit_blocks := fmap_of_list [(0, (MainHash 6, 1))],
     utreexo_accumulator := Some [78, 66]\<rparr>"

lemma deposit_hash: "pointed_output_hash example_ext (Deposit txid vout) (example_output v) = 66"
  by (simp add: pointed_output_hash_def example_ext_def ser_output_def example_output_def address_bytes_def)

lemma example_peg_connect:
  "connect_two_way_peg_data example_ext example_peg_data low_state = Inr (deposited_state, [78, 66])"
proof -
  have d: "diff_insert 66 (diff_insert 66 diff_default) = diff_insert 66 diff_default"
    by (simp add: diff_insert_def diff_default_def)
  have a: "apply_diff example_ext [78] (diff_insert 66 diff_default) = Some [78, 66]"
    by (simp add: apply_diff_def diff_insert_def diff_default_def example_ext_def)
  show ?thesis
    by (simp add: connect_two_way_peg_data_def low_state_def withdrawal_state_def peg_events_def
        example_peg_data_def example_deposit_def connect_event_def deposit_hash d record_blocks_def no_latest_def
        next_seq_idx_def db_last_def propose_bundle_def last_failure_height_def
        get_latest_failed_withdrawal_bundle_def sub_u32_def checked_sub_def WITHDRAWAL_BUNDLE_FAILURE_GAP_def a
        deposited_state_def sorted_list_of_fset.rep_eq Let_def)
qed

theorem connect_two_way_peg_data_inv_witness:
  "peg_inv low_state
   \<and> connect_two_way_peg_data example_ext example_peg_data low_state = Inr (deposited_state, [78, 66])
   \<and> peg_inv deposited_state"
proof -
  have inv: "peg_inv low_state"
    by (auto simp: peg_inv_def disjoint_dbs_def utxo_keys_ok_def bundles_recorded_def bundles_spent_def
        pending_ok_def low_state_def withdrawal_state_def split: if_splits)
  have deps: "deposits_of (peg_events example_peg_data) =
      [(out_point_key (Deposit 10 0), example_output 9), (out_point_key (Deposit 11 0), example_output 9)]"
    by (simp add: deposits_of_def peg_events_def example_peg_data_def example_deposit_def)
  have "peg_inv deposited_state"
    by (rule conjunct1 [OF connect_two_way_peg_data_inv [OF inv example_peg_connect]])
      (simp_all add: deps recorded_def low_state_def withdrawal_state_def)
  with inv example_peg_connect show ?thesis by blast
qed

text \<open>
  Two-way peg data with deposits in two mainchain blocks connects, but disconnecting it
  panics: the events are undone in reverse, so the block left in \<open>latest_deposit_block_hash\<close> is
  the first one, while the block recorded by \<open>connect\<close> is the last one.
\<close>

theorem disconnect_two_deposit_blocks_panics:
  "connect_two_way_peg_data example_ext example_peg_data low_state = Inr (deposited_state, [78, 66])
   \<and> disconnect_two_way_peg_data example_ext example_peg_data deposited_state = Inl Panic"
proof -
  have "disconnect_two_way_peg_data example_ext example_peg_data deposited_state = Inl Panic"
    by (simp add: disconnect_two_way_peg_data_def deposited_state_def low_state_def withdrawal_state_def
        peg_events_def example_peg_data_def example_deposit_def disconnect_event_def no_latest_def
        forget_block_def db_last_def withdraw_proposal_def last_failure_height_def
        get_latest_failed_withdrawal_bundle_def sub_u32_def checked_sub_def WITHDRAWAL_BUNDLE_FAILURE_GAP_def
        sorted_list_of_fset.rep_eq Let_def)
  with example_peg_connect show ?thesis by simp
qed

end
