(* ===== verification/Mempool.thy ===== *)
theory Mempool
  imports State
begin

text \<open>
  \<open>lib/mempool.rs\<close>: the pool of transactions that wait for a block, with the index of the out
  points they spend and of the nullifiers they use. The keys of its databases are injective
  encodings, and \<open>transactions\<close> is iterated in the order of the bytes of the ids. The invariant
  \<open>mempool_ok\<close> says that both indexes are exact; the relation \<open>mempool_child\<close> (a transaction of
  the pool spends an output of another) gives the specification of \<open>delete\<close>.
\<close>

section \<open>The pool\<close>

record 'pf mempool =
  mp_transactions :: "(txid, 'pf authorized_transaction) db"
  mp_spent_utxos :: "(out_point, txid) db"
  mp_used_nullifiers :: "(nullifier, txid) db"

datatype mempool_error =
    MpDb
  | MpNullifierDoubleSpent txid nullifier txid
  | MpUtreexo
  | MpUtxoDoubleSpent txid

definition mempool_new :: "'pf mempool" where
  "mempool_new = \<lparr>mp_transactions = fmempty, mp_spent_utxos = fmempty, mp_used_nullifiers = fmempty\<rparr>"

definition claim_input ::
  "txid \<Rightarrow> 'pf mempool \<Rightarrow> out_point \<times> hash \<Rightarrow> (mempool_error, 'pf mempool) result" where
  "claim_input txid M x =
     (if has_key (mp_spent_utxos M) (fst x) then Inl (Err (MpUtxoDoubleSpent txid))
      else Inr (M\<lparr>mp_spent_utxos := fmupd (fst x) txid (mp_spent_utxos M)\<rparr>))"

definition claim_nullifier ::
  "txid \<Rightarrow> 'pf mempool \<Rightarrow> nullifier \<Rightarrow> (mempool_error, 'pf mempool) result" where
  "claim_nullifier txid M n =
     (case fmlookup (mp_used_nullifiers M) n of
        Some old_txid \<Rightarrow> Inl (Err (MpNullifierDoubleSpent txid n old_txid))
      | None \<Rightarrow> Inr (M\<lparr>mp_used_nullifiers := fmupd n txid (mp_used_nullifiers M)\<rparr>))"

definition mempool_put ::
  "('acc, 'fr, 'pf) ext \<Rightarrow> 'pf mempool \<Rightarrow> 'pf authorized_transaction
    \<Rightarrow> (mempool_error, 'pf mempool) result" where
  "mempool_put E M at =
     (let txid = tx_txid E (transaction at)
      in if has_key (mp_transactions M) txid then Inr M
         else
           and_then (fold_res (claim_input txid) M (inputs (transaction at))) (\<lambda>M.
           and_then (fold_res (claim_nullifier txid) M (tx_nullifiers (transaction at))) (\<lambda>M.
           Inr (M\<lparr>mp_transactions := fmupd txid at (mp_transactions M)\<rparr>))))"

text \<open>
  One iteration of \<open>delete\<close> on a transaction of the pool: the pool without it, and the
  transactions that spend its outputs.
\<close>

definition remove_entry ::
  "'pf mempool \<Rightarrow> txid \<Rightarrow> 'pf transaction \<Rightarrow> 'pf mempool" where
  "remove_entry M txid tx =
     M\<lparr>mp_spent_utxos := drops (map fst (inputs tx)) (mp_spent_utxos M),
       mp_transactions := fmdrop txid (mp_transactions M),
       mp_used_nullifiers := drops (tx_nullifiers tx) (mp_used_nullifiers M)\<rparr>"

definition children_of :: "'pf mempool \<Rightarrow> txid \<Rightarrow> 'pf transaction \<Rightarrow> txid list" where
  "children_of M txid tx =
     List.map_filter (\<lambda>vout. fmlookup (drops (map fst (inputs tx)) (mp_spent_utxos M))
       (Regular txid (word_of_nat vout))) [0..<length (outputs tx)]"

text \<open>
  The queue may grow, but every transaction is removed at most once: the pool shrinks, or the
  queue does.
\<close>

function delete_loop :: "'pf mempool \<Rightarrow> txid list \<Rightarrow> 'pf mempool" where
  "delete_loop M [] = M"
| "delete_loop M (txid # pending) =
     (case fmlookup (mp_transactions M) txid of
        None \<Rightarrow> delete_loop M pending
      | Some at \<Rightarrow> delete_loop (remove_entry M txid (transaction at))
          (pending @ children_of M txid (transaction at)))"
  by pat_completeness auto
termination
proof (relation "measures [\<lambda>(M, _). fcard (fmdom (mp_transactions M)), \<lambda>(_, pending). length pending]")
  fix M :: "'pf mempool" and txid pending at
  assume "fmlookup (mp_transactions M) txid = Some at"
  then have "txid |\<in>| fmdom (mp_transactions M)" by (simp add: fmdomI)
  then have "fcard (fmdom (mp_transactions M) |-| {|txid|}) < fcard (fmdom (mp_transactions M))"
    by (intro pfsubset_fcard_mono) auto
  then show "((remove_entry M txid (transaction at), pending @ children_of M txid (transaction at)),
      M, txid # pending)
    \<in> measures [\<lambda>(M, _). fcard (fmdom (mp_transactions M)), \<lambda>(_, pending). length pending]"
    by (simp add: remove_entry_def)
qed simp_all

definition mempool_delete :: "'pf mempool \<Rightarrow> txid \<Rightarrow> 'pf mempool" where
  "mempool_delete M txid = delete_loop M [txid]"

definition mempool_take_all :: "'pf mempool \<Rightarrow> 'pf authorized_transaction list" where
  "mempool_take_all M = map snd (sorted_list_of_fmap (mp_transactions M))"

definition mempool_take :: "'pf mempool \<Rightarrow> nat \<Rightarrow> 'pf authorized_transaction list" where
  "mempool_take M number = map snd (take number (sorted_list_of_fmap (mp_transactions M)))"

definition mp_regenerate_proof ::
  "('acc, 'fr, 'pf) ext \<Rightarrow> 'acc \<Rightarrow> 'pf mempool \<Rightarrow> txid \<Rightarrow> (mempool_error, 'pf mempool) result" where
  "mp_regenerate_proof E accumulator M txid =
     and_then (ok_or MpDb (fmlookup (mp_transactions M) txid)) (\<lambda>at.
     and_then (ok_or MpUtreexo (forest_prove E accumulator (map snd (inputs (transaction at))))) (\<lambda>p.
     Inr (M\<lparr>mp_transactions :=
       fmupd txid (at\<lparr>transaction := (transaction at)\<lparr>utreexo_proof := p\<rparr>\<rparr>) (mp_transactions M)\<rparr>)))"

definition mempool_regenerate_proofs ::
  "('acc, 'fr, 'pf) ext \<Rightarrow> 'acc \<Rightarrow> 'pf mempool \<Rightarrow> (mempool_error, 'pf mempool) result" where
  "mempool_regenerate_proofs E accumulator M =
     fold_res (mp_regenerate_proof E accumulator) M
       (map fst (sorted_list_of_fmap (mp_transactions M)))"

definition evict_nullifier :: "nullifier \<Rightarrow> 'pf mempool \<Rightarrow> 'pf mempool" where
  "evict_nullifier n M =
     (case fmlookup (mp_used_nullifiers M) n of
        Some txid \<Rightarrow> mempool_delete M txid | None \<Rightarrow> M)"

definition evict_transaction :: "('acc, 'fr, 'pf) ext \<Rightarrow> 'pf transaction \<Rightarrow> 'pf mempool \<Rightarrow> 'pf mempool" where
  "evict_transaction E tx M =
     fold evict_nullifier (tx_nullifiers tx) (mempool_delete M (tx_txid E tx))"

definition mempool_connect_block ::
  "('acc, 'fr, 'pf) ext \<Rightarrow> 'acc \<Rightarrow> 'pf mempool \<Rightarrow> 'pf body \<Rightarrow> (mempool_error, 'pf mempool) result" where
  "mempool_connect_block E accumulator M b =
     mempool_regenerate_proofs E accumulator (fold (evict_transaction E) (body_transactions b) M)"

section \<open>The indexes are exact\<close>

definition pool_spends :: "'pf mempool \<Rightarrow> txid \<Rightarrow> out_point \<Rightarrow> bool" where
  "pool_spends M t op \<longleftrightarrow>
     (\<exists>at. fmlookup (mp_transactions M) t = Some at \<and> op \<in> fst ` set (inputs (transaction at)))"

definition pool_uses :: "'pf mempool \<Rightarrow> txid \<Rightarrow> nullifier \<Rightarrow> bool" where
  "pool_uses M t n \<longleftrightarrow>
     (\<exists>at. fmlookup (mp_transactions M) t = Some at \<and> n \<in> set (tx_nullifiers (transaction at)))"

definition mempool_ok :: "('acc, 'fr, 'pf) ext \<Rightarrow> 'pf mempool \<Rightarrow> bool" where
  "mempool_ok E M \<longleftrightarrow>
     (\<forall>t at. fmlookup (mp_transactions M) t = Some at \<longrightarrow> tx_txid E (transaction at) = t
        \<and> distinct (map fst (inputs (transaction at))) \<and> distinct (tx_nullifiers (transaction at)))
     \<and> (\<forall>op t. fmlookup (mp_spent_utxos M) op = Some t \<longleftrightarrow> pool_spends M t op)
     \<and> (\<forall>n t. fmlookup (mp_used_nullifiers M) n = Some t \<longleftrightarrow> pool_uses M t n)"

lemma mempool_okD:
  assumes "mempool_ok E M"
  shows "fmlookup (mp_transactions M) t = Some at \<Longrightarrow> tx_txid E (transaction at) = t"
    and "fmlookup (mp_transactions M) t = Some at \<Longrightarrow> distinct (map fst (inputs (transaction at)))"
    and "fmlookup (mp_transactions M) t = Some at \<Longrightarrow> distinct (tx_nullifiers (transaction at))"
    and "fmlookup (mp_spent_utxos M) op = Some t \<longleftrightarrow> pool_spends M t op"
    and "fmlookup (mp_used_nullifiers M) n = Some t \<longleftrightarrow> pool_uses M t n"
  using assms by (simp_all add: mempool_ok_def)

lemma spends_upd:
  "pool_spends (M\<lparr>mp_transactions := fmupd t at (mp_transactions M)\<rparr>) u op
     \<longleftrightarrow> (if u = t then op \<in> fst ` set (inputs (transaction at)) else pool_spends M u op)"
  "pool_uses (M\<lparr>mp_transactions := fmupd t at (mp_transactions M)\<rparr>) u n
     \<longleftrightarrow> (if u = t then n \<in> set (tx_nullifiers (transaction at)) else pool_uses M u n)"
  by (simp_all add: pool_spends_def pool_uses_def)

lemma claim_inputs_Inr:
  "fold_res (claim_input txid) M ins = Inr M' \<longleftrightarrow>
     distinct (map fst ins) \<and> (\<forall>op\<in>fst ` set ins. fmlookup (mp_spent_utxos M) op = None)
     \<and> M' = M\<lparr>mp_spent_utxos := puts (map (\<lambda>x. (fst x, txid)) ins) (mp_spent_utxos M)\<rparr>"
proof (induction ins arbitrary: M)
  case Nil
  then show ?case by auto
next
  case (Cons x ins)
  show ?case
  proof (cases "fmlookup (mp_spent_utxos M) (fst x)")
    case None
    then show ?thesis by (auto simp: claim_input_def [of txid M x] Cons.IH)
  qed (simp add: claim_input_def)
qed

lemma claim_nullifiers_Inr:
  "fold_res (claim_nullifier txid) M ns = Inr M' \<longleftrightarrow>
     distinct ns \<and> (\<forall>n\<in>set ns. fmlookup (mp_used_nullifiers M) n = None)
     \<and> M' = M\<lparr>mp_used_nullifiers := puts (map (\<lambda>n. (n, txid)) ns) (mp_used_nullifiers M)\<rparr>"
proof (induction ns arbitrary: M)
  case Nil
  then show ?case by auto
next
  case (Cons n ns)
  show ?case
  proof (cases "fmlookup (mp_used_nullifiers M) n")
    case None
    then show ?thesis by (auto simp: claim_nullifier_def [of txid M n] Cons.IH)
  qed (simp add: claim_nullifier_def)
qed

lemma lookup_puts_const:
  "fmlookup (puts (map (\<lambda>x. (f x, v)) xs) m) k = (if k \<in> f ` set xs then Some v else fmlookup m k)"
  by (induction xs arbitrary: m) auto

text \<open>What \<open>put\<close> adds to the pool.\<close>

definition with_entry :: "'pf mempool \<Rightarrow> txid \<Rightarrow> 'pf authorized_transaction \<Rightarrow> 'pf mempool" where
  "with_entry M txid at =
     M\<lparr>mp_transactions := fmupd txid at (mp_transactions M),
       mp_spent_utxos := puts (map (\<lambda>x. (fst x, txid)) (inputs (transaction at))) (mp_spent_utxos M),
       mp_used_nullifiers := puts (map (\<lambda>n. (n, txid)) (tx_nullifiers (transaction at)))
         (mp_used_nullifiers M)\<rparr>"

definition conflict_free :: "'pf mempool \<Rightarrow> 'pf transaction \<Rightarrow> bool" where
  "conflict_free M tx \<longleftrightarrow>
     (\<forall>t at. fmlookup (mp_transactions M) t = Some at \<longrightarrow>
        fst ` set (inputs (transaction at)) \<inter> fst ` set (inputs tx) = {}
        \<and> set (tx_nullifiers (transaction at)) \<inter> set (tx_nullifiers tx) = {})"

lemma conflict_freeD:
  assumes "conflict_free M tx"
  shows "op \<in> fst ` set (inputs tx) \<Longrightarrow> \<not> pool_spends M t op"
    and "n \<in> set (tx_nullifiers tx) \<Longrightarrow> \<not> pool_uses M t n"
  using assms unfolding conflict_free_def pool_spends_def pool_uses_def by blast+

lemma conflict_free_index:
  assumes ok: "mempool_ok E M"
  shows "conflict_free M tx \<longleftrightarrow> (\<forall>op\<in>fst ` set (inputs tx). fmlookup (mp_spent_utxos M) op = None)
    \<and> (\<forall>n\<in>set (tx_nullifiers tx). fmlookup (mp_used_nullifiers M) n = None)"
proof -
  have free: "fmlookup (mp_spent_utxos M) op = None \<longleftrightarrow> (\<forall>t. \<not> pool_spends M t op)"
    "fmlookup (mp_used_nullifiers M) n = None \<longleftrightarrow> (\<forall>t. \<not> pool_uses M t n)" for op n
    by (simp_all flip: mempool_okD(4,5) [OF ok])
  show ?thesis unfolding free unfolding conflict_free_def pool_spends_def pool_uses_def by blast
qed

lemma mempool_put_Inr:
  assumes ok: "mempool_ok E M"
  shows "mempool_put E M at = Inr M' \<longleftrightarrow>
    (if has_key (mp_transactions M) (tx_txid E (transaction at)) then M' = M
     else distinct (map fst (inputs (transaction at))) \<and> distinct (tx_nullifiers (transaction at))
       \<and> conflict_free M (transaction at) \<and> M' = with_entry M (tx_txid E (transaction at)) at)"
  unfolding conflict_free_index [OF ok] mempool_put_def Let_def
  by (auto simp: result_simps claim_inputs_Inr claim_nullifiers_Inr with_entry_def)

lemma with_entry_ok:
  assumes ok: "mempool_ok E M" and t: "t = tx_txid E (transaction at)"
    and absent: "fmlookup (mp_transactions M) t = None"
    and dist: "distinct (map fst (inputs (transaction at)))" "distinct (tx_nullifiers (transaction at))"
    and free: "conflict_free M (transaction at)"
  shows "mempool_ok E (with_entry M t at)"
proof -
  let ?M = "with_entry M t at"
  have old: "\<not> pool_spends M t op" "\<not> pool_uses M t n" for op n
    using absent by (simp_all add: pool_spends_def pool_uses_def)
  have pool_spends: "pool_spends ?M u op \<longleftrightarrow> (if u = t then op \<in> fst ` set (inputs (transaction at)) else pool_spends M u op)"
    and pool_uses: "pool_uses ?M u n \<longleftrightarrow> (if u = t then n \<in> set (tx_nullifiers (transaction at)) else pool_uses M u n)" for u op n
    by (simp_all add: pool_spends_def pool_uses_def with_entry_def)
  have "fmlookup (mp_spent_utxos ?M) op = Some u \<longleftrightarrow> pool_spends ?M u op" for op u
    unfolding pool_spends using conflict_freeD(1) [OF free, of op u] old(1)
    by (auto simp: with_entry_def lookup_puts_const mempool_okD(4) [OF ok])
  moreover have "fmlookup (mp_used_nullifiers ?M) n = Some u \<longleftrightarrow> pool_uses ?M u n" for n u
    unfolding pool_uses using conflict_freeD(2) [OF free, of n u] old(2)
    by (auto simp: with_entry_def lookup_puts_const [where f = "\<lambda>n. n", simplified] mempool_okD(5) [OF ok])
  moreover have "fmlookup (mp_transactions ?M) u = Some x \<Longrightarrow> tx_txid E (transaction x) = u
      \<and> distinct (map fst (inputs (transaction x))) \<and> distinct (tx_nullifiers (transaction x))" for u x
    using dist t mempool_okD(1-3) [OF ok, of u x] by (auto simp: with_entry_def split: if_splits)
  ultimately show ?thesis unfolding mempool_ok_def by blast
qed

lemma mempool_put_ok:
  assumes "mempool_ok E M" and "mempool_put E M at = Inr M'"
  shows "mempool_ok E M'"
  using assms with_entry_ok [OF assms(1) refl, of at] by (auto simp: mempool_put_Inr split: if_splits)

text \<open>
  C31. \<open>put\<close> accepts a new transaction exactly when its out points and its nullifiers are distinct
  and no transaction of the pool spends or uses one of them. It then stores it and keeps both
  indexes exact, so that no two transactions of the pool conflict.
\<close>

theorem mempool_put_correct:
  assumes "mempool_ok E M"
  shows "(mempool_put E M at \<in> range Inr \<longleftrightarrow>
      has_key (mp_transactions M) (tx_txid E (transaction at))
      \<or> distinct (map fst (inputs (transaction at))) \<and> distinct (tx_nullifiers (transaction at))
        \<and> conflict_free M (transaction at))
    \<and> (\<forall>M'. mempool_put E M at = Inr M' \<longrightarrow>
         mempool_ok E M' \<and> fmdom (mp_transactions M')
           = finsert (tx_txid E (transaction at)) (fmdom (mp_transactions M)))"
proof -
  have "finsert (tx_txid E (transaction at)) (fmdom (mp_transactions M)) = fmdom (mp_transactions M)"
    if "has_key (mp_transactions M) (tx_txid E (transaction at))"
    using that by (auto simp: fmdomI)
  then have "fmdom (mp_transactions M') = finsert (tx_txid E (transaction at)) (fmdom (mp_transactions M))"
    if "mempool_put E M at = Inr M'" for M'
    using that by (auto simp: mempool_put_Inr [OF assms] with_entry_def split: if_splits)
  moreover have "mempool_put E M at \<in> range Inr \<longleftrightarrow> (\<exists>M'. mempool_put E M at = Inr M')" by auto
  ultimately show ?thesis
    using mempool_put_ok [OF assms] by (auto simp: mempool_put_Inr [OF assms])
qed

section \<open>Deleting a transaction\<close>

definition mempool_child :: "'pf mempool \<Rightarrow> txid \<Rightarrow> txid \<Rightarrow> bool" where
  "mempool_child M t u \<longleftrightarrow>
     (\<exists>at vout. fmlookup (mp_transactions M) t = Some at \<and> vout < length (outputs (transaction at))
        \<and> pool_spends M u (Regular t (word_of_nat vout)))"

lemma remove_entry_lookup:
  assumes ok: "mempool_ok E M" and t: "fmlookup (mp_transactions M) t = Some at"
  shows "pool_spends (remove_entry M t (transaction at)) u op \<longleftrightarrow> pool_spends M u op \<and> u \<noteq> t"
    and "pool_uses (remove_entry M t (transaction at)) u n \<longleftrightarrow> pool_uses M u n \<and> u \<noteq> t"
    and "fmlookup (mp_spent_utxos (remove_entry M t (transaction at))) op = Some u
      \<longleftrightarrow> pool_spends M u op \<and> u \<noteq> t"
    and "fmlookup (mp_used_nullifiers (remove_entry M t (transaction at))) n = Some u
      \<longleftrightarrow> pool_uses M u n \<and> u \<noteq> t"
proof -
  show "pool_spends (remove_entry M t (transaction at)) u op \<longleftrightarrow> pool_spends M u op \<and> u \<noteq> t"
    "pool_uses (remove_entry M t (transaction at)) u n \<longleftrightarrow> pool_uses M u n \<and> u \<noteq> t"
    by (auto simp: pool_spends_def pool_uses_def remove_entry_def)
  have "op \<in> fst ` set (inputs (transaction at)) \<longleftrightarrow> pool_spends M t op"
    "n \<in> set (tx_nullifiers (transaction at)) \<longleftrightarrow> pool_uses M t n"
    by (simp_all add: pool_spends_def pool_uses_def t)
  moreover have "pool_spends M t op \<Longrightarrow> pool_spends M u op \<Longrightarrow> u = t" "pool_uses M t n \<Longrightarrow> pool_uses M u n \<Longrightarrow> u = t"
    by (metis mempool_okD(4) [OF ok] option.inject) (metis mempool_okD(5) [OF ok] option.inject)
  ultimately show "fmlookup (mp_spent_utxos (remove_entry M t (transaction at))) op = Some u
      \<longleftrightarrow> pool_spends M u op \<and> u \<noteq> t"
    "fmlookup (mp_used_nullifiers (remove_entry M t (transaction at))) n = Some u \<longleftrightarrow> pool_uses M u n \<and> u \<noteq> t"
    by (auto simp: remove_entry_def lookup_drops mempool_okD(4,5) [OF ok])
qed

lemma remove_entry_ok:
  assumes "mempool_ok E M" and "fmlookup (mp_transactions M) t = Some at"
  shows "mempool_ok E (remove_entry M t (transaction at))"
  unfolding mempool_ok_def remove_entry_lookup [OF assms]
  using mempool_okD(1-3) [OF assms(1)] by (auto simp: remove_entry_def)

lemma set_map_filter: "set (List.map_filter f xs) = {y. \<exists>x\<in>set xs. f x = Some y}"
  by (induction xs) (auto simp: map_filter_simps split: option.splits)

lemma set_children_of:
  assumes "mempool_ok E M" and "fmlookup (mp_transactions M) t = Some at"
  shows "set (children_of M t (transaction at)) = {u. mempool_child M t u \<and> u \<noteq> t}"
proof -
  have "u \<in> set (children_of M t (transaction at)) \<longleftrightarrow>
      (\<exists>vout<length (outputs (transaction at)).
        fmlookup (mp_spent_utxos (remove_entry M t (transaction at))) (Regular t (word_of_nat vout)) = Some u)" for u
    by (auto simp: children_of_def set_map_filter remove_entry_def)
  then show ?thesis
    unfolding remove_entry_lookup(3) [OF assms] mempool_child_def using assms(2) by auto
qed

lemma child_remove_entry:
  assumes "mempool_ok E M" and "fmlookup (mp_transactions M) t = Some at"
  shows "mempool_child (remove_entry M t (transaction at)) u v
    \<longleftrightarrow> mempool_child M u v \<and> u \<noteq> t \<and> v \<noteq> t"
  unfolding mempool_child_def remove_entry_lookup [OF assms] by (auto simp: remove_entry_def)

lemma reachable_remove:
  assumes step: "\<And>u v. R' u v \<longleftrightarrow> R u v \<and> u \<noteq> t \<and> v \<noteq> t" and u: "u \<noteq> t"
  shows "(\<exists>p\<in>insert t P. R\<^sup>*\<^sup>* p u) \<longleftrightarrow> (\<exists>q\<in>P \<union> {v. R t v \<and> v \<noteq> t}. R'\<^sup>*\<^sup>* q u)"
proof
  assume "\<exists>p\<in>insert t P. R\<^sup>*\<^sup>* p u"
  then obtain p where p: "p \<in> insert t P" and "R\<^sup>*\<^sup>* p u" by blast
  from this(2) have "u = t \<or> (\<exists>q\<in>P \<union> {v. R t v \<and> v \<noteq> t}. R'\<^sup>*\<^sup>* q u)"
  proof induction
    case base
    from p show ?case by blast
  next
    case (step v w)
    show ?case
    proof (cases "w = t \<or> v = t")
      case True
      with step.hyps(2) show ?thesis by blast
    next
      case False
      with step assms(1) [of v w] show ?thesis by (meson rtranclp.rtrancl_into_rtrancl)
    qed
  qed
  with u show "\<exists>q\<in>P \<union> {v. R t v \<and> v \<noteq> t}. R'\<^sup>*\<^sup>* q u" by blast
next
  assume "\<exists>q\<in>P \<union> {v. R t v \<and> v \<noteq> t}. R'\<^sup>*\<^sup>* q u"
  then obtain q where q: "q \<in> P \<union> {v. R t v \<and> v \<noteq> t}" and "R'\<^sup>*\<^sup>* q u" by blast
  moreover have "R' \<le> R" using step by blast
  ultimately have "R\<^sup>*\<^sup>* q u" using rtranclp_mono by blast
  with q show "\<exists>p\<in>insert t P. R\<^sup>*\<^sup>* p u" by (auto intro: converse_rtranclp_into_rtranclp)
qed

lemma delete_loop_correct:
  assumes "mempool_ok E M"
  shows "mempool_ok E (delete_loop M pending)
    \<and> mp_transactions (delete_loop M pending)
        = fmfilter (\<lambda>u. \<not> (\<exists>p\<in>set pending. (mempool_child M)\<^sup>*\<^sup>* p u)) (mp_transactions M)"
  using assms
proof (induction M pending rule: delete_loop.induct)
  case (1 M)
  then show ?case by (auto intro: fmap_ext)
next
  case (2 M t pending)
  show ?case
  proof (cases "fmlookup (mp_transactions M) t")
    case None
    then have "(mempool_child M)\<^sup>*\<^sup>* t u \<longleftrightarrow> u = t" for u
      by (auto simp: mempool_child_def elim: converse_rtranclpE)
    with None "2.IH"(1) "2.prems" show ?thesis by (auto intro!: fmap_ext)
  next
    case (Some at)
    let ?M = "remove_entry M t (transaction at)"
    note ok = remove_entry_ok [OF "2.prems" Some]
    note IH = "2.IH"(2) [OF Some ok]
    have reach: "(\<exists>p\<in>set (t # pending). (mempool_child M)\<^sup>*\<^sup>* p u) \<longleftrightarrow>
        (\<exists>q\<in>set (pending @ children_of M t (transaction at)). (mempool_child ?M)\<^sup>*\<^sup>* q u)" if "u \<noteq> t" for u
      using reachable_remove [OF child_remove_entry [OF "2.prems" Some] that, of "set pending"]
      by (simp add: set_children_of [OF "2.prems" Some])
    have "mp_transactions (delete_loop M (t # pending))
        = fmfilter (\<lambda>u. \<not> (\<exists>p\<in>set (t # pending). (mempool_child M)\<^sup>*\<^sup>* p u)) (mp_transactions M)"
    proof (rule fmap_ext)
      fix u
      show "fmlookup (mp_transactions (delete_loop M (t # pending))) u
        = fmlookup (fmfilter (\<lambda>u. \<not> (\<exists>p\<in>set (t # pending). (mempool_child M)\<^sup>*\<^sup>* p u)) (mp_transactions M)) u"
        using IH reach [of u] Some by (cases "u = t") (auto simp: remove_entry_def)
    qed
    moreover have "mempool_ok E (delete_loop M (t # pending))" using IH Some by simp
    ultimately show ?thesis by blast
  qed
qed

lemma mempool_delete_ok:
  assumes "mempool_ok E M"
  shows "mempool_ok E (mempool_delete M t)"
    and "mp_transactions (mempool_delete M t)
      = fmfilter (\<lambda>u. \<not> (mempool_child M)\<^sup>*\<^sup>* t u) (mp_transactions M)"
  using delete_loop_correct [OF assms, of "[t]"] by (simp_all add: mempool_delete_def)

text \<open>
  C22. The work list of \<open>delete\<close> ends, and removes exactly the transaction and everything in the pool
  that spends, directly or through other transactions, one of its outputs. What stays is
  unchanged, and the indexes stay exact.
\<close>

theorem mempool_delete_correct:
  assumes "mempool_ok E M"
  shows "mempool_ok E (mempool_delete M t)
    \<and> mp_transactions (mempool_delete M t)
        = fmfilter (\<lambda>u. \<not> (mempool_child M)\<^sup>*\<^sup>* t u) (mp_transactions M)"
  using mempool_delete_ok [OF assms] by blast

section \<open>Connecting a block\<close>

definition with_proof :: "'pf authorized_transaction \<Rightarrow> 'pf \<Rightarrow> 'pf authorized_transaction" where
  "with_proof at p = at\<lparr>transaction := (transaction at)\<lparr>utreexo_proof := p\<rparr>\<rparr>"

lemma with_proof_fields [simp]:
  "tx_txid E (transaction (with_proof at p)) = tx_txid E (transaction at)"
  "inputs (transaction (with_proof at p)) = inputs (transaction at)"
  "tx_nullifiers (transaction (with_proof at p)) = tx_nullifiers (transaction at)"
  by (simp_all add: with_proof_def tx_txid_def txid_bytes_def tx_nullifiers_def)

lemma mp_regenerate_proof_Inr:
  "mp_regenerate_proof E acc M t = Inr M' \<longleftrightarrow>
     (\<exists>at p. fmlookup (mp_transactions M) t = Some at
        \<and> forest_prove E acc (map snd (inputs (transaction at))) = Some p
        \<and> M' = M\<lparr>mp_transactions := fmupd t (with_proof at p) (mp_transactions M)\<rparr>)"
  by (auto simp: mp_regenerate_proof_def result_simps with_proof_def)

lemma regenerate_entry_ok:
  assumes ok: "mempool_ok E M" and t: "fmlookup (mp_transactions M) t = Some at"
  shows "mempool_ok E (M\<lparr>mp_transactions := fmupd t (with_proof at p) (mp_transactions M)\<rparr>)"
proof -
  have "pool_spends M t op \<longleftrightarrow> op \<in> fst ` set (inputs (transaction at))"
    "pool_uses M t n \<longleftrightarrow> n \<in> set (tx_nullifiers (transaction at))" for op n
    by (simp_all add: pool_spends_def pool_uses_def t)
  then show ?thesis
    using mempool_okD(1-3) [OF ok] t by (auto simp: mempool_ok_def spends_upd mempool_okD(4,5) [OF ok])
qed

text \<open>The transactions of a pool after the proofs of those with the given ids were computed anew.\<close>

definition proofs_renewed ::
  "('acc, 'fr, 'pf) ext \<Rightarrow> 'acc \<Rightarrow> txid set \<Rightarrow> 'pf mempool \<Rightarrow> 'pf mempool \<Rightarrow> bool" where
  "proofs_renewed E acc T M M' \<longleftrightarrow>
     fmdom (mp_transactions M') = fmdom (mp_transactions M)
     \<and> (\<forall>t at. fmlookup (mp_transactions M) t = Some at \<longrightarrow>
          (if t \<in> T then \<exists>p. forest_prove E acc (map snd (inputs (transaction at))) = Some p
             \<and> fmlookup (mp_transactions M') t = Some (with_proof at p)
           else fmlookup (mp_transactions M') t = Some at))"

lemma regenerate_fold:
  assumes "fold_res (mp_regenerate_proof E acc) M ts = Inr M'" and "mempool_ok E M" and "distinct ts"
  shows "mempool_ok E M' \<and> proofs_renewed E acc (set ts) M M'"
  using assms
proof (induction ts arbitrary: M)
  case Nil
  then show ?case by (simp add: proofs_renewed_def)
next
  case (Cons t ts)
  from Cons.prems(1) obtain at p where at: "fmlookup (mp_transactions M) t = Some at"
      and p: "forest_prove E acc (map snd (inputs (transaction at))) = Some p"
      and rest: "fold_res (mp_regenerate_proof E acc)
        (M\<lparr>mp_transactions := fmupd t (with_proof at p) (mp_transactions M)\<rparr>) ts = Inr M'"
    by (auto simp: result_simps mp_regenerate_proof_Inr)
  from Cons.IH [OF rest regenerate_entry_ok [OF Cons.prems(2) at]] Cons.prems(3)
  have IH: "mempool_ok E M'" "proofs_renewed E acc (set ts)
      (M\<lparr>mp_transactions := fmupd t (with_proof at p) (mp_transactions M)\<rparr>) M'" by auto
  have "t |\<in>| fmdom (mp_transactions M)" using at by (simp add: fmdomI)
  then have dom: "fmdom (mp_transactions M') = fmdom (mp_transactions M)"
    using IH(2) by (simp add: proofs_renewed_def finsert_absorb)
  have "if u \<in> set (t # ts) then \<exists>p. forest_prove E acc (map snd (inputs (transaction x))) = Some p
      \<and> fmlookup (mp_transactions M') u = Some (with_proof x p)
    else fmlookup (mp_transactions M') u = Some x" if "fmlookup (mp_transactions M) u = Some x" for u x
    using IH(2) [unfolded proofs_renewed_def, THEN conjunct2, rule_format, of u] that at p Cons.prems(3)
    by (cases "u = t") auto
  with dom IH(1) show ?case unfolding proofs_renewed_def by blast
qed

lemma regenerate_proofs_ok:
  assumes "mempool_regenerate_proofs E acc M = Inr M'" and "mempool_ok E M"
  shows "mempool_ok E M' \<and> proofs_renewed E acc UNIV M M'"
proof -
  have "fmlookup (mp_transactions M) t = Some at \<Longrightarrow> t \<in> set (map fst (sorted_list_of_fmap (mp_transactions M)))" for t at
    by (force simp flip: in_sorted_list_of_fmap)
  with regenerate_fold [OF assms(1) [unfolded mempool_regenerate_proofs_def] assms(2) distinct_sorted_list_of_fmap]
  show ?thesis unfolding proofs_renewed_def by (metis UNIV_I)
qed

text \<open>
  \<open>pruned M M' S\<close>: the pool \<open>M'\<close> is \<open>M\<close> without the transactions \<open>S\<close> and all that depend on them.
\<close>

definition dependents :: "'pf mempool \<Rightarrow> txid set \<Rightarrow> txid set" where
  "dependents M S = {t. \<exists>s\<in>S. (mempool_child M)\<^sup>*\<^sup>* s t}"

definition pruned :: "('acc, 'fr, 'pf) ext \<Rightarrow> 'pf mempool \<Rightarrow> 'pf mempool \<Rightarrow> txid set \<Rightarrow> bool" where
  "pruned E M M' S \<longleftrightarrow> mempool_ok E M'
     \<and> mp_transactions M' = fmfilter (\<lambda>t. t \<notin> dependents M S) (mp_transactions M)"

lemma dependents_basic:
  "s \<in> S \<Longrightarrow> s \<in> dependents M S"
  "s \<in> dependents M S \<Longrightarrow> (mempool_child M)\<^sup>*\<^sup>* s t \<Longrightarrow> t \<in> dependents M S"
  "dependents M (S \<union> T) = dependents M S \<union> dependents M T"
  "T \<subseteq> dependents M S \<Longrightarrow> dependents M (S \<union> T) = dependents M S"
  unfolding dependents_def by (auto intro: rtranclp_trans)

lemma pruned_uses:
  assumes "pruned E M M' S"
  shows "pool_uses M' t n \<longleftrightarrow> pool_uses M t n \<and> t \<notin> dependents M S"
    and "mempool_child M' t u \<longleftrightarrow> mempool_child M t u \<and> t \<notin> dependents M S \<and> u \<notin> dependents M S"
  using assms by (auto simp: pruned_def pool_uses_def mempool_child_def pool_spends_def)

lemma pruned_reach:
  assumes "pruned E M M' S" and t: "t \<notin> dependents M S"
  shows "(mempool_child M')\<^sup>*\<^sup>* s t \<longleftrightarrow> (mempool_child M)\<^sup>*\<^sup>* s t"
proof
  have "mempool_child M' \<le> mempool_child M" using pruned_uses(2) [OF assms(1)] by blast
  then show "(mempool_child M')\<^sup>*\<^sup>* s t \<Longrightarrow> (mempool_child M)\<^sup>*\<^sup>* s t" using rtranclp_mono by blast
next
  assume "(mempool_child M)\<^sup>*\<^sup>* s t"
  then show "(mempool_child M')\<^sup>*\<^sup>* s t"
  proof (induction rule: converse_rtranclp_induct)
    case (step u v)
    then have "u \<notin> dependents M S" "v \<notin> dependents M S"
      using t dependents_basic(2) [of _ M S t] by (auto intro: converse_rtranclp_into_rtranclp)
    with step show ?case
      by (auto simp: pruned_uses(2) [OF assms(1)] intro: converse_rtranclp_into_rtranclp)
  qed simp
qed

lemma pruned_trans:
  assumes "pruned E M M' S" and "pruned E M' M'' T" and "T \<subseteq> T'" "T' \<subseteq> T \<union> dependents M S"
  shows "pruned E M M'' (S \<union> T')"
proof -
  have "dependents M (S \<union> T') = dependents M (S \<union> T)"
  proof -
    have "(S \<union> T) \<union> (T' - T) = S \<union> T'" "T' - T \<subseteq> dependents M (S \<union> T)"
      using assms(3,4) by (auto simp: dependents_basic(3))
    then show ?thesis using dependents_basic(4) [of "T' - T" M "S \<union> T"] by simp
  qed
  moreover have "t \<in> dependents M (S \<union> T) \<longleftrightarrow> t \<in> dependents M S \<or> t \<in> dependents M' T" if "t \<notin> dependents M S" for t
    using pruned_reach [OF assms(1) that] that by (simp add: dependents_basic(3)) (simp add: dependents_def)
  ultimately show ?thesis
    using assms(1,2) by (auto simp: pruned_def dependents_basic(3) intro!: fmap_ext)
qed

lemma pruned_delete: "mempool_ok E M \<Longrightarrow> pruned E M (mempool_delete M t) {t}"
  using mempool_delete_ok [of E M t] by (simp add: pruned_def dependents_def)

lemma pruned_ok: "pruned E M M' S \<Longrightarrow> mempool_ok E M'"
  by (simp add: pruned_def)

lemma pruned_refl: "mempool_ok E M \<Longrightarrow> pruned E M M {}"
  by (auto simp: pruned_def dependents_def intro: fmap_ext)

lemma pruned_evict_nullifier:
  assumes "mempool_ok E M"
  shows "pruned E M (evict_nullifier n M) {t. pool_uses M t n}"
proof (cases "fmlookup (mp_used_nullifiers M) n")
  case None
  then have "{t. pool_uses M t n} = {}" by (auto simp flip: mempool_okD(5) [OF assms])
  with None pruned_refl [OF assms] show ?thesis by (simp add: evict_nullifier_def)
next
  case (Some t)
  then have "{t. pool_uses M t n} = {t}" by (auto simp flip: mempool_okD(5) [OF assms])
  with Some pruned_delete [OF assms] show ?thesis by (simp add: evict_nullifier_def)
qed

lemma pruned_evict_nullifiers:
  assumes "pruned E M M' S"
  shows "pruned E M (fold evict_nullifier ns M') (S \<union> {t. \<exists>n\<in>set ns. pool_uses M t n})"
  using assms
proof (induction ns arbitrary: M' S)
  case Nil
  then show ?case by simp
next
  case (Cons n ns)
  have "pruned E M (evict_nullifier n M') (S \<union> {t. pool_uses M t n})"
    using pruned_evict_nullifier [OF pruned_ok [OF Cons.prems], of n] pruned_uses(1) [OF Cons.prems]
    by (intro pruned_trans [OF Cons.prems]) auto
  from Cons.IH [OF this] show ?case by (simp add: Un_assoc Collect_disj_eq)
qed

text \<open>The transactions of the pool that a block settles or conflicts with on a nullifier.\<close>

definition settled :: "('acc, 'fr, 'pf) ext \<Rightarrow> 'pf mempool \<Rightarrow> 'pf transaction \<Rightarrow> txid set" where
  "settled E M tx = insert (tx_txid E tx) {t. \<exists>n\<in>set (tx_nullifiers tx). pool_uses M t n}"

lemma pruned_evict_transactions:
  assumes "pruned E M M' S"
  shows "pruned E M (fold (evict_transaction E) txs M') (S \<union> (\<Union>tx\<in>set txs. settled E M tx))"
  using assms
proof (induction txs arbitrary: M' S)
  case Nil
  then show ?case by simp
next
  case (Cons tx txs)
  have "pruned E M (mempool_delete M' (tx_txid E tx)) (S \<union> {tx_txid E tx})"
    by (rule pruned_trans [OF Cons.prems pruned_delete [OF pruned_ok [OF Cons.prems]]]) auto
  from pruned_evict_nullifiers [OF this, of "tx_nullifiers tx"]
  have "pruned E M (evict_transaction E tx M') (S \<union> settled E M tx)"
    by (simp add: evict_transaction_def settled_def Un_assoc)
  from Cons.IH [OF this] show ?case by (simp add: Un_assoc)
qed

lemma mempool_connect_block_ok:
  assumes "mempool_ok E M" and "mempool_connect_block E acc M b = Inr M'"
  shows "mempool_ok E M'"
  using regenerate_proofs_ok [OF assms(2) [unfolded mempool_connect_block_def]
      pruned_ok [OF pruned_evict_transactions [OF pruned_refl [OF assms(1)]]]] by blast

text \<open>
  Connecting a block removes from the pool exactly the transactions of the block, those that
  use one of its nullifiers, and everything that depends on a removed transaction. All
  others stay with a new proof for the new accumulator, and the indexes stay exact.
\<close>

theorem mempool_connect_block_correct:
  assumes "mempool_ok E M" and "mempool_connect_block E acc M b = Inr M'"
  shows "mempool_ok E M' \<and> fmdom (mp_transactions M') |\<subseteq>| fmdom (mp_transactions M)
    \<and> (\<forall>t at. fmlookup (mp_transactions M) t = Some at \<longrightarrow>
        (if t \<in> dependents M (\<Union>tx\<in>set (body_transactions b). settled E M tx)
         then fmlookup (mp_transactions M') t = None
         else \<exists>p. forest_prove E acc (map snd (inputs (transaction at))) = Some p
           \<and> fmlookup (mp_transactions M') t = Some (with_proof at p)))"
proof -
  let ?S = "\<Union>tx\<in>set (body_transactions b). settled E M tx"
  let ?M = "fold (evict_transaction E) (body_transactions b) M"
  have pruned: "pruned E M ?M ?S"
    using pruned_evict_transactions [OF pruned_refl [OF assms(1)], of "body_transactions b"] by simp
  from regenerate_proofs_ok [OF assms(2) [unfolded mempool_connect_block_def] pruned_ok [OF this]]
  have new: "mempool_ok E M'" "proofs_renewed E acc UNIV ?M M'" by blast+
  have txs: "mp_transactions ?M = fmfilter (\<lambda>t. t \<notin> dependents M ?S) (mp_transactions M)"
    using pruned by (simp add: pruned_def)
  have dom: "fmdom (mp_transactions M') = fmdom (mp_transactions ?M)" using new(2) by (simp add: proofs_renewed_def)
  then have "fmdom (mp_transactions M') |\<subseteq>| fmdom (mp_transactions M)" by (auto simp: txs)
  moreover have "fmlookup (mp_transactions M') t = None" if "t \<in> dependents M ?S" for t
    using that dom by (metis (no_types, lifting) fmdom_notD fmdom_notI fmlookup_filter txs)
  moreover have "\<exists>p. forest_prove E acc (map snd (inputs (transaction at))) = Some p
      \<and> fmlookup (mp_transactions M') t = Some (with_proof at p)"
    if "fmlookup (mp_transactions M) t = Some at" "t \<notin> dependents M ?S" for t at
    using new(2) that by (simp add: proofs_renewed_def txs)
  ultimately show ?thesis using new(1) by simp
qed

section \<open>Examples\<close>

text \<open>A chain of two transactions that wait, and a block that settles a rival of the first.\<close>

definition pool_tx :: "(out_point \<times> hash) list \<Rightarrow> nat \<Rightarrow> unit authorized_transaction" where
  "pool_tx ins n = \<lparr>transaction = \<lparr>inputs = ins, utreexo_proof = (), outputs = replicate n (example_output 1),
     orchard_bundle = None\<rparr>, authorizations = []\<rparr>"

definition pool_parent :: "unit authorized_transaction" where
  "pool_parent = pool_tx [(Deposit 1 0, 66)] 1"

definition pool_child :: "unit authorized_transaction" where
  "pool_child = pool_tx [(Regular (tx_txid example_ext (transaction pool_parent)) 0, 66)] 2"

definition pool_rival :: "unit authorized_transaction" where
  "pool_rival = pool_tx [(Deposit 1 0, 66)] 3"

definition example_pool :: "unit mempool" where
  "example_pool = with_entry (with_entry mempool_new (tx_txid example_ext (transaction pool_parent)) pool_parent)
     (tx_txid example_ext (transaction pool_child)) pool_child"

lemma length_ser_example: "length (ser_output example_ext (example_output v)) = 29"
  by (simp add: ser_output_def example_output_def address_bytes_def)

lemma length_ser_input: "length (ser_input x) = 69"
  by (cases "fst x" rule: ser_out_point.cases) (simp_all add: ser_input_def)

lemma txid_pool_tx: "tx_txid example_ext (transaction (pool_tx ins n)) = Txid (word_of_nat (8 + 69 * length ins + 29 * n))"
proof -
  have "length (concat (map ser_input ins)) = 69 * length ins"
    by (simp add: length_concat comp_def length_ser_input sum_list_triv)
  moreover have "blake3 example_ext bs = word_of_nat (length bs)" for bs by (simp add: example_ext_def)
  moreover have "length (concat (replicate n (ser_output example_ext (example_output 1)))) = 29 * n"
    by (simp add: length_concat length_ser_example sum_list_replicate del: One_nat_def)
  ultimately show ?thesis
    by (simp add: tx_txid_def txid_bytes_def pool_tx_def ser_vec_def)
qed

lemma example_txids:
  "tx_txid example_ext (transaction pool_parent) = Txid 106"
  "tx_txid example_ext (transaction pool_child) = Txid 135"
  "tx_txid example_ext (transaction pool_rival) = Txid 164"
  by (simp_all add: pool_parent_def pool_child_def pool_rival_def txid_pool_tx)

lemma pool_child_eq: "pool_child = pool_tx [(Regular (Txid 106) 0, 66)] 2"
  by (simp add: pool_child_def example_txids)

lemma pool_fields:
  "inputs (transaction pool_parent) = [(Deposit 1 0, 66)]"
  "inputs (transaction pool_child) = [(Regular (Txid 106) 0, 66)]"
  "inputs (transaction pool_rival) = [(Deposit 1 0, 66)]"
  "outputs (transaction pool_parent) = [example_output 1]"
  "tx_nullifiers (transaction pool_parent) = []"
  "tx_nullifiers (transaction pool_child) = []"
  "tx_nullifiers (transaction pool_rival) = []"
  by (simp_all add: pool_parent_def pool_child_eq pool_rival_def pool_tx_def tx_nullifiers_def)

lemmas example_pool_simps = example_pool_def with_entry_def mempool_new_def example_txids pool_fields

lemma example_pool_ok: "mempool_ok example_ext example_pool"
proof -
  have "mempool_ok example_ext mempool_new" by (simp add: mempool_ok_def mempool_new_def pool_spends_def pool_uses_def)
  then have "mempool_ok example_ext (with_entry mempool_new (tx_txid example_ext (transaction pool_parent)) pool_parent)"
    by (rule with_entry_ok) (simp_all add: mempool_new_def conflict_free_def pool_fields)
  then show ?thesis
    unfolding example_pool_def
    by (rule with_entry_ok) (simp_all add: conflict_free_def example_pool_simps)
qed

theorem mempool_put_correct_witness:
  "mempool_put example_ext example_pool pool_rival \<notin> range Inr"
proof -
  have "\<not> conflict_free example_pool (transaction pool_rival)"
    by (simp add: conflict_free_def example_pool_simps)
  moreover have "fmlookup (mp_transactions example_pool) (tx_txid example_ext (transaction pool_rival)) = None"
    by (simp add: example_pool_simps)
  ultimately show ?thesis
    using mempool_put_correct [OF example_pool_ok, of pool_rival] by blast
qed

lemma example_child: "mempool_child example_pool (Txid 106) (Txid 135)"
  unfolding mempool_child_def pool_spends_def
  by (intro exI [of _ pool_parent] exI [of _ 0] exI [of _ pool_child]) (simp add: example_pool_simps)

lemma example_dependents: "fmfilter (\<lambda>t. \<not> (mempool_child example_pool)\<^sup>*\<^sup>* (Txid 106) t) (mp_transactions example_pool) = fmempty"
  using example_child by (auto simp: example_pool_simps intro!: fmap_ext)

theorem mempool_delete_correct_witness:
  "mp_transactions (mempool_delete example_pool (Txid 106)) = fmempty"
  using mempool_delete_correct [OF example_pool_ok, of "Txid 106"] example_dependents by simp

lemma example_evicted:
  "mempool_connect_block example_ext [] example_pool
     \<lparr>coinbase = [], body_transactions = [transaction pool_parent], body_authorizations = []\<rparr>
   = Inr (mempool_delete example_pool (Txid 106))"
proof -
  have "mp_transactions (mempool_delete example_pool (Txid 106)) = fmempty"
    using mempool_delete_ok(2) [OF example_pool_ok, of "Txid 106"] example_dependents by simp
  then show ?thesis
    by (simp add: mempool_connect_block_def evict_transaction_def example_txids pool_fields mempool_regenerate_proofs_def
        sorted_list_of_fmap_def sorted_list_of_fset.rep_eq)
qed

theorem mempool_connect_block_correct_witness:
  "fmlookup (mp_transactions (mempool_delete example_pool (Txid 106))) (Txid 135) = None"
proof -
  have "Txid 135 \<in> dependents example_pool (settled example_ext example_pool (transaction pool_parent))"
    using example_child by (auto simp: dependents_def settled_def example_txids)
  moreover have "fmlookup (mp_transactions example_pool) (Txid 135) = Some pool_child" by (simp add: example_pool_simps)
  ultimately show ?thesis
    using mempool_connect_block_correct [OF example_pool_ok example_evicted] by simp
qed

text \<open>
  A block that spends an out point of the chain which another transaction of the pool spends too
  does not evict that transaction. Its leaf has left the accumulator, its proof cannot be
  renewed, and the whole block fails to connect.
\<close>

theorem rival_blocks_connection:
  "mempool_connect_block example_ext [] example_pool
     \<lparr>coinbase = [], body_transactions = [transaction pool_rival], body_authorizations = []\<rparr>
   = Inl (Err MpUtreexo)"
proof -
  have "mempool_delete example_pool (Txid 164) = example_pool"
    by (simp add: mempool_delete_def example_pool_simps)
  then have "fold (evict_transaction example_ext) [transaction pool_rival] example_pool = example_pool"
    by (simp add: evict_transaction_def example_txids pool_fields)
  moreover have "map fst (sorted_list_of_fmap (mp_transactions example_pool)) = [Txid 106, Txid 135]"
    by (simp add: example_pool_simps sorted_list_of_fmap_def sorted_list_of_fset.rep_eq)
  moreover have "mp_regenerate_proof example_ext [] example_pool (Txid 106) = Inl (Err MpUtreexo)"
    by (simp add: mp_regenerate_proof_def example_pool_simps) (simp add: example_ext_def)
  ultimately show ?thesis
    by (simp add: mempool_connect_block_def mempool_regenerate_proofs_def)
qed

end
