(* ===== verification/Block.thy ===== *)
theory Block
  imports State
begin

text \<open>
  \<open>lib/state/block.rs\<close>: validation of a block against the state, and connecting and disconnecting
  it. \<open>connect\<close> applies a block transaction by transaction; \<open>connect_prevalidated\<close> collects the
  changes of a prevalidated block and applies them sorted by key.
\<close>

section \<open>Prevalidated blocks\<close>

record 'pf prevalidated_block =
  filled_transactions :: "'pf filled_transaction list"
  computed_merkle_root :: merkle_root
  total_fees :: nat
  coinbase_value :: nat
  next_height :: nat
  pv_accumulator_diff :: accumulator_diff

definition next_height_of :: "('acc, 'fr) state \<Rightarrow> nat state_result" where
  "next_height_of S = (case st_height S of None \<Rightarrow> Inr 0 | Some h \<Rightarrow> add_u32 h 1)"

definition coinbase_outpoint :: "merkle_root \<Rightarrow> nat \<Rightarrow> out_point" where
  "coinbase_outpoint mr vout = Coinbase mr (word_of_nat vout)"

definition regular_outpoint :: "txid \<Rightarrow> nat \<Rightarrow> out_point" where
  "regular_outpoint txid vout = Regular txid (word_of_nat vout)"

text \<open>The checks common to \<open>validate\<close> and \<open>prevalidate\<close>, in the order of the source.\<close>

definition check_header ::
  "('acc, 'fr) state \<Rightarrow> header \<Rightarrow> unit state_result" where
  "check_header S h =
     (if prev_side_hash h \<noteq> st_tip S
      then Inl (Err (InvalidHeader (IhPrevSideHash (st_tip S) (prev_side_hash h)))) else Inr ())"

definition check_limits ::
  "('acc, 'fr, 'pf) ext \<Rightarrow> nat \<Rightarrow> 'pf body \<Rightarrow> unit state_result" where
  "check_limits E height b =
     (if length (body_authorizations b) > body_sigops_limit E height then Inl (Err TooManySigops)
      else if length (ser_body E b) > body_size_limit E height then Inl (Err BodyTooLarge)
      else Inr ())"

definition check_merkle_root ::
  "('acc, 'fr, 'pf) ext \<Rightarrow> header \<Rightarrow> 'pf body \<Rightarrow> merkle_root state_result" where
  "check_merkle_root E h b =
     (let root = compute_merkle_root E b
      in if root \<noteq> merkle_root h then Inl (Err (InvalidBody root (merkle_root h))) else Inr root)"

text \<open>Coinbase outputs: their total value, and their leaves as insertions.\<close>

definition coinbase_loop ::
  "('acc, 'fr, 'pf) ext \<Rightarrow> merkle_root \<Rightarrow> tx_output list \<Rightarrow> (nat \<times> accumulator_diff) state_result" where
  "coinbase_loop E root outs =
     fold_res (\<lambda>(value, d) (vout, out).
       map_ok (\<lambda>v. (v, diff_insert (pointed_output_hash E (coinbase_outpoint root vout) out) d))
         (add_amount value (get_value out)))
       (0, diff_default) (List.enumerate 0 outs)"

definition all_input_keys :: "'pf filled_transaction list \<Rightarrow> u8 list list" where
  "all_input_keys fts = concat (map (\<lambda>ft. map (\<lambda>(op, _). out_point_key op) (inputs (ft_transaction ft))) fts)"

fun adjacent_equal :: "'a list \<Rightarrow> bool" where
  "adjacent_equal (x # y # xs) = (x = y \<or> adjacent_equal (y # xs))"
| "adjacent_equal _ = False"

definition check_double_spend :: "'pf filled_transaction list \<Rightarrow> unit state_result" where
  "check_double_spend fts =
     (if adjacent_equal (sort (all_input_keys fts)) then Inl (Err UtxoDoubleSpent) else Inr ())"

definition tx_diff ::
  "('acc, 'fr, 'pf) ext \<Rightarrow> 'pf transaction \<Rightarrow> accumulator_diff \<Rightarrow> accumulator_diff" where
  "tx_diff E tx d =
     fold (\<lambda>(vout, out). diff_insert (pointed_output_hash E (regular_outpoint (tx_txid E tx) vout) out))
       (List.enumerate 0 (outputs tx))
       (fold (\<lambda>(_, utxo_hash). diff_remove utxo_hash) (inputs tx) d)"

definition validate_tx_step ::
  "('acc, 'fr, 'pf) ext \<Rightarrow> ('acc, 'fr) state \<Rightarrow> 'acc \<Rightarrow> nat \<times> accumulator_diff \<Rightarrow> 'pf filled_transaction
    \<Rightarrow> (nat \<times> accumulator_diff) state_result" where
  "validate_tx_step E S acc st ft =
     (case st of (fees, d) \<Rightarrow>
        let tx = ft_transaction ft
        in and_then (validate_anchor_of E S tx) (\<lambda>_.
           and_then (validate_filled_transaction E ft) (\<lambda>fee.
           and_then (add_amount fees fee) (\<lambda>fees.
           and_then (ok_or Utreexo (forest_verify E acc (utreexo_proof tx) (map snd (inputs tx)))) (\<lambda>ok.
           if \<not> ok then Inl (Err (UtreexoProofFailed (tx_txid E tx)))
           else Inr (fees, tx_diff E tx d))))))"

definition check_authorizations ::
  "('acc, 'fr, 'pf) ext \<Rightarrow> 'pf filled_transaction list \<Rightarrow> 'pf body \<Rightarrow> unit state_result" where
  "check_authorizations E fts b =
     and_then (check_addresses E (body_authorizations b) (concat (map spent_utxos fts))) (\<lambda>_.
     case verify_authorizations E b of
       Inr _ \<Rightarrow> Inr () | Inl (Err _) \<Rightarrow> Inl (Err AuthorizationError)
     | Inl Panic \<Rightarrow> Inl Panic | Inl Diverge \<Rightarrow> Inl Diverge)"

definition check_roots ::
  "('acc, 'fr, 'pf) ext \<Rightarrow> 'acc \<Rightarrow> accumulator_diff \<Rightarrow> header \<Rightarrow> unit state_result" where
  "check_roots E acc d h =
     and_then (ok_or Utreexo (apply_diff E acc d)) (\<lambda>acc.
     if forest_roots E acc \<noteq> roots h then Inl (Err UtreexoRootsMismatch) else Inr ())"

definition validate_block ::
  "('acc, 'fr, 'pf) ext \<Rightarrow> ('acc, 'fr) state \<Rightarrow> header \<Rightarrow> 'pf body \<Rightarrow> nat state_result" where
  "validate_block E S h b =
     and_then (check_header S h) (\<lambda>_.
     and_then (next_height_of S) (\<lambda>height.
     and_then (check_limits E height b) (\<lambda>_.
     and_then (ok_or StateDb (utreexo_accumulator S)) (\<lambda>accumulator.
     and_then (check_merkle_root E h b) (\<lambda>root.
     and_then (coinbase_loop E root (coinbase b)) (\<lambda>(coinbase_value, d).
     and_then (map_res (fill_transaction S) (body_transactions b)) (\<lambda>fts.
     and_then (check_double_spend fts) (\<lambda>_.
     and_then (fold_res (validate_tx_step E S accumulator) (0, d) fts) (\<lambda>(fees, d).
     if coinbase_value > fees then Inl (Err NotEnoughFees)
     else
       and_then (check_authorizations E fts b) (\<lambda>_.
       and_then (check_roots E accumulator d h) (\<lambda>_.
       Inr fees)))))))))))"

definition prevalidate_block ::
  "('acc, 'fr, 'pf) ext \<Rightarrow> ('acc, 'fr) state \<Rightarrow> header \<Rightarrow> 'pf body \<Rightarrow> 'pf prevalidated_block state_result"
where
  "prevalidate_block E S h b =
     and_then (check_header S h) (\<lambda>_.
     and_then (next_height_of S) (\<lambda>height.
     and_then (check_limits E height b) (\<lambda>_.
     and_then (ok_or StateDb (utreexo_accumulator S)) (\<lambda>accumulator.
     and_then (check_merkle_root E h b) (\<lambda>root.
     and_then (coinbase_loop E root (coinbase b)) (\<lambda>(coinbase_value, d).
     and_then (map_res (fill_transaction S) (body_transactions b)) (\<lambda>fts.
     and_then (check_double_spend fts) (\<lambda>_.
     and_then (fold_res (validate_tx_step E S accumulator) (0, d) fts) (\<lambda>(fees, d).
     if coinbase_value > fees then Inl (Err NotEnoughFees)
     else
       and_then (check_authorizations E fts b) (\<lambda>_.
       and_then (check_roots E accumulator d h) (\<lambda>_.
       Inr \<lparr>filled_transactions = fts, computed_merkle_root = root, total_fees = fees,
            coinbase_value = coinbase_value, next_height = height, pv_accumulator_diff = d\<rparr>)))))))))))"

section \<open>Connecting a block\<close>

definition append_commitments ::
  "('acc, 'fr, 'pf) ext \<Rightarrow> orchard_bundle \<Rightarrow> 'fr \<Rightarrow> (orchard_error, 'fr) result" where
  "append_commitments E bundle fr =
     fold_res (\<lambda>fr cmx. ok_or AppendCommitment (frontier_append E fr cmx)) fr
       (extracted_note_commitments bundle)"

definition store_nullifier ::
  "'fr orchard_dbs \<Rightarrow> nullifier \<Rightarrow> (orchard_error, 'fr orchard_dbs) result" where
  "store_nullifier O' n =
     (if has_key (db_nullifiers O') n then Inl (Err (NullifierDoubleSpent n))
      else Inr (put_nullifier n O'))"

definition store_nullifiers ::
  "orchard_bundle \<Rightarrow> 'fr orchard_dbs \<Rightarrow> (orchard_error, 'fr orchard_dbs) result" where
  "store_nullifiers bundle O' = fold_res store_nullifier O' (nullifiers bundle)"

definition connect_orchard ::
  "('acc, 'fr, 'pf) ext \<Rightarrow> ('acc, 'fr) state \<Rightarrow> orchard_bundle \<Rightarrow> 'fr
    \<Rightarrow> (orchard_error, ('acc, 'fr) state \<times> 'fr) result" where
  "connect_orchard E S bundle fr =
     and_then (append_commitments E bundle fr) (\<lambda>fr.
     map_ok (\<lambda>O'. (S\<lparr>st_orchard := O'\<rparr>, fr)) (store_nullifiers bundle (st_orchard S)))"

definition connect_orchard_of ::
  "('acc, 'fr, 'pf) ext \<Rightarrow> ('acc, 'fr) state \<Rightarrow> 'pf transaction \<Rightarrow> 'fr
    \<Rightarrow> (orchard_error, ('acc, 'fr) state \<times> 'fr) result" where
  "connect_orchard_of E S tx fr =
     (case orchard_bundle tx of None \<Rightarrow> Inr (S, fr) | Some bundle \<Rightarrow> connect_orchard E S bundle fr)"

definition spend_input ::
  "txid \<Rightarrow> ('acc, 'fr) state \<times> accumulator_diff \<Rightarrow> nat \<times> out_point \<times> hash
    \<Rightarrow> (connect_tx_error, ('acc, 'fr) state \<times> accumulator_diff) result" where
  "spend_input txid st x =
     (case st of (S, d) \<Rightarrow> case x of (vin, op, utxo_hash) \<Rightarrow>
        map_ok (\<lambda>out.
            (S\<lparr>utxos := fmdrop (out_point_key op) (utxos S),
               stxos := fmupd (out_point_key op)
                 \<lparr>so_output = out, so_inpoint = InRegular txid (word_of_nat vin)\<rparr> (stxos S)\<rparr>,
             diff_remove utxo_hash d))
          (ok_or (CtNoUtxo op) (fmlookup (utxos S) (out_point_key op))))"

definition create_output ::
  "('acc, 'fr, 'pf) ext \<Rightarrow> out_point \<Rightarrow> tx_output \<Rightarrow> ('acc, 'fr) state \<times> accumulator_diff
    \<Rightarrow> ('acc, 'fr) state \<times> accumulator_diff" where
  "create_output E op out st =
     (case st of (S, d) \<Rightarrow>
        (S\<lparr>utxos := fmupd (out_point_key op) out (utxos S)\<rparr>,
         diff_insert (pointed_output_hash E op out) d))"

definition connect_transaction ::
  "('acc, 'fr, 'pf) ext \<Rightarrow> 'pf transaction \<Rightarrow> ('acc, 'fr) state \<times> accumulator_diff \<times> 'fr
    \<Rightarrow> (connect_tx_error, ('acc, 'fr) state \<times> accumulator_diff \<times> 'fr) result" where
  "connect_transaction E tx st =
     (case st of (S, d, fr) \<Rightarrow>
        let txid = tx_txid E tx
        in and_then (fold_res (spend_input txid) (S, d) (List.enumerate 0 (inputs tx))) (\<lambda>st.
           case fold (\<lambda>(vout, out). create_output E (regular_outpoint txid vout) out)
             (List.enumerate 0 (outputs tx)) st of (S, d) \<Rightarrow>
           map_ok (\<lambda>(S, fr). (S, d, fr)) (map_err CtOrchard (connect_orchard_of E S tx fr))))"

text \<open>The end of both ways to connect a block: tip, height, accumulator and Orchard roots.\<close>

definition finish_block ::
  "('acc, 'fr, 'pf) ext \<Rightarrow> ('acc, 'fr) state \<Rightarrow> header \<Rightarrow> nat \<Rightarrow> 'acc \<Rightarrow> accumulator_diff \<Rightarrow> 'fr
    \<Rightarrow> (connect_block_error, ('acc, 'fr) state \<times> 'fr option) result" where
  "finish_block E S h height accumulator d fr =
     (let block_hash = header_hash E h;
          S = S\<lparr>st_tip := Some block_hash, st_height := Some height\<rparr>
      in and_then (ok_or CbUtreexo (apply_diff E accumulator d)) (\<lambda>acc.
         case put_historical_root block_hash (frontier_root E fr) (put_frontier fr (st_orchard S)) of
           (O', root_changed) \<Rightarrow>
             Inr (S\<lparr>utreexo_accumulator := Some acc, st_orchard := O'\<rparr>,
                  if root_changed then Some fr else None)))"

definition connect_block ::
  "('acc, 'fr, 'pf) ext \<Rightarrow> ('acc, 'fr) state \<Rightarrow> header \<Rightarrow> 'pf body
    \<Rightarrow> (connect_block_error, ('acc, 'fr) state \<times> 'fr option) result" where
  "connect_block E S h b =
     (if st_tip S \<noteq> prev_side_hash h
      then Inl (Err (CbInvalidHeader (IhPrevSideHash (st_tip S) (prev_side_hash h))))
      else
     let root = compute_merkle_root E b
     in if root \<noteq> merkle_root h then Inl (Err (CbInvalidBody root (merkle_root h)))
        else
     and_then (ok_or CbDb (utreexo_accumulator S)) (\<lambda>accumulator.
     and_then (ok_or (CbOrchard OrchardDb) (frontier (st_orchard S))) (\<lambda>fr.
     case fold (\<lambda>(vout, out). create_output E (coinbase_outpoint root vout) out)
       (List.enumerate 0 (coinbase b)) (S, diff_default) of (S, d) \<Rightarrow>
     and_then (fold_res (\<lambda>st tx. map_err (CbConnectTransaction (tx_txid E tx))
         (connect_transaction E tx st)) (S, d, fr) (body_transactions b)) (\<lambda>(S, d, fr).
     and_then (case st_height S of None \<Rightarrow> Inr 0 | Some height \<Rightarrow> add_u32 height 1) (\<lambda>height.
     finish_block E S h height accumulator d fr)))))"

text \<open>
  \<open>connect_prevalidated\<close>: the changes are collected, sorted by key and applied: first the deleted
  UTXOs, then the spent outputs, then the new UTXOs.
\<close>

record changes =
  utxo_deletes :: "u8 list list"
  stxo_puts :: "(u8 list \<times> spent_output) list"
  utxo_puts :: "(u8 list \<times> tx_output) list"

definition coinbase_puts :: "merkle_root \<Rightarrow> tx_output list \<Rightarrow> (u8 list \<times> tx_output) list" where
  "coinbase_puts root outs =
     map (\<lambda>(vout, out). (out_point_key (coinbase_outpoint root vout), out)) (List.enumerate 0 outs)"

definition collect_inputs ::
  "txid \<Rightarrow> 'pf filled_transaction \<Rightarrow> changes \<Rightarrow> (connect_block_error, changes) result" where
  "collect_inputs txid ft c =
     fold_res (\<lambda>c (vin, op, _).
       if vin < length (spent_utxos ft)
       then Inr (c\<lparr>utxo_deletes := utxo_deletes c @ [out_point_key op],
                   stxo_puts := stxo_puts c @ [(out_point_key op,
                     \<lparr>so_output = spent_utxos ft ! vin,
                      so_inpoint = InRegular txid (word_of_nat vin)\<rparr>)]\<rparr>)
       else Inl Panic) c (List.enumerate 0 (inputs (ft_transaction ft)))"

definition output_puts :: "txid \<Rightarrow> tx_output list \<Rightarrow> (u8 list \<times> tx_output) list" where
  "output_puts txid outs =
     map (\<lambda>(vout, out). (out_point_key (regular_outpoint txid vout), out)) (List.enumerate 0 outs)"

definition collect_step ::
  "('acc, 'fr, 'pf) ext \<Rightarrow> ('acc, 'fr) state \<times> 'fr \<times> changes \<Rightarrow> 'pf filled_transaction
    \<Rightarrow> (connect_block_error, ('acc, 'fr) state \<times> 'fr \<times> changes) result" where
  "collect_step E st ft =
     (case st of (S, fr, c) \<Rightarrow>
        let tx = ft_transaction ft; txid = tx_txid E tx
        in and_then (collect_inputs txid ft c) (\<lambda>c.
           map_ok (\<lambda>(S, fr). (S, fr, c\<lparr>utxo_puts := utxo_puts c @ output_puts txid (outputs tx)\<rparr>))
             (map_err (\<lambda>e. CbConnectTransaction txid (CtOrchard e)) (connect_orchard_of E S tx fr))))"

definition apply_changes :: "changes \<Rightarrow> ('acc, 'fr) state \<Rightarrow> ('acc, 'fr) state" where
  "apply_changes c S =
     S\<lparr>utxos := fold (\<lambda>(k, out). fmupd k out) (sort_key fst (utxo_puts c))
         (fold fmdrop (sort (utxo_deletes c)) (utxos S)),
       stxos := fold (\<lambda>(k, spent). fmupd k spent) (sort_key fst (stxo_puts c)) (stxos S)\<rparr>"

definition connect_prevalidated_block ::
  "('acc, 'fr, 'pf) ext \<Rightarrow> ('acc, 'fr) state \<Rightarrow> header \<Rightarrow> 'pf body \<Rightarrow> 'pf prevalidated_block
    \<Rightarrow> (connect_block_error, ('acc, 'fr) state \<times> 'fr option) result" where
  "connect_prevalidated_block E S h b pv =
     and_then (ok_or CbDb (utreexo_accumulator S)) (\<lambda>accumulator.
     and_then (ok_or (CbOrchard OrchardDb) (frontier (st_orchard S))) (\<lambda>fr.
     and_then (fold_res (collect_step E)
         (S, fr, \<lparr>utxo_deletes = [], stxo_puts = [],
                  utxo_puts = coinbase_puts (computed_merkle_root pv) (coinbase b)\<rparr>)
         (filled_transactions pv)) (\<lambda>(S, fr, c).
     finish_block E (apply_changes c S) h (next_height pv) accumulator (pv_accumulator_diff pv) fr)))"

fun connect_error_of :: "state_error \<Rightarrow> connect_block_error" where
  "connect_error_of (InvalidHeader h) = CbInvalidHeader h"
| "connect_error_of TooManySigops = CbTooManySigops"
| "connect_error_of BodyTooLarge = CbBodyTooLarge"
| "connect_error_of (InvalidBody e c) = CbInvalidBody e c"
| "connect_error_of UtxoDoubleSpent = CbUtxoDoubleSpent"
| "connect_error_of (UtreexoProofFailed txid) = CbConnectTransaction txid CtUtreexoProofFailed"
| "connect_error_of NotEnoughFees = CbNotEnoughFees"
| "connect_error_of WrongPubKeyForAddress = CbWrongPubKeyForAddress"
| "connect_error_of AuthorizationError = CbAuthorizationError"
| "connect_error_of UtreexoRootsMismatch = CbUtreexoRootsMismatch"
| "connect_error_of e = CbOther e"

definition apply_block ::
  "('acc, 'fr, 'pf) ext \<Rightarrow> ('acc, 'fr) state \<Rightarrow> header \<Rightarrow> 'pf body
    \<Rightarrow> (connect_block_error, ('acc, 'fr) state \<times> 'fr option) result" where
  "apply_block E S h b =
     and_then (map_err connect_error_of (prevalidate_block E S h b))
       (connect_prevalidated_block E S h b)"

section \<open>Disconnecting the tip\<close>

definition disconnect_orchard :: "('acc, 'fr) state \<Rightarrow> orchard_bundle \<Rightarrow> ('acc, 'fr) state" where
  "disconnect_orchard S bundle =
     S\<lparr>st_orchard := fold delete_nullifier (nullifiers bundle) (st_orchard S)\<rparr>"

definition delete_utxo ::
  "('acc, 'fr, 'pf) ext \<Rightarrow> out_point \<Rightarrow> tx_output \<Rightarrow> ('acc, 'fr) state \<times> accumulator_diff
    \<Rightarrow> (('acc, 'fr) state \<times> accumulator_diff) state_result" where
  "delete_utxo E op out st =
     (case st of (S, d) \<Rightarrow>
        let d = diff_remove (pointed_output_hash E op out) d
        in if has_key (utxos S) (out_point_key op)
           then Inr (S\<lparr>utxos := fmdrop (out_point_key op) (utxos S)\<rparr>, d)
           else Inl (Err (NoUtxo op)))"

definition unspend ::
  "('acc, 'fr) state \<times> accumulator_diff \<Rightarrow> out_point \<times> hash
    \<Rightarrow> (('acc, 'fr) state \<times> accumulator_diff) state_result" where
  "unspend st x =
     (case st of (S, d) \<Rightarrow> case x of (op, utxo_hash) \<Rightarrow>
        case fmlookup (stxos S) (out_point_key op) of
          Some spent \<Rightarrow>
            Inr (S\<lparr>stxos := fmdrop (out_point_key op) (stxos S),
                   utxos := fmupd (out_point_key op) (so_output spent) (utxos S)\<rparr>,
                 diff_insert utxo_hash d)
        | None \<Rightarrow> Inl (Err (NoStxo op)))"

definition disconnect_transaction ::
  "('acc, 'fr, 'pf) ext \<Rightarrow> ('acc, 'fr) state \<times> accumulator_diff \<Rightarrow> 'pf transaction
    \<Rightarrow> (('acc, 'fr) state \<times> accumulator_diff) state_result" where
  "disconnect_transaction E st tx =
     (case st of (S, d) \<Rightarrow>
        let S = (case orchard_bundle tx of Some bundle \<Rightarrow> disconnect_orchard S bundle | None \<Rightarrow> S);
            txid = tx_txid E tx
        in and_then (fold_res (\<lambda>st (vout, out). delete_utxo E (regular_outpoint txid vout) out st)
             (S, d) (rev (List.enumerate 0 (outputs tx)))) (\<lambda>st.
           fold_res unspend st (rev (inputs tx))))"

definition disconnect_tip ::
  "('acc, 'fr, 'pf) ext \<Rightarrow> ('acc, 'fr) state \<Rightarrow> header \<Rightarrow> 'pf body \<Rightarrow> 'acc \<Rightarrow> 'fr option
    \<Rightarrow> ('acc, 'fr) state state_result" where
  "disconnect_tip E S h b prev_accumulator prev_frontier =
     and_then (ok_or NoTip (st_tip S)) (\<lambda>tip_hash.
     if tip_hash \<noteq> header_hash E h
     then Inl (Err (InvalidHeader (IhBlockHash tip_hash (header_hash E h))))
     else
     and_then (check_merkle_root E h b) (\<lambda>root.
     and_then (ok_or StateDb (utreexo_accumulator S)) (\<lambda>accumulator.
     and_then (fold_res (disconnect_transaction E) (S, diff_default) (rev (body_transactions b))) (\<lambda>st.
     and_then (fold_res (\<lambda>st (vout, out). delete_utxo E (coinbase_outpoint root vout) out st) st
       (rev (List.enumerate 0 (coinbase b)))) (\<lambda>(S, d).
     and_then (expect (st_height S)) (\<lambda>height.
     and_then
       (case (prev_side_hash h, height) of
          (None, 0) \<Rightarrow> Inr (S\<lparr>st_tip := None, st_height := None\<rparr>)
        | (Some prev, Suc height) \<Rightarrow> Inr (S\<lparr>st_tip := Some prev, st_height := Some height\<rparr>)
        | _ \<Rightarrow> Inl (Err NoTip))
       (\<lambda>S.
     and_then (ok_or Utreexo (apply_diff E accumulator d)) (\<lambda>_.
     let O' = (case prev_frontier of Some fr \<Rightarrow> put_frontier fr (st_orchard S) | None \<Rightarrow> st_orchard S)
     in Inr (S\<lparr>utreexo_accumulator := Some prev_accumulator,
               st_orchard := fst (delete_historical_root tip_hash O')\<rparr>)))))))))"

end
