(* ===== verification/Block_Valid.thy ===== *)
theory Block_Valid
  imports Block
begin

text \<open>
  What an accepted block guarantees: no double spends, conservation of value over the block, a
  valid authorization of the right address for every input, and agreement of the two validators.
\<close>

section \<open>The two validators\<close>

text \<open>The two validators agree, so what follows holds for blocks that either of them accepts.\<close>

lemma validate_block_prevalidate:
  "validate_block E S h b = map_ok total_fees (prevalidate_block E S h b)"
  unfolding validate_block_def prevalidate_block_def
  by (auto simp: and_then_def map_ok_def split: sum.splits prod.splits)

section \<open>Double spends\<close>

lemma adjacent_equal_sorted: "sorted xs \<Longrightarrow> adjacent_equal xs \<longleftrightarrow> \<not> distinct xs"
proof (induction xs rule: adjacent_equal.induct)
  case (1 x y xs)
  then have "x \<le> y" "\<And>z. z \<in> set xs \<Longrightarrow> y \<le> z" by auto
  then have "x \<in> set (y # xs) \<longleftrightarrow> x = y" by (metis antisym list.set_intros(1) set_ConsD)
  with 1 show ?case by auto
qed auto

definition spent_outpoints :: "'pf transaction list \<Rightarrow> out_point list" where
  "spent_outpoints txs = concat (map (\<lambda>tx. map fst (inputs tx)) txs)"

lemma all_input_keys_spent:
  "all_input_keys fts = map out_point_key (spent_outpoints (map ft_transaction fts))"
  by (induction fts) (auto simp: all_input_keys_def spent_outpoints_def)

lemma double_spend_cases:
  "check_double_spend fts =
     (if distinct (spent_outpoints (map ft_transaction fts)) then Inr () else Inl (Err UtxoDoubleSpent))"
proof -
  have "adjacent_equal (sort (all_input_keys fts)) \<longleftrightarrow> \<not> distinct (all_input_keys fts)"
    using adjacent_equal_sorted [of "sort (all_input_keys fts)"] by simp
  also have "\<dots> \<longleftrightarrow> \<not> distinct (spent_outpoints (map ft_transaction fts))"
    by (simp add: all_input_keys_spent distinct_map inj_out_point_key)
  finally show ?thesis by (simp add: check_double_spend_def)
qed

lemma double_spend_ok:
  "check_double_spend fts = Inr () \<Longrightarrow> distinct (spent_outpoints (map ft_transaction fts))"
  by (simp add: double_spend_cases split: if_splits)

text \<open>
  The sort-and-scan over the encoded keys finds a double spend exactly when some out point is
  spent twice in the block, within one transaction or across transactions.
\<close>

theorem check_double_spend_correct:
  "check_double_spend fts =
     (if distinct (spent_outpoints (map ft_transaction fts)) then Inr () else Inl (Err UtxoDoubleSpent))"
  by (rule double_spend_cases)

section \<open>Accepted blocks\<close>

lemma fill_transaction_Inr:
  assumes "fill_transaction S tx = Inr ft"
  shows "ft_transaction ft = tx" "length (spent_utxos ft) = length (inputs tx)"
    "\<And>i. i < length (inputs tx) \<Longrightarrow>
       fmlookup (utxos S) (out_point_key (fst (inputs tx ! i))) = Some (spent_utxos ft ! i)"
proof -
  from assms obtain spent where s: "ft = \<lparr>ft_transaction = tx, spent_utxos = spent\<rparr>"
      "map_res (\<lambda>(op, _). ok_or (NoUtxo op) (fmlookup (utxos S) (out_point_key op))) (inputs tx)
        = (Inr spent :: tx_output list state_result)"
    by (auto simp: fill_transaction_def result_simps)
  show "ft_transaction ft = tx" "length (spent_utxos ft) = length (inputs tx)"
    using s map_res_eq_Inr_length by auto
  show "fmlookup (utxos S) (out_point_key (fst (inputs tx ! i))) = Some (spent_utxos ft ! i)"
    if "i < length (inputs tx)" for i
    using map_res_eq_Inr_nth [OF s(2) that] s(1) by (auto simp: result_simps split: prod.splits)
qed

lemma map_res_fill:
  assumes "map_res (fill_transaction S) txs = Inr fts"
  shows "map ft_transaction fts = txs" "length fts = length txs"
    "\<And>i. i < length txs \<Longrightarrow> fill_transaction S (txs ! i) = Inr (fts ! i)"
proof -
  show len: "length fts = length txs" using map_res_eq_Inr_length [OF assms] .
  show nth: "fill_transaction S (txs ! i) = Inr (fts ! i)" if "i < length txs" for i
    using map_res_eq_Inr_nth [OF assms that] .
  show "map ft_transaction fts = txs"
    using len nth fill_transaction_Inr(1) by (intro nth_equalityI) auto
qed

lemma coinbase_loop_aux:
  "fold_res (\<lambda>(value, d) (vout, out).
       map_ok (\<lambda>v. (v, diff_insert (pointed_output_hash E (coinbase_outpoint root vout) out) d))
         (add_amount value (get_value out))) (a, d) (List.enumerate n outs) = Inr (v, d') \<Longrightarrow>
   v = a + sum_list (map get_value outs) \<and>
   d' = fold (\<lambda>(vout, out). diff_insert (pointed_output_hash E (coinbase_outpoint root vout) out))
     (List.enumerate n outs) d"
proof (induction outs arbitrary: a d n)
  case Nil
  then show ?case by simp
next
  case (Cons out outs)
  then show ?case by (fastforce simp: result_simps)
qed

lemma coinbase_loop_Inr:
  "coinbase_loop E root outs = Inr (v, d) \<Longrightarrow>
   v = sum_list (map get_value outs) \<and>
   d = fold (\<lambda>(vout, out). diff_insert (pointed_output_hash E (coinbase_outpoint root vout) out))
     (List.enumerate 0 outs) diff_default"
  unfolding coinbase_loop_def by (drule coinbase_loop_aux) simp

text \<open>The balance of a transaction: what its inputs hold beyond its outputs.\<close>

definition tx_balance :: "'pf filled_transaction \<Rightarrow> int" where
  "tx_balance ft = int (sum_list (map get_value (spent_utxos ft)))
     - int (sum_list (map get_value (outputs (ft_transaction ft)))) + bundle_balance (ft_transaction ft)"

lemma validate_filled_balance:
  assumes "validate_filled_transaction E ft = Inr fee"
  shows "int fee = tx_balance ft"
    "\<forall>(op, h, out)\<in>set (filled_inputs ft). h = pointed_output_hash E op out"
proof -
  note c = assms [unfolded validate_filled_cases]
  then show "\<forall>(op, h, out)\<in>set (filled_inputs ft). h = pointed_output_hash E op out" by blast
  show "int fee = tx_balance ft"
    using c by (auto simp: tx_balance_def bundle_balance_def split: option.splits if_splits)
qed

lemma validate_tx_step_Inr:
  assumes "validate_tx_step E S acc (fees, d) ft = Inr (fees', d')"
  shows "\<exists>fee. validate_filled_transaction E ft = Inr fee \<and> fees' = fees + fee"
    "d' = tx_diff E (ft_transaction ft) d" "validate_anchor_of E S (ft_transaction ft) = Inr ()"
    "forest_verify E acc (utreexo_proof (ft_transaction ft)) (map snd (inputs (ft_transaction ft))) = Some True"
  using assms by (auto simp: validate_tx_step_def result_simps Let_def split: if_splits)

lemma validate_txs_Inr:
  "fold_res (validate_tx_step E S acc) (fees, d) fts = Inr (fees', d') \<Longrightarrow>
   int fees' = int fees + sum_list (map tx_balance fts)
   \<and> d' = fold (\<lambda>ft. tx_diff E (ft_transaction ft)) fts d
   \<and> (\<forall>ft\<in>set fts. validate_anchor_of E S (ft_transaction ft) = Inr ()
       \<and> (\<forall>(op, h, out)\<in>set (filled_inputs ft). h = pointed_output_hash E op out)
       \<and> forest_verify E acc (utreexo_proof (ft_transaction ft)) (map snd (inputs (ft_transaction ft)))
           = Some True)"
proof (induction fts arbitrary: fees d)
  case Nil
  then show ?case by simp
next
  case (Cons ft fts)
  then obtain fees1 d1 where s: "validate_tx_step E S acc (fees, d) ft = Inr (fees1, d1)"
      "fold_res (validate_tx_step E S acc) (fees1, d1) fts = Inr (fees', d')"
    by (auto simp: result_simps)
  from validate_tx_step_Inr [OF s(1)] obtain fee where fee: "validate_filled_transaction E ft = Inr fee"
      "fees1 = fees + fee" by blast
  from Cons.IH [OF s(2)] validate_tx_step_Inr(2-4) [OF s(1)] validate_filled_balance [OF fee(1)] fee(2)
  show ?case by simp
qed

lemma check_addresses_Inr:
  "check_addresses E auths spent = Inr () \<longleftrightarrow>
     (\<forall>i < min (length auths) (length spent). auth_address E (auths ! i) = address (spent ! i))"
  unfolding check_addresses_def
  by (auto simp: fold_res_unit case_prod_beta set_zip split: if_splits)

lemma prevalidate_Inr:
  assumes "prevalidate_block E S h b = Inr pv"
  obtains acc d where
    "prev_side_hash h = st_tip S" "next_height_of S = Inr (next_height pv)"
    "utreexo_accumulator S = Some acc"
    "compute_merkle_root E b = merkle_root h" "computed_merkle_root pv = merkle_root h"
    "coinbase_loop E (merkle_root h) (coinbase b) = Inr (coinbase_value pv, d)"
    "map_res (fill_transaction S) (body_transactions b) = Inr (filled_transactions pv)"
    "check_double_spend (filled_transactions pv) = Inr ()"
    "fold_res (validate_tx_step E S acc) (0, d) (filled_transactions pv)
      = Inr (total_fees pv, pv_accumulator_diff pv)"
    "coinbase_value pv \<le> total_fees pv"
    "check_authorizations E (filled_transactions pv) b = Inr ()"
    "check_roots E acc (pv_accumulator_diff pv) h = Inr ()"
  using assms
  by (auto simp: prevalidate_block_def check_header_def check_merkle_root_def result_simps Let_def
      split: if_splits)

lemma spent_outpoints_Cons:
  "spent_outpoints (tx # txs) = map fst (inputs tx) @ spent_outpoints txs"
  by (simp add: spent_outpoints_def)

lemma filled_values:
  assumes "map_res (fill_transaction S) txs = Inr fts"
  shows "map (\<lambda>op. fmlookup (utxos S) (out_point_key op)) (spent_outpoints txs)
    = map Some (concat (map spent_utxos fts))"
  using assms
proof (induction txs arbitrary: fts)
  case Nil
  then show ?case by (simp add: spent_outpoints_def)
next
  case (Cons tx txs)
  then obtain ft fts' where f: "fts = ft # fts'" "fill_transaction S tx = Inr ft"
      "map_res (fill_transaction S) txs = Inr fts'" by (auto simp: result_simps)
  have "map (\<lambda>op. fmlookup (utxos S) (out_point_key op)) (map fst (inputs tx)) = map Some (spent_utxos ft)"
    using fill_transaction_Inr [OF f(2)] by (intro nth_equalityI) auto
  with Cons.IH [OF f(3)] f(1) show ?case by (simp add: spent_outpoints_Cons)
qed

definition output_value :: "'pf transaction list \<Rightarrow> nat" where
  "output_value txs = sum_list (map (\<lambda>tx. sum_list (map get_value (outputs tx))) txs)"

lemma sum_tx_balance:
  "sum_list (map tx_balance fts) = int (sum_list (map get_value (concat (map spent_utxos fts))))
     - int (output_value (map ft_transaction fts)) + sum_list (map bundle_balance (map ft_transaction fts))"
  by (induction fts) (auto simp: tx_balance_def output_value_def)

section \<open>A block\<close>

text \<open>
  A state with one deposit of 10 and a block on it: a transaction that spends the deposit with an output
  of 7 and one Orchard action, and a coinbase of 3.
\<close>

definition example_tx :: "unit transaction" where
  "example_tx = \<lparr>inputs = [(Deposit 1 0, 66)], utreexo_proof = (), outputs = [example_output 7],
     orchard_bundle = Some \<lparr>
       actions = [\<lparr>act_nullifier = Nullifier 5, act_cmx = Cmx 9, act_data = []\<rparr>],
       spends_enabled = False, value_balance = 0, bundle_anchor = Anchor 0, bundle_authorization = []\<rparr>\<rparr>"

definition example_body :: "unit body" where
  "example_body = \<lparr>coinbase = [example_output 3], body_transactions = [example_tx],
     body_authorizations = [\<lparr>verifying_key = 3, signature = 4\<rparr>]\<rparr>"

definition example_header :: header where
  "example_header = \<lparr>merkle_root = compute_merkle_root example_ext example_body,
     prev_side_hash = None, prev_main_hash = MainHash 0, roots = [66, 66]\<rparr>"

definition example_orchard :: "cmx list orchard_dbs" where
  "example_orchard = \<lparr>block_hash_to_root = fmap_of_list [(None, Anchor 0)], frontier = Some [],
     historical_roots = fmap_of_list [(Anchor 0, None)], db_nullifiers = fmempty\<rparr>"

definition example_state :: "(hash list, cmx list) state" where
  "example_state = \<lparr>st_tip = None, st_height = None,
     utxos = fmap_of_list [(out_point_key (Deposit 1 0), example_output 10)], stxos = fmempty,
     pending_withdrawal_bundle = None, latest_failed_withdrawal_bundle = None,
     withdrawal_bundles = fmempty, deposit_blocks = fmempty, withdrawal_bundle_event_blocks = fmempty,
     st_orchard = example_orchard, utreexo_accumulator = Some [66]\<rparr>"

definition example_filled :: "unit filled_transaction" where
  "example_filled = \<lparr>ft_transaction = example_tx, spent_utxos = [example_output 10]\<rparr>"

lemma example_hash [simp]: "pointed_output_hash example_ext op (example_output v) = 66"
  by (cases op rule: out_point_rank.cases)
    (simp_all add: pointed_output_hash_def example_ext_def ser_output_def example_output_def address_bytes_def)

lemma example_fill: "fill_transaction example_state example_tx = Inr example_filled"
  by (simp add: fill_transaction_def example_state_def example_tx_def example_filled_def)

lemma example_validate: "validate_filled_transaction example_ext example_filled = Inr 3"
  unfolding validate_filled_cases
  by (simp add: filled_inputs_def example_filled_def example_tx_def get_value_def)
    (simp add: example_output_def)

lemma example_auth: "verify_authorizations example_ext example_body = Inr ()"
  by (simp add: verify_authorizations_def verify_orchard_def check_count_def body_messages_def
      chunks.simps CHUNK_SIZE_def Let_def example_body_def example_tx_def example_ext_def tx_txid_def)

lemma example_diff:
  "tx_diff example_ext example_tx (diff_insert 66 diff_default) = diff_insert 66 diff_default"
  by (simp add: tx_diff_def example_tx_def diff_insert_def diff_remove_def diff_default_def)

lemma example_limits: "check_limits example_ext 0 example_body = Inr ()"
  by (simp add: check_limits_def body_sigops_limit_def body_size_limit_def example_body_def ser_body_def
      ser_vec_def ser_authorization_def example_ext_def ser_output_def example_output_def address_bytes_def
      ser_transaction_def example_tx_def ser_input_def ser_option_def)

definition example_prevalidated :: "unit prevalidated_block" where
  "example_prevalidated = \<lparr>filled_transactions = [example_filled],
     computed_merkle_root = merkle_root example_header, total_fees = 3, coinbase_value = 3,
     next_height = 0, pv_accumulator_diff = diff_insert 66 diff_default\<rparr>"

lemma example_prevalidate:
  "prevalidate_block example_ext example_state example_header example_body = Inr example_prevalidated"
proof -
  have "coinbase_loop example_ext r (coinbase example_body) = Inr (3, diff_insert 66 diff_default)" for r
    by (simp add: coinbase_loop_def example_body_def get_value_def add_amount_def checked_add_def)
      (simp add: example_output_def add_amount_def checked_add_def)
  moreover have "map_res (fill_transaction example_state) (body_transactions example_body) = Inr [example_filled]"
    by (simp add: example_body_def example_fill)
  moreover have "check_double_spend [example_filled] = Inr ()"
    by (simp add: double_spend_cases spent_outpoints_def example_filled_def example_tx_def)
  moreover have "fold_res (validate_tx_step example_ext example_state [66]) (0, diff_insert 66 diff_default)
      [example_filled] = Inr (3, diff_insert 66 diff_default)"
  proof -
    have "validate_anchor_of example_ext example_state example_tx = Inr ()"
      by (simp add: validate_anchor_of_def example_tx_def validate_orchard_anchor_def example_state_def
          example_orchard_def)
    moreover have "forest_verify example_ext [66] (utreexo_proof example_tx) (map snd (inputs example_tx)) = Some True"
      by (simp add: example_ext_def example_tx_def)
    ultimately show ?thesis
      using example_validate example_diff
      by (simp add: validate_tx_step_def example_filled_def add_amount_def checked_add_def)
  qed
  moreover have "check_authorizations example_ext [example_filled] example_body = Inr ()"
  proof -
    have "check_addresses example_ext (body_authorizations example_body) [example_output 10] = Inr ()"
      by (simp add: check_addresses_def example_body_def auth_address_def key_address_def)
        (simp add: example_ext_def example_output_def)
    then show ?thesis by (simp add: check_authorizations_def example_auth example_filled_def)
  qed
  moreover have "check_roots example_ext [66] (diff_insert 66 diff_default) example_header = Inr ()"
    by (simp add: check_roots_def apply_diff_def diff_insert_def diff_default_def example_ext_def
        example_header_def)
  moreover have "check_header example_state example_header = Inr ()"
    "next_height_of example_state = Inr 0" "utreexo_accumulator example_state = Some [66]"
    by (simp_all add: check_header_def next_height_of_def example_state_def example_header_def)
  moreover have "check_merkle_root example_ext example_header example_body = Inr (merkle_root example_header)"
    by (simp add: check_merkle_root_def example_header_def)
  ultimately show ?thesis by (simp add: prevalidate_block_def example_limits example_prevalidated_def)
qed

text \<open>
  C1. An accepted block creates no value: its inputs are distinct, all of them unspent outputs of
  the state, and what the coinbase and the transactions pay out is at most what the spent outputs
  hold plus what the bundles release from the shielded pool.
\<close>

theorem prevalidate_no_inflation:
  assumes "prevalidate_block E S h b = Inr pv"
  shows "distinct (spent_outpoints (body_transactions b))
    \<and> (\<exists>spent. map (\<lambda>op. fmlookup (utxos S) (out_point_key op)) (spent_outpoints (body_transactions b))
          = map Some spent
        \<and> int (sum_list (map get_value (coinbase b))) + int (output_value (body_transactions b))
          \<le> int (sum_list (map get_value spent)) + sum_list (map bundle_balance (body_transactions b)))"
proof -
  from prevalidate_Inr [OF assms] obtain acc d where
    cb: "coinbase_loop E (merkle_root h) (coinbase b) = Inr (coinbase_value pv, d)"
    and fill: "map_res (fill_transaction S) (body_transactions b) = Inr (filled_transactions pv)"
    and ds: "check_double_spend (filled_transactions pv) = Inr ()"
    and txs: "fold_res (validate_tx_step E S acc) (0, d) (filled_transactions pv)
      = Inr (total_fees pv, pv_accumulator_diff pv)"
    and fees: "coinbase_value pv \<le> total_fees pv" by metis
  have ftxs: "map ft_transaction (filled_transactions pv) = body_transactions b"
    using map_res_fill(1) [OF fill] .
  have "distinct (spent_outpoints (body_transactions b))"
    using ds double_spend_ok ftxs by metis
  moreover have "int (sum_list (map get_value (coinbase b))) \<le> sum_list (map tx_balance (filled_transactions pv))"
    using validate_txs_Inr [OF txs] coinbase_loop_Inr [OF cb] fees by simp
  ultimately show ?thesis
    using filled_values [OF fill] sum_tx_balance [of "filled_transactions pv"] ftxs by auto
qed

theorem prevalidate_no_inflation_witness:
  "prevalidate_block example_ext example_state example_header example_body = Inr example_prevalidated
   \<and> distinct (spent_outpoints (body_transactions example_body))"
  using prevalidate_no_inflation [OF example_prevalidate] example_prevalidate by blast

text \<open>
  C2. Every input of an accepted block is authorized by its owner: there is exactly one
  authorization per input, the \<open>i\<close>-th one is by a key whose address is the address of the output that
  the \<open>i\<close>-th input spends, and it is a valid signature of the transaction that owns the input, given
  that an accepted signature batch contains only valid signatures.
\<close>

theorem prevalidate_inputs_authorized:
  assumes "prevalidate_block E S h b = Inr pv"
    and "\<forall>ms. verify_batch E ms \<longrightarrow> (\<forall>(m, s, k)\<in>set ms. valid m s k)"
  shows "length (body_authorizations b) = length (spent_outpoints (body_transactions b))
    \<and> (\<forall>i < length (body_authorizations b). \<exists>out.
         fmlookup (utxos S) (out_point_key (spent_outpoints (body_transactions b) ! i)) = Some out
         \<and> auth_address E (body_authorizations b ! i) = address out
         \<and> valid (body_messages E (body_transactions b) ! i) (signature (body_authorizations b ! i))
             (verifying_key (body_authorizations b ! i)))"
proof -
  from prevalidate_Inr [OF assms(1)] have
    fill: "map_res (fill_transaction S) (body_transactions b) = Inr (filled_transactions pv)"
    and auth: "check_authorizations E (filled_transactions pv) b = Inr ()" by metis+
  let ?spent = "concat (map spent_utxos (filled_transactions pv))"
  have addr: "check_addresses E (body_authorizations b) ?spent = Inr ()"
    and ver: "verify_authorizations E b = Inr ()"
    using auth by (auto simp: check_authorizations_def result_simps split: sum.splits fail.splits)
  note sound = verify_authorizations_ok [OF ver assms(2)]
  have ops: "length (spent_outpoints txs) = length (body_messages E txs)" for txs :: "'a transaction list"
    by (induction txs) (auto simp: spent_outpoints_def body_messages_def)
  note vals = filled_values [OF fill]
  have lens: "length ?spent = length (spent_outpoints (body_transactions b))"
    using arg_cong [OF vals, of length] by simp
  have "fmlookup (utxos S) (out_point_key (spent_outpoints (body_transactions b) ! i)) = Some (?spent ! i)"
    if "i < length ?spent" for i
    using arg_cong [OF vals, of "\<lambda>xs. xs ! i"] that lens by simp
  with addr sound ops [of "body_transactions b"] lens show ?thesis
    by (auto simp: check_addresses_Inr)
qed

theorem prevalidate_inputs_authorized_witness:
  "prevalidate_block example_ext example_state example_header example_body = Inr example_prevalidated
   \<and> length (body_authorizations example_body) = length (spent_outpoints (body_transactions example_body))"
  using prevalidate_inputs_authorized [OF example_prevalidate, of "\<lambda>_ _ _. True"] example_prevalidate
  by blast

end
