(* ===== verification/Block_Connect.thy ===== *)
theory Block_Connect
  imports Block_Valid
begin

text \<open>
  Connecting a block: the batched \<open>connect_prevalidated\<close> agrees with the sequential \<open>connect\<close>, and no
  nullifier is accepted twice.
\<close>

section \<open>Effect of one transaction\<close>

definition input_keys :: "'pf transaction \<Rightarrow> u8 list list" where
  "input_keys tx = map (\<lambda>(op, _). out_point_key op) (inputs tx)"

definition spent_puts :: "txid \<Rightarrow> nat \<Rightarrow> (out_point \<times> hash) list \<Rightarrow> tx_output list
    \<Rightarrow> (u8 list \<times> spent_output) list" where
  "spent_puts txid n ins spent =
     map (\<lambda>((vin, op, _), out). (out_point_key op,
       \<lparr>so_output = out, so_inpoint = InRegular txid (word_of_nat vin)\<rparr>)) (zip (List.enumerate n ins) spent)"

lemma spend_inputs:
  assumes "length spent = length ins" "distinct (map (\<lambda>(op, _). out_point_key op) ins)"
    and "\<And>i. i < length ins \<Longrightarrow> fmlookup (utxos S) (out_point_key (fst (ins ! i))) = Some (spent ! i)"
  shows "fold_res (spend_input txid) (S, d) (List.enumerate n ins) =
    Inr (S\<lparr>utxos := drops (map (\<lambda>(op, _). out_point_key op) ins) (utxos S),
           stxos := puts (spent_puts txid n ins spent) (stxos S)\<rparr>,
         fold (\<lambda>(_, h). diff_remove h) ins d)"
  using assms
proof (induction ins arbitrary: S d n spent)
  case Nil
  then show ?case by (simp add: spent_puts_def)
next
  case (Cons x ins)
  obtain op h where x: "x = (op, h)" by (cases x)
  obtain out spent' where sp: "spent = out # spent'" using Cons.prems(1) by (cases spent) auto
  have out: "fmlookup (utxos S) (out_point_key op) = Some out"
    using Cons.prems(3) [of 0] x sp by simp
  let ?S = "S\<lparr>utxos := fmdrop (out_point_key op) (utxos S),
     stxos := fmupd (out_point_key op) \<lparr>so_output = out, so_inpoint = InRegular txid (word_of_nat n)\<rparr> (stxos S)\<rparr>"
  have "fmlookup (utxos ?S) (out_point_key (fst (ins ! i))) = Some (spent' ! i)" if "i < length ins" for i
  proof -
    have "fst (ins ! i) \<noteq> op" using Cons.prems(2) x that
      by (metis (mono_tags, lifting) case_prod_conv distinct.simps(2) fst_conv imageI list.set_map
          list.simps(9) nth_mem prod.collapse)
    then show ?thesis using Cons.prems(3) [of "Suc i"] that sp by simp
  qed
  with Cons.IH [of spent' ?S "diff_remove h d" "Suc n"] Cons.prems(1,2) sp x out
  show ?case by (simp add: spend_input_def spent_puts_def)
qed

lemma create_outputs:
  "fold (\<lambda>(vout, out). create_output E (f vout) out) xs (S, d) =
     (S\<lparr>utxos := puts (map (\<lambda>(vout, out). (out_point_key (f vout), out)) xs) (utxos S)\<rparr>,
      fold (\<lambda>(vout, out). diff_insert (pointed_output_hash E (f vout) out)) xs d)"
  by (induction xs arbitrary: S d) (auto simp: create_output_def)

lemma collect_inputs_ok:
  assumes "length (spent_utxos ft) = length (inputs (ft_transaction ft))"
  shows "collect_inputs txid ft c =
    Inr (c\<lparr>utxo_deletes := utxo_deletes c @ input_keys (ft_transaction ft),
           stxo_puts := stxo_puts c @ spent_puts txid 0 (inputs (ft_transaction ft)) (spent_utxos ft)\<rparr>)"
proof -
  have "fold_res (\<lambda>c (vin, op, _).
       if vin < length (spent_utxos ft)
       then Inr (c\<lparr>utxo_deletes := utxo_deletes c @ [out_point_key op],
                   stxo_puts := stxo_puts c @ [(out_point_key op,
                     \<lparr>so_output = spent_utxos ft ! vin,
                      so_inpoint = InRegular txid (word_of_nat vin)\<rparr>)]\<rparr>)
       else Inl Panic) c (List.enumerate n ins) =
     (Inr (c\<lparr>utxo_deletes := utxo_deletes c @ map (\<lambda>(op, _). out_point_key op) ins,
           stxo_puts := stxo_puts c @ spent_puts txid n ins (drop n (spent_utxos ft))\<rparr>)
       :: (connect_block_error, changes) result)"
    if "n + length ins = length (spent_utxos ft)" for n ins c
    using that
  proof (induction ins arbitrary: n c)
    case Nil
    then show ?case by (simp add: spent_puts_def)
  next
    case (Cons x ins)
    moreover have "drop n (spent_utxos ft) = spent_utxos ft ! n # drop (Suc n) (spent_utxos ft)"
      using Cons.prems by (intro Cons_nth_drop_Suc [symmetric]) simp
    ultimately show ?case by (simp add: spent_puts_def split: prod.splits)
  qed
  from this [of 0] assms show ?thesis by (simp add: collect_inputs_def input_keys_def)
qed

section \<open>The batched changes\<close>

text \<open>Applying the changes in the order in which they were collected.\<close>

definition apply_raw :: "changes \<Rightarrow> ('acc, 'fr) state \<Rightarrow> ('acc, 'fr) state" where
  "apply_raw c S = S\<lparr>utxos := puts (utxo_puts c) (drops (utxo_deletes c) (utxos S)),
     stxos := puts (stxo_puts c) (stxos S)\<rparr>"

lemma apply_changes_raw: "apply_changes c S = apply_raw c S"
  by (simp add: apply_changes_def apply_raw_def drops_sort puts_sort)

lemma connect_orchard_apply_raw:
  "connect_orchard_of E (apply_raw c S) tx fr
     = map_ok (\<lambda>(S, fr). (apply_raw c S, fr)) (connect_orchard_of E S tx fr)"
  by (auto simp: connect_orchard_of_def connect_orchard_def apply_raw_def and_then_def map_ok_def
      split: option.splits sum.splits)

lemma connect_orchard_utxos:
  "connect_orchard_of E S tx fr = Inr (S', fr') \<Longrightarrow> utxos S' = utxos S"
  by (auto simp: connect_orchard_of_def connect_orchard_def result_simps split: option.splits)

definition created_keys :: "('acc, 'fr, 'pf) ext \<Rightarrow> 'pf transaction \<Rightarrow> u8 list list" where
  "created_keys E tx = map fst (output_puts (tx_txid E tx) (outputs tx))"

lemma connect_step_sim:
  assumes fill: "fill_transaction S0 tx = Inr ft" and S: "utxos S = utxos S0"
    and dist: "distinct (input_keys tx)"
    and fresh: "set (input_keys tx) \<inter> (set (utxo_deletes c) \<union> fst ` set (utxo_puts c)) = {}"
  shows "map_err (CbConnectTransaction (tx_txid E tx)) (connect_transaction E tx (apply_raw c S, d, fr))
    = map_ok (\<lambda>(S, fr, c). (apply_raw c S, tx_diff E tx d, fr)) (collect_step E (S, fr, c) ft)"
proof -
  let ?txid = "tx_txid E tx"
  note f = fill_transaction_Inr [OF fill]
  let ?c1 = "c\<lparr>utxo_deletes := utxo_deletes c @ input_keys tx,
     stxo_puts := stxo_puts c @ spent_puts ?txid 0 (inputs tx) (spent_utxos ft)\<rparr>"
  let ?c2 = "?c1\<lparr>utxo_puts := utxo_puts c @ output_puts ?txid (outputs tx)\<rparr>"
  have look: "fmlookup (utxos (apply_raw c S)) (out_point_key (fst (inputs tx ! i))) = Some (spent_utxos ft ! i)"
    if "i < length (inputs tx)" for i
  proof -
    have "out_point_key (fst (inputs tx ! i)) \<in> set (input_keys tx)"
      using that by (force simp: input_keys_def in_set_conv_nth case_prod_beta)
    with fresh have "out_point_key (fst (inputs tx ! i)) \<notin> set (utxo_deletes c)"
      "out_point_key (fst (inputs tx ! i)) \<notin> fst ` set (utxo_puts c)" by blast+
    then show ?thesis using f(3) [OF that] S
      by (simp add: apply_raw_def lookup_puts_absent lookup_drops)
  qed
  have ins: "fold_res (spend_input ?txid) (apply_raw c S, d) (List.enumerate 0 (inputs tx)) =
      Inr (apply_raw ?c1 S, fold (\<lambda>(_, h). diff_remove h) (inputs tx) d)"
  proof -
    have "drops (input_keys tx) (puts (utxo_puts c) (drops (utxo_deletes c) (utxos S)))
        = puts (utxo_puts c) (drops (utxo_deletes c @ input_keys tx) (utxos S))"
      using fresh by (simp add: drops_puts Int_Un_distrib)
    then show ?thesis
      using spend_inputs [OF f(2), of "apply_raw c S" ?txid d 0] dist look
      by (simp add: input_keys_def apply_raw_def)
  qed
  have outs: "fold (\<lambda>(vout, out). create_output E (regular_outpoint ?txid vout) out)
      (List.enumerate 0 (outputs tx)) (apply_raw ?c1 S, fold (\<lambda>(_, h). diff_remove h) (inputs tx) d)
      = (apply_raw ?c2 S, tx_diff E tx d)"
    by (simp add: create_outputs tx_diff_def apply_raw_def output_puts_def)
  have l: "connect_transaction E tx (apply_raw c S, d, fr)
      = map_ok (\<lambda>(S, fr). (apply_raw ?c2 S, tx_diff E tx d, fr)) (map_err CtOrchard (connect_orchard_of E S tx fr))"
    by (simp add: connect_transaction_def ins outs connect_orchard_apply_raw)
      (auto simp: map_ok_def map_err_def Let_def split: sum.splits fail.splits)
  have "collect_step E (S, fr, c) ft = map_ok (\<lambda>(S, fr). (S, fr, ?c2))
      (map_err (\<lambda>e. CbConnectTransaction ?txid (CtOrchard e)) (connect_orchard_of E S tx fr))"
    using f(1,2) by (simp add: collect_step_def collect_inputs_ok Let_def)
  with l show ?thesis
    by (auto simp: map_ok_def map_err_def Let_def split: sum.splits fail.splits)
qed

lemma connect_orchard_frame:
  "connect_orchard_of E S tx fr = Inr (S', fr') \<Longrightarrow> \<exists>O'. S' = S\<lparr>st_orchard := O'\<rparr>"
  by (auto simp: connect_orchard_of_def connect_orchard_def result_simps split: option.splits
      intro: exI [of _ "st_orchard S"])

lemma collect_step_Inr:
  assumes "collect_step E (S, fr, c) ft = Inr (S', fr', c')"
    and "length (spent_utxos ft) = length (inputs (ft_transaction ft))"
  shows "utxos S' = utxos S" "st_height S' = st_height S"
    "utxo_deletes c' = utxo_deletes c @ input_keys (ft_transaction ft)"
    "map fst (utxo_puts c') = map fst (utxo_puts c) @ created_keys E (ft_transaction ft)"
  using assms connect_orchard_frame [of E S "ft_transaction ft" fr]
  by (force simp: collect_step_def collect_inputs_ok result_simps Let_def created_keys_def)+

lemma and_then_map_ok: "and_then (map_ok f m) g = and_then m (\<lambda>x. g (f x))"
  by (cases m) auto

lemma map_ok_and_then: "map_ok f (and_then m g) = and_then m (\<lambda>x. map_ok f (g x))"
  by (cases m) auto

lemma connect_sim:
  assumes "map_res (fill_transaction S0) txs = Inr fts" "utxos S = utxos S0"
    and "distinct (concat (map input_keys txs))"
    and "set (concat (map input_keys txs)) \<inter>
      (set (utxo_deletes c) \<union> fst ` set (utxo_puts c) \<union> set (concat (map (created_keys E) txs))) = {}"
  shows "fold_res (\<lambda>st tx. map_err (CbConnectTransaction (tx_txid E tx)) (connect_transaction E tx st))
      (apply_raw c S, d, fr) txs
    = map_ok (\<lambda>(S, fr, c). (apply_raw c S, fold (tx_diff E) txs d, fr))
        (fold_res (collect_step E) (S, fr, c) fts)"
  using assms
proof (induction txs arbitrary: fts S fr c d)
  case Nil
  then show ?case by simp
next
  case (Cons tx txs)
  then obtain ft fts' where f: "fts = ft # fts'" "fill_transaction S0 tx = Inr ft"
      "map_res (fill_transaction S0) txs = Inr fts'" by (auto simp: result_simps)
  note ftx = fill_transaction_Inr [OF f(2)]
  have step: "map_err (CbConnectTransaction (tx_txid E tx)) (connect_transaction E tx (apply_raw c S, d, fr))
      = map_ok (\<lambda>(S, fr, c). (apply_raw c S, tx_diff E tx d, fr)) (collect_step E (S, fr, c) ft)"
    using Cons.prems(3,4) by (intro connect_step_sim [OF f(2) Cons.prems(2)]) auto
  have rest: "fold_res (\<lambda>st tx. map_err (CbConnectTransaction (tx_txid E tx)) (connect_transaction E tx st))
        (apply_raw c1 S1, tx_diff E tx d, fr1) txs
      = map_ok (\<lambda>(S, fr, c). (apply_raw c S, fold (tx_diff E) txs (tx_diff E tx d), fr))
          (fold_res (collect_step E) (S1, fr1, c1) fts')"
    if "collect_step E (S, fr, c) ft = Inr (S1, fr1, c1)" for S1 fr1 c1
  proof (rule Cons.IH [OF f(3)])
    note r = collect_step_Inr [OF that]
    show "utxos S1 = utxos S0" using r(1) ftx Cons.prems(2) by simp
    show "distinct (concat (map input_keys txs))" using Cons.prems(3) by simp
    have "fst ` set (utxo_puts c1) = fst ` set (utxo_puts c) \<union> set (created_keys E tx)"
      using r(4) ftx by (metis list.set_map set_append)
    then show "set (concat (map input_keys txs)) \<inter> (set (utxo_deletes c1) \<union> fst ` set (utxo_puts c1)
        \<union> set (concat (map (created_keys E) txs))) = {}"
      using r(3) ftx Cons.prems(3,4) by auto
  qed
  show ?case
    using rest f(1) by (auto simp: step and_then_map_ok map_ok_and_then intro!: and_then_cong)
qed

lemma collect_fold_height:
  "fold_res (collect_step E) (S, fr, c) fts = Inr (S', fr', c') \<Longrightarrow> st_height S' = st_height S"
proof (induction fts arbitrary: S fr c)
  case Nil
  then show ?case by simp
next
  case (Cons ft fts)
  then obtain S1 fr1 c1 where s: "collect_step E (S, fr, c) ft = Inr (S1, fr1, c1)"
      "fold_res (collect_step E) (S1, fr1, c1) fts = Inr (S', fr', c')" by (auto simp: result_simps)
  moreover have "st_height S1 = st_height S"
    using s(1) connect_orchard_frame [of E S "ft_transaction ft" fr]
    by (force simp: collect_step_def result_simps Let_def)
  ultimately show ?case using Cons.IH by metis
qed

section \<open>Batched and sequential connection agree\<close>

definition block_created :: "('acc, 'fr, 'pf) ext \<Rightarrow> 'pf body \<Rightarrow> out_point list" where
  "block_created E b =
     map (coinbase_outpoint (compute_merkle_root E b)) [0..<length (coinbase b)]
       @ concat (map (\<lambda>tx. map (regular_outpoint (tx_txid E tx)) [0..<length (outputs tx)])
           (body_transactions b))"

lemma fst_enumerate_puts:
  "map fst (map (\<lambda>(vout, out). (out_point_key (f vout), out)) (List.enumerate n outs))
     = map (\<lambda>i. out_point_key (f i)) [n..<n + length outs]"
proof (induction outs arbitrary: n)
  case (Cons out outs)
  from Cons [of "Suc n"] show ?case by (simp add: upt_conv_Cons del: upt_Suc)
qed simp

lemma created_keys_outpoints:
  "created_keys E tx = map out_point_key (map (regular_outpoint (tx_txid E tx)) [0..<length (outputs tx)])"
  using fst_enumerate_puts [of "regular_outpoint (tx_txid E tx)" 0 "outputs tx"]
  by (simp add: created_keys_def output_puts_def)

lemma block_created_keys:
  "map out_point_key (block_created E b) =
     map fst (coinbase_puts (compute_merkle_root E b) (coinbase b))
       @ concat (map (created_keys E) (body_transactions b))"
  using fst_enumerate_puts [of "coinbase_outpoint (compute_merkle_root E b)" 0 "coinbase b"]
  by (simp add: block_created_def coinbase_puts_def created_keys_outpoints [abs_def] map_concat comp_def)

lemma concat_input_keys:
  "concat (map input_keys txs) = map out_point_key (spent_outpoints txs)"
  by (induction txs) (auto simp: spent_outpoints_def input_keys_def)

lemma connect_prevalidated_block_is_connect:
  assumes "prevalidate_block E S h b = Inr pv"
    and "set (spent_outpoints (body_transactions b)) \<inter> set (block_created E b) = {}"
  shows "connect_prevalidated_block E S h b pv = connect_block E S h b"
proof -
  from prevalidate_Inr [OF assms(1)] obtain acc d where
    hdr: "prev_side_hash h = st_tip S" "next_height_of S = Inr (next_height pv)"
      "utreexo_accumulator S = Some acc" "compute_merkle_root E b = merkle_root h"
      "computed_merkle_root pv = merkle_root h"
    and cb: "coinbase_loop E (merkle_root h) (coinbase b) = Inr (coinbase_value pv, d)"
    and fill: "map_res (fill_transaction S) (body_transactions b) = Inr (filled_transactions pv)"
    and ds: "check_double_spend (filled_transactions pv) = Inr ()"
    and txs: "fold_res (validate_tx_step E S acc) (0, d) (filled_transactions pv)
      = Inr (total_fees pv, pv_accumulator_diff pv)" by metis
  note ftxs = map_res_fill(1) [OF fill]
  let ?c0 = "\<lparr>utxo_deletes = [], stxo_puts = [], utxo_puts = coinbase_puts (merkle_root h) (coinbase b)\<rparr>"
  have diff: "pv_accumulator_diff pv = fold (tx_diff E) (body_transactions b) d"
    using validate_txs_Inr [OF txs] by (simp add: ftxs [symmetric] fold_map comp_def)
  have c0: "fold (\<lambda>(vout, out). create_output E (coinbase_outpoint (merkle_root h) vout) out)
      (List.enumerate 0 (coinbase b)) (S, diff_default) = (apply_raw ?c0 S, d)"
    using coinbase_loop_Inr [OF cb] by (simp add: create_outputs apply_raw_def coinbase_puts_def)
  have keys: "distinct (concat (map input_keys (body_transactions b)))"
    using double_spend_ok [OF ds] ftxs by (simp add: concat_input_keys distinct_map inj_out_point_key)
  have "set (concat (map input_keys (body_transactions b))) \<inter> set (map out_point_key (block_created E b)) = {}"
    using assms(2) by (auto simp: concat_input_keys)
  then have disj: "set (concat (map input_keys (body_transactions b))) \<inter>
      (set (utxo_deletes ?c0) \<union> fst ` set (utxo_puts ?c0)
        \<union> set (concat (map (created_keys E) (body_transactions b)))) = {}"
    unfolding block_created_keys hdr(4) by auto
  note sim = connect_sim [OF fill refl keys disj]
  show ?thesis
  proof (cases "frontier (st_orchard S)")
    case None
    with hdr show ?thesis by (simp add: connect_prevalidated_block_def connect_block_def)
  next
    case (Some fr)
    show ?thesis
    proof (cases "fold_res (collect_step E) (S, fr, ?c0) (filled_transactions pv)")
      case (Inl e)
      with Some hdr show ?thesis
        by (simp add: connect_prevalidated_block_def connect_block_def c0 sim)
    next
      case (Inr r)
      obtain S1 fr1 c1 where r: "r = (S1, fr1, c1)" by (cases r)
      have "st_height (apply_raw c1 S1) = st_height S"
        using collect_fold_height [OF Inr [unfolded r]] by (simp add: apply_raw_def)
      with Inr r Some hdr show ?thesis
        by (simp add: connect_prevalidated_block_def connect_block_def c0 sim apply_changes_raw diff)
          (auto simp: next_height_of_def result_simps add_u32_ok split: option.splits)
    qed
  qed
qed

text \<open>
  C19. For a prevalidated block none of whose new out points is also spent in it, the batched
  connection, which applies all changes sorted by database key, gives the same state, the same
  frontier to archive and the same errors as connecting the block transaction by transaction.
\<close>

theorem connect_prevalidated_eq_connect:
  assumes "prevalidate_block E S h b = Inr pv"
    and "set (spent_outpoints (body_transactions b)) \<inter> set (block_created E b) = {}"
  shows "connect_prevalidated_block E S h b pv = connect_block E S h b"
  using connect_prevalidated_block_is_connect [OF assms] .

lemma example_disjoint:
  "set (spent_outpoints (body_transactions example_body)) \<inter> set (block_created example_ext example_body) = {}"
  by (auto simp: spent_outpoints_def block_created_def example_body_def example_tx_def
      coinbase_outpoint_def regular_outpoint_def)

theorem connect_prevalidated_eq_connect_witness:
  "prevalidate_block example_ext example_state example_header example_body = Inr example_prevalidated
   \<and> connect_prevalidated_block example_ext example_state example_header example_body example_prevalidated
       = connect_block example_ext example_state example_header example_body"
  using connect_prevalidated_eq_connect [OF example_prevalidate example_disjoint] example_prevalidate by blast

end
