(* ===== verification/Block_Undo.thy ===== *)
theory Block_Undo
  imports Block_Connect
begin

text \<open>
  Nullifiers are accepted once, and \<open>disconnect_tip\<close> undoes \<open>connect\<close>.
\<close>

section \<open>Nullifiers\<close>

lemma store_nullifier_Inr:
  "store_nullifier O1 n = Inr O2 \<longleftrightarrow> fmlookup (db_nullifiers O1) n = None \<and> O2 = put_nullifier n O1"
  by (cases "fmlookup (db_nullifiers O1) n") (auto simp: store_nullifier_def)

lemma store_nullifiers_fold:
  "fold_res store_nullifier O1 ns = Inr O2
   \<longleftrightarrow> distinct ns \<and> (\<forall>n\<in>set ns. fmlookup (db_nullifiers O1) n = None)
     \<and> O2 = O1\<lparr>db_nullifiers := puts (map (\<lambda>n. (n, ())) ns) (db_nullifiers O1)\<rparr>"
proof (induction ns arbitrary: O1)
  case Nil
  show ?case by auto
next
  case (Cons n ns)
  have "fold_res store_nullifier O1 (n # ns) = Inr O2 \<longleftrightarrow> fmlookup (db_nullifiers O1) n = None
      \<and> fold_res store_nullifier (put_nullifier n O1) ns = Inr O2"
    by (auto simp: result_simps store_nullifier_Inr)
  also have "\<dots> \<longleftrightarrow> fmlookup (db_nullifiers O1) n = None \<and> n \<notin> set ns \<and> distinct ns
      \<and> (\<forall>n\<in>set ns. fmlookup (db_nullifiers O1) n = None)
      \<and> O2 = O1\<lparr>db_nullifiers := puts (map (\<lambda>n. (n, ())) (n # ns)) (db_nullifiers O1)\<rparr>"
    unfolding Cons by (auto simp: put_nullifier_def split: if_splits)
  finally show ?case by auto
qed

lemma connect_orchard_of_Inr:
  assumes "connect_orchard_of E S tx fr = Inr (S', fr')"
  shows "distinct (tx_nullifiers tx)"
    "\<forall>n\<in>set (tx_nullifiers tx). fmlookup (db_nullifiers (st_orchard S)) n = None"
    "S' = S\<lparr>st_orchard := (st_orchard S)\<lparr>db_nullifiers :=
       puts (map (\<lambda>n. (n, ())) (tx_nullifiers tx)) (db_nullifiers (st_orchard S))\<rparr>\<rparr>"
  using assms
  by (auto simp: connect_orchard_of_def connect_orchard_def store_nullifiers_def tx_nullifiers_def
      result_simps store_nullifiers_fold split: option.splits)

section \<open>Effect of one transaction\<close>

lemma spend_input_Inr:
  "spend_input txid (S, d) (vin, op, h) = Inr (S1, d1) \<longleftrightarrow>
     (\<exists>out. fmlookup (utxos S) (out_point_key op) = Some out \<and> d1 = diff_remove h d
       \<and> S1 = S\<lparr>utxos := fmdrop (out_point_key op) (utxos S),
           stxos := fmupd (out_point_key op)
             \<lparr>so_output = out, so_inpoint = InRegular txid (word_of_nat vin)\<rparr> (stxos S)\<rparr>)"
  by (auto simp: spend_input_def result_simps)

text \<open>Successful spending finds each input unspent and no input twice.\<close>

lemma spend_inputs_Inr:
  assumes "fold_res (spend_input txid) (S, d) (List.enumerate n ins) = Inr (S', d')"
  shows "distinct (map (\<lambda>(op, _). out_point_key op) ins)
    \<and> (\<exists>spent. length spent = length ins
        \<and> (\<forall>i < length ins. fmlookup (utxos S) (out_point_key (fst (ins ! i))) = Some (spent ! i)))"
  using assms
proof (induction ins arbitrary: S d n)
  case Nil
  then show ?case by simp
next
  case (Cons x ins)
  obtain op h where x: "x = (op, h)" by (cases x)
  with Cons.prems obtain S1 d1 where step: "spend_input txid (S, d) (n, op, h) = Inr (S1, d1)"
    and rest: "fold_res (spend_input txid) (S1, d1) (List.enumerate (Suc n) ins) = Inr (S', d')"
    by (auto simp: result_simps)
  from step obtain out where out: "fmlookup (utxos S) (out_point_key op) = Some out"
    and S1: "utxos S1 = fmdrop (out_point_key op) (utxos S)" by (auto simp: spend_input_Inr)
  from Cons.IH [OF rest] obtain spent where sp: "distinct (map (\<lambda>(op, _). out_point_key op) ins)"
      "length spent = length ins"
      "\<forall>i < length ins. fmlookup (utxos S1) (out_point_key (fst (ins ! i))) = Some (spent ! i)" by blast
  have ne: "out_point_key (fst (ins ! i)) \<noteq> out_point_key op
      \<and> fmlookup (utxos S) (out_point_key (fst (ins ! i))) = Some (spent ! i)" if "i < length ins" for i
    using sp(3) that S1 by (auto split: if_splits)
  then have "out_point_key op \<notin> set (map (\<lambda>(op, _). out_point_key op) ins)"
    by (auto simp: in_set_conv_nth case_prod_beta) (metis fst_conv)
  moreover have "\<forall>i < length (x # ins).
      fmlookup (utxos S) (out_point_key (fst ((x # ins) ! i))) = Some ((out # spent) ! i)"
    using ne out x by (auto simp: less_Suc_eq_0_disj)
  ultimately show ?case using sp(1,2) x by (intro conjI exI [of _ "out # spent"]) simp_all
qed

text \<open>
  The whole effect of a connected transaction on the databases.
\<close>

lemma connect_transaction_Inr:
  assumes "connect_transaction E tx (S, d, fr) = Inr (S', d', fr')"
  obtains spent where "distinct (input_keys tx)" "length spent = length (inputs tx)"
    "\<And>i. i < length (inputs tx) \<Longrightarrow> fmlookup (utxos S) (out_point_key (fst (inputs tx ! i))) = Some (spent ! i)"
    "distinct (tx_nullifiers tx)" "\<forall>n\<in>set (tx_nullifiers tx). fmlookup (db_nullifiers (st_orchard S)) n = None"
    "S' = S\<lparr>utxos := puts (output_puts (tx_txid E tx) (outputs tx)) (drops (input_keys tx) (utxos S)),
       stxos := puts (spent_puts (tx_txid E tx) 0 (inputs tx) spent) (stxos S),
       st_orchard := (st_orchard S)\<lparr>db_nullifiers :=
         puts (map (\<lambda>n. (n, ())) (tx_nullifiers tx)) (db_nullifiers (st_orchard S))\<rparr>\<rparr>"
proof -
  let ?txid = "tx_txid E tx"
  from assms obtain S1 d1 where
    ins: "fold_res (spend_input ?txid) (S, d) (List.enumerate 0 (inputs tx)) = Inr (S1, d1)"
    and orch: "connect_orchard_of E (S1\<lparr>utxos := puts (output_puts ?txid (outputs tx)) (utxos S1)\<rparr>) tx fr
      = Inr (S', fr')"
    by (auto simp: connect_transaction_def result_simps Let_def create_outputs output_puts_def)
  from spend_inputs_Inr [OF ins] obtain spent where sp: "distinct (input_keys tx)"
      "length spent = length (inputs tx)"
      "\<forall>i < length (inputs tx). fmlookup (utxos S) (out_point_key (fst (inputs tx ! i))) = Some (spent ! i)"
    by (auto simp: input_keys_def)
  have S1: "S1 = S\<lparr>utxos := drops (input_keys tx) (utxos S),
      stxos := puts (spent_puts ?txid 0 (inputs tx) spent) (stxos S)\<rparr>"
    using spend_inputs [OF sp(2), of S ?txid d 0] sp ins by (simp add: input_keys_def)
  from connect_orchard_of_Inr [OF orch] show thesis
    using sp by (intro that [of spent]) (simp_all add: S1)
qed

section \<open>Undoing one transaction\<close>

text \<open>The state \<open>X\<close> with its block databases replaced by those of \<open>S\<close>.\<close>

definition rewind :: "('acc, 'fr) state \<Rightarrow> ('acc, 'fr) state \<Rightarrow> ('acc, 'fr) state" where
  "rewind S X = X\<lparr>utxos := utxos S, stxos := stxos S,
     st_orchard := (st_orchard X)\<lparr>db_nullifiers := db_nullifiers (st_orchard S)\<rparr>\<rparr>"

lemma rewind_rewind: "rewind S (rewind S1 X) = rewind S X"
  by (simp add: rewind_def)

definition tx_undo_diff ::
  "('acc, 'fr, 'pf) ext \<Rightarrow> 'pf transaction \<Rightarrow> accumulator_diff \<Rightarrow> accumulator_diff" where
  "tx_undo_diff E tx d =
     fold (\<lambda>(_, h). diff_insert h) (rev (inputs tx))
       (fold (\<lambda>(vout, out). diff_remove (pointed_output_hash E (regular_outpoint (tx_txid E tx) vout) out))
         (rev (List.enumerate 0 (outputs tx))) d)"

lemma delete_utxos:
  assumes "distinct (map (\<lambda>(vout, _). out_point_key (f vout)) xs)"
    and "\<forall>(vout, _)\<in>set xs. has_key (utxos S) (out_point_key (f vout))"
  shows "fold_res (\<lambda>st (vout, out). delete_utxo E (f vout) out st) (S, d) xs =
    Inr (S\<lparr>utxos := drops (map (\<lambda>(vout, _). out_point_key (f vout)) xs) (utxos S)\<rparr>,
      fold (\<lambda>(vout, out). diff_remove (pointed_output_hash E (f vout) out)) xs d)"
  using assms
proof (induction xs arbitrary: S d)
  case Nil
  then show ?case by simp
next
  case (Cons x xs)
  obtain vout out where x: "x = (vout, out)" by (cases x)
  let ?k = "out_point_key (f vout)"
  have "\<forall>(v, _)\<in>set xs. has_key (utxos (S\<lparr>utxos := fmdrop ?k (utxos S)\<rparr>)) (out_point_key (f v))"
    using Cons.prems x by force
  with Cons.IH [of "S\<lparr>utxos := fmdrop ?k (utxos S)\<rparr>"] Cons.prems x show ?case
    by (auto simp: delete_utxo_def Let_def)
qed

lemma unspend_inputs:
  assumes "distinct (map (\<lambda>(op, _). out_point_key op) ins)"
    and "\<forall>(op, _)\<in>set ins. map_option so_output (fmlookup (stxos S) (out_point_key op)) = Some (f op)"
  shows "fold_res unspend (S, d) ins =
    Inr (S\<lparr>utxos := puts (map (\<lambda>(op, _). (out_point_key op, f op)) ins) (utxos S),
           stxos := drops (map (\<lambda>(op, _). out_point_key op) ins) (stxos S)\<rparr>,
      fold (\<lambda>(_, h). diff_insert h) ins d)"
  using assms
proof (induction ins arbitrary: S d)
  case Nil
  then show ?case by simp
next
  case (Cons x ins)
  obtain op h where x: "x = (op, h)" by (cases x)
  from Cons.prems(2) x obtain so where so: "fmlookup (stxos S) (out_point_key op) = Some so"
      "so_output so = f op" by auto
  let ?S = "S\<lparr>stxos := fmdrop (out_point_key op) (stxos S),
     utxos := fmupd (out_point_key op) (f op) (utxos S)\<rparr>"
  have "\<forall>(op', _)\<in>set ins. map_option so_output (fmlookup (stxos ?S) (out_point_key op')) = Some (f op')"
    using Cons.prems x by force
  with Cons.IH [of ?S] Cons.prems x so show ?case by (simp add: unspend_def)
qed

lemma delete_nullifiers:
  "fold delete_nullifier ns O1 = O1\<lparr>db_nullifiers := drops ns (db_nullifiers O1)\<rparr>"
  by (induction ns arbitrary: O1) (auto simp: delete_nullifier_def)

lemma drops_puts_fresh:
  assumes "set ks = fst ` set xs" "\<forall>k\<in>set ks. fmlookup m k = None"
  shows "drops ks (puts xs m) = m"
  by (rule fmap_ext) (use assms in \<open>auto simp: lookup_drops lookup_puts_absent\<close>)

lemma puts_drops_restore:
  assumes "fst ` set xs = set ks" "\<forall>(k, v)\<in>set xs. fmlookup m k = Some v"
  shows "puts xs (drops ks m) = m"
proof (rule fmap_ext)
  fix k
  show "fmlookup (puts xs (drops ks m)) k = fmlookup m k"
  proof (cases "k \<in> fst ` set xs")
    case True
    let ?ys = "filter (\<lambda>x. fst x = k) xs"
    from True have "?ys \<noteq> []" by (auto simp: filter_empty_conv)
    moreover from this have "last ?ys \<in> set xs" "fst (last ?ys) = k"
      using last_in_set [of ?ys] by auto
    ultimately show ?thesis using assms(2) by (auto simp: lookup_puts Let_def)
  next
    case False
    with assms(1) show ?thesis by (simp add: lookup_puts_absent lookup_drops)
  qed
qed

lemma puts_present: "k \<in> fst ` set xs \<Longrightarrow> has_key (puts xs m) k"
  by (auto simp: lookup_puts Let_def filter_empty_conv)

lemma spent_puts_Cons:
  "spent_puts txid n ((op, h) # ins) (out # spent) =
     (out_point_key op, \<lparr>so_output = out, so_inpoint = InRegular txid (word_of_nat n)\<rparr>)
       # spent_puts txid (Suc n) ins spent"
  by (simp add: spent_puts_def)

lemma fst_spent_puts:
  "length spent = length ins \<Longrightarrow> map fst (spent_puts txid n ins spent) = map (\<lambda>(op, _). out_point_key op) ins"
proof (induction ins arbitrary: n spent)
  case (Cons x ins)
  then show ?case by (cases x; cases spent) (auto simp: spent_puts_Cons)
qed (simp add: spent_puts_def)

lemma lookup_spent_puts:
  assumes "length spent = length ins" "distinct (map (\<lambda>(op, _). out_point_key op) ins)" "i < length ins"
  shows "map_option so_output (fmlookup (puts (spent_puts txid n ins spent) m) (out_point_key (fst (ins ! i))))
    = Some (spent ! i)"
  using assms
proof (induction ins arbitrary: n spent m i)
  case (Cons x ins)
  obtain op h out spent' where x: "x = (op, h)" "spent = out # spent'"
    using Cons.prems(1) by (cases x; cases spent) auto
  show ?case
  proof (cases i)
    case 0
    have "out_point_key op \<notin> set (map fst (spent_puts txid (Suc n) ins spent'))"
      using Cons.prems x by (subst fst_spent_puts) auto
    with 0 x show ?thesis by (simp add: spent_puts_Cons lookup_puts_absent)
  next
    case (Suc j)
    with Cons.IH [of spent' j "Suc n"] Cons.prems x show ?thesis by (simp add: spent_puts_Cons)
  qed
qed simp

lemma created_keys_enumerate:
  "created_keys E tx = map (\<lambda>(vout, _). out_point_key (regular_outpoint (tx_txid E tx) vout))
     (List.enumerate 0 (outputs tx))"
  by (auto simp: created_keys_def output_puts_def)

lemma disconnect_connect_transaction:
  assumes conn: "connect_transaction E tx (S, d, fr) = Inr (S', d', fr')"
    and new: "distinct (created_keys E tx)" "\<forall>k\<in>set (created_keys E tx). fmlookup (utxos S) k = None"
    and unspent: "\<forall>k\<in>set (input_keys tx). fmlookup (stxos S) k = None"
  shows "disconnect_transaction E (rewind S' X, e) tx = Inr (rewind S X, tx_undo_diff E tx e)"
proof -
  from connect_transaction_Inr [OF conn] obtain spent where sp: "distinct (input_keys tx)"
    "length spent = length (inputs tx)"
    "\<And>i. i < length (inputs tx) \<Longrightarrow> fmlookup (utxos S) (out_point_key (fst (inputs tx ! i))) = Some (spent ! i)"
    "\<forall>n\<in>set (tx_nullifiers tx). fmlookup (db_nullifiers (st_orchard S)) n = None"
    and S': "S' = S\<lparr>utxos := puts (output_puts (tx_txid E tx) (outputs tx)) (drops (input_keys tx) (utxos S)),
       stxos := puts (spent_puts (tx_txid E tx) 0 (inputs tx) spent) (stxos S),
       st_orchard := (st_orchard S)\<lparr>db_nullifiers :=
         puts (map (\<lambda>n. (n, ())) (tx_nullifiers tx)) (db_nullifiers (st_orchard S))\<rparr>\<rparr>" by metis
  let ?outs = "List.enumerate 0 (outputs tx)"
  let ?key = "\<lambda>(vout, _). out_point_key (regular_outpoint (tx_txid E tx) vout)"
  let ?X1 = "(rewind S' X)\<lparr>st_orchard := (st_orchard X)\<lparr>db_nullifiers := db_nullifiers (st_orchard S)\<rparr>\<rparr>"
  let ?X2 = "?X1\<lparr>utxos := drops (input_keys tx) (utxos S)\<rparr>"
  let ?e = "fold (\<lambda>(vout, out). diff_remove (pointed_output_hash E (regular_outpoint (tx_txid E tx) vout) out))
     (rev ?outs) e"
  have orch: "(case orchard_bundle tx of Some bundle \<Rightarrow> disconnect_orchard (rewind S' X) bundle
      | None \<Rightarrow> rewind S' X) = ?X1"
    using sp(4) by (auto simp: rewind_def S' disconnect_orchard_def delete_nullifiers tx_nullifiers_def
        drops_puts_fresh image_image split: option.splits)
  have outs: "fold_res (\<lambda>st (vout, out). delete_utxo E (regular_outpoint (tx_txid E tx) vout) out st)
      (?X1, e) (rev ?outs) = Inr (?X2, ?e)"
  proof -
    have set: "set (map ?key (rev ?outs)) = fst ` set (output_puts (tx_txid E tx) (outputs tx))"
      by (force simp: output_puts_def)
    have "distinct (map ?key (rev ?outs))" using new(1) by (simp add: created_keys_enumerate rev_map [symmetric])
    moreover have "\<forall>k\<in>set (map ?key (rev ?outs)). has_key (utxos ?X1) k"
    proof
      fix k
      assume "k \<in> set (map ?key (rev ?outs))"
      then have "k \<in> fst ` set (output_puts (tx_txid E tx) (outputs tx))" unfolding set .
      from puts_present [OF this, of "drops (input_keys tx) (utxos S)"]
      show "has_key (utxos ?X1) k" by (simp add: rewind_def S')
    qed
    moreover have "drops (map ?key (rev ?outs)) (utxos ?X1) = drops (input_keys tx) (utxos S)"
      using new(2) by (subst drops_puts_fresh [symmetric, OF set])
        (auto simp: rewind_def S' lookup_drops created_keys_enumerate)
    ultimately show ?thesis by (subst delete_utxos) auto
  qed
  have ins: "fold_res unspend (?X2, ?e) (rev (inputs tx)) = Inr (rewind S X, tx_undo_diff E tx e)"
  proof -
    let ?f = "\<lambda>op. the (fmlookup (utxos S) (out_point_key op))"
    have "map_option so_output (fmlookup (stxos ?X2) (out_point_key op)) = Some (?f op)"
      if "(op, h) \<in> set (inputs tx)" for op h
    proof -
      from that obtain i where i: "i < length (inputs tx)" "inputs tx ! i = (op, h)"
        by (auto simp: in_set_conv_nth)
      with lookup_spent_puts [OF sp(2) sp(1) [unfolded input_keys_def] i(1), of "tx_txid E tx" 0 "stxos S"]
        sp(3) [OF i(1)]
      show ?thesis by (simp add: rewind_def S')
    qed
    then have "\<forall>(op, _)\<in>set (rev (inputs tx)).
        map_option so_output (fmlookup (stxos ?X2) (out_point_key op)) = Some (?f op)"
      by (metis (mono_tags, lifting) case_prodI2 set_rev)
    moreover have "distinct (map (\<lambda>(op, _). out_point_key op) (rev (inputs tx)))"
      using sp(1) by (simp add: input_keys_def rev_map [symmetric])
    moreover have "puts (map (\<lambda>(op, _). (out_point_key op, ?f op)) (rev (inputs tx)))
        (drops (input_keys tx) (utxos S)) = utxos S"
      using sp(3) by (intro puts_drops_restore)
        (force simp: input_keys_def, auto simp: in_set_conv_nth, metis fst_conv option.sel)
    moreover have "drops (map (\<lambda>(op, _). out_point_key op) (rev (inputs tx))) (stxos ?X2) = stxos S"
    proof -
      have "set (map (\<lambda>(op, _). out_point_key op) (rev (inputs tx)))
          = fst ` set (spent_puts (tx_txid E tx) 0 (inputs tx) spent)"
        using arg_cong [OF fst_spent_puts [OF sp(2), of "tx_txid E tx" 0], of set] by simp
      moreover have "set (map (\<lambda>(op, _). out_point_key op) (rev (inputs tx))) = set (input_keys tx)"
        by (simp add: input_keys_def)
      ultimately show ?thesis using unspent by (simp add: rewind_def S' drops_puts_fresh)
    qed
    ultimately show ?thesis
      by (subst unspend_inputs [where f = ?f]) (auto simp: rewind_def tx_undo_diff_def)
  qed
  show ?thesis by (simp add: disconnect_transaction_def Let_def orch outs ins)
qed

section \<open>Undoing a block\<close>

abbreviation connect_txs ::
  "('acc, 'fr, 'pf) ext \<Rightarrow> ('acc, 'fr) state \<times> accumulator_diff \<times> 'fr \<Rightarrow> 'pf transaction list
    \<Rightarrow> (connect_block_error, ('acc, 'fr) state \<times> accumulator_diff \<times> 'fr) result" where
  "connect_txs E st txs \<equiv> fold_res (\<lambda>st tx. map_err (CbConnectTransaction (tx_txid E tx))
     (connect_transaction E tx st)) st txs"

lemma connect_txs_Cons:
  assumes "connect_txs E (S, d, fr) (tx # txs) = Inr r"
  obtains S1 d1 fr1 where "connect_transaction E tx (S, d, fr) = Inr (S1, d1, fr1)"
    "connect_txs E (S1, d1, fr1) txs = Inr r"
  using assms by (auto simp: result_simps)

lemma connect_txs_frame:
  "connect_txs E (S, d, fr) txs = Inr (S', d', fr') \<Longrightarrow> S' = rewind S' S"
proof (induction txs arbitrary: S d fr)
  case Nil
  then show ?case by (simp add: rewind_def)
next
  case (Cons tx txs)
  from Cons.prems obtain S1 d1 fr1 where
    one: "connect_transaction E tx (S, d, fr) = Inr (S1, d1, fr1)"
    and rest: "connect_txs E (S1, d1, fr1) txs = Inr (S', d', fr')" by (rule connect_txs_Cons)
  from one have "S1 = rewind S1 S" by (rule connect_transaction_Inr) (simp add: rewind_def)
  then have "rewind S' S1 = rewind S' S" by (metis (no_types, lifting) rewind_rewind)
  with Cons.IH [OF rest] show ?case by simp
qed

lemma connect_txs_nullifiers:
  assumes "connect_txs E (S, d, fr) txs = Inr (S', d', fr')"
  shows "distinct (concat (map tx_nullifiers txs))
    \<and> (\<forall>n\<in>set (concat (map tx_nullifiers txs)). fmlookup (db_nullifiers (st_orchard S)) n = None)
    \<and> fmdom (db_nullifiers (st_orchard S')) =
        fmdom (db_nullifiers (st_orchard S)) |\<union>| fset_of_list (concat (map tx_nullifiers txs))"
  using assms
proof (induction txs arbitrary: S d fr)
  case Nil
  then show ?case by simp
next
  case (Cons tx txs)
  from Cons.prems obtain S1 d1 fr1 where
    one: "connect_transaction E tx (S, d, fr) = Inr (S1, d1, fr1)"
    and rest: "connect_txs E (S1, d1, fr1) txs = Inr (S', d', fr')" by (rule connect_txs_Cons)
  from one have o: "distinct (tx_nullifiers tx)"
    "\<forall>n\<in>set (tx_nullifiers tx). fmlookup (db_nullifiers (st_orchard S)) n = None"
    "db_nullifiers (st_orchard S1) = puts (map (\<lambda>n. (n, ())) (tx_nullifiers tx)) (db_nullifiers (st_orchard S))"
    by (rule connect_transaction_Inr, simp)+
  note ih = Cons.IH [OF rest]
  have dom: "fmdom (puts (map (\<lambda>n. (n, ())) ns) m) = fmdom m |\<union>| fset_of_list ns" for ns and m :: "(nullifier, unit) db"
    by (induction ns arbitrary: m) auto
  have "fmlookup (db_nullifiers (st_orchard S)) n = None \<and> n \<notin> set (tx_nullifiers tx)"
    if "n \<in> set (concat (map tx_nullifiers txs))" for n
  proof -
    have "fmlookup (db_nullifiers (st_orchard S1)) n = None" using ih that by blast
    then have "n |\<notin>| fmdom (db_nullifiers (st_orchard S1))" by (simp add: fmdom_notI)
    then show ?thesis by (auto simp: o(3) dom fmdom_notD fset_of_list.rep_eq)
  qed
  with o ih show ?case by (auto simp: dom)
qed

lemma disconnect_connect_txs:
  assumes "connect_txs E (S, d, fr) txs = Inr (S', d', fr')"
    and "distinct (concat (map (created_keys E) txs))"
    and "\<forall>k\<in>set (concat (map (created_keys E) txs)). fmlookup (utxos S) k = None"
    and "distinct (concat (map input_keys txs))"
    and "\<forall>k\<in>set (concat (map input_keys txs)). fmlookup (stxos S) k = None"
  shows "fold_res (disconnect_transaction E) (rewind S' X, e) (rev txs)
    = Inr (rewind S X, fold (tx_undo_diff E) (rev txs) e)"
  using assms
proof (induction txs arbitrary: S d fr e)
  case Nil
  then show ?case by simp
next
  case (Cons tx txs)
  from Cons.prems(1) obtain S1 d1 fr1 where
    one: "connect_transaction E tx (S, d, fr) = Inr (S1, d1, fr1)"
    and rest: "connect_txs E (S1, d1, fr1) txs = Inr (S', d', fr')" by (rule connect_txs_Cons)
  from one obtain spent where len: "length spent = length (inputs tx)"
    and S1: "utxos S1 = puts (output_puts (tx_txid E tx) (outputs tx)) (drops (input_keys tx) (utxos S))"
      "stxos S1 = puts (spent_puts (tx_txid E tx) 0 (inputs tx) spent) (stxos S)"
    by (rule connect_transaction_Inr) simp
  have keys: "fst ` set (output_puts (tx_txid E tx) (outputs tx)) = set (created_keys E tx)"
    by (simp add: created_keys_def)
  have spent: "fst ` set (spent_puts (tx_txid E tx) 0 (inputs tx) spent) = set (input_keys tx)"
    using arg_cong [OF fst_spent_puts [OF len, of "tx_txid E tx" 0], of set] by (simp add: input_keys_def)
  have "fmlookup (utxos S1) k = None" if "k \<in> set (concat (map (created_keys E) txs))" for k
  proof -
    have "k \<notin> set (created_keys E tx)" "fmlookup (utxos S) k = None" using Cons.prems(2,3) that by auto
    then show ?thesis unfolding S1(1) by (simp add: lookup_puts_absent keys lookup_drops)
  qed
  moreover have "fmlookup (stxos S1) k = None" if "k \<in> set (concat (map input_keys txs))" for k
  proof -
    have "k \<notin> set (input_keys tx)" "fmlookup (stxos S) k = None" using Cons.prems(4,5) that by auto
    then show ?thesis unfolding S1(2) by (simp add: lookup_puts_absent spent)
  qed
  ultimately have "fold_res (disconnect_transaction E) (rewind S' X, e) (rev txs)
      = Inr (rewind S1 X, fold (tx_undo_diff E) (rev txs) e)"
    using Cons.prems(2,4) by (intro Cons.IH [OF rest]) auto
  moreover have "disconnect_transaction E (rewind S1 X, e') tx = Inr (rewind S X, tx_undo_diff E tx e')" for e'
    using Cons.prems(2-5) by (intro disconnect_connect_transaction [OF one]) auto
  ultimately show ?case by (simp add: fold_res_append)
qed

definition block_undo_diff :: "('acc, 'fr, 'pf) ext \<Rightarrow> 'pf body \<Rightarrow> accumulator_diff" where
  "block_undo_diff E b =
     fold (\<lambda>(vout, out). diff_remove (pointed_output_hash E (coinbase_outpoint (compute_merkle_root E b) vout) out))
       (rev (List.enumerate 0 (coinbase b)))
       (fold (tx_undo_diff E) (rev (body_transactions b)) diff_default)"

lemma finish_block_Inr:
  "finish_block E S h height acc d fr = Inr (S', fro) \<Longrightarrow> \<exists>acc'. apply_diff E acc d = Some acc'
     \<and> S' = S\<lparr>st_tip := Some (header_hash E h), st_height := Some height, utreexo_accumulator := Some acc',
         st_orchard := fst (put_historical_root (header_hash E h) (frontier_root E fr)
           (put_frontier fr (st_orchard S)))\<rparr>"
  by (auto simp: finish_block_def result_simps Let_def case_prod_beta)

text \<open>What a connected block does, down to the end of its transactions.\<close>

lemma connect_block_Inr:
  assumes "connect_block E S h b = Inr (S', fro)"
  obtains acc fr S1 d1 fr1 acc' height where
    "st_tip S = prev_side_hash h" "compute_merkle_root E b = merkle_root h"
    "utreexo_accumulator S = Some acc" "frontier (st_orchard S) = Some fr"
    "connect_txs E (S\<lparr>utxos := puts (coinbase_puts (merkle_root h) (coinbase b)) (utxos S)\<rparr>,
       fold (\<lambda>(vout, out). diff_insert (pointed_output_hash E (coinbase_outpoint (merkle_root h) vout) out))
         (List.enumerate 0 (coinbase b)) diff_default, fr) (body_transactions b) = Inr (S1, d1, fr1)"
    "(case st_height S1 of None \<Rightarrow> Inr 0 | Some height \<Rightarrow> add_u32 height 1)
       = (Inr height :: (connect_block_error, nat) result)"
    "apply_diff E acc d1 = Some acc'"
    "S' = S1\<lparr>st_tip := Some (header_hash E h), st_height := Some height, utreexo_accumulator := Some acc',
       st_orchard := fst (put_historical_root (header_hash E h) (frontier_root E fr1)
         (put_frontier fr1 (st_orchard S1)))\<rparr>"
  using assms
  by (auto simp: connect_block_def result_simps Let_def create_outputs coinbase_puts_def
      dest!: finish_block_Inr split: if_splits)

text \<open>
  C26. No nullifier is ever accepted twice: connecting a block requires all its nullifiers to be
  distinct and absent from the state, and leaves exactly the old and the new nullifiers recorded.
\<close>

theorem connect_block_nullifiers:
  assumes "connect_block E S h b = Inr (S', fro)"
  shows "distinct (concat (map tx_nullifiers (body_transactions b)))
    \<and> (\<forall>n\<in>set (concat (map tx_nullifiers (body_transactions b))).
          fmlookup (db_nullifiers (st_orchard S)) n = None)
    \<and> fmdom (db_nullifiers (st_orchard S')) = fmdom (db_nullifiers (st_orchard S))
        |\<union>| fset_of_list (concat (map tx_nullifiers (body_transactions b)))"
  using assms
proof (rule connect_block_Inr)
  fix acc fr S1 d1 fr1 acc' height
  assume "connect_txs E (S\<lparr>utxos := puts (coinbase_puts (merkle_root h) (coinbase b)) (utxos S)\<rparr>,
      fold (\<lambda>(vout, out). diff_insert (pointed_output_hash E (coinbase_outpoint (merkle_root h) vout) out))
        (List.enumerate 0 (coinbase b)) diff_default, fr) (body_transactions b) = Inr (S1, d1, fr1)"
    and S': "S' = S1\<lparr>st_tip := Some (header_hash E h), st_height := Some height,
      utreexo_accumulator := Some acc', st_orchard := fst (put_historical_root (header_hash E h)
        (frontier_root E fr1) (put_frontier fr1 (st_orchard S1)))\<rparr>"
  from connect_txs_nullifiers [OF this(1)] show ?thesis
    by (simp add: S' put_historical_root_def put_frontier_def)
qed

lemma delete_put_historical_root:
  assumes "fmlookup (block_hash_to_root O') (Some bh) = None"
  shows "fst (delete_historical_root bh (put_frontier fr (fst (put_historical_root bh root O'))))
    = put_frontier fr O'"
    "fst (delete_historical_root bh (fst (put_historical_root bh root O'))) = O'"
  using assms
  by (cases "fmlookup (historical_roots O') root";
    simp add: delete_historical_root_def put_historical_root_def put_frontier_def db_simps)+

lemma coinbase_keys:
  "map (\<lambda>(vout, _). out_point_key (coinbase_outpoint r vout)) (List.enumerate 0 outs)
     = map fst (coinbase_puts r outs)"
  by (auto simp: coinbase_puts_def)

lemma disconnect_coinbase:
  assumes "distinct (map fst (coinbase_puts r outs))"
    and "\<forall>k\<in>set (map fst (coinbase_puts r outs)). fmlookup (utxos S) k = None"
  shows "fold_res (\<lambda>st (vout, out). delete_utxo E (coinbase_outpoint r vout) out st)
      (rewind (S\<lparr>utxos := puts (coinbase_puts r outs) (utxos S)\<rparr>) X, e) (rev (List.enumerate 0 outs))
    = Inr (rewind S X, fold (\<lambda>(vout, out). diff_remove (pointed_output_hash E (coinbase_outpoint r vout) out))
        (rev (List.enumerate 0 outs)) e)"
proof -
  let ?key = "\<lambda>(vout, _ :: tx_output). out_point_key (coinbase_outpoint r vout)"
  let ?X = "rewind (S\<lparr>utxos := puts (coinbase_puts r outs) (utxos S)\<rparr>) X"
  let ?rev = "rev (List.enumerate 0 outs)"
  have set: "set (map ?key ?rev) = fst ` set (coinbase_puts r outs)"
    using arg_cong [OF coinbase_keys [of r outs], of set] by simp
  have "distinct (map ?key ?rev)" using assms(1) by (simp add: coinbase_keys rev_map [symmetric])
  moreover have "\<forall>k\<in>set (map ?key ?rev). has_key (utxos ?X) k"
  proof
    fix k
    assume "k \<in> set (map ?key ?rev)"
    then have "k \<in> fst ` set (coinbase_puts r outs)" unfolding set .
    from puts_present [OF this, of "utxos S"] show "has_key (utxos ?X) k" by (simp add: rewind_def)
  qed
  moreover have "drops (map ?key ?rev) (puts (coinbase_puts r outs) (utxos S)) = utxos S"
    using assms(2) by (intro drops_puts_fresh [OF set]) (simp add: set [simplified])
  ultimately show ?thesis by (subst delete_utxos) (auto simp: rewind_def)
qed

lemma undo_block_body:
  assumes txs: "connect_txs E (S\<lparr>utxos := puts (coinbase_puts r outs) (utxos S)\<rparr>, d, fr) ts = Inr (S1, d1, fr1)"
    and dist: "distinct (map fst (coinbase_puts r outs) @ concat (map (created_keys E) ts))"
    and fresh: "\<forall>k\<in>set (map fst (coinbase_puts r outs)) \<union> set (concat (map (created_keys E) ts)).
      fmlookup (utxos S) k = None"
    and spent: "distinct (spent_outpoints ts)"
      "\<forall>op\<in>set (spent_outpoints ts). fmlookup (stxos S) (out_point_key op) = None"
  shows "fold_res (disconnect_transaction E) (rewind S1 X, diff_default) (rev ts)
      = Inr (rewind (S\<lparr>utxos := puts (coinbase_puts r outs) (utxos S)\<rparr>) X,
          fold (tx_undo_diff E) (rev ts) diff_default)"
    and "fold_res (\<lambda>st (vout, out). delete_utxo E (coinbase_outpoint r vout) out st)
        (rewind (S\<lparr>utxos := puts (coinbase_puts r outs) (utxos S)\<rparr>) X, e) (rev (List.enumerate 0 outs))
      = Inr (rewind S X, fold (\<lambda>(vout, out). diff_remove (pointed_output_hash E (coinbase_outpoint r vout) out))
          (rev (List.enumerate 0 outs)) e)"
proof -
  let ?Sc = "S\<lparr>utxos := puts (coinbase_puts r outs) (utxos S)\<rparr>"
  have "\<forall>k\<in>set (concat (map (created_keys E) ts)). fmlookup (utxos ?Sc) k = None"
  proof
    fix k
    assume k: "k \<in> set (concat (map (created_keys E) ts))"
    with dist have "k \<notin> fst ` set (coinbase_puts r outs)" by auto
    with k fresh show "fmlookup (utxos ?Sc) k = None" by (simp add: lookup_puts_absent)
  qed
  then show "fold_res (disconnect_transaction E) (rewind S1 X, diff_default) (rev ts)
      = Inr (rewind ?Sc X, fold (tx_undo_diff E) (rev ts) diff_default)"
    using dist spent by (intro disconnect_connect_txs [OF txs])
      (auto simp: concat_input_keys distinct_map inj_out_point_key)
  show "fold_res (\<lambda>st (vout, out). delete_utxo E (coinbase_outpoint r vout) out st) (rewind ?Sc X, e)
      (rev (List.enumerate 0 outs)) = Inr (rewind S X,
        fold (\<lambda>(vout, out). diff_remove (pointed_output_hash E (coinbase_outpoint r vout) out))
          (rev (List.enumerate 0 outs)) e)"
    using dist fresh by (intro disconnect_coinbase) auto
qed

lemma block_keys_fresh:
  assumes "distinct (block_created E b)"
    and "\<forall>op\<in>set (block_created E b). fmlookup (utxos S) (out_point_key op) = None"
    and r: "compute_merkle_root E b = r"
  shows "distinct (map fst (coinbase_puts r (coinbase b)) @ concat (map (created_keys E) (body_transactions b)))"
    and "\<forall>k\<in>set (map fst (coinbase_puts r (coinbase b)))
      \<union> set (concat (map (created_keys E) (body_transactions b))). fmlookup (utxos S) k = None"
proof -
  show "distinct (map fst (coinbase_puts r (coinbase b)) @ concat (map (created_keys E) (body_transactions b)))"
    using assms(1) by (simp add: block_created_keys [symmetric] r [symmetric] distinct_map inj_out_point_key)
  have "set (map fst (coinbase_puts r (coinbase b))) \<union> set (concat (map (created_keys E) (body_transactions b)))
      = set (map out_point_key (block_created E b))"
    unfolding block_created_keys r by simp
  with assms(2) show "\<forall>k\<in>set (map fst (coinbase_puts r (coinbase b)))
      \<union> set (concat (map (created_keys E) (body_transactions b))). fmlookup (utxos S) k = None" by simp
qed

text \<open>
  C4. Disconnecting a block that was just connected succeeds and restores the whole state (UTXOs,
  spent outputs, nullifiers, roots, tip, height and accumulator), provided that the out points it created were
  new, the outputs it spent were not recorded as spent, and the accumulator accepts the reverse
  diff. The frontier becomes the one that the caller passes, or stays as the block left it when the
  caller passes none.
\<close>

theorem disconnect_tip_undoes_connect:
  assumes conn: "connect_block E S h b = Inr (S', fro)"
    and acc: "utreexo_accumulator S = Some acc"
    and tip: "st_tip S = None \<longleftrightarrow> st_height S = None"
    and root: "fmlookup (block_hash_to_root (st_orchard S)) (Some (header_hash E h)) = None"
    and new: "distinct (block_created E b)"
      "\<forall>op\<in>set (block_created E b). fmlookup (utxos S) (out_point_key op) = None"
    and spent: "distinct (spent_outpoints (body_transactions b))"
      "\<forall>op\<in>set (spent_outpoints (body_transactions b)). fmlookup (stxos S) (out_point_key op) = None"
    and diff: "apply_diff E (the (utreexo_accumulator S')) (block_undo_diff E b) \<noteq> None"
  shows "disconnect_tip E S' h b acc prev_frontier = Inr (S\<lparr>st_orchard := (st_orchard S)\<lparr>frontier :=
    case prev_frontier of Some fr \<Rightarrow> Some fr | None \<Rightarrow> frontier (st_orchard S')\<rparr>\<rparr>)"
  using conn
proof (rule connect_block_Inr)
  fix acc0 fr S1 d1 fr1 acc' height
  let ?Sc = "S\<lparr>utxos := puts (coinbase_puts (merkle_root h) (coinbase b)) (utxos S)\<rparr>"
  assume hdr: "st_tip S = prev_side_hash h" "compute_merkle_root E b = merkle_root h"
    and txs: "connect_txs E (?Sc,
       fold (\<lambda>(vout, out). diff_insert (pointed_output_hash E (coinbase_outpoint (merkle_root h) vout) out))
         (List.enumerate 0 (coinbase b)) diff_default, fr) (body_transactions b) = Inr (S1, d1, fr1)"
    and ht: "(case st_height S1 of None \<Rightarrow> Inr 0 | Some height \<Rightarrow> add_u32 height 1)
       = (Inr height :: (connect_block_error, nat) result)"
    and S': "S' = S1\<lparr>st_tip := Some (header_hash E h), st_height := Some height, utreexo_accumulator := Some acc',
       st_orchard := fst (put_historical_root (header_hash E h) (frontier_root E fr1)
         (put_frontier fr1 (st_orchard S1)))\<rparr>"
  note keys = block_keys_fresh [OF new hdr(2)]
  note body = undo_block_body [OF txs keys spent, where X = S']
  have self: "rewind S1 S' = S'"
    by (simp add: rewind_def S' put_historical_root_def put_frontier_def)
  have cb: "fold_res (\<lambda>st (vout, out). delete_utxo E (coinbase_outpoint (merkle_root h) vout) out st)
      (rewind ?Sc S', fold (tx_undo_diff E) (rev (body_transactions b)) diff_default)
      (rev (List.enumerate 0 (coinbase b))) = Inr (rewind S S', block_undo_diff E b)"
    unfolding body(2) by (simp add: block_undo_diff_def hdr(2))
  let ?O = "fst (put_historical_root (header_hash E h) (frontier_root E fr1) (put_frontier fr1 (st_orchard S)))"
  obtain U T N where S1: "S1 = S\<lparr>utxos := U, stxos := T,
      st_orchard := (st_orchard S)\<lparr>db_nullifiers := N\<rparr>\<rparr>"
    using connect_txs_frame [OF txs] by (simp add: rewind_def)
  have rewound: "rewind S S' = S\<lparr>st_tip := Some (header_hash E h), st_height := Some height,
      utreexo_accumulator := Some acc', st_orchard := ?O\<rparr>"
    by (simp add: S' S1 rewind_def put_historical_root_def put_frontier_def)
  have fr: "frontier (st_orchard S') = Some fr1"
    by (simp add: S' put_historical_root_def put_frontier_def)
  have roots: "fst (delete_historical_root (header_hash E h)
      (case prev_frontier of Some fr \<Rightarrow> put_frontier fr ?O | None \<Rightarrow> ?O))
      = (st_orchard S)\<lparr>frontier := case prev_frontier of Some fr \<Rightarrow> Some fr | None \<Rightarrow> Some fr1\<rparr>"
    using delete_put_historical_root [of "put_frontier fr1 (st_orchard S)" "header_hash E h"] root
    by (cases prev_frontier) (simp_all add: put_frontier_def)
  from diff obtain acc2 where acc2: "apply_diff E acc' (block_undo_diff E b) = Some acc2" by (auto simp: S')
  have heights: "st_tip S = None \<and> st_height S = None \<and> height = 0
      \<or> (\<exists>t n. st_tip S = Some t \<and> st_height S = Some n \<and> height = Suc n)"
    using tip ht by (auto simp: S1 result_simps split: option.splits)
  have fields: "st_tip S' = Some (header_hash E h)" "utreexo_accumulator S' = Some acc'"
    by (simp_all add: S')
  note run = disconnect_tip_def check_merkle_root_def hdr(2) Let_def fields body(1) [unfolded self] cb acc2 rewound
  from heights show ?thesis
  proof (elim disjE exE conjE)
    assume "st_tip S = None" "st_height S = None" "height = 0"
    with acc roots show ?thesis by (cases prev_frontier) (simp_all add: run fr hdr(1) [symmetric])
  next
    fix t n
    assume "st_tip S = Some t" "st_height S = Some n" "height = Suc n"
    with acc roots show ?thesis by (cases prev_frontier) (simp_all add: run fr hdr(1) [symmetric])
  qed
qed

lemma example_connect_tx:
  "connect_transaction example_ext example_tx
     (example_state\<lparr>utxos := puts (coinbase_puts r [example_output 3]) (utxos example_state)\<rparr>,
      diff_insert 66 diff_default, []) =
   Inr (example_state\<lparr>
       utxos := puts (output_puts (tx_txid example_ext example_tx) [example_output 7])
         (fmdrop (out_point_key (Deposit 1 0))
           (puts (coinbase_puts r [example_output 3]) (utxos example_state))),
       stxos := fmupd (out_point_key (Deposit 1 0)) \<lparr>so_output = example_output 10,
         so_inpoint = InRegular (tx_txid example_ext example_tx) 0\<rparr> fmempty,
       st_orchard := put_nullifier (Nullifier 5) example_orchard\<rparr>,
     diff_insert 66 diff_default, [Cmx 9])"
proof -
  have ins: "inputs example_tx = [(Deposit 1 0, 66)]" and outs: "outputs example_tx = [example_output 7]"
    by (simp_all add: example_tx_def)
  have u: "fmlookup (puts (coinbase_puts r [example_output 3]) (utxos example_state)) (out_point_key (Deposit 1 0))
      = Some (example_output 10)"
    by (simp add: coinbase_puts_def coinbase_outpoint_def example_state_def)
  have d: "diff_insert 66 (diff_remove 66 (diff_insert 66 diff_default)) = diff_insert 66 diff_default"
    using example_diff by (simp add: tx_diff_def ins outs)
  have o: "connect_orchard_of example_ext S example_tx [] =
      Inr (S\<lparr>st_orchard := put_nullifier (Nullifier 5) (st_orchard S)\<rparr>, [Cmx 9])"
    if "fmlookup (db_nullifiers (st_orchard S)) (Nullifier 5) = None" for S
    using that by (simp add: connect_orchard_of_def example_tx_def connect_orchard_def append_commitments_def
        extracted_note_commitments_def store_nullifiers_def nullifiers_def store_nullifier_def example_ext_def)
  show ?thesis
    by (simp add: connect_transaction_def ins outs spend_input_def u create_output_def d output_puts_def
        Let_def o) (simp add: o example_state_def example_orchard_def)
qed

lemma example_connect:
  "\<exists>S' fro. connect_block example_ext example_state example_header example_body = Inr (S', fro)
     \<and> utreexo_accumulator S' = Some [66, 66]"
proof -
  have cb: "create_output example_ext (coinbase_outpoint r 0) (example_output 3) (example_state, diff_default)
    = (example_state\<lparr>utxos := puts (coinbase_puts r [example_output 3]) (utxos example_state)\<rparr>,
       diff_insert 66 diff_default)" for r
    by (simp add: create_output_def coinbase_puts_def)
  have d: "apply_diff example_ext [66] (diff_insert 66 diff_default) = Some [66, 66]"
    by (simp add: apply_diff_def diff_insert_def diff_default_def example_ext_def)
  have S: "st_tip example_state = None" "st_height example_state = None"
    "utreexo_accumulator example_state = Some [66]" "frontier (st_orchard example_state) = Some []"
    "prev_side_hash example_header = None"
    "compute_merkle_root example_ext example_body = merkle_root example_header"
    "coinbase example_body = [example_output 3]" "body_transactions example_body = [example_tx]"
    by (simp_all add: example_state_def example_orchard_def example_header_def)
      (simp_all add: example_body_def)
  show ?thesis
    by (simp add: connect_block_def S cb example_connect_tx finish_block_def d Let_def split: prod.split)
qed

theorem connect_block_nullifiers_witness:
  "\<exists>S' fro. connect_block example_ext example_state example_header example_body = Inr (S', fro)
     \<and> fmdom (db_nullifiers (st_orchard S')) = {|Nullifier 5|}"
proof -
  from example_connect obtain S' fro where
    ok: "connect_block example_ext example_state example_header example_body = Inr (S', fro)" by blast
  have "concat (map tx_nullifiers (body_transactions example_body)) = [Nullifier 5]"
    "db_nullifiers (st_orchard example_state) = fmempty"
    by (simp_all add: example_body_def example_tx_def tx_nullifiers_def nullifiers_def example_state_def
        example_orchard_def)
  with connect_block_nullifiers [OF ok] ok show ?thesis by auto
qed

theorem disconnect_tip_undoes_connect_witness:
  "\<exists>S' fro. connect_block example_ext example_state example_header example_body = Inr (S', fro)
     \<and> disconnect_tip example_ext S' example_header example_body [66] (Some []) = Inr example_state"
proof -
  from example_connect obtain S' fro where
    ok: "connect_block example_ext example_state example_header example_body = Inr (S', fro)"
      "utreexo_accumulator S' = Some [66, 66]" by blast
  have tx: "body_transactions example_body = [example_tx]" "coinbase example_body = [example_output 3]"
    "outputs example_tx = [example_output 7]" "inputs example_tx = [(Deposit 1 0, 66)]"
    by (simp_all add: example_body_def example_tx_def)
  have S: "utxos example_state = fmap_of_list [(out_point_key (Deposit 1 0), example_output 10)]"
    "stxos example_state = fmempty" "st_orchard example_state = example_orchard"
    by (simp_all add: example_state_def)
  have diff: "apply_diff example_ext [66, 66] (block_undo_diff example_ext example_body) \<noteq> None"
    by (simp add: block_undo_diff_def tx tx_undo_diff_def diff_insert_def diff_remove_def
        diff_default_def apply_diff_def) (simp add: example_ext_def)
  have undo: "disconnect_tip example_ext S' example_header example_body [66] (Some []) =
    Inr (example_state\<lparr>st_orchard := (st_orchard example_state)\<lparr>frontier :=
      case Some [] of Some fr \<Rightarrow> Some fr | None \<Rightarrow> frontier (st_orchard S')\<rparr>\<rparr>)"
    by (rule disconnect_tip_undoes_connect [OF ok(1)])
      (use ok(2) diff in \<open>auto simp: S tx block_created_def spent_outpoints_def coinbase_outpoint_def
        regular_outpoint_def example_orchard_def\<close>,
       simp_all add: example_state_def)
  have "example_state\<lparr>st_orchard := (st_orchard example_state)\<lparr>frontier := Some []\<rparr>\<rparr> = example_state"
    by (simp add: example_state_def example_orchard_def)
  with undo ok(1) show ?thesis by simp
qed

end
