(* ===== verification/Ledger.thy ===== *)
theory Ledger
  imports Block_Undo Peg_Invariant
begin

text \<open>
  Blocks and the two-way peg share the databases of outputs. Connecting a block keeps the invariant
  of the peg: it spends outputs only for its own transactions, so no output of a submitted bundle
  is touched, and all that was recorded stays recorded.
\<close>

section \<open>New outputs and spent outputs\<close>

lemma new_outputs_inv:
  assumes "peg_inv S" and "distinct (map fst xs)" and "\<forall>k\<in>fst ` set xs. recorded S k = None \<and> k \<in> range out_point_key"
  shows "peg_inv (S\<lparr>utxos := puts xs (utxos S)\<rparr>) \<and> recorded (S\<lparr>utxos := puts xs (utxos S)\<rparr>) = recorded S ++ map_of xs"
  using assms
proof (induction xs arbitrary: S)
  case Nil
  then show ?case by simp
next
  case (Cons x xs)
  obtain k out where x: "x = (k, out)" by (cases x)
  from Cons.prems(3) obtain op where k: "k = out_point_key op" and free: "recorded S (out_point_key op) = None"
    by (auto simp: x)
  let ?S = "S\<lparr>utxos := fmupd k out (utxos S)\<rparr>"
  note one = deposit_inv [OF Cons.prems(1) free refl, of out, folded k]
  have "peg_inv (?S\<lparr>utxos := puts xs (utxos ?S)\<rparr>) \<and> recorded (?S\<lparr>utxos := puts xs (utxos ?S)\<rparr>) = recorded ?S ++ map_of xs"
    using Cons.prems(2,3) by (intro Cons.IH [OF one(1)]) (auto simp: x one(2) rev_image_eqI)
  moreover have "map_of xs k = None" using Cons.prems(2) by (simp add: x map_of_eq_None_iff)
  ultimately show ?case by (auto simp: x one(2) map_add_def fun_eq_iff split: option.splits)
qed

lemma spend_regular_inv:
  assumes inv: "peg_inv S" and out: "fmlookup (utxos S) k = Some out"
    and S': "S' = S\<lparr>utxos := fmdrop k (utxos S), stxos := fmupd k \<lparr>so_output = out, so_inpoint = i\<rparr> (stxos S)\<rparr>"
  shows "peg_inv S' \<and> recorded S' = recorded S"
proof -
  note inv' = inv [unfolded peg_inv_def]
  have free: "fmlookup (stxos S) k = None" using inv' out by (metis disjoint_dbs_def option.distinct(1))
  have rec_eq: "recorded S' = recorded S"
    by (auto simp: fun_eq_iff recorded_def S' out split: option.splits)
  have "disjoint_dbs S'" using inv' by (auto simp: disjoint_dbs_def S')
  moreover have "utxo_keys_ok S'" using inv' by (auto simp: utxo_keys_ok_def S')
  moreover have "bundles_recorded S'"
    using inv' unfolding bundles_recorded_def entries_recorded_def rec_eq by (auto simp: S')
  moreover have "bundles_spent S'"
    using inv' free by (auto simp: bundles_spent_def spent_for_def S')
  moreover have "pending_ok S'" using inv' by (auto simp: pending_ok_def S')
  ultimately show ?thesis using rec_eq by (simp add: peg_inv_def)
qed

section \<open>Transactions and blocks\<close>

lemma connect_transaction_inv:
  assumes conn: "connect_transaction E tx (S, d, fr) = Inr (S', d', fr')" and inv: "peg_inv S"
    and "distinct (created_keys E tx)" and "\<forall>k\<in>set (created_keys E tx). recorded S k = None"
  shows "peg_inv S' \<and> recorded S' = recorded S ++ map_of (output_puts (tx_txid E tx) (outputs tx))"
proof -
  let ?outs = "output_puts (tx_txid E tx) (outputs tx)"
  from conn obtain S1 d1 where
    ins: "fold_res (spend_input (tx_txid E tx)) (S, d) (List.enumerate 0 (inputs tx)) = Inr (S1, d1)"
    and orch: "connect_orchard_of E (S1\<lparr>utxos := puts ?outs (utxos S1)\<rparr>) tx fr = Inr (S', fr')"
    by (auto simp: connect_transaction_def Let_def result_simps create_outputs output_puts_def)
  let ?P = "\<lambda>(T, _ :: accumulator_diff). peg_inv T \<and> recorded T = recorded S"
  have step: "?P t'" if "?P t" "spend_input (tx_txid E tx) t x = Inr t'" for t x t'
    using that by (cases t; cases t'; cases x) (auto simp: spend_input_Inr spend_regular_inv [OF _ _ refl])
  have "?P (S1, d1)"
    by (rule fold_res_invariant [where P = ?P, OF ins]) (use inv in simp, rule step)
  then have S1: "peg_inv S1" "recorded S1 = recorded S" by simp_all
  have "map fst ?outs = created_keys E tx" by (simp add: created_keys_def)
  moreover from this have "fst ` set ?outs = set (created_keys E tx)" by (metis list.set_map)
  moreover have "set (created_keys E tx) \<subseteq> range out_point_key"
    by (auto simp: created_keys_def output_puts_def)
  ultimately have S2: "peg_inv (S1\<lparr>utxos := puts ?outs (utxos S1)\<rparr>)"
      "recorded (S1\<lparr>utxos := puts ?outs (utxos S1)\<rparr>) = recorded S1 ++ map_of ?outs"
    using new_outputs_inv [OF S1(1), of ?outs] assms(3,4) S1(2) by auto
  obtain O' where S': "S' = S1\<lparr>utxos := puts ?outs (utxos S1)\<rparr>\<lparr>st_orchard := O'\<rparr>"
    using connect_orchard_frame [OF orch] by blast
  have "peg_inv S' = peg_inv (S1\<lparr>utxos := puts ?outs (utxos S1)\<rparr>)" by (rule peg_inv_frame) (simp_all add: S')
  moreover have "recorded S' = recorded (S1\<lparr>utxos := puts ?outs (utxos S1)\<rparr>)"
    by (rule recorded_frame) (simp_all add: S')
  ultimately show ?thesis using S2 S1(2) by simp
qed

definition block_outputs :: "('acc, 'fr, 'pf) ext \<Rightarrow> 'pf transaction list \<Rightarrow> (u8 list \<times> tx_output) list" where
  "block_outputs E txs = concat (map (\<lambda>tx. output_puts (tx_txid E tx) (outputs tx)) txs)"

lemma map_add_fresh: "dom f \<inter> dom g = {} \<Longrightarrow> m ++ f ++ g = m ++ (g ++ f)"
  by (metis map_add_assoc map_add_comm)

lemma connect_txs_inv:
  assumes "connect_txs E (S, d, fr) txs = Inr (S', d', fr')" and "peg_inv S"
    and "distinct (map fst (block_outputs E txs))" and "\<forall>k\<in>fst ` set (block_outputs E txs). recorded S k = None"
  shows "peg_inv S' \<and> recorded S' = recorded S ++ map_of (block_outputs E txs)"
  using assms
proof (induction txs arbitrary: S d fr)
  case Nil
  then show ?case by (simp add: block_outputs_def)
next
  case (Cons tx txs)
  let ?outs = "output_puts (tx_txid E tx) (outputs tx)"
  have outs: "block_outputs E (tx # txs) = ?outs @ block_outputs E txs" by (simp add: block_outputs_def)
  have keys: "map fst ?outs = created_keys E tx" by (simp add: created_keys_def)
  from Cons.prems(1) obtain S1 d1 fr1 where one: "connect_transaction E tx (S, d, fr) = Inr (S1, d1, fr1)"
    and rest: "connect_txs E (S1, d1, fr1) txs = Inr (S', d', fr')" by (rule connect_txs_Cons)
  have "fst ` set ?outs = set (created_keys E tx)" using keys by (metis list.set_map)
  with Cons.prems(3,4) have new: "distinct (created_keys E tx)" "\<forall>k\<in>set (created_keys E tx). recorded S k = None"
    unfolding outs map_append keys set_append image_Un by auto
  note S1 = connect_transaction_inv [OF one Cons.prems(2) new]
  have disj: "dom (map_of ?outs) \<inter> dom (map_of (block_outputs E txs)) = {}"
    using Cons.prems(3) by (simp add: outs dom_map_of_conv_image_fst)
  have "recorded S1 k = None" if "k \<in> fst ` set (block_outputs E txs)" for k
  proof -
    have "k \<notin> dom (map_of ?outs)" using disj that by (auto simp: dom_map_of_conv_image_fst)
    with S1 Cons.prems(4) that show ?thesis by (auto simp: outs map_add_def domIff)
  qed
  with Cons.IH [OF rest] S1 Cons.prems(3)
  have "peg_inv S' \<and> recorded S' = recorded S1 ++ map_of (block_outputs E txs)" by (simp add: outs)
  with S1 map_add_fresh [OF disj, of "recorded S"] show ?case by (simp add: outs)
qed

definition all_outputs :: "('acc, 'fr, 'pf) ext \<Rightarrow> 'pf body \<Rightarrow> (u8 list \<times> tx_output) list" where
  "all_outputs E b = coinbase_puts (compute_merkle_root E b) (coinbase b) @ block_outputs E (body_transactions b)"

lemma all_outputs_keys: "map fst (all_outputs E b) = map out_point_key (block_created E b)"
  unfolding block_created_keys
  by (simp add: all_outputs_def block_outputs_def map_concat comp_def created_keys_def [abs_def])

lemma all_outputs_new:
  assumes "distinct (block_created E b)" and "\<forall>op\<in>set (block_created E b). recorded S (out_point_key op) = None"
  shows "distinct (map fst (all_outputs E b))"
    and "k \<in> fst ` set (all_outputs E b) \<Longrightarrow> recorded S k = None \<and> k \<in> range out_point_key"
proof -
  show "distinct (map fst (all_outputs E b))"
    unfolding all_outputs_keys using assms(1) by (simp add: distinct_map inj_out_point_key)
  assume "k \<in> fst ` set (all_outputs E b)"
  then have "k \<in> set (map out_point_key (block_created E b))" unfolding all_outputs_keys [symmetric] by simp
  with assms(2) show "recorded S k = None \<and> k \<in> range out_point_key" by auto
qed

lemma connect_block_inv:
  assumes conn: "connect_block E S h b = Inr (S', fro)" and inv: "peg_inv S"
    and new: "distinct (block_created E b)" "\<forall>op\<in>set (block_created E b). recorded S (out_point_key op) = None"
  shows "peg_inv S' \<and> recorded S' = recorded S ++ map_of (all_outputs E b)"
  using conn
proof (rule connect_block_Inr)
  fix acc fr S1 d1 fr1 acc' height
  let ?cb = "coinbase_puts (merkle_root h) (coinbase b)"
  let ?S = "S\<lparr>utxos := puts ?cb (utxos S)\<rparr>"
  assume root: "compute_merkle_root E b = merkle_root h"
    and txs: "connect_txs E (?S, fold (\<lambda>(vout, out). diff_insert (pointed_output_hash E (coinbase_outpoint (merkle_root h) vout) out))
         (List.enumerate 0 (coinbase b)) diff_default, fr) (body_transactions b) = Inr (S1, d1, fr1)"
    and S': "S' = S1\<lparr>st_tip := Some (header_hash E h), st_height := Some height, utreexo_accumulator := Some acc',
       st_orchard := fst (put_historical_root (header_hash E h) (frontier_root E fr1)
         (put_frontier fr1 (st_orchard S1)))\<rparr>"
  note keys = all_outputs_new [OF new]
  have outs: "all_outputs E b = ?cb @ block_outputs E (body_transactions b)" by (simp add: all_outputs_def root)
  have S: "peg_inv ?S" "recorded ?S = recorded S ++ map_of ?cb"
    using new_outputs_inv [OF inv, of ?cb] keys by (auto simp: outs)
  have disj: "dom (map_of ?cb) \<inter> dom (map_of (block_outputs E (body_transactions b))) = {}"
    using keys(1) by (simp add: outs dom_map_of_conv_image_fst)
  have fresh: "recorded ?S k = None" if "k \<in> fst ` set (block_outputs E (body_transactions b))" for k
  proof -
    have "k \<notin> dom (map_of ?cb)" using disj that by (auto simp: dom_map_of_conv_image_fst)
    moreover have "recorded S k = None" using keys(2) [of k] that by (auto simp: outs)
    ultimately show ?thesis using S(2) by (auto simp: map_add_def domIff)
  qed
  have "peg_inv S1 \<and> recorded S1 = recorded ?S ++ map_of (block_outputs E (body_transactions b))"
    using keys(1) fresh by (intro connect_txs_inv [OF txs S(1)]) (auto simp: outs)
  moreover have "peg_inv S' = peg_inv S1" by (rule peg_inv_frame) (simp_all add: S')
  moreover have "recorded S' = recorded S1" by (rule recorded_frame) (simp_all add: S')
  ultimately show ?thesis using S(2) map_add_fresh [OF disj, of "recorded S"] by (simp add: outs)
qed

text \<open>
  In a prevalidated block every spent output is in the state, so none of its new out points is
  spent in it, and the batched connection is the sequential one.
\<close>

lemma apply_block_eq_connect:
  assumes conn: "apply_block E S h b = Inr r"
    and new: "\<forall>op\<in>set (block_created E b). recorded S (out_point_key op) = None"
  shows "connect_block E S h b = Inr r"
proof -
  from conn obtain pv where pv: "prevalidate_block E S h b = Inr pv" "connect_prevalidated_block E S h b pv = Inr r"
    by (auto simp: apply_block_def result_simps)
  from prevalidate_Inr [OF pv(1)] have fill: "map_res (fill_transaction S) (body_transactions b) = Inr (filled_transactions pv)"
    by metis
  have "recorded S (out_point_key op) \<noteq> None" if "op \<in> set (spent_outpoints (body_transactions b))" for op
  proof -
    have "fmlookup (utxos S) (out_point_key op)
        \<in> set (map (\<lambda>op. fmlookup (utxos S) (out_point_key op)) (spent_outpoints (body_transactions b)))"
      using that by simp
    then show ?thesis unfolding filled_values [OF fill] by (auto simp: recorded_def split: option.splits)
  qed
  with new have "set (spent_outpoints (body_transactions b)) \<inter> set (block_created E b) = {}" by blast
  with connect_prevalidated_block_is_connect [OF pv(1)] pv(2) show ?thesis by simp
qed

text \<open>
  C28. Applying a block keeps the invariant of the two-way peg: it never spends an output that a
  submitted or confirmed bundle spends, and the outputs recorded afterwards, spent or not, are exactly
  those recorded before and the new ones of the block, given that these are new.
\<close>

theorem apply_block_keeps_peg:
  assumes "apply_block E S h b = Inr (S', fro)" and "peg_inv S"
    and "distinct (block_created E b)" and "\<forall>op\<in>set (block_created E b). recorded S (out_point_key op) = None"
  shows "peg_inv S' \<and> recorded S' = recorded S ++ map_of (all_outputs E b)"
  using connect_block_inv [OF apply_block_eq_connect [OF assms(1,4)] assms(2-4)] .

lemma example_state_peg: "peg_inv example_state"
  by (auto simp: peg_inv_def disjoint_dbs_def utxo_keys_ok_def bundles_recorded_def bundles_spent_def
      pending_ok_def example_state_def split: if_splits)

lemma example_new:
  "distinct (block_created example_ext example_body)"
  "\<forall>op\<in>set (block_created example_ext example_body). recorded example_state (out_point_key op) = None"
  by (simp_all add: block_created_def example_body_def example_tx_def coinbase_outpoint_def regular_outpoint_def
      recorded_def example_state_def)

lemma example_apply:
  "apply_block example_ext example_state example_header example_body
     = connect_block example_ext example_state example_header example_body"
  by (simp add: apply_block_def example_prevalidate
      connect_prevalidated_block_is_connect [OF example_prevalidate example_disjoint])

theorem apply_block_keeps_peg_witness:
  "\<exists>S' fro. apply_block example_ext example_state example_header example_body = Inr (S', fro)
     \<and> peg_inv S' \<and> recorded S' (out_point_key (Deposit 1 0)) = Some (example_output 10)"
proof -
  from example_connect obtain S' fro where
    ok: "apply_block example_ext example_state example_header example_body = Inr (S', fro)"
    unfolding example_apply by blast
  have "out_point_key (Deposit 1 0) \<notin> set (map fst (all_outputs example_ext example_body))"
    unfolding all_outputs_keys
    by (auto simp: block_created_def example_body_def example_tx_def coinbase_outpoint_def regular_outpoint_def)
  then have "map_of (all_outputs example_ext example_body) (out_point_key (Deposit 1 0)) = None"
    by (simp add: map_of_eq_None_iff)
  moreover have "recorded example_state (out_point_key (Deposit 1 0)) = Some (example_output 10)"
    by (simp add: recorded_def example_state_def)
  ultimately show ?thesis
    using apply_block_keeps_peg [OF ok example_state_peg example_new] ok by (auto simp: map_add_def)
qed

end
