(* ===== verification/Reorg.thy ===== *)
theory Reorg
  imports Archive_Index Mempool Ledger
begin

text \<open>
  The first half of \<open>lib/node/net_task.rs\<close>: connecting a block to the tip, disconnecting the tip, and
  the reorganisation to a new tip, over the databases of the archive, the mempool and the state.

  A reorganisation runs in several database transactions. Its model returns the databases as
  last committed together with the result, so that what a failed reorganisation leaves behind is visible.
\<close>

section \<open>Databases and errors of the node\<close>

record ('acc, 'fr, 'pf) node_dbs =
  nd_archive :: "('acc, 'fr, 'pf) archive"
  nd_mempool :: "'pf mempool"
  nd_state :: "('acc, 'fr) state"

datatype net_task_error =
    NtArchive archive_error
  | NtMemPool mempool_error
  | NtPeerInfoRxClosed
  | NtSendMainchainTaskRequest
  | NtSendReorgResultOneshot
  | NtState state_error

type_synonym 'a net_task_result = "(net_task_error, 'a) result"

section \<open>Connecting and disconnecting the tip\<close>

definition node_connect_tip ::
  "('acc, 'fr, 'pf) ext \<Rightarrow> ('acc, 'fr, 'pf) node_dbs \<Rightarrow> header \<Rightarrow> 'pf body \<Rightarrow> two_way_peg_data
    \<Rightarrow> ('acc, 'fr, 'pf) node_dbs net_task_result" where
  "node_connect_tip E N header body data =
     (let block_hash = header_hash E header
      in and_then (map_err (NtState \<circ> ConnectBlock) (apply_block E (nd_state N) header body)) (\<lambda>(S, fr).
         let A = (case fr of Some fr \<Rightarrow> put_orchard_frontier (nd_archive N) block_hash fr
                  | None \<Rightarrow> nd_archive N)
         in and_then (map_err NtState (connect_two_way_peg_data E data S)) (\<lambda>(S, accumulator).
            and_then (map_err NtArchive (put_header E A header)) (\<lambda>A.
            and_then (map_err NtArchive (put_body E A block_hash body)) (\<lambda>A.
            let A = put_accumulator A block_hash accumulator
            in and_then (map_err NtMemPool (mempool_connect_block E accumulator (nd_mempool N) body)) (\<lambda>M.
               Inr \<lparr>nd_archive = A, nd_mempool = M, nd_state = S\<rparr>))))))"

text \<open>\<open>rev_iter\<close> of a database keyed by \<open>u32\<close> numbers: the bytes of a key are little-endian.\<close>

definition db_rev_values :: "(nat, 'v) db \<Rightarrow> 'v list" where
  "db_rev_values m = rev (map snd (sort_key (\<lambda>(k, _). le_bytes 4 k) (sorted_list_of_fmap m)))"

primrec last_applied_before ::
  "nat \<Rightarrow> (main_hash \<times> nat) list \<Rightarrow> (main_hash \<times> nat) option net_task_result" where
  "last_applied_before height [] = Inr None"
| "last_applied_before height (x # xs) =
     and_then (sub_u32 height 1) (\<lambda>limit.
     if snd x < limit then Inr (Some x) else last_applied_before height xs)"

definition start_block ::
  "('acc, 'fr, 'pf) archive \<Rightarrow> (main_hash \<times> nat) option \<Rightarrow> (main_hash \<times> nat) option
    \<Rightarrow> main_hash option net_task_result" where
  "start_block A dep wd =
     (case (dep, wd) of
        (None, None) \<Rightarrow> Inr None
      | (Some (block_hash, _), None) \<Rightarrow> Inr (Some block_hash)
      | (None, Some (block_hash, _)) \<Rightarrow> Inr (Some block_hash)
      | (Some (deposit_block, deposit_height), Some (event_block, event_height)) \<Rightarrow>
          if deposit_height < event_height then Inr (Some event_block)
          else if deposit_height > event_height then Inr (Some deposit_block)
          else and_then (map_err NtArchive (is_main_descendant A event_block deposit_block)) (\<lambda>desc.
            if desc then Inr (Some event_block)
            else and_then (map_err NtArchive (is_main_descendant A deposit_block event_block)) (\<lambda>desc.
              and_then (assert_that desc) (\<lambda>_. Inr (Some deposit_block)))))"

text \<open>
  \<open>main_ancestors(m).take_while(_ != stop).filter_map(f).collect()\<close>; the fuel is enough for a walk that
  meets no block twice.
\<close>

primrec main_walk ::
  "nat \<Rightarrow> ('acc, 'fr, 'pf) archive \<Rightarrow> main_hash option \<Rightarrow> (main_hash \<Rightarrow> 'r option archive_result) \<Rightarrow> main_hash
    \<Rightarrow> 'r list archive_result" where
  "main_walk 0 A stop f m = Inl Diverge"
| "main_walk (Suc fuel) A stop f m =
     (if m = all_zeros then Inr []
      else and_then (get_main_header_info A m) (\<lambda>info.
        if Some m = stop then Inr []
        else and_then (f m) (\<lambda>r.
          map_ok (case r of Some x \<Rightarrow> Cons x | None \<Rightarrow> (\<lambda>xs. xs))
            (main_walk fuel A stop f (prev_block_hash info)))))"

definition main_fuel :: "('acc, 'fr, 'pf) archive \<Rightarrow> nat" where
  "main_fuel A = Suc (fcard (fmdom (main_header_infos A)))"

definition info_with_events ::
  "('acc, 'fr, 'pf) archive \<Rightarrow> main_hash \<Rightarrow> (main_hash \<times> block_info) option archive_result" where
  "info_with_events A m =
     map_ok (\<lambda>info. if events info = [] then None else Some (m, info)) (get_main_block_info A m)"

definition disconnect_peg_data ::
  "('acc, 'fr, 'pf) node_dbs \<Rightarrow> header \<Rightarrow> nat \<Rightarrow> two_way_peg_data net_task_result" where
  "disconnect_peg_data N tip_header height =
     and_then (last_applied_before height (db_rev_values (deposit_blocks (nd_state N)))) (\<lambda>dep.
     and_then (last_applied_before height (db_rev_values (withdrawal_bundle_event_blocks (nd_state N)))) (\<lambda>wd.
     and_then (start_block (nd_archive N) dep wd) (\<lambda>start.
     map_ok rev (map_err NtArchive (main_walk (main_fuel (nd_archive N)) (nd_archive N) start
       (info_with_events (nd_archive N)) (prev_main_hash tip_header))))))"

primrec authorized_transactions ::
  "'pf transaction list \<Rightarrow> authorization list \<Rightarrow> ('e, 'pf authorized_transaction list) result" where
  "authorized_transactions [] auths = Inr []"
| "authorized_transactions (tx # txs) auths =
     (if length auths < length (inputs tx) then Inl Panic
      else map_ok (Cons \<lparr>transaction = tx, authorizations = take (length (inputs tx)) auths\<rparr>)
        (authorized_transactions txs (drop (length (inputs tx)) auths)))"

definition node_disconnect_tip ::
  "('acc, 'fr, 'pf) ext \<Rightarrow> ('acc, 'fr, 'pf) node_dbs \<Rightarrow> ('acc, 'fr, 'pf) node_dbs net_task_result" where
  "node_disconnect_tip E N =
     (let A = nd_archive N
      in and_then (ok_or (NtState NoTip) (st_tip (nd_state N))) (\<lambda>tip_block_hash.
         and_then (map_err NtArchive (get_header A tip_block_hash)) (\<lambda>tip_header.
         and_then (map_err NtArchive (get_body A tip_block_hash)) (\<lambda>tip_body.
         and_then (ok_or (NtState NoTip) (st_height (nd_state N))) (\<lambda>height.
         and_then (disconnect_peg_data N tip_header height) (\<lambda>data.
         and_then (map_err NtState (disconnect_two_way_peg_data E data (nd_state N))) (\<lambda>S.
         and_then (map_err NtArchive (get_accumulator A (prev_side_hash tip_header))) (\<lambda>prev_accumulator.
         and_then (map_err NtState (disconnect_tip E S tip_header tip_body prev_accumulator
             (fmlookup (orchard_frontiers A) (prev_side_hash tip_header)))) (\<lambda>S.
         and_then (authorized_transactions (body_transactions tip_body) (body_authorizations tip_body)) (\<lambda>txs.
         and_then (map_err NtMemPool (fold_res (mempool_put E) (nd_mempool N) (rev txs))) (\<lambda>M.
         and_then (map_err NtMemPool (mempool_regenerate_proofs E prev_accumulator M)) (\<lambda>M.
         Inr \<lparr>nd_archive = A, nd_mempool = M, nd_state = S\<rparr>))))))))))))"

section \<open>Reorganisation\<close>

text \<open>The current tip with its best mainchain verification.\<close>

definition current_tip :: "('acc, 'fr, 'pf) node_dbs \<Rightarrow> tip option net_task_result" where
  "current_tip N =
     (case st_tip (nd_state N) of
        None \<Rightarrow> Inr None
      | Some tip_hash \<Rightarrow>
          map_ok (\<lambda>m. Some \<lparr>tip_block_hash = tip_hash, tip_main_block_hash = m\<rparr>)
            (map_err NtArchive (get_best_main_verification (nd_archive N) tip_hash)))"

definition header_and_body ::
  "('acc, 'fr, 'pf) archive \<Rightarrow> block_hash \<Rightarrow> (header \<times> 'pf body) archive_result" where
  "header_and_body A b =
     and_then (get_header A b) (\<lambda>header. map_ok (Pair header) (get_body A b))"

primrec ancestors_to ::
  "nat \<Rightarrow> ('acc, 'fr, 'pf) archive \<Rightarrow> block_hash option \<Rightarrow> block_hash option
    \<Rightarrow> (header \<times> 'pf body) list archive_result" where
  "ancestors_to 0 A common b = Inl Diverge"
| "ancestors_to (Suc fuel) A common b =
     (case b of
        None \<Rightarrow> Inr []
      | Some block_hash \<Rightarrow>
          and_then (get_header A block_hash) (\<lambda>header.
          if common = Some block_hash then Inr []
          else and_then (header_and_body A block_hash) (\<lambda>hb.
            map_ok (Cons hb) (ancestors_to fuel A common (prev_side_hash header)))))"

text \<open>The blocks to apply, newest first.\<close>

definition blocks_to_apply ::
  "('acc, 'fr, 'pf) archive \<Rightarrow> block_hash option \<Rightarrow> block_hash \<Rightarrow> (header \<times> 'pf body) list archive_result" where
  "blocks_to_apply A common new_tip_hash =
     and_then (header_and_body A new_tip_hash) (\<lambda>hb.
     map_ok (Cons hb) (ancestors_to (ancestor_fuel A) A common (prev_side_hash (fst hb))))"

primrec disconnect_tips ::
  "('acc, 'fr, 'pf) ext \<Rightarrow> nat \<Rightarrow> ('acc, 'fr, 'pf) node_dbs \<Rightarrow> ('acc, 'fr, 'pf) node_dbs net_task_result" where
  "disconnect_tips E 0 N = Inr N"
| "disconnect_tips E (Suc n) N = and_then (node_disconnect_tip E N) (disconnect_tips E n)"

definition disconnects ::
  "('acc, 'fr, 'pf) archive \<Rightarrow> nat option \<Rightarrow> block_hash option \<Rightarrow> nat net_task_result" where
  "disconnects A tip_height common =
     (case tip_height of
        None \<Rightarrow> Inr 0
      | Some tip_height \<Rightarrow>
          (case common of
             Some common_ancestor \<Rightarrow>
               and_then (map_err NtArchive (get_height A common_ancestor)) (\<lambda>h. sub_u32 tip_height h)
           | None \<Rightarrow> add_u32 tip_height 1))"

definition peg_data_batch ::
  "('acc, 'fr, 'pf) archive \<Rightarrow> block_hash option \<Rightarrow> main_hash \<Rightarrow> (main_hash \<times> block_info) list archive_result" where
  "peg_data_batch A common m =
     and_then (case common of None \<Rightarrow> Inr None
               | Some b \<Rightarrow> map_ok (\<lambda>h. Some (prev_main_hash h)) (get_header A b)) (\<lambda>stop.
     main_walk (main_fuel A) A stop (\<lambda>m. map_ok (\<lambda>info. Some (m, info)) (get_main_block_info A m)) m)"

text \<open>\<open>'fill_2wpd\<close>: the batch is popped from its end, up to the mainchain block of the header.\<close>

function fill_2wpd ::
  "main_hash \<Rightarrow> two_way_peg_data \<Rightarrow> (main_hash \<times> block_info) list
    \<Rightarrow> two_way_peg_data \<times> (main_hash \<times> block_info) list" where
  "fill_2wpd stop data batch =
     (if batch = [] then (data, [])
      else case last batch of (block_hash, info) \<Rightarrow>
        let data = AList.update block_hash info data
        in if block_hash = stop then (data, butlast batch) else fill_2wpd stop data (butlast batch))"
  by pat_completeness auto
termination by (relation "measure (\<lambda>(_, _, batch). length batch)") auto

declare fill_2wpd.simps [simp del]

text \<open>
  One iteration of the loop that applies blocks: the new databases, the rest of the batch, and
  whether the transaction is committed.
\<close>

definition apply_step ::
  "('acc, 'fr, 'pf) ext \<Rightarrow> tip option \<Rightarrow> ('acc, 'fr, 'pf) node_dbs \<Rightarrow> (main_hash \<times> block_info) list
    \<Rightarrow> header \<times> 'pf body \<Rightarrow> (('acc, 'fr, 'pf) node_dbs \<times> (main_hash \<times> block_info) list \<times> bool) net_task_result" where
  "apply_step E tip N batch hb =
     (case hb of (header, body) \<Rightarrow> case fill_2wpd (prev_main_hash header) [] batch of (data, batch) \<Rightarrow>
        and_then (node_connect_tip E N header body data) (\<lambda>N.
        and_then (expect (st_tip (nd_state N))) (\<lambda>new_tip_hash.
        and_then (map_err NtArchive (get_best_main_verification (nd_archive N) new_tip_hash)) (\<lambda>m.
        let new_tip = \<lparr>tip_block_hash = new_tip_hash, tip_main_block_hash = m\<rparr>
        in case tip of
             None \<Rightarrow> Inr (N, batch, True)
           | Some tip \<Rightarrow> map_ok (\<lambda>better. (N, batch, better = Some new_tip))
               (map_err NtArchive (better_tip (nd_archive N) tip new_tip))))))"

primrec apply_blocks ::
  "('acc, 'fr, 'pf) ext \<Rightarrow> tip option \<Rightarrow> tip \<Rightarrow> ('acc, 'fr, 'pf) node_dbs \<Rightarrow> ('acc, 'fr, 'pf) node_dbs
    \<Rightarrow> (main_hash \<times> block_info) list \<Rightarrow> (header \<times> 'pf body) list
    \<Rightarrow> ('acc, 'fr, 'pf) node_dbs \<times> bool net_task_result" where
  "apply_blocks E tip new_tip committed N batch [] =
     (if st_tip (nd_state N) = Some (tip_block_hash new_tip) then (N, Inr True) else (committed, Inl Panic))"
| "apply_blocks E tip new_tip committed N batch (hb # hbs) =
     (case apply_step E tip N batch hb of
        Inl e \<Rightarrow> (committed, Inl e)
      | Inr (N, batch, commit) \<Rightarrow>
          apply_blocks E tip new_tip (if commit then N else committed) N batch hbs)"

text \<open>
  What happens before the first block is applied: \<open>None\<close> if the new tip is not better; otherwise the old
  tip, the databases after disconnecting, the blocks to apply and the batch of peg data.
\<close>

definition reorg_prepare ::
  "('acc, 'fr, 'pf) ext \<Rightarrow> ('acc, 'fr, 'pf) node_dbs \<Rightarrow> tip
    \<Rightarrow> (tip option \<times> ('acc, 'fr, 'pf) node_dbs \<times> (header \<times> 'pf body) list \<times> (main_hash \<times> block_info) list) option
       net_task_result" where
  "reorg_prepare E N new_tip =
     and_then (current_tip N) (\<lambda>tip.
     and_then (case tip of None \<Rightarrow> Inr True
       | Some tip \<Rightarrow> map_ok (\<lambda>better. better = Some new_tip)
           (map_err NtArchive (better_tip (nd_archive N) tip new_tip))) (\<lambda>better.
     if \<not> better then Inr None
     else
     and_then (case tip of None \<Rightarrow> Inr None
       | Some tip \<Rightarrow> map_err NtArchive (last_common_ancestor (nd_archive N) (tip_block_hash tip)
           (tip_block_hash new_tip))) (\<lambda>common.
     and_then (map_err NtArchive (blocks_to_apply (nd_archive N) common (tip_block_hash new_tip))) (\<lambda>blocks.
     and_then (disconnects (nd_archive N) (st_height (nd_state N)) common) (\<lambda>n.
     and_then (disconnect_tips E n N) (\<lambda>N.
     and_then (assert_that (st_tip (nd_state N) = common)) (\<lambda>_.
     and_then (map_err NtArchive (peg_data_batch (nd_archive N) common (prev_main_hash (fst (hd blocks))))) (\<lambda>batch.
     Inr (Some (tip, N, blocks, batch))))))))))"

definition reorg_to_tip ::
  "('acc, 'fr, 'pf) ext \<Rightarrow> ('acc, 'fr, 'pf) node_dbs \<Rightarrow> tip
    \<Rightarrow> ('acc, 'fr, 'pf) node_dbs \<times> bool net_task_result" where
  "reorg_to_tip E N new_tip =
     (case reorg_prepare E N new_tip of
        Inl e \<Rightarrow> (N, Inl e)
      | Inr None \<Rightarrow> (N, Inr False)
      | Inr (Some (tip, N1, blocks, batch)) \<Rightarrow> apply_blocks E tip new_tip N N1 batch (rev blocks))"

end
