(* ===== verification/Node_Invariant.thy ===== *)
theory Node_Invariant
  imports Reorg
begin

text \<open>
  What the node keeps when its tip moves: the invariants of the archive, the mempool and the peg hold
  together, the archive holds the block at the tip, and every committed tip is better than the old one.
\<close>

section \<open>Peg data does not move the tip\<close>

abbreviation same_tip :: "('acc, 'fr) state \<Rightarrow> ('acc, 'fr) state \<Rightarrow> bool" where
  "same_tip S S' \<equiv> st_tip S' = st_tip S \<and> st_height S' = st_height S"

lemma spend_withdrawals_tip:
  "fold_res (spend_withdrawal E err m6id) (S, d) xs = Inr (S', d') \<Longrightarrow> same_tip S S'"
  using spend_withdrawals_Inr [of E err m6id S d xs S' d'] by simp

lemma spend_all_tip:
  assumes "spend_all E m6id (S, d) = Inr ((S', d'), all)"
  shows "same_tip S S'"
proof -
  have "same_tip S (fst (fold (\<lambda>(op, out) (S, d).
      (S\<lparr>stxos := fmupd (out_point_key op) (spent_by m6id out) (stxos S)\<rparr>, diff_remove (f op out) d)) xs (S, d)))"
    for xs and f :: "out_point \<Rightarrow> tx_output \<Rightarrow> hash"
    by (induction xs arbitrary: S d) auto
  with assms show ?thesis by (auto simp: spend_all_def result_simps Let_def case_prod_beta)
qed

lemma bundle_event_tip:
  assumes "connect_withdrawal_bundle_event E h ev m6id es (S, d) = Inr (S', d')"
  shows "same_tip S S'"
proof (cases es)
  case EvSubmitted
  then have sub: "connect_withdrawal_bundle_submitted E h ev m6id (S, d) = Inr (S', d')"
    using assms by (simp add: connect_withdrawal_bundle_event_def result_simps)
  show ?thesis
  proof (cases "fmlookup (withdrawal_bundles S) m6id")
    case (Some x)
    obtain info status where "x = (info, status)" by (cases x)
    with sub Some show ?thesis
      by (cases info; cases "pending_withdrawal_bundle S = Some m6id")
        (auto simp: connect_withdrawal_bundle_submitted_def result_simps dest!: spend_withdrawals_tip)
  next
    case None
    with sub show ?thesis
      by (auto simp: connect_withdrawal_bundle_submitted_def result_simps split: if_splits)
  qed
next
  case EvConfirmed
  with assms show ?thesis
    by (auto simp: connect_withdrawal_bundle_event_def connect_withdrawal_bundle_confirmed_def result_simps
        dest!: spend_withdrawals_tip spend_all_tip split: if_splits withdrawal_bundle_info.splits)
next
  case EvFailed
  with assms show ?thesis
    by (auto simp: connect_withdrawal_bundle_event_def connect_withdrawal_bundle_failed_def result_simps
        restore_fold push_latest_failed_def split: if_splits withdrawal_bundle_info.splits)
qed

lemma connect_events_tip:
  "fold_res (connect_event E h) ((S, d), l) evs = Inr ((S', d'), l') \<Longrightarrow> same_tip S S'"
proof (induction evs arbitrary: S d l)
  case Nil
  then show ?case by simp
next
  case (Cons x evs)
  from Cons.prems obtain S1 d1 l1 where step: "connect_event E h ((S, d), l) x = Inr ((S1, d1), l1)"
    and rest: "fold_res (connect_event E h) ((S1, d1), l1) evs = Inr ((S', d'), l')"
    by (auto simp: result_simps)
  from step have "same_tip S S1"
    by (cases x) (auto simp: connect_event_def result_simps Let_def dest: bundle_event_tip split: block_event.splits)
  with Cons.IH [OF rest] show ?case by simp
qed

lemma connect_peg_data_tip:
  assumes "connect_two_way_peg_data E data S = Inr (S', acc)"
  shows "same_tip S S'"
proof -
  from assms obtain h S1 d1 l1 S2 S3 where
    evs: "fold_res (connect_event E h) ((S, diff_default), no_latest) (peg_events data) = Inr ((S1, d1), l1)"
    and blocks: "record_blocks h l1 S1 = Inr S2" and proposal: "propose_bundle E h S2 = Inr S3"
    and S': "S' = S3\<lparr>utreexo_accumulator := Some acc\<rparr>"
    by (auto simp: connect_two_way_peg_data_def result_simps)
  have "same_tip S1 S2" using blocks by (auto simp: record_blocks_def result_simps split: option.splits)
  moreover have "store_pending E h bd S2 = Inr S3 \<Longrightarrow> same_tip S2 S3" for bd
    by (auto simp: store_pending_def Let_def result_simps)
  with proposal have "same_tip S2 S3"
    by (auto simp: propose_bundle_def result_simps split: if_splits option.split_asm)
  ultimately show ?thesis using connect_events_tip [OF evs] by (simp add: S')
qed

section \<open>The invariant of the node\<close>

definition node_inv :: "('acc, 'fr, 'pf) ext \<Rightarrow> ('acc, 'fr, 'pf) node_dbs \<Rightarrow> bool" where
  "node_inv E N \<longleftrightarrow> archive_inv (nd_archive N) \<and> mempool_ok E (nd_mempool N) \<and> peg_inv (nd_state N)"

lemma archive_frame:
  assumes "main_header_infos B = main_header_infos A" "main_successors B = main_successors A"
    "main_block_hash_to_height B = main_block_hash_to_height A"
    "exponential_main_ancestors B = exponential_main_ancestors A" "total_work B = total_work A"
    "headers B = headers A" "successors B = successors A"
    "block_hash_to_height B = block_hash_to_height A" "exponential_ancestors B = exponential_ancestors A"
  shows "archive_inv B \<longleftrightarrow> archive_inv A"
  using main_frame [of B A] side_frame [of B A] assms by (simp add: archive_inv_def)

lemma put_tx_inclusions_frame:
  "\<exists>t. foldl (put_tx_inclusion E b) A xs = A\<lparr>txid_to_inclusions := t\<rparr>"
proof (induction xs arbitrary: A)
  case Nil
  show ?case by (rule exI [of _ "txid_to_inclusions A"]) simp
next
  case (Cons x xs)
  obtain t where "put_tx_inclusion E b A x = A\<lparr>txid_to_inclusions := t\<rparr>"
    by (cases x) (auto simp: put_tx_inclusion_def Let_def)
  moreover obtain u where "foldl (put_tx_inclusion E b) (put_tx_inclusion E b A x) xs
      = (put_tx_inclusion E b A x)\<lparr>txid_to_inclusions := u\<rparr>" using Cons.IH by blast
  ultimately show ?case by auto
qed

lemma put_body_Inr:
  assumes "put_body E A b body = Inr A'"
  obtains t where "A' = A\<lparr>bodies := fmupd b body (bodies A), txid_to_inclusions := t\<rparr>"
proof -
  obtain t where "foldl (put_tx_inclusion E b) (A\<lparr>bodies := fmupd b body (bodies A)\<rparr>)
      (List.enumerate 0 (body_transactions body)) = A\<lparr>bodies := fmupd b body (bodies A)\<rparr>\<lparr>txid_to_inclusions := t\<rparr>"
    using put_tx_inclusions_frame by blast
  with assms show ?thesis by (intro that [of t]) (auto simp: put_body_def result_simps)
qed

text \<open>The stages of connecting a block to the tip.\<close>

lemma node_connect_tip_Inr:
  assumes "node_connect_tip E N h b data = Inr N'"
  obtains S1 fr A1 acc A2 A3 where
    "apply_block E (nd_state N) h b = Inr (S1, fr)"
    "A1 = nd_archive N \<or> (\<exists>f. A1 = put_orchard_frontier (nd_archive N) (header_hash E h) f)"
    "connect_two_way_peg_data E data S1 = Inr (nd_state N', acc)"
    "put_header E A1 h = Inr A2"
    "put_body E A2 (header_hash E h) b = Inr A3"
    "nd_archive N' = put_accumulator A3 (header_hash E h) acc"
    "mempool_connect_block E acc (nd_mempool N) b = Inr (nd_mempool N')"
proof -
  let ?A = "\<lambda>fr. case fr of Some f \<Rightarrow> put_orchard_frontier (nd_archive N) (header_hash E h) f | None \<Rightarrow> nd_archive N"
  from assms obtain S1 fr where a: "apply_block E (nd_state N) h b = Inr (S1, fr)"
    and rest: "and_then (map_err NtState (connect_two_way_peg_data E data S1)) (\<lambda>(S, acc).
        and_then (map_err NtArchive (put_header E (?A fr) h)) (\<lambda>A.
        and_then (map_err NtArchive (put_body E A (header_hash E h) b)) (\<lambda>A.
        and_then (map_err NtMemPool (mempool_connect_block E acc (nd_mempool N) b)) (\<lambda>M.
        Inr \<lparr>nd_archive = put_accumulator A (header_hash E h) acc, nd_mempool = M, nd_state = S\<rparr>)))) = Inr N'"
    by (auto simp: node_connect_tip_def Let_def result_simps)
  from rest obtain acc A2 A3 where "connect_two_way_peg_data E data S1 = Inr (nd_state N', acc)"
    "put_header E (?A fr) h = Inr A2" "put_body E A2 (header_hash E h) b = Inr A3"
    "nd_archive N' = put_accumulator A3 (header_hash E h) acc"
    "mempool_connect_block E acc (nd_mempool N) b = Inr (nd_mempool N')"
    by (auto simp: result_simps)
  with a show ?thesis by (intro that [of S1 fr "?A fr" acc A2 A3]) (auto split: option.splits)
qed

lemma deposit_not_block_output:
  assumes "k \<in> fst ` set (deposits_of evs)"
  shows "k \<notin> fst ` set (all_outputs E b)"
proof
  obtain t v where k: "k = out_point_key (Deposit t v)"
    using assms by (auto simp: deposits_of_def split: block_event.splits)
  assume "k \<in> fst ` set (all_outputs E b)"
  then have "k \<in> set (map fst (all_outputs E b))" by simp
  then show False
    unfolding all_outputs_keys k by (auto simp: block_created_def coinbase_outpoint_def regular_outpoint_def)
qed

lemma apply_block_sets_tip:
  assumes "apply_block E S h b = Inr (S', fr)"
  shows "st_tip S' = Some (header_hash E h)"
  using assms
  by (auto simp: apply_block_def connect_prevalidated_block_def result_simps dest!: finish_block_Inr)

lemma node_connect_tip_ok:
  assumes inv: "node_inv E N" and conn: "node_connect_tip E N h b data = Inr N'"
    and new: "distinct (block_created E b)"
      "\<forall>op\<in>set (block_created E b). recorded (nd_state N) (out_point_key op) = None"
    and deps: "distinct (map fst (deposits_of (peg_events data)))"
      "\<forall>k\<in>fst ` set (deposits_of (peg_events data)). recorded (nd_state N) k = None"
    and nocoll: "\<And>h'. fmlookup (headers (nd_archive N)) (header_hash E h) = Some h' \<Longrightarrow> h' = h"
  shows "node_inv E N'" "st_tip (nd_state N') = Some (header_hash E h)"
    "recorded (nd_state N') = recorded (nd_state N) ++ map_of (all_outputs E b)
      ++ map_of (deposits_of (peg_events data))"
    "header_and_body (nd_archive N') (header_hash E h) = Inr (h, b)"
proof -
  let ?hash = "header_hash E h"
  from conn obtain S1 fr A1 acc A2 A3 where
    blk: "apply_block E (nd_state N) h b = Inr (S1, fr)"
    and A1: "A1 = nd_archive N \<or> (\<exists>f. A1 = put_orchard_frontier (nd_archive N) ?hash f)"
    and peg: "connect_two_way_peg_data E data S1 = Inr (nd_state N', acc)"
    and A2: "put_header E A1 h = Inr A2" and A3: "put_body E A2 ?hash b = Inr A3"
    and A': "nd_archive N' = put_accumulator A3 ?hash acc"
    and M': "mempool_connect_block E acc (nd_mempool N) b = Inr (nd_mempool N')"
    by (rule node_connect_tip_Inr)
  from inv have inv: "archive_inv (nd_archive N)" "mempool_ok E (nd_mempool N)" "peg_inv (nd_state N)"
    by (simp_all add: node_inv_def)
  note S1 = connect_block_inv [OF apply_block_eq_connect [OF blk new(2)] inv(3) new]
  have fresh: "\<forall>k\<in>fst ` set (deposits_of (peg_events data)). recorded S1 k = None"
  proof
    fix k
    assume that: "k \<in> fst ` set (deposits_of (peg_events data))"
    have "map_of (all_outputs E b) k = None"
      using deposit_not_block_output [OF that] by (simp add: map_of_eq_None_iff)
    moreover have "recorded (nd_state N) k = None" using that by (rule deps(2) [rule_format])
    ultimately show "recorded S1 k = None" using S1 by (simp add: map_add_def)
  qed
  note S' = connect_peg_data_inv [OF conjunct1 [OF S1] peg deps(1) fresh]
  have hdrs: "headers A1 = headers (nd_archive N)" using A1 by (auto simp: put_orchard_frontier_def)
  have "archive_inv A1 \<longleftrightarrow> archive_inv (nd_archive N)"
    by (rule archive_frame) (use A1 in \<open>auto simp: put_orchard_frontier_def\<close>)
  then have "archive_inv A1" using inv(1) by simp
  note hdr = put_header_inv [OF this A2, unfolded hdrs, OF nocoll]
  from A3 obtain t where A3': "A3 = A2\<lparr>bodies := fmupd ?hash b (bodies A2), txid_to_inclusions := t\<rparr>"
    by (rule put_body_Inr)
  have "archive_inv (nd_archive N') \<longleftrightarrow> archive_inv A2"
    by (rule archive_frame) (simp_all add: A' A3' put_accumulator_def)
  with hdr(1) S' mempool_connect_block_ok [OF inv(2) M'] show "node_inv E N'" by (simp add: node_inv_def)
  show "st_tip (nd_state N') = Some ?hash"
    using apply_block_sets_tip [OF blk] connect_peg_data_tip [OF peg] by simp
  show "recorded (nd_state N') = recorded (nd_state N) ++ map_of (all_outputs E b)
      ++ map_of (deposits_of (peg_events data))" using S' S1 by simp
  show "header_and_body (nd_archive N') ?hash = Inr (h, b)"
    using hdr(4) by (simp add: header_and_body_def get_header_def try_get_header_def get_body_def try_get_body_def
        A' A3' put_accumulator_def)
qed

text \<open>
  C23. Connecting a block with its peg data keeps the invariants of the archive, the mempool and the
  two-way peg together. Afterwards the tip is the block, the archive holds its header and its body
  under its hash, and the outputs recorded are those recorded before, those of the block and the
  deposits of the peg data, given that these are new and that the header's hash is not the hash of
  another stored header.
\<close>

theorem node_connect_tip_inv:
  assumes "node_inv E N" and "node_connect_tip E N h b data = Inr N'"
    and "distinct (block_created E b)"
    and "\<forall>op\<in>set (block_created E b). recorded (nd_state N) (out_point_key op) = None"
    and "distinct (map fst (deposits_of (peg_events data)))"
    and "\<forall>k\<in>fst ` set (deposits_of (peg_events data)). recorded (nd_state N) k = None"
    and "\<forall>h'. fmlookup (headers (nd_archive N)) (header_hash E h) = Some h' \<longrightarrow> h' = h"
  shows "node_inv E N' \<and> st_tip (nd_state N') = Some (header_hash E h)
    \<and> header_and_body (nd_archive N') (header_hash E h) = Inr (h, b)
    \<and> recorded (nd_state N') = recorded (nd_state N) ++ map_of (all_outputs E b)
        ++ map_of (deposits_of (peg_events data))"
  using node_connect_tip_ok [OF assms(1-6)] assms(7) by blast

section \<open>Reorganisation\<close>

lemma apply_step_commit:
  assumes "apply_step E tip N batch hb = Inr (N', batch', True)"
  obtains t where "st_tip (nd_state N') = Some (tip_block_hash t)"
    "\<And>old. tip = Some old \<Longrightarrow> better_tip (nd_archive N') old t = Inr (Some t)"
proof -
  from assms obtain b m where st: "st_tip (nd_state N') = Some b"
    and better: "\<And>old. tip = Some old \<Longrightarrow>
      better_tip (nd_archive N') old \<lparr>tip_block_hash = b, tip_main_block_hash = m\<rparr>
        = Inr (Some \<lparr>tip_block_hash = b, tip_main_block_hash = m\<rparr>)"
    by (auto simp: apply_step_def Let_def result_simps split: prod.splits option.splits)
  then show ?thesis by (intro that [of "\<lparr>tip_block_hash = b, tip_main_block_hash = m\<rparr>"]) auto
qed

lemma apply_blocks_committed:
  assumes "apply_blocks E tip new_tip C N batch hbs = (N', r)"
  shows "r \<noteq> Inr False" "r = Inr True \<Longrightarrow> st_tip (nd_state N') = Some (tip_block_hash new_tip)"
    "N' = C \<or> r = Inr True \<or> (\<exists>t. st_tip (nd_state N') = Some (tip_block_hash t)
       \<and> (\<forall>old. tip = Some old \<longrightarrow> better_tip (nd_archive N') old t = Inr (Some t)))"
proof -
  have "r \<noteq> Inr False \<and> (r = Inr True \<longrightarrow> st_tip (nd_state N') = Some (tip_block_hash new_tip))
    \<and> (N' = C \<or> r = Inr True \<or> (\<exists>t. st_tip (nd_state N') = Some (tip_block_hash t)
       \<and> (\<forall>old. tip = Some old \<longrightarrow> better_tip (nd_archive N') old t = Inr (Some t))))"
    using assms
  proof (induction hbs arbitrary: C N batch)
    case Nil
    then show ?case by (auto split: if_splits)
  next
    case (Cons hb hbs)
    show ?case
    proof (cases "apply_step E tip N batch hb")
      case (Inl e)
      with Cons.prems show ?thesis by auto
    next
      case (Inr x)
      obtain N1 batch1 commit where x: "x = (N1, batch1, commit)" by (cases x)
      with Inr Cons.prems have "apply_blocks E tip new_tip (if commit then N1 else C) N1 batch1 hbs = (N', r)"
        by simp
      note IH = Cons.IH [OF this]
      show ?thesis
      proof (cases commit)
        case True
        obtain t where "st_tip (nd_state N1) = Some (tip_block_hash t)"
          "\<And>old. tip = Some old \<Longrightarrow> better_tip (nd_archive N1) old t = Inr (Some t)"
          using apply_step_commit [of E tip N batch hb N1 batch1] Inr x True by auto
        with IH True show ?thesis by auto
      qed (use IH in simp)
    qed
  qed
  then show "r \<noteq> Inr False" "r = Inr True \<Longrightarrow> st_tip (nd_state N') = Some (tip_block_hash new_tip)"
    "N' = C \<or> r = Inr True \<or> (\<exists>t. st_tip (nd_state N') = Some (tip_block_hash t)
       \<and> (\<forall>old. tip = Some old \<longrightarrow> better_tip (nd_archive N') old t = Inr (Some t)))" by blast+
qed

lemma reorg_prepare_Inr:
  assumes "reorg_prepare E N new_tip = Inr (Some (tip, N1, blocks, batch))"
  shows "current_tip N = Inr tip"
    and "tip = Some old \<Longrightarrow> better_tip (nd_archive N) old new_tip = Inr (Some new_tip)"
  using assms by (auto simp: reorg_prepare_def result_simps split: option.splits if_splits)

text \<open>
  C3. A reorganisation never commits a worse tip. If it reports success, the tip is the requested
  one; if it declines, nothing has changed; and whatever happens, also when it fails half way, the
  databases are as before or at a tip that \<open>better_tip\<close> prefers to the old one.
\<close>

theorem reorg_to_tip_safe:
  assumes "reorg_to_tip E N new_tip = (N', r)"
  shows "(r = Inr False \<longrightarrow> N' = N)
    \<and> (r = Inr True \<longrightarrow> st_tip (nd_state N') = Some (tip_block_hash new_tip))
    \<and> (N' = N \<or> (\<exists>t. st_tip (nd_state N') = Some (tip_block_hash t)
        \<and> (\<forall>old. current_tip N = Inr (Some old) \<longrightarrow>
             better_tip (nd_archive N') old t = Inr (Some t)
             \<or> t = new_tip \<and> better_tip (nd_archive N) old new_tip = Inr (Some new_tip))))"
proof (cases "reorg_prepare E N new_tip")
  case (Inl e)
  with assms show ?thesis by (auto simp: reorg_to_tip_def)
next
  case (Inr p)
  show ?thesis
  proof (cases p)
    case None
    with Inr assms show ?thesis by (auto simp: reorg_to_tip_def)
  next
    case (Some x)
    obtain tip N1 blocks batch where x: "x = (tip, N1, blocks, batch)" by (cases x)
    note prep = reorg_prepare_Inr [OF Inr [unfolded Some x]]
    have "apply_blocks E tip new_tip N N1 batch (rev blocks) = (N', r)"
      using assms Inr Some x by (simp add: reorg_to_tip_def)
    note app = apply_blocks_committed [OF this]
    from app(3) have "N' = N \<or> (\<exists>t. st_tip (nd_state N') = Some (tip_block_hash t)
        \<and> (\<forall>old. current_tip N = Inr (Some old) \<longrightarrow> better_tip (nd_archive N') old t = Inr (Some t)
             \<or> t = new_tip \<and> better_tip (nd_archive N) old new_tip = Inr (Some new_tip)))"
    proof (elim disjE exE conjE)
      assume "r = Inr True"
      with app(2) prep show ?thesis by (intro disjI2 exI [of _ new_tip]) simp
    next
      fix t
      assume "st_tip (nd_state N') = Some (tip_block_hash t)"
        "\<forall>old. tip = Some old \<longrightarrow> better_tip (nd_archive N') old t = Inr (Some t)"
      with prep(1) show ?thesis by auto
    qed simp
    with app(1,2) show ?thesis by blast
  qed
qed

section \<open>Every mainchain block is delivered once\<close>

lemma update_absent: "k \<notin> fst ` set al \<Longrightarrow> AList.update k v al = al @ [(k, v)]"
  by (induction al) auto

lemma fill_2wpd_splits:
  assumes "fill_2wpd stop data batch = (data', batch')" and "distinct (map fst (data @ rev batch))"
  shows "\<exists>new. data' = data @ new \<and> rev batch = new @ rev batch' \<and> stop \<notin> fst ` set (butlast new)
    \<and> (batch' \<noteq> [] \<longrightarrow> new \<noteq> [] \<and> fst (last new) = stop)"
  using assms
proof (induction stop data batch rule: fill_2wpd.induct)
  case (1 stop data batch)
  show ?case
  proof (cases "batch = []")
    case True
    with "1.prems" show ?thesis by (auto simp: fill_2wpd.simps [of stop data "[]"])
  next
    case False
    obtain k v where kv: "last batch = (k, v)" by (cases "last batch")
    have rev_b: "rev batch = (k, v) # rev (butlast batch)"
      using False kv by (metis append_butlast_last_id rev.simps(2) rev_rev_ident rev_swap)
    have upd: "AList.update k v data = data @ [(k, v)]"
      using "1.prems"(2) by (intro update_absent) (auto simp: rev_b)
    show ?thesis
    proof (cases "k = stop")
      case True
      with "1.prems" False kv upd have "data' = data @ [(k, v)]" "batch' = butlast batch"
        by (simp_all add: fill_2wpd.simps [of stop data batch] Let_def)
      with True rev_b show ?thesis by (intro exI [of _ "[(k, v)]"]) simp
    next
      case False': False
      have "fill_2wpd stop (data @ [(k, v)]) (butlast batch) = (data', batch')"
        using "1.prems"(1) False False' kv upd by (simp add: fill_2wpd.simps [of stop data batch] Let_def)
      moreover have "distinct (map fst ((data @ [(k, v)]) @ rev (butlast batch)))"
        using "1.prems"(2) by (simp add: rev_b)
      ultimately obtain new where "data' = (data @ [(k, v)]) @ new" "rev (butlast batch) = new @ rev batch'"
        "stop \<notin> fst ` set (butlast new)" "batch' \<noteq> [] \<longrightarrow> new \<noteq> [] \<and> fst (last new) = stop"
        using "1.IH" [OF False kv [symmetric] refl] False' upd by auto
      with False' rev_b show ?thesis by (intro exI [of _ "(k, v) # new"]) auto
    qed
  qed
qed

text \<open>
  The batch of mainchain blocks that a reorganisation hands out is split without loss: a block
  gets, oldest first, the mainchain blocks up to the one its header names (or all that are left),
  and what it gets followed by what is left for the next blocks is the batch from its oldest entry.
\<close>

theorem fill_2wpd_delivers:
  assumes "fill_2wpd stop [] batch = (data, rest)" and "distinct (map fst batch)"
  shows "rev batch = data @ rev rest \<and> stop \<notin> fst ` set (butlast data)
    \<and> (rest \<noteq> [] \<longrightarrow> data \<noteq> [] \<and> fst (last data) = stop)"
  using fill_2wpd_splits [OF assms(1)] assms(2) by (auto simp: rev_map [symmetric])

definition no_info :: block_info where
  "no_info = \<lparr>bmm_commitment = None, events = []\<rparr>"

theorem fill_2wpd_delivers_witness:
  "fill_2wpd (MainHash 2) [] [(MainHash 3, no_info), (MainHash 2, no_info), (MainHash 1, no_info)]
     = ([(MainHash 1, no_info), (MainHash 2, no_info)], [(MainHash 3, no_info)])
   \<and> rev [(MainHash 3, no_info), (MainHash 2, no_info), (MainHash 1, no_info)]
     = [(MainHash 1, no_info), (MainHash 2, no_info)] @ rev [(MainHash 3, no_info)]"
proof -
  have r: "fill_2wpd (MainHash 2) [] [(MainHash 3, no_info), (MainHash 2, no_info), (MainHash 1, no_info)]
     = ([(MainHash 1, no_info), (MainHash 2, no_info)], [(MainHash 3, no_info)])"
    by (simp add: fill_2wpd.simps)
  with fill_2wpd_delivers [OF r] show ?thesis by simp
qed

section \<open>A reorganisation completes\<close>

definition headers_keyed :: "('acc, 'fr, 'pf) ext \<Rightarrow> ('acc, 'fr, 'pf) archive \<Rightarrow> bool" where
  "headers_keyed E A \<longleftrightarrow> (\<forall>b h. fmlookup (headers A) b = Some h \<longrightarrow> header_hash E h = b)"

text \<open>Applying all blocks without regard to commits.\<close>

definition apply_all ::
  "('acc, 'fr, 'pf) ext \<Rightarrow> tip option \<Rightarrow> ('acc, 'fr, 'pf) node_dbs \<times> (main_hash \<times> block_info) list
    \<Rightarrow> (header \<times> 'pf body) list \<Rightarrow> (('acc, 'fr, 'pf) node_dbs \<times> (main_hash \<times> block_info) list) net_task_result" where
  "apply_all E tip = fold_res (\<lambda>(N, batch) hb. map_ok (\<lambda>(N, batch, _). (N, batch)) (apply_step E tip N batch hb))"

lemma apply_blocks_last:
  assumes "apply_all E tip (N, batch) hbs = Inr (N', batch')"
    and "st_tip (nd_state N') = Some (tip_block_hash new_tip)"
  shows "apply_blocks E tip new_tip C N batch hbs = (N', Inr True)"
  using assms
proof (induction hbs arbitrary: C N batch)
  case Nil
  then show ?case by (simp add: apply_all_def)
next
  case (Cons hb hbs)
  then obtain N1 b1 c where step: "apply_step E tip N batch hb = Inr (N1, b1, c)"
    and "apply_all E tip (N1, b1) hbs = Inr (N', batch')"
    by (auto simp: apply_all_def result_simps)
  with Cons.IH [OF this(2) Cons.prems(2)] show ?case by simp
qed

lemma node_connect_tip_tip:
  assumes "node_connect_tip E N h b data = Inr N'"
  shows "st_tip (nd_state N') = Some (header_hash E h)"
  using assms by (rule node_connect_tip_Inr) (use apply_block_sets_tip connect_peg_data_tip in fastforce)

lemma apply_step_tip:
  assumes "apply_step E tip N batch (h, b) = Inr (N', batch', c)"
  shows "st_tip (nd_state N') = Some (header_hash E h)"
proof -
  obtain data rest where "fill_2wpd (prev_main_hash h) [] batch = (data, rest)" by fastforce
  with assms have "node_connect_tip E N h b data = Inr N'"
    by (auto simp: apply_step_def Let_def result_simps split: option.split_asm)
  then show ?thesis by (rule node_connect_tip_tip)
qed

lemma apply_all_tip:
  assumes "apply_all E tip (N, batch) (hbs @ [(h, b)]) = Inr (N', batch')"
  shows "st_tip (nd_state N') = Some (header_hash E h)"
  using assms by (auto simp: apply_all_def fold_res_append result_simps dest: apply_step_tip)

text \<open>
  C29. The assertion at the end of a reorganisation cannot fail: if the preparation succeeds and every
  block can be connected, then the reorganisation ends at the requested tip and reports success, given
  that the archive stores headers under their hashes.
\<close>

theorem reorg_to_tip_completes:
  assumes "reorg_prepare E N new_tip = Inr (Some (tip, N1, blocks, batch))"
    and "headers_keyed E (nd_archive N)"
    and "apply_all E tip (N1, batch) (rev blocks) = Inr (N', batch')"
  shows "reorg_to_tip E N new_tip = (N', Inr True)
    \<and> st_tip (nd_state N') = Some (tip_block_hash new_tip)"
proof -
  from assms(1) obtain common where
    "blocks_to_apply (nd_archive N) common (tip_block_hash new_tip) = Inr blocks"
    by (auto simp: reorg_prepare_def result_simps split: option.splits if_splits)
  then obtain h b rest where blocks: "blocks = (h, b) # rest"
    and h: "fmlookup (headers (nd_archive N)) (tip_block_hash new_tip) = Some h"
    by (auto simp: blocks_to_apply_def header_and_body_def get_header_def try_get_header_def result_simps)
  from assms(2) h have "header_hash E h = tip_block_hash new_tip" by (simp add: headers_keyed_def)
  then have tip: "st_tip (nd_state N') = Some (tip_block_hash new_tip)"
    using apply_all_tip [of E tip N1 batch "rev rest" h b] assms(3) by (simp add: blocks)
  from apply_blocks_last [OF assms(3) tip, of N] tip assms(1) show ?thesis
    by (simp add: reorg_to_tip_def)
qed

section \<open>Examples\<close>

text \<open>An archive in which the mainchain block 1 commits to the example block.\<close>

abbreviation ex_header :: header where
  "ex_header \<equiv> Block_Valid.example_header"

definition ex_hash :: block_hash where
  "ex_hash = header_hash example_ext ex_header"

definition ex_archive :: "(hash list, cmx list, unit) archive" where
  "ex_archive = example_archive\<lparr>
     main_header_infos := fmupd (MainHash 1) \<lparr>info_block_hash = MainHash 1, prev_block_hash = all_zeros,
       info_height = 0, work = 1\<rparr> fmempty,
     main_block_infos := fmupd (MainHash 1) \<lparr>bmm_commitment = Some ex_hash, events = []\<rparr> fmempty,
     main_successors := fmupd (MainHash 1) [] (fmupd all_zeros [MainHash 1] fmempty),
     main_block_hash_to_height := fmupd (MainHash 1) 1 fmempty,
     total_work := fmupd (MainHash 1) 1 fmempty,
     exponential_main_ancestors := fmupd (MainHash 1) [] fmempty,
     headers := fmupd ex_hash ex_header fmempty,
     bodies := fmupd ex_hash example_body fmempty,
     block_hash_to_height := fmupd ex_hash 0 fmempty,
     successors := fmupd (Some ex_hash) [] (fmupd None [ex_hash] fmempty),
     exponential_ancestors := fmupd ex_hash [] fmempty,
     bmm_results := fmupd ex_hash [(MainHash 1, BmmVerified)] fmempty\<rparr>"

definition ex_node :: "(hash list, cmx list, unit) archive \<Rightarrow> (hash list, cmx list, unit) node_dbs" where
  "ex_node A = \<lparr>nd_archive = A, nd_mempool = mempool_new, nd_state = example_state\<rparr>"

lemma ex_connect_peg:
  assumes "connect_block example_ext example_state ex_header example_body = Inr (S, fro)"
  obtains S' acc where "connect_two_way_peg_data example_ext [] S = Inr (S', acc)"
proof -
  from assms have "\<exists>acc. st_height S = Some 0 \<and> utreexo_accumulator S = Some acc
      \<and> latest_failed_withdrawal_bundle S = None"
  proof (rule connect_block_Inr)
    fix acc fr S1 d1 fr1 acc' height
    assume txs: "connect_txs example_ext (example_state\<lparr>utxos := puts (coinbase_puts (merkle_root ex_header)
        (coinbase example_body)) (utxos example_state)\<rparr>,
       fold (\<lambda>(vout, out). diff_insert (pointed_output_hash example_ext
         (coinbase_outpoint (merkle_root ex_header) vout) out))
         (List.enumerate 0 (coinbase example_body)) diff_default, fr) (body_transactions example_body) = Inr (S1, d1, fr1)"
      and ht: "(case st_height S1 of None \<Rightarrow> Inr 0 | Some height \<Rightarrow> add_u32 height 1)
        = (Inr height :: (connect_block_error, nat) result)"
      and S: "S = S1\<lparr>st_tip := Some (header_hash example_ext ex_header), st_height := Some height,
         utreexo_accumulator := Some acc', st_orchard := fst (put_historical_root (header_hash example_ext ex_header)
           (frontier_root example_ext fr1) (put_frontier fr1 (st_orchard S1)))\<rparr>"
    have "S1 = rewind S1 (example_state\<lparr>utxos := puts (coinbase_puts (merkle_root ex_header)
        (coinbase example_body)) (utxos example_state)\<rparr>)" by (rule connect_txs_frame [OF txs])
    from arg_cong [OF this, of st_height] arg_cong [OF this, of latest_failed_withdrawal_bundle]
    have "st_height S1 = None" "latest_failed_withdrawal_bundle S1 = None"
      by (simp_all add: rewind_def example_state_def)
    moreover from this ht have "height = 0" by simp
    ultimately show ?thesis by (simp add: S)
  qed
  then obtain acc where S: "st_height S = Some 0" "utreexo_accumulator S = Some acc"
    "latest_failed_withdrawal_bundle S = None" by blast
  have "\<exists>S' acc'. connect_two_way_peg_data example_ext [] S = Inr (S', acc')"
    by (simp add: connect_two_way_peg_data_def S peg_events_def record_blocks_def no_latest_def propose_bundle_def
        last_failure_height_def get_latest_failed_withdrawal_bundle_def sub_u32_def checked_sub_def
        WITHDRAWAL_BUNDLE_FAILURE_GAP_def apply_diff_def diff_default_def example_ext_def)
  with that show ?thesis by blast
qed

lemma ex_header_fields:
  "header_hash example_ext ex_header = ex_hash" "prev_side_hash ex_header = None" "prev_main_hash ex_header = all_zeros"
  by (simp_all add: ex_hash_def Block_Valid.example_header_def all_zeros_def)

lemma ex_put_header:
  assumes "A = example_archive \<or> A = ex_archive"
    and "B = A \<or> (\<exists>fr. B = put_orchard_frontier A ex_hash fr)"
  obtains A' where "put_header example_ext B ex_header = Inr A'" "total_work A' = total_work A"
    "fmlookup (headers A') ex_hash = Some ex_header"
    "A = ex_archive \<longrightarrow> fmlookup (bmm_results A') ex_hash = Some [(MainHash 1, BmmVerified)]"
proof -
  have "\<exists>A'. put_header example_ext B ex_header = Inr A' \<and> total_work A' = total_work A
     \<and> fmlookup (headers A') ex_hash = Some ex_header
     \<and> (A = ex_archive \<longrightarrow> fmlookup (bmm_results A') ex_hash = Some [(MainHash 1, BmmVerified)])"
    using assms(1)
  proof
    assume "A = example_archive"
    with assms(2) show ?thesis
      by (auto simp: put_defs lookup_defs ex_header_fields put_orchard_frontier_def example_archive_def
          empty_archive_def ex_archive_def)
  next
    assume "A = ex_archive"
    with assms(2) show ?thesis
      by (auto simp: put_defs lookup_defs ex_header_fields put_orchard_frontier_def example_archive_def
          empty_archive_def ex_archive_def bmm_check_def get_main_block_info_def try_get_main_block_info_def)
  qed
  with that show ?thesis by blast
qed

lemma empty_pool_connect:
  fixes b :: "'pf body"
  shows "mempool_connect_block E acc mempool_new b = Inr mempool_new"
proof -
  have "mempool_delete (mempool_new :: 'pf mempool) t = mempool_new" for t
    by (simp add: mempool_delete_def mempool_new_def)
  moreover have "fold evict_nullifier ns (mempool_new :: 'pf mempool) = mempool_new" for ns
    by (induction ns) (simp_all add: evict_nullifier_def mempool_new_def)
  ultimately have "fold (evict_transaction E) txs mempool_new = mempool_new" for txs
    by (induction txs) (simp_all add: evict_transaction_def)
  then show ?thesis
    by (simp add: mempool_connect_block_def mempool_regenerate_proofs_def)
      (simp add: mempool_new_def sorted_list_of_fmap_def sorted_list_of_fset.rep_eq)
qed

lemma ex_connect_tip:
  assumes "A = example_archive \<or> A = ex_archive"
  obtains N' where "node_connect_tip example_ext (ex_node A) ex_header example_body [] = Inr N'"
    "total_work (nd_archive N') = total_work A"
    "A = ex_archive \<longrightarrow> fmlookup (bmm_results (nd_archive N')) ex_hash = Some [(MainHash 1, BmmVerified)]"
proof -
  from example_connect obtain S fro where
    blk: "connect_block example_ext example_state ex_header example_body = Inr (S, fro)" by blast
  from ex_connect_peg [OF this] obtain S' acc where
    peg: "connect_two_way_peg_data example_ext [] S = Inr (S', acc)" .
  let ?B = "case fro of Some fr \<Rightarrow> put_orchard_frontier A ex_hash fr | None \<Rightarrow> A"
  obtain A' where A': "put_header example_ext ?B ex_header = Inr A'" "total_work A' = total_work A"
    "fmlookup (headers A') ex_hash = Some ex_header"
    "A = ex_archive \<longrightarrow> fmlookup (bmm_results A') ex_hash = Some [(MainHash 1, BmmVerified)]"
    by (rule ex_put_header [OF assms, of ?B]) (auto split: option.splits)
  obtain A'' where body: "put_body example_ext A' ex_hash example_body = Inr A''"
    using A'(3) by (auto simp: put_body_def get_header_def try_get_header_def)
  then obtain t where A'': "A'' = A'\<lparr>bodies := fmupd ex_hash example_body (bodies A'), txid_to_inclusions := t\<rparr>"
    by (rule put_body_Inr)
  have conn: "node_connect_tip example_ext (ex_node A) ex_header example_body [] =
      Inr \<lparr>nd_archive = put_accumulator A'' ex_hash acc, nd_mempool = mempool_new, nd_state = S'\<rparr>"
    using A'(1) by (cases fro) (simp_all add: node_connect_tip_def ex_node_def example_apply blk peg body
        empty_pool_connect ex_header_fields)
  show ?thesis by (rule that [OF conn]) (use A'(2,4) in \<open>simp_all add: A'' put_accumulator_def\<close>)
qed

theorem node_connect_tip_inv_witness:
  "\<exists>N'. node_connect_tip example_ext (ex_node example_archive) ex_header example_body [] = Inr N'
     \<and> node_inv example_ext N' \<and> st_tip (nd_state N') = Some ex_hash
     \<and> header_and_body (nd_archive N') ex_hash = Inr (ex_header, example_body)"
proof -
  obtain N' where N': "node_connect_tip example_ext (ex_node example_archive) ex_header example_body [] = Inr N'"
    by (rule ex_connect_tip [of example_archive]) auto
  have "mempool_ok example_ext mempool_new"
    by (simp add: mempool_ok_def mempool_new_def pool_spends_def pool_uses_def)
  then have "node_inv example_ext (ex_node example_archive)"
    using example_archive_inv example_state_peg by (simp add: node_inv_def ex_node_def)
  from node_connect_tip_inv [OF this N'] example_new N' show ?thesis
    by (simp add: ex_header_fields ex_node_def peg_events_def deposits_of_def example_archive_def empty_archive_def)
qed

lemma ex_blocks: "blocks_to_apply ex_archive None ex_hash = Inr [(ex_header, example_body)]"
  by (simp add: blocks_to_apply_def header_and_body_def get_header_def try_get_header_def get_body_def
      try_get_body_def ex_archive_def ex_header_fields ancestor_fuel_def)

lemma ex_prepare:
  "reorg_prepare example_ext (ex_node ex_archive) \<lparr>tip_block_hash = ex_hash, tip_main_block_hash = MainHash 1\<rparr>
     = Inr (Some (None, ex_node ex_archive, [(ex_header, example_body)], []))"
proof -
  have "st_tip example_state = None" "st_height example_state = None" by (simp_all add: example_state_def)
  then show ?thesis
    by (simp add: reorg_prepare_def ex_node_def current_tip_def ex_blocks disconnects_def peg_data_batch_def
        ex_header_fields main_fuel_def)
qed

lemma ex_apply_all:
  "\<exists>N'. apply_all example_ext None (ex_node ex_archive, []) [(ex_header, example_body)] = Inr (N', [])
     \<and> st_tip (nd_state N') = Some ex_hash"
proof -
  obtain N' where N': "node_connect_tip example_ext (ex_node ex_archive) ex_header example_body [] = Inr N'"
    "total_work (nd_archive N') = total_work ex_archive"
    "fmlookup (bmm_results (nd_archive N')) ex_hash = Some [(MainHash 1, BmmVerified)]"
    by (rule ex_connect_tip [of ex_archive]) auto
  then have "st_tip (nd_state N') = Some ex_hash" using node_connect_tip_tip ex_header_fields(1) by metis
  moreover have "get_best_main_verification (nd_archive N') ex_hash = Inr (MainHash 1)"
    by (simp add: get_best_main_verification_def try_get_best_main_verification_def get_bmm_results_def N'
        get_total_work_def try_get_total_work_def) (simp add: ex_archive_def)
  ultimately show ?thesis
    by (simp add: apply_all_def apply_step_def fill_2wpd.simps N'(1))
qed

theorem reorg_to_tip_completes_witness:
  "\<exists>N'. reorg_to_tip example_ext (ex_node ex_archive) \<lparr>tip_block_hash = ex_hash, tip_main_block_hash = MainHash 1\<rparr>
     = (N', Inr True)"
proof -
  obtain N' where N': "apply_all example_ext None (ex_node ex_archive, []) (rev [(ex_header, example_body)]) = Inr (N', [])"
    using ex_apply_all by auto
  have "headers_keyed example_ext (nd_archive (ex_node ex_archive))"
    by (simp add: headers_keyed_def ex_node_def ex_archive_def ex_header_fields)
  from reorg_to_tip_completes [OF ex_prepare this N'] show ?thesis by blast
qed

theorem reorg_to_tip_safe_witness:
  "\<exists>N'. reorg_to_tip example_ext (ex_node ex_archive) \<lparr>tip_block_hash = ex_hash, tip_main_block_hash = MainHash 1\<rparr>
     = (N', Inr True) \<and> st_tip (nd_state N') = Some ex_hash"
proof -
  let ?tip = "\<lparr>tip_block_hash = ex_hash, tip_main_block_hash = MainHash 1\<rparr>"
  obtain N' where N': "apply_all example_ext None (ex_node ex_archive, []) [(ex_header, example_body)] = Inr (N', [])"
    "st_tip (nd_state N') = Some (tip_block_hash ?tip)" using ex_apply_all by auto
  have run: "reorg_to_tip example_ext (ex_node ex_archive) ?tip = (N', Inr True)"
    using apply_blocks_last [OF N'] by (simp add: reorg_to_tip_def ex_prepare)
  from reorg_to_tip_safe [OF run] run show ?thesis by simp
qed

text \<open>
  The peg data that \<open>disconnect_tip_\<close> computes for the block at height 1 holds the deposits of mainchain
  block 1, although these were connected, and recorded as such, by the block at height 0: the
  search for the last block applied before compares with one less than the height.
\<close>

definition ex_deposit_info :: block_info where
  "ex_deposit_info = \<lparr>bmm_commitment = None, events = [DepositEvent \<lparr>tx_index = 0, dep_txid = 1, dep_vout = 0,
     dep_output = example_output 10\<rparr>]\<rparr>"

definition ex_two_blocks :: "(hash list, cmx list, unit) node_dbs" where
  "ex_two_blocks = \<lparr>nd_archive = example_archive\<lparr>
       main_header_infos := fmupd (MainHash 2) \<lparr>info_block_hash = MainHash 2, prev_block_hash = MainHash 1,
           info_height = 1, work = 1\<rparr>
         (fmupd (MainHash 1) \<lparr>info_block_hash = MainHash 1, prev_block_hash = all_zeros, info_height = 0, work = 1\<rparr> fmempty),
       main_block_infos := fmupd (MainHash 2) no_info (fmupd (MainHash 1) ex_deposit_info fmempty)\<rparr>,
     nd_mempool = mempool_new,
     nd_state = example_state\<lparr>st_height := Some 1, deposit_blocks := fmupd 0 (MainHash 1, 0) fmempty\<rparr>\<rparr>"

theorem disconnect_repeats_previous_deposits:
  "disconnect_peg_data ex_two_blocks (ex_header\<lparr>prev_main_hash := MainHash 2\<rparr>) 1
     = Inr [(MainHash 1, ex_deposit_info)]"
proof -
  have fuel: "main_fuel (nd_archive ex_two_blocks) = 3"
    by (simp add: main_fuel_def ex_two_blocks_def fcard_finsert_if)
  have walk: "main_walk 3 (nd_archive ex_two_blocks) None (info_with_events (nd_archive ex_two_blocks)) (MainHash 2)
    = Inr [(MainHash 1, ex_deposit_info)]"
    by (simp add: numeral_3_eq_3 ex_two_blocks_def info_with_events_def lookup_defs get_main_block_info_def
        try_get_main_block_info_def no_info_def ex_deposit_info_def all_zeros_def)
  have vals: "db_rev_values (deposit_blocks (nd_state ex_two_blocks)) = [(MainHash 1, 0)]"
    "db_rev_values (withdrawal_bundle_event_blocks (nd_state ex_two_blocks)) = []"
    by (simp_all add: db_rev_values_def ex_two_blocks_def example_state_def sorted_list_of_fmap_def
        sorted_list_of_fset.rep_eq)
  show ?thesis
    by (simp add: disconnect_peg_data_def vals sub_u32_def checked_sub_def start_block_def fuel walk)
qed

end
