(* ===== verification/Node.thy ===== *)
theory Node
  imports Node_Invariant "HOL-Library.Sublist"
begin

text \<open>
  \<open>lib/node/mod.rs\<close>: what the node offers to its clients over the databases: submitting transactions
  and blocks, the transactions for a new block, and lookups of blocks and transactions. Operations that
  only pass a lookup of the state or the archive on are not repeated. A failed operation leaves the
  databases as they were, except \<open>submit_block\<close>, which commits several times and returns the databases as
  last committed.
\<close>

section \<open>Operations\<close>

datatype node_error =
    NdAmountOverflow
  | NdAmountUnderflow
  | NdArchive archive_error
  | NdMainchainAncestors
  | NdMemPool mempool_error
  | NdNetTask
  | NdState state_error

type_synonym 'a node_result = "(node_error, 'a) result"

text \<open>The accepted transaction is pushed to all peers.\<close>

definition submit_transaction ::
  "('acc, 'fr, 'pf) ext \<Rightarrow> ('acc, 'fr, 'pf) node_dbs \<Rightarrow> 'pf authorized_transaction
    \<Rightarrow> ('acc, 'fr, 'pf) node_dbs node_result" where
  "submit_transaction E N at =
     and_then (map_err NdState (validate_transaction E (nd_state N) at)) (\<lambda>_.
     map_ok (\<lambda>M. N\<lparr>nd_mempool := M\<rparr>) (map_err NdMemPool (mempool_put E (nd_mempool N) at)))"

definition remove_from_mempool ::
  "('acc, 'fr, 'pf) node_dbs \<Rightarrow> txid \<Rightarrow> ('acc, 'fr, 'pf) node_dbs" where
  "remove_from_mempool N txid = N\<lparr>nd_mempool := mempool_delete (nd_mempool N) txid\<rparr>"

definition get_spent_utxos ::
  "('acc, 'fr) state \<Rightarrow> out_point list \<Rightarrow> (out_point \<times> spent_output) list" where
  "get_spent_utxos S outpoints =
     List.map_filter (\<lambda>op. map_option (Pair op) (fmlookup (stxos S) (out_point_key op))) outpoints"

text \<open>\<open>ancestors(tip).nth(n)\<close>.\<close>

primrec nth_of_ancestors ::
  "('acc, 'fr, 'pf) archive \<Rightarrow> nat \<Rightarrow> block_hash option \<Rightarrow> block_hash option archive_result" where
  "nth_of_ancestors A 0 b =
     (case b of None \<Rightarrow> Inr None | Some block_hash \<Rightarrow> map_ok (\<lambda>_. Some block_hash) (get_header A block_hash))"
| "nth_of_ancestors A (Suc n) b =
     (case b of None \<Rightarrow> Inr None
      | Some block_hash \<Rightarrow>
          and_then (get_header A block_hash) (\<lambda>header. nth_of_ancestors A n (prev_side_hash header)))"

definition try_get_block_hash ::
  "('acc, 'fr, 'pf) node_dbs \<Rightarrow> nat \<Rightarrow> block_hash option node_result" where
  "try_get_block_hash N height =
     (case st_tip (nd_state N) of
        None \<Rightarrow> Inr None
      | Some tip \<Rightarrow>
          (case st_height (nd_state N) of
             None \<Rightarrow> Inr None
           | Some tip_height \<Rightarrow>
               if tip_height \<ge> height
               then map_err NdArchive (nth_of_ancestors (nd_archive N) (tip_height - height) (Some tip))
               else Inr None))"

definition get_bmm_inclusions :: "('acc, 'fr, 'pf) archive \<Rightarrow> block_hash \<Rightarrow> main_hash list" where
  "get_bmm_inclusions A b = [m. (m, r) \<leftarrow> get_bmm_results A b, r = BmmVerified]"

section \<open>Transactions for a new block\<close>

definition checked_sum :: "nat list \<Rightarrow> nat option" where
  "checked_sum vs = fold (\<lambda>v s. Option.bind s (\<lambda>s. checked_add 64 s v)) vs (Some 0)"

definition filled_fee :: "'pf filled_transaction \<Rightarrow> nat node_result" where
  "filled_fee ft =
     and_then (ok_or NdAmountOverflow (checked_sum (map get_value (spent_utxos ft)))) (\<lambda>value_in.
     and_then (ok_or NdAmountOverflow (checked_sum (map get_value (outputs (ft_transaction ft))))) (\<lambda>value_out.
     and_then
       (case orchard_bundle (ft_transaction ft) of
          None \<Rightarrow> Inr (value_in, value_out)
        | Some orchard \<Rightarrow>
            if value_balance orchard > 0
            then map_ok (\<lambda>v. (v, value_out))
              (ok_or NdAmountOverflow (checked_add 64 value_in (nat \<bar>value_balance orchard\<bar>)))
            else map_ok (Pair value_in)
              (ok_or NdAmountOverflow (checked_add 64 value_out (nat \<bar>value_balance orchard\<bar>))))
       (\<lambda>(value_in, value_out). ok_or NdAmountOverflow (checked_sub value_in value_out))))"

record 'pf template =
  tp_mempool :: "'pf mempool"
  tp_fee :: nat
  tp_returned :: "'pf authorized_transaction list"
  tp_spent :: "(out_point \<times> hash) set"

definition template_step ::
  "('acc, 'fr, 'pf) ext \<Rightarrow> ('acc, 'fr) state \<Rightarrow> 'pf template \<Rightarrow> 'pf authorized_transaction \<Rightarrow> 'pf template node_result" where
  "template_step E S T at =
     (let tx = transaction at; drop_tx = T\<lparr>tp_mempool := mempool_delete (tp_mempool T) (tx_txid E tx)\<rparr>
      in if tp_spent T \<inter> set (inputs tx) \<noteq> {} then Inr drop_tx
         else case validate_transaction E S at of
           Inl _ \<Rightarrow> Inr drop_tx
         | Inr _ \<Rightarrow>
             and_then (map_err NdState (fill_transaction S tx)) (\<lambda>filled.
             and_then (filled_fee filled) (\<lambda>f.
             and_then (ok_or NdAmountUnderflow (checked_add 64 (tp_fee T) f)) (\<lambda>fee.
             Inr (T\<lparr>tp_fee := fee, tp_returned := tp_returned T @ [at], tp_spent := tp_spent T \<union> set (inputs tx)\<rparr>)))))"

definition get_transactions ::
  "('acc, 'fr, 'pf) ext \<Rightarrow> ('acc, 'fr, 'pf) node_dbs \<Rightarrow> nat
    \<Rightarrow> (('acc, 'fr, 'pf) node_dbs \<times> 'pf authorized_transaction list \<times> nat) node_result" where
  "get_transactions E N number =
     map_ok (\<lambda>T. (N\<lparr>nd_mempool := tp_mempool T\<rparr>, tp_returned T, tp_fee T))
       (fold_res (template_step E (nd_state N))
         \<lparr>tp_mempool = nd_mempool N, tp_fee = 0, tp_returned = [], tp_spent = {}\<rparr>
         (mempool_take (nd_mempool N) number))"

section \<open>Looking up a transaction\<close>

text \<open>\<open>find\<close> of a fallible iterator.\<close>

primrec find_res :: "('x \<Rightarrow> 'e + bool) \<Rightarrow> 'x list \<Rightarrow> 'e + 'x option" where
  "find_res f [] = Inr None"
| "find_res f (x # xs) = and_then (f x) (\<lambda>b. if b then Inr (Some x) else find_res f xs)"

definition try_get_transaction ::
  "('acc, 'fr, 'pf) node_dbs \<Rightarrow> txid \<Rightarrow> ('pf transaction \<times> block_hash option) option node_result" where
  "try_get_transaction N txid =
     and_then
       (case st_tip (nd_state N) of
          None \<Rightarrow> Inr None
        | Some tip \<Rightarrow> map_err NdArchive (find_res (\<lambda>(block_hash, _). is_descendant (nd_archive N) tip block_hash)
            (sorted_list_of_fmap (get_tx_inclusions (nd_archive N) txid))))
       (\<lambda>inclusion.
     case inclusion of
       Some (block_hash, txin) \<Rightarrow>
         and_then (map_err NdArchive (get_body (nd_archive N) block_hash)) (\<lambda>body.
         if txin < length (body_transactions body)
         then Inr (Some (body_transactions body ! txin, Some block_hash))
         else Inl Panic)
     | None \<Rightarrow>
         Inr (map_option (\<lambda>at. (transaction at, None)) (fmlookup (mp_transactions (nd_mempool N)) txid)))"

section \<open>Submitting a block\<close>

text \<open>
  \<open>new_tip_ready_confirm\<close> waits for the net task. If the reorganisation fails, the task ends, the channel
  is closed and the caller sees an error.
\<close>

definition new_tip_ready_confirm ::
  "('acc, 'fr, 'pf) ext \<Rightarrow> ('acc, 'fr, 'pf) node_dbs \<Rightarrow> tip
    \<Rightarrow> ('acc, 'fr, 'pf) node_dbs \<times> bool node_result" where
  "new_tip_ready_confirm E N new_tip =
     (case reorg_to_tip E N new_tip of
        (N, Inr b) \<Rightarrow> (N, Inr b)
      | (N, Inl _) \<Rightarrow> (N, Inl (Err NdNetTask)))"

definition store_submitted_body ::
  "('acc, 'fr, 'pf) ext \<Rightarrow> ('acc, 'fr, 'pf) node_dbs \<Rightarrow> block_hash \<Rightarrow> 'pf body
    \<Rightarrow> ('acc, 'fr, 'pf) node_dbs option node_result" where
  "store_submitted_body E N block_hash body =
     and_then (case st_tip (nd_state N) of
         None \<Rightarrow> Inr None
       | Some tip \<Rightarrow> map_err NdArchive (last_common_ancestor (nd_archive N) tip block_hash)) (\<lambda>common.
     and_then (map_err NdArchive (get_missing_bodies (nd_archive N) block_hash common)) (\<lambda>missing.
     if \<not> (missing = [] \<or> missing = [block_hash]) then Inr None
     else if missing = [block_hash]
     then map_ok (\<lambda>A. Some (N\<lparr>nd_archive := A\<rparr>)) (map_err NdArchive (put_body E (nd_archive N) block_hash body))
     else Inr (Some N)))"

text \<open>
  \<open>request_ancestor_infos\<close> is the answer of the mainchain task, which writes mainchain headers to the archive.
  The broadcast of the pending bundle to the mainchain at the end is not modelled.
\<close>

definition submit_block ::
  "('acc, 'fr, 'pf) ext \<Rightarrow> (('acc, 'fr, 'pf) node_dbs \<Rightarrow> main_hash \<Rightarrow> ('acc, 'fr, 'pf) node_dbs \<times> bool option)
    \<Rightarrow> ('acc, 'fr, 'pf) node_dbs \<Rightarrow> main_hash \<Rightarrow> header \<Rightarrow> 'pf body
    \<Rightarrow> ('acc, 'fr, 'pf) node_dbs \<times> bool node_result" where
  "submit_block E request_ancestor_infos N main_block_hash header body =
     (let block_hash = header_hash E header
      in if (case prev_side_hash header of None \<Rightarrow> False | Some parent \<Rightarrow> try_get_header (nd_archive N) parent = None)
         then (N, Inr False)
         else case request_ancestor_infos N main_block_hash of
           (N, None) \<Rightarrow> (N, Inl (Err NdMainchainAncestors))
         | (N, Some False) \<Rightarrow> (N, Inr False)
         | (N, Some True) \<Rightarrow>
             (case map_err NdArchive (put_header E (nd_archive N) header) of
                Inl e \<Rightarrow> (N, Inl e)
              | Inr A \<Rightarrow>
                  let N = N\<lparr>nd_archive := A\<rparr>
                  in case map_err NdArchive (get_bmm_result A block_hash main_block_hash) of
                       Inl e \<Rightarrow> (N, Inl e)
                     | Inr BmmFailed \<Rightarrow> (N, Inr False)
                     | Inr BmmVerified \<Rightarrow>
                         (case store_submitted_body E N block_hash body of
                            Inl e \<Rightarrow> (N, Inl e)
                          | Inr None \<Rightarrow> (N, Inr False)
                          | Inr (Some N) \<Rightarrow>
                              (case new_tip_ready_confirm E N
                                 \<lparr>tip_block_hash = block_hash, tip_main_block_hash = main_block_hash\<rparr> of
                                 (N, Inl e) \<Rightarrow> (N, Inl e)
                               | (N, Inr False) \<Rightarrow> (N, Inr False)
                               | (N, Inr True) \<Rightarrow>
                                   (N, map_ok (\<lambda>_. True)
                                     (map_err NdState (try_get_pending_withdrawal_bundle (nd_state N))))))))"

section \<open>Block hashes by height\<close>

lemma nth_of_ancestors_correct:
  assumes "archive_inv A" and "b \<in> side_known A"
  shows "nth_of_ancestors A n (Some b) = Inr (nth_parent (side_parent A) b n)"
  using assms(2)
proof (induction n arbitrary: b)
  case 0
  then show ?case by (auto simp: side_known_iff get_header_def try_get_header_def)
next
  case (Suc n)
  then obtain h where h: "fmlookup (headers A) b = Some h" by (auto simp: side_known_iff)
  then have par: "side_parent A b = prev_side_hash h" by (simp add: side_parent_def)
  show ?case
  proof (cases "prev_side_hash h")
    case None
    with h par show ?thesis by (cases n) (simp_all add: get_header_def try_get_header_def)
  next
    case (Some p)
    have "p \<in> side_known A" using index_ok_closed [OF side_index_ok [OF assms(1)] Suc.prems] par Some by simp
    with Suc.IH Some h par show ?thesis by (simp add: get_header_def try_get_header_def)
  qed
qed

text \<open>
  The hash of a block by its height: walking the ancestors of the tip gives, for every height up to that
  of the tip, the stored block at that height in the chain of the tip, the same as the exponential index
  would, and nothing above the tip.
\<close>

theorem try_get_block_hash_correct:
  assumes "archive_inv (nd_archive N)" and "st_tip (nd_state N) = Some tip"
    and "try_get_height (nd_archive N) tip = Some tip_height" and "st_height (nd_state N) = Some tip_height"
    and "tip \<in> side_known (nd_archive N)"
  shows "if height \<le> tip_height
    then \<exists>b. try_get_block_hash N height = Inr (Some b) \<and> try_get_height (nd_archive N) b = Some height
      \<and> is_ancestor (side_parent (nd_archive N)) b tip
      \<and> get_nth_ancestor (nd_archive N) tip (tip_height - height) = Inr b
    else try_get_block_hash N height = Inr None"
proof (cases "height \<le> tip_height")
  case True
  note ok = side_index_ok [OF assms(1)]
  obtain b where b: "nth_parent (side_parent (nd_archive N)) tip (tip_height - height) = Some b"
      and ht: "try_get_height (nd_archive N) b = Some (tip_height - (tip_height - height))"
    using side.nth_parent_total [OF ok assms(5,3), of "tip_height - height"] by auto
  from ht True have "try_get_height (nd_archive N) b = Some height" by simp
  moreover have "get_nth_ancestor (nd_archive N) tip (tip_height - height) = Inr b"
    using side_anc_correct [OF ok assms(5) b] .
  ultimately show ?thesis
    using True b assms by (auto simp: try_get_block_hash_def nth_of_ancestors_correct is_ancestor_def)
next
  case False
  with assms show ?thesis by (simp add: try_get_block_hash_def)
qed

theorem try_get_block_hash_correct_witness:
  "\<exists>A b. fold_res (put_header example_ext) example_archive example_headers = Inr A
     \<and> try_get_block_hash \<lparr>nd_archive = A, nd_mempool = mempool_new,
         nd_state = example_state\<lparr>st_tip := Some (BlockHash 133), st_height := Some 2\<rparr>\<rparr> 1 = Inr (Some b)
     \<and> try_get_height A b = Some 1"
proof -
  obtain A where A: "fold_res (put_header example_ext) example_archive example_headers = Inr A"
    "archive_inv A" "side_known A = {BlockHash 69, BlockHash 101, BlockHash 133, BlockHash 165}"
    "block_hash_to_height A = fmupd (BlockHash 133) 2 (fmupd (BlockHash 165) 1
      (fmupd (BlockHash 101) 1 (fmupd (BlockHash 69) 0 fmempty)))" by (rule example_chain)
  let ?N = "\<lparr>nd_archive = A, nd_mempool = mempool_new,
    nd_state = example_state\<lparr>st_tip := Some (BlockHash 133), st_height := Some 2\<rparr>\<rparr>"
  have "try_get_height A (BlockHash 133) = Some 2" by (simp add: try_get_height_def A)
  with try_get_block_hash_correct [of ?N "BlockHash 133" 2 1] A show ?thesis by auto
qed

section \<open>The transactions for a new block\<close>

lemma checked_sum_eq: "checked_sum vs = Some s \<longleftrightarrow> s = sum_list vs \<and> s < 2 ^ 64"
proof -
  have "fold (\<lambda>v s. Option.bind s (\<lambda>s. checked_add 64 s v)) vs (Some a) = Some s \<longleftrightarrow> s = a + sum_list vs \<and> s < 2 ^ 64"
    if "a < 2 ^ 64" for a
    using that
  proof (induction vs arbitrary: a)
    case Nil
    then show ?case by auto
  next
    case (Cons v vs)
    have none: "fold (\<lambda>v s. Option.bind s (\<lambda>s. checked_add 64 s v)) vs None = None"
      by (induction vs) simp_all
    show ?case
    proof (cases "a + v < 2 ^ 64")
      case True
      then have "checked_add 64 a v = Some (a + v)" by (simp add: checked_add_def)
      with True Cons.IH [of "a + v"] show ?thesis by auto
    next
      case False
      then have "checked_add 64 a v = None" by (simp add: checked_add_def)
      with False none show ?thesis by auto
    qed
  qed
  from this [of 0] show ?thesis by (simp add: checked_sum_def)
qed

lemma filled_fee_valid:
  assumes "validate_filled_transaction E ft = Inr fee"
  shows "filled_fee ft = Inr fee"
proof -
  let ?in = "sum_list (map get_value (spent_utxos ft))"
  let ?out = "sum_list (map get_value (outputs (ft_transaction ft)))"
  have "checked_sum (map get_value (spent_utxos ft)) = Some ?in"
    "checked_sum (map get_value (outputs (ft_transaction ft))) = Some ?out"
    using assms by (simp_all add: validate_filled_cases checked_sum_eq)
  with assms show ?thesis
    by (auto simp: validate_filled_cases filled_fee_def checked_add_def checked_sub_def split: option.splits if_splits)
qed

lemma validate_transaction_Inr:
  assumes "validate_transaction E S at = Inr fee"
  obtains ft where "fill_transaction S (transaction at) = Inr ft" "validate_filled_transaction E ft = Inr fee"
  using assms by (auto simp: validate_transaction_def result_simps)

lemma template_step_cases:
  assumes "template_step E S T at = Inr T'"
  shows "T' = T\<lparr>tp_mempool := mempool_delete (tp_mempool T) (tx_txid E (transaction at))\<rparr>
    \<or> (\<exists>fee. validate_transaction E S at = Inr fee \<and> tp_fee T + fee < 2 ^ 64
        \<and> T' = T\<lparr>tp_fee := tp_fee T + fee, tp_returned := tp_returned T @ [at],
            tp_spent := tp_spent T \<union> set (inputs (transaction at))\<rparr>)"
proof (cases "tp_spent T \<inter> set (inputs (transaction at)) \<noteq> {}")
  case True
  with assms show ?thesis by (simp add: template_step_def Let_def)
next
  case False
  show ?thesis
  proof (cases "validate_transaction E S at")
    case (Inl e)
    with False assms show ?thesis by (simp add: template_step_def Let_def)
  next
    case (Inr fee)
    then obtain ft where "fill_transaction S (transaction at) = Inr ft" "filled_fee ft = Inr fee"
      by (metis validate_transaction_Inr filled_fee_valid)
    with False Inr assms show ?thesis by (auto simp: template_step_def Let_def result_simps)
  qed
qed

lemma template_fold:
  assumes "fold_res (template_step E S) T ats = Inr T'" and "mempool_ok E (tp_mempool T)"
  shows "\<exists>txs fees. tp_returned T' = tp_returned T @ txs \<and> subseq txs ats
    \<and> map (validate_transaction E S) txs = map Inr fees \<and> tp_fee T' = tp_fee T + sum_list fees
    \<and> mempool_ok E (tp_mempool T') \<and> (tp_fee T < 2 ^ 64 \<longrightarrow> tp_fee T' < 2 ^ 64)"
  using assms
proof (induction ats arbitrary: T)
  case Nil
  then show ?case by (auto intro!: exI [of _ "[]"])
next
  case (Cons at ats)
  from Cons.prems(1) obtain T1 where step: "template_step E S T at = Inr T1"
    and rest: "fold_res (template_step E S) T1 ats = Inr T'" by (auto simp: result_simps)
  from template_step_cases [OF step] show ?case
  proof (elim disjE exE conjE)
    assume T1: "T1 = T\<lparr>tp_mempool := mempool_delete (tp_mempool T) (tx_txid E (transaction at))\<rparr>"
    with Cons.IH [OF rest] mempool_delete_ok(1) [OF Cons.prems(2)] show ?thesis
      by (auto intro: list_emb_Cons)
  next
    fix fee
    assume fee: "validate_transaction E S at = Inr fee" "tp_fee T + fee < 2 ^ 64"
      and T1: "T1 = T\<lparr>tp_fee := tp_fee T + fee, tp_returned := tp_returned T @ [at],
            tp_spent := tp_spent T \<union> set (inputs (transaction at))\<rparr>"
    from Cons.IH [OF rest] Cons.prems(2) T1 obtain txs fees where
      "tp_returned T' = tp_returned T1 @ txs" "subseq txs ats"
      "map (validate_transaction E S) txs = map Inr fees" "tp_fee T' = tp_fee T1 + sum_list fees"
      "mempool_ok E (tp_mempool T')" "tp_fee T' < 2 ^ 64" using fee(2) by auto
    with fee T1 show ?thesis
      by (intro exI [of _ "at # txs"] exI [of _ "fee # fees"]) (auto simp: subseq_Cons2)
  qed
qed

text \<open>The transactions of a pool with exact indexes spend no out point twice.\<close>

lemma pool_distinct:
  fixes f :: "'pf transaction \<Rightarrow> 'x list"
  assumes "\<And>t at. (t, at) \<in> set xs \<Longrightarrow> fmlookup m t = Some at" and "distinct (map fst xs)"
    and own: "\<And>t at. fmlookup m t = Some at \<Longrightarrow> distinct (f (transaction at))"
    and other: "\<And>t at u at' x. fmlookup m t = Some at \<Longrightarrow> fmlookup m u = Some at'
      \<Longrightarrow> x \<in> set (f (transaction at)) \<Longrightarrow> x \<in> set (f (transaction at')) \<Longrightarrow> t = u"
  shows "distinct (concat (map (\<lambda>x. f (transaction (snd x))) xs))"
  using assms(1,2)
proof (induction xs)
  case Nil
  show ?case by simp
next
  case (Cons x xs)
  obtain t at where x: "x = (t, at)" by (cases x)
  have "set (f (transaction at)) \<inter> set (concat (map (\<lambda>x. f (transaction (snd x))) xs)) = {}"
  proof (rule ccontr)
    assume "set (f (transaction at)) \<inter> set (concat (map (\<lambda>x. f (transaction (snd x))) xs)) \<noteq> {}"
    then obtain y u at' where y: "y \<in> set (f (transaction at))" "(u, at') \<in> set xs" "y \<in> set (f (transaction at'))"
      by auto
    with Cons.prems(1) x have "t = u" by (intro other [of t at u at' y]) auto
    with y(2) Cons.prems(2) x show False by force
  qed
  with Cons x own [of t at] show ?case by auto
qed

lemma take_all_distinct:
  assumes "mempool_ok E M"
  shows "distinct (spent_outpoints (map transaction (mempool_take_all M)))"
    and "distinct (concat (map tx_nullifiers (map transaction (mempool_take_all M))))"
proof -
  have keys: "(t, at) \<in> set (sorted_list_of_fmap (mp_transactions M)) \<Longrightarrow> fmlookup (mp_transactions M) t = Some at"
    for t at by (simp add: in_sorted_list_of_fmap)
  have one: "t = u" if "fmlookup (mp_transactions M) t = Some at" "fmlookup (mp_transactions M) u = Some at'"
    "op \<in> set (map fst (inputs (transaction at)))" "op \<in> set (map fst (inputs (transaction at')))" for t u at at' op
  proof -
    have "pool_spends M t op" "pool_spends M u op" using that by (simp_all add: pool_spends_def)
    then show ?thesis by (simp flip: mempool_okD(4) [OF assms])
  qed
  have two: "t = u" if "fmlookup (mp_transactions M) t = Some at" "fmlookup (mp_transactions M) u = Some at'"
    "n \<in> set (tx_nullifiers (transaction at))" "n \<in> set (tx_nullifiers (transaction at'))" for t u at at' n
  proof -
    have "pool_uses M t n" "pool_uses M u n" using that by (simp_all add: pool_uses_def)
    then show ?thesis by (simp flip: mempool_okD(5) [OF assms])
  qed
  from pool_distinct [where f = "\<lambda>tx. map fst (inputs tx)",
      OF keys distinct_sorted_list_of_fmap mempool_okD(2) [OF assms] one]
  show "distinct (spent_outpoints (map transaction (mempool_take_all M)))"
    by (simp add: spent_outpoints_def mempool_take_all_def comp_def)
  from pool_distinct [where f = tx_nullifiers, OF keys distinct_sorted_list_of_fmap mempool_okD(3) [OF assms] two]
  show "distinct (concat (map tx_nullifiers (map transaction (mempool_take_all M))))"
    by (simp add: mempool_take_all_def comp_def)
qed

lemma subseq_concat: "subseq xs ys \<Longrightarrow> subseq (concat (map f xs)) (concat (map f ys))"
  by (induction rule: list_emb.induct) (auto intro: list_emb_append_mono)

lemma subseq_distinct: "subseq xs ys \<Longrightarrow> distinct ys \<Longrightarrow> distinct xs"
  by (induction rule: list_emb.induct) (auto dest: list_emb_set)

lemma get_transactions_ok:
  assumes "mempool_ok E (nd_mempool N)" and "get_transactions E N number = Inr (N', ats, fee)"
  shows "(\<exists>fees. map (validate_transaction E (nd_state N)) ats = map Inr fees \<and> fee = sum_list fees)"
    "distinct (spent_outpoints (map transaction ats))" "distinct (concat (map tx_nullifiers (map transaction ats)))"
    "length ats \<le> number" "mempool_ok E (nd_mempool N')" "fee < 2 ^ 64"
    "nd_state N' = nd_state N" "nd_archive N' = nd_archive N"
proof -
  let ?T = "\<lparr>tp_mempool = nd_mempool N, tp_fee = 0, tp_returned = [], tp_spent = {}\<rparr>"
  from assms(2) obtain T where
    run: "fold_res (template_step E (nd_state N)) ?T (mempool_take (nd_mempool N) number) = Inr T"
    and res: "N' = N\<lparr>nd_mempool := tp_mempool T\<rparr>" "ats = tp_returned T" "fee = tp_fee T"
    by (auto simp: get_transactions_def result_simps)
  from template_fold [OF run] assms(1) res obtain fees where
    r: "subseq ats (mempool_take (nd_mempool N) number)"
      "map (validate_transaction E (nd_state N)) ats = map Inr fees" "fee = sum_list fees" "mempool_ok E (nd_mempool N')"
      "fee < 2 ^ 64"
    by auto
  have take: "mempool_take (nd_mempool N) number = take number (mempool_take_all (nd_mempool N))"
    by (simp add: mempool_take_def mempool_take_all_def take_map)
  have "subseq ats (mempool_take_all (nd_mempool N))"
    using r(1) unfolding take by (rule subseq_order.order_trans) (rule prefix_imp_subseq [OF take_is_prefix])
  then have "subseq (map transaction ats) (map transaction (mempool_take_all (nd_mempool N)))" by (rule subseq_map)
  from subseq_concat [OF this] take_all_distinct [OF assms(1)]
  show "distinct (spent_outpoints (map transaction ats))"
    "distinct (concat (map tx_nullifiers (map transaction ats)))"
    by (auto simp: spent_outpoints_def intro: subseq_distinct)
  show "length ats \<le> number" using list_emb_length [OF r(1)] by (simp add: take)
  show "(\<exists>fees. map (validate_transaction E (nd_state N)) ats = map Inr fees \<and> fee = sum_list fees)"
    "mempool_ok E (nd_mempool N')" "fee < 2 ^ 64" "nd_state N' = nd_state N" "nd_archive N' = nd_archive N"
    using r res by auto
qed

text \<open>
  C32. The transactions handed out for a new block fit together: each passes validation against the state, no
  out point is spent and no nullifier is used twice among them, there are at most as many as asked
  for, and the fee is the sum of their fees. The pool stays free of conflicts.
\<close>

theorem get_transactions_valid:
  assumes "mempool_ok E (nd_mempool N)" and "get_transactions E N number = Inr (N', ats, fee)"
  shows "(\<exists>fees. map (validate_transaction E (nd_state N)) ats = map Inr fees \<and> fee = sum_list fees)
    \<and> distinct (spent_outpoints (map transaction ats))
    \<and> distinct (concat (map tx_nullifiers (map transaction ats)))
    \<and> length ats \<le> number \<and> mempool_ok E (nd_mempool N')"
  using get_transactions_ok [OF assms] by blast

definition ex_pool_tx :: "unit authorized_transaction" where
  "ex_pool_tx = \<lparr>transaction = example_tx, authorizations = body_authorizations example_body\<rparr>"

lemma ex_pool_tx_valid: "validate_transaction example_ext example_state ex_pool_tx = Inr 3"
proof -
  have "check_addresses example_ext (authorizations ex_pool_tx) (spent_utxos example_filled) = Inr ()"
    by (simp add: check_addresses_def ex_pool_tx_def example_body_def example_filled_def auth_address_def key_address_def
        example_output_def example_ext_def)
  moreover have "validate_anchor_of example_ext example_state example_tx = Inr ()"
    by (simp add: validate_anchor_of_def example_tx_def validate_orchard_anchor_def example_state_def
        example_orchard_def)
  moreover have "verify_authorized_transaction example_ext ex_pool_tx = Inr ()"
    by (simp add: verify_authorized_transaction_def check_count_def verify_orchard_def ex_pool_tx_def
        example_body_def example_tx_def example_ext_def Let_def tx_txid_def)
  ultimately show ?thesis
    by (simp add: validate_transaction_def ex_pool_tx_def example_fill example_validate)
qed

lemma ex_pool_take: "mempool_take (with_entry mempool_new t at) 1 = [at]"
  by (simp add: mempool_take_def with_entry_def mempool_new_def sorted_list_of_fmap_def sorted_list_of_fset.rep_eq)

theorem get_transactions_valid_witness:
  "\<exists>N'. get_transactions example_ext \<lparr>nd_archive = ex_archive,
        nd_mempool = with_entry mempool_new (tx_txid example_ext example_tx) ex_pool_tx, nd_state = example_state\<rparr> 1
      = Inr (N', [ex_pool_tx], 3) \<and> mempool_ok example_ext (nd_mempool N')"
proof -
  let ?N = "\<lparr>nd_archive = ex_archive,
    nd_mempool = with_entry mempool_new (tx_txid example_ext example_tx) ex_pool_tx, nd_state = example_state\<rparr>"
  have tx: "transaction ex_pool_tx = example_tx" by (simp add: ex_pool_tx_def)
  have "mempool_ok example_ext mempool_new"
    by (simp add: mempool_ok_def mempool_new_def pool_spends_def pool_uses_def)
  then have ok: "mempool_ok example_ext (nd_mempool ?N)"
    by (simp, rule with_entry_ok) (simp_all add: tx mempool_new_def conflict_free_def,
      simp_all add: example_tx_def tx_nullifiers_def nullifiers_def)
  have "template_step example_ext example_state T ex_pool_tx
      = Inr (T\<lparr>tp_fee := 3, tp_returned := [ex_pool_tx], tp_spent := set (inputs example_tx)\<rparr>)"
    if "tp_fee T = 0" "tp_returned T = []" "tp_spent T = {}" for T
    using that by (simp add: template_step_def tx ex_pool_tx_valid example_fill filled_fee_valid [OF example_validate]
        checked_add_def Let_def)
  then obtain N' where run: "get_transactions example_ext ?N 1 = Inr (N', [ex_pool_tx], 3)"
    by (simp add: get_transactions_def ex_pool_take del: One_nat_def)
  from get_transactions_valid [OF ok run] run show ?thesis by blast
qed

text \<open>
  A transaction of the active chain below the tip is not found: the arguments of \<open>is_descendant\<close> are
  exchanged, so only blocks that descend from the tip are considered.
\<close>

theorem try_get_transaction_misses:
  assumes inv: "archive_inv (nd_archive N)" and tip: "st_tip (nd_state N) = Some tip" "tip \<in> side_known (nd_archive N)"
    and incl: "get_tx_inclusions (nd_archive N) txid = fmupd b i fmempty"
    and below: "side_parent (nd_archive N) tip = Some b"
    and pool: "fmlookup (mp_transactions (nd_mempool N)) txid = None"
  shows "try_get_transaction N txid = Inr None"
proof -
  note ok = side_index_ok [OF inv]
  have b: "b \<in> side_known (nd_archive N)" using index_ok_closed [OF ok tip(2) below] .
  obtain h where h: "try_get_height (nd_archive N) b = Some h" using side.height_known [OF ok b] by blast
  then have ht: "try_get_height (nd_archive N) tip = Some (Suc h)"
    using side.parent_height [OF ok tip(2) below] by blast
  have "\<not> is_ancestor (side_parent (nd_archive N)) tip b"
  proof
    assume "is_ancestor (side_parent (nd_archive N)) tip b"
    then obtain n where "nth_parent (side_parent (nd_archive N)) b n = Some tip" by (auto simp: is_ancestor_def)
    from side.nth_parent_height [OF ok b h this] ht show False by auto
  qed
  then have "is_descendant (nd_archive N) tip b = Inr False"
    using side_descendant_correct [OF ok] tip(2) b by (simp add: is_descendant_def)
  moreover have "sorted_list_of_fmap (fmupd b i fmempty) = [(b, i)]"
    by (simp add: sorted_list_of_fmap_def sorted_list_of_fset.rep_eq)
  ultimately show ?thesis by (simp add: try_get_transaction_def tip incl pool)
qed

end
