(* ===== verification/Shard_Tree.thy ===== *)
theory Shard_Tree
  imports Types "HOL-Library.Option_ord"
begin

text \<open>
  The store of the note commitment tree, \<open>lib/types/orchard/shardtree_db.rs\<close>: the databases of
  shards, cap and checkpoints behind the trait \<open>ShardStore\<close>. A checkpoint is held three times, by
  its tip, by its sequence number and by its position, and the operations keep the three in step.

  The nodes of a tree, a tree state and a checkpoint are the types \<open>NodeRepr\<close>, \<open>TreeStateRepr\<close> and
  \<open>CheckpointRepr\<close> that the file stores. What the crate \<open>shardtree\<close> computes on them is collected in
  the record \<open>shardtree_ext\<close>.
\<close>

section \<open>Data\<close>

type_synonym position = "64 word"

text \<open>\<open>incrementalmerkletree::Address\<close>: a level and an index.\<close>

type_synonym shard_address = "8 word \<times> 64 word"

datatype prunable_tree =
    TreeParent "hash option" prunable_tree prunable_tree
  | TreeLeaf hash "8 word"
  | TreeNil

datatype tree_state = TreeEmpty | AtPosition position

record checkpoint =
  tree_state :: tree_state
  marks_removed :: "position fset"

record checkpoint_id =
  cid_pos :: "position option"
  cid_seq :: "32 word"
  cid_tip :: "block_hash option"

text \<open>\<open>LocatedPrunableTree\<close>: a tree with the address of its root.\<close>

record located_tree =
  root_addr :: shard_address
  root_tree :: prunable_tree

record shardtree_ext =
  checkpoint_position :: "checkpoint \<Rightarrow> position option"
  checkpoint_tree_empty :: checkpoint
  lpt_from_parts :: "shard_address \<Rightarrow> prunable_tree \<Rightarrow> shard_address + located_tree"

datatype store_error =
    StoreDb
  | InvalidCheckpointIdPosition "position option" "position option"
  | InvalidCheckpointIdSeq "32 word" "32 word"
  | NoRwTxn
  | NoTxn
  | LptFromParts shard_address
  | UpdateCheckpointPosition

type_synonym 'a store_result = "(store_error, 'a) result"

record shard_tree_db =
  cap :: "prunable_tree option"
  checkpoint_seq_to_tip :: "(32 word, block_hash option) db"
  checkpoints :: "(block_hash option, checkpoint \<times> 32 word) db"
  position_to_checkpoint_seq :: "(position option \<times> 32 word) fset"
  shards :: "(shard_address, prunable_tree) db"

section \<open>Keys\<close>

definition be_bytes :: "nat \<Rightarrow> nat \<Rightarrow> u8 list" where
  "be_bytes k n = rev (le_bytes k n)"

definition be_nat :: "u8 list \<Rightarrow> nat" where
  "be_nat bs = le_nat (rev bs)"

text \<open>Levels are complemented, indexes are big-endian.\<close>

definition address_key :: "shard_address \<Rightarrow> u8 list" where
  "address_key a = (case a of (level, idx) \<Rightarrow> not level # be_bytes 8 (unat idx))"

fun address_of_key :: "u8 list \<Rightarrow> shard_address option" where
  "address_of_key [] = None"
| "address_of_key (level_inv # idx_be) =
     (if length idx_be = 8 then Some (not level_inv, word_of_nat (be_nat idx_be)) else None)"

definition position_key :: "position \<Rightarrow> u8 list" where
  "position_key p = be_bytes 8 (unat p)"

definition position_of_key :: "u8 list \<Rightarrow> position option" where
  "position_of_key bs = (if length bs = 8 then Some (word_of_nat (be_nat bs)) else None)"

definition seq_key :: "32 word \<Rightarrow> u8 list" where
  "seq_key s = be_bytes 4 (unat s)"

text \<open>
  Iteration in the order of the encoded keys, and of the encoded values under one key:
  \<open>iter_through_duplicate_values\<close>.
\<close>

definition position_entries :: "shard_tree_db \<Rightarrow> (position option \<times> 32 word) list" where
  "position_entries D =
     sort_key (\<lambda>(p, s). (ser_option position_key p, seq_key s))
       (sorted_list_of_fset (position_to_checkpoint_seq D))"

definition shard_keys :: "shard_tree_db \<Rightarrow> shard_address list" where
  "shard_keys D = sort_key address_key (sorted_list_of_fset (fmdom (shards D)))"

section \<open>Opening the databases\<close>

definition shard_tree_db_new :: "shardtree_ext \<Rightarrow> shard_tree_db \<Rightarrow> shard_tree_db" where
  "shard_tree_db_new X D =
     (let D = (if cap D = None then D\<lparr>cap := Some TreeNil\<rparr> else D)
      in if has_key (checkpoints D) None then D
         else D\<lparr>checkpoints := fmupd None (checkpoint_tree_empty X, 0) (checkpoints D),
                checkpoint_seq_to_tip := fmupd 0 None (checkpoint_seq_to_tip D),
                position_to_checkpoint_seq := finsert (None, 0) (position_to_checkpoint_seq D)\<rparr>)"

definition try_get_checkpoint_id ::
  "shardtree_ext \<Rightarrow> shard_tree_db \<Rightarrow> block_hash option \<Rightarrow> checkpoint_id option" where
  "try_get_checkpoint_id X D tip =
     map_option (\<lambda>(c, seq). \<lparr>cid_pos = checkpoint_position X c, cid_seq = seq, cid_tip = tip\<rparr>)
       (fmlookup (checkpoints D) tip)"

definition get_checkpoint_id ::
  "shardtree_ext \<Rightarrow> shard_tree_db \<Rightarrow> block_hash option \<Rightarrow> checkpoint_id store_result" where
  "get_checkpoint_id X D tip =
     map_ok (\<lambda>(c, seq). \<lparr>cid_pos = checkpoint_position X c, cid_seq = seq, cid_tip = tip\<rparr>)
       (ok_or StoreDb (fmlookup (checkpoints D) tip))"

definition max_checkpoint_seq :: "shard_tree_db \<Rightarrow> 32 word option" where
  "max_checkpoint_seq D =
     (let seqs = sort_key seq_key (sorted_list_of_fset (fmdom (checkpoint_seq_to_tip D)))
      in if seqs = [] then None else Some (last seqs))"

definition next_checkpoint_seq :: "shard_tree_db \<Rightarrow> 32 word store_result" where
  "next_checkpoint_seq D =
     (case max_checkpoint_seq D of
        Some max_seq \<Rightarrow> map_ok word_of_nat (add_u32 (unat max_seq) 1)
      | None \<Rightarrow> Inr 0)"

section \<open>Transactions\<close>

datatype db_txn = RoTxn | RwTxn

text \<open>A store, with the transaction that its weak reference leads to, if there is one.\<close>

record shard_tree_store =
  store_txn :: "db_txn option"
  store_db :: shard_tree_db

definition read_with :: "shard_tree_store \<Rightarrow> (shard_tree_db \<Rightarrow> 'a store_result) \<Rightarrow> 'a store_result" where
  "read_with st f = (case store_txn st of None \<Rightarrow> Inl (Err NoTxn) | Some _ \<Rightarrow> f (store_db st))"

definition write_with ::
  "shard_tree_store \<Rightarrow> (shard_tree_db \<Rightarrow> ('a \<times> shard_tree_db) store_result)
    \<Rightarrow> ('a \<times> shard_tree_store) store_result" where
  "write_with st f =
     (case store_txn st of
        None \<Rightarrow> Inl (Err NoTxn)
      | Some RoTxn \<Rightarrow> Inl (Err NoRwTxn)
      | Some RwTxn \<Rightarrow> map_ok (\<lambda>(x, D). (x, st\<lparr>store_db := D\<rparr>)) (f (store_db st)))"

section \<open>Shards and cap\<close>

definition locate :: "shardtree_ext \<Rightarrow> shard_address \<Rightarrow> prunable_tree \<Rightarrow> located_tree store_result" where
  "locate X addr tree =
     (case lpt_from_parts X addr tree of Inl a \<Rightarrow> Inl (Err (LptFromParts a)) | Inr t \<Rightarrow> Inr t)"

definition get_shard ::
  "shardtree_ext \<Rightarrow> shard_tree_store \<Rightarrow> shard_address \<Rightarrow> located_tree option store_result" where
  "get_shard X st shard_root =
     and_then (read_with st (\<lambda>D. Inr (fmlookup (shards D) shard_root))) (\<lambda>tree.
     case tree of None \<Rightarrow> Inr None | Some tree \<Rightarrow> map_ok Some (locate X shard_root tree))"

definition last_shard :: "shardtree_ext \<Rightarrow> shard_tree_store \<Rightarrow> located_tree option store_result" where
  "last_shard X st =
     and_then (read_with st (\<lambda>D.
        let keys = shard_keys D
        in Inr (if keys = [] then None
                else map_option (Pair (last keys)) (fmlookup (shards D) (last keys))))) (\<lambda>l.
     case l of None \<Rightarrow> Inr None | Some (addr, tree) \<Rightarrow> map_ok Some (locate X addr tree))"

definition put_shard :: "shard_tree_store \<Rightarrow> located_tree \<Rightarrow> (unit \<times> shard_tree_store) store_result" where
  "put_shard st subtree =
     write_with st (\<lambda>D. Inr ((), D\<lparr>shards := fmupd (root_addr subtree) (root_tree subtree) (shards D)\<rparr>))"

definition get_shard_roots :: "shard_tree_store \<Rightarrow> shard_address list store_result" where
  "get_shard_roots st = read_with st (\<lambda>D. Inr (shard_keys D))"

definition truncate_shards :: "shard_tree_store \<Rightarrow> 64 word \<Rightarrow> (unit \<times> shard_tree_store) store_result" where
  "truncate_shards st shard_index =
     write_with st (\<lambda>D.
       Inr ((), D\<lparr>shards := fold (\<lambda>addr m. if snd addr \<ge> shard_index then fmdrop addr m else m)
          (shard_keys D) (shards D)\<rparr>))"

definition get_cap :: "shard_tree_store \<Rightarrow> prunable_tree store_result" where
  "get_cap st = read_with st (\<lambda>D. ok_or StoreDb (cap D))"

definition put_cap :: "shard_tree_store \<Rightarrow> prunable_tree \<Rightarrow> (unit \<times> shard_tree_store) store_result" where
  "put_cap st c = write_with st (\<lambda>D. Inr ((), D\<lparr>cap := Some c\<rparr>))"

section \<open>Checkpoints\<close>

definition id_of_entry ::
  "shard_tree_db \<Rightarrow> position option \<times> 32 word \<Rightarrow> checkpoint_id store_result" where
  "id_of_entry D e =
     (case e of (pos, seq) \<Rightarrow>
        map_ok (\<lambda>tip. \<lparr>cid_pos = pos, cid_seq = seq, cid_tip = tip\<rparr>)
          (ok_or StoreDb (fmlookup (checkpoint_seq_to_tip D) seq)))"

definition min_checkpoint_id :: "shard_tree_store \<Rightarrow> checkpoint_id option store_result" where
  "min_checkpoint_id st =
     read_with st (\<lambda>D. case position_entries D of [] \<Rightarrow> Inr None
                         | e # _ \<Rightarrow> map_ok Some (id_of_entry D e))"

definition max_checkpoint_id :: "shard_tree_store \<Rightarrow> checkpoint_id option store_result" where
  "max_checkpoint_id st =
     read_with st (\<lambda>D. case rev (position_entries D) of [] \<Rightarrow> Inr None
                         | e # _ \<Rightarrow> map_ok Some (id_of_entry D e))"

definition forget_checkpoint ::
  "block_hash option \<Rightarrow> position option \<Rightarrow> 32 word \<Rightarrow> shard_tree_db \<Rightarrow> shard_tree_db" where
  "forget_checkpoint tip pos seq D =
     D\<lparr>checkpoints := fmdrop tip (checkpoints D),
       checkpoint_seq_to_tip := fmdrop seq (checkpoint_seq_to_tip D),
       position_to_checkpoint_seq := position_to_checkpoint_seq D |-| {|(pos, seq)|}\<rparr>"

definition record_checkpoint :: "checkpoint_id \<Rightarrow> checkpoint \<Rightarrow> shard_tree_db \<Rightarrow> shard_tree_db" where
  "record_checkpoint cid c D =
     D\<lparr>checkpoints := fmupd (cid_tip cid) (c, cid_seq cid) (checkpoints D),
       checkpoint_seq_to_tip := fmupd (cid_seq cid) (cid_tip cid) (checkpoint_seq_to_tip D),
       position_to_checkpoint_seq := finsert (cid_pos cid, cid_seq cid) (position_to_checkpoint_seq D)\<rparr>"

definition add_checkpoint ::
  "shardtree_ext \<Rightarrow> shard_tree_store \<Rightarrow> checkpoint_id \<Rightarrow> checkpoint \<Rightarrow> (unit \<times> shard_tree_store) store_result"
where
  "add_checkpoint X st cid c =
     (if checkpoint_position X c \<noteq> cid_pos cid
      then Inl (Err (InvalidCheckpointIdPosition (cid_pos cid) (checkpoint_position X c)))
      else write_with st (\<lambda>D.
        case fmlookup (checkpoints D) (cid_tip cid) of
          None \<Rightarrow> Inr ((), record_checkpoint cid c D)
        | Some (original, original_seq) \<Rightarrow>
            if tree_state original = tree_state c \<and> marks_removed original = marks_removed c
            then Inr ((), D)
            else if checkpoint_position X original \<noteq> cid_pos cid
            then Inl (Err (InvalidCheckpointIdPosition (cid_pos cid) (checkpoint_position X original)))
            else if original_seq \<noteq> cid_seq cid
            then Inl (Err (InvalidCheckpointIdSeq (cid_seq cid) original_seq))
            else Inr ((), record_checkpoint cid c
                   (forget_checkpoint (cid_tip cid) (checkpoint_position X original) original_seq D))))"

definition checkpoint_count :: "shard_tree_store \<Rightarrow> nat store_result" where
  "checkpoint_count st = read_with st (\<lambda>D. Inr (fcard (fmdom (checkpoints D))))"

definition entry_checkpoint ::
  "shard_tree_db \<Rightarrow> position option \<times> 32 word \<Rightarrow> (checkpoint_id \<times> checkpoint) store_result" where
  "entry_checkpoint D e =
     and_then (id_of_entry D e) (\<lambda>cid.
     map_ok (\<lambda>(c, _). (cid, c)) (ok_or StoreDb (fmlookup (checkpoints D) (cid_tip cid))))"

definition get_checkpoint_at_depth ::
  "shard_tree_store \<Rightarrow> nat \<Rightarrow> (checkpoint_id \<times> checkpoint) option store_result" where
  "get_checkpoint_at_depth st depth =
     read_with st (\<lambda>D.
       let es = rev (position_entries D)
       in if depth < length es then map_ok Some (entry_checkpoint D (es ! depth)) else Inr None)"

definition check_id ::
  "checkpoint_id \<Rightarrow> position option \<Rightarrow> 32 word \<Rightarrow> unit store_result" where
  "check_id cid pos seq =
     (if seq \<noteq> cid_seq cid then Inl (Err (InvalidCheckpointIdSeq (cid_seq cid) seq))
      else if pos \<noteq> cid_pos cid then Inl (Err (InvalidCheckpointIdPosition (cid_pos cid) pos))
      else Inr ())"

definition get_checkpoint ::
  "shardtree_ext \<Rightarrow> shard_tree_store \<Rightarrow> checkpoint_id \<Rightarrow> checkpoint option store_result" where
  "get_checkpoint X st cid =
     read_with st (\<lambda>D.
       case fmlookup (checkpoints D) (cid_tip cid) of
         None \<Rightarrow> Inr None
       | Some (c, seq) \<Rightarrow> map_ok (\<lambda>_. Some c) (check_id cid (checkpoint_position X c) seq))"

text \<open>\<open>with_checkpoints\<close> and \<open>for_each_checkpoint\<close>; the state of the callback is \<open>acc\<close>.\<close>

definition for_each_checkpoint ::
  "shard_tree_store \<Rightarrow> nat \<Rightarrow> ('s \<Rightarrow> checkpoint_id \<Rightarrow> checkpoint \<Rightarrow> 's store_result) \<Rightarrow> 's \<Rightarrow> 's store_result"
where
  "for_each_checkpoint st limit callback acc =
     read_with st (\<lambda>D.
       fold_res (\<lambda>acc e. and_then (entry_checkpoint D e) (\<lambda>(cid, c). callback acc cid c))
         acc (take limit (position_entries D)))"

definition with_checkpoints ::
  "shard_tree_store \<Rightarrow> nat \<Rightarrow> ('s \<Rightarrow> checkpoint_id \<Rightarrow> checkpoint \<Rightarrow> 's store_result) \<Rightarrow> 's \<Rightarrow> 's store_result"
where
  "with_checkpoints = for_each_checkpoint"

definition update_checkpoint_with ::
  "shardtree_ext \<Rightarrow> shard_tree_store \<Rightarrow> checkpoint_id \<Rightarrow> (checkpoint \<Rightarrow> checkpoint store_result)
    \<Rightarrow> (bool \<times> shard_tree_store) store_result" where
  "update_checkpoint_with X st cid update =
     write_with st (\<lambda>D.
       case fmlookup (checkpoints D) (cid_tip cid) of
         None \<Rightarrow> Inr (False, D)
       | Some (c, seq) \<Rightarrow>
           and_then (check_id cid (checkpoint_position X c) seq) (\<lambda>_.
           and_then (update c) (\<lambda>c'.
           if checkpoint_position X c' \<noteq> checkpoint_position X c then Inl (Err UpdateCheckpointPosition)
           else Inr (True, D\<lparr>checkpoints := fmupd (cid_tip cid) (c', seq) (checkpoints D)\<rparr>))))"

definition remove_checkpoint ::
  "shardtree_ext \<Rightarrow> shard_tree_store \<Rightarrow> checkpoint_id \<Rightarrow> (unit \<times> shard_tree_store) store_result" where
  "remove_checkpoint X st cid =
     write_with st (\<lambda>D.
       case fmlookup (checkpoints D) (cid_tip cid) of
         None \<Rightarrow> Inr ((), D)
       | Some (c, seq) \<Rightarrow>
           map_ok (\<lambda>_. ((), forget_checkpoint (cid_tip cid) (checkpoint_position X c) seq D))
             (check_id cid (checkpoint_position X c) seq))"

definition delete_entry ::
  "shard_tree_db \<Rightarrow> position option \<times> 32 word \<Rightarrow> shard_tree_db store_result" where
  "delete_entry D e =
     (case e of (pos, seq) \<Rightarrow>
        map_ok (\<lambda>tip. forget_checkpoint tip pos seq D)
          (ok_or StoreDb (fmlookup (checkpoint_seq_to_tip D) seq)))"

definition truncate_checkpoints_retaining ::
  "shardtree_ext \<Rightarrow> shard_tree_store \<Rightarrow> checkpoint_id \<Rightarrow> (unit \<times> shard_tree_store) store_result" where
  "truncate_checkpoints_retaining X st cid =
     write_with st (\<lambda>D.
       and_then (ok_or StoreDb (fmlookup (checkpoints D) (cid_tip cid))) (\<lambda>(c, seq).
       let pos = checkpoint_position X c
       in if cid_pos cid \<noteq> pos then Inl (Err (InvalidCheckpointIdPosition (cid_pos cid) pos))
          else if cid_seq cid \<noteq> seq then Inl (Err (InvalidCheckpointIdSeq (cid_seq cid) seq))
          else map_ok (Pair ())
            (fold_res delete_entry D
               (takeWhile (\<lambda>(p, s). p > pos \<or> p = pos \<and> s > seq) (rev (position_entries D))))))"

end
