(* ===== verification/Shard_Store.thy ===== *)
theory Shard_Store
  imports Shard_Tree
begin

text \<open>
  Correctness of the checkpoint tables of \<open>shardtree_db.rs\<close>. The encoded keys are ordered like the
  positions, sequence numbers and addresses they stand for. Under the invariant
  \<open>checkpoints_ok\<close>, which every operation keeps, the three tables together are one list of
  checkpoints in the order of position and sequence number, and the operations of the store
  are the list operations that \<open>ShardStore\<close> documents.
\<close>

section \<open>The order of the keys\<close>

lemma snoc_less:
  fixes xs ys :: "'a::linorder list"
  shows "length xs = length ys \<Longrightarrow> xs @ [a] < ys @ [b] \<longleftrightarrow> xs < ys \<or> xs = ys \<and> a < b"
  by (induction xs ys rule: list_induct2) auto

lemma div_mod_less:
  fixes n m :: nat
  shows "n < m \<longleftrightarrow> n div 256 < m div 256 \<or> n div 256 = m div 256 \<and> n mod 256 < m mod 256"
proof -
  have "n = 256 * (n div 256) + n mod 256" "m = 256 * (m div 256) + m mod 256"
    "n mod 256 < 256" "m mod 256 < 256" by simp_all
  then show ?thesis by linarith
qed

lemma be_bytes_less:
  "n < 256 ^ k \<Longrightarrow> m < 256 ^ k \<Longrightarrow> be_bytes k n < be_bytes k m \<longleftrightarrow> n < m"
proof (induction k arbitrary: n m)
  case 0
  then show ?case by (simp add: be_bytes_def)
next
  case (Suc k)
  have "(word_of_nat n :: u8) < word_of_nat m \<longleftrightarrow> n mod 256 < m mod 256"
    by (simp add: word_less_nat_alt unat_of_nat)
  moreover have "n div 256 < 256 ^ k" "m div 256 < 256 ^ k"
    using Suc.prems by (simp_all add: div_less_iff_less_mult mult.commute)
  moreover from this have "be_bytes k (n div 256) = be_bytes k (m div 256) \<longleftrightarrow> n div 256 = m div 256"
    by (simp add: be_bytes_def le_bytes_inj)
  ultimately show ?case
    using Suc.IH [of "n div 256" "m div 256"] div_mod_less [of n m]
    by (simp add: be_bytes_def snoc_less)
qed

lemma be_bytes_inj: "n < 256 ^ k \<Longrightarrow> m < 256 ^ k \<Longrightarrow> be_bytes k n = be_bytes k m \<longleftrightarrow> n = m"
  by (simp add: be_bytes_def le_bytes_inj)

lemma unat_bytes: "unat (p :: 64 word) < 256 ^ 8" "unat (s :: 32 word) < 256 ^ 4"
  using unsigned_less [of p, where ?'a = nat] unsigned_less [of s, where ?'a = nat] by simp_all

lemma position_key_less [simp]: "position_key p < position_key q \<longleftrightarrow> p < q"
  using be_bytes_less [OF unat_bytes(1) unat_bytes(1)] by (simp add: position_key_def word_less_nat_alt)

lemma seq_key_less [simp]: "seq_key s < seq_key t \<longleftrightarrow> s < t"
  using be_bytes_less [OF unat_bytes(2) unat_bytes(2)] by (simp add: seq_key_def word_less_nat_alt)

lemma position_key_eq [simp]: "position_key p = position_key q \<longleftrightarrow> p = q"
  by (metis less_irrefl linorder_less_linear position_key_less)

lemma option_key_less [simp]:
  "ser_option position_key p < ser_option position_key q \<longleftrightarrow> p < q"
  by (cases p; cases q) (auto simp: ser_option_def)

lemma option_key_eq [simp]:
  "ser_option position_key p = ser_option position_key q \<longleftrightarrow> p = q"
  by (metis less_irrefl linorder_less_linear option_key_less)

lemma sort_key_id_if_mono:
  fixes f :: "'a::linorder \<Rightarrow> 'b::linorder"
  assumes "\<And>x y. x < y \<Longrightarrow> f x < f y" and "sorted xs"
  shows "sort_key f xs = xs"
proof (rule sort_key_id_if_sorted)
  have "f x \<le> f y" if "x \<le> y" for x y using assms(1) that by (auto simp: le_less)
  then show "sorted (map f xs)" using assms(2) by (auto simp: sorted_map intro: sorted_wrt_mono_rel)
qed

lemma sorted_sorted_list_of_fset [simp]:
  "sorted (sorted_list_of_fset A)" "distinct (sorted_list_of_fset A)"
  by (simp_all add: sorted_list_of_fset.rep_eq)

lemma position_entries_eq: "position_entries D = sorted_list_of_fset (position_to_checkpoint_seq D)"
  unfolding position_entries_def
  by (rule sort_key_id_if_mono) (auto simp: less_prod_def' split: prod.splits)

lemma position_entries_sorted: "sorted (position_entries D)" "distinct (position_entries D)"
  "set (position_entries D) = fset (position_to_checkpoint_seq D)"
  by (simp_all add: position_entries_eq)

lemma max_checkpoint_seq_eq:
  "max_checkpoint_seq D =
     (if fmdom (checkpoint_seq_to_tip D) = {||} then None
      else Some (Max (fset (fmdom (checkpoint_seq_to_tip D)))))"
proof -
  have "sort_key seq_key (sorted_list_of_fset (fmdom (checkpoint_seq_to_tip D)))
      = sorted_list_of_set (fset (fmdom (checkpoint_seq_to_tip D)))"
    by (subst sort_key_id_if_mono) (auto simp: sorted_list_of_fset.rep_eq)
  moreover have "last (sorted_list_of_set A) = Max A" if "finite A" "A \<noteq> {}" for A :: "32 word set"
  proof (rule Max_eqI [symmetric])
    let ?l = "sorted_list_of_set A"
    have l: "?l \<noteq> []" "set ?l = A" "sorted ?l" using that by auto
    show "finite A" by (rule that)
    show "last ?l \<in> A" using l by (metis last_in_set)
    show "x \<le> last ?l" if "x \<in> A" for x
    proof -
      from that l obtain i where "i < length ?l" "?l ! i = x" by (metis in_set_conv_nth)
      with l sorted_nth_mono [of ?l i "length ?l - 1"] show ?thesis by (simp add: last_conv_nth)
    qed
  qed
  ultimately show ?thesis
    by (auto simp: max_checkpoint_seq_def Let_def fset_inverse bot_fset.rep_eq)
qed

lemma unat_u32: "n < 2 ^ 32 \<Longrightarrow> unat (word_of_nat n :: 32 word) = n"
  by (simp add: unat_of_nat)

lemma next_checkpoint_seq_fresh:
  assumes "next_checkpoint_seq D = Inr s"
  shows "fmlookup (checkpoint_seq_to_tip D) s = None"
    and "fmlookup (checkpoint_seq_to_tip D) s' = Some tip \<Longrightarrow> s' < s"
proof -
  have below: "s' < s" if "s' |\<in>| fmdom (checkpoint_seq_to_tip D)" for s'
  proof -
    let ?m = "Max (fset (fmdom (checkpoint_seq_to_tip D)))"
    from that have "fmdom (checkpoint_seq_to_tip D) \<noteq> {||}" by auto
    with assms have "s = word_of_nat (unat ?m + 1)" "unat ?m + 1 < 2 ^ 32"
      by (auto simp: next_checkpoint_seq_def max_checkpoint_seq_eq result_simps)
    then have "unat s = unat ?m + 1" by (simp only: unat_u32)
    moreover have "s' \<le> ?m" using that by (intro Max_ge) auto
    ultimately show ?thesis by (simp add: word_less_nat_alt word_le_nat_alt)
  qed
  then show "fmlookup (checkpoint_seq_to_tip D) s' = Some tip \<Longrightarrow> s' < s" by (simp add: fmdomI)
  show "fmlookup (checkpoint_seq_to_tip D) s = None" using below [of s] by (meson fmdom_notD less_irrefl)
qed

section \<open>The tables as one list of checkpoints\<close>

definition checkpoints_ok :: "shardtree_ext \<Rightarrow> shard_tree_db \<Rightarrow> bool" where
  "checkpoints_ok X D \<longleftrightarrow>
     (\<forall>tip c seq. fmlookup (checkpoints D) tip = Some (c, seq) \<longrightarrow>
        fmlookup (checkpoint_seq_to_tip D) seq = Some tip
        \<and> (checkpoint_position X c, seq) |\<in>| position_to_checkpoint_seq D)
   \<and> (\<forall>seq tip. fmlookup (checkpoint_seq_to_tip D) seq = Some tip \<longrightarrow>
        (\<exists>c. fmlookup (checkpoints D) tip = Some (c, seq)))
   \<and> (\<forall>pos seq. (pos, seq) |\<in>| position_to_checkpoint_seq D \<longrightarrow>
        (\<exists>tip c. fmlookup (checkpoints D) tip = Some (c, seq) \<and> checkpoint_position X c = pos))"

definition checkpoint_list :: "shard_tree_db \<Rightarrow> (checkpoint_id \<times> checkpoint) list" where
  "checkpoint_list D =
     (case map_res (entry_checkpoint D) (position_entries D) of Inr xs \<Rightarrow> xs | Inl _ \<Rightarrow> [])"

abbreviation ckey :: "checkpoint_id \<times> checkpoint \<Rightarrow> position option \<times> 32 word" where
  "ckey x \<equiv> (cid_pos (fst x), cid_seq (fst x))"

lemma checkpoints_okD:
  assumes "checkpoints_ok X D"
  shows "fmlookup (checkpoints D) tip = Some (c, seq) \<Longrightarrow> fmlookup (checkpoint_seq_to_tip D) seq = Some tip"
    and "fmlookup (checkpoints D) tip = Some (c, seq) \<Longrightarrow>
      (checkpoint_position X c, seq) |\<in>| position_to_checkpoint_seq D"
    and "fmlookup (checkpoint_seq_to_tip D) seq = Some tip \<Longrightarrow> \<exists>c. fmlookup (checkpoints D) tip = Some (c, seq)"
    and "(pos, seq) |\<in>| position_to_checkpoint_seq D \<Longrightarrow>
      \<exists>tip c. fmlookup (checkpoints D) tip = Some (c, seq) \<and> checkpoint_position X c = pos"
  using assms unfolding checkpoints_ok_def by blast+

lemma map_res_total:
  "(\<And>x. x \<in> set xs \<Longrightarrow> f x = Inr (g x)) \<Longrightarrow> map_res f xs = Inr (map g xs)"
  by (induction xs) auto

lemma entry_checkpoint_total:
  assumes "checkpoints_ok X D" and "e |\<in>| position_to_checkpoint_seq D"
  shows "\<exists>tip c. fmlookup (checkpoints D) tip = Some (c, snd e) \<and> checkpoint_position X c = fst e
    \<and> entry_checkpoint D e = Inr (\<lparr>cid_pos = fst e, cid_seq = snd e, cid_tip = tip\<rparr>, c)"
proof -
  obtain pos seq where e: "e = (pos, seq)" by (cases e)
  with assms checkpoints_okD(4) obtain tip c where
    c: "fmlookup (checkpoints D) tip = Some (c, seq)" "checkpoint_position X c = pos" by blast
  with checkpoints_okD(1) [OF assms(1) c(1)] show ?thesis
    by (auto simp: e entry_checkpoint_def id_of_entry_def)
qed

lemma checkpoint_list_entries:
  assumes "checkpoints_ok X D"
  shows "map_res (entry_checkpoint D) (position_entries D) = Inr (checkpoint_list D)"
    and "map ckey (checkpoint_list D) = position_entries D"
proof -
  define g where "g e = (case entry_checkpoint D e of Inr x \<Rightarrow> x | Inl _ \<Rightarrow> undefined)" for e
  have g: "entry_checkpoint D e = Inr (g e)" "ckey (g e) = e" if "e \<in> set (position_entries D)" for e
    using entry_checkpoint_total [OF assms, of e] that by (auto simp: position_entries_sorted g_def)
  then have m: "map_res (entry_checkpoint D) (position_entries D) = Inr (map g (position_entries D))"
    by (intro map_res_total)
  then show "map_res (entry_checkpoint D) (position_entries D) = Inr (checkpoint_list D)"
    by (simp add: checkpoint_list_def)
  show "map ckey (checkpoint_list D) = position_entries D"
    using g(2) by (auto simp: checkpoint_list_def m intro: map_idI)
qed

lemma checkpoint_list_set:
  assumes "checkpoints_ok X D"
  shows "(cid, c) \<in> set (checkpoint_list D) \<longleftrightarrow>
    fmlookup (checkpoints D) (cid_tip cid) = Some (c, cid_seq cid) \<and> checkpoint_position X c = cid_pos cid"
proof
  note list = checkpoint_list_entries [OF assms]
  assume "(cid, c) \<in> set (checkpoint_list D)"
  then obtain i where i: "i < length (checkpoint_list D)" "checkpoint_list D ! i = (cid, c)"
    by (metis in_set_conv_nth)
  let ?e = "position_entries D ! i"
  have len: "length (position_entries D) = length (checkpoint_list D)"
    using map_res_eq_Inr_length [OF list(1)] by simp
  then have e: "entry_checkpoint D ?e = Inr (cid, c)" "?e |\<in>| position_to_checkpoint_seq D"
    using map_res_eq_Inr_nth [OF list(1)] i position_entries_sorted(3) [of D] by (auto simp: nth_mem)
  with entry_checkpoint_total [OF assms e(2)] show "fmlookup (checkpoints D) (cid_tip cid) = Some (c, cid_seq cid)
      \<and> checkpoint_position X c = cid_pos cid" by auto
next
  note list = checkpoint_list_entries [OF assms]
  assume c: "fmlookup (checkpoints D) (cid_tip cid) = Some (c, cid_seq cid) \<and> checkpoint_position X c = cid_pos cid"
  let ?e = "(cid_pos cid, cid_seq cid)"
  from c checkpoints_okD(1,2) [OF assms] have
    e: "?e |\<in>| position_to_checkpoint_seq D" "fmlookup (checkpoint_seq_to_tip D) (cid_seq cid) = Some (cid_tip cid)"
    by fastforce+
  then have "entry_checkpoint D ?e = Inr (cid, c)" using c
    by (auto simp: entry_checkpoint_def id_of_entry_def)
  moreover from e(1) obtain i where "i < length (position_entries D)" "position_entries D ! i = ?e"
    by (metis in_set_conv_nth position_entries_sorted(3))
  ultimately show "(cid, c) \<in> set (checkpoint_list D)"
    using map_res_eq_Inr_nth [OF list(1), of i] map_res_eq_Inr_length [OF list(1)]
    by (metis Inr_inject nth_mem)
qed

lemma checkpoint_list_sorted:
  assumes "checkpoints_ok X D"
  shows "sorted (map ckey (checkpoint_list D))" "distinct (map ckey (checkpoint_list D))"
  unfolding checkpoint_list_entries(2) [OF assms] by (rule position_entries_sorted)+

lemma checkpoint_list_seq_unique:
  assumes "checkpoints_ok X D" and "(i, c) \<in> set (checkpoint_list D)" and "(i', c') \<in> set (checkpoint_list D)"
    and "cid_seq i = cid_seq i' \<or> cid_tip i = cid_tip i'"
  shows "i = i' \<and> c = c'"
proof -
  note l = assms(2,3) [unfolded checkpoint_list_set [OF assms(1)]]
  with checkpoints_okD(1) [OF assms(1)] have
    "fmlookup (checkpoint_seq_to_tip D) (cid_seq i) = Some (cid_tip i)"
    "fmlookup (checkpoint_seq_to_tip D) (cid_seq i') = Some (cid_tip i')" by blast+
  with assms(4) have "cid_tip i = cid_tip i'" by auto
  with l show ?thesis by (auto intro: checkpoint_id.equality)
qed

text \<open>A list of checkpoints is determined by its elements.\<close>

lemma checkpoint_list_eqI:
  assumes ok: "checkpoints_ok X D" and xs: "sorted (map ckey xs)" "distinct (map ckey xs)"
    and "\<And>i c. (i, c) \<in> set xs \<longleftrightarrow>
      fmlookup (checkpoints D) (cid_tip i) = Some (c, cid_seq i) \<and> checkpoint_position X c = cid_pos i"
  shows "checkpoint_list D = xs"
proof -
  have eq: "set (checkpoint_list D) = set xs" using checkpoint_list_set [OF ok] assms(4) by auto
  show ?thesis
  proof (rule map_sorted_distinct_set_unique)
    show "inj_on ckey (set (checkpoint_list D) \<union> set xs)"
      using xs(2) by (simp add: eq distinct_map)
  qed (simp_all add: eq xs checkpoint_list_sorted [OF ok])
qed

section \<open>Recording and forgetting a checkpoint\<close>

lemma record_checkpoint_ok:
  assumes "checkpoints_ok X D" and "checkpoint_position X c = cid_pos cid"
    and "fmlookup (checkpoints D) (cid_tip cid) = None" and "fmlookup (checkpoint_seq_to_tip D) (cid_seq cid) = None"
  shows "checkpoints_ok X (record_checkpoint cid c D)"
    and "checkpoint_list (record_checkpoint cid c D) = insort_key ckey (cid, c) (checkpoint_list D)"
proof -
  note D = checkpoints_okD [OF assms(1)]
  show ok: "checkpoints_ok X (record_checkpoint cid c D)"
    unfolding checkpoints_ok_def using assms(2-4) D
    by (auto simp: record_checkpoint_def) (metis option.distinct(1))+
  have new: "(cid_pos cid, cid_seq cid) \<notin> ckey ` set (checkpoint_list D)"
    using assms(4) D(1) by (fastforce simp: checkpoint_list_set [OF assms(1)])
  show "checkpoint_list (record_checkpoint cid c D) = insort_key ckey (cid, c) (checkpoint_list D)"
  proof (rule checkpoint_list_eqI [OF ok])
    show "sorted (map ckey (insort_key ckey (cid, c) (checkpoint_list D)))"
      using checkpoint_list_sorted [OF assms(1)] by (simp add: sorted_insort_key)
    show "distinct (map ckey (insort_key ckey (cid, c) (checkpoint_list D)))"
      using new checkpoint_list_sorted(2) [OF assms(1)] by (simp add: distinct_insort_key)
    show "(i, c') \<in> set (insort_key ckey (cid, c) (checkpoint_list D)) \<longleftrightarrow>
        fmlookup (checkpoints (record_checkpoint cid c D)) (cid_tip i) = Some (c', cid_seq i)
        \<and> checkpoint_position X c' = cid_pos i" for i c'
      using assms(2,3)
      by (auto simp: set_insort_key checkpoint_list_set [OF assms(1)] record_checkpoint_def
          intro: checkpoint_id.equality)
  qed
qed

lemma forget_checkpoint_ok:
  assumes "checkpoints_ok X D" and "fmlookup (checkpoints D) tip = Some (c, seq)"
    and "pos = checkpoint_position X c"
  shows "checkpoints_ok X (forget_checkpoint tip pos seq D)"
    and "checkpoint_list (forget_checkpoint tip pos seq D)
      = filter (\<lambda>x. cid_tip (fst x) \<noteq> tip) (checkpoint_list D)"
proof -
  note D = checkpoints_okD [OF assms(1)]
  from D(1) assms(2) have seq: "fmlookup (checkpoint_seq_to_tip D) seq = Some tip" by blast
  have other: "tip' = tip" if "fmlookup (checkpoints D) tip' = Some (c', seq)" for tip' c'
    using D(1) [OF that] seq by simp
  have gone: "fmlookup (checkpoints (forget_checkpoint tip pos seq D)) t = Some (c', s) \<longleftrightarrow>
      fmlookup (checkpoints D) t = Some (c', s) \<and> t \<noteq> tip \<and> s \<noteq> seq" for t c' s
  proof -
    have "s \<noteq> seq" if "fmlookup (checkpoints D) t = Some (c', s)" "t \<noteq> tip" using that other by blast
    then show ?thesis by (auto simp: forget_checkpoint_def)
  qed
  show ok: "checkpoints_ok X (forget_checkpoint tip pos seq D)"
    unfolding checkpoints_ok_def gone
  proof (intro conjI allI impI)
    fix t c' s
    assume t: "fmlookup (checkpoints D) t = Some (c', s) \<and> t \<noteq> tip \<and> s \<noteq> seq"
    with D(1) show "fmlookup (checkpoint_seq_to_tip (forget_checkpoint tip pos seq D)) s = Some t"
      by (auto simp: forget_checkpoint_def)
    from t D(2) show "(checkpoint_position X c', s) |\<in>| position_to_checkpoint_seq (forget_checkpoint tip pos seq D)"
      by (auto simp: forget_checkpoint_def)
  next
    fix s t
    assume "fmlookup (checkpoint_seq_to_tip (forget_checkpoint tip pos seq D)) s = Some t"
    then have s: "s \<noteq> seq" "fmlookup (checkpoint_seq_to_tip D) s = Some t"
      by (auto simp: forget_checkpoint_def split: if_splits)
    with D(3) obtain c' where "fmlookup (checkpoints D) t = Some (c', s)" by blast
    with s assms(2) show "\<exists>c'. fmlookup (checkpoints D) t = Some (c', s) \<and> t \<noteq> tip \<and> s \<noteq> seq" by auto
  next
    fix p s
    assume "(p, s) |\<in>| position_to_checkpoint_seq (forget_checkpoint tip pos seq D)"
    then have p: "(p, s) |\<in>| position_to_checkpoint_seq D" "(p, s) \<noteq> (pos, seq)"
      by (auto simp: forget_checkpoint_def)
    with D(4) obtain t c' where "fmlookup (checkpoints D) t = Some (c', s)" "checkpoint_position X c' = p" by blast
    moreover from this p(2) assms(2,3) have "t \<noteq> tip" by auto
    moreover from calculation other have "s \<noteq> seq" by blast
    ultimately show "\<exists>t c'. (fmlookup (checkpoints D) t = Some (c', s) \<and> t \<noteq> tip \<and> s \<noteq> seq)
        \<and> checkpoint_position X c' = p" by blast
  qed
  have srt: "sorted (map ckey (filter P (checkpoint_list D)))" "distinct (map ckey (filter P (checkpoint_list D)))"
    for P using checkpoint_list_sorted [OF assms(1)] by (simp_all add: sorted_filter distinct_map_filter)
  show "checkpoint_list (forget_checkpoint tip pos seq D)
      = filter (\<lambda>x. cid_tip (fst x) \<noteq> tip) (checkpoint_list D)"
    by (rule checkpoint_list_eqI [OF ok srt]) (auto simp: checkpoint_list_set [OF assms(1)] forget_checkpoint_def)
qed

section \<open>Truncation\<close>

lemma takeWhile_greater:
  fixes xs :: "'a::linorder list"
  shows "sorted_wrt (\<ge>) xs \<Longrightarrow> takeWhile (\<lambda>x. b < x) xs = filter (\<lambda>x. b < x) xs"
proof (induction xs)
  case Nil
  then show ?case by simp
next
  case (Cons x xs)
  then have "filter (\<lambda>y. b < y) xs = []" if "\<not> b < x"
    using that by (auto simp: filter_empty_conv dest: order.strict_trans2)
  with Cons show ?case by simp
qed

lemma entries_after:
  "takeWhile (\<lambda>(p, s). p > pos \<or> p = pos \<and> s > seq) (rev (position_entries D))
     = filter (\<lambda>e. (pos, seq) < e) (rev (position_entries D))"
proof -
  have "(\<lambda>(p, s). p > pos \<or> p = pos \<and> s > seq) = (\<lambda>e. (pos, seq) < e)"
    by (auto simp: less_prod_def')
  moreover have "sorted_wrt (\<ge>) (rev (position_entries D))"
    using position_entries_sorted(1) [of D] by (simp add: sorted_wrt_rev)
  ultimately show ?thesis by (simp add: takeWhile_greater)
qed

lemma delete_entry_ok:
  assumes "checkpoints_ok X D" and "e |\<in>| position_to_checkpoint_seq D"
  obtains D' where "delete_entry D e = Inr D'" "checkpoints_ok X D'"
    "checkpoint_list D' = filter (\<lambda>x. ckey x \<noteq> e) (checkpoint_list D)"
    "position_to_checkpoint_seq D' = position_to_checkpoint_seq D |-| {|e|}"
    "cap D' = cap D" "shards D' = shards D"
proof -
  obtain tip c where c: "fmlookup (checkpoints D) tip = Some (c, snd e)" "checkpoint_position X c = fst e"
    using entry_checkpoint_total [OF assms] by blast
  let ?D = "forget_checkpoint tip (fst e) (snd e) D"
  note ok = forget_checkpoint_ok [OF assms(1) c(1) c(2) [symmetric]]
  have "delete_entry D e = Inr ?D"
    using checkpoints_okD(1) [OF assms(1) c(1)] by (simp add: delete_entry_def case_prod_beta)
  moreover have "cid_tip (fst x) \<noteq> tip \<longleftrightarrow> ckey x \<noteq> e" if x: "x \<in> set (checkpoint_list D)" for x
  proof -
    let ?i = "\<lparr>cid_pos = fst e, cid_seq = snd e, cid_tip = tip\<rparr>"
    have "(?i, c) \<in> set (checkpoint_list D)" using c by (simp add: checkpoint_list_set [OF assms(1)])
    with checkpoint_list_seq_unique [OF assms(1), of "fst x" "snd x" ?i c] x
    have "cid_seq (fst x) = snd e \<or> cid_tip (fst x) = tip \<Longrightarrow> fst x = ?i" by simp
    then show ?thesis by (metis checkpoint_id.select_convs prod.collapse prod.inject)
  qed
  then have "checkpoint_list ?D = filter (\<lambda>x. ckey x \<noteq> e) (checkpoint_list D)"
    unfolding ok(2) by (intro filter_cong) auto
  ultimately show thesis using ok(1) by (intro that [of ?D]) (simp_all add: forget_checkpoint_def)
qed

lemma delete_entries_ok:
  assumes "checkpoints_ok X D" and "set es \<subseteq> fset (position_to_checkpoint_seq D)" and "distinct es"
  shows "\<exists>D'. fold_res delete_entry D es = Inr D' \<and> checkpoints_ok X D'
    \<and> checkpoint_list D' = filter (\<lambda>x. ckey x \<notin> set es) (checkpoint_list D) \<and> cap D' = cap D \<and> shards D' = shards D"
  using assms
proof (induction es arbitrary: D)
  case Nil
  then show ?case by simp
next
  case (Cons e es)
  from Cons.prems obtain D' where D': "delete_entry D e = Inr D'" "checkpoints_ok X D'"
    "checkpoint_list D' = filter (\<lambda>x. ckey x \<noteq> e) (checkpoint_list D)"
    "position_to_checkpoint_seq D' = position_to_checkpoint_seq D |-| {|e|}" "cap D' = cap D" "shards D' = shards D"
    using delete_entry_ok [of X D e] by auto
  from Cons.IH [OF D'(2)] Cons.prems D'(4) obtain D'' where "fold_res delete_entry D' es = Inr D''" "checkpoints_ok X D''"
    "checkpoint_list D'' = filter (\<lambda>x. ckey x \<notin> set es) (checkpoint_list D')" "cap D'' = cap D'" "shards D'' = shards D'"
    by auto
  with D' show ?case by (auto intro: filter_cong)
qed

section \<open>The store as a sequence of checkpoints\<close>

text \<open>What \<open>ShardStore\<close> promises its client about checkpoints, over the list of all of them.\<close>

locale checkpoint_store =
  fixes invar :: "'d \<Rightarrow> bool" and view :: "'d \<Rightarrow> ('i \<times> 'c) list" and key :: "'i \<Rightarrow> 'k::linorder"
    and fresh :: "'d \<Rightarrow> 'i \<Rightarrow> 'c \<Rightarrow> bool" and at_depth :: "'d \<Rightarrow> nat \<Rightarrow> ('e, ('i \<times> 'c) option) result"
    and add :: "'d \<Rightarrow> 'i \<Rightarrow> 'c \<Rightarrow> ('e, 'd) result" and truncate :: "'d \<Rightarrow> 'i \<Rightarrow> ('e, 'd) result"
  assumes view_sorted: "invar d \<Longrightarrow> sorted (map (\<lambda>x. key (fst x)) (view d))"
    and view_distinct: "invar d \<Longrightarrow> distinct (map (\<lambda>x. key (fst x)) (view d))"
    and at_depth: "invar d \<Longrightarrow>
      at_depth d n = Inr (if n < length (view d) then Some (rev (view d) ! n) else None)"
    and add: "invar d \<Longrightarrow> fresh d i c \<Longrightarrow> \<exists>d'. add d i c = Inr d' \<and> invar d'
      \<and> view d' = insort_key (\<lambda>x. key (fst x)) (i, c) (view d)"
    and truncate: "invar d \<Longrightarrow> (i, c) \<in> set (view d) \<Longrightarrow> \<exists>d'. truncate d i = Inr d' \<and> invar d'
      \<and> view d' = filter (\<lambda>x. key (fst x) \<le> key i) (view d)"
begin

lemma insort_last:
  "\<forall>x\<in>set xs. key (fst x) \<le> key i \<Longrightarrow> \<forall>x\<in>set xs. key (fst x) \<noteq> key i \<Longrightarrow>
     insort_key (\<lambda>x. key (fst x)) (i, c) xs = xs @ [(i, c)]"
  by (induction xs) auto

lemma add_newest:
  assumes "invar d" and "fresh d i c" and "\<forall>x\<in>set (view d). key (fst x) < key i"
  shows "\<exists>d'. add d i c = Inr d' \<and> invar d' \<and> view d' = view d @ [(i, c)]
    \<and> at_depth d' 0 = Inr (Some (i, c)) \<and> (\<forall>n. at_depth d' (Suc n) = at_depth d n)"
proof -
  from add [OF assms(1,2)] obtain d' where
    d': "add d i c = Inr d'" "invar d'" "view d' = insort_key (\<lambda>x. key (fst x)) (i, c) (view d)" by blast
  from assms(3) have "view d' = view d @ [(i, c)]" unfolding d'(3) by (intro insort_last) auto
  with d'(1,2) show ?thesis using assms(1) by (simp add: at_depth)
qed

text \<open>The checkpoints up to one at depth \<open>n\<close> are all but the last \<open>n\<close>.\<close>

lemma up_to_depth:
  assumes "sorted (map (\<lambda>x. key (fst x)) xs)" "distinct (map (\<lambda>x. key (fst x)) xs)"
    and "n < length xs" and "rev xs ! n = (i, c)"
  shows "filter (\<lambda>x. key (fst x) \<le> key i) xs = take (length xs - n) xs"
proof -
  let ?m = "length xs - Suc n"
  have m: "?m < length xs" "xs ! ?m = (i, c)" using assms(3,4) by (auto simp: rev_nth)
  have le: "key (fst (xs ! a)) \<le> key i \<longleftrightarrow> a \<le> ?m" if "a < length xs" for a
  proof
    assume "a \<le> ?m"
    with sorted_nth_mono [OF assms(1), of a ?m] m show "key (fst (xs ! a)) \<le> key i" by simp
  next
    assume k: "key (fst (xs ! a)) \<le> key i"
    show "a \<le> ?m"
    proof (rule ccontr)
      assume "\<not> a \<le> ?m"
      with sorted_nth_mono [OF assms(1), of ?m a] that m k have "key (fst (xs ! a)) = key (fst (xs ! ?m))" by simp
      with assms(2) that m(1) \<open>\<not> a \<le> ?m\<close> show False by (auto simp: distinct_conv_nth)
    qed
  qed
  have "filter (\<lambda>x. key (fst x) \<le> key i) xs = filter (\<lambda>x. key (fst x) \<le> key i) (take (Suc ?m) xs @ drop (Suc ?m) xs)"
    by simp
  also have "\<dots> = take (Suc ?m) xs @ []"
  proof -
    have "key (fst x) \<le> key i" if x: "x \<in> set (take (Suc ?m) xs)" for x
    proof -
      from x obtain a where "a < length xs" "a \<le> ?m" "x = xs ! a" by (auto simp: in_set_conv_nth)
      with le show ?thesis by simp
    qed
    then have "filter (\<lambda>x. key (fst x) \<le> key i) (take (Suc ?m) xs) = take (Suc ?m) xs"
      by (simp add: filter_id_conv)
    moreover have "\<not> key (fst x) \<le> key i" if x: "x \<in> set (drop (Suc ?m) xs)" for x
    proof -
      from x obtain a where a: "a < length xs - Suc ?m" "x = xs ! (Suc ?m + a)" by (auto simp: in_set_conv_nth)
      then show ?thesis using le [of "Suc ?m + a"] by simp
    qed
    then have "filter (\<lambda>x. key (fst x) \<le> key i) (drop (Suc ?m) xs) = []" by (simp add: filter_empty_conv)
    ultimately show ?thesis by (simp only: filter_append)
  qed
  also have "Suc ?m = length xs - n" using assms(3) by simp
  finally show ?thesis by simp
qed

lemma truncate_to_depth:
  assumes "invar d" and "at_depth d n = Inr (Some (i, c))"
  shows "\<exists>d'. truncate d i = Inr d' \<and> invar d' \<and> view d' = take (length (view d) - n) (view d)
    \<and> (\<forall>k. at_depth d' k = at_depth d (n + k))"
proof -
  from assms have n: "n < length (view d)" "rev (view d) ! n = (i, c)"
    by (auto simp: at_depth split: if_splits)
  then have "(i, c) \<in> set (view d)" by (metis length_rev nth_mem set_rev)
  with truncate [OF assms(1)] obtain d' where
    d': "truncate d i = Inr d'" "invar d'" "view d' = filter (\<lambda>x. key (fst x) \<le> key i) (view d)" by blast
  with up_to_depth [OF view_sorted view_distinct n] assms(1) have
    v: "view d' = take (length (view d) - n) (view d)" by simp
  then have "at_depth d' k = at_depth d (n + k)" for k
    using assms(1) d'(2) n(1) by (auto simp: at_depth rev_nth)
  with d' v show ?thesis by blast
qed

text \<open>Taking a checkpoint and going back to the one before restores the sequence.\<close>

lemma checkpoint_and_back:
  assumes "invar d" and "fresh d i c" and "\<forall>x\<in>set (view d). key (fst x) < key i"
    and "at_depth d 0 = Inr (Some (j, c'))" and "add d i c = Inr d'"
  shows "\<exists>d''. truncate d' j = Inr d'' \<and> invar d'' \<and> view d'' = view d"
proof -
  from add_newest [OF assms(1-3)] assms(4,5) have
    "invar d'" "view d' = view d @ [(i, c)]" "at_depth d' 1 = Inr (Some (j, c'))" by (auto simp: numeral_eq_Suc)
  with truncate_to_depth [of d' 1 j c'] show ?thesis by auto
qed

end

section \<open>The operations of the store\<close>

abbreviation writable :: "shardtree_ext \<Rightarrow> shard_tree_store \<Rightarrow> bool" where
  "writable X st \<equiv> store_txn st = Some RwTxn \<and> checkpoints_ok X (store_db st)"

lemma read_with_some: "store_txn st \<noteq> None \<Longrightarrow> read_with st f = f (store_db st)"
  by (auto simp: read_with_def)

lemma write_with_rw:
  "store_txn st = Some RwTxn \<Longrightarrow> write_with st f = map_ok (\<lambda>(x, D). (x, st\<lparr>store_db := D\<rparr>)) (f (store_db st))"
  by (simp add: write_with_def)

lemma length_checkpoint_list:
  "checkpoints_ok X D \<Longrightarrow> length (position_entries D) = length (checkpoint_list D)"
  using map_res_eq_Inr_length [OF checkpoint_list_entries(1)] by simp

lemma checkpoint_list_nth:
  assumes "checkpoints_ok X D" and "n < length (checkpoint_list D)"
  shows "entry_checkpoint D (position_entries D ! n) = Inr (checkpoint_list D ! n)"
    and "id_of_entry D (position_entries D ! n) = Inr (fst (checkpoint_list D ! n))"
proof -
  show e: "entry_checkpoint D (position_entries D ! n) = Inr (checkpoint_list D ! n)"
    using map_res_eq_Inr_nth [OF checkpoint_list_entries(1) [OF assms(1)]] assms
    by (simp add: length_checkpoint_list)
  then show "id_of_entry D (position_entries D ! n) = Inr (fst (checkpoint_list D ! n))"
    by (auto simp: entry_checkpoint_def result_simps)
qed

lemma get_checkpoint_at_depth_ok:
  assumes "checkpoints_ok X (store_db st)" and "store_txn st \<noteq> None"
  shows "get_checkpoint_at_depth st n =
    Inr (if n < length (checkpoint_list (store_db st)) then Some (rev (checkpoint_list (store_db st)) ! n) else None)"
  using assms checkpoint_list_nth(1) [OF assms(1)]
  by (simp add: get_checkpoint_at_depth_def read_with_some length_checkpoint_list rev_nth Let_def)

lemma min_max_checkpoint_id_ok:
  assumes "checkpoints_ok X (store_db st)" and "store_txn st \<noteq> None"
  defines "xs \<equiv> checkpoint_list (store_db st)"
  shows "min_checkpoint_id st = Inr (if xs = [] then None else Some (fst (hd xs)))"
    and "max_checkpoint_id st = Inr (if xs = [] then None else Some (fst (last xs)))"
proof -
  let ?es = "position_entries (store_db st)"
  have len: "length ?es = length xs" using length_checkpoint_list [OF assms(1)] by (simp add: xs_def)
  note nth = checkpoint_list_nth(2) [OF assms(1), folded xs_def]
  show "min_checkpoint_id st = Inr (if xs = [] then None else Some (fst (hd xs)))"
    using nth [of 0] len assms(2)
    by (cases ?es; cases xs) (auto simp: min_checkpoint_id_def read_with_some)
  show "max_checkpoint_id st = Inr (if xs = [] then None else Some (fst (last xs)))"
  proof (cases "xs = []")
    case True
    with len assms(2) show ?thesis by (simp add: max_checkpoint_id_def read_with_some)
  next
    case False
    with len have "?es \<noteq> []" by auto
    then have "rev ?es = last ?es # tl (rev ?es)" by (metis hd_rev list.collapse rev_is_Nil_conv)
    moreover have "id_of_entry (store_db st) (last ?es) = Inr (fst (last xs))"
      using nth [of "length xs - 1"] False \<open>?es \<noteq> []\<close> len by (simp add: last_conv_nth)
    ultimately have "(case rev ?es of [] \<Rightarrow> Inr None | e # _ \<Rightarrow> map_ok Some (id_of_entry (store_db st) e))
        = Inr (Some (fst (last xs)))" by (auto split: list.split)
    with False assms(2) show ?thesis by (simp add: max_checkpoint_id_def read_with_some)
  qed
qed

lemma checkpoint_count_ok:
  assumes "checkpoints_ok X (store_db st)" and "store_txn st \<noteq> None"
  shows "checkpoint_count st = Inr (length (checkpoint_list (store_db st)))"
proof -
  let ?xs = "checkpoint_list (store_db st)" and ?f = "\<lambda>x. cid_tip (fst x)"
  have "inj_on ?f (set ?xs)"
    using checkpoint_list_seq_unique [OF assms(1)] by (force simp: inj_on_def)
  moreover have "distinct ?xs" using checkpoint_list_sorted(2) [OF assms(1)] by (simp add: distinct_map)
  ultimately have "length ?xs = card (?f ` set ?xs)" by (simp add: card_image distinct_card)
  moreover have "?f ` set ?xs = fset (fmdom (checkpoints (store_db st)))"
  proof (intro set_eqI iffI)
    fix t
    assume "t \<in> ?f ` set ?xs"
    then show "t \<in> fset (fmdom (checkpoints (store_db st)))"
      by (auto simp: checkpoint_list_set [OF assms(1)] intro: fmdomI)
  next
    fix t
    assume "t \<in> fset (fmdom (checkpoints (store_db st)))"
    then obtain c s where "fmlookup (checkpoints (store_db st)) t = Some (c, s)" by (metis fmlookup_dom_iff surj_pair)
    then have "(\<lparr>cid_pos = checkpoint_position X c, cid_seq = s, cid_tip = t\<rparr>, c) \<in> set ?xs"
      by (simp add: checkpoint_list_set [OF assms(1)])
    then show "t \<in> ?f ` set ?xs" by force
  qed
  ultimately show ?thesis using assms(2) by (simp add: checkpoint_count_def read_with_some fcard.rep_eq)
qed

lemma get_checkpoint_ok:
  assumes "checkpoints_ok X (store_db st)" and "store_txn st \<noteq> None"
  shows "get_checkpoint X st cid = Inr (Some c) \<longleftrightarrow> (cid, c) \<in> set (checkpoint_list (store_db st))"
  using assms
  by (auto simp: get_checkpoint_def read_with_some checkpoint_list_set check_id_def result_simps split: option.splits)

lemma truncate_checkpoints_retaining_ok:
  assumes "writable X st" and "(cid, c) \<in> set (checkpoint_list (store_db st))"
  shows "\<exists>D'. truncate_checkpoints_retaining X st cid = Inr ((), st\<lparr>store_db := D'\<rparr>) \<and> checkpoints_ok X D'
    \<and> checkpoint_list D' = filter (\<lambda>x. ckey x \<le> (cid_pos cid, cid_seq cid)) (checkpoint_list (store_db st))
    \<and> cap D' = cap (store_db st) \<and> shards D' = shards (store_db st)"
proof -
  let ?D = "store_db st" and ?b = "(cid_pos cid, cid_seq cid)"
  let ?es = "filter (\<lambda>e. ?b < e) (rev (position_entries ?D))"
  from assms have ok: "checkpoints_ok X ?D" by simp
  have c: "fmlookup (checkpoints ?D) (cid_tip cid) = Some (c, cid_seq cid)" "checkpoint_position X c = cid_pos cid"
    using assms(2) by (simp_all add: checkpoint_list_set [OF ok])
  have es: "set ?es \<subseteq> fset (position_to_checkpoint_seq ?D)" "distinct ?es"
    using position_entries_sorted [of ?D] by auto
  have "ckey x \<notin> set ?es \<longleftrightarrow> ckey x \<le> ?b" if "x \<in> set (checkpoint_list ?D)" for x
  proof -
    have "ckey x \<in> ckey ` set (checkpoint_list ?D)" using that by blast
    also have "\<dots> = set (position_entries ?D)" using arg_cong [OF checkpoint_list_entries(2) [OF ok], of set] by (simp only: set_map)
    finally have "ckey x \<in> set ?es \<longleftrightarrow> ?b < ckey x" by (simp only: set_filter set_rev mem_Collect_eq simp_thms)
    then show ?thesis by (simp only: not_less)
  qed
  then have f: "filter (\<lambda>x. ckey x \<notin> set ?es) (checkpoint_list ?D) = filter (\<lambda>x. ckey x \<le> ?b) (checkpoint_list ?D)"
    by (rule filter_cong [OF refl])
  obtain D' where D': "fold_res delete_entry ?D ?es = Inr D'" "checkpoints_ok X D'"
    "checkpoint_list D' = filter (\<lambda>x. ckey x \<le> ?b) (checkpoint_list ?D)" "cap D' = cap ?D" "shards D' = shards ?D"
    using delete_entries_ok [OF ok es] unfolding f by blast
  have "truncate_checkpoints_retaining X st cid = Inr ((), st\<lparr>store_db := D'\<rparr>)"
    using assms(1) c D'(1) by (simp add: truncate_checkpoints_retaining_def write_with_rw entries_after Let_def)
  with D'(2-) show ?thesis by blast
qed

definition fresh_checkpoint ::
  "shardtree_ext \<Rightarrow> shard_tree_store \<Rightarrow> checkpoint_id \<Rightarrow> checkpoint \<Rightarrow> bool" where
  "fresh_checkpoint X st cid c \<longleftrightarrow> checkpoint_position X c = cid_pos cid
     \<and> fmlookup (checkpoints (store_db st)) (cid_tip cid) = None
     \<and> fmlookup (checkpoint_seq_to_tip (store_db st)) (cid_seq cid) = None"

lemma add_checkpoint_fresh:
  assumes "writable X st" and "fresh_checkpoint X st cid c"
  shows "add_checkpoint X st cid c = Inr ((), st\<lparr>store_db := record_checkpoint cid c (store_db st)\<rparr>)"
  using assms by (simp add: add_checkpoint_def write_with_rw fresh_checkpoint_def)

interpretation cps: checkpoint_store "writable X" "\<lambda>st. checkpoint_list (store_db st)"
  "\<lambda>cid. (cid_pos cid, cid_seq cid)" "fresh_checkpoint X" get_checkpoint_at_depth
  "\<lambda>st cid c. map_ok snd (add_checkpoint X st cid c)"
  "\<lambda>st cid. map_ok snd (truncate_checkpoints_retaining X st cid)"
  for X
proof unfold_locales
  fix st i c
  assume st: "writable X st"
  then show "sorted (map (\<lambda>x. ckey x) (checkpoint_list (store_db st)))"
    "distinct (map (\<lambda>x. ckey x) (checkpoint_list (store_db st)))"
    using checkpoint_list_sorted by blast+
  show "get_checkpoint_at_depth st n = Inr (if n < length (checkpoint_list (store_db st))
      then Some (rev (checkpoint_list (store_db st)) ! n) else None)" for n
    using st by (intro get_checkpoint_at_depth_ok) auto
  show "\<exists>d'. map_ok snd (add_checkpoint X st i c) = Inr d' \<and> writable X d'
      \<and> checkpoint_list (store_db d') = insort_key (\<lambda>x. ckey x) (i, c) (checkpoint_list (store_db st))"
    if "fresh_checkpoint X st i c"
    using st that record_checkpoint_ok [of X "store_db st" c i] add_checkpoint_fresh [OF st that]
    by (simp add: fresh_checkpoint_def)
  show "\<exists>d'. map_ok snd (truncate_checkpoints_retaining X st i) = Inr d' \<and> writable X d'
      \<and> checkpoint_list (store_db d') = filter (\<lambda>x. ckey x \<le> (cid_pos i, cid_seq i)) (checkpoint_list (store_db st))"
    if "(i, c) \<in> set (checkpoint_list (store_db st))"
    using truncate_checkpoints_retaining_ok [OF st that] st by auto
qed

lemma remove_checkpoint_ok:
  assumes "writable X st" and "(cid, c) \<in> set (checkpoint_list (store_db st))"
  shows "\<exists>D'. remove_checkpoint X st cid = Inr ((), st\<lparr>store_db := D'\<rparr>) \<and> checkpoints_ok X D'
    \<and> checkpoint_list D' = filter (\<lambda>x. fst x \<noteq> cid) (checkpoint_list (store_db st))"
proof -
  let ?D = "store_db st"
  from assms have ok: "checkpoints_ok X ?D" by simp
  have c: "fmlookup (checkpoints ?D) (cid_tip cid) = Some (c, cid_seq cid)" "cid_pos cid = checkpoint_position X c"
    using assms(2) by (simp_all add: checkpoint_list_set [OF ok])
  have "cid_tip (fst x) \<noteq> cid_tip cid \<longleftrightarrow> fst x \<noteq> cid" if "x \<in> set (checkpoint_list ?D)" for x
    using checkpoint_list_seq_unique [OF ok _ assms(2), of "fst x" "snd x"] that by auto
  then have f: "filter (\<lambda>x. cid_tip (fst x) \<noteq> cid_tip cid) (checkpoint_list ?D)
      = filter (\<lambda>x. fst x \<noteq> cid) (checkpoint_list ?D)" by (rule filter_cong [OF refl])
  have "remove_checkpoint X st cid
      = Inr ((), st\<lparr>store_db := forget_checkpoint (cid_tip cid) (cid_pos cid) (cid_seq cid) ?D\<rparr>)"
    using assms(1) c by (simp add: remove_checkpoint_def write_with_rw check_id_def)
  with forget_checkpoint_ok [OF ok c] f show ?thesis by metis
qed

lemma update_checkpoint_with_ok:
  assumes "writable X st" and "(cid, c) \<in> set (checkpoint_list (store_db st))"
    and "update c = Inr c'" and "checkpoint_position X c' = checkpoint_position X c"
  shows "\<exists>D'. update_checkpoint_with X st cid update = Inr (True, st\<lparr>store_db := D'\<rparr>) \<and> checkpoints_ok X D'
    \<and> checkpoint_list D' = map (\<lambda>x. if fst x = cid then (cid, c') else x) (checkpoint_list (store_db st))"
proof -
  let ?D = "store_db st" and ?f = "\<lambda>x. if fst x = cid then (cid, c') else x"
  let ?D' = "?D\<lparr>checkpoints := fmupd (cid_tip cid) (c', cid_seq cid) (checkpoints ?D)\<rparr>"
  from assms have ok: "checkpoints_ok X ?D" by simp
  have c: "fmlookup (checkpoints ?D) (cid_tip cid) = Some (c, cid_seq cid)" "cid_pos cid = checkpoint_position X c"
    using assms(2) by (simp_all add: checkpoint_list_set [OF ok])
  have "update_checkpoint_with X st cid update = Inr (True, st\<lparr>store_db := ?D'\<rparr>)"
    using assms c by (simp add: update_checkpoint_with_def write_with_rw check_id_def)
  moreover have ok': "checkpoints_ok X ?D'"
    unfolding checkpoints_ok_def using checkpoints_okD [OF ok] c assms(4)
    by (auto split: if_splits) (metis option.inject prod.inject)+
  moreover have "checkpoint_list ?D' = map ?f (checkpoint_list ?D)"
  proof (rule checkpoint_list_eqI [OF ok'])
    have k: "map ckey (map ?f (checkpoint_list ?D)) = map ckey (checkpoint_list ?D)" by auto
    show "sorted (map ckey (map ?f (checkpoint_list ?D)))" "distinct (map ckey (map ?f (checkpoint_list ?D)))"
      unfolding k by (rule checkpoint_list_sorted [OF ok])+
    show "(i, d) \<in> set (map ?f (checkpoint_list ?D)) \<longleftrightarrow>
        fmlookup (checkpoints ?D') (cid_tip i) = Some (d, cid_seq i) \<and> checkpoint_position X d = cid_pos i" for i d
    proof (cases "cid_tip i = cid_tip cid")
      case True
      have "(i, d) \<in> set (map ?f (checkpoint_list ?D)) \<longleftrightarrow> i = cid \<and> d = c'"
        using assms(2) True checkpoint_list_seq_unique [OF ok _ assms(2)] by (auto simp: image_iff)
      also have "\<dots> \<longleftrightarrow> fmlookup (checkpoints ?D') (cid_tip i) = Some (d, cid_seq i) \<and> checkpoint_position X d = cid_pos i"
        using True c assms(4) by (auto intro: checkpoint_id.equality)
      finally show ?thesis .
    next
      case False
      then have "(i, d) \<in> set (map ?f (checkpoint_list ?D)) \<longleftrightarrow> (i, d) \<in> set (checkpoint_list ?D)"
        by (auto simp: image_iff)
      with False show ?thesis by (simp add: checkpoint_list_set [OF ok])
    qed
  qed
  ultimately show ?thesis by blast
qed

section \<open>The contract of the store\<close>

text \<open>
  C17. With a write transaction and consistent tables, the store is one list of checkpoints without
  duplicates in the order of position and sequence number. Counting it, looking up by id or by depth, and the
  first and last id read that list; adding a new checkpoint inserts it in order, removing one deletes it,
  updating one replaces it, and truncation keeps those up to the given one. Each of these changes
  succeeds and leaves consistent tables.
\<close>

theorem shard_store_refines:
  assumes "store_txn st = Some RwTxn" and "checkpoints_ok X (store_db st)" and "xs = checkpoint_list (store_db st)"
  shows "sorted (map ckey xs) \<and> distinct (map ckey xs)
    \<and> checkpoint_count st = Inr (length xs)
    \<and> min_checkpoint_id st = Inr (if xs = [] then None else Some (fst (hd xs)))
    \<and> max_checkpoint_id st = Inr (if xs = [] then None else Some (fst (last xs)))
    \<and> get_checkpoint_at_depth st n = Inr (if n < length xs then Some (rev xs ! n) else None)
    \<and> (get_checkpoint X st cid = Inr (Some c) \<longleftrightarrow> (cid, c) \<in> set xs)
    \<and> (fresh_checkpoint X st cid c \<longrightarrow> (\<exists>D. add_checkpoint X st cid c = Inr ((), st\<lparr>store_db := D\<rparr>)
          \<and> checkpoints_ok X D \<and> checkpoint_list D = insort_key ckey (cid, c) xs))
    \<and> ((cid, c) \<in> set xs \<longrightarrow>
         (\<exists>D. remove_checkpoint X st cid = Inr ((), st\<lparr>store_db := D\<rparr>) \<and> checkpoints_ok X D
            \<and> checkpoint_list D = filter (\<lambda>x. fst x \<noteq> cid) xs)
       \<and> (\<exists>D. truncate_checkpoints_retaining X st cid = Inr ((), st\<lparr>store_db := D\<rparr>) \<and> checkpoints_ok X D
            \<and> checkpoint_list D = filter (\<lambda>x. ckey x \<le> (cid_pos cid, cid_seq cid)) xs)
       \<and> (update c = Inr c' \<and> checkpoint_position X c' = checkpoint_position X c \<longrightarrow>
            (\<exists>D. update_checkpoint_with X st cid update = Inr (True, st\<lparr>store_db := D\<rparr>) \<and> checkpoints_ok X D
               \<and> checkpoint_list D = map (\<lambda>x. if fst x = cid then (cid, c') else x) xs)))"
proof (intro conjI impI)
  have st: "writable X st" and txn: "store_txn st \<noteq> None" using assms by simp_all
  show "sorted (map ckey xs)" "distinct (map ckey xs)" using checkpoint_list_sorted [OF assms(2)] assms(3) by simp_all
  show "checkpoint_count st = Inr (length xs)" using checkpoint_count_ok [OF assms(2) txn] assms(3) by simp
  show "min_checkpoint_id st = Inr (if xs = [] then None else Some (fst (hd xs)))"
    "max_checkpoint_id st = Inr (if xs = [] then None else Some (fst (last xs)))"
    using min_max_checkpoint_id_ok [OF assms(2) txn] assms(3) by simp_all
  show "get_checkpoint_at_depth st n = Inr (if n < length xs then Some (rev xs ! n) else None)"
    using get_checkpoint_at_depth_ok [OF assms(2) txn] assms(3) by simp
  show "get_checkpoint X st cid = Inr (Some c) \<longleftrightarrow> (cid, c) \<in> set xs"
    using get_checkpoint_ok [OF assms(2) txn] assms(3) by simp
  show "\<exists>D. add_checkpoint X st cid c = Inr ((), st\<lparr>store_db := D\<rparr>) \<and> checkpoints_ok X D
      \<and> checkpoint_list D = insort_key ckey (cid, c) xs" if "fresh_checkpoint X st cid c"
    using add_checkpoint_fresh [OF st that] record_checkpoint_ok [OF assms(2)] that assms(3)
    by (auto simp: fresh_checkpoint_def)
next
  have st: "writable X st" using assms by simp
  assume "(cid, c) \<in> set xs"
  then have c: "(cid, c) \<in> set (checkpoint_list (store_db st))" using assms(3) by simp
  show "\<exists>D. remove_checkpoint X st cid = Inr ((), st\<lparr>store_db := D\<rparr>) \<and> checkpoints_ok X D
      \<and> checkpoint_list D = filter (\<lambda>x. fst x \<noteq> cid) xs"
    using remove_checkpoint_ok [OF st c] assms(3) by simp
  show "\<exists>D. truncate_checkpoints_retaining X st cid = Inr ((), st\<lparr>store_db := D\<rparr>) \<and> checkpoints_ok X D
      \<and> checkpoint_list D = filter (\<lambda>x. ckey x \<le> (cid_pos cid, cid_seq cid)) xs"
    using truncate_checkpoints_retaining_ok [OF st c] assms(3) by blast
  show "\<exists>D. update_checkpoint_with X st cid update = Inr (True, st\<lparr>store_db := D\<rparr>) \<and> checkpoints_ok X D
      \<and> checkpoint_list D = map (\<lambda>x. if fst x = cid then (cid, c') else x) xs"
    if "update c = Inr c' \<and> checkpoint_position X c' = checkpoint_position X c"
    using update_checkpoint_with_ok [OF st c] that assms(3) by blast
qed

text \<open>The tables are determined by the list.\<close>

lemma shard_tree_db_eqI:
  assumes "checkpoints_ok X D" "checkpoints_ok X D'" and "checkpoint_list D' = checkpoint_list D"
    and "cap D' = cap D" "shards D' = shards D"
  shows "D' = D"
proof -
  have c: "fmlookup (checkpoints D') tip = Some (c, seq) \<longleftrightarrow> fmlookup (checkpoints D) tip = Some (c, seq)" for tip c seq
    using checkpoint_list_set [OF assms(1), of "\<lparr>cid_pos = checkpoint_position X c, cid_seq = seq, cid_tip = tip\<rparr>" c]
      checkpoint_list_set [OF assms(2), of "\<lparr>cid_pos = checkpoint_position X c, cid_seq = seq, cid_tip = tip\<rparr>" c]
    by (simp add: assms(3))
  then have "checkpoints D' = checkpoints D" by (metis fmap_ext option.exhaust surj_pair)
  moreover have "fmlookup (checkpoint_seq_to_tip D') seq = Some tip \<longleftrightarrow> fmlookup (checkpoint_seq_to_tip D) seq = Some tip"
    for seq tip
    using c checkpoints_okD(1,3) [OF assms(1)] checkpoints_okD(1,3) [OF assms(2)] by blast
  then have "checkpoint_seq_to_tip D' = checkpoint_seq_to_tip D" by (metis fmap_ext option.exhaust)
  moreover have "position_entries D' = position_entries D"
    using checkpoint_list_entries(2) [OF assms(1)] checkpoint_list_entries(2) [OF assms(2)] assms(3) by simp
  then have "position_to_checkpoint_seq D' = position_to_checkpoint_seq D"
    by (metis position_entries_sorted(3) fset_inject)
  ultimately show ?thesis using assms(4,5) by (intro shard_tree_db.equality) auto
qed

text \<open>
  Connecting a block takes a checkpoint with the next sequence number at the end of the tree, and
  disconnecting it truncates to the checkpoint of the previous tip. The two cancel: the tables are
  afterwards what they were, given that the new block has no checkpoint yet and the tree did not shrink.
\<close>

theorem checkpoint_truncate_roundtrip:
  assumes "store_txn st = Some RwTxn" and "checkpoints_ok X (store_db st)"
    and "next_checkpoint_seq (store_db st) = Inr seq" and "checkpoint_position X c = pos"
    and "fmlookup (checkpoints (store_db st)) (Some block) = None"
    and "max_checkpoint_id st = Inr (Some prev)" and "cid_pos prev \<le> pos"
  shows "\<exists>st'. add_checkpoint X st \<lparr>cid_pos = pos, cid_seq = seq, cid_tip = Some block\<rparr> c = Inr ((), st')
    \<and> checkpoints_ok X (store_db st')
    \<and> max_checkpoint_id st' = Inr (Some \<lparr>cid_pos = pos, cid_seq = seq, cid_tip = Some block\<rparr>)
    \<and> truncate_checkpoints_retaining X st' prev = Inr ((), st)"
proof -
  let ?i = "\<lparr>cid_pos = pos, cid_seq = seq, cid_tip = Some block\<rparr>" and ?xs = "checkpoint_list (store_db st)"
  let ?st = "st\<lparr>store_db := record_checkpoint ?i c (store_db st)\<rparr>"
  have st: "writable X st" using assms(1,2) by simp
  note new = next_checkpoint_seq_fresh [OF assms(3)]
  have fresh: "fresh_checkpoint X st ?i c" using assms(4,5) new(1) by (simp add: fresh_checkpoint_def)
  from min_max_checkpoint_id_ok(2) [OF assms(2)] assms(1,6) have
    prev: "?xs \<noteq> []" "fst (last ?xs) = prev" by (auto split: if_splits)
  have less: "ckey x < (pos, seq)" if x: "x \<in> set ?xs" for x
  proof -
    have "cid_seq (fst x) < seq"
      using x new(2) checkpoints_okD(1) [OF assms(2)] checkpoint_list_set [OF assms(2), of "fst x" "snd x"] by auto
    moreover have "ckey x \<le> ckey (last ?xs)"
      using x prev(1) checkpoint_list_sorted(1) [OF assms(2)]
      by (cases ?xs rule: rev_cases) (auto simp: sorted_append)
    ultimately show ?thesis using prev(2) assms(7) by (auto simp: less_prod_def' less_eq_prod_def)
  qed
  have add: "add_checkpoint X st ?i c = Inr ((), ?st)" by (rule add_checkpoint_fresh [OF st fresh])
  have at: "get_checkpoint_at_depth st 0 = Inr (Some (prev, snd (last ?xs)))"
    using get_checkpoint_at_depth_ok [OF assms(2), of 0] prev assms(1)
    by (auto simp: rev_nth last_conv_nth prod_eq_iff)
  from cps.add_newest [OF st fresh] less add have
    ok: "checkpoints_ok X (store_db ?st)" and list: "checkpoint_list (store_db ?st) = ?xs @ [(?i, c)]" by auto
  have max: "max_checkpoint_id ?st = Inr (Some ?i)"
    using min_max_checkpoint_id_ok(2) [OF ok] assms(1) list by simp
  have "last ?xs = (prev, snd (last ?xs))" using prev(2) by (simp add: prod_eq_iff)
  then have "(prev, snd (last ?xs)) \<in> set ?xs" using prev(1) by (metis last_in_set)
  then have "writable X ?st" "(prev, snd (last ?xs)) \<in> set (checkpoint_list (store_db ?st))"
    using assms(1) ok list by simp_all
  from truncate_checkpoints_retaining_ok [OF this] obtain D where
    D: "truncate_checkpoints_retaining X ?st prev = Inr ((), ?st\<lparr>store_db := D\<rparr>)" "checkpoints_ok X D"
      "cap D = cap (store_db st)" "shards D = shards (store_db st)"
    by (auto simp: record_checkpoint_def)
  from cps.checkpoint_and_back [OF st fresh _ at, of ?st] less add D(1) have "checkpoint_list D = ?xs" by auto
  from shard_tree_db_eqI [OF assms(2) D(2) this D(3,4)] D(1) have
    "truncate_checkpoints_retaining X ?st prev = Inr ((), st)" by simp
  with add ok max show ?thesis by blast
qed

section \<open>The shards\<close>

lemma uint_not: "uint (not w :: u8) = 255 - uint w"
proof -
  have b: "0 \<le> uint w" "uint w < 256" using unsigned_less [of w, where ?'a = int] by simp_all
  have "uint (not w) = (- uint w - 1) mod 256"
    by (simp add: not_eq_complement uint_word_ariths mod_simps)
  also have "\<dots> = (- uint w - 1 + 256) mod 256" by (simp only: mod_add_self2)
  finally show ?thesis using b by simp
qed

lemma address_key_less [simp]:
  "address_key (l, i) < address_key (l', i') \<longleftrightarrow> l' < l \<or> l = l' \<and> i < i'"
proof -
  have "not l < not l' \<longleftrightarrow> l' < l" "not l = not l' \<longleftrightarrow> l = l'"
    by (simp_all add: word_less_alt uint_not)
  then show ?thesis
    using be_bytes_less [OF unat_bytes(1) unat_bytes(1)] by (auto simp: address_key_def word_less_nat_alt)
qed

lemma address_of_key [simp]: "address_of_key (address_key a) = Some a"
  using unat_bytes(1) [of "snd a"]
  by (cases a) (simp add: address_key_def be_bytes_def be_nat_def le_nat_le_bytes)

lemma position_of_key [simp]: "position_of_key (position_key p) = Some p"
  using unat_bytes(1) [of p]
  by (simp add: position_key_def position_of_key_def be_bytes_def be_nat_def le_nat_le_bytes)

lemma set_shard_keys: "set (shard_keys D) = fset (fmdom (shards D))"
  by (simp add: shard_keys_def)

lemma last_shard_key:
  assumes "a \<in> set (shard_keys D)"
  shows "fst (last (shard_keys D)) < fst a \<or> fst (last (shard_keys D)) = fst a \<and> snd a \<le> snd (last (shard_keys D))"
proof -
  let ?l = "last (shard_keys D)"
  have "sorted (map address_key (shard_keys D))" by (simp add: shard_keys_def)
  with assms have "address_key a \<le> address_key ?l"
    by (cases "shard_keys D" rule: rev_cases) (auto simp: sorted_append)
  then have "\<not> address_key ?l < address_key a" by simp
  then show ?thesis by (cases a; cases ?l) auto
qed

text \<open>
  The encoded address of a shard decodes to the address. In the order of the encoded keys the last shard is
  the one at the lowest level with the highest index, so \<open>last_shard\<close> returns the tip of the tree; and
  truncation removes exactly the shards from the given index on.
\<close>

theorem shard_tip_correct:
  assumes "store_txn st = Some RwTxn"
  shows "address_of_key (address_key a) = Some a
    \<and> (shards (store_db st) = fmempty \<longrightarrow> last_shard X st = Inr None)
    \<and> (fmlookup (shards (store_db st)) a = Some tree
        \<and> (\<forall>b. has_key (shards (store_db st)) b \<longrightarrow> fst a < fst b \<or> fst a = fst b \<and> snd b \<le> snd a)
       \<longrightarrow> last_shard X st = map_ok Some (locate X a tree))
    \<and> (\<exists>D. truncate_shards st n = Inr ((), st\<lparr>store_db := D\<rparr>)
        \<and> shards D = fmfilter (\<lambda>b. snd b < n) (shards (store_db st)))"
proof (intro conjI impI)
  let ?D = "store_db st"
  have txn: "store_txn st \<noteq> None" using assms by simp
  show "address_of_key (address_key a) = Some a" by simp
  show "last_shard X st = Inr None" if "shards ?D = fmempty"
    using that txn by (simp add: last_shard_def read_with_some shard_keys_def Let_def sorted_list_of_fset.rep_eq)
  show "last_shard X st = map_ok Some (locate X a tree)"
    if a: "fmlookup (shards ?D) a = Some tree
      \<and> (\<forall>b. has_key (shards ?D) b \<longrightarrow> fst a < fst b \<or> fst a = fst b \<and> snd b \<le> snd a)"
  proof -
    from a have in_keys: "a \<in> set (shard_keys ?D)" by (simp add: set_shard_keys fmdomI)
    then have ne: "shard_keys ?D \<noteq> []" by auto
    then have "last (shard_keys ?D) \<in> fset (fmdom (shards ?D))" using set_shard_keys last_in_set by blast
    with a last_shard_key [OF in_keys] have "last (shard_keys ?D) = a" by (fastforce simp: prod_eq_iff)
    with a ne txn show ?thesis by (simp add: last_shard_def read_with_some Let_def)
  qed
  have "fold (\<lambda>addr m. if n \<le> snd addr then fmdrop addr m else m) as m
      = fmfilter (\<lambda>b. b \<notin> set as \<or> snd b < n) m" for as :: "shard_address list" and m :: "(shard_address, prunable_tree) db"
    by (induction as arbitrary: m) (auto intro!: fmap_ext simp: fmlookup_filter)
  moreover have "fmfilter (\<lambda>b. b \<notin> set (shard_keys ?D) \<or> snd b < n) (shards ?D) = fmfilter (\<lambda>b. snd b < n) (shards ?D)"
    by (rule fmap_ext) (auto simp: set_shard_keys fmdom_notD)
  ultimately show "\<exists>D. truncate_shards st n = Inr ((), st\<lparr>store_db := D\<rparr>)
      \<and> shards D = fmfilter (\<lambda>b. snd b < n) (shards ?D)"
    using assms by (intro exI [of _ "?D\<lparr>shards := fmfilter (\<lambda>b. snd b < n) (shards ?D)\<rparr>"])
      (simp add: truncate_shards_def write_with_rw)
qed

section \<open>Examples\<close>

definition example_shardtree :: shardtree_ext where
  "example_shardtree =
    \<lparr>checkpoint_position = (\<lambda>c. case tree_state c of TreeEmpty \<Rightarrow> None | AtPosition p \<Rightarrow> Some p),
     checkpoint_tree_empty = \<lparr>tree_state = TreeEmpty, marks_removed = {||}\<rparr>,
     lpt_from_parts = (\<lambda>addr tree. Inr \<lparr>root_addr = addr, root_tree = tree\<rparr>)\<rparr>"

definition no_shard_dbs :: shard_tree_db where
  "no_shard_dbs = \<lparr>cap = None, checkpoint_seq_to_tip = fmempty, checkpoints = fmempty,
     position_to_checkpoint_seq = {||}, shards = fmempty\<rparr>"

definition new_store :: shard_tree_store where
  "new_store = \<lparr>store_txn = Some RwTxn, store_db = shard_tree_db_new example_shardtree no_shard_dbs\<rparr>"

definition checkpoint_at :: "position \<Rightarrow> checkpoint" where
  "checkpoint_at p = \<lparr>tree_state = AtPosition p, marks_removed = {||}\<rparr>"

lemma new_store_ok: "store_txn new_store = Some RwTxn" "checkpoints_ok example_shardtree (store_db new_store)"
  by (auto simp: new_store_def shard_tree_db_new_def no_shard_dbs_def checkpoints_ok_def example_shardtree_def split: if_splits)

lemma new_store_list:
  "checkpoint_list (store_db new_store)
     = [(\<lparr>cid_pos = None, cid_seq = 0, cid_tip = None\<rparr>, \<lparr>tree_state = TreeEmpty, marks_removed = {||}\<rparr>)]"
  by (simp add: new_store_def shard_tree_db_new_def no_shard_dbs_def example_shardtree_def checkpoint_list_def
      position_entries_eq sorted_list_of_fset.rep_eq entry_checkpoint_def id_of_entry_def)

lemma new_store_next: "next_checkpoint_seq (store_db new_store) = Inr 1"
  by (simp add: next_checkpoint_seq_def max_checkpoint_seq_eq new_store_def shard_tree_db_new_def
      no_shard_dbs_def example_shardtree_def add_u32_def checked_add_def)

theorem shard_store_refines_witness:
  "checkpoint_count new_store = Inr 1
   \<and> get_checkpoint_at_depth new_store 0 = Inr (Some (\<lparr>cid_pos = None, cid_seq = 0, cid_tip = None\<rparr>,
       \<lparr>tree_state = TreeEmpty, marks_removed = {||}\<rparr>))
   \<and> (\<exists>D. add_checkpoint example_shardtree new_store
         \<lparr>cid_pos = Some 4, cid_seq = 1, cid_tip = Some (BlockHash 7)\<rparr> (checkpoint_at 4)
           = Inr ((), new_store\<lparr>store_db := D\<rparr>) \<and> checkpoints_ok example_shardtree D
       \<and> map fst (checkpoint_list D) = [\<lparr>cid_pos = None, cid_seq = 0, cid_tip = None\<rparr>,
           \<lparr>cid_pos = Some 4, cid_seq = 1, cid_tip = Some (BlockHash 7)\<rparr>])"
proof -
  let ?i = "\<lparr>cid_pos = Some 4, cid_seq = 1, cid_tip = Some (BlockHash 7)\<rparr>"
  note r = shard_store_refines [OF new_store_ok new_store_list [symmetric]]
  have "fresh_checkpoint example_shardtree new_store ?i (checkpoint_at 4)"
    by (simp add: fresh_checkpoint_def new_store_def shard_tree_db_new_def no_shard_dbs_def
        example_shardtree_def checkpoint_at_def)
  with r [where n = 0 and cid = ?i and c = "checkpoint_at 4" and update = Inr] show ?thesis by force
qed

theorem checkpoint_truncate_roundtrip_witness:
  "\<exists>st'. add_checkpoint example_shardtree new_store
      \<lparr>cid_pos = Some 4, cid_seq = 1, cid_tip = Some (BlockHash 7)\<rparr> (checkpoint_at 4) = Inr ((), st')
    \<and> truncate_checkpoints_retaining example_shardtree st' \<lparr>cid_pos = None, cid_seq = 0, cid_tip = None\<rparr>
      = Inr ((), new_store)"
proof -
  have "max_checkpoint_id new_store = Inr (Some \<lparr>cid_pos = None, cid_seq = 0, cid_tip = None\<rparr>)"
    using min_max_checkpoint_id_ok(2) [OF new_store_ok(2)] new_store_ok(1) new_store_list by simp
  moreover have "checkpoint_position example_shardtree (checkpoint_at 4) = Some 4"
    by (simp add: example_shardtree_def checkpoint_at_def)
  moreover have "fmlookup (checkpoints (store_db new_store)) (Some (BlockHash 7)) = None"
    by (simp add: new_store_def shard_tree_db_new_def no_shard_dbs_def)
  ultimately show ?thesis
    using checkpoint_truncate_roundtrip [OF new_store_ok new_store_next, of "checkpoint_at 4" "Some 4" "BlockHash 7"]
    by auto
qed

text \<open>Two shards at level 2 and one at level 3: the tip is the last one at level 2.\<close>

theorem shard_tip_correct_witness:
  "last_shard example_shardtree
     (new_store\<lparr>store_db := no_shard_dbs\<lparr>shards :=
        fmupd (2, 1) TreeNil (fmupd (2, 0) TreeNil (fmupd (3, 5) TreeNil fmempty))\<rparr>\<rparr>)
   = Inr (Some \<lparr>root_addr = (2, 1), root_tree = TreeNil\<rparr>)"
proof -
  let ?st = "new_store\<lparr>store_db := no_shard_dbs\<lparr>shards :=
    fmupd (2, 1) TreeNil (fmupd (2, 0) TreeNil (fmupd (3, 5) TreeNil fmempty))\<rparr>\<rparr>"
  have "store_txn ?st = Some RwTxn" by (simp add: new_store_def)
  moreover have "fmlookup (shards (store_db ?st)) (2, 1) = Some TreeNil
      \<and> (\<forall>b. has_key (shards (store_db ?st)) b \<longrightarrow> fst (2 :: 8 word, 1 :: 64 word) < fst b
          \<or> fst (2 :: 8 word, 1 :: 64 word) = fst b \<and> snd b \<le> snd (2 :: 8 word, 1 :: 64 word))"
    by (auto split: if_splits)
  ultimately have "last_shard example_shardtree ?st = map_ok Some (locate example_shardtree (2, 1) TreeNil)"
    using shard_tip_correct [of ?st "(2, 1)" example_shardtree TreeNil 0] by blast
  then show ?thesis by (simp add: locate_def example_shardtree_def)
qed

end
