(* ===== verification/Wallet.thy ===== *)
theory Wallet
  imports Shard_Tree State
begin

text \<open>
  The wallet, \<open>lib/wallet/mod.rs\<close>, with \<open>sign\<close> and \<open>sign_orchard\<close> of \<open>lib/authorization.rs\<close> and
  the bundle builder of \<open>lib/types/orchard/mod.rs\<close>: seed and addresses, selection of coins and
  notes, creation of transactions, and the databases of confirmed and unconfirmed coins and notes.

  Key derivation, encryption of notes, the commitment tree on top of the store, the Orchard
  builder, the sort of the crate \<open>rayon\<close> and random choices are fields of the record \<open>wallet_ext\<close>.
\<close>

section \<open>Data\<close>

text \<open>\<open>orchard::Note\<close>: its value, the rest opaque; \<open>orchard::Address\<close> is opaque.\<close>

record orchard_note =
  note_value :: nat
  note_data :: hash

datatype orchard_address = OrchardAddress hash

datatype child_number = Hardened nat | Normal nat

datatype wallet_error =
    AddressDoesNotExist transparent_address
  | WAmountOverflow
  | WAmountUnderflow
  | WAuthorization
  | Bip32
  | WalletDb
  | NoIndex transparent_address
  | NoSeed
  | NotEnoughFunds
  | WNoUtxo
  | OrchardBalance
  | OrchardBuilder
  | OrchardOutput
  | OrchardShardTree
  | OrchardShardTreeTruncate "block_hash option"
  | OrchardShardTreeStore store_error
  | OrchardSpend
  | ParseMnemonic
  | SeedAlreadyExists
  | WUtreexo
  | Zip32

type_synonym 'a wallet_result = "(wallet_error, 'a) result"

type_synonym note_position = "orchard_note \<times> position"

record wallet =
  seed :: "u8 list option"
  address_to_index :: "(transparent_address, nat) db"
  index_to_address :: "(nat, transparent_address) db"
  orchard_address_to_index :: "(orchard_address, nat) db"
  orchard_index_to_address :: "(nat, orchard_address) db"
  orchard_memos :: "(txid \<times> nat, u8 list) db"
  orchard_note_commitments :: shard_tree_db
  orchard_notes :: "(nullifier, note_position) db"
  orchard_notes_unconfirmed :: "(nullifier, orchard_note) db"
  orchard_spent_notes :: "(txid \<times> nat, note_position) db"
  orchard_spent_notes_unconfirmed :: "(txid \<times> nat, note_position) db"
  w_utxos :: "(out_point, tx_output) db"
  w_utxos_unconfirmed :: "(out_point, tx_output) db"
  w_stxos :: "(out_point, spent_output) db"
  w_stxos_unconfirmed :: "(out_point, spent_output) db"
  w_tip :: "block_hash option"

text \<open>
  Code of other crates. The tree is a \<open>ShardTree\<close> over a cached store: it is loaded from the
  databases of the store and flushed to them. A bundle that is being built is of type \<open>'b\<close>.
\<close>

record ('tree, 'path, 'b) wallet_ext =
  derive_priv :: "u8 list \<Rightarrow> child_number list \<Rightarrow> hash wallet_result"
  from_zip32_seed :: "hash \<Rightarrow> hash wallet_result"
  verifying_key_of :: "hash \<Rightarrow> hash"
  sign_bytes :: "hash \<Rightarrow> u8 list \<Rightarrow> 512 word"
  mnemonic_seed :: "string \<Rightarrow> u8 list option"
  address_at :: "hash \<Rightarrow> nat \<Rightarrow> orchard_address"
  note_nullifier :: "hash \<Rightarrow> orchard_note \<Rightarrow> nullifier"
  decrypt_outputs :: "hash \<Rightarrow> orchard_bundle \<Rightarrow> (nat \<times> orchard_note \<times> u8 list) list"
  recover_outputs :: "hash \<Rightarrow> orchard_bundle \<Rightarrow> (nat \<times> orchard_note) list"
  tree_load :: "shard_tree_db \<Rightarrow> 'tree store_result"
  tree_flush :: "'tree \<Rightarrow> shard_tree_db \<Rightarrow> shard_tree_db store_result"
  tree_max_leaf_position :: "'tree \<Rightarrow> position option option"
  tree_append :: "'tree \<Rightarrow> cmx \<Rightarrow> bool \<Rightarrow> 'tree option"
  tree_checkpoint :: "'tree \<Rightarrow> checkpoint_id \<Rightarrow> 'tree option"
  tree_truncate_to_checkpoint :: "'tree \<Rightarrow> checkpoint_id \<Rightarrow> ('tree \<times> bool) option"
  tree_root_at_checkpoint_depth :: "'tree \<Rightarrow> nat \<Rightarrow> anchor option option"
  tree_witness_at_checkpoint_depth :: "'tree \<Rightarrow> position \<Rightarrow> nat \<Rightarrow> 'path option option"
  sort_coins :: "(out_point \<times> tx_output) list \<Rightarrow> (out_point \<times> tx_output) list"
  shuffle :: "nullifier list \<Rightarrow> nullifier list"
  choose_one :: "nullifier list \<Rightarrow> nullifier option"
  nullifier_rank :: "nullifier \<Rightarrow> nat"
  dummy_address :: orchard_address
  b_new :: "bool \<Rightarrow> bool \<Rightarrow> anchor \<Rightarrow> 'b"
  b_add_spend :: "'b \<Rightarrow> hash \<Rightarrow> orchard_note \<Rightarrow> 'path \<Rightarrow> 'b option"
  b_add_output :: "'b \<Rightarrow> orchard_address \<Rightarrow> nat \<Rightarrow> u8 list \<Rightarrow> 'b option"
  b_spends :: "'b \<Rightarrow> nat"
  b_outputs :: "'b \<Rightarrow> nat"
  b_value_balance :: "'b \<Rightarrow> int option"
  b_build :: "'b \<Rightarrow> orchard_bundle option option"
  create_proof :: "orchard_bundle \<Rightarrow> orchard_bundle option"
  apply_signatures :: "orchard_bundle \<Rightarrow> hash \<Rightarrow> hash \<Rightarrow> orchard_bundle option"

definition ANCHOR_CHECKPOINT_DEPTH :: nat where
  "ANCHOR_CHECKPOINT_DEPTH = 3"

text \<open>The last entry of a database keyed by \<open>U32<BigEndian>\<close>: bytes and numbers have the same order.\<close>

definition last_entry :: "(nat, 'v) db \<Rightarrow> (nat \<times> 'v) option" where
  "last_entry m = (case rev (sorted_list_of_fmap m) of [] \<Rightarrow> None | e # _ \<Rightarrow> Some e)"

definition amount_add :: "nat \<Rightarrow> nat \<Rightarrow> nat wallet_result" where
  "amount_add a b = ok_or WAmountOverflow (checked_add 64 a b)"

text \<open>\<open>-\<close> and \<open>+\<close> on amounts panic outside their range.\<close>

definition amount_minus :: "nat \<Rightarrow> nat \<Rightarrow> nat wallet_result" where
  "amount_minus a b = expect (checked_sub a b)"

section \<open>Seed, keys and addresses\<close>

definition get_master_seed :: "wallet \<Rightarrow> u8 list wallet_result" where
  "get_master_seed W = ok_or NoSeed (seed W)"

definition get_orchard_spending_key ::
  "('tree, 'path, 'b) wallet_ext \<Rightarrow> wallet \<Rightarrow> hash wallet_result" where
  "get_orchard_spending_key X W =
     and_then (get_master_seed W) (\<lambda>sd.
     and_then (derive_priv X sd [Hardened 2, Hardened 0, Normal 0]) (from_zip32_seed X))"

definition get_tx_signing_key ::
  "('tree, 'path, 'b) wallet_ext \<Rightarrow> wallet \<Rightarrow> nat \<Rightarrow> hash wallet_result" where
  "get_tx_signing_key X W index =
     and_then (get_master_seed W) (\<lambda>sd. derive_priv X sd [Hardened 0, Normal index])"

definition next_index :: "(nat, 'v) db \<Rightarrow> nat wallet_result" where
  "next_index m = (case last_entry m of Some (idx, _) \<Rightarrow> add_u32 idx 1 | None \<Rightarrow> Inr 0)"

definition get_new_orchard_address ::
  "('tree, 'path, 'b) wallet_ext \<Rightarrow> wallet \<Rightarrow> (wallet \<times> orchard_address) wallet_result" where
  "get_new_orchard_address X W =
     and_then (next_index (orchard_index_to_address W)) (\<lambda>index.
     and_then (get_orchard_spending_key X W) (\<lambda>key.
     let addr = address_at X key index
     in Inr (W\<lparr>orchard_index_to_address := fmupd index addr (orchard_index_to_address W),
               orchard_address_to_index := fmupd addr index (orchard_address_to_index W)\<rparr>, addr)))"

definition get_new_transparent_address ::
  "('acc, 'fr, 'pf) ext \<Rightarrow> ('tree, 'path, 'b) wallet_ext \<Rightarrow> wallet
    \<Rightarrow> (wallet \<times> transparent_address) wallet_result" where
  "get_new_transparent_address E X W =
     and_then (next_index (index_to_address W)) (\<lambda>index.
     and_then (get_tx_signing_key X W index) (\<lambda>key.
     let addr = key_address E (verifying_key_of X key)
     in Inr (W\<lparr>index_to_address := fmupd index addr (index_to_address W),
               address_to_index := fmupd addr index (address_to_index W)\<rparr>, addr)))"

definition overwrite_seed :: "wallet \<Rightarrow> u8 list \<Rightarrow> wallet" where
  "overwrite_seed W s =
     W\<lparr>seed := Some s, address_to_index := fmempty, index_to_address := fmempty,
       w_utxos := fmempty, w_utxos_unconfirmed := fmempty,
       w_stxos := fmempty, w_stxos_unconfirmed := fmempty\<rparr>"

definition set_seed :: "wallet \<Rightarrow> u8 list \<Rightarrow> wallet wallet_result" where
  "set_seed W s =
     (case seed W of
        Some current_seed \<Rightarrow> if current_seed = s then Inr W else Inl (Err SeedAlreadyExists)
      | None \<Rightarrow> Inr (overwrite_seed W s))"

definition set_seed_from_mnemonic ::
  "('tree, 'path, 'b) wallet_ext \<Rightarrow> wallet \<Rightarrow> string \<Rightarrow> wallet wallet_result" where
  "set_seed_from_mnemonic X W phrase =
     and_then (ok_or ParseMnemonic (mnemonic_seed X phrase)) (set_seed W)"

definition get_or_generate_last_orchard_address ::
  "('tree, 'path, 'b) wallet_ext \<Rightarrow> wallet \<Rightarrow> (wallet \<times> orchard_address) wallet_result" where
  "get_or_generate_last_orchard_address X W =
     (case last_entry (orchard_index_to_address W) of
        Some (_, addr) \<Rightarrow> Inr (W, addr) | None \<Rightarrow> get_new_orchard_address X W)"

definition get_or_generate_last_transparent_address ::
  "('acc, 'fr, 'pf) ext \<Rightarrow> ('tree, 'path, 'b) wallet_ext \<Rightarrow> wallet
    \<Rightarrow> (wallet \<times> transparent_address) wallet_result" where
  "get_or_generate_last_transparent_address E X W =
     (case last_entry (index_to_address W) of
        Some (_, addr) \<Rightarrow> Inr (W, addr) | None \<Rightarrow> get_new_transparent_address E X W)"

definition get_num_addresses :: "wallet \<Rightarrow> nat" where
  "get_num_addresses W = (case last_entry (index_to_address W) of Some (idx, _) \<Rightarrow> idx | None \<Rightarrow> 0)"

section \<open>Selection of coins\<close>

fun deepest_available_anchor_depth :: "nat \<Rightarrow> (nat \<Rightarrow> 'e + bool) \<Rightarrow> 'e + nat option" where
  "deepest_available_anchor_depth depth has_checkpoint =
     and_then (has_checkpoint depth) (\<lambda>ok.
     if ok then Inr (Some depth)
     else if depth = 0 then Inr None
     else deepest_available_anchor_depth (depth - 1) has_checkpoint)"

declare deepest_available_anchor_depth.simps [simp del]

fun select_transparent_loop ::
  "nat \<Rightarrow> nat \<Rightarrow> (out_point \<times> tx_output) list \<Rightarrow> (out_point \<times> tx_output) list
    \<Rightarrow> (nat \<times> (out_point \<times> tx_output) list) wallet_result" where
  "select_transparent_loop amount tot selected [] = Inr (tot, selected)"
| "select_transparent_loop amount tot selected ((op, out) # coins) =
     (if is_withdrawal (content out) then select_transparent_loop amount tot selected coins
      else if tot > amount then Inr (tot, selected)
      else and_then (amount_add tot (get_value out)) (\<lambda>tot.
        select_transparent_loop amount tot (selected @ [(op, out)]) coins))"

definition select_transparent_coins ::
  "('tree, 'path, 'b) wallet_ext \<Rightarrow> wallet \<Rightarrow> nat \<Rightarrow> (nat \<times> (out_point \<times> tx_output) list) wallet_result" where
  "select_transparent_coins X W amount =
     and_then (select_transparent_loop amount 0 [] (sort_coins X (sorted_list_of_fmap (w_utxos W)))) (\<lambda>(tot, selected).
     if tot < amount then Inl (Err NotEnoughFunds) else Inr (tot, selected))"

definition note_keys :: "(nullifier, note_position) db \<Rightarrow> nullifier list" where
  "note_keys m = map Nullifier (sorted_list_of_fset ((\<lambda>n. case n of Nullifier h \<Rightarrow> h) |`| fmdom m))"

text \<open>\<open>get_shard_tree\<close> and \<open>put_shard_tree\<close>.\<close>

definition get_shard_tree :: "('tree, 'path, 'b) wallet_ext \<Rightarrow> wallet \<Rightarrow> 'tree wallet_result" where
  "get_shard_tree X W = map_err OrchardShardTreeStore (tree_load X (orchard_note_commitments W))"

definition put_shard_tree :: "('tree, 'path, 'b) wallet_ext \<Rightarrow> wallet \<Rightarrow> 'tree \<Rightarrow> wallet wallet_result" where
  "put_shard_tree X W tree =
     map_ok (\<lambda>D. W\<lparr>orchard_note_commitments := D\<rparr>)
       (map_err OrchardShardTreeStore (tree_flush X tree (orchard_note_commitments W)))"

definition anchor_depth :: "('tree, 'path, 'b) wallet_ext \<Rightarrow> 'tree \<Rightarrow> nat option wallet_result" where
  "anchor_depth X tree =
     deepest_available_anchor_depth ANCHOR_CHECKPOINT_DEPTH
       (\<lambda>d. map_ok (\<lambda>r. r \<noteq> None) (ok_or OrchardShardTree (tree_root_at_checkpoint_depth X tree d)))"

definition root_at :: "('tree, 'path, 'b) wallet_ext \<Rightarrow> 'tree \<Rightarrow> nat \<Rightarrow> anchor wallet_result" where
  "root_at X tree d =
     and_then (ok_or OrchardShardTree (tree_root_at_checkpoint_depth X tree d)) expect"

fun select_shielded_loop ::
  "('tree, 'path, 'b) wallet_ext \<Rightarrow> wallet \<Rightarrow> 'tree \<Rightarrow> nat \<Rightarrow> nat \<Rightarrow> nat \<Rightarrow> (nullifier \<times> orchard_note \<times> 'path) list
    \<Rightarrow> nullifier list \<Rightarrow> (nat \<times> (nullifier \<times> orchard_note \<times> 'path) list) wallet_result" where
  "select_shielded_loop X W tree depth amount tot selected [] = Inr (tot, selected)"
| "select_shielded_loop X W tree depth amount tot selected (nf # nfs) =
     (if tot \<ge> amount then Inr (tot, selected)
      else and_then (ok_or WalletDb (fmlookup (orchard_notes W) nf)) (\<lambda>(n, pos).
        and_then (ok_or OrchardShardTree (tree_witness_at_checkpoint_depth X tree pos depth)) (\<lambda>path.
        case path of
          None \<Rightarrow> select_shielded_loop X W tree depth amount tot selected nfs
        | Some path \<Rightarrow> and_then (amount_add tot (note_value n)) (\<lambda>tot.
            select_shielded_loop X W tree depth amount tot (selected @ [(nf, n, path)]) nfs))))"

definition select_shielded_coins ::
  "('acc, 'fr, 'pf) ext \<Rightarrow> ('tree, 'path, 'b) wallet_ext \<Rightarrow> wallet \<Rightarrow> nat
    \<Rightarrow> (nat \<times> anchor \<times> (nullifier \<times> orchard_note \<times> 'path) list) wallet_result" where
  "select_shielded_coins E X W amount =
     (let nfs = shuffle X (note_keys (orchard_notes W))
      in and_then (get_shard_tree X W) (\<lambda>tree.
         and_then (anchor_depth X tree) (\<lambda>depth.
         and_then
           (case depth of
              Some d \<Rightarrow> root_at X tree d
            | None \<Rightarrow> map_ok (\<lambda>_. empty_anchor E) (assert_that (nfs = []))) (\<lambda>anchor.
         and_then (select_shielded_loop X W tree (case depth of Some d \<Rightarrow> d | None \<Rightarrow> 0) amount 0 [] nfs)
           (\<lambda>(tot, selected).
         if tot < amount then Inl (Err NotEnoughFunds)
         else Inr (tot, anchor, sort_key (\<lambda>x. nullifier_rank X (fst x)) selected))))))"

section \<open>Building and signing a bundle\<close>

fun add_dummy_outputs :: "('tree, 'path, 'b) wallet_ext \<Rightarrow> nat \<Rightarrow> 'b \<Rightarrow> 'b wallet_result" where
  "add_dummy_outputs X 0 b = Inr b"
| "add_dummy_outputs X (Suc n) b =
     and_then (ok_or OrchardBuilder (b_add_output X b (dummy_address X) 0 (replicate 512 0)))
       (add_dummy_outputs X n)"

definition builder_build ::
  "('tree, 'path, 'b) wallet_ext \<Rightarrow> 'b \<Rightarrow> orchard_bundle option wallet_result" where
  "builder_build X b =
     (let min_outputs_needed = max 2 (b_spends X b);
          dummy_outputs_needed = min_outputs_needed - b_outputs X b
      in and_then (add_dummy_outputs X dummy_outputs_needed b) (\<lambda>b.
         ok_or OrchardBuilder (b_build X b)))"

definition add_output ::
  "('tree, 'path, 'b) wallet_ext \<Rightarrow> orchard_address \<Rightarrow> nat \<Rightarrow> u8 list \<Rightarrow> 'b \<Rightarrow> 'b wallet_result" where
  "add_output X addr v memo b = ok_or OrchardOutput (b_add_output X b addr v memo)"

definition add_spend ::
  "('tree, 'path, 'b) wallet_ext \<Rightarrow> hash \<Rightarrow> 'b \<Rightarrow> nullifier \<times> orchard_note \<times> 'path \<Rightarrow> 'b wallet_result" where
  "add_spend X key b x = (case x of (_, n, path) \<Rightarrow> ok_or OrchardSpend (b_add_spend X b key n path))"

definition prove_bundle ::
  "('tree, 'path, 'b) wallet_ext \<Rightarrow> 'b \<Rightarrow> orchard_bundle option wallet_result" where
  "prove_bundle X b =
     and_then (builder_build X b) (\<lambda>bundle. case bundle of
        None \<Rightarrow> Inr None
      | Some bundle \<Rightarrow> map_ok Some (ok_or OrchardBuilder (create_proof X bundle)))"

definition sign_orchard ::
  "('acc, 'fr, 'pf) ext \<Rightarrow> ('tree, 'path, 'b) wallet_ext \<Rightarrow> hash \<Rightarrow> 'pf transaction
    \<Rightarrow> 'pf transaction wallet_result" where
  "sign_orchard E X key tx =
     (let sighash = (case tx_txid E tx of Txid h \<Rightarrow> h)
      in map_ok (\<lambda>bundle. tx\<lparr>orchard_bundle := bundle\<rparr>)
         (case orchard_bundle tx of
            None \<Rightarrow> Inr None
          | Some bundle \<Rightarrow> map_ok Some (ok_or OrchardBuilder (apply_signatures X bundle sighash key))))"

definition sign :: "('acc, 'fr, 'pf) ext \<Rightarrow> ('tree, 'path, 'b) wallet_ext \<Rightarrow> hash \<Rightarrow> 'pf transaction \<Rightarrow> 512 word" where
  "sign E X key tx = sign_bytes X key (ser_transaction E tx)"

section \<open>Transactions\<close>

definition inputs_of ::
  "('acc, 'fr, 'pf) ext \<Rightarrow> (out_point \<times> tx_output) list \<Rightarrow> (out_point \<times> hash) list" where
  "inputs_of E coins = map (\<lambda>(op, out). (op, pointed_output_hash E op out)) coins"

definition prove_inputs :: "('acc, 'fr, 'pf) ext \<Rightarrow> 'acc \<Rightarrow> (out_point \<times> hash) list \<Rightarrow> 'pf wallet_result" where
  "prove_inputs E acc ins = ok_or WUtreexo (forest_prove E acc (map snd ins))"

definition create_withdrawal ::
  "('acc, 'fr, 'pf) ext \<Rightarrow> ('tree, 'path, 'b) wallet_ext \<Rightarrow> wallet \<Rightarrow> 'acc \<Rightarrow> main_address \<Rightarrow> nat \<Rightarrow> nat \<Rightarrow> nat
    \<Rightarrow> (wallet \<times> 'pf transaction) wallet_result" where
  "create_withdrawal E X W acc main_addr amount main_fee fee =
     and_then (amount_add amount fee) (\<lambda>needed.
     and_then (amount_add needed main_fee) (\<lambda>needed.
     and_then (select_transparent_coins X W needed) (\<lambda>(tot, coins).
     and_then (amount_minus tot amount) (\<lambda>change.
     and_then (amount_minus change fee) (\<lambda>change.
     and_then (amount_minus change main_fee) (\<lambda>change.
     let ins = inputs_of E coins
     in and_then (prove_inputs E acc ins) (\<lambda>pf.
        and_then (get_new_transparent_address E X W) (\<lambda>(W, addr).
        and_then (get_new_transparent_address E X W) (\<lambda>(W, change_addr).
        Inr (W, \<lparr>inputs = ins, utreexo_proof = pf,
          outputs = [\<lparr>address = addr, content = Withdrawal amount main_fee main_addr\<rparr>,
                     \<lparr>address = change_addr, content = Value change\<rparr>],
          orchard_bundle = None\<rparr>))))))))))"

definition create_transaction ::
  "('acc, 'fr, 'pf) ext \<Rightarrow> ('tree, 'path, 'b) wallet_ext \<Rightarrow> wallet \<Rightarrow> 'acc \<Rightarrow> transparent_address \<Rightarrow> nat \<Rightarrow> nat
    \<Rightarrow> (wallet \<times> 'pf transaction) wallet_result" where
  "create_transaction E X W acc addr amount fee =
     and_then (amount_add amount fee) (\<lambda>needed.
     and_then (select_transparent_coins X W needed) (\<lambda>(tot, coins).
     and_then (amount_minus tot amount) (\<lambda>change.
     and_then (amount_minus change fee) (\<lambda>change.
     let ins = inputs_of E coins
     in and_then (prove_inputs E acc ins) (\<lambda>pf.
        and_then (get_new_transparent_address E X W) (\<lambda>(W, change_addr).
        Inr (W, \<lparr>inputs = ins, utreexo_proof = pf,
          outputs = [\<lparr>address = addr, content = Value amount\<rparr>,
                     \<lparr>address = change_addr, content = Value change\<rparr>],
          orchard_bundle = None\<rparr>)))))))"

definition create_shielded_transaction ::
  "('acc, 'fr, 'pf) ext \<Rightarrow> ('tree, 'path, 'b) wallet_ext \<Rightarrow> wallet \<Rightarrow> 'acc \<Rightarrow> orchard_address \<Rightarrow> nat \<Rightarrow> nat \<Rightarrow> u8 list
    \<Rightarrow> (wallet \<times> 'pf transaction) wallet_result" where
  "create_shielded_transaction E X W acc addr amount fee memo =
     and_then (get_new_orchard_address X W) (\<lambda>(W, change_addr).
     and_then (get_orchard_spending_key X W) (\<lambda>key.
     and_then (amount_add amount fee) (\<lambda>needed.
     and_then (select_shielded_coins E X W needed) (\<lambda>(value_in, anchor, coins).
     and_then (amount_minus value_in amount) (\<lambda>change.
     and_then (amount_minus change fee) (\<lambda>change.
     and_then (prove_inputs E acc []) (\<lambda>pf.
     and_then (add_output X addr amount memo (b_new X True False anchor)) (\<lambda>b.
     and_then (add_output X change_addr change (replicate 512 0) b) (\<lambda>b.
     and_then (fold_res (add_spend X key) b coins) (\<lambda>b.
     and_then (prove_bundle X b) (\<lambda>bundle.
     map_ok (Pair W)
       (sign_orchard E X key \<lparr>inputs = [], utreexo_proof = pf, outputs = [], orchard_bundle = bundle\<rparr>))))))))))))"

definition consolidation ::
  "('tree, 'path, 'b) wallet_ext \<Rightarrow> wallet \<Rightarrow> (anchor \<times> orchard_note \<times> 'path) option wallet_result" where
  "consolidation X W =
     (case choose_one X (note_keys (orchard_notes W)) of
        None \<Rightarrow> Inr None
      | Some nf \<Rightarrow>
          and_then (ok_or WalletDb (fmlookup (orchard_notes W) nf)) (\<lambda>(n, pos).
          and_then (get_shard_tree X W) (\<lambda>tree.
          and_then (anchor_depth X tree) (\<lambda>depth.
          case depth of
            None \<Rightarrow> Inr None
          | Some d \<Rightarrow>
              and_then (root_at X tree d) (\<lambda>root.
              map_ok (map_option (\<lambda>path. (root, n, path)))
                (ok_or OrchardShardTree (tree_witness_at_checkpoint_depth X tree pos d)))))))"

definition shield_builder ::
  "('acc, 'fr, 'pf) ext \<Rightarrow> ('tree, 'path, 'b) wallet_ext \<Rightarrow> hash \<Rightarrow> (anchor \<times> orchard_note \<times> 'path) option \<Rightarrow> 'b wallet_result"
where
  "shield_builder E X key cons =
     (case cons of
        Some (root, n, path) \<Rightarrow> ok_or OrchardSpend (b_add_spend X (b_new X True False root) key n path)
      | None \<Rightarrow> Inr (b_new X False True (empty_anchor E)))"

definition create_shield_transaction_from_utxos ::
  "('acc, 'fr, 'pf) ext \<Rightarrow> ('tree, 'path, 'b) wallet_ext \<Rightarrow> wallet \<Rightarrow> 'acc \<Rightarrow> nat \<Rightarrow> nat
    \<Rightarrow> (out_point \<times> tx_output) list \<Rightarrow> (wallet \<times> 'pf transaction) wallet_result" where
  "create_shield_transaction_from_utxos E X W acc shield_amount fee coins =
     and_then (fold_res (\<lambda>v (_, out). amount_add v (get_value out)) 0 coins) (\<lambda>value_in.
     and_then (ok_or NotEnoughFunds
         (Option.bind (checked_sub value_in shield_amount) (\<lambda>v. checked_sub v fee))) (\<lambda>change.
     let ins = inputs_of E coins
     in and_then (prove_inputs E acc ins) (\<lambda>pf.
        and_then
          (if change \<noteq> 0
           then map_ok (\<lambda>(W, addr). (W, [\<lparr>address = addr, content = Value change\<rparr>]))
             (get_new_transparent_address E X W)
           else Inr (W, [])) (\<lambda>(W, outs).
        and_then (get_new_orchard_address X W) (\<lambda>(W, shielded_addr).
        and_then (get_orchard_spending_key X W) (\<lambda>key.
        and_then (consolidation X W) (\<lambda>cons.
        and_then (shield_builder E X key cons) (\<lambda>b.
        and_then (ok_or OrchardBalance (b_value_balance X b)) (\<lambda>balance.
        and_then (expect (if balance < 0 then None else Some (nat balance))) (\<lambda>spent.
        and_then (expect (checked_add 64 shield_amount spent)) (\<lambda>output_note_value.
        and_then (add_output X shielded_addr output_note_value (replicate 512 0) b) (\<lambda>b.
        and_then (prove_bundle X b) (\<lambda>bundle.
        map_ok (Pair W)
          (sign_orchard E X key
             \<lparr>inputs = ins, utreexo_proof = pf, outputs = outs, orchard_bundle = bundle\<rparr>))))))))))))))"

definition create_shield_transaction ::
  "('acc, 'fr, 'pf) ext \<Rightarrow> ('tree, 'path, 'b) wallet_ext \<Rightarrow> wallet \<Rightarrow> 'acc \<Rightarrow> nat \<Rightarrow> nat
    \<Rightarrow> (wallet \<times> 'pf transaction) wallet_result" where
  "create_shield_transaction E X W acc shield_amount fee =
     and_then (amount_add shield_amount fee) (\<lambda>needed.
     and_then (select_transparent_coins X W needed) (\<lambda>(_, coins).
     create_shield_transaction_from_utxos E X W acc shield_amount fee coins))"

definition create_unshield_transaction ::
  "('acc, 'fr, 'pf) ext \<Rightarrow> ('tree, 'path, 'b) wallet_ext \<Rightarrow> wallet \<Rightarrow> 'acc \<Rightarrow> nat \<Rightarrow> nat
    \<Rightarrow> (wallet \<times> 'pf transaction) wallet_result" where
  "create_unshield_transaction E X W acc amount fee =
     and_then (prove_inputs E acc []) (\<lambda>pf.
     and_then (get_new_transparent_address E X W) (\<lambda>(W, addr).
     and_then (get_new_orchard_address X W) (\<lambda>(W, shielded_addr).
     and_then (get_orchard_spending_key X W) (\<lambda>key.
     and_then (amount_add amount fee) (\<lambda>needed.
     and_then (select_shielded_coins E X W needed) (\<lambda>(value_in, anchor, coins).
     and_then (amount_minus value_in amount) (\<lambda>change.
     and_then (amount_minus change fee) (\<lambda>change.
     and_then (add_output X shielded_addr change (replicate 512 0) (b_new X True True anchor)) (\<lambda>b.
     and_then (fold_res (add_spend X key) b coins) (\<lambda>b.
     and_then (prove_bundle X b) (\<lambda>bundle.
     map_ok (Pair W)
       (sign_orchard E X key \<lparr>inputs = [], utreexo_proof = pf,
          outputs = [\<lparr>address = addr, content = Value amount\<rparr>], orchard_bundle = bundle\<rparr>))))))))))))"

definition authorize_input ::
  "('acc, 'fr, 'pf) ext \<Rightarrow> ('tree, 'path, 'b) wallet_ext \<Rightarrow> wallet \<Rightarrow> 'pf transaction \<Rightarrow> out_point \<times> hash
    \<Rightarrow> authorization wallet_result" where
  "authorize_input E X W tx i =
     and_then (ok_or WNoUtxo (fmlookup (w_utxos W) (fst i))) (\<lambda>spent.
     and_then (ok_or (NoIndex (address spent)) (fmlookup (address_to_index W) (address spent))) (\<lambda>index.
     map_ok (\<lambda>key. \<lparr>verifying_key = verifying_key_of X key, signature = sign E X key tx\<rparr>)
       (get_tx_signing_key X W index)))"

definition authorize ::
  "('acc, 'fr, 'pf) ext \<Rightarrow> ('tree, 'path, 'b) wallet_ext \<Rightarrow> wallet \<Rightarrow> 'pf transaction
    \<Rightarrow> 'pf authorized_transaction wallet_result" where
  "authorize E X W tx =
     map_ok (\<lambda>auths. \<lparr>transaction = tx, authorizations = auths\<rparr>)
       (map_res (authorize_input E X W tx) (inputs tx))"

section \<open>Coins\<close>

definition delete_utxos :: "wallet \<Rightarrow> out_point list \<Rightarrow> wallet" where
  "delete_utxos W ops = W\<lparr>w_utxos := drops ops (w_utxos W)\<rparr>"

definition spend_utxo_confirmed :: "out_point \<times> in_point \<Rightarrow> wallet \<Rightarrow> wallet" where
  "spend_utxo_confirmed x W =
     (case x of (op, inpoint) \<Rightarrow>
        let found = (case fmlookup (w_utxos W) op of
              Some out \<Rightarrow> Some out
            | None \<Rightarrow> map_option so_output (fmlookup (w_stxos_unconfirmed W) op))
        in case found of
             None \<Rightarrow> W
           | Some out \<Rightarrow>
               W\<lparr>w_utxos := fmdrop op (w_utxos W),
                 w_stxos_unconfirmed := fmdrop op (w_stxos_unconfirmed W),
                 w_stxos := fmupd op \<lparr>so_output = out, so_inpoint = inpoint\<rparr> (w_stxos W)\<rparr>)"

definition spend_utxos_confirmed :: "wallet \<Rightarrow> (out_point \<times> in_point) list \<Rightarrow> wallet" where
  "spend_utxos_confirmed W spent = fold spend_utxo_confirmed spent W"

definition spend_utxo_unconfirmed :: "out_point \<times> in_point \<Rightarrow> wallet \<Rightarrow> wallet" where
  "spend_utxo_unconfirmed x W =
     (case x of (op, inpoint) \<Rightarrow>
        case fmlookup (w_utxos W) op of
          None \<Rightarrow> W
        | Some out \<Rightarrow>
            W\<lparr>w_utxos := fmdrop op (w_utxos W),
              w_stxos_unconfirmed :=
                fmupd op \<lparr>so_output = out, so_inpoint = inpoint\<rparr> (w_stxos_unconfirmed W)\<rparr>)"

definition spend_utxos_unconfirmed :: "wallet \<Rightarrow> (out_point \<times> in_point) list \<Rightarrow> wallet" where
  "spend_utxos_unconfirmed W spent = fold spend_utxo_unconfirmed spent W"

definition put_utxo_confirmed :: "out_point \<times> tx_output \<Rightarrow> wallet \<Rightarrow> wallet" where
  "put_utxo_confirmed x W =
     (case x of (op, out) \<Rightarrow>
        if has_key (address_to_index W) (address out)
        then let W = W\<lparr>w_utxos_unconfirmed := fmdrop op (w_utxos_unconfirmed W)\<rparr>
             in if has_key (w_stxos_unconfirmed W) op then W
                else W\<lparr>w_utxos := fmupd op out (w_utxos W)\<rparr>
        else W)"

definition put_utxos_confirmed :: "wallet \<Rightarrow> (out_point \<times> tx_output) list \<Rightarrow> wallet" where
  "put_utxos_confirmed W outs = fold put_utxo_confirmed outs W"

definition put_utxos_unconfirmed :: "wallet \<Rightarrow> (out_point \<times> tx_output) list \<Rightarrow> wallet" where
  "put_utxos_unconfirmed W outs =
     fold (\<lambda>(op, out) W.
       if has_key (address_to_index W) (address out)
       then W\<lparr>w_utxos_unconfirmed := fmupd op out (w_utxos_unconfirmed W)\<rparr> else W) outs W"

record balance =
  total_shielded :: nat
  total_transparent :: nat
  available_shielded :: nat
  available_transparent :: nat

definition add_all :: "nat list \<Rightarrow> nat \<Rightarrow> nat wallet_result" where
  "add_all vs tot = fold_res amount_add tot vs"

text \<open>The four loops add values to totals; an overflow in any of them is the same error.\<close>

definition get_balance :: "wallet \<Rightarrow> balance wallet_result" where
  "get_balance W =
     (let coins = map snd (sorted_list_of_fmap (w_utxos W));
          pending = map (\<lambda>(_, s). so_output s) (sorted_list_of_fmap (w_stxos_unconfirmed W));
          notes = map (\<lambda>nf. note_value (fst (the (fmlookup (orchard_notes W) nf)))) (note_keys (orchard_notes W));
          spent_notes = map (\<lambda>(_, n, _). note_value n) (sorted_list_of_fmap (orchard_spent_notes_unconfirmed W))
      in and_then (add_all (map get_value coins) 0) (\<lambda>tot.
         and_then (add_all (map get_value (filter (\<lambda>out. \<not> is_withdrawal (content out)) coins)) 0) (\<lambda>avail.
         and_then (add_all (map get_value pending) tot) (\<lambda>tot.
         and_then (add_all notes 0) (\<lambda>shielded.
         and_then (add_all spent_notes shielded) (\<lambda>total_sh.
         Inr \<lparr>total_shielded = total_sh, total_transparent = tot,
              available_shielded = shielded, available_transparent = avail\<rparr>))))))"

section \<open>Notes\<close>

definition spend_note_unconfirmed :: "nullifier \<times> txid \<times> nat \<Rightarrow> wallet \<Rightarrow> wallet" where
  "spend_note_unconfirmed x W =
     (case x of (nf, txid, idx) \<Rightarrow>
        case fmlookup (orchard_notes W) nf of
          None \<Rightarrow> W
        | Some np \<Rightarrow> W\<lparr>orchard_notes := fmdrop nf (orchard_notes W),
            orchard_spent_notes_unconfirmed := fmupd (txid, idx) np (orchard_spent_notes_unconfirmed W)\<rparr>)"

definition spend_orchard_notes_unconfirmed :: "wallet \<Rightarrow> (nullifier \<times> txid \<times> nat) list \<Rightarrow> wallet" where
  "spend_orchard_notes_unconfirmed W spent = fold spend_note_unconfirmed spent W"

definition add_position :: "position \<Rightarrow> nat \<Rightarrow> position wallet_result" where
  "add_position p n = expect (map_option word_of_nat (checked_add 64 (unat p) n))"

definition next_leaf_position ::
  "('tree, 'path, 'b) wallet_ext \<Rightarrow> 'tree option \<Rightarrow> position option wallet_result" where
  "next_leaf_position X tree =
     (case tree of
        None \<Rightarrow> Inr None
      | Some tree \<Rightarrow>
          and_then (ok_or OrchardShardTree (tree_max_leaf_position X tree)) (\<lambda>pos.
          map_ok Some (case pos of None \<Rightarrow> Inr 0 | Some pos \<Rightarrow> add_position pos 1)))"

definition u32_of :: "nat \<Rightarrow> nat" where
  "u32_of idx = idx mod 2 ^ 32"

definition receive_note ::
  "('tree, 'path, 'b) wallet_ext \<Rightarrow> hash \<Rightarrow> position option \<Rightarrow> txid \<Rightarrow> wallet \<Rightarrow> nat \<times> orchard_note \<times> u8 list
    \<Rightarrow> wallet wallet_result" where
  "receive_note X key next_leaf txid W x =
     (case x of (idx, n, memo) \<Rightarrow>
        let W = (if memo \<noteq> replicate 512 0
                 then W\<lparr>orchard_memos := fmupd (txid, u32_of idx) memo (orchard_memos W)\<rparr> else W)
        in if note_value n = 0 then Inr W
           else let nf = note_nullifier X key n
                in case next_leaf of
                     Some leaf \<Rightarrow>
                       map_ok (\<lambda>pos. W\<lparr>orchard_notes := fmupd nf (n, pos) (orchard_notes W),
                                        orchard_notes_unconfirmed := fmdrop nf (orchard_notes_unconfirmed W)\<rparr>)
                         (add_position leaf idx)
                   | None \<Rightarrow>
                       Inr (W\<lparr>orchard_notes_unconfirmed := fmupd nf n (orchard_notes_unconfirmed W)\<rparr>))"

definition find_spent_note :: "wallet \<Rightarrow> nullifier \<Rightarrow> txid \<times> nat \<Rightarrow> note_position option" where
  "find_spent_note W nf key =
     (case fmlookup (orchard_notes W) nf of
        Some np \<Rightarrow> Some np | None \<Rightarrow> fmlookup (orchard_spent_notes_unconfirmed W) key)"

definition spend_known_action ::
  "bool \<Rightarrow> txid \<Rightarrow> orchard_bundle \<Rightarrow> wallet \<Rightarrow> nat \<times> orchard_note \<Rightarrow> wallet wallet_result" where
  "spend_known_action confirmed txid bundle W x =
     (case x of (idx, _) \<Rightarrow>
        if idx \<ge> length (actions bundle) then Inl Panic
        else let nf = act_nullifier (actions bundle ! idx); key = (txid, u32_of idx)
             in case find_spent_note W nf key of
                  None \<Rightarrow> Inr W
                | Some np \<Rightarrow>
                    let W = W\<lparr>orchard_notes := fmdrop nf (orchard_notes W)\<rparr>
                    in Inr (if confirmed
                       then W\<lparr>orchard_spent_notes_unconfirmed := fmdrop key (orchard_spent_notes_unconfirmed W),
                              orchard_spent_notes := fmupd key np (orchard_spent_notes W)\<rparr>
                       else W\<lparr>orchard_spent_notes_unconfirmed :=
                                fmupd key np (orchard_spent_notes_unconfirmed W)\<rparr>))"

definition spend_other_action ::
  "bool \<Rightarrow> txid \<Rightarrow> nat \<Rightarrow> action \<Rightarrow> wallet \<Rightarrow> wallet" where
  "spend_other_action confirmed txid idx act W =
     (let nf = act_nullifier act; key = (txid, u32_of idx)
      in case find_spent_note W nf key of
           None \<Rightarrow> W
         | Some np \<Rightarrow>
             let W = W\<lparr>orchard_notes := fmdrop nf (orchard_notes W),
                       orchard_spent_notes_unconfirmed := fmdrop key (orchard_spent_notes_unconfirmed W)\<rparr>
             in if confirmed then W\<lparr>orchard_spent_notes := fmupd key np (orchard_spent_notes W)\<rparr>
                else W\<lparr>orchard_spent_notes_unconfirmed := fmupd key np (orchard_spent_notes_unconfirmed W)\<rparr>)"

definition append_action ::
  "('tree, 'path, 'b) wallet_ext \<Rightarrow> bool \<Rightarrow> action \<Rightarrow> 'tree option \<Rightarrow> 'tree option wallet_result" where
  "append_action X marked act tree =
     (case tree of None \<Rightarrow> Inr None
      | Some tree \<Rightarrow> map_ok Some (ok_or OrchardShardTree (tree_append X tree (act_cmx act) marked)))"

definition connect_orchard_bundle ::
  "('tree, 'path, 'b) wallet_ext \<Rightarrow> hash \<Rightarrow> 'tree option \<Rightarrow> txid \<Rightarrow> orchard_bundle \<Rightarrow> wallet
    \<Rightarrow> (wallet \<times> 'tree option) wallet_result" where
  "connect_orchard_bundle X key tree txid bundle W =
     (let confirmed = (tree \<noteq> None);
          incoming = decrypt_outputs X key bundle;
          outgoing = recover_outputs X key bundle
      in and_then (next_leaf_position X tree) (\<lambda>next_leaf.
         and_then (fold_res (receive_note X key next_leaf txid) W incoming) (\<lambda>W.
         and_then (fold_res (spend_known_action confirmed txid bundle) W outgoing) (\<lambda>W.
         fold_res (\<lambda>(W, tree) (idx, act).
           map_ok (\<lambda>tree. (if idx \<in> fst ` set outgoing then W else spend_other_action confirmed txid idx act W, tree))
             (append_action X (idx \<in> fst ` set incoming) act tree))
           (W, tree) (enumerate 0 (actions bundle))))))"

definition connect_orchard_bundle_unconfirmed ::
  "('tree, 'path, 'b) wallet_ext \<Rightarrow> wallet \<Rightarrow> txid \<Rightarrow> orchard_bundle \<Rightarrow> wallet wallet_result" where
  "connect_orchard_bundle_unconfirmed X W txid bundle =
     and_then (get_orchard_spending_key X W) (\<lambda>key.
     map_ok fst (connect_orchard_bundle X key None txid bundle W))"

definition connect_orchard_tx ::
  "('acc, 'fr, 'pf) ext \<Rightarrow> ('tree, 'path, 'b) wallet_ext \<Rightarrow> hash \<Rightarrow> wallet \<times> 'tree option \<Rightarrow> 'pf transaction
    \<Rightarrow> (wallet \<times> 'tree option) wallet_result" where
  "connect_orchard_tx E X key st tx =
     (case st of (W, tree) \<Rightarrow>
        case orchard_bundle tx of
          None \<Rightarrow> Inr (W, tree)
        | Some bundle \<Rightarrow> connect_orchard_bundle X key tree (tx_txid E tx) bundle W)"

definition connect_orchard_block ::
  "('acc, 'fr, 'pf) ext \<Rightarrow> ('tree, 'path, 'b) wallet_ext \<Rightarrow> wallet \<Rightarrow> header \<Rightarrow> 'pf body \<Rightarrow> wallet wallet_result" where
  "connect_orchard_block E X W h b =
     and_then (assert_that (w_tip W = prev_side_hash h)) (\<lambda>_.
     and_then (assert_that (compute_merkle_root E b = merkle_root h)) (\<lambda>_.
     and_then (get_orchard_spending_key X W) (\<lambda>key.
     and_then (get_shard_tree X W) (\<lambda>tree.
     and_then (fold_res (connect_orchard_tx E X key) (W, Some tree) (body_transactions b)) (\<lambda>(W, tree).
     and_then (expect tree) (\<lambda>tree.
     let W = W\<lparr>w_tip := Some (header_hash E h)\<rparr>
     in and_then (ok_or OrchardShardTree (tree_max_leaf_position X tree)) (\<lambda>pos.
        and_then (map_err OrchardShardTreeStore (next_checkpoint_seq (orchard_note_commitments W))) (\<lambda>seq.
        and_then (ok_or OrchardShardTree (tree_checkpoint X tree
            \<lparr>cid_pos = pos, cid_seq = seq, cid_tip = Some (header_hash E h)\<rparr>)) (\<lambda>tree.
        put_shard_tree X W tree)))))))))"

definition unreceive_note ::
  "('tree, 'path, 'b) wallet_ext \<Rightarrow> hash \<Rightarrow> nat \<times> orchard_note \<times> u8 list \<Rightarrow> wallet \<Rightarrow> wallet" where
  "unreceive_note X key x W =
     (case x of (_, n, _) \<Rightarrow> W\<lparr>orchard_notes := fmdrop (note_nullifier X key n) (orchard_notes W)\<rparr>)"

text \<open>The note put back is the one the action created, as the code has it.\<close>

definition unspend_known_action ::
  "txid \<Rightarrow> orchard_bundle \<Rightarrow> wallet \<Rightarrow> nat \<times> orchard_note \<Rightarrow> wallet wallet_result" where
  "unspend_known_action txid bundle W x =
     (case x of (idx, n) \<Rightarrow>
        if idx \<ge> length (actions bundle) then Inl Panic
        else let nf = act_nullifier (actions bundle ! idx); key = (txid, u32_of idx)
             in case fmlookup (orchard_spent_notes W) key of
                  None \<Rightarrow> Inr W
                | Some (_, pos) \<Rightarrow>
                    Inr (W\<lparr>orchard_spent_notes := fmdrop key (orchard_spent_notes W),
                           orchard_notes := fmupd nf (n, pos) (orchard_notes W)\<rparr>))"

definition unspend_other_action :: "txid \<Rightarrow> nat \<times> action \<Rightarrow> wallet \<Rightarrow> wallet" where
  "unspend_other_action txid x W =
     (case x of (idx, act) \<Rightarrow>
        let key = (txid, u32_of idx)
        in case fmlookup (orchard_spent_notes W) key of
             None \<Rightarrow> W
           | Some np \<Rightarrow>
               W\<lparr>orchard_spent_notes := fmdrop key (orchard_spent_notes W),
                 orchard_notes := fmupd (act_nullifier act) np (orchard_notes W)\<rparr>)"

definition disconnect_orchard_tx ::
  "('acc, 'fr, 'pf) ext \<Rightarrow> ('tree, 'path, 'b) wallet_ext \<Rightarrow> hash \<Rightarrow> wallet \<Rightarrow> 'pf transaction \<Rightarrow> wallet wallet_result"
where
  "disconnect_orchard_tx E X key W tx =
     (case orchard_bundle tx of
        None \<Rightarrow> Inr W
      | Some bundle \<Rightarrow>
          let txid = tx_txid E tx; outgoing = recover_outputs X key bundle;
              W = fold (unreceive_note X key) (rev (decrypt_outputs X key bundle)) W
          in map_ok (fold (unspend_other_action txid)
                 (filter (\<lambda>(idx, _). idx \<notin> fst ` set outgoing) (rev (enumerate 0 (actions bundle)))))
               (fold_res (unspend_known_action txid bundle) W (rev outgoing)))"

definition disconnect_orchard_block ::
  "('acc, 'fr, 'pf) ext \<Rightarrow> shardtree_ext \<Rightarrow> ('tree, 'path, 'b) wallet_ext \<Rightarrow> wallet \<Rightarrow> header \<Rightarrow> 'pf body
    \<Rightarrow> wallet wallet_result" where
  "disconnect_orchard_block E T X W h b =
     and_then (assert_that (w_tip W = Some (header_hash E h))) (\<lambda>_.
     and_then (assert_that (compute_merkle_root E b = merkle_root h)) (\<lambda>_.
     and_then (get_orchard_spending_key X W) (\<lambda>key.
     and_then (fold_res (disconnect_orchard_tx E X key) W (rev (body_transactions b))) (\<lambda>W.
     let W = W\<lparr>w_tip := prev_side_hash h\<rparr>
     in and_then (get_shard_tree X W) (\<lambda>tree.
        and_then (map_err OrchardShardTreeStore
            (get_checkpoint_id T (orchard_note_commitments W) (prev_side_hash h))) (\<lambda>cid.
        and_then (ok_or OrchardShardTree (tree_truncate_to_checkpoint X tree cid)) (\<lambda>(tree, found).
        if \<not> found then Inl (Err (OrchardShardTreeTruncate (prev_side_hash h)))
        else put_shard_tree X W tree)))))))"

section \<open>Bills\<close>

definition STANDARD_FEE :: nat where
  "STANDARD_FEE = 1000"

text \<open>Weekdays count from Monday, 0, to Sunday, 6.\<close>

definition bill_exponent_to_weekday :: "nat \<Rightarrow> nat" where
  "bill_exponent_to_weekday e = [5, 4, 3, 2, 1, 0, 6] ! (e mod 7)"

text \<open>
  A time is a day and a second of the day. \<open>weekday\<close> gives the weekday of a day; the random numbers of the
  \<open>i\<close>-th bill are \<open>rnd i\<close>, one for a time later today and a time on another day.
\<close>

definition days_since :: "nat \<Rightarrow> nat \<Rightarrow> nat" where
  "days_since on now = (on + 7 - now) mod 7"

definition bill_time ::
  "(nat \<Rightarrow> nat) \<Rightarrow> nat \<times> nat \<Rightarrow> nat \<times> nat \<Rightarrow> nat \<Rightarrow> nat \<times> nat" where
  "bill_time weekday now rnd e =
     (let on = bill_exponent_to_weekday e; today = weekday (fst now)
      in (fst now + days_since on today, if today = on then fst rnd else snd rnd))"

function bills ::
  "(nat \<Rightarrow> nat) \<Rightarrow> nat \<times> nat \<Rightarrow> (nat \<Rightarrow> nat \<times> nat) \<Rightarrow> nat \<Rightarrow> nat \<Rightarrow> (nat \<times> nat \<times> nat) list" where
  "bills weekday now rnd i remaining =
     (if remaining = 0 then []
      else let e = ilog2 remaining
           in (e, bill_time weekday now (rnd i) e) # bills weekday now rnd (Suc i) (remaining - 2 ^ e))"

  by pat_completeness auto

termination
  by (relation "measure (\<lambda>(_, _, _, _, remaining). remaining)") simp_all

declare bills.simps [simp del]

definition schedule_bills ::
  "(nat \<Rightarrow> nat) \<Rightarrow> nat \<times> nat \<Rightarrow> (nat \<Rightarrow> nat \<times> nat) \<Rightarrow> nat \<Rightarrow> (nat \<times> nat \<times> nat) list" where
  "schedule_bills weekday now rnd amount = sort_key snd (bills weekday now rnd 0 amount)"

text \<open>\<open>Cast::next_tx\<close> and \<open>MeltBatch::next_tx\<close> take the first bill once its time has come.\<close>

definition next_bill :: "(nat \<times> nat \<times> nat) list \<Rightarrow> (nat \<times> (nat \<times> nat \<times> nat) list) option" where
  "next_bill q = (case q of [] \<Rightarrow> None | (e, _) # q \<Rightarrow> Some (2 ^ e, q))"

definition cast_next_tx ::
  "('acc, 'fr, 'pf) ext \<Rightarrow> ('tree, 'path, 'b) wallet_ext \<Rightarrow> (nat \<times> nat \<times> nat) list
    \<Rightarrow> ((wallet \<Rightarrow> 'acc \<Rightarrow> (wallet \<times> 'pf transaction) wallet_result) \<times> (nat \<times> nat \<times> nat) list) option" where
  "cast_next_tx E X q =
     map_option (\<lambda>(amount, q). (\<lambda>W acc. create_unshield_transaction E X W acc amount STANDARD_FEE, q)) (next_bill q)"

definition melt_next_tx ::
  "('acc, 'fr, 'pf) ext \<Rightarrow> ('tree, 'path, 'b) wallet_ext \<Rightarrow> (nat \<times> nat \<times> nat) list
    \<Rightarrow> ((wallet \<Rightarrow> 'acc \<Rightarrow> (wallet \<times> 'pf transaction) wallet_result) \<times> (nat \<times> nat \<times> nat) list) option" where
  "melt_next_tx E X q =
     map_option (\<lambda>(amount, q). (\<lambda>W acc. create_shield_transaction E X W acc amount STANDARD_FEE, q)) (next_bill q)"

end
