(* ===== verification/Wallet_Coins.thy ===== *)
theory Wallet_Coins
  imports Wallet Block_Valid "HOL-Library.Multiset"
begin

text \<open>
  The transparent side of the wallet: coin selection finds enough coins whenever the wallet has them,
  every transaction the wallet creates, shielded or not, pays exactly the requested fee when the
  node validates it, and a transparent transaction that it authorizes is accepted by a node whose UTXOs it
  knows.
\<close>

section \<open>Amounts\<close>

lemma amount_add_ok [result_simps]: "amount_add a b = Inr c \<longleftrightarrow> c = a + b \<and> a + b < 2 ^ 64"
  by (auto simp: amount_add_def result_simps)

lemma amount_minus_ok [result_simps]: "amount_minus a b = Inr c \<longleftrightarrow> c = a - b \<and> b \<le> a"
  by (auto simp: amount_minus_def result_simps)

lemma fold_amount_add:
  "a < 2 ^ 64 \<Longrightarrow> fold_res (\<lambda>v x. amount_add v (f x)) a xs = Inr r
     \<longleftrightarrow> r = a + sum_list (map f xs) \<and> r < 2 ^ 64"
proof (induction xs arbitrary: a)
  case Nil
  then show ?case by auto
next
  case (Cons x xs)
  show ?case
  proof (cases "a + f x < 2 ^ 64")
    case True
    with Cons.IH [of "a + f x"] show ?thesis by (auto simp: result_simps add.assoc)
  next
    case False
    then show ?thesis by (auto simp: result_simps)
  qed
qed

section \<open>Selection of transparent coins\<close>

definition coin_value :: "out_point \<times> tx_output \<Rightarrow> nat" where
  "coin_value c = get_value (snd c)"

lemma coin_value_pair [simp]: "coin_value (op, out) = get_value out"
  by (simp add: coin_value_def)

abbreviation spendable :: "(out_point \<times> tx_output) list \<Rightarrow> (out_point \<times> tx_output) list" where
  "spendable \<equiv> filter (\<lambda>c. \<not> is_withdrawal (content (snd c)))"

definition spendable_value :: "wallet \<Rightarrow> nat" where
  "spendable_value W = sum_list (map coin_value (spendable (sorted_list_of_fmap (w_utxos W))))"

text \<open>What the wallet relies on of the parallel sort: a permutation, in the order of the values.\<close>

definition sorts_coins :: "('tree, 'path, 'b) wallet_ext \<Rightarrow> bool" where
  "sorts_coins X \<longleftrightarrow> (\<forall>xs. mset (sort_coins X xs) = mset xs \<and> sorted (map coin_value (sort_coins X xs)))"

lemma select_loop_Inr:
  assumes "select_transparent_loop amount tot sel coins = Inr (t, res)" and "tot < 2 ^ 64"
  shows "\<exists>n. res = sel @ take n (spendable coins) \<and> t = tot + sum_list (map coin_value (take n (spendable coins)))
    \<and> t < 2 ^ 64 \<and> (n < length (spendable coins) \<longrightarrow> amount < t) \<and> n \<le> length (spendable coins)
    \<and> (0 < n \<longrightarrow> tot + sum_list (map coin_value (take (n - 1) (spendable coins))) \<le> amount)"
  using assms
proof (induction amount tot sel coins rule: select_transparent_loop.induct)
  case (1 amount tot sel)
  then show ?case by simp
next
  case (2 amount tot sel op out coins)
  consider (wd) "is_withdrawal (content out)" | (stop) "\<not> is_withdrawal (content out)" "amount < tot"
    | (take) "\<not> is_withdrawal (content out)" "\<not> amount < tot" by blast
  then show ?case
  proof cases
    case wd
    with 2 show ?thesis by simp
  next
    case stop
    with "2.prems" show ?thesis by (intro exI [of _ 0]) auto
  next
    case take
    with "2.prems" have step: "tot + get_value out < 2 ^ 64"
      "select_transparent_loop amount (tot + get_value out) (sel @ [(op, out)]) coins = Inr (t, res)"
      by (auto simp: result_simps)
    from "2.IH"(2) [OF take, of "tot + get_value out"] step obtain n where
      n: "res = (sel @ [(op, out)]) @ take n (spendable coins)"
        "t = tot + get_value out + sum_list (map coin_value (take n (spendable coins)))" "t < 2 ^ 64"
        "n < length (spendable coins) \<longrightarrow> amount < t" "n \<le> length (spendable coins)"
        "0 < n \<longrightarrow> tot + get_value out + sum_list (map coin_value (take (n - 1) (spendable coins))) \<le> amount"
      by (auto simp: result_simps)
    show ?thesis
    proof (intro exI [of _ "Suc n"] conjI)
      show "0 < Suc n \<longrightarrow> tot + sum_list (map coin_value (take (Suc n - 1) (spendable ((op, out) # coins)))) \<le> amount"
        using n(6) take by (cases n) auto
    qed (use n take in auto)
  qed
qed

lemma select_loop_total:
  assumes "tot + sum_list (map coin_value (spendable coins)) < 2 ^ 64"
  shows "\<exists>r. select_transparent_loop amount tot sel coins = Inr r"
  using assms
proof (induction amount tot sel coins rule: select_transparent_loop.induct)
  case (1 amount tot sel)
  then show ?case by simp
next
  case (2 amount tot sel op out coins)
  show ?case
  proof (cases "is_withdrawal (content out)")
    case True
    with 2 show ?thesis by simp
  next
    case False
    with "2.prems" have "tot + get_value out + sum_list (map coin_value (spendable coins)) < 2 ^ 64" by simp
    with False "2.IH"(2) [of "tot + get_value out"] show ?thesis
      by (cases "amount < tot") (auto simp: amount_add_def checked_add_def)
  qed
qed

lemma spendable_sort:
  assumes "sorts_coins X"
  shows "mset (spendable (sort_coins X xs)) = mset (spendable xs)"
proof -
  have "mset (sort_coins X xs) = mset xs" using assms by (simp add: sorts_coins_def)
  then show ?thesis by (simp only: mset_filter)
qed

lemma spendable_value_sort:
  assumes "sorts_coins X"
  shows "sum_list (map coin_value (spendable (sort_coins X (sorted_list_of_fmap (w_utxos W))))) = spendable_value W"
proof -
  have "sum_list (map f xs) = sum_list (map f ys)" if "mset xs = mset ys"
    for f :: "out_point \<times> tx_output \<Rightarrow> nat" and xs ys
    using that by (simp flip: sum_mset_sum_list add: mset_map)
  from this [OF spendable_sort [OF assms]] show ?thesis by (simp add: spendable_value_def)
qed

lemma select_transparent_coins_Inr:
  assumes "sorts_coins X" and "select_transparent_coins X W amount = Inr (t, coins)"
  shows "t = sum_list (map coin_value coins) \<and> t < 2 ^ 64 \<and> amount \<le> t \<and> distinct (map fst coins)
    \<and> (\<forall>(op, out)\<in>set coins. fmlookup (w_utxos W) op = Some out \<and> \<not> is_withdrawal (content out))
    \<and> (coins \<noteq> [] \<longrightarrow> sum_list (map coin_value (butlast coins)) \<le> amount)"
proof -
  let ?all = "sorted_list_of_fmap (w_utxos W)"
  let ?s = "spendable (sort_coins X ?all)"
  from assms(2) have "select_transparent_loop amount 0 [] (sort_coins X ?all) = Inr (t, coins)" "amount \<le> t"
    by (auto simp: select_transparent_coins_def result_simps not_less)
  with select_loop_Inr [of amount 0 "[]" "sort_coins X ?all" t coins] obtain n where
    n: "coins = take n ?s" "t = sum_list (map coin_value (take n ?s))" "t < 2 ^ 64" "n \<le> length ?s"
      "0 < n \<longrightarrow> sum_list (map coin_value (take (n - 1) ?s)) \<le> amount" by auto
  have "set ?s = set (spendable ?all)" by (rule mset_eq_setD [OF spendable_sort [OF assms(1)]])
  then have sub: "set coins \<subseteq> set (spendable ?all)" using n(1) set_take_subset by fastforce
  have "distinct (map fst ?all)" by (rule distinct_sorted_list_of_fmap)
  then have "distinct (map fst (spendable ?all))" by (rule distinct_map_filter)
  moreover have same: "mset (map fst ?s) = mset (map fst (spendable ?all))"
    using spendable_sort [OF assms(1), of ?all] by (simp only: mset_map)
  ultimately have "distinct (map fst ?s)" using mset_eq_imp_distinct_iff [OF same] by blast
  then have "distinct (map fst coins)" unfolding n(1) take_map [symmetric] by (rule distinct_take)
  moreover have "sum_list (map coin_value (butlast coins)) \<le> amount" if "coins \<noteq> []"
  proof -
    from that n(1) have "0 < n" by auto
    moreover have "butlast coins = take (n - 1) ?s" using n(4) unfolding n(1) by (simp add: butlast_take)
    ultimately show ?thesis using n(5) by simp
  qed
  moreover have "\<forall>(op, out)\<in>set coins. fmlookup (w_utxos W) op = Some out \<and> \<not> is_withdrawal (content out)"
    using sub by (auto simp: in_sorted_list_of_fmap)
  ultimately show ?thesis using n(1) [symmetric] n(2,3) \<open>amount \<le> t\<close> by simp
qed

text \<open>
  Coin selection: the coins chosen are distinct unspent outputs of the wallet, none of them a withdrawal, and
  their values add up to the total, which covers the amount; without the last coin they do not
  exceed it. As long as the values of all spendable coins fit an amount, selection succeeds exactly
  when these coins are worth at least the amount, and otherwise reports that there are not enough funds.
\<close>

theorem select_transparent_coins_correct:
  assumes "sorts_coins X"
  shows "(\<forall>t coins. select_transparent_coins X W amount = Inr (t, coins) \<longrightarrow>
      t = sum_list (map coin_value coins) \<and> amount \<le> t \<and> distinct (map fst coins)
      \<and> (\<forall>(op, out)\<in>set coins. fmlookup (w_utxos W) op = Some out \<and> \<not> is_withdrawal (content out))
      \<and> (coins \<noteq> [] \<longrightarrow> sum_list (map coin_value (butlast coins)) \<le> amount))
    \<and> (spendable_value W < 2 ^ 64 \<longrightarrow>
         (if amount \<le> spendable_value W then \<exists>r. select_transparent_coins X W amount = Inr r
          else select_transparent_coins X W amount = Inl (Err NotEnoughFunds)))"
proof (intro conjI allI impI)
  fix t coins
  assume "select_transparent_coins X W amount = Inr (t, coins)"
  note sel = select_transparent_coins_Inr [OF assms this]
  then show "t = sum_list (map coin_value coins)" "amount \<le> t" "distinct (map fst coins)"
    "\<forall>(op, out)\<in>set coins. fmlookup (w_utxos W) op = Some out \<and> \<not> is_withdrawal (content out)" by blast+
  show "sum_list (map coin_value (butlast coins)) \<le> amount" if "coins \<noteq> []" using sel that by blast
next
  let ?c = "sort_coins X (sorted_list_of_fmap (w_utxos W))"
  assume small: "spendable_value W < 2 ^ 64"
  note v = spendable_value_sort [OF assms, of W]
  obtain t coins where r: "select_transparent_loop amount 0 [] ?c = Inr (t, coins)"
    using select_loop_total [of 0 ?c amount "[]"] small v by auto
  from select_loop_Inr [OF this] obtain n where
    n: "t = sum_list (map coin_value (take n (spendable ?c)))" "n < length (spendable ?c) \<longrightarrow> amount < t"
      "n \<le> length (spendable ?c)" by auto
  have part: "sum_list (map coin_value (take n (spendable ?c))) \<le> spendable_value W"
    unfolding v [symmetric]
    by (subst (2) append_take_drop_id [of n, symmetric]) (simp del: append_take_drop_id)
  have "amount \<le> t \<longleftrightarrow> amount \<le> spendable_value W"
  proof (cases "n < length (spendable ?c)")
    case True
    with n part show ?thesis by auto
  next
    case False
    with n v show ?thesis by simp
  qed
  with r show "if amount \<le> spendable_value W then \<exists>r. select_transparent_coins X W amount = Inr r
      else select_transparent_coins X W amount = Inl (Err NotEnoughFunds)"
    by (auto simp: select_transparent_coins_def)
qed

section \<open>Created transactions pay their fee\<close>

text \<open>
  A transaction that spends distinct coins of the wallet and that the node, once it has filled in these coins,
  accepts with the fee.
\<close>

definition pays :: "('acc, 'fr, 'pf) ext \<Rightarrow> wallet \<Rightarrow> 'pf transaction \<Rightarrow> nat \<Rightarrow> bool" where
  "pays E W tx fee \<longleftrightarrow> distinct (map fst (inputs tx))
     \<and> (\<exists>spent. map (fmlookup (w_utxos W)) (map fst (inputs tx)) = map Some spent
          \<and> validate_filled_transaction E \<lparr>ft_transaction = tx, spent_utxos = spent\<rparr> = Inr fee)"

text \<open>
  What the wallet relies on of the Orchard builder: \<open>net\<close> is the value of the spends less that of the outputs.
\<close>

definition builder_laws :: "('tree, 'path, 'b) wallet_ext \<Rightarrow> ('b \<Rightarrow> int) \<Rightarrow> bool" where
  "builder_laws X net \<longleftrightarrow>
     (\<forall>f r a. net (b_new X f r a) = 0)
   \<and> (\<forall>b k n p b'. b_add_spend X b k n p = Some b' \<longrightarrow> net b' = net b + int (note_value n))
   \<and> (\<forall>b a v m b'. b_add_output X b a v m = Some b' \<longrightarrow> net b' = net b - int v \<and> b_outputs X b' = Suc (b_outputs X b))
   \<and> (\<forall>b v. b_value_balance X b = Some v \<longrightarrow> v = net b)
   \<and> (\<forall>b bundle. b_build X b = Some (Some bundle) \<longrightarrow> value_balance bundle = net b)
   \<and> (\<forall>b. b_build X b = Some None \<longrightarrow> b_outputs X b = 0)
   \<and> (\<forall>bundle bundle'. create_proof X bundle = Some bundle' \<longrightarrow> value_balance bundle' = value_balance bundle)
   \<and> (\<forall>bundle h k bundle'. apply_signatures X bundle h k = Some bundle' \<longrightarrow>
        value_balance bundle' = value_balance bundle)"

lemma builder_lawsD:
  assumes "builder_laws X net"
  shows "net (b_new X f r a) = 0"
    and "b_add_spend X b k n p = Some b' \<Longrightarrow> net b' = net b + int (note_value n)"
    and "b_add_output X b addr v m = Some b' \<Longrightarrow> net b' = net b - int v"
    and "b_add_output X b addr v m = Some b' \<Longrightarrow> b_outputs X b' = Suc (b_outputs X b)"
    and "b_value_balance X b = Some x \<Longrightarrow> x = net b"
    and "b_build X b = Some (Some bundle) \<Longrightarrow> value_balance bundle = net b"
    and "b_build X b = Some None \<Longrightarrow> b_outputs X b = 0"
    and "create_proof X bundle = Some bundle' \<Longrightarrow> value_balance bundle' = value_balance bundle"
    and "apply_signatures X bundle h k = Some bundle' \<Longrightarrow> value_balance bundle' = value_balance bundle"
  using assms unfolding builder_laws_def by auto

lemma add_dummy_outputs_Inr:
  assumes "builder_laws X net" and "add_dummy_outputs X n b = Inr b'"
  shows "net b' = net b \<and> b_outputs X b' = b_outputs X b + n"
  using assms(2)
proof (induction n arbitrary: b)
  case 0
  then show ?case by simp
next
  case (Suc n)
  then obtain b1 where b1: "b_add_output X b (dummy_address X) 0 (replicate 512 0) = Some b1"
    "add_dummy_outputs X n b1 = Inr b'" by (auto simp: result_simps)
  with Suc.IH [OF b1(2)] builder_lawsD(3,4) [OF assms(1) b1(1)] show ?case by simp
qed

lemma prove_bundle_Inr:
  assumes "builder_laws X net" and "prove_bundle X b = Inr r"
  shows "\<exists>bundle. r = Some bundle \<and> value_balance bundle = net b"
proof -
  note laws = builder_lawsD [OF assms(1)]
  from assms(2) obtain r0 where r0: "builder_build X b = Inr r0" by (auto simp: prove_bundle_def result_simps)
  then obtain b' where b': "add_dummy_outputs X (max 2 (b_spends X b) - b_outputs X b) b = Inr b'"
    "b_build X b' = Some r0" by (auto simp: builder_build_def Let_def result_simps)
  from add_dummy_outputs_Inr [OF assms(1) b'(1)] have
    net: "net b' = net b" and "b_outputs X b' \<noteq> 0" by auto
  with laws(7) b'(2) obtain bu where "r0 = Some bu" by (cases r0) auto
  with assms(2) r0 laws(6,8) net b'(2) show ?thesis by (auto simp: prove_bundle_def result_simps)
qed

lemma sign_orchard_Inr:
  assumes "builder_laws X net" and "sign_orchard E X key tx = Inr tx'"
  shows "inputs tx' = inputs tx \<and> outputs tx' = outputs tx
    \<and> rel_option (\<lambda>b b'. value_balance b' = value_balance b) (orchard_bundle tx) (orchard_bundle tx')"
  using assms(2) builder_lawsD(9) [OF assms(1)]
  by (auto simp: sign_orchard_def Let_def result_simps split: option.splits)

lemma sum_add_spend:
  assumes "builder_laws X net" and "fold_res (add_spend X key) b coins = Inr b'"
  shows "net b' = net b + int (sum_list (map (\<lambda>x. note_value (fst (snd x))) coins))"
  using assms(2)
proof (induction coins arbitrary: b)
  case Nil
  then show ?case by simp
next
  case (Cons c coins)
  then obtain b1 where "b_add_spend X b key (fst (snd c)) (snd (snd c)) = Some b1"
    "fold_res (add_spend X key) b1 coins = Inr b'"
    by (cases c) (auto simp: add_spend_def [of X key b] result_simps)
  with Cons.IH builder_lawsD(2) [OF assms(1)] show ?case by fastforce
qed

lemma select_shielded_loop_Inr:
  "select_shielded_loop X W tree d amount tot sel nfs = Inr (t, res) \<Longrightarrow> tot < 2 ^ 64 \<Longrightarrow>
     tot = sum_list (map (\<lambda>x. note_value (fst (snd x))) sel) \<Longrightarrow>
     t = sum_list (map (\<lambda>x. note_value (fst (snd x))) res) \<and> t < 2 ^ 64"
proof (induction nfs arbitrary: tot sel)
  case Nil
  then show ?case by auto
next
  case (Cons nf nfs)
  show ?case
  proof (cases "amount \<le> tot")
    case True
    with Cons.prems show ?thesis by auto
  next
    case False
    with Cons.prems(1) obtain n pos path where
      "fmlookup (orchard_notes W) nf = Some (n, pos)" "tree_witness_at_checkpoint_depth X tree pos d = Some path"
      and step: "(case path of None \<Rightarrow> select_shielded_loop X W tree d amount tot sel nfs
        | Some path \<Rightarrow> and_then (amount_add tot (note_value n)) (\<lambda>tot.
            select_shielded_loop X W tree d amount tot (sel @ [(nf, n, path)]) nfs)) = Inr (t, res)"
      by (auto simp: result_simps)
    show ?thesis
    proof (cases path)
      case None
      with step Cons.IH [of tot sel] Cons.prems(2,3) show ?thesis by simp
    next
      case (Some p)
      with step have "tot + note_value n < 2 ^ 64"
        "select_shielded_loop X W tree d amount (tot + note_value n) (sel @ [(nf, n, p)]) nfs = Inr (t, res)"
        by (auto simp: result_simps)
      with Cons.IH [of "tot + note_value n" "sel @ [(nf, n, p)]"] Cons.prems(3) show ?thesis by simp
    qed
  qed
qed

lemma select_shielded_coins_Inr:
  assumes "select_shielded_coins E X W amount = Inr (t, anchor, coins)"
  shows "t = sum_list (map (\<lambda>x. note_value (fst (snd x))) coins) \<and> t < 2 ^ 64 \<and> amount \<le> t"
proof -
  from assms obtain tree d sel where
    sel: "select_shielded_loop X W tree d amount 0 [] (shuffle X (note_keys (orchard_notes W))) = Inr (t, sel)"
      "coins = sort_key (\<lambda>x. nullifier_rank X (fst x)) sel" "amount \<le> t"
    by (auto simp: select_shielded_coins_def Let_def result_simps)
  have "mset coins = mset sel" by (simp add: sel(2))
  then have "sum_list (map (\<lambda>x. note_value (fst (snd x))) coins) = sum_list (map (\<lambda>x. note_value (fst (snd x))) sel)"
    by (simp flip: sum_mset_sum_list add: mset_map)
  with select_shielded_loop_Inr [OF sel(1)] sel(3) show ?thesis by simp
qed

lemma paysI:
  assumes "inputs tx = inputs_of E coins" and "distinct (map fst coins)"
    and "\<forall>(op, out)\<in>set coins. fmlookup (w_utxos W) op = Some out"
    and "int (sum_list (map coin_value coins)) + max 0 (bundle_balance tx) < 2 ^ 64"
    and "int (sum_list (map coin_value coins)) + bundle_balance tx
      = int (sum_list (map get_value (outputs tx))) + int fee"
  shows "pays E W tx fee"
proof -
  let ?ft = "\<lparr>ft_transaction = tx, spent_utxos = map snd coins\<rparr>"
  have hashes: "\<forall>(op, h, out)\<in>set (filled_inputs ?ft). h = pointed_output_hash E op out"
    unfolding filled_inputs_def using assms(1)
    by (auto simp: inputs_of_def zip_map1 zip_map2 zip_same_conv_map split: prod.splits)
  define A B where "A = sum_list (map coin_value coins)" and "B = sum_list (map get_value (outputs tx))"
  have "sum_list (map get_value (spent_utxos ?ft)) = A" "sum_list (map get_value (outputs (ft_transaction ?ft))) = B"
    by (simp_all add: A_def B_def comp_def coin_value_def [abs_def])
  then have "validate_filled_transaction E ?ft = Inr fee"
    unfolding validate_filled_cases using hashes assms(4,5) [folded A_def B_def]
    by (cases "orchard_bundle tx") (auto simp: bundle_balance_def)
  moreover have "map (fmlookup (w_utxos W)) (map fst (inputs tx)) = map Some (map snd coins)"
    using assms(1,3) by (auto simp: inputs_of_def)
  moreover have "map fst (inputs tx) = map fst coins" using assms(1) by (auto simp: inputs_of_def)
  ultimately show ?thesis using assms(2) unfolding pays_def by metis
qed

lemma get_new_transparent_address_utxos:
  "get_new_transparent_address E X W = Inr (W', addr) \<Longrightarrow> w_utxos W' = w_utxos W"
  by (auto simp: get_new_transparent_address_def Let_def result_simps)

lemma create_transaction_makes:
  assumes "sorts_coins X" and "create_transaction E X W acc addr amount fee = Inr (W', tx)"
  shows "pays E W tx fee \<and> \<lparr>address = addr, content = Value amount\<rparr> \<in> set (outputs tx) \<and> bundle_balance tx = 0"
proof -
  from assms(2) obtain t coins change_addr where
    sel: "select_transparent_coins X W (amount + fee) = Inr (t, coins)"
    and tx: "inputs tx = inputs_of E coins" "orchard_bundle tx = None"
      "outputs tx = [\<lparr>address = addr, content = Value amount\<rparr>, \<lparr>address = change_addr, content = Value (t - amount - fee)\<rparr>]"
    by (auto simp: create_transaction_def Let_def result_simps)
  note c = select_transparent_coins_Inr [OF assms(1) sel]
  have "pays E W tx fee"
    by (rule paysI [OF tx(1)]) (use c tx in \<open>auto simp: bundle_balance_def get_value_def\<close>)
  with tx show ?thesis by (simp add: bundle_balance_def)
qed

lemma create_withdrawal_makes:
  assumes "sorts_coins X" and "create_withdrawal E X W acc main_addr amount main_fee fee = Inr (W', tx)"
  shows "pays E W tx fee \<and> (\<exists>a. \<lparr>address = a, content = Withdrawal amount main_fee main_addr\<rparr> \<in> set (outputs tx)) \<and> bundle_balance tx = 0"
proof -
  from assms(2) obtain t coins a change_addr where
    sel: "select_transparent_coins X W (amount + fee + main_fee) = Inr (t, coins)" "amount + fee + main_fee < 2 ^ 64"
    and tx: "inputs tx = inputs_of E coins" "orchard_bundle tx = None"
      "outputs tx = [\<lparr>address = a, content = Withdrawal amount main_fee main_addr\<rparr>,
         \<lparr>address = change_addr, content = Value (t - amount - fee - main_fee)\<rparr>]"
    by (auto simp: create_withdrawal_def Let_def result_simps)
  note c = select_transparent_coins_Inr [OF assms(1) sel(1)]
  have "content_get_value (Withdrawal amount main_fee main_addr) = amount + main_fee"
    using sel(2) by (simp add: checked_add_def)
  then have "pays E W tx fee"
    by (intro paysI [OF tx(1)]) (use c tx in \<open>auto simp: bundle_balance_def get_value_def\<close>)
  with tx show ?thesis by (simp add: bundle_balance_def)
qed

lemma shield_from_utxos_makes:
  assumes laws: "builder_laws X net"
    and "create_shield_transaction_from_utxos E X W acc amount fee coins = Inr (W', tx)"
    and "distinct (map fst coins)" and "\<forall>(op, out)\<in>set coins. fmlookup (w_utxos W) op = Some out"
  shows "pays E W tx fee \<and> bundle_balance tx = - int amount"
proof -
  note D = builder_lawsD [OF laws]
  define v where "v = sum_list (map coin_value coins)"
  have f: "(\<lambda>v (_, out). amount_add v (get_value out)) = (\<lambda>v c. amount_add v (coin_value c))"
    by (auto simp: coin_value_def fun_eq_iff)
  from assms(2) obtain value_in change W1 outs b balance spent saddr b' bu key pf where
    sums: "fold_res (\<lambda>v c. amount_add v (coin_value c)) 0 coins = Inr value_in"
      "Option.bind (checked_sub value_in amount) (\<lambda>v. checked_sub v fee) = Some change"
    and outs: "(if change \<noteq> 0
        then map_ok (\<lambda>(W, addr). (W, [\<lparr>address = addr, content = Value change\<rparr>])) (get_new_transparent_address E X W)
        else Inr (W, [])) = Inr (W1, outs)"
    and b: "b_value_balance X b = Some balance" "(if balance < 0 then None else Some (nat balance)) = Some spent"
      "amount + spent < 2 ^ 64" "b_add_output X b saddr (amount + spent) (replicate 512 0) = Some b'"
      "prove_bundle X b' = Inr bu"
      "sign_orchard E X key \<lparr>inputs = inputs_of E coins, utreexo_proof = pf, outputs = outs, orchard_bundle = bu\<rparr> = Inr tx"
    unfolding create_shield_transaction_from_utxos_def f
    by (auto simp: Let_def result_simps add_output_def simp del: if_split)
  have v: "v < 2 ^ 64" "v = amount + fee + change"
    using sums by (auto simp: fold_amount_add v_def bind_eq_Some_conv result_simps)
  have spent: "balance = int spent" using b(2) by (auto split: if_splits)
  from prove_bundle_Inr [OF laws b(5)] D(3) [OF b(4)] D(5) [OF b(1)] spent obtain bb where
    bb: "bu = Some bb" "value_balance bb = - int amount" by auto
  with sign_orchard_Inr [OF laws b(6)] have
    tx: "inputs tx = inputs_of E coins" "outputs tx = outs" "bundle_balance tx = - int amount"
    by (auto simp: bundle_balance_def option_rel_Some1)
  have "sum_list (map get_value outs) = change"
    using outs by (auto simp: get_value_def result_simps split: if_splits)
  with v have "pays E W tx fee"
    by (intro paysI [OF tx(1) assms(3,4)]) (simp_all add: tx(2,3) v_def [symmetric])
  with tx(3) show ?thesis by simp
qed

lemma create_shield_transaction_makes:
  assumes "sorts_coins X" and "builder_laws X net"
    and "create_shield_transaction E X W acc amount fee = Inr (W', tx)"
  shows "pays E W tx fee \<and> bundle_balance tx = - int amount"
proof -
  from assms(3) obtain t coins where
    sel: "select_transparent_coins X W (amount + fee) = Inr (t, coins)"
    and tx: "create_shield_transaction_from_utxos E X W acc amount fee coins = Inr (W', tx)"
    by (auto simp: create_shield_transaction_def result_simps)
  show ?thesis
    by (rule shield_from_utxos_makes [OF assms(2) tx]) (use select_transparent_coins_Inr [OF assms(1) sel] in auto)
qed

lemma create_shielded_transaction_makes:
  assumes laws: "builder_laws X net"
    and "create_shielded_transaction E X W acc addr amount fee memo = Inr (W', tx)"
  shows "pays E W tx fee \<and> inputs tx = [] \<and> outputs tx = [] \<and> bundle_balance tx = int fee"
proof -
  note D = builder_lawsD [OF laws]
  from assms(2) obtain W1 key t anchor coins change_addr b1 b2 b3 bu pf where
    sel: "select_shielded_coins E X W1 (amount + fee) = Inr (t, anchor, coins)"
    and b: "b_add_output X (b_new X True False anchor) addr amount memo = Some b1"
      "b_add_output X b1 change_addr (t - amount - fee) (replicate 512 0) = Some b2"
      "fold_res (add_spend X key) b2 coins = Inr b3" "prove_bundle X b3 = Inr bu"
      "sign_orchard E X key \<lparr>inputs = [], utreexo_proof = pf, outputs = [], orchard_bundle = bu\<rparr> = Inr tx"
    by (auto simp: create_shielded_transaction_def Let_def result_simps add_output_def)
  note c = select_shielded_coins_Inr [OF sel]
  from prove_bundle_Inr [OF laws b(4)] sum_add_spend [OF laws b(3)] D(3) [OF b(2)] D(3) [OF b(1)] D(1) c
  obtain bb where bb: "bu = Some bb" "value_balance bb = int fee" by fastforce
  with sign_orchard_Inr [OF laws b(5)] have
    tx: "inputs tx = inputs_of E []" "outputs tx = []" "bundle_balance tx = int fee"
    by (auto simp: bundle_balance_def option_rel_Some1 inputs_of_def)
  from c have "amount + fee < 2 ^ 64" by linarith
  then have "pays E W tx fee" by (intro paysI [OF tx(1)]) (simp_all add: tx(2,3))
  with tx show ?thesis by (simp add: inputs_of_def)
qed

lemma create_unshield_transaction_makes:
  assumes laws: "builder_laws X net"
    and "create_unshield_transaction E X W acc amount fee = Inr (W', tx)"
  shows "pays E W tx fee \<and> inputs tx = [] \<and> (\<exists>a. outputs tx = [\<lparr>address = a, content = Value amount\<rparr>]) \<and> bundle_balance tx = int (amount + fee)"
proof -
  note D = builder_lawsD [OF laws]
  from assms(2) obtain W1 key t anchor coins a change_addr b1 b2 bu pf where
    sel: "select_shielded_coins E X W1 (amount + fee) = Inr (t, anchor, coins)"
    and b: "b_add_output X (b_new X True True anchor) change_addr (t - amount - fee) (replicate 512 0) = Some b1"
      "fold_res (add_spend X key) b1 coins = Inr b2" "prove_bundle X b2 = Inr bu"
      "sign_orchard E X key \<lparr>inputs = [], utreexo_proof = pf,
         outputs = [\<lparr>address = a, content = Value amount\<rparr>], orchard_bundle = bu\<rparr> = Inr tx"
    by (auto simp: create_unshield_transaction_def Let_def result_simps add_output_def)
  note c = select_shielded_coins_Inr [OF sel]
  from prove_bundle_Inr [OF laws b(3)] sum_add_spend [OF laws b(2)] D(3) [OF b(1)] D(1) c
  obtain bb where bb: "bu = Some bb" "value_balance bb = int (amount + fee)" by fastforce
  with sign_orchard_Inr [OF laws b(4)] have
    tx: "inputs tx = inputs_of E []" "outputs tx = [\<lparr>address = a, content = Value amount\<rparr>]"
      "bundle_balance tx = int (amount + fee)"
    by (auto simp: bundle_balance_def option_rel_Some1 inputs_of_def)
  from c have "amount + fee < 2 ^ 64" by linarith
  then have "pays E W tx fee" by (intro paysI [OF tx(1)]) (simp_all add: tx(2,3) get_value_def)
  with tx show ?thesis by (simp add: inputs_of_def)
qed

lemmas create_transaction_pays = create_transaction_makes [THEN conjunct1]
lemmas create_withdrawal_pays = create_withdrawal_makes [THEN conjunct1]
lemmas create_shield_transaction_pays = create_shield_transaction_makes [THEN conjunct1]
lemmas create_shielded_transaction_pays = create_shielded_transaction_makes [THEN conjunct1]
lemmas create_unshield_transaction_pays = create_unshield_transaction_makes [THEN conjunct1]

text \<open>
  C15. Every transaction the wallet creates balances: it spends distinct coins the wallet holds, and the
  node that fills in these coins accepts its values and computes exactly the fee that was asked for,
  for transfers, withdrawals, shielding, shielded payments and unshielding alike. The builder is
  assumed to give a bundle the balance of its spends and outputs.
\<close>

theorem created_transactions_pay_fee:
  assumes "sorts_coins X" and "builder_laws X net"
  shows "(create_transaction E X W acc addr amount fee = Inr (W', tx) \<longrightarrow> pays E W tx fee)
    \<and> (create_withdrawal E X W acc main_addr amount main_fee fee = Inr (W', tx) \<longrightarrow> pays E W tx fee)
    \<and> (create_shield_transaction E X W acc amount fee = Inr (W', tx) \<longrightarrow> pays E W tx fee)
    \<and> (create_shielded_transaction E X W acc o_addr amount fee memo = Inr (W', tx) \<longrightarrow> pays E W tx fee)
    \<and> (create_unshield_transaction E X W acc amount fee = Inr (W', tx) \<longrightarrow> pays E W tx fee)"
  by (intro conjI impI; erule create_transaction_pays [OF assms(1)] create_withdrawal_pays [OF assms(1)]
      create_shield_transaction_pays [OF assms] create_shielded_transaction_pays [OF assms(2)]
      create_unshield_transaction_pays [OF assms(2)])

section \<open>Authorized transactions are accepted\<close>

text \<open>Every address the wallet knows is that of the key at its index, and every coin is at such an address.\<close>

definition addresses_ok :: "('acc, 'fr, 'pf) ext \<Rightarrow> ('tree, 'path, 'b) wallet_ext \<Rightarrow> wallet \<Rightarrow> bool" where
  "addresses_ok E X W \<longleftrightarrow>
     (\<forall>a i. fmlookup (address_to_index W) a = Some i \<longrightarrow>
        (\<exists>key. get_tx_signing_key X W i = Inr key \<and> key_address E (verifying_key_of X key) = a))
   \<and> (\<forall>op out. fmlookup (w_utxos W) op = Some out \<longrightarrow> has_key (address_to_index W) (address out))"

lemma get_tx_signing_key_cong: "seed W' = seed W \<Longrightarrow> get_tx_signing_key X W' i = get_tx_signing_key X W i"
  by (simp add: get_tx_signing_key_def get_master_seed_def)

lemma get_new_transparent_address_ok:
  assumes "addresses_ok E X W" and "get_new_transparent_address E X W = Inr (W', addr)"
  shows "addresses_ok E X W' \<and> w_utxos W' = w_utxos W"
proof -
  from assms(2) obtain index key where
    k: "get_tx_signing_key X W index = Inr key" "addr = key_address E (verifying_key_of X key)"
    and W': "W' = W\<lparr>index_to_address := fmupd index addr (index_to_address W),
      address_to_index := fmupd addr index (address_to_index W)\<rparr>"
    by (auto simp: get_new_transparent_address_def Let_def result_simps)
  have "get_tx_signing_key X W' i = get_tx_signing_key X W i" for i
    by (rule get_tx_signing_key_cong) (simp add: W')
  with assms(1) k show ?thesis by (auto simp: addresses_ok_def W')
qed

lemma authorize_input_ok:
  assumes "addresses_ok E X W" and "fmlookup (w_utxos W) (fst i) = Some out"
  shows "\<exists>key. authorize_input E X W tx i = Inr \<lparr>verifying_key = verifying_key_of X key, signature = sign E X key tx\<rparr>
    \<and> key_address E (verifying_key_of X key) = address out"
proof -
  from assms obtain idx where idx: "fmlookup (address_to_index W) (address out) = Some idx"
    unfolding addresses_ok_def by blast
  with assms(1) obtain key where "get_tx_signing_key X W idx = Inr key"
    "key_address E (verifying_key_of X key) = address out" unfolding addresses_ok_def by blast
  with assms(2) idx show ?thesis by (intro exI [of _ key]) (simp add: authorize_input_def)
qed

lemma authorize_inputs_ok:
  assumes "addresses_ok E X W" and "map (fmlookup (w_utxos W)) (map fst ins) = map Some outs"
  shows "\<exists>keys. map_res (authorize_input E X W tx) ins
      = Inr (map (\<lambda>key. \<lparr>verifying_key = verifying_key_of X key, signature = sign E X key tx\<rparr>) keys)
    \<and> length keys = length ins \<and> map (\<lambda>key. key_address E (verifying_key_of X key)) keys = map address outs"
  using assms(2)
proof (induction ins arbitrary: outs)
  case Nil
  then show ?case by simp
next
  case (Cons i ins)
  then obtain out outs' where outs: "outs = out # outs'" by (cases outs) auto
  with Cons.prems have i: "fmlookup (w_utxos W) (fst i) = Some out" by simp
  from authorize_input_ok [OF assms(1) i] obtain key where
    "authorize_input E X W tx i = Inr \<lparr>verifying_key = verifying_key_of X key, signature = sign E X key tx\<rparr>"
    "key_address E (verifying_key_of X key) = address out" by blast
  moreover from Cons.IH [of outs'] Cons.prems outs obtain keys where
    "map_res (authorize_input E X W tx) ins
       = Inr (map (\<lambda>key. \<lparr>verifying_key = verifying_key_of X key, signature = sign E X key tx\<rparr>) keys)"
    "length keys = length ins" "map (\<lambda>key. key_address E (verifying_key_of X key)) keys = map address outs'" by auto
  ultimately show ?case by (intro exI [of _ "key # keys"]) (simp add: outs)
qed

lemma map_res_lookup:
  assumes "map (fmlookup m) (map fst ins) = map Some outs"
    and "\<And>op out. fmlookup m op = Some out \<Longrightarrow> f op = Inr out"
  shows "map_res (\<lambda>(op, _). f op) ins = Inr outs"
  using assms(1)
proof (induction ins arbitrary: outs)
  case Nil
  then show ?case by simp
next
  case (Cons i ins)
  then obtain out outs' where "outs = out # outs'" by (cases outs) auto
  with Cons assms(2) show ?case by (cases i) auto
qed

lemma check_addresses_ok:
  assumes "map (auth_address E) auths = map address outs"
  shows "check_addresses E auths outs = Inr ()"
proof -
  have "\<forall>(a, out)\<in>set (zip auths outs). auth_address E a = address out"
    using assms by (auto simp: set_zip list_eq_iff_nth_eq)
  then show ?thesis by (auto simp: check_addresses_def fold_res_unit)
qed

text \<open>What the wallet relies on of Ed25519: its own signatures verify together.\<close>

definition signatures_verify :: "('acc, 'fr, 'pf) ext \<Rightarrow> ('tree, 'path, 'b) wallet_ext \<Rightarrow> bool" where
  "signatures_verify E X \<longleftrightarrow>
     (\<forall>keys msg. verify_batch E (map (\<lambda>k. (msg, sign_bytes X k msg, verifying_key_of X k)) keys))"

lemma transparent_accepted:
  assumes "addresses_ok E X W" and "signatures_verify E X" and "pays E W tx fee" and "orchard_bundle tx = None"
    and "\<And>op out. fmlookup (w_utxos W) op = Some out \<Longrightarrow> fmlookup (utxos S) (out_point_key op) = Some out"
  shows "\<exists>at. authorize E X W tx = Inr at \<and> transaction at = tx \<and> validate_transaction E S at = Inr fee"
proof -
  from assms(3) obtain spent where
    sp: "map (fmlookup (w_utxos W)) (map fst (inputs tx)) = map Some spent"
      "validate_filled_transaction E \<lparr>ft_transaction = tx, spent_utxos = spent\<rparr> = Inr fee"
    by (auto simp: pays_def)
  from authorize_inputs_ok [OF assms(1) sp(1), of tx] obtain keys where
    k: "map_res (authorize_input E X W tx) (inputs tx)
         = Inr (map (\<lambda>key. \<lparr>verifying_key = verifying_key_of X key, signature = sign E X key tx\<rparr>) keys)"
      "length keys = length (inputs tx)" "map (\<lambda>key. key_address E (verifying_key_of X key)) keys = map address spent"
    by blast
  let ?auths = "map (\<lambda>key. \<lparr>verifying_key = verifying_key_of X key, signature = sign E X key tx\<rparr>) keys"
  let ?at = "\<lparr>transaction = tx, authorizations = ?auths\<rparr>"
  have "map_res (\<lambda>(op, _). ok_or (NoUtxo op) (fmlookup (utxos S) (out_point_key op))) (inputs tx) = Inr spent"
    using map_res_lookup [OF sp(1), of "\<lambda>op. ok_or (NoUtxo op) (fmlookup (utxos S) (out_point_key op))"] assms(5)
    by simp
  moreover have "check_addresses E ?auths spent = Inr ()"
    by (rule check_addresses_ok) (use k(3) in \<open>simp add: auth_address_def comp_def\<close>)
  moreover have "verify_authorized_transaction E ?at = Inr ()"
    using assms(2,4) k(2)
    by (simp add: verify_authorized_transaction_def check_count_def verify_orchard_def signatures_verify_def
        sign_def comp_def)
  ultimately have "validate_transaction E S ?at = Inr fee"
    using sp(2) assms(4)
    by (simp add: validate_transaction_def fill_transaction_def validate_anchor_of_def)
  then show ?thesis using k(1) by (simp add: authorize_def)
qed

text \<open>
  C35. A payment goes through: when the wallet has created a transfer or a withdrawal, it can authorize it,
  and a node that holds the coins of the wallet as unspent outputs accepts the authorized transaction with the
  requested fee. Here the addresses of the wallet belong to its keys, which every new address keeps.
\<close>

theorem wallet_payment_accepted:
  assumes "sorts_coins X" and "addresses_ok E X W" and "signatures_verify E X"
    and "\<forall>op out. fmlookup (w_utxos W) op = Some out \<longrightarrow> fmlookup (utxos S) (out_point_key op) = Some out"
    and "create_transaction E X W acc addr amount fee = Inr (W', tx)
      \<or> create_withdrawal E X W acc main_addr amount main_fee fee = Inr (W', tx)"
  shows "addresses_ok E X W' \<and> (\<exists>at. authorize E X W' tx = Inr at \<and> transaction at = tx
    \<and> validate_transaction E S at = Inr fee)"
proof -
  have "pays E W tx fee"
    using assms(5) create_transaction_pays [OF assms(1)] create_withdrawal_pays [OF assms(1)] by auto
  moreover have W': "addresses_ok E X W' \<and> w_utxos W' = w_utxos W" "orchard_bundle tx = None"
    using assms(5)
  proof (atomize (full), elim disjE)
    assume "create_transaction E X W acc addr amount fee = Inr (W', tx)"
    then obtain a where "get_new_transparent_address E X W = Inr (W', a)" "orchard_bundle tx = None"
      by (auto simp: create_transaction_def Let_def result_simps)
    then show "(addresses_ok E X W' \<and> w_utxos W' = w_utxos W) \<and> orchard_bundle tx = None"
      using get_new_transparent_address_ok [OF assms(2)] by blast
  next
    assume "create_withdrawal E X W acc main_addr amount main_fee fee = Inr (W', tx)"
    then obtain W1 a a' where W1: "get_new_transparent_address E X W = Inr (W1, a)"
      "get_new_transparent_address E X W1 = Inr (W', a')" "orchard_bundle tx = None"
      by (auto simp: create_withdrawal_def Let_def result_simps)
    from get_new_transparent_address_ok [OF assms(2) W1(1)] have "addresses_ok E X W1" "w_utxos W1 = w_utxos W" by auto
    with get_new_transparent_address_ok [OF this(1) W1(2)] W1(3)
    show "(addresses_ok E X W' \<and> w_utxos W' = w_utxos W) \<and> orchard_bundle tx = None" by simp
  qed
  ultimately have "pays E W' tx fee" by (simp add: pays_def)
  with transparent_accepted [of E X W' tx fee S] W' assms(3,4) show ?thesis by simp
qed

section \<open>Examples\<close>

text \<open>A builder that counts values, keys that are their index, and a wallet with the coin of the example state.\<close>

definition example_wallet_ext :: "(unit, unit, int \<times> nat) wallet_ext" where
  "example_wallet_ext =
    \<lparr>derive_priv = (\<lambda>_ path. Inr (case last path of Hardened i \<Rightarrow> word_of_nat i | Normal i \<Rightarrow> word_of_nat i)),
     from_zip32_seed = Inr, verifying_key_of = id, sign_bytes = (\<lambda>_ _. 0),
     mnemonic_seed = (\<lambda>phrase. if phrase = [] then None else Some [7]),
     address_at = (\<lambda>key i. OrchardAddress (key + word_of_nat i)),
     note_nullifier = (\<lambda>_ n. Nullifier (note_data n)),
     decrypt_outputs = (\<lambda>_ _. []), recover_outputs = (\<lambda>_ _. []),
     tree_load = (\<lambda>_. Inr ()), tree_flush = (\<lambda>_ D. Inr D),
     tree_max_leaf_position = (\<lambda>_. Some None), tree_append = (\<lambda>_ _ _. Some ()),
     tree_checkpoint = (\<lambda>_ _. Some ()), tree_truncate_to_checkpoint = (\<lambda>_ _. Some ((), True)),
     tree_root_at_checkpoint_depth = (\<lambda>_ d. Some (if d = 0 then Some (Anchor 1) else None)),
     tree_witness_at_checkpoint_depth = (\<lambda>_ _ _. Some (Some ())),
     sort_coins = sort_key coin_value, shuffle = id, choose_one = (\<lambda>nfs. if nfs = [] then None else Some (hd nfs)),
     nullifier_rank = (\<lambda>n. case n of Nullifier h \<Rightarrow> unat h), dummy_address = OrchardAddress 0,
     b_new = (\<lambda>_ _ _. (0, 0)), b_add_spend = (\<lambda>(v, k) _ n _. Some (v + int (note_value n), k)),
     b_add_output = (\<lambda>(v, k) _ x _. Some (v - int x, Suc k)),
     b_spends = (\<lambda>_. 1), b_outputs = snd, b_value_balance = (\<lambda>(v, _). Some v),
     b_build = (\<lambda>(v, k). Some (if k = 0 then None
       else Some \<lparr>actions = [], spends_enabled = True, value_balance = v, bundle_anchor = Anchor 1,
         bundle_authorization = []\<rparr>)),
     create_proof = Some, apply_signatures = (\<lambda>bu _ _. Some bu)\<rparr>"

definition example_wallet :: wallet where
  "example_wallet =
    \<lparr>seed = Some [7], address_to_index = fmupd (TransparentAddress 32) 0 fmempty,
     index_to_address = fmupd 0 (TransparentAddress 32) fmempty,
     orchard_address_to_index = fmempty, orchard_index_to_address = fmempty, orchard_memos = fmempty,
     orchard_note_commitments = \<lparr>cap = None, checkpoint_seq_to_tip = fmempty, checkpoints = fmempty,
       position_to_checkpoint_seq = {||}, shards = fmempty\<rparr>,
     orchard_notes = fmempty, orchard_notes_unconfirmed = fmempty, orchard_spent_notes = fmempty,
     orchard_spent_notes_unconfirmed = fmempty, w_utxos = fmupd (Deposit 1 0) (example_output 10) fmempty,
     w_utxos_unconfirmed = fmempty, w_stxos = fmempty, w_stxos_unconfirmed = fmempty, w_tip = None\<rparr>"

lemma example_sorts: "sorts_coins example_wallet_ext"
  by (simp add: sorts_coins_def example_wallet_ext_def)

lemma example_builder: "builder_laws example_wallet_ext fst"
  by (auto simp: builder_laws_def example_wallet_ext_def split: if_splits)

lemma example_address [simp]: "key_address example_ext key = TransparentAddress 32"
  by (simp add: key_address_def example_ext_def)

lemma example_addresses: "addresses_ok example_ext example_wallet_ext example_wallet"
  by (auto simp: addresses_ok_def example_wallet_def get_tx_signing_key_def get_master_seed_def
      example_wallet_ext_def example_output_def split: if_splits)

lemma example_signatures: "signatures_verify example_ext example_wallet_ext"
  by (simp add: signatures_verify_def example_ext_def)

lemma example_coins: "sorted_list_of_fmap (w_utxos example_wallet) = [(Deposit 1 0, example_output 10)]"
  by (simp add: example_wallet_def sorted_list_of_fmap_def sorted_list_of_fset.rep_eq)

lemma example_spendable: "spendable_value example_wallet = 10"
  by (simp add: spendable_value_def example_coins example_output_def get_value_def)

theorem select_transparent_coins_correct_witness:
  "(\<exists>r. select_transparent_coins example_wallet_ext example_wallet 8 = Inr r)
   \<and> select_transparent_coins example_wallet_ext example_wallet 11 = Inl (Err NotEnoughFunds)"
  using select_transparent_coins_correct [OF example_sorts, of example_wallet 8]
    select_transparent_coins_correct [OF example_sorts, of example_wallet 11]
  by (simp add: example_spendable)

lemma example_select:
  "v \<le> 10 \<Longrightarrow> select_transparent_coins example_wallet_ext example_wallet v = Inr (10, [(Deposit 1 0, example_output 10)])"
  using example_coins
  by (simp add: select_transparent_coins_def example_wallet_ext_def amount_add_def checked_add_def
      example_output_def get_value_def)

lemma example_new_address:
  "\<exists>W. get_new_transparent_address example_ext example_wallet_ext example_wallet = Inr (W, TransparentAddress 32)"
  by (simp add: get_new_transparent_address_def next_index_def last_entry_def example_wallet_def
      sorted_list_of_fmap_def sorted_list_of_fset.rep_eq add_u32_def checked_add_def get_tx_signing_key_def
      get_master_seed_def example_wallet_ext_def Let_def)

lemma example_create:
  "\<exists>W tx. create_transaction example_ext example_wallet_ext example_wallet [66] (TransparentAddress 5) 7 3 = Inr (W, tx)"
proof -
  obtain W where "get_new_transparent_address example_ext example_wallet_ext example_wallet
      = Inr (W, TransparentAddress 32)" using example_new_address by blast
  moreover have "prove_inputs example_ext [66] (inputs_of example_ext [(Deposit 1 0, example_output 10)]) = Inr ()"
    by (simp add: prove_inputs_def inputs_of_def) (simp add: example_ext_def)
  ultimately show ?thesis
    by (simp add: create_transaction_def amount_add_def amount_minus_def checked_add_def checked_sub_def
        example_select Let_def)
qed

text \<open>Shielding seven of the ten leaves no change, and the wallet has no note to consolidate.\<close>

lemma example_shield:
  "\<exists>W tx. create_shield_transaction example_ext example_wallet_ext example_wallet [66] 7 3 = Inr (W, tx)"
proof -
  let ?coins = "[(Deposit 1 0, example_output 10)]"
  obtain W where W: "get_new_orchard_address example_wallet_ext example_wallet = Inr (W, OrchardAddress 0)"
      "seed W = Some [7]" "orchard_notes W = fmempty"
    by (simp add: get_new_orchard_address_def next_index_def last_entry_def sorted_list_of_fmap_def
        sorted_list_of_fset.rep_eq Let_def example_wallet_def get_orchard_spending_key_def get_master_seed_def
        example_wallet_ext_def)
  have pf: "prove_inputs example_ext [66] (inputs_of example_ext ?coins) = Inr ()"
    by (simp add: prove_inputs_def inputs_of_def) (simp add: example_ext_def)
  have key: "get_orchard_spending_key example_wallet_ext W = Inr 0"
    using W(2) by (simp add: get_orchard_spending_key_def get_master_seed_def example_wallet_ext_def)
  have cons: "consolidation example_wallet_ext W = Inr None"
    using W(3) by (simp add: consolidation_def note_keys_def sorted_list_of_fset.rep_eq example_wallet_ext_def)
  have b: "b_new example_wallet_ext False True a = (0, 0)"
    "b_add_output example_wallet_ext (0, 0) addr 7 m = Some (- 7, 1)"
    "b_value_balance example_wallet_ext (0, 0) = Some 0" for a addr m
    by (simp_all add: example_wallet_ext_def)
  obtain bu where "prove_bundle example_wallet_ext (- 7, 1) = Inr bu"
    by (simp add: prove_bundle_def builder_build_def example_wallet_ext_def numeral_2_eq_2)
  moreover obtain tx where "sign_orchard example_ext example_wallet_ext 0
      \<lparr>inputs = inputs_of example_ext ?coins, utreexo_proof = (), outputs = [], orchard_bundle = bu\<rparr> = Inr tx"
    by (cases bu) (simp_all add: sign_orchard_def example_wallet_ext_def)
  moreover have "get_value (example_output 10) = 10" by (simp add: example_output_def get_value_def)
  ultimately show ?thesis using W(1) pf key cons b
    by (simp add: create_shield_transaction_def create_shield_transaction_from_utxos_def example_select Let_def
        amount_add_def checked_add_def checked_sub_def add_output_def shield_builder_def)
qed

theorem created_transactions_pay_fee_witness:
  "(\<exists>W tx. create_transaction example_ext example_wallet_ext example_wallet [66] (TransparentAddress 5) 7 3 = Inr (W, tx)
     \<and> pays example_ext example_wallet tx 3)
   \<and> (\<exists>W tx. create_shield_transaction example_ext example_wallet_ext example_wallet [66] 7 3 = Inr (W, tx)
     \<and> pays example_ext example_wallet tx 3)"
proof -
  note paid = created_transactions_pay_fee [OF example_sorts example_builder]
  obtain W tx V sx where
    c: "create_transaction example_ext example_wallet_ext example_wallet [66] (TransparentAddress 5) 7 3 = Inr (W, tx)"
    and s: "create_shield_transaction example_ext example_wallet_ext example_wallet [66] 7 3 = Inr (V, sx)"
    using example_create example_shield by blast
  from paid [THEN conjunct1, rule_format, OF c]
    paid [THEN conjunct2, THEN conjunct2, THEN conjunct1, rule_format, OF s] c s
  show ?thesis by blast
qed

theorem wallet_payment_accepted_witness:
  "\<exists>W tx at. create_transaction example_ext example_wallet_ext example_wallet [66] (TransparentAddress 5) 7 3 = Inr (W, tx)
     \<and> authorize example_ext example_wallet_ext W tx = Inr at
     \<and> validate_transaction example_ext example_state at = Inr 3"
proof -
  obtain W tx where c:
    "create_transaction example_ext example_wallet_ext example_wallet [66] (TransparentAddress 5) 7 3 = Inr (W, tx)"
    using example_create by blast
  have "\<forall>op out. fmlookup (w_utxos example_wallet) op = Some out \<longrightarrow>
      fmlookup (utxos example_state) (out_point_key op) = Some out"
    by (auto simp: example_wallet_def example_state_def split: if_splits)
  from wallet_payment_accepted [OF example_sorts example_addresses example_signatures this disjI1 [OF c]] c
  show ?thesis by blast
qed

end
