(* ===== verification/Wallet_Notes.thy ===== *)
theory Wallet_Notes
  imports Wallet_Coins
begin

text \<open>
  The shielded side of the wallet. Connecting a bundle removes every note that it spends and records each
  under the transaction and the index of its action; disconnecting the transaction puts notes back under the
  same nullifiers. An anchor is taken at the deepest checkpoint there is.
\<close>

section \<open>Spending notes\<close>

text \<open>An action that spends a note has the same effect whether or not its output could be recovered.\<close>

lemma spend_known_action_eq:
  "spend_known_action confirmed txid bundle W (idx, n) =
     (if idx < length (actions bundle) then Inr (spend_other_action confirmed txid idx (actions bundle ! idx) W)
      else Inl Panic)"
  by (auto simp: spend_known_action_def spend_other_action_def Let_def not_less fmap_ext split: option.split)

lemma fold_spend_known:
  assumes "fold_res (spend_known_action confirmed txid bundle) W outgoing = Inr W'"
  shows "fst ` set outgoing \<subseteq> {..<length (actions bundle)}
    \<and> W' = fold (\<lambda>(idx, act). spend_other_action confirmed txid idx act)
        (map (\<lambda>(idx, _). (idx, actions bundle ! idx)) outgoing) W"
  using assms
proof (induction outgoing arbitrary: W)
  case Nil
  then show ?case by simp
next
  case (Cons x xs)
  then show ?case by (cases x) (auto simp: spend_known_action_eq split: if_splits)
qed

lemma fold_append_action:
  assumes "fold_res (\<lambda>(W, tree) (idx, act).
      map_ok (\<lambda>tree. (if idx \<in> Out then W else spend_other_action confirmed txid idx act W, tree))
        (append_action X (idx \<in> In) act tree)) (W, tree) as = Inr (W', tree')"
  shows "W' = fold (\<lambda>(idx, act). spend_other_action confirmed txid idx act) (filter (\<lambda>(idx, _). idx \<notin> Out) as) W"
  using assms
proof (induction as arbitrary: W tree)
  case Nil
  then show ?case by simp
next
  case (Cons a as)
  then show ?case by (cases a) (force simp: result_simps)
qed

text \<open>The actions in the order in which the wallet looks at them.\<close>

definition action_order :: "orchard_bundle \<Rightarrow> (nat \<times> 'n) list \<Rightarrow> (nat \<times> action) list" where
  "action_order bundle outgoing =
     map (\<lambda>(idx, _). (idx, actions bundle ! idx)) outgoing
     @ filter (\<lambda>(idx, _). idx \<notin> fst ` set outgoing) (enumerate 0 (actions bundle))"

lemma set_action_order:
  "fst ` set outgoing \<subseteq> {..<length (actions bundle)}
     \<Longrightarrow> set (action_order bundle outgoing) = set (enumerate 0 (actions bundle))"
  by (auto simp: action_order_def in_set_enumerate_eq split: prod.splits)

lemma connect_orchard_bundle_spends:
  assumes "connect_orchard_bundle X key tree txid bundle W = Inr (W', tree')"
  obtains W1 next_leaf where "next_leaf_position X tree = Inr next_leaf"
    and "fold_res (receive_note X key next_leaf txid) W (decrypt_outputs X key bundle) = Inr W1"
    and "fst ` set (recover_outputs X key bundle) \<subseteq> {..<length (actions bundle)}"
    and "W' = fold (\<lambda>(idx, act). spend_other_action (tree \<noteq> None) txid idx act)
      (action_order bundle (recover_outputs X key bundle)) W1"
proof -
  from assms obtain next_leaf W1 W2 where
    c: "next_leaf_position X tree = Inr next_leaf"
      "fold_res (receive_note X key next_leaf txid) W (decrypt_outputs X key bundle) = Inr W1"
      "fold_res (spend_known_action (tree \<noteq> None) txid bundle) W1 (recover_outputs X key bundle) = Inr W2"
    and f: "fold_res (\<lambda>(W, t) (idx, act).
      map_ok (\<lambda>t. (if idx \<in> fst ` set (recover_outputs X key bundle) then W
          else spend_other_action (tree \<noteq> None) txid idx act W, t))
        (append_action X (idx \<in> fst ` set (decrypt_outputs X key bundle)) act t))
      (W2, tree) (enumerate 0 (actions bundle)) = Inr (W', tree')"
    unfolding connect_orchard_bundle_def Let_def and_then_eq_Inr by blast
  from fold_spend_known [OF c(3)] fold_append_action [OF f] c(1,2) that show thesis
    by (simp add: action_order_def)
qed

lemma spend_other_notes [simp]:
  "fmlookup (orchard_notes (spend_other_action confirmed txid idx act W)) x =
     (if x = act_nullifier act then None else fmlookup (orchard_notes W) x)"
  by (auto simp: spend_other_action_def find_spent_note_def Let_def split: option.split)

lemma fold_spend_notes:
  "fmlookup (orchard_notes (fold (\<lambda>(idx, act). spend_other_action confirmed txid idx act) as W)) x =
     (if x \<in> act_nullifier ` snd ` set as then None else fmlookup (orchard_notes W) x)"
  by (induction as arbitrary: W) auto

lemma receive_note_other:
  assumes "receive_note X key next_leaf txid W (idx, n, memo) = Inr W'"
  shows "orchard_spent_notes W' = orchard_spent_notes W
    \<and> orchard_spent_notes_unconfirmed W' = orchard_spent_notes_unconfirmed W
    \<and> (x \<noteq> note_nullifier X key n \<longrightarrow> fmlookup (orchard_notes W') x = fmlookup (orchard_notes W) x)"
  using assms by (auto simp: receive_note_def Let_def result_simps split: option.splits if_splits)

lemma receive_notes_other:
  assumes "fold_res (receive_note X key next_leaf txid) W ns = Inr W'"
  shows "orchard_spent_notes W' = orchard_spent_notes W
    \<and> orchard_spent_notes_unconfirmed W' = orchard_spent_notes_unconfirmed W
    \<and> (x \<notin> (\<lambda>(_, n, _). note_nullifier X key n) ` set ns \<longrightarrow>
        fmlookup (orchard_notes W') x = fmlookup (orchard_notes W) x)"
  using assms
proof (induction ns arbitrary: W)
  case Nil
  then show ?case by simp
next
  case (Cons a ns)
  obtain idx n memo where a: "a = (idx, n, memo)" by (cases a)
  from Cons.prems obtain W1 where "receive_note X key next_leaf txid W (idx, n, memo) = Inr W1"
    "fold_res (receive_note X key next_leaf txid) W1 ns = Inr W'" by (auto simp: a result_simps)
  with receive_note_other [OF this(1), of x] Cons.IH [OF this(2)] show ?case by (simp add: a)
qed

lemma find_spent_note_cong:
  assumes "fmlookup (orchard_notes W') nf = fmlookup (orchard_notes W) nf"
    and "fmlookup (orchard_spent_notes_unconfirmed W') k = fmlookup (orchard_spent_notes_unconfirmed W) k"
  shows "find_spent_note W' nf k = find_spent_note W nf k"
  using assms by (simp add: find_spent_note_def split: option.split)

lemma spend_other_spent:
  "orchard_spent_notes (spend_other_action True txid idx act W) =
     (case find_spent_note W (act_nullifier act) (txid, u32_of idx) of
        None \<Rightarrow> orchard_spent_notes W | Some np \<Rightarrow> fmupd (txid, u32_of idx) np (orchard_spent_notes W))"
  by (simp add: spend_other_action_def Let_def split: option.split)

lemma spend_other_unconfirmed:
  "k \<noteq> (txid, u32_of idx) \<Longrightarrow>
     fmlookup (orchard_spent_notes_unconfirmed (spend_other_action confirmed txid idx act W)) k
       = fmlookup (orchard_spent_notes_unconfirmed W) k"
  by (simp add: spend_other_action_def Let_def split: option.split)

text \<open>Each action that spends a note records it under its own index.\<close>

lemma fold_spend_spent:
  assumes "distinct (map fst as)" and "distinct (map (act_nullifier \<circ> snd) as)" and "\<forall>(i, _)\<in>set as. i < 2 ^ 32"
  shows "fmlookup (orchard_spent_notes (fold (\<lambda>(idx, act). spend_other_action True txid idx act) as W)) k =
    (case if fst k = txid then map_of as (snd k) else None of
       None \<Rightarrow> fmlookup (orchard_spent_notes W) k
     | Some act \<Rightarrow> (case find_spent_note W (act_nullifier act) k of
         None \<Rightarrow> fmlookup (orchard_spent_notes W) k | Some np \<Rightarrow> Some np))"
  using assms
proof (induction as arbitrary: W)
  case Nil
  then show ?case by simp
next
  case (Cons a as)
  obtain i act where a: "a = (i, act)" by (cases a)
  let ?W = "spend_other_action True txid i act W"
  have i: "u32_of i = i" using Cons.prems(3) by (simp add: a u32_of_def)
  have IH: "fmlookup (orchard_spent_notes (fold (\<lambda>(idx, act). spend_other_action True txid idx act) as ?W)) k =
    (case if fst k = txid then map_of as (snd k) else None of
       None \<Rightarrow> fmlookup (orchard_spent_notes ?W) k
     | Some act \<Rightarrow> (case find_spent_note ?W (act_nullifier act) k of
         None \<Rightarrow> fmlookup (orchard_spent_notes ?W) k | Some np \<Rightarrow> Some np))"
    using Cons.prems by (intro Cons.IH) auto
  show ?case
  proof (cases "k = (txid, i)")
    case True
    moreover have "map_of as i = None" using Cons.prems(1) by (simp add: a map_of_eq_None_iff)
    ultimately show ?thesis using IH by (simp add: a spend_other_spent i split: option.split)
  next
    case False
    then have sp: "fmlookup (orchard_spent_notes ?W) k = fmlookup (orchard_spent_notes W) k"
      by (simp add: spend_other_spent i split: option.split)
    have "find_spent_note ?W (act_nullifier act') k = find_spent_note W (act_nullifier act') k"
      if "map_of as j = Some act'" for j act'
    proof (rule find_spent_note_cong)
      from map_of_SomeD [OF that] have "act_nullifier act' \<in> set (map (act_nullifier \<circ> snd) as)" by force
      moreover have "act_nullifier act \<notin> set (map (act_nullifier \<circ> snd) as)" using Cons.prems(2) by (simp add: a)
      ultimately have "act_nullifier act' \<noteq> act_nullifier act" by metis
      then show "fmlookup (orchard_notes ?W) (act_nullifier act') = fmlookup (orchard_notes W) (act_nullifier act')" by simp
      show "fmlookup (orchard_spent_notes_unconfirmed ?W) k = fmlookup (orchard_spent_notes_unconfirmed W) k"
        using False by (intro spend_other_unconfirmed) (simp add: i)
    qed
    with IH sp False show ?thesis by (cases k) (auto simp: a split: option.split)
  qed
qed

section \<open>Putting notes back\<close>

text \<open>One step of both loops of a disconnect; the first puts back the note it recovered.\<close>

definition put_back :: "txid \<Rightarrow> nat \<times> action \<times> orchard_note option \<Rightarrow> wallet \<Rightarrow> wallet" where
  "put_back txid x W =
     (case x of (idx, act, recovered) \<Rightarrow>
        case fmlookup (orchard_spent_notes W) (txid, u32_of idx) of
          None \<Rightarrow> W
        | Some (n, pos) \<Rightarrow>
            W\<lparr>orchard_spent_notes := fmdrop (txid, u32_of idx) (orchard_spent_notes W),
              orchard_notes := fmupd (act_nullifier act) (case recovered of None \<Rightarrow> n | Some n' \<Rightarrow> n', pos)
                (orchard_notes W)\<rparr>)"

lemma unspend_known_action_eq:
  "unspend_known_action txid bundle W (idx, n) =
     (if idx < length (actions bundle) then Inr (put_back txid (idx, actions bundle ! idx, Some n) W) else Inl Panic)"
  by (auto simp: unspend_known_action_def put_back_def Let_def not_less split: option.split)

lemma unspend_other_action_eq: "unspend_other_action txid (idx, act) = put_back txid (idx, act, None)"
  by (rule ext) (auto simp: unspend_other_action_def put_back_def Let_def split: option.split)

definition undo_order :: "orchard_bundle \<Rightarrow> (nat \<times> orchard_note) list \<Rightarrow> (nat \<times> action \<times> orchard_note option) list" where
  "undo_order bundle outgoing =
     map (\<lambda>(idx, n). (idx, actions bundle ! idx, Some n)) (rev outgoing)
     @ map (\<lambda>(idx, act). (idx, act, None))
         (filter (\<lambda>(idx, _). idx \<notin> fst ` set outgoing) (rev (enumerate 0 (actions bundle))))"

lemma fold_unspend_known:
  assumes "fst ` set outgoing \<subseteq> {..<length (actions bundle)}"
  shows "fold_res (unspend_known_action txid bundle) W outgoing
    = Inr (fold (put_back txid) (map (\<lambda>(idx, n). (idx, actions bundle ! idx, Some n)) outgoing) W)"
  using assms
proof (induction outgoing arbitrary: W)
  case Nil
  then show ?case by simp
next
  case (Cons x xs)
  then show ?case by (cases x) (simp add: unspend_known_action_eq)
qed

lemma disconnect_orchard_tx_unspends:
  assumes "orchard_bundle tx = Some bundle"
    and "fst ` set (recover_outputs X key bundle) \<subseteq> {..<length (actions bundle)}"
  shows "disconnect_orchard_tx E X key W tx = Inr (fold (put_back (tx_txid E tx)) (undo_order bundle (recover_outputs X key bundle))
    (fold (unreceive_note X key) (rev (decrypt_outputs X key bundle)) W))"
proof -
  have "unspend_other_action txid = (\<lambda>(idx, act). put_back txid (idx, act, None))" for txid
    by (auto simp: unspend_other_action_eq)
  moreover have "fst ` set (rev (recover_outputs X key bundle)) \<subseteq> {..<length (actions bundle)}" using assms(2) by simp
  ultimately show ?thesis
    using assms(1) by (simp add: disconnect_orchard_tx_def Let_def fold_unspend_known undo_order_def fold_map comp_def
        case_prod_unfold)
qed

lemma fold_unreceive:
  "fmlookup (orchard_notes (fold (unreceive_note X key) ns W)) x =
     (if x \<in> (\<lambda>(_, n, _). note_nullifier X key n) ` set ns then None else fmlookup (orchard_notes W) x)
   \<and> orchard_spent_notes (fold (unreceive_note X key) ns W) = orchard_spent_notes W"
  by (induction ns arbitrary: W) (auto simp: unreceive_note_def)

lemma unspend_spent:
  "fmlookup (orchard_spent_notes (put_back txid (idx, act, r) W)) k =
     (if k = (txid, u32_of idx) then None else fmlookup (orchard_spent_notes W) k)"
  by (auto simp: put_back_def split: option.split)

lemma fold_unspend_spent:
  "fmlookup (orchard_spent_notes (fold (put_back txid) us W)) k =
     (if k \<in> (\<lambda>u. (txid, u32_of (fst u))) ` set us then None else fmlookup (orchard_spent_notes W) k)"
proof (induction us arbitrary: W)
  case Nil
  then show ?case by simp
next
  case (Cons u us)
  then show ?case by (cases u) (auto simp: unspend_spent)
qed

lemma unspend_notes:
  "fmlookup (orchard_notes (put_back txid (idx, act, r) W)) x =
     (if x = act_nullifier act then
        case fmlookup (orchard_spent_notes W) (txid, u32_of idx) of
          None \<Rightarrow> fmlookup (orchard_notes W) x
        | Some (n, pos) \<Rightarrow> Some (case r of None \<Rightarrow> n | Some n' \<Rightarrow> n', pos)
      else fmlookup (orchard_notes W) x)"
  by (auto simp: put_back_def split: option.split)

lemma fold_unspend_others:
  "x \<notin> (\<lambda>(_, act, _). act_nullifier act) ` set us \<Longrightarrow>
     fmlookup (orchard_notes (fold (put_back txid) us W)) x = fmlookup (orchard_notes W) x"
proof (induction us arbitrary: W)
  case Nil
  then show ?case by simp
next
  case (Cons u us)
  then show ?case by (cases u) (simp add: unspend_notes)
qed

lemma fold_unspend_notes:
  assumes "distinct (map (\<lambda>u. u32_of (fst u)) us)" and "distinct (map (\<lambda>(_, act, _). act_nullifier act) us)"
    and "(idx, act, r) \<in> set us"
  shows "fmlookup (orchard_notes (fold (put_back txid) us W)) (act_nullifier act) =
    (case fmlookup (orchard_spent_notes W) (txid, u32_of idx) of
       None \<Rightarrow> fmlookup (orchard_notes W) (act_nullifier act)
     | Some (n, pos) \<Rightarrow> Some (case r of None \<Rightarrow> n | Some n' \<Rightarrow> n', pos))"
  using assms
proof (induction us arbitrary: W)
  case Nil
  then show ?case by simp
next
  case (Cons u us)
  show ?case
  proof (cases "u = (idx, act, r)")
    case True
    with Cons.prems(2) have "act_nullifier act \<notin> (\<lambda>(_, act, _). act_nullifier act) ` set us" by simp
    then show ?thesis by (simp add: True fold_unspend_others unspend_notes)
  next
    case False
    with Cons.prems(3) have m: "(idx, act, r) \<in> set us" by simp
    obtain i a r' where u: "u = (i, a, r')" by (cases u)
    from Cons.prems(1,2) m have "u32_of i \<noteq> u32_of idx" "act_nullifier a \<noteq> act_nullifier act" by (force simp: u)+
    with Cons m show ?thesis by (simp add: u unspend_notes unspend_spent split: option.split)
  qed
qed

section \<open>Bundles\<close>

lemma nullifiers_at:
  assumes "distinct (nullifiers bundle)" and "distinct is" and "set is \<subseteq> {..<length (actions bundle)}"
  shows "distinct (map (\<lambda>i. act_nullifier (actions bundle ! i)) is)"
proof -
  have "inj_on (\<lambda>i. act_nullifier (actions bundle ! i)) {..<length (actions bundle)}"
    using assms(1) by (auto simp: nullifiers_def distinct_conv_nth inj_on_def)
  with assms(2,3) show ?thesis by (simp add: distinct_map inj_on_subset)
qed

text \<open>What the wallet relies on of the recovery of outputs: at most one output for each action of the bundle.\<close>

definition recovered_ok :: "orchard_bundle \<Rightarrow> (nat \<times> orchard_note) list \<Rightarrow> bool" where
  "recovered_ok bundle outgoing \<longleftrightarrow>
     distinct (map fst outgoing) \<and> fst ` set outgoing \<subseteq> {..<length (actions bundle)}"

lemma action_order_fst:
  assumes "recovered_ok bundle outgoing"
  shows "distinct (map fst (action_order bundle outgoing))"
    and "set (action_order bundle outgoing) = (\<lambda>i. (i, actions bundle ! i)) ` {..<length (actions bundle)}"
proof -
  have "map fst (action_order bundle outgoing)
      = map fst outgoing @ filter (\<lambda>i. i \<notin> fst ` set outgoing) (map fst (enumerate 0 (actions bundle)))"
    by (simp add: action_order_def filter_map comp_def case_prod_unfold del: map_fst_enumerate)
  with assms show "distinct (map fst (action_order bundle outgoing))" by (auto simp: recovered_ok_def)
  show "set (action_order bundle outgoing) = (\<lambda>i. (i, actions bundle ! i)) ` {..<length (actions bundle)}"
    using set_action_order [of outgoing "bundle"] assms by (auto simp: recovered_ok_def in_set_enumerate_eq)
qed

lemma action_order_map_of:
  assumes "recovered_ok bundle outgoing"
  shows "map_of (action_order bundle outgoing) i = (if i < length (actions bundle) then Some (actions bundle ! i) else None)"
proof (cases "i < length (actions bundle)")
  case True
  then have "(i, actions bundle ! i) \<in> set (action_order bundle outgoing)" by (simp add: action_order_fst(2) [OF assms])
  with map_of_is_SomeI [OF action_order_fst(1) [OF assms] this] True show ?thesis by simp
next
  case False
  then show ?thesis by (auto simp: map_of_eq_None_iff action_order_fst(2) [OF assms])
qed

lemma undo_order_fst:
  assumes "recovered_ok bundle outgoing"
  shows "distinct (map fst (undo_order bundle outgoing))"
    and "set (undo_order bundle outgoing) = (\<lambda>i. (i, actions bundle ! i, map_of outgoing i)) ` {..<length (actions bundle)}"
proof -
  have "map fst (undo_order bundle outgoing)
      = rev (map fst outgoing) @ filter (\<lambda>i. i \<notin> fst ` set outgoing) (rev (map fst (enumerate 0 (actions bundle))))"
    by (simp add: undo_order_def filter_map comp_def case_prod_unfold rev_map del: map_fst_enumerate)
  with assms show "distinct (map fst (undo_order bundle outgoing))" by (auto simp: recovered_ok_def)
  have "(i, a, r) \<in> set (undo_order bundle outgoing) \<longleftrightarrow>
      i < length (actions bundle) \<and> a = actions bundle ! i \<and> r = map_of outgoing i" for i a r
  proof (cases "i \<in> fst ` set outgoing")
    case True
    with assms obtain n where n: "map_of outgoing i = Some n" "i < length (actions bundle)"
      by (auto simp: recovered_ok_def)
    from assms have "distinct (map fst outgoing)" by (simp add: recovered_ok_def)
    from map_of_eq_Some_iff [OF this, of i] n(1) have "(i, n') \<in> set outgoing \<longleftrightarrow> n' = n" for n' by force
    with True n show ?thesis by (auto simp: undo_order_def)
  next
    case False
    then have "map_of outgoing i = None" by (simp add: map_of_eq_None_iff)
    with False show ?thesis by (force simp: undo_order_def in_set_enumerate_eq)
  qed
  then show "set (undo_order bundle outgoing) = (\<lambda>i. (i, actions bundle ! i, map_of outgoing i)) ` {..<length (actions bundle)}"
    by auto
qed

lemma connect_spent:
  assumes "recovered_ok bundle out" and "distinct (nullifiers bundle)" and "length (actions bundle) \<le> 2 ^ 32"
  shows "fmlookup (orchard_spent_notes (fold (\<lambda>(idx, act). spend_other_action True txid idx act) (action_order bundle out) W)) k =
    (if fst k = txid \<and> snd k < length (actions bundle)
     then case find_spent_note W (nullifiers bundle ! snd k) k of
       None \<Rightarrow> fmlookup (orchard_spent_notes W) k | Some np \<Rightarrow> Some np
     else fmlookup (orchard_spent_notes W) k)"
proof -
  let ?o = "action_order bundle out"
  note o = action_order_fst [OF assms(1)]
  have "map (act_nullifier \<circ> snd) ?o = map (\<lambda>i. act_nullifier (actions bundle ! i)) (map fst ?o)"
    using o(2) by auto
  moreover have "set (map fst ?o) \<subseteq> {..<length (actions bundle)}" using o(2) by auto
  ultimately have "distinct (map (act_nullifier \<circ> snd) ?o)" using nullifiers_at [OF assms(2) o(1)] by metis
  moreover have "\<forall>(i, _)\<in>set ?o. i < 2 ^ 32" using o(2) assms(3) by auto
  ultimately show ?thesis
    using fold_spend_spent [OF o(1)] by (simp add: action_order_map_of [OF assms(1)] nullifiers_def)
qed

lemma unspend_order:
  assumes "recovered_ok bundle out" and "distinct (nullifiers bundle)" and "length (actions bundle) \<le> 2 ^ 32"
    and W'_def: "W' = fold (put_back txid) (undo_order bundle out) W"
  shows "i < length (actions bundle) \<Longrightarrow> fmlookup (orchard_notes W') (nullifiers bundle ! i) =
      (case fmlookup (orchard_spent_notes W) (txid, i) of
         None \<Rightarrow> fmlookup (orchard_notes W) (nullifiers bundle ! i)
       | Some (n, pos) \<Rightarrow> Some (case map_of out i of None \<Rightarrow> n | Some n' \<Rightarrow> n', pos))"
    and "nf \<notin> set (nullifiers bundle) \<Longrightarrow> fmlookup (orchard_notes W') nf = fmlookup (orchard_notes W) nf"
    and "fmlookup (orchard_spent_notes W') k =
      (if fst k = txid \<and> snd k < length (actions bundle) then None else fmlookup (orchard_spent_notes W) k)"
proof -
  let ?o = "undo_order bundle out"
  note o = undo_order_fst [OF assms(1)]
  have small: "u32_of i = i" if "i < length (actions bundle)" for i using that assms(3) by (simp add: u32_of_def)
  have sub: "set (map fst ?o) \<subseteq> {..<length (actions bundle)}" using o(2) by auto
  have "map (\<lambda>u. u32_of (fst u)) ?o = map fst ?o" using o(2) small by auto
  then have d: "distinct (map (\<lambda>u. u32_of (fst u)) ?o)" using o(1) by metis
  have "map (\<lambda>(_, act, _). act_nullifier act) ?o = map (\<lambda>i. act_nullifier (actions bundle ! i)) (map fst ?o)"
    using o(2) by auto
  then have dn: "distinct (map (\<lambda>(_, act, _). act_nullifier act) ?o)" using nullifiers_at [OF assms(2) o(1) sub] by metis
  show "fmlookup (orchard_notes W') (nullifiers bundle ! i) =
      (case fmlookup (orchard_spent_notes W) (txid, i) of
         None \<Rightarrow> fmlookup (orchard_notes W) (nullifiers bundle ! i)
       | Some (n, pos) \<Rightarrow> Some (case map_of out i of None \<Rightarrow> n | Some n' \<Rightarrow> n', pos))" if "i < length (actions bundle)"
    using fold_unspend_notes [OF d dn, of i "actions bundle ! i" "map_of out i"] o(2) that small
    by (simp add: W'_def nullifiers_def cong: option.case_cong)
  show "fmlookup (orchard_notes W') nf = fmlookup (orchard_notes W) nf" if "nf \<notin> set (nullifiers bundle)"
    unfolding W'_def using that o(2) by (intro fold_unspend_others) (auto simp: nullifiers_def)
  show "fmlookup (orchard_spent_notes W') k =
      (if fst k = txid \<and> snd k < length (actions bundle) then None else fmlookup (orchard_spent_notes W) k)"
    using small unfolding W'_def fold_unspend_spent o(2) by (cases k) (auto simp: image_iff)
qed

text \<open>
  C18. Spending notes. Once a bundle is connected, confirmed or not, none of the notes that it spends is left
  among the notes the wallet can spend. A confirmed bundle whose nullifiers differ records each note it
  spends, be it a spendable note or one whose spend was unconfirmed, with its position under the
  transaction and the index of the action; the other records are unchanged.
\<close>

theorem connect_bundle_spends_notes:
  assumes "connect_orchard_bundle X key tree txid bundle W = Inr (W', tree')"
  shows "(\<forall>nf\<in>set (nullifiers bundle). fmlookup (orchard_notes W') nf = None)
    \<and> (tree \<noteq> None \<and> distinct (nullifiers bundle) \<and> length (actions bundle) \<le> 2 ^ 32
        \<and> distinct (map fst (recover_outputs X key bundle))
        \<and> (\<forall>(_, n, _)\<in>set (decrypt_outputs X key bundle). note_nullifier X key n \<notin> set (nullifiers bundle)) \<longrightarrow>
      (\<forall>i<length (actions bundle). \<forall>np. find_spent_note W (nullifiers bundle ! i) (txid, i) = Some np \<longrightarrow>
         fmlookup (orchard_spent_notes W') (txid, i) = Some np)
      \<and> (\<forall>k. fst k \<noteq> txid \<longrightarrow> fmlookup (orchard_spent_notes W') k = fmlookup (orchard_spent_notes W) k))"
proof -
  let ?out = "recover_outputs X key bundle" and ?in = "decrypt_outputs X key bundle"
  from connect_orchard_bundle_spends [OF assms] obtain W1 leaf where
    W1: "fold_res (receive_note X key leaf txid) W ?in = Inr W1"
    and sub: "fst ` set ?out \<subseteq> {..<length (actions bundle)}"
    and W': "W' = fold (\<lambda>(idx, act). spend_other_action (tree \<noteq> None) txid idx act) (action_order bundle ?out) W1" .
  have "snd ` set (action_order bundle ?out) = set (actions bundle)"
    unfolding set_action_order [OF sub] by (metis map_snd_enumerate set_map)
  then have "\<forall>nf\<in>set (nullifiers bundle). fmlookup (orchard_notes W') nf = None"
    by (simp add: W' fold_spend_notes nullifiers_def)
  moreover have "(\<forall>i<length (actions bundle). \<forall>np. find_spent_note W (nullifiers bundle ! i) (txid, i) = Some np \<longrightarrow>
         fmlookup (orchard_spent_notes W') (txid, i) = Some np)
      \<and> (\<forall>k. fst k \<noteq> txid \<longrightarrow> fmlookup (orchard_spent_notes W') k = fmlookup (orchard_spent_notes W) k)"
    if t: "tree \<noteq> None" and d: "distinct (nullifiers bundle)" "length (actions bundle) \<le> 2 ^ 32"
      "distinct (map fst ?out)" and n: "\<forall>(_, n, _)\<in>set ?in. note_nullifier X key n \<notin> set (nullifiers bundle)"
  proof -
    have ok: "recovered_ok bundle ?out" using d(3) sub by (simp add: recovered_ok_def)
    have "find_spent_note W1 nf k = find_spent_note W nf k" if "nf \<in> set (nullifiers bundle)" for nf k
      using receive_notes_other [OF W1, of nf] n that by (intro find_spent_note_cong) auto
    with connect_spent [OF ok d(1,2), of txid W1] t receive_notes_other [OF W1] show ?thesis
      by (simp add: W' nullifiers_def)
  qed
  ultimately show ?thesis by blast
qed

text \<open>
  C36. A transaction that is disconnected right after it was connected leaves the records of spent notes as
  before and puts the notes back: a note that the transaction does not spend is as before, and one that
  it spends has its position again. But its value and other fields are those of the spent note only
  if the output of the same action could not be recovered; otherwise they are those of that output.
\<close>

theorem disconnect_tx_puts_notes_back:
  assumes "connect_orchard_tx E X key (W, Some tree) tx = Inr (W1, tree1)" and "orchard_bundle tx = Some bundle"
    and "distinct (nullifiers bundle)" and "length (actions bundle) \<le> 2 ^ 32"
    and "distinct (map fst (recover_outputs X key bundle))"
    and "\<forall>(_, n, _)\<in>set (decrypt_outputs X key bundle).
      note_nullifier X key n \<notin> set (nullifiers bundle) \<and> \<not> has_key (orchard_notes W) (note_nullifier X key n)"
    and "\<forall>i. \<not> has_key (orchard_spent_notes W) (tx_txid E tx, i)"
  shows "\<exists>W2. disconnect_orchard_tx E X key W1 tx = Inr W2 \<and> orchard_spent_notes W2 = orchard_spent_notes W
    \<and> (\<forall>nf. nf \<notin> set (nullifiers bundle) \<longrightarrow> fmlookup (orchard_notes W2) nf = fmlookup (orchard_notes W) nf)
    \<and> (\<forall>i<length (actions bundle). fmlookup (orchard_notes W2) (nullifiers bundle ! i) =
         map_option (\<lambda>(n, pos). (case map_of (recover_outputs X key bundle) i of None \<Rightarrow> n | Some n' \<Rightarrow> n', pos))
           (find_spent_note W (nullifiers bundle ! i) (tx_txid E tx, i)))"
proof -
  let ?out = "recover_outputs X key bundle" and ?in = "decrypt_outputs X key bundle" and ?txid = "tx_txid E tx"
  from assms(1,2) have c: "connect_orchard_bundle X key (Some tree) ?txid bundle W = Inr (W1, tree1)"
    by (simp add: connect_orchard_tx_def)
  from connect_orchard_bundle_spends [OF c] obtain W0 leaf where
    W0: "fold_res (receive_note X key leaf ?txid) W ?in = Inr W0"
    and sub: "fst ` set ?out \<subseteq> {..<length (actions bundle)}"
    and W1': "W1 = fold (\<lambda>(idx, act). spend_other_action (Some tree \<noteq> None) ?txid idx act) (action_order bundle ?out) W0" .
  from W1' have W1: "W1 = fold (\<lambda>(idx, act). spend_other_action True ?txid idx act) (action_order bundle ?out) W0" by simp
  have ok: "recovered_ok bundle ?out" using assms(5) sub by (simp add: recovered_ok_def)
  note other = receive_notes_other [OF W0]
  have find: "find_spent_note W0 nf k = find_spent_note W nf k" if "nf \<in> set (nullifiers bundle)" for nf k
    using other [of nf] assms(6) that by (intro find_spent_note_cong) auto
  have "snd ` set (action_order bundle ?out) = set (actions bundle)"
    unfolding set_action_order [OF sub] by (metis map_snd_enumerate set_map)
  then have notes1: "fmlookup (orchard_notes W1) x =
      (if x \<in> set (nullifiers bundle) then None else fmlookup (orchard_notes W0) x)" for x
    by (simp add: W1 fold_spend_notes nullifiers_def)
  have none: "fmlookup (orchard_spent_notes W) (?txid, i) = None" for i using assms(7) by blast
  have spent1: "fmlookup (orchard_spent_notes W1) k =
      (if fst k = ?txid \<and> snd k < length (actions bundle) then find_spent_note W (nullifiers bundle ! snd k) k
       else fmlookup (orchard_spent_notes W) k)" for k
    using connect_spent [OF ok assms(3,4), of ?txid W0 k] other none find
    by (cases k) (auto simp: W1 nullifiers_def split: option.split)
  let ?W = "fold (unreceive_note X key) (rev ?in) W1"
  let ?W2 = "fold (put_back ?txid) (undo_order bundle ?out) ?W"
  note un = fold_unreceive [of X key "rev ?in" W1] and undo = unspend_order [OF ok assms(3,4) refl, where txid = ?txid and W = ?W]
  have "fmlookup (orchard_spent_notes ?W2) k = fmlookup (orchard_spent_notes W) k" for k
    using undo(3) [of k] un spent1 [of k] none by (cases k) auto
  then have "orchard_spent_notes ?W2 = orchard_spent_notes W" by (rule fmap_ext)
  moreover have "fmlookup (orchard_notes ?W2) nf = fmlookup (orchard_notes W) nf" if "nf \<notin> set (nullifiers bundle)" for nf
  proof (cases "nf \<in> (\<lambda>(_, n, _). note_nullifier X key n) ` set ?in")
    case True
    then obtain j n m where n: "(j, n, m) \<in> set ?in" "nf = note_nullifier X key n" by auto
    from bspec [OF assms(6) n(1), unfolded prod.case] n(2) have "fmlookup (orchard_notes W) nf = None" by blast
    with undo(2) [OF that] un [of nf] True show ?thesis by simp
  next
    case False
    with undo(2) [OF that] un [of nf] notes1 [of nf] other [of nf] that show ?thesis by simp
  qed
  moreover have "fmlookup (orchard_notes ?W2) (nullifiers bundle ! i) =
         map_option (\<lambda>(n, pos). (case map_of ?out i of None \<Rightarrow> n | Some n' \<Rightarrow> n', pos))
           (find_spent_note W (nullifiers bundle ! i) (?txid, i))" if i: "i < length (actions bundle)" for i
    using undo(1) [OF i] un [of "nullifiers bundle ! i"] notes1 [of "nullifiers bundle ! i"] spent1 [of "(?txid, i)"] i
    by (auto simp: nullifiers_def split: option.split)
  ultimately show ?thesis
    using disconnect_orchard_tx_unspends [OF assms(2) sub, of E W1] by (intro exI [of _ ?W2]) simp
qed

section \<open>Examples\<close>

text \<open>
  A bundle with one action, which spends a note of value 5 at position 2 and creates one of value 3 that the
  outgoing key recovers.
\<close>

definition example_spend :: orchard_bundle where
  "example_spend = \<lparr>actions = [\<lparr>act_nullifier = Nullifier 9, act_cmx = Cmx 4, act_data = []\<rparr>],
     spends_enabled = True, value_balance = 2, bundle_anchor = Anchor 1, bundle_authorization = []\<rparr>"

definition recovering_ext :: "(unit, unit, int \<times> nat) wallet_ext" where
  "recovering_ext = example_wallet_ext\<lparr>recover_outputs := (\<lambda>_ _. [(0, \<lparr>note_value = 3, note_data = 11\<rparr>)])\<rparr>"

definition note_wallet :: wallet where
  "note_wallet = example_wallet\<lparr>orchard_notes :=
     fmupd (Nullifier 9) (\<lparr>note_value = 5, note_data = 9\<rparr>, 2) fmempty\<rparr>"

lemma example_bundle_connects:
  "\<exists>W'. connect_orchard_bundle recovering_ext key (Some ()) txid example_spend note_wallet = Inr (W', Some ())"
  by (simp add: connect_orchard_bundle_def recovering_ext_def example_wallet_ext_def next_leaf_position_def
      example_spend_def spend_known_action_eq append_action_def Let_def)

theorem connect_bundle_spends_notes_witness:
  "\<exists>W'. connect_orchard_bundle recovering_ext 0 (Some ()) (Txid 1) example_spend note_wallet = Inr (W', Some ())
     \<and> fmlookup (orchard_notes W') (Nullifier 9) = None
     \<and> fmlookup (orchard_spent_notes W') (Txid 1, 0) = Some (\<lparr>note_value = 5, note_data = 9\<rparr>, 2)"
proof -
  obtain W' where W': "connect_orchard_bundle recovering_ext 0 (Some ()) (Txid 1) example_spend note_wallet
      = Inr (W', Some ())" using example_bundle_connects by blast
  with connect_bundle_spends_notes [OF W'] show ?thesis
    by (simp add: example_spend_def nullifiers_def recovering_ext_def example_wallet_ext_def find_spent_note_def
        note_wallet_def)
qed

theorem disconnect_tx_puts_notes_back_witness:
  "\<exists>W1 W2. connect_orchard_tx example_ext recovering_ext 0 (note_wallet, Some ())
       \<lparr>inputs = [], utreexo_proof = (), outputs = [], orchard_bundle = Some example_spend\<rparr> = Inr (W1, Some ())
     \<and> disconnect_orchard_tx example_ext recovering_ext 0 W1
       \<lparr>inputs = [], utreexo_proof = (), outputs = [], orchard_bundle = Some example_spend\<rparr> = Inr W2
     \<and> fmlookup (orchard_notes note_wallet) (Nullifier 9) = Some (\<lparr>note_value = 5, note_data = 9\<rparr>, 2)
     \<and> fmlookup (orchard_notes W2) (Nullifier 9) = Some (\<lparr>note_value = 3, note_data = 11\<rparr>, 2)"
proof -
  let ?tx = "\<lparr>inputs = [], utreexo_proof = (), outputs = [], orchard_bundle = Some example_spend\<rparr>"
  obtain W1 where W1: "connect_orchard_tx example_ext recovering_ext 0 (note_wallet, Some ()) ?tx = Inr (W1, Some ())"
    using example_bundle_connects by (auto simp: connect_orchard_tx_def)
  have "distinct (nullifiers example_spend)" "length (actions example_spend) \<le> 2 ^ 32"
    by (simp_all add: example_spend_def nullifiers_def)
  moreover have "distinct (map fst (recover_outputs recovering_ext 0 example_spend))"
    "\<forall>(_, n, _)\<in>set (decrypt_outputs recovering_ext 0 example_spend).
      note_nullifier recovering_ext 0 n \<notin> set (nullifiers example_spend)
      \<and> \<not> has_key (orchard_notes note_wallet) (note_nullifier recovering_ext 0 n)"
    by (simp_all add: recovering_ext_def example_wallet_ext_def)
  moreover have "\<forall>i. \<not> has_key (orchard_spent_notes note_wallet) (tx_txid example_ext ?tx, i)"
    by (simp add: note_wallet_def example_wallet_def)
  ultimately obtain W2 where "disconnect_orchard_tx example_ext recovering_ext 0 W1 ?tx = Inr W2"
    "\<forall>i<length (actions example_spend). fmlookup (orchard_notes W2) (nullifiers example_spend ! i) =
         map_option (\<lambda>(n, pos). (case map_of (recover_outputs recovering_ext 0 example_spend) i of None \<Rightarrow> n | Some n' \<Rightarrow> n', pos))
           (find_spent_note note_wallet (nullifiers example_spend ! i) (tx_txid example_ext ?tx, i))"
    using disconnect_tx_puts_notes_back [OF W1, of example_spend] by auto
  with W1 show ?thesis
    by (simp add: example_spend_def nullifiers_def recovering_ext_def find_spent_note_def note_wallet_def)
qed

end
