(* ===== verification/Bills.thy ===== *)
theory Bills
  imports Wallet "HOL-Library.Multiset"
begin

text \<open>
  The schedule of bills, \<open>schedule_bills\<close> of \<open>lib/wallet/mod.rs\<close>: an amount is split into powers of two, one for
  each bit, and each goes out within a week on the weekday of its denomination.
\<close>

section \<open>Denominations\<close>

lemma bills_step:
  assumes "0 < n"
  shows "bills weekday now rnd i n =
    (ilog2 n, bill_time weekday now (rnd i) (ilog2 n)) # bills weekday now rnd (Suc i) (n - 2 ^ ilog2 n)"
  using assms by (subst bills.simps) (simp add: Let_def)

lemma bills_zero [simp]: "bills weekday now rnd i 0 = []"
  by (subst bills.simps) simp

lemma bills_sum: "sum_list (map (\<lambda>b. 2 ^ fst b) (bills weekday now rnd i n)) = n"
proof (induction n arbitrary: i rule: less_induct)
  case (less n)
  show ?case
  proof (cases "n = 0")
    case False
    with less [of "n - 2 ^ ilog2 n"] ilog2_bounds [of n] show ?thesis by (simp add: bills_step)
  qed simp
qed

text \<open>Each bill is worth more than all that follow: the exponents decrease.\<close>

lemma bills_below: "n < 2 ^ k \<Longrightarrow> b \<in> set (bills weekday now rnd i n) \<Longrightarrow> fst b < k"
proof (induction n arbitrary: i rule: less_induct)
  case (less n)
  show ?case
  proof (cases "n = 0")
    case True
    with less.prems(2) show ?thesis by simp
  next
    case False
    with ilog2_bounds [of n] less.prems(1) have l: "ilog2 n < k"
      by (metis le_less_trans less_eq_nat.simps(1) not_gr_zero one_less_numeral_iff power_less_imp_less_exp semiring_norm(76))
    from less.prems(2) False consider "b = (ilog2 n, bill_time weekday now (rnd i) (ilog2 n))"
      | "b \<in> set (bills weekday now rnd (Suc i) (n - 2 ^ ilog2 n))" by (auto simp: bills_step)
    then show ?thesis
    proof cases
      case 1
      with l show ?thesis by simp
    next
      case 2
      with less.IH [of "n - 2 ^ ilog2 n"] False less.prems(1) show ?thesis by simp
    qed
  qed
qed

lemma bills_distinct: "distinct (map fst (bills weekday now rnd i n))"
proof (induction n arbitrary: i rule: less_induct)
  case (less n)
  show ?case
  proof (cases "n = 0")
    case False
    with ilog2_bounds [of n] have "n - 2 ^ ilog2 n < 2 ^ ilog2 n" by auto
    then have "fst b < ilog2 n" if "b \<in> set (bills weekday now rnd (Suc i) (n - 2 ^ ilog2 n))" for b
      using that by (rule bills_below)
    with less [of "n - 2 ^ ilog2 n"] False show ?thesis by (fastforce simp: bills_step)
  qed simp
qed

section \<open>Days\<close>

text \<open>
  The calendar: weekdays follow each other. The times come from the random number generator, in the ranges the
  code asks for.
\<close>

definition calendar :: "(nat \<Rightarrow> nat) \<Rightarrow> bool" where
  "calendar weekday \<longleftrightarrow> weekday 0 < 7 \<and> (\<forall>d. weekday (Suc d) = (weekday d + 1) mod 7)"

definition times_in_range :: "nat \<times> nat \<Rightarrow> (nat \<Rightarrow> nat \<times> nat) \<Rightarrow> bool" where
  "times_in_range now rnd \<longleftrightarrow> (\<forall>i. snd now \<le> fst (rnd i) \<and> fst (rnd i) \<le> 86399 \<and> snd (rnd i) \<le> 86399)"

lemma calendar_add: "calendar weekday \<Longrightarrow> weekday (d + k) = (weekday d + k) mod 7"
proof (induction k)
  case 0
  have "weekday d < 7" using 0 by (cases d) (auto simp: calendar_def)
  then show ?case by simp
next
  case (Suc k)
  then show ?case by (simp add: calendar_def mod_Suc_eq)
qed

lemma calendar_bound: "calendar weekday \<Longrightarrow> weekday d < 7"
  using calendar_add [of weekday d 0] by (metis add_0_right mod_less_divisor zero_less_numeral)

lemma bill_weekday_bound: "bill_exponent_to_weekday e < 7"
proof -
  have "\<forall>k<7. [5, 4, 3, 2, 1, 0, 6] ! k < (7 :: nat)"
    by (simp add: eval_nat_numeral All_less_Suc)
  then show ?thesis by (simp add: bill_exponent_to_weekday_def)
qed

lemma days_since_weekday: "today < 7 \<Longrightarrow> on < 7 \<Longrightarrow> (today + days_since on today) mod 7 = on"
proof -
  assume "today < 7" and "on < 7"
  then have "(today + days_since on today) mod 7 = (today + (on + 7 - today)) mod 7"
    by (simp add: days_since_def mod_add_right_eq)
  with \<open>today < 7\<close> \<open>on < 7\<close> show ?thesis by simp
qed

lemma bill_time_ok:
  assumes "calendar weekday" and "times_in_range now rnd" and t_def: "t = bill_time weekday now (rnd i) e"
  shows "weekday (fst t) = bill_exponent_to_weekday e" and "fst now \<le> fst t" and "fst t < fst now + 7"
    and "fst t = fst now \<Longrightarrow> snd now \<le> snd t" and "snd t < 86400"
proof -
  let ?on = "bill_exponent_to_weekday e" and ?today = "weekday (fst now)"
  have b: "?on < 7" "?today < 7" using bill_weekday_bound calendar_bound [OF assms(1)] by auto
  show "weekday (fst t) = ?on"
    using calendar_add [OF assms(1)] days_since_weekday [OF b(2,1)] by (simp add: t_def bill_time_def Let_def)
  show "fst now \<le> fst t" "fst t < fst now + 7" by (simp_all add: t_def bill_time_def Let_def days_since_def)
  show "snd now \<le> snd t" if "fst t = fst now"
  proof -
    from that have "?on = ?today" using \<open>weekday (fst t) = ?on\<close> by simp
    with assms(2) show ?thesis by (simp add: t_def bill_time_def times_in_range_def Let_def)
  qed
  have "snd t \<le> 86399" using assms(2) by (simp add: t_def bill_time_def times_in_range_def Let_def)
  then show "snd t < 86400" by simp
qed

lemma bills_time: "b \<in> set (bills weekday now rnd i n) \<Longrightarrow> \<exists>j. snd b = bill_time weekday now (rnd j) (fst b)"
proof (induction n arbitrary: i rule: less_induct)
  case (less n)
  show ?case
  proof (cases "n = 0")
    case True
    with less.prems show ?thesis by simp
  next
    case False
    with less.prems less.IH [of "n - 2 ^ ilog2 n" "Suc i"] show ?thesis by (auto simp: bills_step)
  qed
qed

text \<open>
  C37. The bills of an amount: their denominations are distinct powers of two below \<open>2 ^ 64\<close> that add up to the
  amount, so that nothing is lost and no denomination is used twice. They are ordered by time; each is
  due on the weekday of its denomination, within the seven days that start today, and not before now.
\<close>

theorem schedule_bills_correct:
  assumes "amount < 2 ^ 64" and "calendar weekday" and "times_in_range now rnd"
    and bs: "schedule_bills weekday now rnd amount = bs"
  shows "sum_list (map (\<lambda>b. 2 ^ fst b) bs) = amount \<and> distinct (map fst bs) \<and> sorted (map snd bs)
    \<and> (\<forall>b\<in>set bs. fst b < 64 \<and> weekday (fst (snd b)) = bill_exponent_to_weekday (fst b)
        \<and> fst now \<le> fst (snd b) \<and> fst (snd b) < fst now + 7 \<and> now \<le> snd b \<and> snd (snd b) < 86400)"
proof (intro conjI ballI)
  let ?b = "bills weekday now rnd 0 amount"
  have perm: "mset bs = mset ?b" using bs by (auto simp: schedule_bills_def)
  then have "sum_mset (image_mset (\<lambda>b. 2 ^ fst b :: nat) (mset bs)) = sum_mset (image_mset (\<lambda>b. 2 ^ fst b) (mset ?b))"
    by simp
  then show "sum_list (map (\<lambda>b. 2 ^ fst b) bs) = amount"
    using bills_sum [of weekday now rnd 0 amount] by (simp only: sum_mset_sum_list [symmetric] mset_map)
  from perm have "mset (map fst bs) = mset (map fst ?b)" by simp
  from mset_eq_imp_distinct_iff [OF this] show "distinct (map fst bs)" using bills_distinct by blast
  show "sorted (map snd bs)" using bs by (auto simp: schedule_bills_def)
  fix b
  assume "b \<in> set bs"
  then have b: "b \<in> set ?b" using mset_eq_setD [OF perm] by blast
  from bills_time [OF this] obtain j where j: "snd b = bill_time weekday now (rnd j) (fst b)" by blast
  note t = bill_time_ok [OF assms(2,3) j]
  from t show "weekday (fst (snd b)) = bill_exponent_to_weekday (fst b)" "fst now \<le> fst (snd b)"
    "fst (snd b) < fst now + 7" "snd (snd b) < 86400" by blast+
  show "fst b < 64" by (rule bills_below [OF assms(1) b])
  show "now \<le> snd b" using t(2,4) by (cases "fst now = fst (snd b)") (simp_all add: less_eq_prod_def)
qed

text \<open>Five coins on a Saturday: one today and four on the next Thursday.\<close>

theorem schedule_bills_correct_witness:
  "\<exists>bs. schedule_bills (\<lambda>d. d mod 7) (5, 80000) (\<lambda>i. (80001, i mod 86400)) 5 = bs
     \<and> sum_list (map (\<lambda>b. 2 ^ fst b) bs) = (5 :: nat) \<and> map fst bs = [0, 2]"
proof -
  have "calendar (\<lambda>d. d mod 7)" by (simp add: calendar_def mod_Suc_eq)
  moreover have "times_in_range (5, 80000) (\<lambda>i. (80001, i mod 86400))"
    by (auto simp: times_in_range_def less_Suc_eq_le [symmetric])
  moreover have "map fst (schedule_bills (\<lambda>d. d mod 7) (5, 80000) (\<lambda>i. (80001, i mod 86400)) 5) = [0, 2]"
    by (simp add: schedule_bills_def bills.simps ilog2.simps bill_time_def bill_exponent_to_weekday_def
        days_since_def less_eq_prod_def)
  ultimately show ?thesis
    using schedule_bills_correct [OF _ _ _ refl, of 5 "\<lambda>d. d mod 7" "(5, 80000)" "\<lambda>i. (80001, i mod 86400)"] by simp
qed

end
