(* ===== verification/App.thy ===== *)
theory App
  imports Node Wallet
begin

text \<open>
  The application, \<open>app/app.rs\<close>: the wallet follows the node. Definitions of \<open>update_wallet\<close>, \<open>sign_and_send\<close>,
  \<open>mine\<close> and of the miner, \<open>lib/miner.rs\<close>, with \<open>Body::modify_memforest\<close>. The databases of the node and those of
  the wallet are two environments; each is committed on its own.
\<close>

section \<open>The wallet follows the node\<close>

datatype app_error =
    AppCusfMainchain
  | AppMiner
  | AppNode node_error
  | AppNoCusfMainchainWalletClient
  | AppRequestMainchainAncestorInfos main_hash
  | AppUtreexo
  | AppWallet wallet_error

type_synonym 'a app_result = "(app_error, 'a) result"

definition get_transparent_addresses :: "wallet \<Rightarrow> transparent_address list" where
  "get_transparent_addresses W = map snd (sorted_list_of_fmap (index_to_address W))"

definition wallet_utxo_keys :: "wallet \<Rightarrow> out_point list" where
  "wallet_utxo_keys W = map fst (sorted_list_of_fmap (w_utxos W))"

definition wallet_stxo_unconfirmed_keys :: "wallet \<Rightarrow> out_point list" where
  "wallet_stxo_unconfirmed_keys W = map fst (sorted_list_of_fmap (w_stxos_unconfirmed W))"

abbreviation archive_res :: "'a archive_result \<Rightarrow> 'a app_result" where
  "archive_res \<equiv> map_err (\<lambda>e. AppNode (NdArchive e))"

text \<open>
  The loop over the blocks to disconnect. It ends at the latest behind the genesis block, so one iteration for
  each stored header and one more are enough.
\<close>

primrec disconnect_wallet_to ::
  "('acc, 'fr, 'pf) ext \<Rightarrow> shardtree_ext \<Rightarrow> ('tree, 'path, 'b) wallet_ext \<Rightarrow> ('acc, 'fr, 'pf) archive \<Rightarrow> block_hash option
    \<Rightarrow> nat \<Rightarrow> block_hash option \<Rightarrow> wallet \<Rightarrow> wallet app_result" where
  "disconnect_wallet_to E T X A common 0 wallet_tip W = Inl Diverge"
| "disconnect_wallet_to E T X A common (Suc fuel) wallet_tip W =
     (if wallet_tip = common then Inr W
      else
        and_then (expect wallet_tip) (\<lambda>block_hash.
        and_then (archive_res (get_header A block_hash)) (\<lambda>header.
        and_then (archive_res (get_body A block_hash)) (\<lambda>body.
        and_then (map_err AppWallet (disconnect_orchard_block E T X W header body)) (\<lambda>W.
        disconnect_wallet_to E T X A common fuel (prev_side_hash header) W)))))"

text \<open>The ancestors of a block, newest first, until the common ancestor.\<close>

primrec ancestors_until ::
  "nat \<Rightarrow> ('acc, 'fr, 'pf) archive \<Rightarrow> block_hash option \<Rightarrow> block_hash option \<Rightarrow> block_hash list archive_result" where
  "ancestors_until 0 A common b = Inl Diverge"
| "ancestors_until (Suc fuel) A common b =
     (case b of
        None \<Rightarrow> Inr []
      | Some block_hash \<Rightarrow>
          and_then (get_header A block_hash) (\<lambda>header.
          if common = Some block_hash then Inr []
          else map_ok (Cons block_hash) (ancestors_until fuel A common (prev_side_hash header))))"

definition connect_wallet_block ::
  "('acc, 'fr, 'pf) ext \<Rightarrow> ('tree, 'path, 'b) wallet_ext \<Rightarrow> ('acc, 'fr, 'pf) archive \<Rightarrow> wallet \<Rightarrow> block_hash
    \<Rightarrow> wallet app_result" where
  "connect_wallet_block E X A W block_hash =
     and_then (archive_res (get_header A block_hash)) (\<lambda>header.
     and_then (archive_res (get_body A block_hash)) (\<lambda>body.
     map_err AppWallet (connect_orchard_block E X W header body)))"

definition common_ancestor_of ::
  "('acc, 'fr, 'pf) archive \<Rightarrow> block_hash option \<Rightarrow> block_hash option \<Rightarrow> block_hash option archive_result" where
  "common_ancestor_of A node_tip wallet_tip =
     (case (node_tip, wallet_tip) of
        (Some node_tip, Some wallet_tip) \<Rightarrow> last_common_ancestor A node_tip wallet_tip
      | _ \<Rightarrow> Inr None)"

text \<open>The blocks of the wallet, then its coins.\<close>

definition update_wallet_blocks ::
  "('acc, 'fr, 'pf) ext \<Rightarrow> shardtree_ext \<Rightarrow> ('tree, 'path, 'b) wallet_ext \<Rightarrow> ('acc, 'fr, 'pf) node_dbs \<Rightarrow> wallet
    \<Rightarrow> wallet app_result" where
  "update_wallet_blocks E T X N W =
     (let A = nd_archive N; node_tip = st_tip (nd_state N)
      in and_then (archive_res (common_ancestor_of A node_tip (w_tip W))) (\<lambda>common.
         and_then (disconnect_wallet_to E T X A common (ancestor_fuel A) (w_tip W) W) (\<lambda>W.
         and_then (archive_res (ancestors_until (ancestor_fuel A) A common node_tip)) (\<lambda>blocks.
         fold_res (connect_wallet_block E X A) W (rev blocks)))))"

definition update_wallet_coins ::
  "('acc, 'fr) state \<Rightarrow> wallet \<Rightarrow> wallet app_result" where
  "update_wallet_coins S W =
     and_then (map_err (\<lambda>e. AppNode (NdState e)) (get_utxos_by_addresses S (get_transparent_addresses W))) (\<lambda>utxos.
     let outpoints = wallet_utxo_keys W @ wallet_stxo_unconfirmed_keys W;
         spent = map (\<lambda>(op, so). (op, so_inpoint so)) (get_spent_utxos S outpoints)
     in Inr (spend_utxos_confirmed (put_utxos_confirmed W utxos) spent))"

definition update_wallet ::
  "('acc, 'fr, 'pf) ext \<Rightarrow> shardtree_ext \<Rightarrow> ('tree, 'path, 'b) wallet_ext \<Rightarrow> ('acc, 'fr, 'pf) node_dbs \<Rightarrow> wallet
    \<Rightarrow> wallet app_result" where
  "update_wallet E T X N W =
     and_then (update_wallet_blocks E T X N W) (update_wallet_coins (nd_state N))"

text \<open>\<open>App::task\<close>: one update for each change of the state. An error ends the task.\<close>

primrec app_task ::
  "('acc, 'fr, 'pf) ext \<Rightarrow> shardtree_ext \<Rightarrow> ('tree, 'path, 'b) wallet_ext \<Rightarrow> ('acc, 'fr, 'pf) node_dbs list \<Rightarrow> wallet
    \<Rightarrow> wallet \<times> unit app_result" where
  "app_task E T X [] W = (W, Inr ())"
| "app_task E T X (N # Ns) W =
     (case update_wallet E T X N W of Inl e \<Rightarrow> (W, Inl e) | Inr W \<Rightarrow> app_task E T X Ns W)"

text \<open>
  The node commits the transaction to its pool before the wallet is updated and committed: an error of the
  update drops the changes of the wallet only.
\<close>

definition spent_inputs :: "txid \<Rightarrow> 'pf transaction \<Rightarrow> (out_point \<times> in_point) list" where
  "spent_inputs txid tx =
     map (\<lambda>(vin, op, _). (op, InRegular txid (word_of_nat vin))) (enumerate 0 (inputs tx))"

definition unconfirmed_outputs :: "txid \<Rightarrow> 'pf transaction \<Rightarrow> (out_point \<times> tx_output) list" where
  "unconfirmed_outputs txid tx =
     map (\<lambda>(vout, out). (Regular txid (word_of_nat vout), out)) (enumerate 0 (outputs tx))"

definition sign_and_send_wallet ::
  "('acc, 'fr, 'pf) ext \<Rightarrow> ('tree, 'path, 'b) wallet_ext \<Rightarrow> wallet \<Rightarrow> 'pf authorized_transaction \<Rightarrow> wallet wallet_result" where
  "sign_and_send_wallet E X W at =
     (let tx = transaction at; txid = tx_txid E tx;
          W = spend_utxos_unconfirmed W (spent_inputs txid tx);
          W = put_utxos_unconfirmed W (unconfirmed_outputs txid tx)
      in case orchard_bundle tx of
           None \<Rightarrow> Inr W
         | Some bundle \<Rightarrow> connect_orchard_bundle_unconfirmed X W txid bundle)"

definition sign_and_send ::
  "('acc, 'fr, 'pf) ext \<Rightarrow> shardtree_ext \<Rightarrow> ('tree, 'path, 'b) wallet_ext \<Rightarrow> ('acc, 'fr, 'pf) node_dbs \<Rightarrow> wallet
    \<Rightarrow> 'pf transaction \<Rightarrow> ('acc, 'fr, 'pf) node_dbs \<times> wallet \<times> unit app_result" where
  "sign_and_send E T X N W tx =
     (case and_then (map_err AppWallet (authorize E X W tx)) (\<lambda>at.
           and_then (map_err AppWallet (sign_and_send_wallet E X W at)) (\<lambda>W.
           map_ok (Pair W) (map_err AppNode (submit_transaction E N at)))) of
        Inl e \<Rightarrow> (N, W, Inl e)
      | Inr (W1, N) \<Rightarrow>
          (case update_wallet E T X N W1 of
             Inl e \<Rightarrow> (N, W, Inl e)
           | Inr W2 \<Rightarrow> (N, W2, Inr ())))"

end
