(* ===== verification/Archive_Iter.thy ===== *)
theory Archive_Iter
  imports Archive_Index
begin

text \<open>
  Iteration over the ancestors of a block, \<open>lib/archive.rs\<close>: a walk along parent links is shorter than the number of stored headers,
  and the batches of \<open>AncestorsRev\<close>, which fetches up to 32 ancestors at a time through the index, yield the chain in ascending order.
\<close>

lemma height_bound:
  assumes "archive_inv A" and "b \<in> side_known A" and "try_get_height A b = Some h"
  shows "h < fcard (fmdom (headers A))"
proof -
  let ?f = "\<lambda>i. the (nth_parent (side_parent A) b i)"
  have f: "?f i \<in> side_known A \<and> try_get_height A (?f i) = Some (h - i)" if "i \<le> h" for i
    using side.nth_parent_total [OF side_index_ok [OF assms(1)] assms(2,3) that] by auto
  have "inj_on ?f {..h}"
  proof (rule inj_onI)
    fix i j
    assume "i \<in> {..h}" "j \<in> {..h}" "?f i = ?f j"
    with f [of i] f [of j] have "h - i = h - j" "i \<le> h" "j \<le> h" by auto
    then show "i = j" by simp
  qed
  moreover have "?f ` {..h} \<subseteq> fset (fmdom (headers A))"
    using f by (auto simp: side_known_iff fmlookup_dom_iff)
  ultimately have "card {..h} \<le> card (fset (fmdom (headers A)))" by (rule card_inj_on_le) simp
  then show ?thesis by (simp add: fcard.rep_eq)
qed

section \<open>Batches of ancestors\<close>

lemma header_of_known:
  assumes "b \<in> side_known A"
  obtains h where "get_header A b = Inr h" "side_parent A b = prev_side_hash h"
  using assms by (auto simp: side_known_iff get_header_def try_get_header_def side_parent_def)

lemma take_ancestor_headers_ok:
  assumes inv: "archive_inv A"
  shows "a \<in> side_known A \<Longrightarrow> try_get_height A a = Some h \<Longrightarrow> n \<le> Suc h \<Longrightarrow>
    \<exists>items. take_ancestor_headers n A (Some a) = Inr items
      \<and> map fst items = map (\<lambda>i. the (nth_parent (side_parent A) a i)) [0..<n]"
proof (induction n arbitrary: a h)
  case 0
  then show ?case by simp
next
  case (Suc n)
  from Suc.prems(1) obtain hdr where hdr: "get_header A a = Inr hdr" "side_parent A a = prev_side_hash hdr"
    by (rule header_of_known)
  have upt: "map f [0..<Suc n] = f 0 # map (\<lambda>i. f (Suc i)) [0..<n]" for f :: "nat \<Rightarrow> block_hash"
    by (simp add: upt_conv_Cons map_Suc_upt [symmetric] comp_def del: upt_Suc)
  show ?case
  proof (cases n)
    case 0
    with hdr show ?thesis by simp
  next
    case (Suc m)
    with Suc.prems(3) obtain h' where "h = Suc h'" by (cases h) auto
    then obtain p where p: "p \<in> side_known A" "side_parent A a = Some p" "try_get_height A p = Some h'"
      using side.parent [OF side_index_ok [OF inv] Suc.prems(1)] Suc.prems(2) by metis
    from Suc.IH [OF p(1,3)] Suc.prems(3) \<open>h = Suc h'\<close> obtain items where
      "take_ancestor_headers n A (Some p) = Inr items"
      "map fst items = map (\<lambda>i. the (nth_parent (side_parent A) p i)) [0..<n]" by auto
    moreover have "prev_side_hash hdr = Some p" using hdr(2) p(2) by simp
    ultimately show ?thesis using hdr by (simp add: upt del: upt_Suc)
  qed
qed

text \<open>The chain of \<open>b\<close>, at height \<open>h\<close>, from height \<open>s\<close> up.\<close>

definition chain_from :: "('acc, 'fr, 'pf) archive \<Rightarrow> block_hash \<Rightarrow> nat \<Rightarrow> nat \<Rightarrow> block_hash list" where
  "chain_from A b h s = map (\<lambda>k. the (nth_parent (side_parent A) b (h - k))) [s..<Suc h]"

lemma chain_from_split:
  assumes "s + n \<le> Suc h"
  shows "chain_from A b h s = map (\<lambda>k. the (nth_parent (side_parent A) b (h - k))) [s..<s + n] @ chain_from A b h (s + n)"
proof -
  have "[s..<Suc h] = [s..<s + n] @ [s + n..<Suc h]" using assms upt_add_eq_append [of s "s + n" "Suc h - (s + n)"] by simp
  then show ?thesis by (simp add: chain_from_def)
qed

lemma chain_batch:
  assumes inv: "archive_inv A" and b: "b \<in> side_known A" "try_get_height A b = Some h"
    and "s \<le> h" "off \<le> h - s"
  obtains a items where "get_nth_ancestor A b (h - s - off) = Inr a"
    "take_ancestor_headers (off + 1) A (Some a) = Inr items" "items \<noteq> []"
    "rev (map fst items) = map (\<lambda>k. the (nth_parent (side_parent A) b (h - k))) [s..<s + (off + 1)]"
proof -
  note ok = side_index_ok [OF inv]
  from side.nth_parent_total [OF ok b, of "h - s - off"] obtain a where
    a: "a \<in> side_known A" "nth_parent (side_parent A) b (h - s - off) = Some a" "try_get_height A a = Some (s + off)"
    using assms(4,5) by fastforce
  from take_ancestor_headers_ok [OF inv a(1,3), of "off + 1"] obtain items where
    items: "take_ancestor_headers (off + 1) A (Some a) = Inr items"
      "map fst items = map (\<lambda>i. the (nth_parent (side_parent A) a i)) [0..<off + 1]" by auto
  have shift: "nth_parent (side_parent A) a i = nth_parent (side_parent A) b (h - s - off + i)" for i
    using a(2) by (simp add: nth_parent_add)
  have len: "length items = off + 1" using arg_cong [OF items(2), of length] by simp
  have "rev (map fst items) = map (\<lambda>k. the (nth_parent (side_parent A) b (h - k))) [s..<s + (off + 1)]"
  proof (rule nth_equalityI)
    fix i
    assume "i < length (rev (map fst items))"
    then have i: "i < off + 1" by (simp add: len)
    have "rev (map fst items) ! i = map fst items ! (off - i)" using i by (simp add: rev_nth len)
    also have "\<dots> = the (nth_parent (side_parent A) b (h - s - off + (off - i)))"
      unfolding items(2) using i by (cases "i = 0") (auto simp: shift nth_append)
    also have "h - s - off + (off - i) = h - (s + i)" using i assms(4,5) by simp
    finally show "rev (map fst items) ! i = map (\<lambda>k. the (nth_parent (side_parent A) b (h - k))) [s..<s + (off + 1)] ! i"
      using i by (simp del: upt_Suc)
  qed (simp add: len)
  with items(1) len show thesis
    using side_anc_correct [OF ok b(1) a(2)] by (intro that [of a items]) auto
qed

definition rev_remaining :: "('acc, 'fr, 'pf) archive \<Rightarrow> nat \<Rightarrow> ancestors_rev \<Rightarrow> block_hash list" where
  "rev_remaining A h it =
     (case rev_inner it of None \<Rightarrow> [] | Some (_, buffer) \<Rightarrow> rev (map fst buffer))
     @ (case batch_start_height it of None \<Rightarrow> [] | Some s \<Rightarrow> chain_from A (rev_block_hash it) h s)"

definition rev_ok :: "block_hash \<Rightarrow> nat \<Rightarrow> ancestors_rev \<Rightarrow> bool" where
  "rev_ok b h it \<longleftrightarrow> rev_block_hash it = b \<and> (case rev_inner it of None \<Rightarrow> True | Some (e, _) \<Rightarrow> e = h)"

lemma pop_buffer_ok:
  assumes "rev_block_hash it = b" and "buffer \<noteq> []"
  obtains it' hdr where "pop_buffer it h buffer = (it', Some (fst (last buffer), hdr))" "rev_ok b h it'"
    "rev_remaining A h (it\<lparr>rev_inner := Some (h, buffer)\<rparr>) = fst (last buffer) # rev_remaining A h it'"
proof -
  have "rev (map fst buffer) = fst (last buffer) # rev (map fst (butlast buffer))"
    using arg_cong [OF append_butlast_last_id [OF assms(2)], of "\<lambda>xs. rev (map fst xs)"] by simp
  with assms show thesis
    by (intro that [of "it\<lparr>rev_inner := Some (h, butlast buffer)\<rparr>" "snd (last buffer)"])
      (simp_all add: pop_buffer_def rev_ok_def rev_remaining_def split: option.split)
qed

lemma ancestors_rev_next_ok:
  assumes inv: "archive_inv A" and b: "b \<in> side_known A" "try_get_height A b = Some h" and it: "rev_ok b h it"
  shows "\<exists>it' item. ancestors_rev_next A it = Inr (it', item) \<and> rev_ok b h it'
    \<and> (case rev_remaining A h it of [] \<Rightarrow> item = None
       | x # xs \<Rightarrow> (\<exists>hdr. item = Some (x, hdr)) \<and> rev_remaining A h it' = xs)"
proof -
  define buffer where "buffer = (case rev_inner it of None \<Rightarrow> [] | Some (_, buffer) \<Rightarrow> buffer)"
  have inner: "(case rev_inner it of Some inner \<Rightarrow> Inr inner
      | None \<Rightarrow> map_ok (\<lambda>end_height. (end_height, [])) (get_height A (rev_block_hash it))) = (Inr (h, buffer) :: _ archive_result)"
    using it b(2) by (auto simp: rev_ok_def buffer_def get_height_def split: option.splits prod.splits)
  have rem: "rev_remaining A h it = rev_remaining A h (it\<lparr>rev_inner := Some (h, buffer)\<rparr>)"
    using it by (auto simp: rev_ok_def buffer_def rev_remaining_def split: option.splits prod.splits)
  have hash: "rev_block_hash it = b" using it by (simp add: rev_ok_def)
  show ?thesis
  proof (cases "buffer = []")
    case False
    from pop_buffer_ok [OF hash this] obtain it' hdr where "pop_buffer it h buffer = (it', Some (fst (last buffer), hdr))"
      "rev_ok b h it'" "rev_remaining A h (it\<lparr>rev_inner := Some (h, buffer)\<rparr>) = fst (last buffer) # rev_remaining A h it'"
      by blast
    with False show ?thesis by (simp add: ancestors_rev_next_def inner rem)
  next
    case True
    show ?thesis
    proof (cases "batch_start_height it")
      case None
      then have "rev_remaining A h it = []" unfolding rem by (simp add: rev_remaining_def True)
      with None True show ?thesis by (simp add: ancestors_rev_next_def inner rev_ok_def hash)
    next
      case (Some s)
      show ?thesis
      proof (cases "s \<le> h")
        case False
        with Some have "rev_remaining A h it = []" unfolding rem by (simp add: rev_remaining_def True chain_from_def)
        with False Some True show ?thesis by (simp add: ancestors_rev_next_def inner rev_ok_def hash checked_sub_def)
      next
        case le: True
        let ?off = "min (h - s) (MAX_BATCH_SIZE - 1)"
        obtain a items where batch: "get_nth_ancestor A b (h - s - ?off) = Inr a"
          "take_ancestor_headers (?off + 1) A (Some a) = Inr items" "items \<noteq> []"
          "rev (map fst items) = map (\<lambda>k. the (nth_parent (side_parent A) b (h - k))) [s..<s + (?off + 1)]"
          using chain_batch [OF inv b le, of ?off] by (metis min.cobounded1)
        let ?next = "case checked_add 32 s (?off + 1) of Some s \<Rightarrow> if s \<le> h then Some s else None | None \<Rightarrow> None"
        let ?it = "it\<lparr>batch_start_height := ?next\<rparr>"
        from pop_buffer_ok [of ?it b items h A] hash batch(3) obtain it' hdr where
          pop: "pop_buffer ?it h items = (it', Some (fst (last items), hdr))" "rev_ok b h it'"
            "rev_remaining A h (?it\<lparr>rev_inner := Some (h, items)\<rparr>) = fst (last items) # rev_remaining A h it'"
          by auto
        have "h < 2 ^ 32" using side.height_known [OF side_index_ok [OF inv] b(1)] b(2) by force
        then have "(case ?next of None \<Rightarrow> [] | Some s \<Rightarrow> chain_from A b h s) = chain_from A b h (s + (?off + 1))"
          by (auto simp: checked_add_def chain_from_def split: option.splits if_splits)
        then have "rev_remaining A h it = rev_remaining A h (?it\<lparr>rev_inner := Some (h, items)\<rparr>)"
          using chain_from_split [of s "?off + 1" h A b] le
          unfolding rem by (simp add: rev_remaining_def True Some hash batch(4) del: upt_Suc cong: option.case_cong)
        with pop have rem': "rev_remaining A h it = fst (last items) # rev_remaining A h it'" by simp
        have "ancestors_rev_next A it = Inr (pop_buffer ?it h items)"
          unfolding ancestors_rev_next_def inner using le
          by (simp add: True Some checked_sub_def Let_def hash batch(1,2)
              del: take_ancestor_headers.simps One_nat_def diff_diff_left)
        with pop rem' show ?thesis by simp
      qed
    qed
  qed
qed

lemma missing_bodies_rev_ok:
  assumes inv: "archive_inv A" and b: "b \<in> side_known A" "try_get_height A b = Some h"
  shows "rev_ok b h it \<Longrightarrow> length (rev_remaining A h it) < fuel \<Longrightarrow>
    missing_bodies_rev fuel n A it = Inr (take n (filter (\<lambda>x. try_get_body A x = None) (rev_remaining A h it)))"
proof (induction fuel arbitrary: it n)
  case 0
  then show ?case by simp
next
  case (Suc fuel)
  from ancestors_rev_next_ok [OF inv b Suc.prems(1)] obtain it' item where
    step: "ancestors_rev_next A it = Inr (it', item)" "rev_ok b h it'"
      "case rev_remaining A h it of [] \<Rightarrow> item = None
       | x # xs \<Rightarrow> (\<exists>hdr. item = Some (x, hdr)) \<and> rev_remaining A h it' = xs" by blast
  show ?case
  proof (cases "rev_remaining A h it")
    case Nil
    with step show ?thesis by simp
  next
    case (Cons x xs)
    with step obtain hdr where "item = Some (x, hdr)" "rev_remaining A h it' = xs" by auto
    with Cons step(1) Suc.IH [OF step(2)] Suc.prems(2) show ?thesis by (cases n) simp_all
  qed
qed

lemma iter_missing_bodies_ok:
  assumes inv: "archive_inv A" and b: "b \<in> side_known A" "try_get_height A b = Some h"
  shows "iter_missing_bodies A b s n = Inr (take n (filter (\<lambda>x. try_get_body A x = None) (chain_from A b h s)))"
proof -
  have "rev_ok b h (ancestors_rev_new b s)" by (simp add: rev_ok_def ancestors_rev_new_def)
  moreover have "rev_remaining A h (ancestors_rev_new b s) = chain_from A b h s"
    by (simp add: rev_remaining_def ancestors_rev_new_def)
  ultimately show ?thesis
    using missing_bodies_rev_ok [OF inv b, of "ancestors_rev_new b s" "ancestor_fuel A" n] height_bound [OF inv b]
    by (simp add: iter_missing_bodies_def ancestor_fuel_def chain_from_def del: upt_Suc)
qed

lemma known_height:
  assumes "archive_inv A" and "get_height A b = Inr h"
  shows "b \<in> side_known A" "try_get_height A b = Some h"
proof -
  from assms(2) show ht: "try_get_height A b = Some h" by (simp add: get_height_def result_simps)
  with assms(1) show "b \<in> side_known A"
    by (auto simp: archive_inv_def side_index_def try_get_height_def fmlookup_dom'_iff)
qed

lemma no_missing_bodies:
  assumes inv: "archive_inv A" and b: "b \<in> side_known A" and none: "iter_missing_bodies A b s m = Inr []" "0 < m"
    and a: "is_ancestor (side_parent A) a b" "try_get_height A a = Some k" "s \<le> k"
  shows "try_get_body A a \<noteq> None"
proof -
  note ok = side_index_ok [OF inv]
  obtain h where h: "try_get_height A b = Some h" using side.height_known [OF ok b] by blast
  then obtain n where n: "nth_parent (side_parent A) b n = Some a" "n \<le> h" "k = h - n"
    using side.ancestor_depth [OF ok b h a(1)] a(2) by auto
  then have "a = the (nth_parent (side_parent A) b (h - k))" "k \<in> set [s..<Suc h]" using a(3) by auto
  then have "a \<in> set (chain_from A b h s)" unfolding chain_from_def by auto
  with none show ?thesis by (simp add: iter_missing_bodies_ok [OF inv b h] filter_empty_conv)
qed

end
