(* ===== verification/App_Sync.thy ===== *)
theory App_Sync
  imports App Wallet_Notes Shard_Store Archive_Iter
begin

text \<open>
  The wallet follows the node: after an update the wallet is at the tip of the node, it holds every unspent
  output of the node at its transparent addresses unless a spend of it is pending, and none that the node has recorded as spent.
  The update succeeds whenever the single blocks can be connected and disconnected.
\<close>

section \<open>What an update leaves alone\<close>

text \<open>The databases of transparent coins and addresses.\<close>

definition transparent_part ::
  "wallet \<Rightarrow> (transparent_address, nat) db \<times> (nat, transparent_address) db \<times> (out_point, tx_output) db \<times> (out_point, spent_output) db
    \<times> (out_point, tx_output) db \<times> (out_point, spent_output) db" where
  "transparent_part W = (address_to_index W, index_to_address W, w_utxos W, w_stxos W,
     w_utxos_unconfirmed W, w_stxos_unconfirmed W)"

lemma receive_note_transparent:
  "receive_note X key leaf txid W x = Inr W' \<Longrightarrow> transparent_part W' = transparent_part W \<and> w_tip W' = w_tip W \<and> seed W' = seed W
    \<and> orchard_note_commitments W' = orchard_note_commitments W"
  by (cases x) (auto simp: receive_note_def Let_def result_simps transparent_part_def split: option.splits if_splits)

lemma spend_other_transparent:
  "transparent_part (spend_other_action c txid idx act W) = transparent_part W
   \<and> w_tip (spend_other_action c txid idx act W) = w_tip W \<and> seed (spend_other_action c txid idx act W) = seed W
   \<and> orchard_note_commitments (spend_other_action c txid idx act W) = orchard_note_commitments W"
  by (simp add: spend_other_action_def Let_def transparent_part_def split: option.split)

lemma fold_invariant:
  assumes "P s" and "\<And>x s. x \<in> set xs \<Longrightarrow> P s \<Longrightarrow> P (f x s)"
  shows "P (fold f xs s)"
  using assms by (induction xs arbitrary: s) auto

lemma connect_bundle_transparent:
  assumes "connect_orchard_bundle X key tree txid bundle W = Inr (W', tree')"
  shows "transparent_part W' = transparent_part W \<and> w_tip W' = w_tip W \<and> seed W' = seed W
    \<and> orchard_note_commitments W' = orchard_note_commitments W" (is "?P W'")
proof -
  from connect_orchard_bundle_spends [OF assms] obtain W1 leaf where
    W1: "fold_res (receive_note X key leaf txid) W (decrypt_outputs X key bundle) = Inr W1"
    and W': "W' = fold (\<lambda>(idx, act). spend_other_action (tree \<noteq> None) txid idx act)
      (action_order bundle (recover_outputs X key bundle)) W1" .
  have "?P W1" by (rule fold_res_invariant [OF W1]) (use receive_note_transparent in fastforce)+
  then show ?thesis unfolding W' by (intro fold_invariant [where P = ?P]) (auto simp: spend_other_transparent)
qed

lemma connect_block_frame:
  assumes "connect_orchard_block E X W h b = Inr W'"
  shows "transparent_part W' = transparent_part W \<and> w_tip W' = Some (header_hash E h) \<and> w_tip W = prev_side_hash h"
proof -
  from assms obtain key tree W1 tree1 D where
    run: "fold_res (connect_orchard_tx E X key) (W, Some tree) (body_transactions b) = Inr (W1, tree1)"
    and W': "W' = W1\<lparr>w_tip := Some (header_hash E h), orchard_note_commitments := D\<rparr>"
    and tip: "w_tip W = prev_side_hash h"
    by (auto simp: connect_orchard_block_def Let_def result_simps put_shard_tree_def split: prod.splits)
  let ?P = "\<lambda>(V :: wallet, _ :: 'd option). transparent_part V = transparent_part W"
  have "?P (W1, tree1)"
  proof (rule fold_res_invariant [where P = ?P, OF run])
    show "?P (W, Some tree)" by simp
    show "?P t" if "connect_orchard_tx E X key s x = Inr t" "?P s" for s x t
      using that by (cases s; cases t) (auto simp: connect_orchard_tx_def dest: connect_bundle_transparent split: option.splits)
  qed
  with W' tip show ?thesis by (simp add: transparent_part_def)
qed

lemma unspend_known_transparent:
  "unspend_known_action txid bundle W x = Inr W' \<Longrightarrow> transparent_part W' = transparent_part W"
  by (cases x) (auto simp: unspend_known_action_def Let_def transparent_part_def split: option.splits if_splits)

lemma unspend_other_transparent: "transparent_part (unspend_other_action txid x W) = transparent_part W"
  by (cases x) (simp add: unspend_other_action_def Let_def transparent_part_def split: option.split)

lemma unreceive_transparent: "transparent_part (unreceive_note X key x W) = transparent_part W"
  by (cases x) (simp add: unreceive_note_def transparent_part_def)

lemma disconnect_tx_transparent:
  assumes "disconnect_orchard_tx E X key W tx = Inr W'"
  shows "transparent_part W' = transparent_part W"
proof (cases "orchard_bundle tx")
  case None
  with assms show ?thesis by (simp add: disconnect_orchard_tx_def)
next
  case (Some bu)
  let ?W = "fold (unreceive_note X key) (rev (decrypt_outputs X key bu)) W"
  from assms Some obtain V where
    V: "fold_res (unspend_known_action (tx_txid E tx) bu) ?W (rev (recover_outputs X key bu)) = Inr V"
    and W': "W' = fold (unspend_other_action (tx_txid E tx)) (filter (\<lambda>(idx, _). idx \<notin> fst ` set (recover_outputs X key bu))
      (rev (enumerate 0 (actions bu)))) V"
    by (auto simp: disconnect_orchard_tx_def Let_def result_simps)
  have "transparent_part ?W = transparent_part W"
    by (rule fold_invariant) (simp_all add: unreceive_transparent)
  moreover have "transparent_part V = transparent_part ?W"
    by (rule fold_res_invariant [OF V]) (simp_all add: unspend_known_transparent)
  moreover have "transparent_part W' = transparent_part V"
    unfolding W' by (rule fold_invariant) (simp_all add: unspend_other_transparent)
  ultimately show ?thesis by simp
qed

lemma disconnect_block_frame:
  assumes "disconnect_orchard_block E T X W h b = Inr W'"
  shows "transparent_part W' = transparent_part W \<and> w_tip W' = prev_side_hash h \<and> w_tip W = Some (header_hash E h)"
proof -
  from assms obtain key V D where
    run: "fold_res (disconnect_orchard_tx E X key) W (rev (body_transactions b)) = Inr V"
    and W': "W' = V\<lparr>w_tip := prev_side_hash h, orchard_note_commitments := D\<rparr>"
    and tip: "w_tip W = Some (header_hash E h)"
    by (auto simp: disconnect_orchard_block_def Let_def result_simps put_shard_tree_def split: prod.splits if_splits)
  have "transparent_part V = transparent_part W"
    by (rule fold_res_invariant [OF run]) (simp_all add: disconnect_tx_transparent)
  with W' tip show ?thesis by (simp add: transparent_part_def)
qed

section \<open>The tip\<close>

lemma disconnect_wallet_to_frame:
  assumes "disconnect_wallet_to E T X A common fuel tip W = Inr W'" and "w_tip W = tip"
  shows "w_tip W' = common \<and> transparent_part W' = transparent_part W"
  using assms
proof (induction fuel arbitrary: tip W)
  case 0
  then show ?case by simp
next
  case (Suc fuel)
  show ?case
  proof (cases "tip = common")
    case True
    with Suc.prems show ?thesis by simp
  next
    case False
    with Suc.prems(1) obtain h b V where d: "disconnect_orchard_block E T X W h b = Inr V"
      and r: "disconnect_wallet_to E T X A common fuel (prev_side_hash h) V = Inr W'"
      by (auto simp: result_simps)
    from disconnect_block_frame [OF d] Suc.IH [OF r] show ?thesis by simp
  qed
qed

lemma connect_wallet_block_frame:
  assumes "connect_wallet_block E X A W b = Inr W'" and "headers_keyed E A"
  shows "w_tip W' = Some b \<and> transparent_part W' = transparent_part W"
proof -
  from assms(1) obtain h body where h: "fmlookup (headers A) b = Some h" and "connect_orchard_block E X W h body = Inr W'"
    by (auto simp: connect_wallet_block_def result_simps get_header_def try_get_header_def)
  with connect_block_frame [OF this(2)] assms(2) show ?thesis by (simp add: headers_keyed_def)
qed

lemma connect_wallet_blocks_frame:
  assumes "fold_res (connect_wallet_block E X A) W bs = Inr W'" and "headers_keyed E A"
  shows "w_tip W' = (if bs = [] then w_tip W else Some (last bs)) \<and> transparent_part W' = transparent_part W"
  using assms(1)
proof (induction bs arbitrary: W)
  case Nil
  then show ?case by simp
next
  case (Cons b bs)
  then obtain V where V: "connect_wallet_block E X A W b = Inr V" "fold_res (connect_wallet_block E X A) V bs = Inr W'"
    by (auto simp: result_simps)
  with connect_wallet_block_frame [OF V(1) assms(2)] Cons.IH [OF V(2)] show ?case by simp
qed

lemma ancestors_until_hd:
  assumes "ancestors_until fuel A common b = Inr bs"
  shows "if bs = [] then b = common \<or> b = None else b = Some (hd bs)"
  using assms by (cases fuel) (auto simp: result_simps split: option.splits if_splits)

lemma update_wallet_blocks_frame:
  assumes "update_wallet_blocks E T X N W = Inr W'" and "headers_keyed E (nd_archive N)"
  shows "w_tip W' = st_tip (nd_state N) \<and> transparent_part W' = transparent_part W"
proof -
  let ?A = "nd_archive N" and ?tip = "st_tip (nd_state N)"
  from assms(1) obtain common V bs where
    c: "common_ancestor_of ?A ?tip (w_tip W) = Inr common"
    and V: "disconnect_wallet_to E T X ?A common (ancestor_fuel ?A) (w_tip W) W = Inr V"
    and bs: "ancestors_until (ancestor_fuel ?A) ?A common ?tip = Inr bs"
    and W': "fold_res (connect_wallet_block E X ?A) V (rev bs) = Inr W'"
    by (auto simp: update_wallet_blocks_def Let_def result_simps)
  note d = disconnect_wallet_to_frame [OF V refl] and f = connect_wallet_blocks_frame [OF W' assms(2)]
  from c have "?tip = None \<Longrightarrow> common = None" by (auto simp: common_ancestor_of_def split: option.splits)
  with ancestors_until_hd [OF bs] d f show ?thesis by (auto simp: last_rev split: if_splits)
qed

section \<open>The coins\<close>

lemma put_utxo_confirmed_step:
  defines "put \<equiv> put_utxo_confirmed"
  shows "address_to_index (put (op, out) W) = address_to_index W" and "w_stxos_unconfirmed (put (op, out) W) = w_stxos_unconfirmed W"
    and "w_stxos (put (op, out) W) = w_stxos W" and "w_tip (put (op, out) W) = w_tip W"
    and "fmlookup (w_utxos (put (op, out) W)) op' =
      (if op' = op \<and> has_key (address_to_index W) (address out) \<and> \<not> has_key (w_stxos_unconfirmed W) op
       then Some out else fmlookup (w_utxos W) op')"
  by (auto simp: put_def put_utxo_confirmed_def Let_def)

lemma put_utxos_confirmed_lookup:
  assumes "distinct (map fst outs)"
  shows "w_stxos_unconfirmed (put_utxos_confirmed W outs) = w_stxos_unconfirmed W
    \<and> w_stxos (put_utxos_confirmed W outs) = w_stxos W \<and> w_tip (put_utxos_confirmed W outs) = w_tip W
    \<and> fmlookup (w_utxos (put_utxos_confirmed W outs)) op =
      (case map_of outs op of
         Some out \<Rightarrow> if has_key (address_to_index W) (address out) \<and> \<not> has_key (w_stxos_unconfirmed W) op
           then Some out else fmlookup (w_utxos W) op
       | None \<Rightarrow> fmlookup (w_utxos W) op)"
  using assms unfolding put_utxos_confirmed_def
proof (induction outs arbitrary: W)
  case Nil
  then show ?case by simp
next
  case (Cons u outs)
  obtain op' out where u: "u = (op', out)" by (cases u)
  have "map_of outs op' = None" using Cons.prems by (simp add: u map_of_eq_None_iff)
  with Cons.IH [of "put_utxo_confirmed u W"] Cons.prems show ?case
    by (auto simp: u put_utxo_confirmed_step split: option.splits if_splits)
qed

text \<open>The output the wallet knows at an out point, spendable or with a pending spend.\<close>

definition known_coin :: "wallet \<Rightarrow> out_point \<Rightarrow> tx_output option" where
  "known_coin W op =
     (case fmlookup (w_utxos W) op of Some out \<Rightarrow> Some out | None \<Rightarrow> map_option so_output (fmlookup (w_stxos_unconfirmed W) op))"

lemma spend_utxo_confirmed_step:
  "w_tip (spend_utxo_confirmed (op, i) W) = w_tip W"
  "fmlookup (w_utxos (spend_utxo_confirmed (op, i) W)) op' = (if op' = op then None else fmlookup (w_utxos W) op')"
  "fmlookup (w_stxos_unconfirmed (spend_utxo_confirmed (op, i) W)) op'
     = (if op' = op then None else fmlookup (w_stxos_unconfirmed W) op')"
  "fmlookup (w_stxos (spend_utxo_confirmed (op, i) W)) op' =
     (case if op' = op then known_coin W op else None of
        Some out \<Rightarrow> Some \<lparr>so_output = out, so_inpoint = i\<rparr> | None \<Rightarrow> fmlookup (w_stxos W) op')"
  by (auto simp: spend_utxo_confirmed_def known_coin_def Let_def split: option.splits)

lemma spend_utxos_confirmed_lookup:
  "w_tip (spend_utxos_confirmed W spent) = w_tip W
   \<and> fmlookup (w_utxos (spend_utxos_confirmed W spent)) op = (if op \<in> fst ` set spent then None else fmlookup (w_utxos W) op)
   \<and> fmlookup (w_stxos_unconfirmed (spend_utxos_confirmed W spent)) op
       = (if op \<in> fst ` set spent then None else fmlookup (w_stxos_unconfirmed W) op)
   \<and> fmlookup (w_stxos (spend_utxos_confirmed W spent)) op =
      (case (map_of spent op, known_coin W op) of
         (Some i, Some out) \<Rightarrow> Some \<lparr>so_output = out, so_inpoint = i\<rparr> | _ \<Rightarrow> fmlookup (w_stxos W) op)"
  unfolding spend_utxos_confirmed_def
proof (induction spent arbitrary: W)
  case Nil
  then show ?case by simp
next
  case (Cons x spent)
  obtain op' i where x: "x = (op', i)" by (cases x)
  let ?W = "spend_utxo_confirmed (op', i) W"
  have k: "known_coin ?W op = (if op = op' then None else known_coin W op)"
    by (simp add: known_coin_def spend_utxo_confirmed_step split: option.split)
  show ?case using Cons.IH [of ?W] by (auto simp: x k spend_utxo_confirmed_step split: option.splits if_splits)
qed

lemma get_spent_utxos_iff:
  "(op, so) \<in> set (get_spent_utxos S ops) \<longleftrightarrow> op \<in> set ops \<and> fmlookup (stxos S) (out_point_key op) = Some so"
  by (force simp: get_spent_utxos_def List.map_filter_def image_iff)

lemma utxos_by_addresses:
  assumes "utxo_keys_ok S"
  obtains outs where "get_utxos_by_addresses S as = Inr outs" and "distinct (map fst outs)"
    and "\<forall>op. map_of outs op = (case fmlookup (utxos S) (out_point_key op) of
      Some out \<Rightarrow> if address out \<in> set as then Some out else None | None \<Rightarrow> None)"
proof -
  let ?xs = "filter (\<lambda>(_, out). address out \<in> set as) (utxo_entries S)"
  have in_xs: "(k, out) \<in> set ?xs \<longleftrightarrow> fmlookup (utxos S) k = Some out \<and> address out \<in> set as" for k out
    by (auto simp: utxo_entries_def in_sorted_list_of_fmap)
  from decode_entries [of ?xs] assms obtain outs where
    o: "get_utxos_by_addresses S as = Inr outs" "map (\<lambda>(op, out). (out_point_key op, out)) outs = ?xs"
    unfolding get_utxos_by_addresses_def utxo_keys_ok_def in_xs by blast
  have "map out_point_key (map fst outs) = map fst ?xs" unfolding o(2) [symmetric] by (simp add: case_prod_beta)
  moreover have "distinct (map fst ?xs)"
    by (rule distinct_map_filter) (simp add: utxo_entries_def distinct_sorted_list_of_fmap)
  ultimately have d: "distinct (map fst outs)" by (metis distinct_map)
  have "(op, out) \<in> set outs \<longleftrightarrow> (out_point_key op, out) \<in> set ?xs" for op out
    unfolding o(2) [symmetric] by (force simp: out_point_key_inj)
  then have iff: "map_of outs op = Some out \<longleftrightarrow> fmlookup (utxos S) (out_point_key op) = Some out \<and> address out \<in> set as" for op out
    using map_of_eq_Some_iff [OF d] in_xs by simp
  have "map_of outs op = (case fmlookup (utxos S) (out_point_key op) of
      Some out \<Rightarrow> if address out \<in> set as then Some out else None | None \<Rightarrow> None)" for op
    using iff [of op "the (fmlookup (utxos S) (out_point_key op))"] iff [of op "the (map_of outs op)"]
    by (cases "map_of outs op") (auto split: option.split)
  with o(1) d that show thesis by blast
qed

lemma keys_of_fmap: "k \<in> fst ` set (sorted_list_of_fmap m) \<longleftrightarrow> has_key m k"
proof -
  have "k \<in> fst ` set (sorted_list_of_fmap m) \<longleftrightarrow> (\<exists>v. (k, v) \<in> set (sorted_list_of_fmap m))" by force
  then show ?thesis by (simp add: in_sorted_list_of_fmap)
qed

lemma update_wallet_coins_lookup:
  assumes "peg_inv S"
  obtains W' where "update_wallet_coins S W = Inr W'" and "w_tip W' = w_tip W"
    and "\<forall>op. fmlookup (w_utxos W') op =
      (if (has_key (w_utxos W) op \<or> has_key (w_stxos_unconfirmed W) op) \<and> has_key (stxos S) (out_point_key op) then None
       else case fmlookup (utxos S) (out_point_key op) of
         Some out \<Rightarrow> if address out \<in> set (get_transparent_addresses W) \<and> has_key (address_to_index W) (address out)
             \<and> \<not> has_key (w_stxos_unconfirmed W) op
           then Some out else fmlookup (w_utxos W) op
       | None \<Rightarrow> fmlookup (w_utxos W) op)"
    and "\<forall>op so out. fmlookup (stxos S) (out_point_key op) = Some so \<longrightarrow> known_coin W op = Some out \<longrightarrow>
      fmlookup (w_stxos_unconfirmed W') op = None
      \<and> fmlookup (w_stxos W') op = Some \<lparr>so_output = out, so_inpoint = so_inpoint so\<rparr>"
proof -
  have keys: "utxo_keys_ok S" and dis: "disjoint_dbs S" using assms by (simp_all add: peg_inv_def)
  from utxos_by_addresses [OF keys, of "get_transparent_addresses W"]
  obtain outs where o: "get_utxos_by_addresses S (get_transparent_addresses W) = Inr outs" "distinct (map fst outs)"
    and look': "\<forall>op. map_of outs op = (case fmlookup (utxos S) (out_point_key op) of
      Some out \<Rightarrow> if address out \<in> set (get_transparent_addresses W) then Some out else None | None \<Rightarrow> None)"
    .
  note look = look' [rule_format]
  define spent where "spent = map (\<lambda>(op, so). (op, so_inpoint so))
    (get_spent_utxos S (wallet_utxo_keys W @ wallet_stxo_unconfirmed_keys W))"
  let ?V = "put_utxos_confirmed W outs" and ?W' = "spend_utxos_confirmed (put_utxos_confirmed W outs) spent"
  have mem: "op \<in> set (wallet_utxo_keys W @ wallet_stxo_unconfirmed_keys W)
      \<longleftrightarrow> has_key (w_utxos W) op \<or> has_key (w_stxos_unconfirmed W) op" for op
    by (simp only: wallet_utxo_keys_def wallet_stxo_unconfirmed_keys_def set_append set_map Un_iff keys_of_fmap)
  have "(op, i) \<in> set spent \<longleftrightarrow> (\<exists>so. (op, so) \<in> set (get_spent_utxos S (wallet_utxo_keys W @ wallet_stxo_unconfirmed_keys W))
      \<and> so_inpoint so = i)" for op i
    by (force simp: spent_def)
  then have sp: "(op, i) \<in> set spent \<longleftrightarrow> (has_key (w_utxos W) op \<or> has_key (w_stxos_unconfirmed W) op)
      \<and> (\<exists>so. fmlookup (stxos S) (out_point_key op) = Some so \<and> so_inpoint so = i)" for op i
    unfolding get_spent_utxos_iff mem by blast
  then have sp_fst: "op \<in> fst ` set spent \<longleftrightarrow> (has_key (w_utxos W) op \<or> has_key (w_stxos_unconfirmed W) op)
      \<and> has_key (stxos S) (out_point_key op)" for op
  proof -
    have "op \<in> fst ` set spent \<longleftrightarrow> (\<exists>i. (op, i) \<in> set spent)" by force
    then show ?thesis unfolding sp by simp
  qed
  note put = put_utxos_confirmed_lookup [OF o(2), of W] and sc = spend_utxos_confirmed_lookup [of ?V spent]
  have "update_wallet_coins S W = Inr ?W'" using o(1) by (simp add: update_wallet_coins_def spent_def Let_def)
  moreover have "w_tip ?W' = w_tip W" using put sc by simp
  moreover have "fmlookup (w_utxos ?W') op =
      (if (has_key (w_utxos W) op \<or> has_key (w_stxos_unconfirmed W) op) \<and> has_key (stxos S) (out_point_key op) then None
       else case fmlookup (utxos S) (out_point_key op) of
         Some out \<Rightarrow> if address out \<in> set (get_transparent_addresses W) \<and> has_key (address_to_index W) (address out)
             \<and> \<not> has_key (w_stxos_unconfirmed W) op
           then Some out else fmlookup (w_utxos W) op
       | None \<Rightarrow> fmlookup (w_utxos W) op)" for op
    using put [of op] sc [of op] unfolding sp_fst look by (auto split: option.split)
  moreover have "fmlookup (w_stxos_unconfirmed ?W') op = None
      \<and> fmlookup (w_stxos ?W') op = Some \<lparr>so_output = out, so_inpoint = so_inpoint so\<rparr>"
    if so: "fmlookup (stxos S) (out_point_key op) = Some so" and out: "known_coin W op = Some out" for op so out
  proof -
    have k: "has_key (w_utxos W) op \<or> has_key (w_stxos_unconfirmed W) op"
      using out by (auto simp: known_coin_def split: option.splits)
    have "fmlookup (utxos S) (out_point_key op) = None" using dis so by (auto simp: disjoint_dbs_def)
    then have "known_coin ?V op = Some out" using out put [of op] by (simp add: known_coin_def look cong: option.case_cong)
    moreover have "map_of spent op = Some (so_inpoint so)"
    proof -
      from k so have "op \<in> fst ` set spent" by (simp add: sp_fst)
      then have "map_of spent op \<noteq> None" by (simp add: map_of_eq_None_iff)
      then obtain i where i: "map_of spent op = Some i" by blast
      with map_of_SomeD [OF i] so show ?thesis by (simp add: sp)
    qed
    ultimately show ?thesis using sc [of op] k so by (simp add: sp_fst)
  qed
  ultimately show thesis by (intro that) blast+
qed

text \<open>
  C16. After an update the tip of the wallet is the tip of the node. Every unspent output of the node at an
  address of the wallet is a coin of the wallet, unless the wallet waits for a spend of it. A coin that the
  node has recorded as spent is no longer a coin of the wallet, pending or not, and is recorded
  with the input that spent it. But a coin that the node knows neither as unspent nor as spent, such as
  an output of a block that was disconnected, stays a coin of the wallet.
\<close>

theorem update_wallet_syncs:
  assumes "update_wallet E T X N W = Inr W'" and "headers_keyed E (nd_archive N)" and "peg_inv (nd_state N)"
  shows "w_tip W' = st_tip (nd_state N)
    \<and> (\<forall>op out. fmlookup (utxos (nd_state N)) (out_point_key op) = Some out
        \<and> address out \<in> set (get_transparent_addresses W) \<and> has_key (address_to_index W) (address out)
        \<and> \<not> has_key (w_stxos_unconfirmed W) op \<longrightarrow> fmlookup (w_utxos W') op = Some out)
    \<and> (\<forall>op so out. fmlookup (stxos (nd_state N)) (out_point_key op) = Some so \<and> known_coin W op = Some out \<longrightarrow>
        fmlookup (w_utxos W') op = None \<and> fmlookup (w_stxos_unconfirmed W') op = None
        \<and> fmlookup (w_stxos W') op = Some \<lparr>so_output = out, so_inpoint = so_inpoint so\<rparr>)
    \<and> (\<forall>op. fmlookup (utxos (nd_state N)) (out_point_key op) = None
        \<and> fmlookup (stxos (nd_state N)) (out_point_key op) = None \<longrightarrow>
          fmlookup (w_utxos W') op = fmlookup (w_utxos W) op)"
proof -
  let ?S = "nd_state N"
  from assms(1) obtain W1 where W1: "update_wallet_blocks E T X N W = Inr W1" "update_wallet_coins ?S W1 = Inr W'"
    by (auto simp: update_wallet_def result_simps)
  note f = update_wallet_blocks_frame [OF W1(1) assms(2)]
  then have same: "w_utxos W1 = w_utxos W" "w_stxos_unconfirmed W1 = w_stxos_unconfirmed W"
    "address_to_index W1 = address_to_index W" "get_transparent_addresses W1 = get_transparent_addresses W"
    by (simp_all add: transparent_part_def get_transparent_addresses_def)
  then have kc: "known_coin W1 op = known_coin W op" for op by (simp add: known_coin_def split: option.split)
  from update_wallet_coins_lookup [OF assms(3), of W1]
  obtain V where V: "update_wallet_coins ?S W1 = Inr V" "w_tip V = w_tip W1"
    and look': "\<forall>op. fmlookup (w_utxos V) op =
      (if (has_key (w_utxos W1) op \<or> has_key (w_stxos_unconfirmed W1) op) \<and> has_key (stxos ?S) (out_point_key op) then None
       else case fmlookup (utxos ?S) (out_point_key op) of
         Some out \<Rightarrow> if address out \<in> set (get_transparent_addresses W1) \<and> has_key (address_to_index W1) (address out)
             \<and> \<not> has_key (w_stxos_unconfirmed W1) op
           then Some out else fmlookup (w_utxos W1) op
       | None \<Rightarrow> fmlookup (w_utxos W1) op)"
    and spent': "\<forall>op so out. fmlookup (stxos ?S) (out_point_key op) = Some so \<longrightarrow> known_coin W1 op = Some out \<longrightarrow>
      fmlookup (w_stxos_unconfirmed V) op = None
      \<and> fmlookup (w_stxos V) op = Some \<lparr>so_output = out, so_inpoint = so_inpoint so\<rparr>"
    .
  have V': "V = W'" using V(1) W1(2) by simp
  note look = look' [rule_format, unfolded V' same] and spent = spent' [rule_format, unfolded V' kc] and tip = V(2) [unfolded V']
  have dis: "fmlookup (stxos ?S) k = None" if "fmlookup (utxos ?S) k = Some out" for k out
    using assms(3) that by (metis disjoint_dbs_def option.distinct(1) peg_inv_def)
  show ?thesis
  proof (intro conjI allI impI)
    show "w_tip W' = st_tip ?S" using f tip by simp
  qed (use look spent in \<open>auto simp: dis known_coin_def split: option.splits\<close>)
qed

section \<open>An update succeeds\<close>

text \<open>The wallets for which the stored blocks can be connected and disconnected at the right tip.\<close>

definition follows_blocks ::
  "('acc, 'fr, 'pf) ext \<Rightarrow> shardtree_ext \<Rightarrow> ('tree, 'path, 'b) wallet_ext \<Rightarrow> ('acc, 'fr, 'pf) archive \<Rightarrow> (wallet \<Rightarrow> bool) \<Rightarrow> bool" where
  "follows_blocks E T X A P \<longleftrightarrow>
     (\<forall>W b h body. P W \<and> fmlookup (headers A) b = Some h \<and> try_get_body A b = Some body \<longrightarrow>
        (w_tip W = Some b \<longrightarrow> (\<exists>W'. disconnect_orchard_block E T X W h body = Inr W' \<and> P W'))
      \<and> (w_tip W = prev_side_hash h \<longrightarrow> (\<exists>W'. connect_orchard_block E X W h body = Inr W' \<and> P W')))"

lemma follows_blocksD:
  assumes "follows_blocks E T X A P" and "P W" and "fmlookup (headers A) b = Some h" and "try_get_body A b = Some body"
  shows "w_tip W = Some b \<Longrightarrow> \<exists>W'. disconnect_orchard_block E T X W h body = Inr W' \<and> P W'"
    and "w_tip W = prev_side_hash h \<Longrightarrow> \<exists>W'. connect_orchard_block E X W h body = Inr W' \<and> P W'"
  using assms unfolding follows_blocks_def by blast+

definition stops_at :: "('acc, 'fr, 'pf) archive \<Rightarrow> block_hash option \<Rightarrow> block_hash \<Rightarrow> bool" where
  "stops_at A common b \<longleftrightarrow> (case common of None \<Rightarrow> True | Some c \<Rightarrow> is_ancestor (side_parent A) c b)"

lemma is_ancestor_step: "is_ancestor par a b \<longleftrightarrow> a = b \<or> (\<exists>p. par b = Some p \<and> is_ancestor par a p)"
proof
  assume "is_ancestor par a b"
  then obtain n where "nth_parent par b n = Some a" by (auto simp: is_ancestor_def)
  then show "a = b \<or> (\<exists>p. par b = Some p \<and> is_ancestor par a p)"
    by (cases n) (auto simp: is_ancestor_def bind_eq_Some_conv)
next
  assume "a = b \<or> (\<exists>p. par b = Some p \<and> is_ancestor par a p)"
  then show "is_ancestor par a b"
  proof
    assume "a = b"
    then show ?thesis by (auto simp: is_ancestor_def intro: exI [of _ 0])
  next
    assume "\<exists>p. par b = Some p \<and> is_ancestor par a p"
    then obtain p n where "par b = Some p" "nth_parent par p n = Some a" by (auto simp: is_ancestor_def)
    then show ?thesis by (auto simp: is_ancestor_def intro: exI [of _ "Suc n"])
  qed
qed

lemma stops_at_parent:
  assumes "stops_at A common b" and "common \<noteq> Some b"
  shows "side_parent A b = None \<Longrightarrow> common = None" and "side_parent A b = Some p \<Longrightarrow> stops_at A common p"
proof -
  have "side_parent A b \<noteq> None \<and> is_ancestor (side_parent A) c (the (side_parent A b))" if "common = Some c" for c
    using assms that is_ancestor_step [of "side_parent A" c b] by (auto simp: stops_at_def)
  then show "side_parent A b = None \<Longrightarrow> common = None" "side_parent A b = Some p \<Longrightarrow> stops_at A common p"
    by (cases common; simp add: stops_at_def)+
qed

text \<open>A stored block and its parent.\<close>

lemma stored_block:
  assumes "b \<in> side_known A" and "\<forall>a. is_ancestor (side_parent A) a b \<longrightarrow> try_get_body A a \<noteq> None"
  obtains hd body where "fmlookup (headers A) b = Some hd" "try_get_body A b = Some body" "side_parent A b = prev_side_hash hd"
proof -
  from assms(1) obtain hd where hd: "fmlookup (headers A) b = Some hd" by (auto simp: side_known_iff)
  from assms(2) is_ancestor_step [of "side_parent A" b b] obtain body where "try_get_body A b = Some body" by blast
  with hd that show thesis by (simp add: side_parent_def)
qed

lemma stored_parent:
  assumes "archive_inv A" and "b \<in> side_known A" and "try_get_height A b = Some (Suc h)"
    and "\<forall>a. is_ancestor (side_parent A) a b \<longrightarrow> try_get_body A a \<noteq> None"
  obtains p where "side_parent A b = Some p" "p \<in> side_known A" "try_get_height A p = Some h"
    "\<forall>a. is_ancestor (side_parent A) a p \<longrightarrow> try_get_body A a \<noteq> None"
proof -
  from side.parent [OF side_index_ok [OF assms(1)] assms(2,3)] obtain p where
    p: "p \<in> side_known A" "side_parent A b = Some p" "try_get_height A p = Some h" .
  have "try_get_body A a \<noteq> None" if "is_ancestor (side_parent A) a p" for a
    using assms(4) is_ancestor_step [of "side_parent A" a b] p(2) that by blast
  with p that show thesis by blast
qed

lemma disconnect_wallet_total:
  assumes "archive_inv A" and "headers_keyed E A" and "follows_blocks E T X A P"
    and "b \<in> side_known A" and "try_get_height A b = Some h" and "Suc h < fuel" and "stops_at A common b"
    and "\<forall>a. is_ancestor (side_parent A) a b \<longrightarrow> try_get_body A a \<noteq> None" and "P W" and "w_tip W = Some b"
  shows "\<exists>W'. disconnect_wallet_to E T X A common fuel (Some b) W = Inr W' \<and> P W'"
  using assms(4-)
proof (induction h arbitrary: b fuel W)
  case 0
  then obtain f where f: "fuel = Suc (Suc f)" by (cases fuel; cases "fuel - 1") auto
  from stored_block [OF 0(1,5)] obtain hd body where
    b: "fmlookup (headers A) b = Some hd" "try_get_body A b = Some body" "side_parent A b = prev_side_hash hd" .
  have root: "prev_side_hash hd = None" using side.genesis [OF side_index_ok [OF assms(1)] 0(1,2)] b(3) by simp
  from follows_blocksD(1) [OF assms(3) 0(6) b(1,2) 0(7)] obtain W' where
    W': "disconnect_orchard_block E T X W hd body = Inr W'" "P W'" by blast
  have "common = None" if "common \<noteq> Some b" using stops_at_parent(1) [OF 0(4) that] b(3) root by simp
  with W' b root 0(6) show ?case by (auto simp: f get_header_def try_get_header_def get_body_def)
next
  case (Suc h)
  then obtain f where f: "fuel = Suc f" "Suc h < f" by (cases fuel) auto
  from stored_block [OF Suc.prems(1,5)] obtain hd body where
    b: "fmlookup (headers A) b = Some hd" "try_get_body A b = Some body" "side_parent A b = prev_side_hash hd" .
  from stored_parent [OF assms(1) Suc.prems(1,2,5)] obtain p where
    "side_parent A b = Some p" and p': "p \<in> side_known A" "try_get_height A p = Some h"
      "\<forall>a. is_ancestor (side_parent A) a p \<longrightarrow> try_get_body A a \<noteq> None" .
  then have p: "prev_side_hash hd = Some p" "p \<in> side_known A" "try_get_height A p = Some h"
      "\<forall>a. is_ancestor (side_parent A) a p \<longrightarrow> try_get_body A a \<noteq> None" using b(3) by simp_all
  from follows_blocksD(1) [OF assms(3) Suc.prems(6) b(1,2) Suc.prems(7)] obtain W' where
    W': "disconnect_orchard_block E T X W hd body = Inr W'" "P W'" by blast
  have "stops_at A common p" if "common \<noteq> Some b" using stops_at_parent(2) [OF Suc.prems(4) that] b(3) p(1) by simp
  with Suc.IH [OF p(2,3) f(2) _ p(4) W'(2)] disconnect_block_frame [OF W'(1)] W'(1) b p(1) Suc.prems(6)
  show ?case by (auto simp: f(1) get_header_def try_get_header_def get_body_def)
qed

lemma connect_wallet_total:
  assumes "archive_inv A" and "headers_keyed E A" and "follows_blocks E T X A P"
    and "b \<in> side_known A" and "try_get_height A b = Some h" and "Suc h < fuel" and "stops_at A common b"
    and "\<forall>a. is_ancestor (side_parent A) a b \<longrightarrow> try_get_body A a \<noteq> None" and "P W" and "w_tip W = common"
  shows "\<exists>bs W'. ancestors_until fuel A common (Some b) = Inr bs
    \<and> fold_res (connect_wallet_block E X A) W (rev bs) = Inr W' \<and> P W' \<and> w_tip W' = Some b"
  using assms(4-)
proof (induction h arbitrary: b fuel)
  case 0
  then obtain f where f: "fuel = Suc (Suc f)" by (cases fuel; cases "fuel - 1") auto
  from stored_block [OF 0(1,5)] obtain hd body where
    b: "fmlookup (headers A) b = Some hd" "try_get_body A b = Some body" "side_parent A b = prev_side_hash hd" .
  have root: "prev_side_hash hd = None" using side.genesis [OF side_index_ok [OF assms(1)] 0(1,2)] b(3) by simp
  show ?case
  proof (cases "common = Some b")
    case True
    with 0 b show ?thesis by (simp add: f get_header_def try_get_header_def)
  next
    case False
    then have "common = None" using stops_at_parent(1) [OF 0(4)] b(3) root by simp
    with 0(7) root have "w_tip W = prev_side_hash hd" by simp
    from follows_blocksD(2) [OF assms(3) 0(6) b(1,2) this] obtain W' where
      W': "connect_orchard_block E X W hd body = Inr W'" "P W'" by blast
    with connect_block_frame [OF W'(1)] assms(2) b root False show ?thesis
      by (simp add: f get_header_def try_get_header_def get_body_def connect_wallet_block_def headers_keyed_def)
  qed
next
  case (Suc h)
  then obtain f where f: "fuel = Suc f" "Suc h < f" by (cases fuel) auto
  from stored_block [OF Suc.prems(1,5)] obtain hd body where
    b: "fmlookup (headers A) b = Some hd" "try_get_body A b = Some body" "side_parent A b = prev_side_hash hd" .
  from stored_parent [OF assms(1) Suc.prems(1,2,5)] obtain p where
    "side_parent A b = Some p" and p': "p \<in> side_known A" "try_get_height A p = Some h"
      "\<forall>a. is_ancestor (side_parent A) a p \<longrightarrow> try_get_body A a \<noteq> None" .
  then have p: "prev_side_hash hd = Some p" "p \<in> side_known A" "try_get_height A p = Some h"
      "\<forall>a. is_ancestor (side_parent A) a p \<longrightarrow> try_get_body A a \<noteq> None" using b(3) by simp_all
  show ?case
  proof (cases "common = Some b")
    case True
    with Suc.prems b show ?thesis by (simp add: f get_header_def try_get_header_def)
  next
    case False
    then have "stops_at A common p" using stops_at_parent(2) [OF Suc.prems(4)] b(3) p(1) by simp
    from Suc.IH [OF p(2,3) f(2) this p(4) Suc.prems(6,7)] obtain bs V where
      V: "ancestors_until f A common (Some p) = Inr bs" "fold_res (connect_wallet_block E X A) W (rev bs) = Inr V"
        "P V" "w_tip V = prev_side_hash hd" using p(1) by auto
    from follows_blocksD(2) [OF assms(3) V(3) b(1,2) V(4)] obtain W' where
      W': "connect_orchard_block E X V hd body = Inr W'" "P W'" by blast
    have "ancestors_until fuel A common (Some b) = Inr (b # bs)"
      using V(1) b(1) p(1) False by (simp add: f(1) get_header_def try_get_header_def)
    moreover have "fold_res (connect_wallet_block E X A) W (rev (b # bs)) = Inr W'"
      using V(2) W'(1) b by (simp add: fold_res_append connect_wallet_block_def get_header_def try_get_header_def get_body_def)
    moreover have "w_tip W' = Some b" using connect_block_frame [OF W'(1)] assms(2) b(1) by (simp add: headers_keyed_def)
    ultimately show ?thesis using W'(2) by blast
  qed
qed

lemma update_wallet_total:
  assumes "archive_inv (nd_archive N)" and "headers_keyed E (nd_archive N)" and "peg_inv (nd_state N)"
    and "\<forall>b h. try_get_height (nd_archive N) b = Some h \<longrightarrow> h < 2 ^ 31"
    and "\<forall>b. st_tip (nd_state N) = Some b \<or> w_tip W = Some b \<longrightarrow>
      b \<in> side_known (nd_archive N)
      \<and> (\<forall>a. is_ancestor (side_parent (nd_archive N)) a b \<longrightarrow> try_get_body (nd_archive N) a \<noteq> None)"
    and "follows_blocks E T X (nd_archive N) P" and "P W"
  shows "\<exists>W'. update_wallet E T X N W = Inr W' \<and> w_tip W' = st_tip (nd_state N)"
proof -
  let ?A = "nd_archive N" and ?tip = "st_tip (nd_state N)"
  have node: "b \<in> side_known ?A" "\<forall>a. is_ancestor (side_parent ?A) a b \<longrightarrow> try_get_body ?A a \<noteq> None" if "?tip = Some b" for b
    using assms(5) that by blast+
  have wallet: "b \<in> side_known ?A" "\<forall>a. is_ancestor (side_parent ?A) a b \<longrightarrow> try_get_body ?A a \<noteq> None" if "w_tip W = Some b" for b
    using assms(5) that by blast+
  obtain common where c: "common_ancestor_of ?A ?tip (w_tip W) = Inr common"
    and stop: "\<forall>b. ?tip = Some b \<or> w_tip W = Some b \<longrightarrow> stops_at ?A common b"
    and none: "?tip = None \<or> w_tip W = None \<longrightarrow> common = None"
  proof (cases "\<exists>t w. ?tip = Some t \<and> w_tip W = Some w")
    case True
    then obtain t w where tw: "?tip = Some t" "w_tip W = Some w" by blast
    from last_common_ancestor_found [OF assms(1) node(1) [OF tw(1)] wallet(1) [OF tw(2)] assms(4)] obtain r where
      "last_common_ancestor ?A t w = Inr r" "case r of Some c \<Rightarrow> last_common (side_parent ?A) t w c | None \<Rightarrow> True"
      by (auto split: option.splits)
    with tw that [of r] show ?thesis
      by (auto simp: common_ancestor_of_def stops_at_def last_common_def split: option.splits)
  next
    case False
    then have "common_ancestor_of ?A ?tip (w_tip W) = Inr None"
      by (auto simp: common_ancestor_of_def split: option.splits)
    with that [of None] show ?thesis by (simp add: stops_at_def)
  qed
  obtain f where fuel: "ancestor_fuel ?A = Suc f" by (simp add: ancestor_fuel_def)
  have "\<exists>W1. disconnect_wallet_to E T X ?A common (ancestor_fuel ?A) (w_tip W) W = Inr W1 \<and> P W1"
  proof (cases "w_tip W")
    case None
    with none assms(7) show ?thesis by (simp add: fuel)
  next
    case (Some b)
    obtain h where h: "try_get_height ?A b = Some h"
      using side_index_ok [OF assms(1)] wallet(1) [OF Some] by (meson side.height_known)
    have "Suc h < ancestor_fuel ?A" using height_bound [OF assms(1) wallet(1) [OF Some] h] by (simp add: ancestor_fuel_def)
    from disconnect_wallet_total [OF assms(1,2,6) wallet(1) [OF Some] h this _ wallet(2) [OF Some] assms(7) Some] stop Some
    show ?thesis by simp
  qed
  then obtain W1 where W1: "disconnect_wallet_to E T X ?A common (ancestor_fuel ?A) (w_tip W) W = Inr W1" "P W1" by blast
  with disconnect_wallet_to_frame [OF W1(1) refl] have tip1: "w_tip W1 = common" by simp
  have "\<exists>bs W2. ancestors_until (ancestor_fuel ?A) ?A common ?tip = Inr bs
      \<and> fold_res (connect_wallet_block E X ?A) W1 (rev bs) = Inr W2"
  proof (cases "?tip")
    case None
    then show ?thesis by (simp add: fuel)
  next
    case (Some b)
    obtain h where h: "try_get_height ?A b = Some h"
      using side_index_ok [OF assms(1)] node(1) [OF Some] by (meson side.height_known)
    have "Suc h < ancestor_fuel ?A" using height_bound [OF assms(1) node(1) [OF Some] h] by (simp add: ancestor_fuel_def)
    from connect_wallet_total [OF assms(1,2,6) node(1) [OF Some] h this _ node(2) [OF Some] W1(2) tip1] stop Some
    show ?thesis by auto
  qed
  then obtain bs W2 where
    W2: "ancestors_until (ancestor_fuel ?A) ?A common ?tip = Inr bs" "fold_res (connect_wallet_block E X ?A) W1 (rev bs) = Inr W2"
    by blast
  from update_wallet_coins_lookup [OF assms(3), of W2] obtain W' where
    W': "update_wallet_coins (nd_state N) W2 = Inr W'" "w_tip W' = w_tip W2" .
  have blocks: "update_wallet_blocks E T X N W = Inr W2"
    using c W1(1) W2 by (simp add: update_wallet_blocks_def Let_def)
  from update_wallet_blocks_frame [OF blocks assms(2)] W' blocks show ?thesis by (simp add: update_wallet_def)
qed

text \<open>
  C38. An update never fails half way: when both tips are stored blocks with all bodies behind them, and a
  class of wallets that contains the wallet is closed under connecting and disconnecting single stored blocks at
  the right tip, then the update succeeds and leaves the wallet at the tip of the node, wherever it was before: no
  assertion on the tip fails, no header or body is missing and the loops end.
\<close>

theorem update_wallet_succeeds:
  assumes "archive_inv (nd_archive N)" and "headers_keyed E (nd_archive N)" and "peg_inv (nd_state N)"
    and "\<forall>b h. try_get_height (nd_archive N) b = Some h \<longrightarrow> h < 2 ^ 31"
    and "\<forall>b. st_tip (nd_state N) = Some b \<or> w_tip W = Some b \<longrightarrow>
      b \<in> side_known (nd_archive N)
      \<and> (\<forall>a. is_ancestor (side_parent (nd_archive N)) a b \<longrightarrow> try_get_body (nd_archive N) a \<noteq> None)"
    and "follows_blocks E T X (nd_archive N) P" and "P W"
  shows "\<exists>W'. update_wallet E T X N W = Inr W' \<and> w_tip W' = st_tip (nd_state N)"
  using assms by (rule update_wallet_total)

section \<open>Examples\<close>

text \<open>A wallet without a tip follows a node that has connected one block.\<close>

definition follower :: wallet where
  "follower = example_wallet\<lparr>orchard_note_commitments := store_db new_store\<rparr>"

abbreviation follower_like :: "wallet \<Rightarrow> bool" where
  "follower_like W \<equiv> seed W = Some [7] \<and> orchard_note_commitments W = store_db new_store"

lemma follower_connect_tx:
  "\<exists>W'. connect_orchard_tx E example_wallet_ext key (W, Some ()) tx = Inr (W', Some ())
     \<and> seed W' = seed W \<and> orchard_note_commitments W' = orchard_note_commitments W"
proof (cases "orchard_bundle tx")
  case None
  then show ?thesis by (simp add: connect_orchard_tx_def)
next
  case (Some bu)
  have "\<exists>W'. fold_res (\<lambda>(W, tree) (idx, act). map_ok (\<lambda>tree. (spend_other_action True txid idx act W, tree))
      (append_action example_wallet_ext False act tree)) (W, Some ()) as = Inr (W', Some ())" for as txid
    by (induction as arbitrary: W) (auto simp: append_action_def example_wallet_ext_def)
  then obtain W' where "connect_orchard_bundle example_wallet_ext key (Some ()) (tx_txid E tx) bu W = Inr (W', Some ())"
    by (auto simp: connect_orchard_bundle_def Let_def next_leaf_position_def example_wallet_ext_def)
  with connect_bundle_transparent [OF this] Some show ?thesis by (auto simp: connect_orchard_tx_def)
qed

lemma follower_connect_txs:
  "\<exists>W'. fold_res (connect_orchard_tx E example_wallet_ext key) (W, Some ()) txs = Inr (W', Some ())
     \<and> seed W' = seed W \<and> orchard_note_commitments W' = orchard_note_commitments W"
proof (induction txs arbitrary: W)
  case Nil
  then show ?case by simp
next
  case (Cons tx txs)
  obtain V where "connect_orchard_tx E example_wallet_ext key (W, Some ()) tx = Inr (V, Some ())"
    "seed V = seed W" "orchard_note_commitments V = orchard_note_commitments W" using follower_connect_tx by blast
  with Cons.IH [of V] show ?case by simp
qed

lemma follower_disconnect_tx:
  "\<exists>W'. disconnect_orchard_tx E example_wallet_ext key W tx = Inr W'
     \<and> seed W' = seed W \<and> orchard_note_commitments W' = orchard_note_commitments W"
proof -
  let ?P = "\<lambda>V. seed V = seed W \<and> orchard_note_commitments V = orchard_note_commitments W"
  have "?P (fold (unspend_other_action txid) xs W)" for txid xs
    by (rule fold_invariant [where P = ?P]) (auto simp: unspend_other_action_def Let_def split: option.splits prod.splits)
  then show ?thesis
    by (cases "orchard_bundle tx") (simp_all add: disconnect_orchard_tx_def Let_def example_wallet_ext_def)
qed

lemma follower_disconnect_txs:
  "\<exists>W'. fold_res (disconnect_orchard_tx E example_wallet_ext key) W txs = Inr W'
     \<and> seed W' = seed W \<and> orchard_note_commitments W' = orchard_note_commitments W"
proof (induction txs arbitrary: W)
  case Nil
  then show ?case by simp
next
  case (Cons tx txs)
  obtain V where "disconnect_orchard_tx E example_wallet_ext key W tx = Inr V"
    "seed V = seed W" "orchard_note_commitments V = orchard_note_commitments W" using follower_disconnect_tx by blast
  with Cons.IH [of V] show ?case by simp
qed

lemma example_follows:
  assumes "headers A = fmupd ex_hash ex_header fmempty" and "try_get_body A ex_hash = Some example_body"
  shows "follows_blocks example_ext example_shardtree example_wallet_ext A follower_like"
proof -
  have hash: "header_hash example_ext ex_header = ex_hash" "prev_side_hash ex_header = None" by (rule ex_header_fields)+
  have root: "compute_merkle_root example_ext example_body = merkle_root ex_header" by (simp add: Block_Valid.example_header_def)
  have key: "get_orchard_spending_key example_wallet_ext W = Inr 0" if "seed W = Some [7]" for W
    using that by (simp add: get_orchard_spending_key_def get_master_seed_def example_wallet_ext_def)
  have cid: "\<exists>c. get_checkpoint_id example_shardtree (store_db new_store) None = Inr c"
    by (simp add: get_checkpoint_id_def new_store_def shard_tree_db_new_def no_shard_dbs_def)
  have "\<exists>W'. connect_orchard_block example_ext example_wallet_ext W ex_header example_body = Inr W' \<and> follower_like W'"
    if like: "follower_like W" and tip: "w_tip W = None" for W
  proof -
    from follower_connect_txs [of example_ext 0 W "body_transactions example_body"] obtain V where
      "fold_res (connect_orchard_tx example_ext example_wallet_ext 0) (W, Some ()) (body_transactions example_body) = Inr (V, Some ())"
      "follower_like V" using like by auto
    with like tip key [of W] show ?thesis
      by (simp add: connect_orchard_block_def root hash get_shard_tree_def put_shard_tree_def Let_def new_store_next)
        (simp add: example_wallet_ext_def)
  qed
  moreover have "\<exists>W'. disconnect_orchard_block example_ext example_shardtree example_wallet_ext W ex_header example_body = Inr W'
      \<and> follower_like W'" if like: "follower_like W" and tip: "w_tip W = Some ex_hash" for W
  proof -
    from follower_disconnect_txs [of example_ext 0 W "rev (body_transactions example_body)"] obtain V where
      "fold_res (disconnect_orchard_tx example_ext example_wallet_ext 0) W (rev (body_transactions example_body)) = Inr V"
      "follower_like V" using like by auto
    moreover obtain c where "get_checkpoint_id example_shardtree (store_db new_store) None = Inr c" using cid by blast
    moreover have "tree_load example_wallet_ext D = Inr ()" "tree_flush example_wallet_ext () D = Inr D"
      "tree_truncate_to_checkpoint example_wallet_ext () c = Some ((), True)" for D c
      by (simp_all add: example_wallet_ext_def)
    ultimately show ?thesis
      using like tip key [of W]
      by (simp add: disconnect_orchard_block_def root hash get_shard_tree_def put_shard_tree_def Let_def)
  qed
  ultimately show ?thesis using assms by (auto simp: follows_blocks_def hash split: if_splits)
qed

lemma example_synced_node:
  obtains N where "node_inv example_ext N" and "st_tip (nd_state N) = Some ex_hash"
    and "headers (nd_archive N) = fmupd ex_hash ex_header fmempty" and "try_get_body (nd_archive N) ex_hash = Some example_body"
proof -
  obtain N where N: "node_connect_tip example_ext (ex_node example_archive) ex_header example_body [] = Inr N"
    by (rule ex_connect_tip [of example_archive]) auto
  have "mempool_ok example_ext mempool_new"
    by (simp add: mempool_ok_def mempool_new_def pool_spends_def pool_uses_def)
  then have inv: "node_inv example_ext (ex_node example_archive)"
    using example_archive_inv example_state_peg by (simp add: node_inv_def ex_node_def)
  have empty: "headers example_archive = fmempty" by (simp add: example_archive_def empty_archive_def)
  note ok = node_connect_tip_ok [OF inv N]
  have facts: "node_inv example_ext N" "st_tip (nd_state N) = Some ex_hash"
    "header_and_body (nd_archive N) ex_hash = Inr (ex_header, example_body)"
    using ok example_new empty by (simp_all add: ex_node_def peg_events_def deposits_of_def ex_header_fields)
  from N have hdrs: "headers (nd_archive N) = fmupd ex_hash ex_header fmempty"
  proof (rule node_connect_tip_Inr)
    fix A1 A2 A3 acc
    assume A1: "A1 = nd_archive (ex_node example_archive)
        \<or> (\<exists>f. A1 = put_orchard_frontier (nd_archive (ex_node example_archive)) (header_hash example_ext ex_header) f)"
      and A2: "put_header example_ext A1 ex_header = Inr A2"
      and A3: "put_body example_ext A2 (header_hash example_ext ex_header) example_body = Inr A3"
      and N: "nd_archive N = put_accumulator A3 (header_hash example_ext ex_header) acc"
    have h: "headers A1 = fmempty" using A1 empty by (auto simp: put_orchard_frontier_def ex_node_def)
    have "archive_inv A1 \<longleftrightarrow> archive_inv example_archive"
      by (rule archive_frame) (use A1 in \<open>auto simp: put_orchard_frontier_def ex_node_def\<close>)
    with put_header_inv(4) [OF _ A2] h example_archive_inv have "headers A2 = fmupd ex_hash ex_header fmempty"
      by (simp add: ex_header_fields)
    moreover obtain t where "A3 = A2\<lparr>bodies := fmupd (header_hash example_ext ex_header) example_body (bodies A2),
        txid_to_inclusions := t\<rparr>" by (rule put_body_Inr [OF A3])
    ultimately show ?thesis by (simp add: N put_accumulator_def)
  qed
  from facts(3) have "try_get_body (nd_archive N) ex_hash = Some example_body"
    by (simp add: header_and_body_def get_body_def result_simps)
  with that [of N] facts hdrs show thesis by simp
qed

lemma example_sync_facts:
  assumes "node_inv example_ext N" and "st_tip (nd_state N) = Some ex_hash"
    and "headers (nd_archive N) = fmupd ex_hash ex_header fmempty" and "try_get_body (nd_archive N) ex_hash = Some example_body"
  shows "headers_keyed example_ext (nd_archive N)"
    and "\<forall>b h. try_get_height (nd_archive N) b = Some h \<longrightarrow> h < 2 ^ 31"
    and "\<forall>b. st_tip (nd_state N) = Some b \<or> w_tip follower = Some b \<longrightarrow> b \<in> side_known (nd_archive N)
      \<and> (\<forall>a. is_ancestor (side_parent (nd_archive N)) a b \<longrightarrow> try_get_body (nd_archive N) a \<noteq> None)"
proof -
  let ?A = "nd_archive N"
  have inv: "archive_inv ?A" using assms(1) by (simp add: node_inv_def)
  show "headers_keyed example_ext ?A" using assms(3) by (simp add: headers_keyed_def ex_header_fields)
  have known: "b \<in> side_known ?A \<longleftrightarrow> b = ex_hash" for b using assms(3) by (simp add: side_known_iff)
  have par: "side_parent ?A ex_hash = None" using assms(3) by (simp add: side_parent_def ex_header_fields)
  show "\<forall>b h. try_get_height ?A b = Some h \<longrightarrow> h < 2 ^ 31"
  proof (intro allI impI)
    fix b h
    assume h: "try_get_height ?A b = Some h"
    then have "b \<in> side_known ?A" using inv by (auto simp: archive_inv_def side_index_def try_get_height_def fmlookup_dom'_iff)
    from height_bound [OF inv this h] assms(3) have "h < 1" by (simp add: fcard.rep_eq)
    then show "h < 2 ^ 31" by simp
  qed
  show "\<forall>b. st_tip (nd_state N) = Some b \<or> w_tip follower = Some b \<longrightarrow> b \<in> side_known ?A
      \<and> (\<forall>a. is_ancestor (side_parent ?A) a b \<longrightarrow> try_get_body ?A a \<noteq> None)"
    using is_ancestor_step [of "side_parent ?A" _ ex_hash] assms(2,4) known par
    by (auto simp: follower_def example_wallet_def)
qed

theorem update_wallet_succeeds_witness:
  "\<exists>N W'. st_tip (nd_state N) = Some ex_hash \<and> w_tip follower = None
     \<and> update_wallet example_ext example_shardtree example_wallet_ext N follower = Inr W' \<and> w_tip W' = Some ex_hash"
proof -
  obtain N where N: "node_inv example_ext N" "st_tip (nd_state N) = Some ex_hash"
    "headers (nd_archive N) = fmupd ex_hash ex_header fmempty" "try_get_body (nd_archive N) ex_hash = Some example_body"
    by (rule example_synced_node)
  note facts = example_sync_facts [OF N]
  have "archive_inv (nd_archive N)" "peg_inv (nd_state N)" using N(1) by (simp_all add: node_inv_def)
  moreover have "follower_like follower" by (simp add: follower_def example_wallet_def)
  ultimately have "\<exists>W'. update_wallet example_ext example_shardtree example_wallet_ext N follower = Inr W' \<and> w_tip W' = st_tip (nd_state N)"
    using update_wallet_succeeds [OF _ facts(1) _ facts(2,3) example_follows [OF N(3,4)]] by blast
  moreover have "w_tip follower = None" by (simp add: follower_def example_wallet_def)
  ultimately show ?thesis using N(2) by (intro exI [of _ N]) simp
qed

text \<open>A node that knows no outputs: the coin of the follower stays.\<close>

definition bare_node :: "(hash list, cmx list, unit) node_dbs" where
  "bare_node = (ex_node example_archive)\<lparr>nd_state := example_state\<lparr>utxos := fmempty\<rparr>\<rparr>"

lemma bare_peg: "peg_inv (nd_state bare_node)"
  by (simp add: bare_node_def peg_inv_def disjoint_dbs_def utxo_keys_ok_def bundles_recorded_def bundles_spent_def
      pending_ok_def example_state_def)

theorem update_wallet_syncs_witness:
  "\<exists>W'. update_wallet example_ext example_shardtree example_wallet_ext bare_node follower = Inr W' \<and> w_tip W' = None
     \<and> fmlookup (utxos (nd_state bare_node)) (out_point_key (Deposit 1 0)) = None
     \<and> fmlookup (stxos (nd_state bare_node)) (out_point_key (Deposit 1 0)) = None
     \<and> fmlookup (w_utxos W') (Deposit 1 0) = Some (example_output 10)"
proof -
  have none: "headers (nd_archive bare_node) = fmempty" "st_tip (nd_state bare_node) = None" "w_tip follower = None"
    "fmlookup (w_utxos follower) (Deposit 1 0) = Some (example_output 10)" "utxos (nd_state bare_node) = fmempty"
    "stxos (nd_state bare_node) = fmempty"
    by (simp_all add: bare_node_def ex_node_def example_archive_def empty_archive_def example_state_def follower_def
        example_wallet_def)
  have keyed: "headers_keyed example_ext (nd_archive bare_node)" by (simp add: headers_keyed_def none)
  obtain W1 where "update_wallet_coins (nd_state bare_node) follower = Inr W1"
    by (rule update_wallet_coins_lookup [OF bare_peg, of follower])
  then have run: "update_wallet example_ext example_shardtree example_wallet_ext bare_node follower = Inr W1"
    by (simp add: update_wallet_def update_wallet_blocks_def none common_ancestor_of_def ancestor_fuel_def Let_def)
  with update_wallet_syncs [OF run keyed bare_peg] none show ?thesis by simp
qed

end
