(* ===== verification/Mining.thy ===== *)
theory Mining
  imports App
begin

text \<open>
  Mining: \<open>mine\<close> of \<open>app/app.rs\<close>, the miner of \<open>lib/miner.rs\<close>, and \<open>new\<close>, \<open>modify_memforest\<close>, \<open>get_inputs\<close>,
  \<open>get_outputs\<close> and \<open>get_coinbase_value\<close> of a body, \<open>lib/types/transaction.rs\<close>. What the remote mainchain node answers is an argument.
\<close>

section \<open>Bodies\<close>

definition body_new :: "'pf authorized_transaction list \<Rightarrow> tx_output list \<Rightarrow> 'pf body" where
  "body_new ats cb =
     \<lparr>coinbase = cb, body_transactions = map transaction ats, body_authorizations = concat (map authorizations ats)\<rparr>"

definition modify_memforest :: "('acc, 'fr, 'pf) ext \<Rightarrow> 'pf body \<Rightarrow> 'acc \<Rightarrow> 'acc option" where
  "modify_memforest E b acc =
     (let root = compute_merkle_root E b;
          coinbase_add = map (\<lambda>(vout, out). pointed_output_hash E (coinbase_outpoint root vout) out)
            (enumerate 0 (coinbase b));
          tx_add = concat (map (\<lambda>tx. map (\<lambda>(vout, out). pointed_output_hash E (regular_outpoint (tx_txid E tx) vout) out)
            (enumerate 0 (outputs tx))) (body_transactions b));
          accumulator_del = concat (map (\<lambda>tx. map snd (inputs tx)) (body_transactions b))
      in forest_modify E acc (coinbase_add @ tx_add) accumulator_del)"

definition get_inputs :: "'pf body \<Rightarrow> out_point list" where
  "get_inputs b = concat (map (\<lambda>tx. map fst (inputs tx)) (body_transactions b))"

definition get_outputs :: "('acc, 'fr, 'pf) ext \<Rightarrow> 'pf body \<Rightarrow> (out_point, tx_output) fmap" where
  "get_outputs E b =
     (let root = compute_merkle_root E b
      in puts (concat (map (\<lambda>tx. map (\<lambda>(vout, out). (regular_outpoint (tx_txid E tx) vout, out))
             (enumerate 0 (outputs tx))) (body_transactions b)))
           (puts (map (\<lambda>(vout, out). (coinbase_outpoint root vout, out)) (enumerate 0 (coinbase b))) fmempty))"

definition get_coinbase_value :: "'pf body \<Rightarrow> nat option" where
  "get_coinbase_value b = checked_sum (map get_value (coinbase b))"

section \<open>The miner\<close>

datatype mainchain_event = ConnectBlock block_header_info block_info | DisconnectBlock main_hash

record 'pf miner =
  miner_block :: "(header \<times> 'pf body) option"

definition miner_new :: "'pf miner" where
  "miner_new = \<lparr>miner_block = None\<rparr>"

text \<open>\<open>create_tx\<close> is the answer to the request for a transaction with the critical hash.\<close>

definition attempt_bmm ::
  "('acc, 'fr, 'pf) ext \<Rightarrow> (nat \<Rightarrow> nat \<Rightarrow> block_hash \<Rightarrow> main_hash \<Rightarrow> txid option) \<Rightarrow> 'pf miner \<Rightarrow> nat \<Rightarrow> nat \<Rightarrow> header \<Rightarrow> 'pf body
    \<Rightarrow> ('pf miner \<times> txid) app_result" where
  "attempt_bmm E create_tx M amount height h b =
     and_then (ok_or AppMiner (create_tx amount height (header_hash E h) (prev_main_hash h))) (\<lambda>txid.
     and_then (assert_that (merkle_root h = compute_merkle_root E b)) (\<lambda>_.
     Inr (M\<lparr>miner_block := Some (h, b)\<rparr>, txid)))"

text \<open>The argument is the next event, \<open>None\<close> at the end of the stream, or an error of the stream.\<close>

definition confirm_bmm ::
  "('acc, 'fr, 'pf) ext \<Rightarrow> mainchain_event option app_result \<Rightarrow> 'pf miner
    \<Rightarrow> 'pf miner \<times> (main_hash \<times> header \<times> 'pf body) option app_result" where
  "confirm_bmm E next_event M =
     (case miner_block M of
        None \<Rightarrow> (M, Inr None)
      | Some (h, b) \<Rightarrow>
          (case next_event of
             Inl e \<Rightarrow> (M, Inl e)
           | Inr ev \<Rightarrow>
               (M\<lparr>miner_block := None\<rparr>,
                Inr (case ev of
                       Some (ConnectBlock header_info block_info) \<Rightarrow>
                         if bmm_commitment block_info = Some (header_hash E h)
                         then Some (info_block_hash header_info, h, b) else None
                     | _ \<Rightarrow> None))))"

section \<open>The block to mine on\<close>

text \<open>A block of the side chain whose mainchain parent is a proper ancestor of the last common mainchain ancestor.\<close>

definition mining_candidate ::
  "('acc, 'fr, 'pf) archive \<Rightarrow> main_hash \<Rightarrow> block_hash \<Rightarrow> block_hash option archive_result" where
  "mining_candidate A common b =
     and_then (get_header A b) (\<lambda>h.
     if prev_main_hash h = common then Inr None
     else map_ok (\<lambda>d. if d then Some b else None) (is_main_descendant A (prev_main_hash h) common))"

definition choose_parent ::
  "('acc, 'fr, 'pf) archive \<Rightarrow> main_hash \<Rightarrow> block_hash \<Rightarrow> block_hash option archive_result" where
  "choose_parent A main_tip tip_hash =
     and_then (get_header A tip_hash) (\<lambda>tip_header.
     and_then (last_common_main_ancestor A main_tip (prev_main_hash tip_header)) (\<lambda>common.
     if common = prev_main_hash tip_header then Inr (Some tip_hash)
     else find_map_ancestors (ancestor_fuel A) A (mining_candidate A common) (Some tip_hash)))"

text \<open>
  \<open>request\<close> is the answer of the mainchain task, which stores mainchain headers. It is asked when the mainchain tip is not in the
  archive.
\<close>

definition mining_parent ::
  "(('acc, 'fr, 'pf) node_dbs \<Rightarrow> main_hash \<Rightarrow> ('acc, 'fr, 'pf) node_dbs \<times> bool option) \<Rightarrow> ('acc, 'fr, 'pf) node_dbs \<Rightarrow> main_hash
    \<Rightarrow> ('acc, 'fr, 'pf) node_dbs \<times> block_hash option app_result" where
  "mining_parent request N main_tip =
     (case st_tip (nd_state N) of
        None \<Rightarrow> (N, Inr None)
      | Some tip_hash \<Rightarrow>
          (case archive_res (get_header (nd_archive N) tip_hash) of
             Inl e \<Rightarrow> (N, Inl e)
           | Inr _ \<Rightarrow>
               if try_get_main_header_info (nd_archive N) main_tip \<noteq> None
               then (N, archive_res (choose_parent (nd_archive N) main_tip tip_hash))
               else (case request N main_tip of
                       (N, None) \<Rightarrow> (N, Inl (Err (AppNode NdMainchainAncestors)))
                     | (N, Some False) \<Rightarrow> (N, Inl (Err (AppRequestMainchainAncestorInfos main_tip)))
                     | (N, Some True) \<Rightarrow> (N, archive_res (choose_parent (nd_archive N) main_tip tip_hash)))))"

section \<open>The block template\<close>

definition NUM_TRANSACTIONS :: nat where
  "NUM_TRANSACTIONS = 1000"

definition EMPTY_BLOCK_BMM_BRIBE :: nat where
  "EMPTY_BLOCK_BMM_BRIBE = 1000"

text \<open>
  On the tip: transactions of the pool, with a coinbase output of their fees at a new address of the wallet.
  The pool without stale transactions and the new address are committed.
\<close>

definition fee_coinbase ::
  "('acc, 'fr, 'pf) ext \<Rightarrow> ('tree, 'path, 'b) wallet_ext \<Rightarrow> wallet \<Rightarrow> nat \<Rightarrow> (wallet \<times> tx_output list) wallet_result" where
  "fee_coinbase E X W fees =
     (if fees = 0 then Inr (W, [])
      else map_ok (\<lambda>(W, addr). (W, [\<lparr>address = addr, content = Value fees\<rparr>])) (get_new_transparent_address E X W))"

definition block_header ::
  "('acc, 'fr, 'pf) ext \<Rightarrow> 'acc \<Rightarrow> 'pf body \<Rightarrow> block_hash option \<Rightarrow> main_hash \<Rightarrow> header" where
  "block_header E acc b parent main_tip =
     \<lparr>merkle_root = compute_merkle_root E b, prev_side_hash = parent, prev_main_hash = main_tip, roots = forest_roots E acc\<rparr>"

definition template_on_tip ::
  "('acc, 'fr, 'pf) ext \<Rightarrow> ('tree, 'path, 'b) wallet_ext \<Rightarrow> ('acc, 'fr, 'pf) node_dbs \<Rightarrow> wallet \<Rightarrow> main_hash \<Rightarrow> nat option
    \<Rightarrow> ('acc, 'fr, 'pf) node_dbs \<times> wallet \<times> (nat \<times> header \<times> 'pf body) app_result" where
  "template_on_tip E X N W main_tip fee =
     (case map_err AppNode (get_transactions E N NUM_TRANSACTIONS) of
        Inl e \<Rightarrow> (N, W, Inl e)
      | Inr (N, txs, tx_fees) \<Rightarrow>
          (case map_err AppWallet (fee_coinbase E X W tx_fees) of
             Inl e \<Rightarrow> (N, W, Inl e)
           | Inr (W, cb) \<Rightarrow>
               let b = body_new txs cb; tip_hash = st_tip (nd_state N)
               in (N, W,
                   and_then (archive_res (get_accumulator (nd_archive N) tip_hash)) (\<lambda>acc.
                   and_then (ok_or AppUtreexo (modify_memforest E b acc)) (\<lambda>acc.
                   Inr (case fee of Some fee \<Rightarrow> fee
                          | None \<Rightarrow> if tx_fees > 0 then tx_fees else EMPTY_BLOCK_BMM_BRIBE,
                        block_header E acc b tip_hash main_tip, b))))))"

definition template_empty ::
  "('acc, 'fr, 'pf) ext \<Rightarrow> ('acc, 'fr, 'pf) node_dbs \<Rightarrow> block_hash option \<Rightarrow> main_hash
    \<Rightarrow> (nat \<times> header \<times> 'pf body) app_result" where
  "template_empty E N parent main_tip =
     (let b = body_new [] []
      in and_then (archive_res (get_accumulator (nd_archive N) parent)) (\<lambda>acc.
         Inr (EMPTY_BLOCK_BMM_BRIBE, block_header E acc b parent main_tip, b)))"

definition mining_template ::
  "('acc, 'fr, 'pf) ext \<Rightarrow> ('tree, 'path, 'b) wallet_ext \<Rightarrow> ('acc, 'fr, 'pf) node_dbs \<Rightarrow> wallet \<Rightarrow> block_hash option \<Rightarrow> main_hash
    \<Rightarrow> nat option \<Rightarrow> ('acc, 'fr, 'pf) node_dbs \<times> wallet \<times> (nat \<times> header \<times> 'pf body) app_result" where
  "mining_template E X N W parent main_tip fee =
     (if parent = st_tip (nd_state N) then template_on_tip E X N W main_tip fee
      else (N, W, template_empty E N parent main_tip))"

section \<open>Mining a block\<close>

text \<open>
  \<open>main_tip\<close> is the answer of the mainchain node to the request for its tip. After the template, the block is
  attempted, confirmed and submitted, and the wallet is updated whether or not it was accepted.
\<close>

definition submit_confirmed ::
  "('acc, 'fr, 'pf) ext \<Rightarrow> (('acc, 'fr, 'pf) node_dbs \<Rightarrow> main_hash \<Rightarrow> ('acc, 'fr, 'pf) node_dbs \<times> bool option)
    \<Rightarrow> ('acc, 'fr, 'pf) node_dbs \<Rightarrow> (main_hash \<times> header \<times> 'pf body) option
    \<Rightarrow> ('acc, 'fr, 'pf) node_dbs \<times> unit app_result" where
  "submit_confirmed E request N confirmed =
     (case confirmed of
        None \<Rightarrow> (N, Inr ())
      | Some (main_hash, h, b) \<Rightarrow>
          (case submit_block E request N main_hash h b of
             (N, r) \<Rightarrow> (N, map_ok (\<lambda>_. ()) (map_err AppNode r))))"

definition mine_template ::
  "('acc, 'fr, 'pf) ext \<Rightarrow> shardtree_ext \<Rightarrow> ('tree, 'path, 'b) wallet_ext
    \<Rightarrow> (('acc, 'fr, 'pf) node_dbs \<Rightarrow> main_hash \<Rightarrow> ('acc, 'fr, 'pf) node_dbs \<times> bool option)
    \<Rightarrow> (nat \<Rightarrow> nat \<Rightarrow> block_hash \<Rightarrow> main_hash \<Rightarrow> txid option) \<Rightarrow> mainchain_event option app_result
    \<Rightarrow> ('acc, 'fr, 'pf) node_dbs \<Rightarrow> wallet \<Rightarrow> 'pf miner \<Rightarrow> nat \<times> header \<times> 'pf body
    \<Rightarrow> ('acc, 'fr, 'pf) node_dbs \<times> wallet \<times> 'pf miner \<times> unit app_result" where
  "mine_template E T X request create_tx next_event N W M template =
     (case template of (bribe, h, b) \<Rightarrow>
        case attempt_bmm E create_tx M bribe 0 h b of
          Inl e \<Rightarrow> (N, W, M, Inl e)
        | Inr (M, _) \<Rightarrow>
            (case confirm_bmm E next_event M of
               (M, Inl e) \<Rightarrow> (N, W, M, Inl e)
             | (M, Inr confirmed) \<Rightarrow>
                 (case submit_confirmed E request N confirmed of
                    (N, Inl e) \<Rightarrow> (N, W, M, Inl e)
                  | (N, Inr _) \<Rightarrow>
                      (case update_wallet E T X N W of
                         Inl e \<Rightarrow> (N, W, M, Inl e)
                       | Inr W \<Rightarrow> (N, W, M, Inr ())))))"

definition mine ::
  "('acc, 'fr, 'pf) ext \<Rightarrow> shardtree_ext \<Rightarrow> ('tree, 'path, 'b) wallet_ext
    \<Rightarrow> (('acc, 'fr, 'pf) node_dbs \<Rightarrow> main_hash \<Rightarrow> ('acc, 'fr, 'pf) node_dbs \<times> bool option)
    \<Rightarrow> (nat \<Rightarrow> nat \<Rightarrow> block_hash \<Rightarrow> main_hash \<Rightarrow> txid option) \<Rightarrow> mainchain_event option app_result
    \<Rightarrow> main_hash app_result \<Rightarrow> ('acc, 'fr, 'pf) node_dbs \<Rightarrow> wallet \<Rightarrow> 'pf miner option \<Rightarrow> nat option
    \<Rightarrow> ('acc, 'fr, 'pf) node_dbs \<times> wallet \<times> 'pf miner option \<times> unit app_result" where
  "mine E T X request create_tx next_event main_tip N W mnr fee =
     (case mnr of
        None \<Rightarrow> (N, W, None, Inl (Err AppNoCusfMainchainWalletClient))
      | Some M \<Rightarrow>
          (case main_tip of
             Inl e \<Rightarrow> (N, W, Some M, Inl e)
           | Inr main_tip \<Rightarrow>
               (case mining_parent request N main_tip of
                  (N, Inl e) \<Rightarrow> (N, W, Some M, Inl e)
                | (N, Inr parent) \<Rightarrow>
                    (case mining_template E X N W parent main_tip fee of
                       (N, W, Inl e) \<Rightarrow> (N, W, Some M, Inl e)
                     | (N, W, Inr template) \<Rightarrow>
                         (case mine_template E T X request create_tx next_event N W M template of
                            (N, W, M, r) \<Rightarrow> (N, W, Some M, r))))))"

end
