(* ===== verification/Mining_Valid.thy ===== *)
theory Mining_Valid
  imports Mining Wallet_Coins
begin

text \<open>
  A block that the application assembles on the tip is valid for the node: the roots it computes from the forest are
  those that the validation computes from the diff of the block, its transactions and authorizations fit
  together, and its coinbase pays out exactly the fees. The parent it chooses is on the mainchain of the new block.
\<close>

section \<open>The forest and the diff\<close>

text \<open>The leaves that a body adds and removes, in the order of the code.\<close>

definition tx_ops :: "('acc, 'fr, 'pf) ext \<Rightarrow> 'pf transaction \<Rightarrow> (hash \<times> bool) list" where
  "tx_ops E tx = map (\<lambda>(_, h). (h, False)) (inputs tx)
     @ map (\<lambda>(vout, out). (pointed_output_hash E (regular_outpoint (tx_txid E tx) vout) out, True)) (enumerate 0 (outputs tx))"

definition coinbase_ops :: "('acc, 'fr, 'pf) ext \<Rightarrow> 'pf body \<Rightarrow> (hash \<times> bool) list" where
  "coinbase_ops E b = map (\<lambda>(vout, out). (pointed_output_hash E (coinbase_outpoint (compute_merkle_root E b) vout) out, True))
     (enumerate 0 (coinbase b))"

definition body_ops :: "('acc, 'fr, 'pf) ext \<Rightarrow> 'pf body \<Rightarrow> (hash \<times> bool) list" where
  "body_ops E b = coinbase_ops E b @ concat (map (tx_ops E) (body_transactions b))"

definition diff_ops :: "(hash \<times> bool) list \<Rightarrow> accumulator_diff \<Rightarrow> accumulator_diff" where
  "diff_ops ops = fold (\<lambda>(h, add). if add then diff_insert h else diff_remove h) ops"

lemma diff_ops_append [simp]: "diff_ops (xs @ ys) d = diff_ops ys (diff_ops xs d)"
  by (simp add: diff_ops_def)

lemma diff_ops_distinct:
  "distinct (map fst (diff d @ ops)) \<Longrightarrow> diff (diff_ops ops d) = diff d @ ops"
proof (induction ops arbitrary: d)
  case Nil
  then show ?case by (simp add: diff_ops_def)
next
  case (Cons x ops)
  obtain h add where x: "x = (h, add)" by (cases x)
  let ?d = "if add then diff_insert h d else diff_remove h d"
  have none: "map_of (diff d) h = None" using Cons.prems by (auto simp: x map_of_eq_None_iff)
  then have d: "diff ?d = diff d @ [x]" by (simp add: x diff_insert_def diff_remove_def)
  have "diff_ops (x # ops) d = diff_ops ops ?d" by (simp add: diff_ops_def x)
  moreover have "distinct (map fst (diff ?d @ ops))" using Cons.prems by (simp add: d)
  ultimately show ?case using Cons.IH d by simp
qed

lemma tx_diff_ops: "tx_diff E tx d = diff_ops (tx_ops E tx) d"
  by (simp add: tx_diff_def tx_ops_def diff_ops_def fold_map comp_def case_prod_unfold)

lemma txs_diff_ops:
  "fold (\<lambda>tx. tx_diff E tx) txs d = diff_ops (concat (map (tx_ops E) txs)) d"
  by (induction txs arbitrary: d) (simp_all add: tx_diff_ops diff_ops_def)

lemma modify_memforest_ops:
  "modify_memforest E b acc =
     forest_modify E acc [h. (h, add) \<leftarrow> body_ops E b, add] [h. (h, add) \<leftarrow> body_ops E b, \<not> add]"
proof -
  have tx: "[h. (h, add) \<leftarrow> concat (map (tx_ops E) txs), add] = concat (map (\<lambda>tx. map (\<lambda>(vout, out).
        pointed_output_hash E (regular_outpoint (tx_txid E tx) vout) out) (enumerate 0 (outputs tx))) txs)"
    "[h. (h, add) \<leftarrow> concat (map (tx_ops E) txs), \<not> add] = concat (map (\<lambda>tx. map snd (inputs tx)) txs)" for txs
    by (induction txs) (auto simp: tx_ops_def map_concat comp_def case_prod_unfold)
  have cb: "[h. (h, add) \<leftarrow> coinbase_ops E b, add] = map (\<lambda>(vout, out).
        pointed_output_hash E (coinbase_outpoint (compute_merkle_root E b) vout) out) (enumerate 0 (coinbase b))"
    "[h. (h, add) \<leftarrow> coinbase_ops E b, \<not> add] = []"
    by (auto simp: coinbase_ops_def comp_def case_prod_unfold)
  show ?thesis unfolding modify_memforest_def Let_def body_ops_def by (simp add: tx cb)
qed

section \<open>Transactions and authorizations\<close>

lemma check_addresses_append:
  assumes "length auths = length outs"
  shows "check_addresses E (auths @ auths') (outs @ outs') = Inr ()
    \<longleftrightarrow> check_addresses E auths outs = Inr () \<and> check_addresses E auths' outs' = Inr ()"
  using assms by (simp add: check_addresses_def fold_res_unit ball_Un)

lemma validate_transaction_parts:
  assumes "validate_transaction E S at = Inr fee"
  obtains ft where "fill_transaction S (transaction at) = Inr ft" "ft_transaction ft = transaction at"
    "check_addresses E (authorizations at) (spent_utxos ft) = Inr ()" "validate_anchor_of E S (transaction at) = Inr ()"
    "verify_authorized_transaction E at = Inr ()" "validate_filled_transaction E ft = Inr fee"
    "length (authorizations at) = length (spent_utxos ft)"
proof -
  from assms obtain ft where ft: "fill_transaction S (transaction at) = Inr ft"
      "check_addresses E (authorizations at) (spent_utxos ft) = Inr ()" "validate_anchor_of E S (transaction at) = Inr ()"
      "verify_authorized_transaction E at = Inr ()" "validate_filled_transaction E ft = Inr fee"
    by (auto simp: validate_transaction_def result_simps split: sum.splits fail.splits)
  moreover from ft(4) have "length (authorizations at) = length (inputs (transaction at))"
    by (simp add: verify_authorized_transaction_def result_simps)
  ultimately show thesis using fill_transaction_Inr [OF ft(1)] by (intro that) auto
qed

lemma validate_block_txs:
  assumes "map (validate_transaction E S) ats = map Inr fees" and "v + sum_list fees < 2 ^ 64"
    and "\<forall>tx\<in>set (map transaction ats). forest_verify E acc (utreexo_proof tx) (map snd (inputs tx)) = Some True"
  shows "\<exists>fts. map_res (fill_transaction S) (map transaction ats) = Inr fts
    \<and> fold_res (validate_tx_step E S acc) (v, d) fts
        = Inr (v + sum_list fees, diff_ops (concat (map (tx_ops E) (map transaction ats))) d)
    \<and> check_addresses E (concat (map authorizations ats)) (concat (map spent_utxos fts)) = Inr ()
    \<and> (\<forall>at\<in>set ats. verify_authorized_transaction E at = Inr ())"
  using assms
proof (induction ats arbitrary: v d fees)
  case Nil
  then show ?case by (simp add: diff_ops_def check_addresses_def)
next
  case (Cons at ats)
  then obtain fee fees' where fees: "fees = fee # fees'" "validate_transaction E S at = Inr fee"
      "map (validate_transaction E S) ats = map Inr fees'" by (cases fees) auto
  from validate_transaction_parts [OF fees(2)] obtain ft where
    ft: "fill_transaction S (transaction at) = Inr ft" "ft_transaction ft = transaction at"
      "check_addresses E (authorizations at) (spent_utxos ft) = Inr ()" "validate_anchor_of E S (transaction at) = Inr ()"
      "verify_authorized_transaction E at = Inr ()" "validate_filled_transaction E ft = Inr fee"
      "length (authorizations at) = length (spent_utxos ft)" .
  have step: "validate_tx_step E S acc (v, d) ft = Inr (v + fee, diff_ops (tx_ops E (transaction at)) d)"
    using Cons.prems(2,3) by (simp add: validate_tx_step_def Let_def ft fees(1) add_amount_def checked_add_def tx_diff_ops)
  from Cons.IH [OF fees(3), of "v + fee" "diff_ops (tx_ops E (transaction at)) d"] Cons.prems(2,3) fees(1) obtain fts where
    "map_res (fill_transaction S) (map transaction ats) = Inr fts"
    "fold_res (validate_tx_step E S acc) (v + fee, diff_ops (tx_ops E (transaction at)) d) fts
      = Inr (v + sum_list fees, diff_ops (concat (map (tx_ops E) (map transaction (at # ats)))) d)"
    "check_addresses E (concat (map authorizations ats)) (concat (map spent_utxos fts)) = Inr ()"
    "\<forall>at\<in>set ats. verify_authorized_transaction E at = Inr ()"
    by (auto simp: add.assoc)
  then show ?case using ft step
    by (intro exI [of _ "ft # fts"]) (simp add: check_addresses_append result_simps)
qed

text \<open>One batch per transaction or batches over the whole body: given that a batch is accepted exactly if its signatures are valid.\<close>

lemma zip_body_messages:
  assumes "\<forall>at\<in>set ats. length (authorizations at) = length (inputs (transaction at))"
  shows "zip (concat (map authorizations ats)) (body_messages E (map transaction ats))
    = concat (map (\<lambda>at. map (\<lambda>a. (a, ser_transaction E (transaction at))) (authorizations at)) ats)"
  using assms
proof (induction ats)
  case Nil
  then show ?case by simp
next
  case (Cons at ats)
  have "zip (authorizations at) (replicate (length (inputs (transaction at))) m) = map (\<lambda>a. (a, m)) (authorizations at)" for m
    using Cons.prems by (simp add: zip_replicate2)
  with Cons show ?case by (simp add: body_messages_def)
qed

lemma verify_body_authorizations:
  assumes "\<forall>at\<in>set ats. verify_authorized_transaction E at = Inr ()"
    and batch: "\<forall>ms. verify_batch E ms \<longleftrightarrow> (\<forall>(m, s, k)\<in>set ms. valid m s k)"
  shows "verify_authorizations E (body_new ats cb) = Inr ()"
proof -
  let ?pairs = "zip (concat (map authorizations ats)) (body_messages E (map transaction ats))"
  have at: "length (authorizations at) = length (inputs (transaction at))" "verify_orchard E (transaction at) = Inr ()"
    "\<forall>a\<in>set (authorizations at). valid (ser_transaction E (transaction at)) (signature a) (verifying_key a)"
    if "at \<in> set ats" for at
    using assms(1) that batch by (auto simp: verify_authorized_transaction_def result_simps Let_def split: if_splits)
  have len: "length (concat (map authorizations ats)) = sum_list (map (\<lambda>tx. length (inputs tx)) (map transaction ats))"
    using at(1) by (simp add: length_concat comp_def cong: map_cong)
  have valid: "valid m (signature a) (verifying_key a)" if "(a, m) \<in> set ?pairs" for a m
    using that at by (auto simp: zip_body_messages)
  have "verify_batch E (map (\<lambda>(a, m). (m, signature a, verifying_key a)) c)" if "c \<in> set (chunks CHUNK_SIZE ?pairs)" for c
  proof -
    from that have "set c \<subseteq> set (concat (chunks CHUNK_SIZE ?pairs))" by auto
    then have "set c \<subseteq> set ?pairs" by (simp add: concat_chunks CHUNK_SIZE_def)
    with valid batch show ?thesis by auto
  qed
  with len at(2) show ?thesis
    by (simp add: verify_authorizations_def body_new_def result_simps Let_def fold_res_unit length_body_messages)
qed

section \<open>The mined block\<close>

lemma fee_coinbase_value:
  assumes "fee_coinbase E X W fees = Inr (W', cb)" and "fees < 2 ^ 64" and "b = body_new ats cb"
  shows "coinbase_loop E (compute_merkle_root E b) (coinbase b) = Inr (fees, diff_ops (coinbase_ops E b) diff_default)"
proof (cases "fees = 0")
  case True
  with assms show ?thesis
    by (simp add: fee_coinbase_def coinbase_loop_def body_new_def coinbase_ops_def diff_ops_def)
next
  case False
  with assms(1) obtain addr where "cb = [\<lparr>address = addr, content = Value fees\<rparr>]"
    by (auto simp: fee_coinbase_def result_simps)
  with assms(2,3) show ?thesis
    by (simp add: coinbase_loop_def body_new_def coinbase_ops_def diff_ops_def get_value_def add_amount_def checked_add_def)
qed

lemma body_roots:
  assumes "modify_memforest E b acc = Some acc'" and "distinct (map fst (body_ops E b))"
    and "roots h = forest_roots E acc'"
  shows "check_roots E acc (diff_ops (body_ops E b) diff_default) h = Inr ()"
proof -
  have "diff (diff_ops (body_ops E b) diff_default) = body_ops E b"
    using diff_ops_distinct [of diff_default] assms(2) by (simp add: diff_default_def)
  then have "apply_diff E acc (diff_ops (body_ops E b) diff_default) = Some acc'"
    using assms(1) by (simp add: apply_diff_def modify_memforest_ops)
  with assms(3) show ?thesis by (simp add: check_roots_def)
qed

lemma body_new_simps [simp]:
  "coinbase (body_new ats cb) = cb" "body_transactions (body_new ats cb) = map transaction ats"
  "body_authorizations (body_new ats cb) = concat (map authorizations ats)"
  by (simp_all add: body_new_def)

lemma assembled_block_valid:
  assumes txs: "map (validate_transaction E S) ats = map Inr fees" "sum_list fees < 2 ^ 64"
      "distinct (spent_outpoints (map transaction ats))"
    and cb: "fee_coinbase E X W (sum_list fees) = Inr (W', cb)"
    and b: "b = body_new ats cb" and h: "h = block_header E acc' b (st_tip S) main_tip"
    and acc: "utreexo_accumulator S = Some acc" "modify_memforest E b acc = Some acc'"
    and limits: "next_height_of S = Inr height" "check_limits E height b = Inr ()"
    and leaves: "distinct (map fst (body_ops E b))"
    and proofs: "\<forall>tx\<in>set (body_transactions b). forest_verify E acc (utreexo_proof tx) (map snd (inputs tx)) = Some True"
    and batch: "\<forall>ms. verify_batch E ms \<longleftrightarrow> (\<forall>(m, s, k)\<in>set ms. valid m s k)"
  shows "\<exists>pv. prevalidate_block E S h b = Inr pv \<and> total_fees pv = sum_list fees \<and> coinbase_value pv = sum_list fees"
proof -
  let ?d = "diff_ops (coinbase_ops E b) diff_default"
  have v: "forest_verify E acc (utreexo_proof tx) (map snd (inputs tx)) = Some True" if "tx \<in> set (map transaction ats)" for tx
    using proofs that b by auto
  from validate_block_txs [OF txs(1), of 0 acc ?d] txs(2) v obtain fts where
    fts: "map_res (fill_transaction S) (map transaction ats) = Inr fts"
      "fold_res (validate_tx_step E S acc) (0, ?d) fts = Inr (sum_list fees, diff_ops (body_ops E b) diff_default)"
      "check_addresses E (concat (map authorizations ats)) (concat (map spent_utxos fts)) = Inr ()"
      "\<forall>at\<in>set ats. verify_authorized_transaction E at = Inr ()"
    by (auto simp: body_ops_def b)
  have "check_double_spend fts = Inr ()"
    using txs(3) map_res_fill(1) [OF fts(1)] by (simp add: double_spend_cases)
  moreover have "check_authorizations E fts b = Inr ()"
    using fts(3) verify_body_authorizations [OF fts(4) batch] by (simp add: check_authorizations_def b)
  moreover have "check_roots E acc (diff_ops (body_ops E b) diff_default) h = Inr ()"
    using body_roots [OF acc(2) leaves] h by (simp add: block_header_def)
  ultimately show ?thesis
    using fts(1,2) fee_coinbase_value [OF cb txs(2) b] limits acc(1) h
    by (simp add: prevalidate_block_def check_header_def check_merkle_root_def block_header_def b Let_def)
qed

text \<open>
  C7. A block that the application assembles on its tip is accepted: if no two leaves of the block collide, its body is
  within the limits, the proofs of its transactions fit the accumulator of the tip, and a batch of signatures is accepted
  exactly if all its signatures are valid, then the node validates it, the coinbase pays out exactly the fees, and the block
  is built on the tip and on the given mainchain block.
\<close>

theorem mined_block_valid:
  assumes pool: "mempool_ok E (nd_mempool N)"
    and template: "mining_template E X N W (st_tip (nd_state N)) main_tip fee = (N', W', Inr (bribe, h, b))"
    and acc: "utreexo_accumulator (nd_state N) = Some acc"
      "get_accumulator (nd_archive N) (st_tip (nd_state N)) = Inr acc"
    and limits: "next_height_of (nd_state N) = Inr height" "check_limits E height b = Inr ()"
    and leaves: "distinct (map fst (body_ops E b))"
    and proofs: "\<forall>tx\<in>set (body_transactions b). forest_verify E acc (utreexo_proof tx) (map snd (inputs tx)) = Some True"
    and batch: "\<forall>ms. verify_batch E ms \<longleftrightarrow> (\<forall>(m, s, k)\<in>set ms. valid m s k)"
  shows "nd_state N' = nd_state N \<and> (\<exists>pv. prevalidate_block E (nd_state N') h b = Inr pv \<and> coinbase_value pv = total_fees pv)
    \<and> prev_side_hash h = st_tip (nd_state N') \<and> prev_main_hash h = main_tip"
proof -
  from template obtain ats fees_total W1 cb acc0 acc' where
    run: "get_transactions E N NUM_TRANSACTIONS = Inr (N', ats, fees_total)"
    and cb: "fee_coinbase E X W fees_total = Inr (W1, cb)" and b: "b = body_new ats cb"
    and acc0: "get_accumulator (nd_archive N') (st_tip (nd_state N')) = Inr acc0"
    and h: "modify_memforest E b acc0 = Some acc'" "h = block_header E acc' b (st_tip (nd_state N')) main_tip"
    by (auto simp: mining_template_def template_on_tip_def Let_def result_simps map_err_def
        split: sum.splits fail.splits prod.splits)
  note ok = get_transactions_ok [OF pool run]
  have "acc0 = acc" using acc0 acc(2) ok(7,8) by simp
  from ok(1) obtain fees where fees: "map (validate_transaction E (nd_state N)) ats = map Inr fees" "fees_total = sum_list fees"
    by blast
  from assembled_block_valid [OF fees(1) _ ok(2) _ b, of X W W1 h acc' main_tip acc height valid] \<open>acc0 = acc\<close>
  show ?thesis using ok(6,7) fees(2) cb h acc(1) limits leaves proofs batch by (auto simp: block_header_def)
qed

text \<open>A pool with one transaction that spends a deposit of 10 and pays 7. A hash is the first byte, the kind of an out point.\<close>

definition mine_ext :: "(hash list, cmx list, unit) ext" where
  "mine_ext = example_ext\<lparr>blake3 := (\<lambda>bs. word_of_nat (unat (hd bs)))\<rparr>"

definition mine_tx :: "unit authorized_transaction" where
  "mine_tx = \<lparr>transaction = \<lparr>inputs = [(Deposit 1 0, 2)], utreexo_proof = (), outputs = [example_output 7], orchard_bundle = None\<rparr>,
     authorizations = [\<lparr>verifying_key = 3, signature = 4\<rparr>]\<rparr>"

definition mine_node :: "(hash list, cmx list, unit) node_dbs" where
  "mine_node = \<lparr>nd_archive = ex_archive\<lparr>accumulators := fmupd None [2] fmempty\<rparr>,
     nd_mempool = with_entry mempool_new (tx_txid mine_ext (transaction mine_tx)) mine_tx,
     nd_state = example_state\<lparr>utreexo_accumulator := Some [2]\<rparr>\<rparr>"

lemma mine_hash [simp]:
  "pointed_output_hash mine_ext (Regular t v) out = 0" "pointed_output_hash mine_ext (Coinbase r v) out = 1"
  "pointed_output_hash mine_ext (Deposit h v) out = 2"
  by (cases t, simp add: pointed_output_hash_def mine_ext_def)
    (cases r, simp_all add: pointed_output_hash_def mine_ext_def)

lemma mine_tx_valid:
  "fill_transaction (nd_state mine_node) (transaction mine_tx)
    = Inr \<lparr>ft_transaction = transaction mine_tx, spent_utxos = [example_output 10]\<rparr>"
  "validate_filled_transaction mine_ext \<lparr>ft_transaction = transaction mine_tx, spent_utxos = [example_output 10]\<rparr> = Inr 3"
  "validate_transaction mine_ext (nd_state mine_node) mine_tx = Inr 3"
proof -
  show fill: "fill_transaction (nd_state mine_node) (transaction mine_tx)
    = Inr \<lparr>ft_transaction = transaction mine_tx, spent_utxos = [example_output 10]\<rparr>"
    by (simp add: fill_transaction_def mine_node_def mine_tx_def example_state_def)
  show filled: "validate_filled_transaction mine_ext
      \<lparr>ft_transaction = transaction mine_tx, spent_utxos = [example_output 10]\<rparr> = Inr 3"
    unfolding validate_filled_cases by (simp add: filled_inputs_def mine_tx_def get_value_def) (simp add: example_output_def)
  have "check_addresses mine_ext (authorizations mine_tx) [example_output 10] = Inr ()"
    by (simp add: check_addresses_def mine_tx_def auth_address_def key_address_def example_output_def mine_ext_def example_ext_def)
  moreover have "validate_anchor_of mine_ext (nd_state mine_node) (transaction mine_tx) = Inr ()"
    by (simp add: validate_anchor_of_def mine_tx_def)
  moreover have "verify_authorized_transaction mine_ext mine_tx = Inr ()"
    by (simp add: verify_authorized_transaction_def check_count_def verify_orchard_def mine_tx_def mine_ext_def example_ext_def)
  ultimately show "validate_transaction mine_ext (nd_state mine_node) mine_tx = Inr 3"
    by (simp add: validate_transaction_def fill filled)
qed

lemma mine_pool: "mempool_ok mine_ext (nd_mempool mine_node)"
proof -
  have "mempool_ok mine_ext mempool_new"
    by (simp add: mempool_ok_def mempool_new_def pool_spends_def pool_uses_def)
  then show ?thesis
    by (simp add: mine_node_def, intro with_entry_ok) (simp_all add: mempool_new_def conflict_free_def mine_tx_def tx_nullifiers_def)
qed

lemma mine_transactions:
  "get_transactions mine_ext mine_node NUM_TRANSACTIONS = Inr (mine_node, [mine_tx], 3)"
proof -
  have take: "mempool_take (nd_mempool mine_node) NUM_TRANSACTIONS = [mine_tx]"
    by (simp add: mempool_take_def mine_node_def with_entry_def mempool_new_def sorted_list_of_fmap_def
        sorted_list_of_fset.rep_eq NUM_TRANSACTIONS_def)
  show ?thesis
    by (simp add: get_transactions_def take template_step_def Let_def mine_tx_valid filled_fee_valid [OF mine_tx_valid(2)]
        checked_add_def)
qed

definition mine_coinbase :: tx_output where
  "mine_coinbase = \<lparr>address = TransparentAddress 32, content = Value 3\<rparr>"

lemma mine_fee_coinbase:
  "\<exists>W. fee_coinbase mine_ext example_wallet_ext example_wallet 3 = Inr (W, [mine_coinbase])"
  by (simp add: fee_coinbase_def get_new_transparent_address_def next_index_def example_wallet_def last_entry_def
      get_tx_signing_key_def get_master_seed_def example_wallet_ext_def Let_def key_address_def mine_ext_def example_ext_def
      mine_coinbase_def sorted_list_of_fmap_def sorted_list_of_fset.rep_eq add_u32_def checked_add_def)

theorem mined_block_valid_witness:
  "\<exists>W h pv. mining_template mine_ext example_wallet_ext mine_node example_wallet None (MainHash 1) None
      = (mine_node, W, Inr (3, h, body_new [mine_tx] [mine_coinbase]))
    \<and> prevalidate_block mine_ext (nd_state mine_node) h (body_new [mine_tx] [mine_coinbase]) = Inr pv
    \<and> coinbase_value pv = total_fees pv"
proof -
  let ?b = "body_new [mine_tx] [mine_coinbase]"
  have ops: "body_ops mine_ext ?b = [(1, True), (2, False), (0, True)]"
    by (simp add: body_ops_def coinbase_ops_def tx_ops_def mine_tx_def regular_outpoint_def coinbase_outpoint_def)
  have tip: "st_tip (nd_state mine_node) = None"
    "get_accumulator (nd_archive mine_node) None = Inr [2]" "utreexo_accumulator (nd_state mine_node) = Some [2]"
    "next_height_of (nd_state mine_node) = Inr 0"
    by (simp_all add: mine_node_def example_state_def get_accumulator_def next_height_of_def)
  have forest: "modify_memforest mine_ext ?b [2] = Some [1, 0]"
    unfolding modify_memforest_ops ops by (simp add: mine_ext_def example_ext_def)
  from mine_fee_coinbase obtain W where cb: "fee_coinbase mine_ext example_wallet_ext example_wallet 3 = Inr (W, [mine_coinbase])" ..
  let ?h = "block_header mine_ext [1, 0] ?b None (MainHash 1)"
  have template: "mining_template mine_ext example_wallet_ext mine_node example_wallet None (MainHash 1) None = (mine_node, W, Inr (3, ?h, ?b))"
    by (simp add: mining_template_def template_on_tip_def tip mine_transactions cb Let_def forest)
  have limits: "check_limits mine_ext 0 ?b = Inr ()"
    by (simp add: check_limits_def body_sigops_limit_def body_size_limit_def ser_body_def mine_coinbase_def
      ser_vec_def ser_authorization_def mine_ext_def example_ext_def ser_output_def example_output_def address_bytes_def
      ser_transaction_def mine_tx_def ser_input_def ser_option_def)
  have proofs: "\<forall>tx\<in>set (body_transactions ?b). forest_verify mine_ext [2] (utreexo_proof tx) (map snd (inputs tx)) = Some True"
    by (simp add: mine_tx_def mine_ext_def example_ext_def)
  have batch: "\<forall>ms. verify_batch mine_ext ms \<longleftrightarrow> (\<forall>(m, s, k)\<in>set ms. True)"
    by (auto simp: mine_ext_def example_ext_def)
  have leaves: "distinct (map fst (body_ops mine_ext ?b))" by (simp add: ops)
  from mined_block_valid [OF mine_pool template [folded tip(1)] tip(3) _ tip(4) limits leaves proofs batch] tip template
  show ?thesis by auto
qed

end
