(* ===== verification/Peer.thy ===== *)
theory Peer
  imports Node Archive_Iter
begin

text \<open>
  The connection to a peer: messages and their encoding (\<open>lib/net/peer/message.rs\<close>, \<open>lib/net/peer/mod.rs\<close>), the request
  queue (\<open>lib/net/peer/request_queue.rs\<close>) and the connection task (\<open>lib/net/peer/task.rs\<close>).

  The channels of a connection are lists of the messages sent on them, oldest first, each with a flag that tells whether its
  receiver is still there. An operation returns the connection with its result, since messages sent before a failure
  stay sent. The rate limiter and the streams only delay messages. The archive and the state are read
  from the database at the time of the operation.
\<close>

section \<open>Messages\<close>

record tip_info =
  block_height :: nat
  ti_tip :: tip
  ti_total_work :: nat

record peer_state =
  ps_tip_info :: "tip_info option"
  ps_version :: version

datatype peer_state_id = PeerStateId hash

definition block_hash_bytes :: "block_hash \<Rightarrow> u8 list" where
  "block_hash_bytes b = (case b of BlockHash h \<Rightarrow> hash_bytes h)"

definition ser_tip :: "tip \<Rightarrow> u8 list" where
  "ser_tip t = block_hash_bytes (tip_block_hash t) @ (case tip_main_block_hash t of MainHash h \<Rightarrow> hash_bytes h)"

definition ser_tip_info :: "tip_info \<Rightarrow> u8 list" where
  "ser_tip_info i = le_bytes 4 (block_height i) @ ser_tip (ti_tip i) @ le_bytes 32 (ti_total_work i)"

definition ser_version :: "version \<Rightarrow> u8 list" where
  "ser_version v = le_bytes 8 (major v) @ le_bytes 8 (minor v) @ le_bytes 8 (patch v)"

definition ser_peer_state :: "peer_state \<Rightarrow> u8 list" where
  "ser_peer_state ps = ser_option ser_tip_info (ps_tip_info ps) @ ser_version (ps_version ps)"

definition peer_state_id_of :: "('acc, 'fr, 'pf) ext \<Rightarrow> peer_state \<Rightarrow> peer_state_id" where
  "peer_state_id_of E ps = PeerStateId (blake3 E (ser_peer_state ps))"

record get_block_request =
  gb_block_hash :: block_hash
  descendant_tip :: "tip option"
  gb_ancestor :: "block_hash option"
  gb_peer_state_id :: "peer_state_id option"

record get_headers_request =
  gh_start :: "block_hash fset"
  gh_end :: block_hash
  gh_height :: "nat option"
  gh_peer_state_id :: "peer_state_id option"

datatype 'pf request =
    GetBlock get_block_request
  | GetHeaders get_headers_request
  | PushTransaction "'pf authorized_transaction"

datatype 'pf request_message = Heartbeat peer_state | RequestMessage "'pf request"

datatype 'pf response_message =
    RespBlock header "'pf body"
  | RespHeaders "header list"
  | RespNoBlock block_hash
  | RespNoHeader block_hash
  | TransactionAccepted txid
  | TransactionRejected txid

text \<open>
  \<open>BorshSerialize\<close> of a request. The fields that matter to the requester only are skipped, and a
  \<open>HashSet\<close> is encoded in the order of its elements.
\<close>

fun ser_request :: "('acc, 'fr, 'pf) ext \<Rightarrow> 'pf request \<Rightarrow> u8 list" where
  "ser_request E (GetBlock r) = 0 # block_hash_bytes (gb_block_hash r)"
| "ser_request E (GetHeaders r) =
     1 # ser_vec block_hash_bytes (sorted_list_of_fset (gh_start r)) @ block_hash_bytes (gh_end r)"
| "ser_request E (PushTransaction at) =
     2 # ser_transaction E (transaction at) @ ser_vec ser_authorization (authorizations at)"

definition request_hash :: "('acc, 'fr, 'pf) ext \<Rightarrow> 'pf request \<Rightarrow> hash" where
  "request_hash E r = blake3 E (ser_request E r)"

datatype network = Regtest | Signet | Forknet

fun magic_bytes :: "network \<Rightarrow> u8 list" where
  "magic_bytes Regtest = [0x8D, 0x19, 0x28, 0]"
| "magic_bytes Signet = [0x8D, 0x19, 0x28, 1]"
| "magic_bytes Forknet = [0x8D, 0x19, 0x28, 2]"

text \<open>How many bytes of a response are read. The height is a \<open>u32\<close>, the product is computed as \<open>usize\<close>.\<close>

fun read_response_limit :: "'pf request \<Rightarrow> ('e, nat) result" where
  "read_response_limit (GetBlock r) = Inr (10 * 1024 * 1024)"
| "read_response_limit (GetHeaders r) =
     and_then (expect (gh_height r)) (\<lambda>height.
     let limit = (height + 1) * 2048 in if limit < 2 ^ 64 then Inr limit else Inl Panic)"
| "read_response_limit (PushTransaction at) = Inr 256"

fun request_cost :: "'pf request \<Rightarrow> nat" where
  "request_cost (GetBlock r) = 1000"
| "request_cost (GetHeaders r) = 10000"
| "request_cost (PushTransaction at) = 10"

section \<open>The connection\<close>

datatype ban_reason =
    BmmVerificationFailed tip
  | IncorrectTotalWork tip nat

datatype task_error =
    TaArchive archive_error
  | TaPeerBan ban_reason
  | TaSendInfo
  | TaSendRequest
  | TaState state_error

type_synonym 'a task_result = "(task_error, 'a) result"

datatype peer_error =
    PeArchive archive_error
  | PeMailbox
  | PeHeartbeatTimeout
  | PeMissingPeerState peer_state_id
  | PeSendBlockingTask
  | PeSendHeartbeat
  | PeSendInfo
  | PeSendRequest
  | PeSendResponse
  | PeState state_error
  | PeTask task_error
  | PeReceiveResponse

type_synonym 'a peer_result = "(peer_error, 'a) result"

datatype 'pf info =
    InfoError peer_error
  | NeedMainchainAncestors main_hash peer_state_id
  | NewTipReady tip
  | NewTransaction "'pf authorized_transaction"
  | InfoResponse "'pf response_message" "'pf request"

datatype 'pf internal_message =
    BmmVerification "unit option" peer_state_id
  | BmmVerificationError
  | ForwardRequest "'pf request"
  | MainchainAncestors peer_state_id
  | MainchainAncestorsError
  | HeadersAvailable peer_state_id
  | BodiesAvailable peer_state_id

text \<open>
  What the connection task owns. A blocking task is a call of \<open>handle_peer_state\<close> for a peer state, the only
  function that the code queues.
\<close>

record 'pf connection =
  cn_requests :: "'pf request list"
  cn_request_hashes :: "hash fset"
  cn_request_rx :: bool
  cn_heartbeats :: "peer_state list"
  cn_heartbeat_rx :: bool
  cn_infos :: "'pf info list"
  cn_info_rx :: bool
  cn_blocking_tasks :: "peer_state list"
  cn_blocking_rx :: bool
  cn_responses :: "'pf response_message list"
  cn_peer_state :: "peer_state_id option"
  cn_peer_states :: "(peer_state_id, peer_state) fmap"

definition connection_new :: "'pf connection" where
  "connection_new = \<lparr>cn_requests = [], cn_request_hashes = {||}, cn_request_rx = True, cn_heartbeats = [], cn_heartbeat_rx = True,
     cn_infos = [], cn_info_rx = True, cn_blocking_tasks = [], cn_blocking_rx = True, cn_responses = [],
     cn_peer_state = None, cn_peer_states = fmempty\<rparr>"

text \<open>\<open>?\<close> in an operation that has already sent messages.\<close>

definition then_do :: "'s \<times> ('e + 'a) \<Rightarrow> ('s \<Rightarrow> 'a \<Rightarrow> 's \<times> ('e + 'b)) \<Rightarrow> 's \<times> ('e + 'b)" where
  "then_do p f = (case p of (s, Inl e) \<Rightarrow> (s, Inl e) | (s, Inr a) \<Rightarrow> f s a)"

lemma then_do_simps [simp]: "then_do (s, Inl e) f = (s, Inl e)" "then_do (s, Inr a) f = f s a"
  by (simp_all add: then_do_def)

definition send_heartbeat :: "'pf connection \<Rightarrow> peer_state \<Rightarrow> 'pf connection \<times> unit peer_result" where
  "send_heartbeat C ps =
     (if cn_heartbeat_rx C then (C\<lparr>cn_heartbeats := cn_heartbeats C @ [ps]\<rparr>, Inr ()) else (C, Inl (Err PeSendHeartbeat)))"

definition send_request ::
  "('acc, 'fr, 'pf) ext \<Rightarrow> 'pf connection \<Rightarrow> 'pf request \<Rightarrow> 'pf connection \<times> bool task_result" where
  "send_request E C r =
     (let h = request_hash E r
      in if h |\<in>| cn_request_hashes C then (C, Inr False)
         else let C = C\<lparr>cn_request_hashes := finsert h (cn_request_hashes C)\<rparr>
              in if cn_request_rx C then (C\<lparr>cn_requests := cn_requests C @ [r]\<rparr>, Inr True)
                 else (C, Inl (Err TaSendRequest)))"

definition send_info :: "'e \<Rightarrow> 'pf connection \<Rightarrow> 'pf info \<Rightarrow> 'pf connection \<times> ('e, unit) result" where
  "send_info e C i =
     (if cn_info_rx C then (C\<lparr>cn_infos := cn_infos C @ [i]\<rparr>, Inr ()) else (C, Inl (Err e)))"

definition send_blocking_task :: "'pf connection \<Rightarrow> peer_state \<Rightarrow> 'pf connection \<times> unit peer_result" where
  "send_blocking_task C ps =
     (if cn_blocking_rx C then (C\<lparr>cn_blocking_tasks := cn_blocking_tasks C @ [ps]\<rparr>, Inr ())
      else (C, Inl (Err PeSendBlockingTask)))"

section \<open>Comparing tips\<close>

definition archive_task :: "'a archive_result \<Rightarrow> 'a task_result" where
  "archive_task r = map_err TaArchive r"

definition request_headers ::
  "('acc, 'fr, 'pf) ext \<Rightarrow> 'pf connection \<Rightarrow> block_hash fset \<Rightarrow> tip_info \<Rightarrow> peer_state_id
    \<Rightarrow> 'pf connection \<times> bool option task_result" where
  "request_headers E C start peer_tip_info psid =
     then_do (send_request E C (GetHeaders \<lparr>gh_start = start, gh_end = tip_block_hash (ti_tip peer_tip_info),
         gh_height = Some (block_height peer_tip_info), gh_peer_state_id = Some psid\<rparr>))
       (\<lambda>C _. (C, Inr (Some False)))"

text \<open>Request the headers of the peer tip unless its header is stored.\<close>

definition headers_or_request ::
  "('acc, 'fr, 'pf) ext \<Rightarrow> ('acc, 'fr, 'pf) archive \<Rightarrow> 'pf connection \<Rightarrow> tip_info \<Rightarrow> tip_info \<Rightarrow> peer_state_id
    \<Rightarrow> (unit \<Rightarrow> bool option task_result) \<Rightarrow> 'pf connection \<times> bool option task_result" where
  "headers_or_request E A C tip_info peer_tip_info psid k =
     (if try_get_header A (tip_block_hash (ti_tip peer_tip_info)) = None
      then then_do (C, archive_task (get_block_locator A (tip_block_hash (ti_tip tip_info))))
             (\<lambda>C locator. request_headers E C (fset_of_list locator) peer_tip_info psid)
      else (C, k ()))"

definition check_peer_tip_and_request_headers ::
  "('acc, 'fr, 'pf) ext \<Rightarrow> ('acc, 'fr, 'pf) archive \<Rightarrow> 'pf connection \<Rightarrow> tip_info option \<Rightarrow> tip_info \<Rightarrow> peer_state_id
    \<Rightarrow> 'pf connection \<times> bool option task_result" where
  "check_peer_tip_and_request_headers E A C tip peer_tip_info psid =
     (case tip of
        None \<Rightarrow>
          if try_get_header A (tip_block_hash (ti_tip peer_tip_info)) = None
          then request_headers E C {||} peer_tip_info psid
          else (C, Inr (Some True))
      | Some tip_info \<Rightarrow>
          let work = ti_total_work tip_info; peer_work = ti_total_work peer_tip_info;
              height = block_height tip_info; peer_height = block_height peer_tip_info;
              main = tip_main_block_hash (ti_tip tip_info); peer_main = tip_main_block_hash (ti_tip peer_tip_info);
              available = (\<lambda>_. Inr (Some True))
          in if work \<le> peer_work \<and> height < peer_height then headers_or_request E A C tip_info peer_tip_info psid available
             else if work \<ge> peer_work \<and> height > peer_height then (C, Inr None)
             else if work < peer_work \<and> height = peer_height then
               then_do (C, archive_task (shared_mainchain_lineage A main peer_main)) (\<lambda>C shared.
               if shared then (C, Inr None) else headers_or_request E A C tip_info peer_tip_info psid available)
             else if work > peer_work \<and> height = peer_height then
               then_do (C, archive_task (shared_mainchain_lineage A main peer_main)) (\<lambda>C shared.
               if \<not> shared then (C, Inr None) else headers_or_request E A C tip_info peer_tip_info psid available)
             else if work < peer_work \<and> height > peer_height then
               then_do (C, archive_task (last_common_main_ancestor A main peer_main)) (\<lambda>C main_ancestor.
               then_do (C, archive_task (ancestor_before_main A main_ancestor (\<lambda>b _. get_height A b)
                   (tip_block_hash (ti_tip tip_info)))) (\<lambda>C tip_ancestor_height.
               if tip_ancestor_height \<ge> Some peer_height then (C, Inr None)
               else headers_or_request E A C tip_info peer_tip_info psid available))
             else if work > peer_work \<and> height < peer_height then
               headers_or_request E A C tip_info peer_tip_info psid (\<lambda>_.
                 and_then (archive_task (last_common_main_ancestor A main peer_main)) (\<lambda>main_ancestor.
                 and_then (archive_task (ancestor_before_main A main_ancestor (\<lambda>b _. get_height A b)
                     (tip_block_hash (ti_tip peer_tip_info)))) (\<lambda>peer_tip_ancestor_height.
                 Inr (if peer_tip_ancestor_height < Some height then None else Some True))))
             else if tip_block_hash (ti_tip peer_tip_info) = tip_block_hash (ti_tip tip_info) then (C, Inr None)
             else
               headers_or_request E A C tip_info peer_tip_info psid (\<lambda>_.
                 and_then (archive_task (last_common_main_ancestor A main peer_main)) (\<lambda>main_ancestor.
                 and_then (archive_task (get_main_height A main_ancestor)) (\<lambda>main_ancestor_height.
                 and_then (archive_task (ancestor_before_main A main_ancestor
                     (ancestor_height_and_work A main_ancestor main_ancestor_height) (tip_block_hash (ti_tip tip_info))))
                   (\<lambda>a0.
                 and_then (archive_task (ancestor_before_main A main_ancestor
                     (ancestor_height_and_work A main_ancestor main_ancestor_height) (tip_block_hash (ti_tip peer_tip_info))))
                   (\<lambda>a1.
                 Inr (if (map_option snd a0 \<le> map_option snd a1 \<and> map_option fst a0 = map_option fst a1)
                         \<or> map_option fst a0 > map_option fst a1
                      then None else Some True)))))))"

section \<open>The state of a peer\<close>

text \<open>The information on the own tip, for a heartbeat and to compare with a peer.\<close>

definition state_tip_info ::
  "('acc, 'fr, 'pf) archive \<Rightarrow> ('acc, 'fr) state \<Rightarrow> tip_info option archive_result" where
  "state_tip_info A S =
     (case st_tip S of
        None \<Rightarrow> Inr None
      | Some tip \<Rightarrow>
          and_then (expect (st_height S)) (\<lambda>tip_height.
          and_then (get_best_main_verification A tip) (\<lambda>bmm_verification.
          and_then (get_total_work A bmm_verification) (\<lambda>work.
          Inr (Some \<lparr>block_height = tip_height,
                     ti_tip = \<lparr>tip_block_hash = tip, tip_main_block_hash = bmm_verification\<rparr>, ti_total_work = work\<rparr>)))))"

text \<open>The claims of the peer against the archive: \<open>False\<close> if mainchain headers are missing.\<close>

definition check_peer_claims :: "('acc, 'fr, 'pf) archive \<Rightarrow> tip_info \<Rightarrow> bool task_result" where
  "check_peer_claims A peer_tip_info =
     (let tip = ti_tip peer_tip_info
      in if try_get_main_header_info A (tip_main_block_hash tip) = None then Inr False
         else
           and_then (archive_task (get_total_work A (tip_main_block_hash tip))) (\<lambda>computed_total_work.
           if ti_total_work peer_tip_info \<noteq> computed_total_work
           then Inl (Err (TaPeerBan (IncorrectTotalWork tip (ti_total_work peer_tip_info))))
           else
             and_then (archive_task (get_main_block_info A (tip_main_block_hash tip))) (\<lambda>info.
             if bmm_commitment info \<noteq> Some (tip_block_hash tip) then Inl (Err (TaPeerBan (BmmVerificationFailed tip)))
             else Inr True)))"

definition MAX_BLOCK_REQUESTS :: nat where
  "MAX_BLOCK_REQUESTS = 100"

definition peer_missing_bodies ::
  "('acc, 'fr, 'pf) archive \<Rightarrow> tip_info option \<Rightarrow> tip_info \<Rightarrow> (block_hash option \<times> block_hash list) archive_result" where
  "peer_missing_bodies A tip peer_tip_info =
     and_then
       (case tip of
          Some tip_info \<Rightarrow> last_common_ancestor A (tip_block_hash (ti_tip tip_info)) (tip_block_hash (ti_tip peer_tip_info))
        | None \<Rightarrow> Inr None) (\<lambda>common_ancestor.
     and_then (case common_ancestor of Some b \<Rightarrow> get_height A b | None \<Rightarrow> Inr 0) (\<lambda>start_height.
     map_ok (Pair common_ancestor)
       (iter_missing_bodies A (tip_block_hash (ti_tip peer_tip_info)) start_height MAX_BLOCK_REQUESTS)))"

primrec request_bodies ::
  "('acc, 'fr, 'pf) ext \<Rightarrow> (block_hash \<Rightarrow> get_block_request) \<Rightarrow> 'pf connection \<Rightarrow> block_hash list
    \<Rightarrow> 'pf connection \<times> unit task_result" where
  "request_bodies E req C [] = (C, Inr ())"
| "request_bodies E req C (b # bs) = then_do (send_request E C (GetBlock (req b))) (\<lambda>C _. request_bodies E req C bs)"

definition handle_peer_state ::
  "('acc, 'fr, 'pf) ext \<Rightarrow> ('acc, 'fr, 'pf) archive \<Rightarrow> ('acc, 'fr) state \<Rightarrow> 'pf connection \<Rightarrow> peer_state
    \<Rightarrow> 'pf connection \<times> unit task_result" where
  "handle_peer_state E A S C ps =
     (case ps_tip_info ps of
        None \<Rightarrow> (C, Inr ())
      | Some peer_tip_info \<Rightarrow>
          let psid = peer_state_id_of E ps; peer_tip = ti_tip peer_tip_info
          in then_do (C, archive_task (state_tip_info A S)) (\<lambda>C tip.
             then_do (C, check_peer_claims A peer_tip_info) (\<lambda>C known.
             if \<not> known then send_info TaSendInfo C (NeedMainchainAncestors (tip_main_block_hash peer_tip) psid)
             else
               then_do (check_peer_tip_and_request_headers E A C tip peer_tip_info psid) (\<lambda>C better.
               if better \<noteq> Some True then (C, Inr ())
               else if try_get_bmm_result A (tip_block_hash peer_tip) (tip_main_block_hash peer_tip) \<noteq> Some BmmVerified
               then (C, Inl (Err (TaPeerBan (BmmVerificationFailed peer_tip))))
               else
                 then_do (C, archive_task (peer_missing_bodies A tip peer_tip_info)) (\<lambda>C (common_ancestor, missing_bodies).
                 if missing_bodies = [] then send_info TaSendInfo C (NewTipReady peer_tip)
                 else request_bodies E (\<lambda>b. \<lparr>gb_block_hash = b, descendant_tip = Some peer_tip,
                        gb_ancestor = common_ancestor, gb_peer_state_id = Some psid\<rparr>) C missing_bodies)))))"

section \<open>Requests of the peer\<close>

definition handle_get_block :: "('acc, 'fr, 'pf) archive \<Rightarrow> block_hash \<Rightarrow> 'pf response_message" where
  "handle_get_block A b =
     (case (try_get_header A b, try_get_body A b) of
        (Some header, Some body) \<Rightarrow> RespBlock header body
      | _ \<Rightarrow> RespNoBlock b)"

text \<open>\<open>ancestor_headers(end).take_while(_ not in start)\<close>, newest first.\<close>

primrec headers_until ::
  "nat \<Rightarrow> ('acc, 'fr, 'pf) archive \<Rightarrow> block_hash fset \<Rightarrow> block_hash option \<Rightarrow> header list archive_result" where
  "headers_until 0 A start b = Inl Diverge"
| "headers_until (Suc fuel) A start b =
     (case b of None \<Rightarrow> Inr []
      | Some block_hash \<Rightarrow>
          and_then (get_header A block_hash) (\<lambda>header.
          if block_hash |\<in>| start then Inr []
          else map_ok (Cons header) (headers_until fuel A start (prev_side_hash header))))"

definition handle_get_headers ::
  "('acc, 'fr, 'pf) archive \<Rightarrow> block_hash fset \<Rightarrow> block_hash \<Rightarrow> 'pf response_message archive_result" where
  "handle_get_headers A start end_hash =
     (if try_get_header A end_hash = None then Inr (RespNoHeader end_hash)
      else map_ok (\<lambda>hs. RespHeaders (rev hs)) (headers_until (ancestor_fuel A) A start (Some end_hash)))"

text \<open>\<open>sent\<close> tells whether the stream to the peer took the response.\<close>

definition send_response :: "bool \<Rightarrow> 'pf connection \<Rightarrow> 'pf response_message \<Rightarrow> 'pf connection \<times> unit peer_result" where
  "send_response sent C r =
     (if sent then (C\<lparr>cn_responses := cn_responses C @ [r]\<rparr>, Inr ()) else (C, Inl (Err PeSendResponse)))"

definition handle_push_tx ::
  "('acc, 'fr, 'pf) ext \<Rightarrow> ('acc, 'fr) state \<Rightarrow> bool \<Rightarrow> 'pf connection \<Rightarrow> 'pf authorized_transaction
    \<Rightarrow> 'pf connection \<times> unit peer_result" where
  "handle_push_tx E S sent C at =
     (let txid = tx_txid E (transaction at)
      in case validate_transaction E S at of
           Inl e \<Rightarrow>
             then_do (send_response sent C (TransactionRejected txid)) (\<lambda>C _. (C, map_err PeState (Inl e)))
         | Inr _ \<Rightarrow>
             then_do (send_response sent C (TransactionAccepted txid)) (\<lambda>C _. send_info PeSendInfo C (NewTransaction at)))"

text \<open>The headers are collected by a task of their own, which hands the response back to the mailbox.\<close>

definition handle_peer_request ::
  "('acc, 'fr, 'pf) ext \<Rightarrow> ('acc, 'fr, 'pf) archive \<Rightarrow> ('acc, 'fr) state \<Rightarrow> bool \<Rightarrow> 'pf connection \<Rightarrow> 'pf request_message
    \<Rightarrow> 'pf connection \<times> unit peer_result" where
  "handle_peer_request E A S sent C msg =
     (case msg of
        Heartbeat ps \<Rightarrow>
          let psid = peer_state_id_of E ps; C = C\<lparr>cn_peer_states := fmupd psid ps (cn_peer_states C)\<rparr>
          in if cn_peer_state C \<noteq> Some psid
             then then_do (send_blocking_task C ps) (\<lambda>C _. (C\<lparr>cn_peer_state := Some psid\<rparr>, Inr ()))
             else (C, Inr ())
      | RequestMessage (GetBlock r) \<Rightarrow> send_response sent C (handle_get_block A (gb_block_hash r))
      | RequestMessage (GetHeaders r) \<Rightarrow>
          then_do (C, map_err PeArchive (handle_get_headers A (gh_start r) (gh_end r))) (\<lambda>C resp. send_response sent C resp)
      | RequestMessage (PushTransaction at) \<Rightarrow> handle_push_tx E S sent C at)"

section \<open>The mailbox\<close>

definition known_state_task :: "'pf connection \<Rightarrow> peer_state_id \<Rightarrow> 'pf connection \<times> unit peer_result" where
  "known_state_task C psid =
     (case fmlookup (cn_peer_states C) psid of
        None \<Rightarrow> (C, Inl (Err (PeMissingPeerState psid)))
      | Some ps \<Rightarrow> send_blocking_task C ps)"

fun handle_internal_message ::
  "('acc, 'fr, 'pf) ext \<Rightarrow> 'pf connection \<Rightarrow> 'pf internal_message \<Rightarrow> 'pf connection \<times> unit peer_result" where
  "handle_internal_message E C (ForwardRequest r) =
     (case send_request E C r of (C, x) \<Rightarrow> (C, map_ok (\<lambda>_. ()) (map_err (\<lambda>_. PeSendRequest) x)))"
| "handle_internal_message E C (BmmVerification None psid) = (C, Inr ())"
| "handle_internal_message E C (BmmVerification (Some ()) psid) = known_state_task C psid"
| "handle_internal_message E C BmmVerificationError = (C, Inr ())"
| "handle_internal_message E C MainchainAncestorsError = (C, Inr ())"
| "handle_internal_message E C (MainchainAncestors psid) = known_state_task C psid"
| "handle_internal_message E C (HeadersAvailable psid) = known_state_task C psid"
| "handle_internal_message E C (BodiesAvailable psid) = known_state_task C psid"

definition heartbeat ::
  "version \<Rightarrow> ('acc, 'fr, 'pf) archive \<Rightarrow> ('acc, 'fr) state \<Rightarrow> 'pf connection \<Rightarrow> 'pf connection \<times> unit peer_result" where
  "heartbeat v A S C =
     then_do (C, map_err PeArchive (state_tip_info A S)) (\<lambda>C tip. send_heartbeat C \<lparr>ps_tip_info = tip, ps_version = v\<rparr>)"

datatype 'pf mailbox_item =
    MbError peer_error
  | MbInternalMessage "'pf internal_message"
  | MbHeartbeat
  | MbBlockingTask
  | MbPeerRequest "'pf request_message" bool
  | MbPeerResponse "'pf request" "'pf response_message option"

text \<open>
  One item of the mailbox of \<open>ConnectionTask::run\<close>, or the next task of the queue of blocking tasks, whose error arrives as an item.
  A response of the peer is passed on whether or not the net task still listens.
\<close>

fun connection_step ::
  "version \<Rightarrow> ('acc, 'fr, 'pf) ext \<Rightarrow> ('acc, 'fr, 'pf) archive \<Rightarrow> ('acc, 'fr) state \<Rightarrow> 'pf connection \<Rightarrow> 'pf mailbox_item
    \<Rightarrow> 'pf connection \<times> unit peer_result" where
  "connection_step v E A S C (MbError e) = (C, Inl (Err e))"
| "connection_step v E A S C (MbInternalMessage msg) = handle_internal_message E C msg"
| "connection_step v E A S C MbHeartbeat = heartbeat v A S C"
| "connection_step v E A S C MbBlockingTask =
     (case cn_blocking_tasks C of
        [] \<Rightarrow> (C, Inr ())
      | ps # tasks \<Rightarrow>
          (case handle_peer_state E A S (C\<lparr>cn_blocking_tasks := tasks\<rparr>) ps of (C, x) \<Rightarrow> (C, map_err PeTask x)))"
| "connection_step v E A S C (MbPeerRequest msg sent) = handle_peer_request E A S sent C msg"
| "connection_step v E A S C (MbPeerResponse r resp) =
     (fst (send_info PeSendInfo C (case resp of Some resp \<Rightarrow> InfoResponse resp r | None \<Rightarrow> InfoError PeReceiveResponse)), Inr ())"

text \<open>
  What reaches the mailbox: the only requests that the node forwards are transactions (\<open>Net::push_tx\<close>), and the
  height in a peer state is read as a \<open>u32\<close>.
\<close>

fun mailbox_item_ok :: "'pf mailbox_item \<Rightarrow> bool" where
  "mailbox_item_ok (MbInternalMessage (ForwardRequest (PushTransaction at))) \<longleftrightarrow> True"
| "mailbox_item_ok (MbInternalMessage (ForwardRequest r)) \<longleftrightarrow> False"
| "mailbox_item_ok (MbPeerRequest (Heartbeat ps) sent) \<longleftrightarrow>
     (case ps_tip_info ps of None \<Rightarrow> True | Some i \<Rightarrow> block_height i < 2 ^ 32)"
| "mailbox_item_ok _ \<longleftrightarrow> True"

text \<open>
  The run of a connection: between two items the databases may change and receivers may be dropped. An error ends the task, and the error is sent to
  the net task.
\<close>

inductive connected ::
  "version \<Rightarrow> ('acc, 'fr, 'pf) ext \<Rightarrow> 'pf connection \<Rightarrow> bool"
  for v :: version and E :: "('acc, 'fr, 'pf) ext" where
  connected_new: "connected v E connection_new"
| connected_step: "connected v E C \<Longrightarrow> mailbox_item_ok item \<Longrightarrow> connection_step v E A S C item = (C', Inr ()) \<Longrightarrow> connected v E C'"
| connected_drop: "connected v E C \<Longrightarrow> connected v E (C\<lparr>cn_request_rx := cn_request_rx C \<and> a, cn_heartbeat_rx := cn_heartbeat_rx C \<and> b,
    cn_info_rx := cn_info_rx C \<and> c, cn_blocking_rx := cn_blocking_rx C \<and> d\<rparr>)"

end
