(* ===== verification/Address.thy ===== *)
theory Address
  imports Codec
begin

text \<open>
  The text forms of addresses, \<open>lib/types/address.rs\<close>: Base58 for transparent addresses, Bech32m for shielded ones, and the form for
  deposits. A string is the list of its UTF-8 bytes. Base58, Bech32, SHA-256, hexadecimal digits and the raw form of an Orchard
  address are code of other crates; \<open>Hrp\<close> compares without regard to case, and \<open>bech32_decode\<close> gives it in lower case.
\<close>

record 'o address_ext =
  base58_encode :: "u8 list \<Rightarrow> u8 list"
  base58_decode :: "u8 list \<Rightarrow> u8 list option"
  bech32_encode :: "u8 list \<Rightarrow> u8 list \<Rightarrow> u8 list"
  bech32_decode :: "u8 list \<Rightarrow> (u8 list \<times> u8 list) option"
  to_raw_address_bytes :: "'o \<Rightarrow> u8 list"
  from_raw_address_bytes :: "u8 list \<Rightarrow> 'o option"
  sha256_digest :: "u8 list \<Rightarrow> u8 list"
  hex_encode :: "u8 list \<Rightarrow> u8 list"

definition str :: "string \<Rightarrow> u8 list" where
  "str s = map of_char s"

definition THIS_SIDECHAIN :: nat where
  "THIS_SIDECHAIN = 98"

datatype transparent_address_parse_error = Bs58 | WrongLength nat

definition ALL_ZEROS :: transparent_address where
  "ALL_ZEROS = TransparentAddress 0"

definition address_of_bytes :: "u8 list \<Rightarrow> transparent_address" where
  "address_of_bytes bs = TransparentAddress (word_of_nat (le_nat (rev bs)))"

definition as_base58 :: "'o address_ext \<Rightarrow> transparent_address \<Rightarrow> u8 list" where
  "as_base58 X a = base58_encode X (address_bytes a)"

definition format_for_deposit :: "'o address_ext \<Rightarrow> transparent_address \<Rightarrow> u8 list" where
  "format_for_deposit X a =
     (let prefix = str ''s98_'' @ as_base58 X a @ str ''_''
      in prefix @ hex_encode X (take 3 (sha256_digest X prefix)))"

definition transparent_from_str :: "'o address_ext \<Rightarrow> u8 list \<Rightarrow> (transparent_address_parse_error, transparent_address) result" where
  "transparent_from_str X s =
     and_then (ok_or Bs58 (base58_decode X s)) (\<lambda>bs.
     if length bs = 20 then Inr (address_of_bytes bs) else Inl (Err (WrongLength (length bs))))"

datatype bech32m_decode_error = Bech32m | InvalidBytes "u8 list" | WrongHrp | WrongSize | WrongVariant

definition BECH32M_HRP :: "u8 list" where
  "BECH32M_HRP = str ''t-shld''"

definition bech32m_encode :: "'o address_ext \<Rightarrow> 'o \<Rightarrow> u8 list" where
  "bech32m_encode X a = bech32_encode X BECH32M_HRP (to_raw_address_bytes X a)"

definition bech32m_decode :: "'o address_ext \<Rightarrow> u8 list \<Rightarrow> (bech32m_decode_error, 'o) result" where
  "bech32m_decode X s =
     and_then (ok_or Bech32m (bech32_decode X s)) (\<lambda>(hrp, data).
     if hrp \<noteq> BECH32M_HRP then Inl (Err WrongHrp)
     else if length data \<noteq> 43 then Inl (Err WrongSize)
     else
       and_then (ok_or (InvalidBytes data) (from_raw_address_bytes X data)) (\<lambda>a.
       if s \<noteq> bech32m_encode X a then Inl (Err WrongVariant) else Inr a))"

datatype 'o any_address = Shielded 'o | Transparent transparent_address

fun address_to_str :: "'o address_ext \<Rightarrow> 'o any_address \<Rightarrow> u8 list" where
  "address_to_str X (Shielded a) = bech32m_encode X a"
| "address_to_str X (Transparent a) = as_base58 X a"

definition address_from_str ::
  "'o address_ext \<Rightarrow> u8 list \<Rightarrow> (bech32m_decode_error fail \<times> transparent_address_parse_error fail, 'o any_address) result" where
  "address_from_str X s =
     (case bech32m_decode X s of
        Inr a \<Rightarrow> Inr (Shielded a)
      | Inl shielded \<Rightarrow>
          (case transparent_from_str X s of
             Inr a \<Rightarrow> Inr (Transparent a)
           | Inl transparent \<Rightarrow> Inl (Err (shielded, transparent))))"

section \<open>Round trips\<close>

text \<open>
  What is relied on: encodings can be decoded, Base58 text has no hyphen, and the part of a Bech32 text before its separator is
  part of the text. Only the addresses of another text form could be mistaken for each other.
\<close>

definition address_laws :: "'o address_ext \<Rightarrow> bool" where
  "address_laws X \<longleftrightarrow> (\<forall>bs. base58_decode X (base58_encode X bs) = Some bs \<and> of_char CHR ''-'' \<notin> set (base58_encode X bs))
     \<and> (\<forall>bs. bech32_decode X (bech32_encode X BECH32M_HRP bs) = Some (BECH32M_HRP, bs))
     \<and> (\<forall>s hrp bs. bech32_decode X s = Some (hrp, bs) \<longrightarrow> of_char CHR ''-'' \<in> set hrp \<longrightarrow> of_char CHR ''-'' \<in> set s)
     \<and> (\<forall>a. length (to_raw_address_bytes X a) = 43 \<and> from_raw_address_bytes X (to_raw_address_bytes X a) = Some a)"

lemma address_of_address_bytes [simp]: "address_of_bytes (address_bytes a) = a"
proof (cases a)
  case (TransparentAddress w)
  have "unat w < 256 ^ 20" using unsigned_less [of w, where ?'a = nat] by (simp add: power_mult [symmetric])
  with TransparentAddress show ?thesis by (simp add: address_of_bytes_def address_bytes_def le_nat_le_bytes)
qed

lemma address_bytes_of_bytes:
  assumes "length bs = 20"
  shows "address_bytes (address_of_bytes bs) = bs"
proof -
  from assms have "le_nat (rev bs) < 256 ^ 20" using le_nat_bound [of "rev bs"] by simp
  then have "unat (word_of_nat (le_nat (rev bs)) :: 160 word) = le_nat (rev bs)" by (simp add: unat_of_nat)
  with assms show ?thesis by (simp add: address_bytes_def address_of_bytes_def le_bytes_le_nat [of "rev bs"])
qed

lemma transparent_from_str_base58:
  assumes "base58_decode X (as_base58 X a) = Some (address_bytes a)"
  shows "transparent_from_str X (as_base58 X a) = Inr a"
  using assms by (simp add: transparent_from_str_def ok_or_def)

text \<open>
  C40. The text of an address, transparent or shielded, parses to the address it was made of, and a text that parses as a
  shielded address is the one text that is made of it.
\<close>

theorem address_text_roundtrip:
  assumes laws: "address_laws X"
  shows "address_from_str X (address_to_str X a) = Inr a
    \<and> (\<forall>s b. bech32m_decode X s = Inr b \<longrightarrow> s = address_to_str X (Shielded b))"
proof (rule conjI)
  have "of_char CHR ''-'' \<in> set BECH32M_HRP" by (simp add: BECH32M_HRP_def str_def)
  then have hrp: "hrp \<noteq> BECH32M_HRP" if "bech32_decode X (base58_encode X bs) = Some (hrp, d)" for hrp d bs
    using laws that unfolding address_laws_def by blast
  show "address_from_str X (address_to_str X a) = Inr a"
  proof (cases a)
    case (Shielded b)
    have "bech32_decode X (bech32_encode X BECH32M_HRP (to_raw_address_bytes X b)) = Some (BECH32M_HRP, to_raw_address_bytes X b)"
      "length (to_raw_address_bytes X b) = 43" "from_raw_address_bytes X (to_raw_address_bytes X b) = Some b"
      using laws unfolding address_laws_def by blast+
    with Shielded show ?thesis by (simp add: address_from_str_def bech32m_decode_def bech32m_encode_def ok_or_def)
  next
    case (Transparent b)
    have "base58_decode X (as_base58 X b) = Some (address_bytes b)" using laws by (simp add: address_laws_def as_base58_def)
    from transparent_from_str_base58 [OF this] have t: "transparent_from_str X (as_base58 X b) = Inr b" .
    have "\<exists>e. bech32m_decode X (as_base58 X b) = Inl e"
      using hrp [of "address_bytes b"]
      by (cases "bech32_decode X (as_base58 X b)") (auto simp: bech32m_decode_def as_base58_def ok_or_def)
    then obtain e where "bech32m_decode X (as_base58 X b) = Inl e" ..
    with t Transparent show ?thesis by (simp add: address_from_str_def)
  qed
  show "\<forall>s b. bech32m_decode X s = Inr b \<longrightarrow> s = address_to_str X (Shielded b)"
    by (auto simp: bech32m_decode_def result_simps split: if_splits)
qed

section \<open>An instance\<close>

text \<open>Two letters from \<open>a\<close> to \<open>p\<close> per byte.\<close>

definition letters :: "u8 list \<Rightarrow> u8 list" where
  "letters bs = concat (map (\<lambda>b. [word_of_nat (97 + unat b div 16), word_of_nat (97 + unat b mod 16)]) bs)"

fun unletters :: "u8 list \<Rightarrow> u8 list option" where
  "unletters [] = Some []"
| "unletters [c] = None"
| "unletters (c # d # cs) = map_option (Cons (word_of_nat ((unat c - 97) * 16 + (unat d - 97)))) (unletters cs)"

lemma letter_range:
  fixes b :: u8
  shows "unat b div 16 < 16" "unat b mod 16 < 16"
  using unsigned_less [of b, where ?'a = nat] by auto

lemma unat_letter: "n < 16 \<Longrightarrow> unat (word_of_nat (97 + n) :: u8) = 97 + n"
  by (simp add: unat_of_nat del: of_nat_add)

lemma unletters_letters [simp]: "unletters (letters bs) = Some bs"
proof (induction bs)
  case (Cons b bs)
  have "(unat (word_of_nat (97 + unat b div 16) :: u8) - 97) * 16 + (unat (word_of_nat (97 + unat b mod 16) :: u8) - 97) = unat b"
    unfolding unat_letter [OF letter_range(1)] unat_letter [OF letter_range(2)] by simp
  with Cons show ?case by (simp add: letters_def del: of_nat_add)
qed (simp add: letters_def)

lemma letters_above: "c \<in> set (letters bs) \<Longrightarrow> 97 \<le> unat c"
  using unat_letter letter_range by (auto simp: letters_def simp del: of_nat_add)

definition example_address_ext :: "unit address_ext" where
  "example_address_ext = \<lparr>base58_encode = letters, base58_decode = unletters,
     bech32_encode = (\<lambda>hrp bs. hrp @ 49 # letters bs),
     bech32_decode = (\<lambda>s. case dropWhile (\<lambda>c. c \<noteq> 49) s of [] \<Rightarrow> None
        | _ # r \<Rightarrow> map_option (Pair (takeWhile (\<lambda>c. c \<noteq> 49) s)) (unletters r)),
     to_raw_address_bytes = (\<lambda>_. replicate 43 0), from_raw_address_bytes = (\<lambda>bs. if bs = replicate 43 0 then Some () else None),
     sha256_digest = (\<lambda>bs. replicate 32 0), hex_encode = letters\<rparr>"

lemma example_address_laws: "address_laws example_address_ext"
proof -
  have sep: "\<forall>c\<in>set BECH32M_HRP. c \<noteq> 49" by (simp add: BECH32M_HRP_def str_def)
  have hyphen: "of_char CHR ''-'' \<notin> set (letters bs)" for bs using letters_above [of "of_char CHR ''-''" bs] by auto
  have tw: "takeWhile (\<lambda>c. c \<noteq> 49) (BECH32M_HRP @ 49 # bs) = BECH32M_HRP"
    "dropWhile (\<lambda>c. c \<noteq> 49) (BECH32M_HRP @ 49 # bs) = 49 # bs" for bs
    using sep by (simp_all add: takeWhile_append2 dropWhile_append2)
  show ?thesis
    unfolding address_laws_def using hyphen
    by (auto simp: example_address_ext_def tw dest: set_takeWhileD split: list.splits)
qed

theorem address_text_roundtrip_witness:
  "address_from_str example_address_ext (address_to_str example_address_ext (Transparent ALL_ZEROS)) = Inr (Transparent ALL_ZEROS)"
  using address_text_roundtrip [OF example_address_laws] by blast

end
