(* ===== verification/Net.thy ===== *)
theory Net
  imports Peer Address
begin

text \<open>
  The table of peers, \<open>lib/net/mod.rs\<close>: active connections, known peers in the database, and the messages that the node
  pushes to connections. The QUIC endpoint is third-party code: \<open>quinn\<close> is the error with which it refuses to connect to an address, if any.
  A connection handle holds the messages pushed to its task and whether the task still receives them.
\<close>

section \<open>Addresses\<close>

datatype ip_addr = Ipv4 "32 word" | Ipv6 "128 word"

datatype socket_addr = SocketAddr (addr_ip: ip_addr) (addr_port: "16 word")

fun is_unspecified :: "ip_addr \<Rightarrow> bool" where
  "is_unspecified (Ipv4 w) \<longleftrightarrow> w = 0"
| "is_unspecified (Ipv6 w) \<longleftrightarrow> w = 0"

text \<open>
  The order of the keys of \<open>known_peers\<close>: the encoding has the version of the address, its octets, and the port with its low byte first.
\<close>

fun ip_key :: "ip_addr \<Rightarrow> nat" where
  "ip_key (Ipv4 w) = unat w"
| "ip_key (Ipv6 w) = 2 ^ 128 + unat w"

definition addr_key :: "socket_addr \<Rightarrow> nat" where
  "addr_key a = (let p = unat (addr_port a) in ip_key (addr_ip a) * 65536 + (p mod 256 * 256 + p div 256))"

lemma ip_key_inj: "ip_key x = ip_key y \<Longrightarrow> x = y"
proof (cases x; cases y)
  fix v :: "32 word" and w :: "128 word"
  have "unat v < 2 ^ 128" using unsigned_less [of v, where ?'a = nat] by simp
  then have ne: "unat v \<noteq> 2 ^ 128 + unat w" by simp
  { assume "ip_key x = ip_key y" "x = Ipv4 v" "y = Ipv6 w" then show "x = y" using ne by simp }
  { assume "ip_key x = ip_key y" "x = Ipv6 w" "y = Ipv4 v" then show "x = y" using ne by simp }
qed (simp_all add: word_unat_eq_iff)

lemma port_swap_inj:
  fixes p q :: nat
  assumes "p mod 256 * 256 + p div 256 = q mod 256 * 256 + q div 256" and "p < 65536" "q < 65536"
  shows "p = q"
proof -
  have small: "p div 256 < 256" "q div 256 < 256" using assms(2,3) by auto
  from assms(1) have "(p mod 256 * 256 + p div 256) div 256 = (q mod 256 * 256 + q div 256) div 256" by simp
  then have m: "p mod 256 = q mod 256" using small by simp
  with assms(1) have d: "p div 256 = q div 256" by simp
  have "p = p div 256 * 256 + p mod 256" by (rule div_mult_mod_eq [symmetric])
  also have "\<dots> = q" unfolding m d by (rule div_mult_mod_eq)
  finally show ?thesis .
qed

lemma addr_key_inj: "addr_key a = addr_key b \<Longrightarrow> a = b"
proof -
  let ?s = "\<lambda>a. unat (addr_port a) mod 256 * 256 + unat (addr_port a) div 256"
  have port: "unat (addr_port a) < 65536" for a using unsigned_less [of "addr_port a", where ?'a = nat] by simp
  have small: "?s a < 65536" for a
  proof -
    have "unat (addr_port a) mod 256 \<le> 255" "unat (addr_port a) div 256 \<le> 255" using port [of a] by auto
    then show ?thesis by linarith
  qed
  assume "addr_key a = addr_key b"
  then have e: "ip_key (addr_ip a) * 65536 + ?s a = ip_key (addr_ip b) * 65536 + ?s b" by (simp add: addr_key_def Let_def)
  then have "(ip_key (addr_ip a) * 65536 + ?s a) div 65536 = (ip_key (addr_ip b) * 65536 + ?s b) div 65536" by simp
  then have ip: "ip_key (addr_ip a) = ip_key (addr_ip b)" using small [of a] small [of b] by simp
  with e have "?s a = ?s b" by simp
  then have "unat (addr_port a) = unat (addr_port b)" by (rule port_swap_inj) (rule port)+
  with ip_key_inj [OF ip] show "a = b" by (cases a; cases b) (simp add: word_unat_eq_iff)
qed

instantiation socket_addr :: linorder
begin

definition less_eq_socket_addr :: "socket_addr \<Rightarrow> socket_addr \<Rightarrow> bool" where
  "less_eq_socket_addr a b \<longleftrightarrow> addr_key a \<le> addr_key b"

definition less_socket_addr :: "socket_addr \<Rightarrow> socket_addr \<Rightarrow> bool" where
  "less_socket_addr a b \<longleftrightarrow> addr_key a < addr_key b"

instance
  by standard (auto simp: less_eq_socket_addr_def less_socket_addr_def intro: addr_key_inj)

end

section \<open>The table\<close>

datatype connect_error = InvalidRemoteAddress socket_addr | OtherConnectError

datatype net_error =
    AlreadyConnected socket_addr
  | NetConnect connect_error
  | UnspecifiedPeerIP ip_addr

datatype peer_connection_status = Connecting | Connected

record 'pf connection_handle =
  received_msg_successfully :: bool
  connection_status :: peer_connection_status
  ch_messages :: "'pf internal_message list"
  ch_listening :: bool

record 'pf net =
  net_network :: network
  active_peers :: "(socket_addr, 'pf connection_handle) fmap"
  known_peers :: "socket_addr fset"

definition peer_handle :: "'pf connection_handle" where
  "peer_handle = \<lparr>received_msg_successfully = False, connection_status = Connected, ch_messages = [], ch_listening = True\<rparr>"

definition peer_connect :: "'pf connection_handle" where
  "peer_connect = \<lparr>received_msg_successfully = False, connection_status = Connecting, ch_messages = [], ch_listening = True\<rparr>"

definition seed_addr :: "nat \<Rightarrow> nat \<Rightarrow> nat \<Rightarrow> nat \<Rightarrow> socket_addr" where
  "seed_addr a b c d = SocketAddr (Ipv4 (word_of_nat (((a * 256 + b) * 256 + c) * 256 + d))) (word_of_nat (4000 + THIS_SIDECHAIN))"

fun seed_node_addrs :: "network \<Rightarrow> socket_addr list" where
  "seed_node_addrs Signet = [seed_addr 172 105 148 135, seed_addr 95 217 243 12]"
| "seed_node_addrs Regtest = []"
| "seed_node_addrs Forknet = [seed_addr 157 180 8 224]"

definition add_active_peer :: "'pf net \<Rightarrow> socket_addr \<Rightarrow> 'pf connection_handle \<Rightarrow> 'pf net \<times> (net_error, unit) result" where
  "add_active_peer net addr h =
     (if fmlookup (active_peers net) addr \<noteq> None then (net, Inl (Err (AlreadyConnected addr)))
      else (net\<lparr>active_peers := fmupd addr h (active_peers net)\<rparr>, Inr ()))"

definition remove_active_peer :: "'pf net \<Rightarrow> socket_addr \<Rightarrow> 'pf net" where
  "remove_active_peer net addr = net\<lparr>active_peers := fmdrop addr (active_peers net)\<rparr>"

definition try_with_active_peer_connection :: "'pf net \<Rightarrow> socket_addr \<Rightarrow> ('pf connection_handle \<Rightarrow> 'a) \<Rightarrow> 'a option" where
  "try_with_active_peer_connection net addr f = map_option f (fmlookup (active_peers net) addr)"

definition get_active_peers :: "'pf net \<Rightarrow> (socket_addr, peer_connection_status) fmap" where
  "get_active_peers net = fmmap connection_status (active_peers net)"

definition connect_peer ::
  "(socket_addr \<Rightarrow> connect_error option) \<Rightarrow> 'pf net \<Rightarrow> socket_addr \<Rightarrow> 'pf net \<times> (net_error, unit) result" where
  "connect_peer quinn net addr =
     (if fmlookup (active_peers net) addr \<noteq> None then (net, Inl (Err (AlreadyConnected addr)))
      else if is_unspecified (addr_ip addr) then (net, Inl (Err (UnspecifiedPeerIP (addr_ip addr))))
      else case quinn addr of
        Some e \<Rightarrow> (net, Inl (Err (NetConnect e)))
      | None \<Rightarrow> add_active_peer (net\<lparr>known_peers := finsert addr (known_peers net)\<rparr>) addr peer_connect)"

definition forget_peer :: "'pf net \<Rightarrow> socket_addr \<Rightarrow> 'pf net \<times> bool" where
  "forget_peer net addr = (net\<lparr>known_peers := known_peers net |-| {|addr|}\<rparr>, addr |\<in>| known_peers net)"

definition connect_known_peer ::
  "(socket_addr \<Rightarrow> connect_error option) \<Rightarrow> 'pf net \<Rightarrow> socket_addr \<Rightarrow> 'pf net \<times> (net_error, unit) result" where
  "connect_known_peer quinn net addr =
     (case connect_peer quinn net addr of
        (net, Inl (Err (NetConnect (InvalidRemoteAddress _)))) \<Rightarrow> (fst (forget_peer net addr), Inr ())
      | r \<Rightarrow> r)"

primrec connect_known_peers ::
  "(socket_addr \<Rightarrow> connect_error option) \<Rightarrow> 'pf net \<Rightarrow> socket_addr list \<Rightarrow> 'pf net \<times> (net_error, unit) result" where
  "connect_known_peers quinn net [] = (net, Inr ())"
| "connect_known_peers quinn net (a # as) = then_do (connect_known_peer quinn net a) (\<lambda>net _. connect_known_peers quinn net as)"

text \<open>\<open>stored\<close> is the database of known peers, \<open>None\<close> before the first start.\<close>

definition net_new ::
  "(socket_addr \<Rightarrow> connect_error option) \<Rightarrow> network \<Rightarrow> socket_addr fset option \<Rightarrow> 'pf net \<times> (net_error, unit) result" where
  "net_new quinn network stored =
     (let known = (case stored of Some known \<Rightarrow> known | None \<Rightarrow> fset_of_list (seed_node_addrs network))
      in connect_known_peers quinn \<lparr>net_network = network, active_peers = fmempty, known_peers = known\<rparr> (sorted_list_of_fset known))"

text \<open>What \<open>Endpoint::accept\<close> yields: an established connection may already be closed by the other side.\<close>

datatype incoming = EndpointClosed | IncomingFailed socket_addr | Incoming socket_addr bool

datatype accept_error = AcceptAlreadyConnected socket_addr | AcceptConnectionError socket_addr | ServerEndpointClosed

definition accept_incoming :: "'pf net \<Rightarrow> incoming \<Rightarrow> 'pf net \<times> (accept_error, socket_addr option) result" where
  "accept_incoming net i =
     (case i of
        EndpointClosed \<Rightarrow> (net, Inl (Err ServerEndpointClosed))
      | IncomingFailed addr \<Rightarrow> (net, Inl (Err (AcceptConnectionError addr)))
      | Incoming addr closed \<Rightarrow>
          if fmlookup (active_peers net) addr \<noteq> None \<or> closed then (net, Inr None)
          else case add_active_peer (net\<lparr>known_peers := finsert addr (known_peers net)\<rparr>) addr peer_handle of
                 (net, r) \<Rightarrow> (net, map_ok (\<lambda>_. Some addr) (map_err (\<lambda>_. AcceptAlreadyConnected addr) r)))"

definition push_internal_message :: "'pf net \<Rightarrow> 'pf internal_message \<Rightarrow> socket_addr \<Rightarrow> 'pf net \<times> bool" where
  "push_internal_message net message addr =
     (case fmlookup (active_peers net) addr of
        None \<Rightarrow> (net, False)
      | Some h \<Rightarrow>
          if \<not> ch_listening h then (net, False)
          else (net\<lparr>active_peers := fmupd addr (h\<lparr>ch_messages := ch_messages h @ [message]\<rparr>) (active_peers net)\<rparr>, True))"

definition push_tx :: "'pf net \<Rightarrow> socket_addr fset \<Rightarrow> 'pf authorized_transaction \<Rightarrow> 'pf net" where
  "push_tx net exclude tx =
     net\<lparr>active_peers := fmmap_keys (\<lambda>addr h.
       if addr |\<in>| exclude \<or> connection_status h = Connecting \<or> \<not> ch_listening h then h
       else h\<lparr>ch_messages := ch_messages h @ [ForwardRequest (PushTransaction tx)]\<rparr>) (active_peers net)\<rparr>"

section \<open>Starting the table of peers\<close>

lemma connect_known_peer_cases:
  assumes "fmlookup (active_peers net) a = None"
  shows "\<not> is_unspecified (addr_ip a) \<Longrightarrow> quinn a = None \<Longrightarrow>
      connect_known_peer quinn net a = (net\<lparr>known_peers := finsert a (known_peers net),
        active_peers := fmupd a peer_connect (active_peers net)\<rparr>, Inr ())"
    and "\<not> is_unspecified (addr_ip a) \<Longrightarrow> quinn a = Some (InvalidRemoteAddress b) \<Longrightarrow>
      connect_known_peer quinn net a = (net\<lparr>known_peers := known_peers net |-| {|a|}\<rparr>, Inr ())"
    and "is_unspecified (addr_ip a) \<or> quinn a = Some OtherConnectError \<Longrightarrow>
      \<exists>e. connect_known_peer quinn net a = (net, Inl e)"
  using assms by (auto simp: connect_known_peer_def connect_peer_def add_active_peer_def forget_peer_def)

text \<open>The peers that a start can use, and those it drops.\<close>

definition connectable :: "(socket_addr \<Rightarrow> connect_error option) \<Rightarrow> socket_addr \<Rightarrow> bool" where
  "connectable quinn a \<longleftrightarrow> \<not> is_unspecified (addr_ip a) \<and> quinn a = None"

definition refused :: "(socket_addr \<Rightarrow> connect_error option) \<Rightarrow> socket_addr \<Rightarrow> bool" where
  "refused quinn a \<longleftrightarrow> is_unspecified (addr_ip a) \<or> quinn a = Some OtherConnectError"

lemma connect_known_peers_ok:
  assumes "distinct as" and "\<forall>a\<in>set as. \<not> refused quinn a" and "\<forall>a\<in>set as. fmlookup (active_peers net) a = None"
    and "fset_of_list as |\<subseteq>| known_peers net"
  shows "\<exists>net'. connect_known_peers quinn net as = (net', Inr ())
    \<and> known_peers net' = known_peers net |-| ffilter (\<lambda>a. \<not> connectable quinn a) (fset_of_list as)
    \<and> (\<forall>a. fmlookup (active_peers net') a =
         (if a \<in> set as \<and> connectable quinn a then Some peer_connect else fmlookup (active_peers net) a))"
  using assms
proof (induction as arbitrary: net)
  case Nil
  show ?case by auto
next
  case (Cons a as)
  have new: "fmlookup (active_peers net) a = None" "\<not> is_unspecified (addr_ip a)" and known: "a |\<in>| known_peers net"
    using Cons.prems by (auto simp: refused_def)
  show ?case
  proof (cases "quinn a")
    case None
    then have conn: "connectable quinn a" using new(2) by (simp add: connectable_def)
    let ?net = "net\<lparr>known_peers := finsert a (known_peers net), active_peers := fmupd a peer_connect (active_peers net)\<rparr>"
    have "\<forall>b\<in>set as. fmlookup (active_peers ?net) b = None" "fset_of_list as |\<subseteq>| known_peers ?net"
      using Cons.prems by auto
    from Cons.IH [OF _ _ this] Cons.prems(1,2) obtain net' where
      net': "connect_known_peers quinn ?net as = (net', Inr ())"
        "known_peers net' = finsert a (known_peers net) |-| ffilter (\<lambda>a. \<not> connectable quinn a) (fset_of_list as)"
        "\<And>b. fmlookup (active_peers net') b =
         (if b \<in> set as \<and> connectable quinn b then Some peer_connect else fmlookup (fmupd a peer_connect (active_peers net)) b)"
      by auto
    then show ?thesis using connect_known_peer_cases(1) [of net a quinn] new None conn known by auto
  next
    case (Some e)
    then obtain b where e: "e = InvalidRemoteAddress b" using Cons.prems(2) by (cases e) (auto simp: refused_def)
    have conn: "\<not> connectable quinn a" using Some by (simp add: connectable_def)
    let ?net = "net\<lparr>known_peers := known_peers net |-| {|a|}\<rparr>"
    have "\<forall>b\<in>set as. fmlookup (active_peers ?net) b = None" "fset_of_list as |\<subseteq>| known_peers ?net"
      using Cons.prems by (auto simp: fset_of_list_elem)
    from Cons.IH [OF _ _ this] Cons.prems(1,2) obtain net' where
      net': "connect_known_peers quinn ?net as = (net', Inr ())"
        "known_peers net' = known_peers net |-| {|a|} |-| ffilter (\<lambda>a. \<not> connectable quinn a) (fset_of_list as)"
        "\<And>b. fmlookup (active_peers net') b =
         (if b \<in> set as \<and> connectable quinn b then Some peer_connect else fmlookup (active_peers net) b)"
      by auto
    then show ?thesis using connect_known_peer_cases(2) [of net a quinn b] new Some e conn by auto
  qed
qed

lemma connect_known_peers_refused:
  assumes "a \<in> set as" and "refused quinn a" and "distinct as" and "\<forall>a\<in>set as. fmlookup (active_peers net) a = None"
  shows "snd (connect_known_peers quinn net as) \<noteq> Inr ()"
  using assms
proof (induction as arbitrary: net)
  case Nil
  then show ?case by simp
next
  case (Cons x as)
  then have new: "fmlookup (active_peers net) x = None" by simp
  show ?case
  proof (cases "connect_known_peer quinn net x")
    case (Pair net' r)
    have "r \<noteq> Inr () \<or> a \<in> set as \<and> (\<forall>b\<in>set as. fmlookup (active_peers net') b = None)"
    proof (cases "refused quinn x")
      case True
      with connect_known_peer_cases(3) [OF new, of quinn] Pair show ?thesis by (auto simp: refused_def)
    next
      case False
      then have "a \<in> set as" using Cons.prems(1,2) by auto
      moreover have "active_peers net' = active_peers net \<or> active_peers net' = fmupd x peer_connect (active_peers net)"
      proof (cases "quinn x")
        case None
        with connect_known_peer_cases(1) [OF new, of quinn] False Pair show ?thesis by (auto simp: refused_def)
      next
        case (Some e)
        with False obtain b where "e = InvalidRemoteAddress b" by (cases e) (auto simp: refused_def)
        with Some connect_known_peer_cases(2) [OF new, of quinn b] False Pair show ?thesis by (auto simp: refused_def)
      qed
      ultimately show ?thesis using Cons.prems(3,4) by auto
    qed
    with Cons.IH [of net'] Cons.prems(2,3) Pair show ?thesis by (cases r) auto
  qed
qed

text \<open>
  Starting the table of peers: it succeeds if and only if no known address is refused, that is, unspecified or rejected by the endpoint for another reason
  than being invalid. Then invalid addresses have been dropped from the database, and every other known peer is active and connecting.
\<close>

theorem net_new_correct:
  fixes net :: "'pf net"
  assumes "net_new quinn network stored = (net, r)"
    and "known = (case stored of Some known \<Rightarrow> known | None \<Rightarrow> fset_of_list (seed_node_addrs network))"
  shows "(r = Inr () \<longleftrightarrow> \<not> fBex known (refused quinn)) \<and> (r = Inr () \<longrightarrow> known_peers net = ffilter (connectable quinn) known
    \<and> fmdom (active_peers net) = known_peers net \<and> fmpred (\<lambda>_ h. h = peer_connect) (active_peers net))"
proof -
  let ?net = "\<lparr>net_network = network, active_peers = fmempty, known_peers = known\<rparr> :: 'pf net" and ?as = "sorted_list_of_fset known"
  have run: "connect_known_peers quinn ?net ?as = (net, r)" using assms by (simp add: net_new_def Let_def)
  have as: "set ?as = fset known" "fset_of_list ?as = known" "distinct ?as"
    by (simp_all add: sorted_list_of_fset.rep_eq fset_of_list.rep_eq fset_eq_iff fset_of_list_elem)
  show ?thesis
  proof (cases "fBex known (refused quinn)")
    case True
    then obtain a where "a \<in> set ?as" "refused quinn a" using as(1) by auto
    from connect_known_peers_refused [OF this as(3), of ?net] have "r \<noteq> Inr ()" by (simp add: run)
    with True show ?thesis by simp
  next
    case False
    then have "\<forall>a\<in>set ?as. \<not> refused quinn a" using as(1) by auto
    from connect_known_peers_ok [OF as(3) this, of ?net] as(2) have r: "r = Inr ()"
      and known: "known_peers net = known |-| ffilter (\<lambda>a. \<not> connectable quinn a) known"
      and active: "fmlookup (active_peers net) a = (if a \<in> set ?as \<and> connectable quinn a then Some peer_connect else None)" for a
      unfolding run by auto
    have k: "known_peers net = ffilter (connectable quinn) known" unfolding known by auto
    moreover have "fmdom (active_peers net) = known_peers net"
      unfolding k by (rule fset_eqI) (auto simp: fmlookup_dom_iff active as(1))
    moreover have "fmpred (\<lambda>_ h. h = peer_connect) (active_peers net)"
      by (rule fmpredI) (auto simp: active split: if_splits)
    ultimately show ?thesis using False r by simp
  qed
qed

theorem net_new_correct_witness:
  "\<exists>net :: unit net. net_new (\<lambda>_. None) Signet None = (net, Inr ()) \<and> fmdom (active_peers net) = fset_of_list (seed_node_addrs Signet)"
proof -
  let ?q = "\<lambda>_. None" and ?known = "fset_of_list (seed_node_addrs Signet)"
  obtain net :: "unit net" and r where n: "net_new ?q Signet None = (net, r)" by fastforce
  have ok: "\<not> refused ?q a \<and> connectable ?q a" if "a \<in> set (seed_node_addrs Signet)" for a
    using that by (auto simp: refused_def connectable_def seed_addr_def)
  then have none: "\<not> fBex ?known (refused ?q)" and "ffilter (connectable ?q) ?known = ?known"
    by (auto simp: fset_of_list_elem simp del: seed_node_addrs.simps)
  with net_new_correct [OF n, of ?known] n show ?thesis by simp
qed

end
