(* ===== verification/Mainchain_Task.thy ===== *)
theory Mainchain_Task
  imports Node_Invariant
begin

text \<open>
  The mainchain task, \<open>lib/node/mainchain_task.rs\<close>: requests for mainchain headers, answered from the archive or with the help of the remote
  validator, whose answer to \<open>get_block_infos\<close> is an argument: the infos of a block and of ancestors of it, newest first and not empty,
  \<open>None\<close> if it does not know the block. The remote node may describe chains of any length, so the loop has fuel.
\<close>

type_synonym main_infos = "(block_header_info \<times> block_info) list"

datatype response_error = RespArchive archive_error | RespMainchain

type_synonym remote_infos =
  "main_hash \<Rightarrow> nat \<Rightarrow> (response_error, ((block_header_info \<times> block_info) \<times> main_infos) option) result"

definition BATCH_REQUEST_SIZE :: nat where
  "BATCH_REQUEST_SIZE = 1000"

primrec collect_infos ::
  "nat \<Rightarrow> ('acc, 'fr, 'pf) archive \<Rightarrow> remote_infos \<Rightarrow> main_hash \<Rightarrow> main_infos \<Rightarrow> (response_error, main_infos option) result" where
  "collect_infos 0 A remote current block_infos = Inl Diverge"
| "collect_infos (Suc fuel) A remote current block_infos =
     and_then (remote current (BATCH_REQUEST_SIZE - 1)) (\<lambda>resp.
     case resp of
       None \<Rightarrow> Inr None
     | Some (x, xs) \<Rightarrow>
         let block_infos = block_infos @ x # xs; current = prev_block_hash (fst (last (x # xs)))
         in if current = all_zeros \<or> try_get_main_header_info A current \<noteq> None then Inr (Some block_infos)
            else collect_infos fuel A remote current block_infos)"

definition store_main_info ::
  "('acc, 'fr, 'pf) archive \<Rightarrow> block_header_info \<times> block_info \<Rightarrow> ('acc, 'fr, 'pf) archive archive_result" where
  "store_main_info A x =
     and_then (put_main_header_info A (fst x)) (\<lambda>A. put_main_block_info A (info_block_hash (fst x)) (snd x))"

text \<open>The archive is written in one database transaction at the end.\<close>

definition request_ancestor_infos ::
  "nat \<Rightarrow> remote_infos \<Rightarrow> ('acc, 'fr, 'pf) archive \<Rightarrow> main_hash
    \<Rightarrow> ('acc, 'fr, 'pf) archive \<times> (response_error, bool) result" where
  "request_ancestor_infos fuel remote A m =
     (if m = all_zeros \<or> try_get_main_header_info A m \<noteq> None then (A, Inr True)
      else
        case collect_infos fuel A remote m [] of
          Inl e \<Rightarrow> (A, Inl e)
        | Inr None \<Rightarrow> (A, Inr False)
        | Inr (Some block_infos) \<Rightarrow>
            (case map_err RespArchive (fold_res store_main_info A (rev block_infos)) of
               Inl e \<Rightarrow> (A, Inl e)
             | Inr A \<Rightarrow> (A, Inr True)))"

text \<open>
  \<open>MainchainTask::run\<close>: one request of the queue. The response goes to the sender given with the request, if there is one, else to the response
  stream; an error of the task if the receiver is gone.
\<close>

datatype main_request = RequestAncestorInfos main_hash

datatype main_response = ResponseAncestorInfos main_hash "(response_error, bool) result"

fun request_of :: "main_response \<Rightarrow> main_request" where
  "request_of (ResponseAncestorInfos m r) = RequestAncestorInfos m"

datatype mainchain_error = SendResponse main_response | SendResponseOneshot main_response

record mainchain_task =
  mt_requests :: "(main_request \<times> bool option) list"
  mt_request_rx :: bool
  mt_responses :: "main_response list"
  mt_response_rx :: bool
  mt_oneshots :: "main_response list"

definition mainchain_request ::
  "mainchain_task \<Rightarrow> main_request \<Rightarrow> bool option \<Rightarrow> (main_request, mainchain_task) result" where
  "mainchain_request T req oneshot =
     (if mt_request_rx T then Inr (T\<lparr>mt_requests := mt_requests T @ [(req, oneshot)]\<rparr>) else Inl (Err req))"

fun mainchain_step ::
  "nat \<Rightarrow> remote_infos \<Rightarrow> ('acc, 'fr, 'pf) archive \<Rightarrow> mainchain_task
    \<Rightarrow> (('acc, 'fr, 'pf) archive \<times> mainchain_task) \<times> (mainchain_error, unit) result" where
  "mainchain_step fuel remote A T =
     (case mt_requests T of
        [] \<Rightarrow> ((A, T), Inr ())
      | (RequestAncestorInfos m, oneshot) # rest \<Rightarrow>
          let (A, res) = request_ancestor_infos fuel remote A m; response = ResponseAncestorInfos m res;
              T = T\<lparr>mt_requests := rest\<rparr>
          in case oneshot of
               Some listening \<Rightarrow>
                 if listening then ((A, T\<lparr>mt_oneshots := mt_oneshots T @ [response]\<rparr>), Inr ())
                 else ((A, T), Inl (Err (SendResponseOneshot response)))
             | None \<Rightarrow>
                 if mt_response_rx T then ((A, T\<lparr>mt_responses := mt_responses T @ [response]\<rparr>), Inr ())
                 else ((A, T), Inl (Err (SendResponse response))))"

section \<open>The answer of the remote validator\<close>

text \<open>
  What the task relies on: the remote validator has a database of mainchain blocks, closed under parents, in which heights count
  the blocks, and answers with a chain of its blocks that starts at the one asked for.
\<close>

definition main_blocks_ok :: "(main_hash \<Rightarrow> (block_header_info \<times> block_info) option) \<Rightarrow> bool" where
  "main_blocks_ok R \<longleftrightarrow> (\<forall>m i b. R m = Some (i, b) \<longrightarrow> m \<noteq> all_zeros \<and> info_block_hash i = m
     \<and> (prev_block_hash i = all_zeros
        \<or> (\<exists>i' b'. R (prev_block_hash i) = Some (i', b') \<and> info_height i = Suc (info_height i'))))"

fun linked :: "(main_hash \<Rightarrow> (block_header_info \<times> block_info) option) \<Rightarrow> main_hash \<Rightarrow> main_infos \<Rightarrow> bool" where
  "linked R m [] \<longleftrightarrow> True"
| "linked R m (x # xs) \<longleftrightarrow> R m = Some x \<and> linked R (prev_block_hash (fst x)) xs"

definition serves :: "remote_infos \<Rightarrow> (main_hash \<Rightarrow> (block_header_info \<times> block_info) option) \<Rightarrow> bool" where
  "serves remote R \<longleftrightarrow> main_blocks_ok R \<and>
     (\<forall>m n. case R m of None \<Rightarrow> remote m n = Inr None
        | Some _ \<Rightarrow> (\<exists>x xs. remote m n = Inr (Some (x, xs)) \<and> linked R m (x # xs)))"

lemma main_blocks_okD:
  assumes "main_blocks_ok R" and "R m = Some x"
  shows "m \<noteq> all_zeros" "info_block_hash (fst x) = m"
    "prev_block_hash (fst x) = all_zeros
      \<or> (\<exists>y. R (prev_block_hash (fst x)) = Some y \<and> info_height (fst x) = Suc (info_height (fst y)))"
proof -
  obtain i b where x: "x = (i, b)" by (cases x)
  note d = assms(1) [unfolded main_blocks_ok_def, rule_format, OF assms(2) [unfolded x]]
  show "m \<noteq> all_zeros" "info_block_hash (fst x) = m" using d x by simp_all
  show "prev_block_hash (fst x) = all_zeros
      \<or> (\<exists>y. R (prev_block_hash (fst x)) = Some y \<and> info_height (fst x) = Suc (info_height (fst y)))"
    using d x by auto
qed

lemma servesD:
  assumes "serves remote R"
  shows "R m = None \<Longrightarrow> remote m n = Inr None"
    and "R m = Some z \<Longrightarrow> \<exists>x xs. remote m n = Inr (Some (x, xs)) \<and> linked R m (x # xs)"
  using assms spec [where x = n, OF spec [where x = m, OF conjunct2 [OF assms [unfolded serves_def]]]] by simp_all

lemma linked_append:
  "linked R m (xs @ ys) \<longleftrightarrow> linked R m xs \<and> linked R (if xs = [] then m else prev_block_hash (fst (last xs))) ys"
  by (induction xs arbitrary: m) auto

lemma linked_last:
  assumes "main_blocks_ok R" and "linked R m (x # xs)"
  shows "\<exists>k. R k = Some (last (x # xs)) \<and> info_height (fst (last (x # xs))) \<le> info_height (fst x)"
  using assms(2)
proof (induction xs arbitrary: m x)
  case Nil
  then show ?case by auto
next
  case (Cons y ys)
  then have x: "R m = Some x" and y: "R (prev_block_hash (fst x)) = Some y" by auto
  from main_blocks_okD(3) [OF assms(1) x] y main_blocks_okD(1) [OF assms(1) y]
  have "info_height (fst x) = Suc (info_height (fst y))" by auto
  with Cons.IH [of "prev_block_hash (fst x)" y] Cons.prems show ?case by auto
qed

lemma collect_infos_returns:
  assumes serves: "serves remote R"
  shows "R m = Some x \<Longrightarrow> info_height (fst x) < fuel \<Longrightarrow> linked R start infos \<Longrightarrow>
      m = (if infos = [] then start else prev_block_hash (fst (last infos))) \<Longrightarrow>
    \<exists>infos'. collect_infos fuel A remote m infos = Inr (Some infos') \<and> linked R start infos' \<and> infos' \<noteq> []
      \<and> (let p = prev_block_hash (fst (last infos')) in p = all_zeros \<or> try_get_main_header_info A p \<noteq> None)"
proof (induction fuel arbitrary: m x infos)
  case 0
  then show ?case by simp
next
  case (Suc fuel)
  have ok: "main_blocks_ok R" using serves by (simp add: serves_def)
  from servesD(2) [OF serves Suc.prems(1)] obtain y ys where
    resp: "remote m (BATCH_REQUEST_SIZE - 1) = Inr (Some (y, ys))" "linked R m (y # ys)" by blast
  have "y = x" using resp(2) Suc.prems(1) by simp
  let ?infos = "infos @ y # ys" and ?p = "prev_block_hash (fst (last (y # ys)))"
  have link: "linked R start ?infos" using Suc.prems(3,4) resp(2) by (auto simp: linked_append)
  obtain k where k: "R k = Some (last (y # ys))" "info_height (fst (last (y # ys))) \<le> info_height (fst x)"
    using linked_last [OF ok resp(2)] \<open>y = x\<close> by blast
  show ?case
  proof (cases "?p = all_zeros \<or> try_get_main_header_info A ?p \<noteq> None")
    case True
    with resp(1) link show ?thesis by (intro exI [of _ ?infos]) (auto simp: Let_def)
  next
    case False
    with main_blocks_okD(3) [OF ok k(1)] obtain z where
      z: "R ?p = Some z" "info_height (fst (last (y # ys))) = Suc (info_height (fst z))" by auto
    have "info_height (fst z) < fuel" using z(2) k(2) Suc.prems(2) by simp
    from Suc.IH [OF z(1) this link] obtain infos' where
      "collect_infos fuel A remote ?p ?infos = Inr (Some infos')" "linked R start infos'" "infos' \<noteq> []"
      "let p = prev_block_hash (fst (last infos')) in p = all_zeros \<or> try_get_main_header_info A p \<noteq> None"
      by auto
    with resp(1) False show ?thesis by (auto simp: Let_def)
  qed
qed

section \<open>Storing the chain\<close>

definition agrees :: "('acc, 'fr, 'pf) archive \<Rightarrow> (main_hash \<Rightarrow> (block_header_info \<times> block_info) option) \<Rightarrow> bool" where
  "agrees A R \<longleftrightarrow> (\<forall>m i x. fmlookup (main_header_infos A) m = Some i \<longrightarrow> R m = Some x \<longrightarrow> i = fst x)"

lemma put_main_block_info_frame:
  assumes "put_main_block_info A m b = Inr A'"
  shows "main_header_infos A' = main_header_infos A" "main_successors A' = main_successors A"
    "main_block_hash_to_height A' = main_block_hash_to_height A"
    "exponential_main_ancestors A' = exponential_main_ancestors A" "total_work A' = total_work A"
    "headers A' = headers A" "successors A' = successors A"
    "block_hash_to_height A' = block_hash_to_height A" "exponential_ancestors A' = exponential_ancestors A"
proof -
  let ?B = "A\<lparr>main_block_infos := fmupd m b (main_block_infos A)\<rparr>"
  from assms have "main_header_infos A' = main_header_infos ?B \<and> main_successors A' = main_successors ?B
    \<and> main_block_hash_to_height A' = main_block_hash_to_height ?B
    \<and> exponential_main_ancestors A' = exponential_main_ancestors ?B \<and> total_work A' = total_work ?B
    \<and> headers A' = headers ?B \<and> successors A' = successors ?B
    \<and> block_hash_to_height A' = block_hash_to_height ?B \<and> exponential_ancestors A' = exponential_ancestors ?B"
    unfolding put_main_block_info_def Let_def and_then_eq_Inr
    by (cases "bmm_commitment b"; cases "try_get_header ?B (the (bmm_commitment b))") (auto simp: map_ok_eq_Inr)
  then show "main_header_infos A' = main_header_infos A" "main_successors A' = main_successors A"
    "main_block_hash_to_height A' = main_block_hash_to_height A"
    "exponential_main_ancestors A' = exponential_main_ancestors A" "total_work A' = total_work A"
    "headers A' = headers A" "successors A' = successors A"
    "block_hash_to_height A' = block_hash_to_height A" "exponential_ancestors A' = exponential_ancestors A"
    by simp_all
qed

lemma store_main_info_inv:
  assumes ok: "main_blocks_ok R" and A: "archive_inv A" "agrees A R" and x: "R m = Some x"
    and run: "store_main_info A x = Inr A'"
  shows "archive_inv A'" "agrees A' R" "main_known A' = insert m (main_known A)" "headers A' = headers A"
proof -
  note d = main_blocks_okD [OF ok x]
  from run obtain B where B: "put_main_header_info A (fst x) = Inr B"
      "put_main_block_info B (info_block_hash (fst x)) (snd x) = Inr A'"
    by (auto simp: store_main_info_def result_simps)
  note f = put_main_block_info_frame [OF B(2)]
  have "i' = fst x" if "fmlookup (main_header_infos A) (info_block_hash (fst x)) = Some i'" for i'
    using A(2) that x d(2) by (cases x) (simp add: agrees_def)
  note inv = put_main_header_info_inv [OF A(1) B(1) _ this]
  have B': "archive_inv B" "main_known B = insert m (main_known A)" "headers B = headers A"
    "main_header_infos B = fmupd m (fst x) (main_header_infos A)"
    using inv d(1,2) by simp_all
  show "archive_inv A'" using B'(1) archive_frame [OF f] by simp
  show "main_known A' = insert m (main_known A)" using B'(2) f(1) by (simp add: main_known_def)
  show "headers A' = headers A" using B'(3) f(6) by simp
  show "agrees A' R" using A(2) x f(1) by (auto simp: agrees_def B'(4))
qed

lemma store_chain_inv:
  assumes ok: "main_blocks_ok R"
  shows "archive_inv A \<Longrightarrow> agrees A R \<Longrightarrow> linked R m infos \<Longrightarrow> fold_res store_main_info A (rev infos) = Inr A' \<Longrightarrow>
    archive_inv A' \<and> agrees A' R \<and> main_known A' = info_block_hash ` fst ` set infos \<union> main_known A \<and> headers A' = headers A"
proof (induction infos arbitrary: m A')
  case Nil
  then show ?case by simp
next
  case (Cons x infos)
  then have x: "R m = Some x" "info_block_hash (fst x) = m" using main_blocks_okD(2) [OF ok] by auto
  from Cons.prems(4) obtain B where B: "fold_res store_main_info A (rev infos) = Inr B" "store_main_info B x = Inr A'"
    by (auto simp: fold_res_append result_simps)
  from Cons.IH [OF Cons.prems(1,2) _ B(1)] Cons.prems(3)
  have "archive_inv B" "agrees B R" "main_known B = info_block_hash ` fst ` set infos \<union> main_known A" "headers B = headers A"
    by auto
  with store_main_info_inv [OF ok _ _ x(1) B(2)] x(2) show ?case by auto
qed

section \<open>The chain can be stored\<close>

text \<open>
  Every stored mainchain header has the block info that the validator gives, and every mainchain block that verified a block of the side
  chain is stored: both hold of an empty archive, and the task keeps them.
\<close>

definition infos_stored ::
  "('acc, 'fr, 'pf) archive \<Rightarrow> (main_hash \<Rightarrow> (block_header_info \<times> block_info) option) \<Rightarrow> bool" where
  "infos_stored A R \<longleftrightarrow> (\<forall>k. fmlookup (main_header_infos A) k \<noteq> None \<longrightarrow>
     (\<exists>b. fmlookup (main_block_infos A) k = Some b \<and> (\<forall>x. R k = Some x \<longrightarrow> b = snd x)))"

definition bmm_known :: "('acc, 'fr, 'pf) archive \<Rightarrow> bool" where
  "bmm_known A \<longleftrightarrow> (\<forall>b m. (m, BmmVerified) \<in> set (get_bmm_results A b) \<longrightarrow> m \<in> main_known A)"

text \<open>The numbers of the mainchain fit their types: heights are \<open>u32\<close>, and \<open>tw\<close>, the total work, is a 256 bit number.\<close>

definition main_fits ::
  "(main_hash \<Rightarrow> (block_header_info \<times> block_info) option) \<Rightarrow> (main_hash \<Rightarrow> nat) \<Rightarrow> bool" where
  "main_fits R tw \<longleftrightarrow> (\<forall>m i b. R m = Some (i, b) \<longrightarrow> Suc (info_height i) < 2 ^ 32 \<and> tw m < 2 ^ 256
     \<and> tw m = (if prev_block_hash i = all_zeros then 0 else tw (prev_block_hash i)) + work i)"

lemma main_fitsD:
  assumes "main_fits R tw" and "R m = Some x"
  shows "Suc (info_height (fst x)) < 2 ^ 32" "tw m < 2 ^ 256"
    "tw m = (if prev_block_hash (fst x) = all_zeros then 0 else tw (prev_block_hash (fst x))) + work (fst x)"
proof -
  obtain i b where x: "x = (i, b)" by (cases x)
  note d = assms(1) [unfolded main_fits_def, rule_format, OF assms(2) [unfolded x]]
  then show "Suc (info_height (fst x)) < 2 ^ 32" "tw m < 2 ^ 256"
    "tw m = (if prev_block_hash (fst x) = all_zeros then 0 else tw (prev_block_hash (fst x))) + work (fst x)"
    using x by simp_all
qed

lemma known_header:
  assumes "agrees A R" and "m \<in> main_known A" "m \<noteq> all_zeros" "R m = Some x"
  shows "fmlookup (main_header_infos A) m = Some (fst x)"
  using assms by (cases x) (auto simp: agrees_def main_known_iff)

text \<open>A stored block of the validator has at most the height that the validator counts, and its total work.\<close>

lemma stored_numbers:
  assumes inv: "archive_inv A" and agrees: "agrees A R" and ok: "main_blocks_ok R" and fits: "main_fits R tw"
  shows "R m = Some x \<Longrightarrow> m \<in> main_known A \<Longrightarrow>
    (\<exists>h. try_get_main_height A m = Some h \<and> h \<le> Suc (info_height (fst x))) \<and> fmlookup (total_work A) m = Some (tw m)"
proof (induction "info_height (fst x)" arbitrary: m x rule: less_induct)
  case less
  let ?p = "prev_block_hash (fst x)"
  note m = main_blocks_okD [OF ok less.prems(1)]
  note hdr = known_header [OF agrees less.prems(2) m(1) less.prems(1)]
  have par: "main_parent A m = Some ?p" using hdr m(1) by (simp add: main_parent_def)
  have p: "?p \<in> main_known A" by (rule index_ok_closed [OF main_index_ok [OF inv] less.prems(2) par])
  have work: "fmlookup (total_work A) m =
      (if ?p = all_zeros then Some (work (fst x)) else map_option (\<lambda>w. w + work (fst x)) (fmlookup (total_work A) ?p))"
    using inv hdr by (simp add: archive_inv_def total_work_ok_def)
  note height = main.parent_height [OF main_index_ok [OF inv] less.prems(2) par]
  note fit = main_fitsD(3) [OF fits less.prems(1)]
  show ?case
  proof (cases "?p = all_zeros")
    case True
    then have "try_get_main_height A ?p = Some 0" by (simp add: try_get_main_height_def)
    with height fit work True show ?thesis by simp
  next
    case False
    with m(3) obtain y where y: "R ?p = Some y" "info_height (fst x) = Suc (info_height (fst y))" by blast
    from less.hyps [OF _ y(1) p] y(2) obtain h where
      "try_get_main_height A ?p = Some h" "h \<le> Suc (info_height (fst y))" "fmlookup (total_work A) ?p = Some (tw ?p)" by auto
    with height fit work False y(2) show ?thesis by simp
  qed
qed

lemma put_main_header_info_total:
  assumes inv: "archive_inv A" and p: "prev_block_hash i \<in> main_known A"
    and hp: "try_get_main_height A (prev_block_hash i) = Some hp" "Suc hp < 2 ^ 32"
    and tw: "prev_block_hash i \<noteq> all_zeros \<longrightarrow>
      (\<exists>w. fmlookup (total_work A) (prev_block_hash i) = Some w \<and> w + work i < 2 ^ 256)"
    and b: "info_block_hash i \<noteq> all_zeros"
    and nocoll: "\<And>i'. fmlookup (main_header_infos A) (info_block_hash i) = Some i' \<Longrightarrow> i' = i"
  shows "\<exists>A'. put_main_header_info A i = Inr A'"
proof -
  let ?m = "info_block_hash i" and ?p = "prev_block_hash i"
  have "\<exists>w. (if ?p \<noteq> all_zeros then and_then (get_total_work A ?p) (\<lambda>v. add_work v (work i)) else Inr (work i))
      = (Inr w :: nat archive_result)"
    using tw by (cases "?p = all_zeros")
      (auto simp: get_total_work_def try_get_total_work_def add_work_def checked_add_def expect_def ok_or_def)
  then obtain w where w: "(if ?p \<noteq> all_zeros then and_then (get_total_work A ?p) (\<lambda>v. add_work v (work i)) else Inr (work i))
      = (Inr w :: nat archive_result)" ..
  obtain preds where preds: "fmlookup (main_successors A) ?p = Some preds"
  proof -
    have "fmdom' (main_successors A) = main_known A" using inv by (simp add: archive_inv_def main_successors_ok_def succ_ok_def)
    with p have "?p \<in> fmdom' (main_successors A)" by simp
    then show thesis using that by (auto simp: fmlookup_dom'_iff)
  qed
  let ?B = "A\<lparr>main_block_hash_to_height := fmupd ?m (Suc hp) (main_block_hash_to_height A),
      main_header_infos := fmupd ?m i (main_header_infos A), total_work := fmupd ?m w (total_work A),
      main_successors := link_successor ?p ?m ?m preds (main_successors A)\<rparr>"
  obtain xs where "exponential_ancestors_of (get_nth_main_ancestor ?B) (Suc hp) (Some ?p) = Inr xs"
    by (rule main_exponential_put [OF inv hp b nocoll, of ?B]) auto
  with w preds hp p show ?thesis
    by (auto simp: put_main_header_info_def Let_def get_main_height_def add_u32_def checked_add_def expect_def ok_or_def
        get_main_successors_def try_get_main_successors_def main_known_iff try_get_main_header_info_def)
qed

lemma any_res_total: "\<forall>x\<in>set xs. \<exists>b. f x = Inr b \<Longrightarrow> \<exists>b. any_res f xs = Inr b"
  by (induction xs) auto

lemma parent_verified_total:
  assumes "archive_inv A" and "bmm_known A" and "m \<in> main_known A"
  shows "\<exists>v. parent_verified_in A (get_bmm_results A b) m = Inr v"
  unfolding parent_verified_in_def
proof (rule any_res_total, rule ballI)
  fix y
  assume "y \<in> set (get_bmm_results A b)"
  moreover obtain c r where y: "y = (c, r)" by (cases y)
  ultimately have "c \<in> main_known A" if "r = BmmVerified" using assms(2) that by (auto simp: bmm_known_def)
  with is_main_descendant_correct [OF assms(1) _ assms(3)] y
  show "\<exists>v. (case y of (bmm_block, bmm_result) \<Rightarrow>
      if bmm_result = BmmVerified then is_main_descendant A bmm_block m else Inr False) = Inr v" by auto
qed

lemma put_main_block_info_total:
  assumes inv: "archive_inv A" and bmm: "bmm_known A" and m: "fmlookup (main_header_infos A) m = Some i"
    and p: "prev_block_hash i = all_zeros \<or> fmlookup (main_block_infos A) (prev_block_hash i) \<noteq> None"
  shows "\<exists>A'. put_main_block_info A m b = Inr A' \<and> main_block_infos A' = fmupd m b (main_block_infos A) \<and> bmm_known A'"
proof -
  let ?A = "A\<lparr>main_block_infos := fmupd m b (main_block_infos A)\<rparr>"
  have known: "m \<in> main_known A" using m by (simp add: main_known_iff)
  have inv': "archive_inv ?A" using inv archive_frame [of ?A A] by simp
  have bmm': "bmm_known ?A" "m \<in> main_known ?A" using bmm known by (simp_all add: bmm_known_def get_bmm_results_def main_known_def)
  have upd: "bmm_known (?A\<lparr>bmm_results := fmupd c (AList.update m r (get_bmm_results ?A c)) (bmm_results ?A)\<rparr>)" (is "bmm_known ?U") for c r
    unfolding bmm_known_def
  proof (intro allI impI)
    fix b' k
    assume k: "(k, BmmVerified) \<in> set (get_bmm_results ?U b')"
    have "get_bmm_results ?U b' = (if b' = c then AList.update m r (get_bmm_results A c) else get_bmm_results A b')"
      by (simp add: get_bmm_results_def)
    with k have "k = m \<or> (k, BmmVerified) \<in> set (get_bmm_results A b')"
      using set_update_cases [of k BmmVerified m r] by (auto split: if_splits)
    with bmm known have "k \<in> main_known A" by (auto simp: bmm_known_def)
    then show "k \<in> main_known ?U" by (simp add: main_known_def)
  qed
  have start: "get_main_header_info A m = Inr i"
      "(if prev_block_hash i \<noteq> all_zeros then map_ok (\<lambda>_. ()) (get_main_block_info A (prev_block_hash i)) else Inr ()) = Inr ()"
    using m p by (auto simp: get_main_header_info_def try_get_main_header_info_def get_main_block_info_def
        try_get_main_block_info_def ok_or_def)
  show ?thesis
  proof (cases "bmm_commitment b")
    case None
    with start bmm' show ?thesis by (simp add: put_main_block_info_def)
  next
    case (Some c)
    show ?thesis
    proof (cases "try_get_header ?A c")
      case None
      with start Some bmm' show ?thesis by (simp add: put_main_block_info_def)
    next
      case h: (Some h)
      have "\<exists>r. (if prev_main_hash h \<noteq> prev_block_hash i then Inr BmmFailed
          else case prev_side_hash h of
            Some parent \<Rightarrow> map_ok (\<lambda>v. if v then BmmVerified else BmmFailed) (parent_verified_in ?A (get_bmm_results ?A parent) m)
          | None \<Rightarrow> Inr BmmVerified) = (Inr r :: bmm_result archive_result)"
      proof (cases "prev_side_hash h")
        case (Some b')
        obtain v where "parent_verified_in ?A (get_bmm_results ?A b') m = Inr v"
          using parent_verified_total [OF inv' bmm'] by blast
        with Some show ?thesis by simp
      qed simp
      then obtain r where "(if prev_main_hash h \<noteq> prev_block_hash i then Inr BmmFailed
          else case prev_side_hash h of
            Some parent \<Rightarrow> map_ok (\<lambda>v. if v then BmmVerified else BmmFailed) (parent_verified_in ?A (get_bmm_results ?A parent) m)
          | None \<Rightarrow> Inr BmmVerified) = (Inr r :: bmm_result archive_result)" ..
      with start Some h upd show ?thesis by (simp add: put_main_block_info_def Let_def)
    qed
  qed
qed

lemma store_main_info_total:
  assumes ok: "main_blocks_ok R" and fits: "main_fits R tw" and A: "archive_inv A" "agrees A R" "infos_stored A R" "bmm_known A"
    and x: "R m = Some x" and p: "prev_block_hash (fst x) \<in> main_known A"
  shows "\<exists>A'. store_main_info A x = Inr A' \<and> infos_stored A' R \<and> bmm_known A'"
proof -
  let ?i = "fst x" and ?p = "prev_block_hash (fst x)"
  note d = main_blocks_okD [OF ok x]
  have nocoll: "i' = ?i" if "fmlookup (main_header_infos A) (info_block_hash ?i) = Some i'" for i'
    using A(2) that x d(2) by (cases x) (simp add: agrees_def)
  have "\<exists>hp. try_get_main_height A ?p = Some hp \<and> Suc hp < 2 ^ 32
      \<and> (?p \<noteq> all_zeros \<longrightarrow> (\<exists>w. fmlookup (total_work A) ?p = Some w \<and> w + work ?i < 2 ^ 256))"
  proof (cases "?p = all_zeros")
    case True
    then show ?thesis by (simp add: try_get_main_height_def)
  next
    case False
    with d(3) obtain y where y: "R ?p = Some y" "info_height ?i = Suc (info_height (fst y))" by blast
    from stored_numbers [OF A(1,2) ok fits y(1) p] main_fitsD [OF fits x] y(2) False show ?thesis by force
  qed
  then obtain hp where hp: "try_get_main_height A ?p = Some hp" "Suc hp < 2 ^ 32"
    and tw: "?p \<noteq> all_zeros \<longrightarrow> (\<exists>w. fmlookup (total_work A) ?p = Some w \<and> w + work ?i < 2 ^ 256)" by blast
  have b: "info_block_hash ?i \<noteq> all_zeros" using d by simp
  obtain B where B: "put_main_header_info A ?i = Inr B"
    using put_main_header_info_total [OF A(1) p hp tw b nocoll] by blast
  note invB = put_main_header_info_inv [OF A(1) B b nocoll]
  have same: "main_block_infos B = main_block_infos A" "bmm_results B = bmm_results A"
    using B by (auto elim: put_main_header_info_Inr)
  have bmmB: "bmm_known B" using A(4) invB(2) by (simp add: bmm_known_def get_bmm_results_def same)
  have "?p = all_zeros \<or> fmlookup (main_block_infos B) ?p \<noteq> None"
    using p A(3) by (auto simp: main_known_iff infos_stored_def same)
  with put_main_block_info_total [OF invB(1) bmmB, of "info_block_hash ?i" ?i "snd x"] invB(4) obtain A' where
    A': "put_main_block_info B (info_block_hash ?i) (snd x) = Inr A'"
      "main_block_infos A' = fmupd (info_block_hash ?i) (snd x) (main_block_infos B)" "bmm_known A'" by auto
  have "infos_stored A' R"
    using A(3) x d(2) put_main_block_info_frame(1) [OF A'(1)]
    by (auto simp: infos_stored_def invB(4) A'(2) same)
  with B A' show ?thesis by (simp add: store_main_info_def)
qed

lemma store_chain_total:
  assumes ok: "main_blocks_ok R" and fits: "main_fits R tw" and A: "archive_inv A" "agrees A R" "infos_stored A R" "bmm_known A"
  shows "linked R m infos \<Longrightarrow> infos \<noteq> [] \<Longrightarrow> prev_block_hash (fst (last infos)) \<in> main_known A \<Longrightarrow>
    \<exists>A'. fold_res store_main_info A (rev infos) = Inr A' \<and> infos_stored A' R \<and> bmm_known A'"
proof (induction infos arbitrary: m)
  case (Cons x infos)
  from Cons.prems(1) have x: "R m = Some x" "linked R (prev_block_hash (fst x)) infos" by auto
  have "\<exists>B. fold_res store_main_info A (rev infos) = Inr B \<and> infos_stored B R \<and> bmm_known B
      \<and> archive_inv B \<and> agrees B R \<and> prev_block_hash (fst x) \<in> main_known B"
  proof (cases "infos = []")
    case True
    with A Cons.prems(3) show ?thesis by simp
  next
    case False
    with Cons.IH [OF x(2)] Cons.prems(3) obtain B where
      B: "fold_res store_main_info A (rev infos) = Inr B" "infos_stored B R" "bmm_known B" by auto
    from False x(2) main_blocks_okD(2) [OF ok] have "prev_block_hash (fst x) \<in> info_block_hash ` fst ` set infos"
      by (cases infos) auto
    with store_chain_inv [OF ok A(1,2) x(2) B(1)] B show ?thesis by auto
  qed
  then obtain B where B: "fold_res store_main_info A (rev infos) = Inr B" "infos_stored B R" "bmm_known B"
    "archive_inv B" "agrees B R" "prev_block_hash (fst x) \<in> main_known B" by blast
  from store_main_info_total [OF ok fits B(4,5,2,3) x(1) B(6)] B(1) show ?case by (auto simp: fold_res_append)
qed simp

text \<open>
  C9. The mainchain task on an honest validator, whose heights and work fit their types: with fuel beyond the height of the block a
  request always ends with an answer, which is yes exactly if the block is known to the archive or to the validator. Then the block
  and its chain are stored with the infos of the validator, parents before children; otherwise the archive is unchanged. The invariants
  that this rests on hold afterwards, and nothing that was stored is lost.
\<close>

theorem request_ancestor_infos_correct:
  assumes inv: "archive_inv A" and agrees: "agrees A R" and stored: "infos_stored A R" and bmm: "bmm_known A"
    and serves: "serves remote R" and fits: "main_fits R tw"
    and fuel: "0 < fuel" "\<forall>x. R m = Some x \<longrightarrow> info_height (fst x) < fuel"
  shows "\<exists>A'. request_ancestor_infos fuel remote A m = (A', Inr (m \<in> main_known A \<or> R m \<noteq> None))
    \<and> archive_inv A' \<and> agrees A' R \<and> infos_stored A' R \<and> bmm_known A' \<and> main_known A \<subseteq> main_known A'
    \<and> (if m \<in> main_known A \<or> R m \<noteq> None then m \<in> main_known A' else A' = A)"
proof (cases "m \<in> main_known A")
  case True
  then have "request_ancestor_infos fuel remote A m = (A, Inr True)"
    by (auto simp: request_ancestor_infos_def main_known_iff try_get_main_header_info_def)
  with True assms show ?thesis by simp
next
  case new: False
  then have m: "m \<noteq> all_zeros" "try_get_main_header_info A m = None"
    by (auto simp: main_known_iff try_get_main_header_info_def)
  have ok: "main_blocks_ok R" using serves by (simp add: serves_def)
  show ?thesis
  proof (cases "R m")
    case None
    then have "remote m (BATCH_REQUEST_SIZE - 1) = Inr None" by (rule servesD(1) [OF serves])
    moreover obtain n where "fuel = Suc n" using fuel(1) by (cases fuel) auto
    ultimately have "request_ancestor_infos fuel remote A m = (A, Inr False)" using m by (simp add: request_ancestor_infos_def)
    with None new assms show ?thesis by simp
  next
    case (Some x)
    with collect_infos_returns [OF serves Some, of fuel m "[]" A] fuel obtain infos where
      infos: "collect_infos fuel A remote m [] = Inr (Some infos)" "linked R m infos" "infos \<noteq> []"
        "prev_block_hash (fst (last infos)) = all_zeros \<or> try_get_main_header_info A (prev_block_hash (fst (last infos))) \<noteq> None"
      by (auto simp: Let_def)
    from infos(4) have "prev_block_hash (fst (last infos)) \<in> main_known A"
      by (auto simp: main_known_iff try_get_main_header_info_def)
    from store_chain_total [OF ok fits inv agrees stored bmm infos(2,3) this] obtain B where
      B: "fold_res store_main_info A (rev infos) = Inr B" "infos_stored B R" "bmm_known B" by blast
    from infos(2,3) main_blocks_okD(2) [OF ok] have "m \<in> info_block_hash ` fst ` set infos" by (cases infos) auto
    with store_chain_inv [OF ok inv agrees infos(2) B(1)] B Some m infos(1) show ?thesis
      by (auto simp: request_ancestor_infos_def)
  qed
qed

definition example_remote_infos :: "block_header_info \<times> block_info" where
  "example_remote_infos = (example_main_info 1 0, \<lparr>bmm_commitment = None, events = []\<rparr>)"

theorem request_ancestor_infos_correct_witness:
  "\<exists>A. request_ancestor_infos (Suc 1) (\<lambda>m n. Inr (if m = MainHash 1 then Some (example_remote_infos, []) else None)) example_archive
      (MainHash 1) = (A, Inr True) \<and> archive_inv A \<and> MainHash 1 \<in> main_known A"
proof -
  let ?R = "\<lambda>m. if m = MainHash 1 then Some example_remote_infos else None"
  let ?remote = "\<lambda>m n. Inr (if m = MainHash 1 then Some (example_remote_infos, []) else None)"
  have serves: "serves ?remote ?R"
    by (auto simp: serves_def main_blocks_ok_def example_remote_infos_def example_main_info_def all_zeros_def)
  have "main_fits ?R (\<lambda>_. work (fst example_remote_infos))"
    by (auto simp: main_fits_def example_remote_infos_def example_main_info_def all_zeros_def)
  moreover have "agrees example_archive ?R" "infos_stored example_archive ?R" "bmm_known example_archive"
    by (simp_all add: agrees_def infos_stored_def bmm_known_def get_bmm_results_def example_archive_def empty_archive_def)
  ultimately show ?thesis
    using request_ancestor_infos_correct [OF example_archive_inv _ _ _ serves, of _ "Suc 1" "MainHash 1"]
    by (auto simp: example_remote_infos_def example_main_info_def)
qed

end
