(* ===== verification/Net_Task.thy ===== *)
theory Net_Task
  imports Net Mainchain_Task
begin

text \<open>
  The net task, \<open>lib/node/net_task.rs\<close>: responses of peers (\<open>handle_response\<close>) and the mailbox loop (\<open>run\<close>).

  Queues are lists, oldest first. The receivers of the queues for forwarded requests and for ready tips belong to the task, so sending on them does not fail;
  the receiver of a oneshot may be gone. Rust iterates hash maps and hash sets in an unspecified order: here descendant tips and
  the sources of a request are iterated in the order of their insertion.
\<close>

record ('acc, 'fr, 'pf) net_task =
  nt_dbs :: "('acc, 'fr, 'pf) node_dbs"
  nt_net :: "'pf net"
  nt_mainchain :: mainchain_task
  nt_forward_requests :: "(main_request \<times> socket_addr \<times> peer_state_id) list"
  nt_new_tips :: "(tip \<times> socket_addr option \<times> bool option) list"
  nt_reorg_results :: "bool list"
  nt_descendant_tips :: "(block_hash, (tip \<times> socket_addr list) list) fmap"
  nt_request_sources :: "(main_request, (socket_addr \<times> peer_state_id) list) fmap"
  nt_reconnects :: "socket_addr list"

definition set_insert :: "'a \<Rightarrow> 'a list \<Rightarrow> 'a list" where
  "set_insert x xs = (if x \<in> set xs then xs else xs @ [x])"

definition entry_or_default :: "('k \<Rightarrow> 'v list option) \<Rightarrow> 'k \<Rightarrow> 'v list" where
  "entry_or_default m k = (case m k of Some v \<Rightarrow> v | None \<Rightarrow> [])"

definition add_descendant_tip ::
  "block_hash \<Rightarrow> tip \<Rightarrow> socket_addr list \<Rightarrow> ('acc, 'fr, 'pf) net_task \<Rightarrow> ('acc, 'fr, 'pf) net_task" where
  "add_descendant_tip b tip sources T =
     (let tips = entry_or_default (fmlookup (nt_descendant_tips T)) b;
          tips = AList.update tip (fold set_insert sources (entry_or_default (map_of tips) tip)) tips
      in T\<lparr>nt_descendant_tips := fmupd b tips (nt_descendant_tips T)\<rparr>)"

definition send_new_tip ::
  "tip \<Rightarrow> socket_addr option \<Rightarrow> bool option \<Rightarrow> ('acc, 'fr, 'pf) net_task \<Rightarrow> ('acc, 'fr, 'pf) net_task" where
  "send_new_tip tip addr resp T = T\<lparr>nt_new_tips := nt_new_tips T @ [(tip, addr, resp)]\<rparr>"

definition set_archive ::
  "('acc, 'fr, 'pf) archive \<Rightarrow> ('acc, 'fr, 'pf) net_task \<Rightarrow> ('acc, 'fr, 'pf) net_task" where
  "set_archive A T = T\<lparr>nt_dbs := (nt_dbs T)\<lparr>nd_archive := A\<rparr>\<rparr>"

abbreviation nt_archive :: "('acc, 'fr, 'pf) net_task \<Rightarrow> ('acc, 'fr, 'pf) archive" where
  "nt_archive T \<equiv> nd_archive (nt_dbs T)"

definition invalid_response ::
  "('acc, 'fr, 'pf) net_task \<Rightarrow> socket_addr \<Rightarrow> ('acc, 'fr, 'pf) net_task \<times> unit net_task_result" where
  "invalid_response T addr = (T\<lparr>nt_net := remove_active_peer (nt_net T) addr\<rparr>, Inr ())"

definition push_message ::
  "('acc, 'fr, 'pf) net_task \<Rightarrow> 'pf internal_message \<Rightarrow> socket_addr \<Rightarrow> ('acc, 'fr, 'pf) net_task" where
  "push_message T message addr = T\<lparr>nt_net := fst (push_internal_message (nt_net T) message addr)\<rparr>"

section \<open>A block arrives\<close>

definition height_after :: "('acc, 'fr, 'pf) archive \<Rightarrow> block_hash option \<Rightarrow> nat archive_result" where
  "height_after A ancestor =
     (case ancestor of None \<Rightarrow> Inr 0 | Some b \<Rightarrow> and_then (get_height A b) (\<lambda>height. add_u32 height 1))"

definition earliest_missing_body ::
  "('acc, 'fr, 'pf) archive \<Rightarrow> block_hash \<Rightarrow> block_hash option \<Rightarrow> block_hash option archive_result" where
  "earliest_missing_body A b ancestor =
     and_then (height_after A ancestor) (\<lambda>start_height.
     map_ok (\<lambda>bs. case bs of [] \<Rightarrow> None | b # _ \<Rightarrow> Some b) (iter_missing_bodies A b start_height 1))"

definition notify_bodies ::
  "('acc, 'fr, 'pf) net_task \<Rightarrow> socket_addr \<Rightarrow> block_hash \<Rightarrow> block_hash option \<Rightarrow> tip \<Rightarrow> peer_state_id
    \<Rightarrow> ('acc, 'fr, 'pf) net_task \<times> unit net_task_result" where
  "notify_bodies T addr b ancestor tip psid =
     (case earliest_missing_body (nt_archive T) b ancestor of
        Inl e \<Rightarrow> (T, map_err NtArchive (Inl e))
      | Inr (Some missing) \<Rightarrow> (add_descendant_tip missing tip [addr] T, Inr ())
      | Inr None \<Rightarrow> (push_message T (BodiesAvailable psid) addr, Inr ()))"

text \<open>The BMM verification of the block that is an ancestor of the mainchain block of the descendant tip; \<open>unwrap\<close> if there is none.\<close>

definition block_tip_of ::
  "('acc, 'fr, 'pf) archive \<Rightarrow> block_hash \<Rightarrow> tip \<Rightarrow> tip archive_result" where
  "block_tip_of A b tip =
     and_then (find_res (\<lambda>(m, bmm_result).
         if bmm_result = BmmVerified then is_main_descendant A m (tip_main_block_hash tip) else Inr False)
       (get_bmm_results A b)) (\<lambda>found.
     and_then (expect found) (\<lambda>(m, _). Inr \<lparr>tip_block_hash = b, tip_main_block_hash = m\<rparr>))"

definition best_tip_at :: "('acc, 'fr, 'pf) archive \<Rightarrow> block_hash \<Rightarrow> tip archive_result" where
  "best_tip_at A b =
     map_ok (\<lambda>m. \<lparr>tip_block_hash = b, tip_main_block_hash = m\<rparr>) (get_best_main_verification A b)"

text \<open>
  One descendant tip that waited for the block: the earliest body that is still missing between it and the current tip, and the tip that
  can be applied already, if it is better than the current one.
\<close>

definition next_tip_of ::
  "('acc, 'fr, 'pf) archive \<Rightarrow> tip option \<Rightarrow> tip \<Rightarrow> (block_hash option \<times> tip option) archive_result" where
  "next_tip_of A tip descendant =
     and_then
       (case tip of None \<Rightarrow> Inr None
        | Some tip \<Rightarrow> last_common_ancestor A (tip_block_hash descendant) (tip_block_hash tip)) (\<lambda>common_ancestor.
     and_then (earliest_missing_body A (tip_block_hash descendant) common_ancestor) (\<lambda>missing.
     case missing of
       None \<Rightarrow> Inr (None, Some descendant)
     | Some missing_body \<Rightarrow>
         and_then (get_header A missing_body) (\<lambda>header.
         case prev_side_hash header of
           None \<Rightarrow> Inr (missing, None)
         | Some parent \<Rightarrow> map_ok (\<lambda>t. (missing, Some t)) (best_tip_at A parent))))"

definition better_than :: "('acc, 'fr, 'pf) archive \<Rightarrow> tip option \<Rightarrow> tip \<Rightarrow> bool archive_result" where
  "better_than A tip next_tip =
     (case tip of None \<Rightarrow> Inr True
      | Some tip \<Rightarrow> map_ok (\<lambda>better. better = Some next_tip) (better_tip A tip next_tip))"

definition apply_descendant_tip ::
  "tip option \<Rightarrow> ('acc, 'fr, 'pf) net_task \<Rightarrow> tip \<times> socket_addr list
    \<Rightarrow> ('acc, 'fr, 'pf) net_task \<times> unit net_task_result" where
  "apply_descendant_tip tip T x =
     (case x of (descendant, sources) \<Rightarrow>
        then_do (T, map_err NtArchive (next_tip_of (nt_archive T) tip descendant)) (\<lambda>T (missing, next_tip).
        let T = (case missing of None \<Rightarrow> T | Some b \<Rightarrow> add_descendant_tip b descendant sources T)
        in case next_tip of
             None \<Rightarrow> (T, Inr ())
           | Some next_tip \<Rightarrow>
               then_do (T, map_err NtArchive (better_than (nt_archive T) tip next_tip)) (\<lambda>T better.
               (if better then fold (\<lambda>addr. send_new_tip next_tip (Some addr) None) sources T else T, Inr ()))))"

primrec apply_descendant_tips ::
  "tip option \<Rightarrow> ('acc, 'fr, 'pf) net_task \<Rightarrow> (tip \<times> socket_addr list) list
    \<Rightarrow> ('acc, 'fr, 'pf) net_task \<times> unit net_task_result" where
  "apply_descendant_tips tip T [] = (T, Inr ())"
| "apply_descendant_tips tip T (x # xs) = then_do (apply_descendant_tip tip T x) (\<lambda>T _. apply_descendant_tips tip T xs)"

definition check_new_tips ::
  "('acc, 'fr, 'pf) net_task \<Rightarrow> socket_addr \<Rightarrow> header \<Rightarrow> block_hash \<Rightarrow> tip \<Rightarrow> ('acc, 'fr, 'pf) net_task \<times> unit net_task_result" where
  "check_new_tips T addr header b descendant =
     then_do (T, current_tip (nt_dbs T)) (\<lambda>T tip.
     then_do (T, map_err NtArchive (block_tip_of (nt_archive T) b descendant)) (\<lambda>T block_tip.
     let T = (if prev_side_hash header = map_option tip_block_hash tip then send_new_tip block_tip (Some addr) None T else T)
     in case fmlookup (nt_descendant_tips T) b of
          None \<Rightarrow> (T, Inr ())
        | Some tips \<Rightarrow> apply_descendant_tips tip (T\<lparr>nt_descendant_tips := fmdrop b (nt_descendant_tips T)\<rparr>) tips))"

definition handle_block ::
  "('acc, 'fr, 'pf) ext \<Rightarrow> ('acc, 'fr, 'pf) net_task \<Rightarrow> socket_addr \<Rightarrow> get_block_request \<Rightarrow> tip \<Rightarrow> peer_state_id \<Rightarrow> header
    \<Rightarrow> 'pf body \<Rightarrow> ('acc, 'fr, 'pf) net_task \<times> unit net_task_result" where
  "handle_block E T addr req descendant psid header body =
     (let b = gb_block_hash req
      in if header_hash E header \<noteq> b then invalid_response T addr
         else case put_body E (nt_archive T) b body of
                Inl e \<Rightarrow> (T, map_err NtArchive (Inl e))
              | Inr A \<Rightarrow>
                  then_do (notify_bodies (set_archive A T) addr b (gb_ancestor req) descendant psid) (\<lambda>T _.
                  check_new_tips T addr header b descendant))"

section \<open>Headers arrive\<close>

text \<open>The number of headers is cast to \<open>u32\<close>.\<close>

definition end_height_of :: "('acc, 'fr, 'pf) archive \<Rightarrow> block_hash option \<Rightarrow> header list \<Rightarrow> nat archive_result" where
  "end_height_of A start_hash hs =
     (let n = length hs mod 2 ^ 32
      in case start_hash of
           Some b \<Rightarrow> and_then (get_height A b) (\<lambda>start_height. add_u32 start_height n)
         | None \<Rightarrow> sub_u32 n 1)"

fun sequential :: "('acc, 'fr, 'pf) ext \<Rightarrow> block_hash option \<Rightarrow> header list \<Rightarrow> bool" where
  "sequential E prev [] \<longleftrightarrow> True"
| "sequential E prev (h # hs) \<longleftrightarrow> prev_side_hash h = prev \<and> sequential E (Some (header_hash E h)) hs"

definition check_headers ::
  "('acc, 'fr, 'pf) ext \<Rightarrow> ('acc, 'fr, 'pf) archive \<Rightarrow> block_hash fset \<Rightarrow> block_hash \<Rightarrow> nat \<Rightarrow> header list
    \<Rightarrow> bool archive_result" where
  "check_headers E A start end_hash height hs =
     (if hs = [] \<or> header_hash E (last hs) \<noteq> end_hash then Inr False
      else
        let start_hash = prev_side_hash (hd hs)
        in if (case start_hash of None \<Rightarrow> False | Some b \<Rightarrow> b |\<notin>| start) then Inr False
           else
             and_then (end_height_of A start_hash hs) (\<lambda>end_height.
             Inr (end_height = height \<and> sequential E start_hash hs)))"

fun store_headers ::
  "('acc, 'fr, 'pf) ext \<Rightarrow> ('acc, 'fr, 'pf) archive \<Rightarrow> header list \<Rightarrow> ('acc, 'fr, 'pf) archive archive_result" where
  "store_headers E A [] = Inr A"
| "store_headers E A (h # hs) =
     (if try_get_header A (header_hash E h) \<noteq> None then store_headers E A hs
      else if (case prev_side_hash h of None \<Rightarrow> False | Some parent \<Rightarrow> try_get_header A parent = None) then Inr A
      else and_then (put_header E A h) (\<lambda>A. store_headers E A hs))"

definition handle_headers ::
  "('acc, 'fr, 'pf) ext \<Rightarrow> ('acc, 'fr, 'pf) net_task \<Rightarrow> socket_addr \<Rightarrow> block_hash fset \<Rightarrow> block_hash \<Rightarrow> nat \<Rightarrow> peer_state_id
    \<Rightarrow> header list \<Rightarrow> ('acc, 'fr, 'pf) net_task \<times> unit net_task_result" where
  "handle_headers E T addr start end_hash height psid hs =
     then_do (T, map_err NtArchive (check_headers E (nt_archive T) start end_hash height hs)) (\<lambda>T ok.
     if \<not> ok then invalid_response T addr
     else
       then_do (T, map_err NtArchive (store_headers E (nt_archive T) hs)) (\<lambda>T A.
       (push_message (set_archive A T) (HeadersAvailable psid) addr, Inr ())))"

fun handle_response ::
  "('acc, 'fr, 'pf) ext \<Rightarrow> ('acc, 'fr, 'pf) net_task \<Rightarrow> socket_addr \<Rightarrow> 'pf response_message \<Rightarrow> 'pf request
    \<Rightarrow> ('acc, 'fr, 'pf) net_task \<times> unit net_task_result" where
  "handle_response E T addr (RespBlock header body) (GetBlock req) =
     (case (descendant_tip req, gb_peer_state_id req) of
        (Some tip, Some psid) \<Rightarrow> handle_block E T addr req tip psid header body
      | _ \<Rightarrow> invalid_response T addr)"
| "handle_response E T addr (RespNoBlock b) (GetBlock req) =
     (if descendant_tip req \<noteq> None \<and> gb_peer_state_id req \<noteq> None \<and> gb_block_hash req = b then (T, Inr ())
      else invalid_response T addr)"
| "handle_response E T addr (RespHeaders hs) (GetHeaders req) =
     (case (gh_height req, gh_peer_state_id req) of
        (Some height, Some psid) \<Rightarrow> handle_headers E T addr (gh_start req) (gh_end req) height psid hs
      | _ \<Rightarrow> invalid_response T addr)"
| "handle_response E T addr (RespNoHeader b) (GetHeaders req) =
     (if gh_end req = b then (T, Inr ()) else invalid_response T addr)"
| "handle_response E T addr (TransactionAccepted t) (PushTransaction tx) = (T, Inr ())"
| "handle_response E T addr (TransactionRejected t) (PushTransaction tx) = (T, Inr ())"
| "handle_response E T addr resp req = invalid_response T addr"

section \<open>The mailbox\<close>

datatype 'pf net_item =
    AcceptConnection incoming
  | ForwardMainchainTaskRequest
  | MainchainTaskResponse
  | NewTipReadyItem
  | PeerInfo "(socket_addr \<times> 'pf info option) option"
  | ReconnectPeer

definition forward_mainchain_request ::
  "('acc, 'fr, 'pf) net_task \<Rightarrow> ('acc, 'fr, 'pf) net_task \<times> unit net_task_result" where
  "forward_mainchain_request T =
     (case nt_forward_requests T of
        [] \<Rightarrow> (T, Inr ())
      | (req, addr, psid) # rest \<Rightarrow>
          let sources = set_insert (addr, psid) (entry_or_default (fmlookup (nt_request_sources T)) req);
              T = T\<lparr>nt_forward_requests := rest, nt_request_sources := fmupd req sources (nt_request_sources T)\<rparr>
          in case mainchain_request (nt_mainchain T) req None of
               Inl _ \<Rightarrow> (T, Inl (Err NtSendMainchainTaskRequest))
             | Inr M \<Rightarrow> (T\<lparr>nt_mainchain := M\<rparr>, Inr ()))"

fun ancestor_infos_message :: "(response_error, bool) result \<Rightarrow> peer_state_id \<Rightarrow> 'pf internal_message" where
  "ancestor_infos_message (Inr True) psid = MainchainAncestors psid"
| "ancestor_infos_message (Inr False) psid = MainchainAncestorsError"
| "ancestor_infos_message (Inl e) psid = MainchainAncestorsError"

definition receive_mainchain_response ::
  "('acc, 'fr, 'pf) net_task \<Rightarrow> ('acc, 'fr, 'pf) net_task \<times> unit net_task_result" where
  "receive_mainchain_response T =
     (case mt_responses (nt_mainchain T) of
        [] \<Rightarrow> (T, Inr ())
      | ResponseAncestorInfos m res # rest \<Rightarrow>
          let T = T\<lparr>nt_mainchain := (nt_mainchain T)\<lparr>mt_responses := rest\<rparr>\<rparr>; req = request_of (ResponseAncestorInfos m res)
          in case fmlookup (nt_request_sources T) req of
               None \<Rightarrow> (T, Inr ())
             | Some sources \<Rightarrow>
                 (fold (\<lambda>(addr, psid) T. push_message T (ancestor_infos_message res psid) addr) sources
                    (T\<lparr>nt_request_sources := fmdrop req (nt_request_sources T)\<rparr>), Inr ()))"

definition apply_new_tip ::
  "('acc, 'fr, 'pf) ext \<Rightarrow> ('acc, 'fr, 'pf) net_task \<Rightarrow> ('acc, 'fr, 'pf) net_task \<times> unit net_task_result" where
  "apply_new_tip E T =
     (case nt_new_tips T of
        [] \<Rightarrow> (T, Inr ())
      | (new_tip, _, resp_tx) # rest \<Rightarrow>
          let T = T\<lparr>nt_new_tips := rest\<rparr>; (N, r) = reorg_to_tip E (nt_dbs T) new_tip
          in then_do (T\<lparr>nt_dbs := N\<rparr>, r) (\<lambda>T reorg_applied.
             case resp_tx of
               None \<Rightarrow> (T, Inr ())
             | Some listening \<Rightarrow>
                 if listening then (T\<lparr>nt_reorg_results := nt_reorg_results T @ [reorg_applied]\<rparr>, Inr ())
                 else (T, Inl (Err NtSendReorgResultOneshot))))"

definition receive_new_transaction ::
  "('acc, 'fr, 'pf) ext \<Rightarrow> ('acc, 'fr, 'pf) net_task \<Rightarrow> socket_addr \<Rightarrow> 'pf authorized_transaction
    \<Rightarrow> ('acc, 'fr, 'pf) net_task \<times> unit net_task_result" where
  "receive_new_transaction E T addr new_tx =
     (let N = nt_dbs T
      in then_do (T, map_err NtState (regenerate_proof E (nd_state N) (transaction new_tx))) (\<lambda>T tx.
         let new_tx = new_tx\<lparr>transaction := tx\<rparr>
         in then_do (T, map_err NtMemPool (mempool_put E (nd_mempool N) new_tx)) (\<lambda>T M.
            (T\<lparr>nt_dbs := N\<lparr>nd_mempool := M\<rparr>, nt_net := push_tx (nt_net T) {|addr|} new_tx\<rparr>, Inr ()))))"

definition heartbeat_timeout ::
  "('acc, 'fr, 'pf) net_task \<Rightarrow> socket_addr \<Rightarrow> ('acc, 'fr, 'pf) net_task" where
  "heartbeat_timeout T addr =
     (case try_with_active_peer_connection (nt_net T) addr received_msg_successfully of
        None \<Rightarrow> T
      | Some received \<Rightarrow>
          let T = T\<lparr>nt_net := remove_active_peer (nt_net T) addr\<rparr>
          in if received then T\<lparr>nt_reconnects := nt_reconnects T @ [addr]\<rparr> else T)"

fun handle_peer_info ::
  "('acc, 'fr, 'pf) ext \<Rightarrow> ('acc, 'fr, 'pf) net_task \<Rightarrow> socket_addr \<Rightarrow> 'pf info
    \<Rightarrow> ('acc, 'fr, 'pf) net_task \<times> unit net_task_result" where
  "handle_peer_info E T addr (InfoError e) =
     (if e = PeHeartbeatTimeout then heartbeat_timeout T addr else fst (invalid_response T addr), Inr ())"
| "handle_peer_info E T addr (NeedMainchainAncestors m psid) =
     (T\<lparr>nt_forward_requests := nt_forward_requests T @ [(RequestAncestorInfos m, addr, psid)]\<rparr>, Inr ())"
| "handle_peer_info E T addr (NewTipReady new_tip) = (send_new_tip new_tip (Some addr) None T, Inr ())"
| "handle_peer_info E T addr (NewTransaction new_tx) = receive_new_transaction E T addr new_tx"
| "handle_peer_info E T addr (InfoResponse resp req) = handle_response E T addr resp req"

text \<open>One item of the mailbox of \<open>NetTask::run\<close>; an error ends the task.\<close>

fun net_step ::
  "(socket_addr \<Rightarrow> connect_error option) \<Rightarrow> ('acc, 'fr, 'pf) ext \<Rightarrow> ('acc, 'fr, 'pf) net_task \<Rightarrow> 'pf net_item
    \<Rightarrow> ('acc, 'fr, 'pf) net_task \<times> unit net_task_result" where
  "net_step quinn E T (AcceptConnection i) = (T\<lparr>nt_net := fst (accept_incoming (nt_net T) i)\<rparr>, Inr ())"
| "net_step quinn E T ForwardMainchainTaskRequest = forward_mainchain_request T"
| "net_step quinn E T MainchainTaskResponse = receive_mainchain_response T"
| "net_step quinn E T NewTipReadyItem = apply_new_tip E T"
| "net_step quinn E T (PeerInfo None) = (T, Inl (Err NtPeerInfoRxClosed))"
| "net_step quinn E T (PeerInfo (Some (addr, None))) = invalid_response T addr"
| "net_step quinn E T (PeerInfo (Some (addr, Some i))) = handle_peer_info E T addr i"
| "net_step quinn E T ReconnectPeer =
     (case nt_reconnects T of
        [] \<Rightarrow> (T, Inr ())
      | addr # rest \<Rightarrow>
          (T\<lparr>nt_reconnects := rest, nt_net := fst (connect_peer quinn (nt_net T) addr)\<rparr>, Inr ()))"

definition push_new_tip_confirm :: "tip \<Rightarrow> ('acc, 'fr, 'pf) net_task \<Rightarrow> ('acc, 'fr, 'pf) net_task" where
  "push_new_tip_confirm new_tip T = send_new_tip new_tip None (Some True) T"

end
