(* ===== verification/Peer_Sync.thy ===== *)
theory Peer_Sync
  imports Peer Archive_Iter
begin

text \<open>
  What a connection task promises: its comparison of tips agrees with the one of the archive, it reports a tip as ready only
  if the mainchain commits to it and nothing is missing to apply it, and it never sends a request twice.
\<close>

section \<open>Comparing tips\<close>

lemma archive_task_simps [simp]: "archive_task (Inr a) = Inr a" "archive_task (Inl e) = map_err TaArchive (Inl e)"
  by (simp_all add: archive_task_def)

lemma archive_task_and_then:
  "archive_task (and_then r f) = and_then (archive_task r) (\<lambda>a. archive_task (f a))"
  by (cases r) (auto simp: archive_task_def and_then_def map_err_def split: fail.split)

lemma archive_task_map_ok: "archive_task (map_ok f r) = map_ok f (archive_task r)"
  by (cases r) (auto simp: archive_task_def map_ok_def map_err_def split: fail.split)

lemma then_do_lift: "then_do (C, r) (\<lambda>C a. (C, f a)) = (C, and_then r f)"
  by (cases r) (simp_all add: and_then_def)

lemma if_pair: "(if b then (C, x) else (C, y)) = (C, if b then x else y)"
  by simp

lemma map_ok_map_ok: "map_ok f (map_ok g r) = map_ok (\<lambda>x. f (g x)) r"
  by (cases r) simp_all

lemma map_ok_if: "map_ok (\<lambda>x. if c x then f x else g x) r = and_then r (\<lambda>x. if c x then Inr (f x) else Inr (g x))"
  by (cases r) simp_all

definition knows_tip :: "('acc, 'fr, 'pf) archive \<Rightarrow> tip_info \<Rightarrow> bool" where
  "knows_tip A i \<longleftrightarrow> try_get_header A (tip_block_hash (ti_tip i)) \<noteq> None
     \<and> get_height A (tip_block_hash (ti_tip i)) = Inr (block_height i)
     \<and> get_total_work A (tip_main_block_hash (ti_tip i)) = Inr (ti_total_work i)"

definition prefers :: "tip \<Rightarrow> tip option \<Rightarrow> bool option" where
  "prefers t r = (if r = Some t then Some True else None)"

lemma headers_available:
  "knows_tip A p \<Longrightarrow> headers_or_request E A C t p psid k = (C, k ())"
  by (auto simp: headers_or_request_def knows_tip_def)

lemma check_peer_tip_eq:
  assumes t: "knows_tip A t" "0 < block_height t" and p: "knows_tip A p" "0 < block_height p"
  shows "check_peer_tip_and_request_headers E A C (Some t) p psid
    = (C, map_ok (prefers (ti_tip p)) (archive_task (better_tip A (ti_tip t) (ti_tip p))))"
proof (cases "ti_tip t = ti_tip p")
  case True
  with t p have "block_height t = block_height p" "ti_total_work t = ti_total_work p" by (auto simp: knows_tip_def)
  with True show ?thesis by (simp add: check_peer_tip_and_request_headers_def better_tip_def prefers_def Let_def)
next
  case False
  have h: "get_height A (tip_block_hash (ti_tip t)) = Inr (block_height t)"
    "get_height A (tip_block_hash (ti_tip p)) = Inr (block_height p)"
    "get_total_work A (tip_main_block_hash (ti_tip t)) = Inr (ti_total_work t)"
    "get_total_work A (tip_main_block_hash (ti_tip p)) = Inr (ti_total_work p)"
    using t(1) p(1) by (auto simp: knows_tip_def)
  have nz: "block_height t \<noteq> 0" "block_height p \<noteq> 0" using t(2) p(2) by auto
  have [simp]: "prefers (ti_tip p) (Some (ti_tip p)) = Some True" "prefers (ti_tip p) (Some (ti_tip t)) = None"
    using False by (auto simp: prefers_def)
  note eqs = h nz False then_do_lift map_ok_if if_pair archive_task_and_then archive_task_map_ok map_ok_and_then map_ok_map_ok
    if_distrib [of archive_task] if_distrib [of "map_ok _"] if_distrib [of "prefers _"] if_distrib [of Inr]
  have main: ?thesis if "ti_total_work t = ti_total_work p" "block_height t = block_height p"
    using that unfolding check_peer_tip_and_request_headers_def better_tip_def option.case headers_available [OF p(1)]
    by (cases "tip_block_hash (ti_tip p) = tip_block_hash (ti_tip t)") (simp_all add: eqs cong: if_cong)
  show ?thesis
    by (rule linorder_cases [of "ti_total_work t" "ti_total_work p"]; rule linorder_cases [of "block_height t" "block_height p"];
      (rule main, assumption, assumption)?;
      simp add: check_peer_tip_and_request_headers_def better_tip_def headers_available [OF p(1)] eqs comp_def cong: if_cong)
qed

text \<open>
  C10. The comparison of the own tip with the tip of a peer, written once more in the connection task, agrees with
  \<open>better_tip\<close> of the archive: if the header of the peer tip is stored, the claims of the peer are right and neither tip is a
  genesis block, the peer tip is taken as better exactly if \<open>better_tip\<close> prefers it, errors are the same, and nothing is sent.
\<close>

theorem check_peer_tip_agrees:
  assumes "knows_tip A t" and "0 < block_height t" and "knows_tip A p" and "0 < block_height p"
  shows "check_peer_tip_and_request_headers E A C (Some t) p psid
    = (C, map_ok (\<lambda>r. if r = Some (ti_tip p) then Some True else None)
        (map_err TaArchive (better_tip A (ti_tip t) (ti_tip p))))"
  using check_peer_tip_eq [OF assms] by (simp add: prefers_def [abs_def] archive_task_def)

section \<open>What is sent\<close>

text \<open>Requests of one peer state, sent one after the other.\<close>

inductive sends :: "('acc, 'fr, 'pf) ext \<Rightarrow> ('pf request \<Rightarrow> bool) \<Rightarrow> 'pf connection \<Rightarrow> 'pf connection \<Rightarrow> bool"
  for E :: "('acc, 'fr, 'pf) ext" and P :: "'pf request \<Rightarrow> bool" and C :: "'pf connection" where
  sends_refl: "sends E P C C"
| sends_step: "sends E P C C1 \<Longrightarrow> P r \<Longrightarrow> sends E P C (fst (send_request E C1 r))"

lemma sends_trans: "sends E P C1 C2 \<Longrightarrow> sends E P C C1 \<Longrightarrow> sends E P C C2"
  by (induction rule: sends.induct) (auto intro: sends.intros)

lemma sends_one: "P r \<Longrightarrow> sends E P C (fst (send_request E C r))"
  by (rule sends_step [OF sends_refl])

lemma send_request_frame:
  "\<exists>rs hs. fst (send_request E C r) = C\<lparr>cn_requests := rs, cn_request_hashes := hs\<rparr>"
  by (rule exI [of _ "cn_requests (fst (send_request E C r))"], rule exI [of _ "cn_request_hashes (fst (send_request E C r))"])
    (simp add: send_request_def Let_def)

lemma sends_frame: "sends E P C C' \<Longrightarrow> \<exists>rs hs. C' = C\<lparr>cn_requests := rs, cn_request_hashes := hs\<rparr>"
proof (induction rule: sends.induct)
  case sends_refl
  then show ?case by (intro exI [of _ "cn_requests C"] exI [of _ "cn_request_hashes C"]) simp
next
  case (sends_step C1 r)
  from sends_step.IH obtain rs hs where "C1 = C\<lparr>cn_requests := rs, cn_request_hashes := hs\<rparr>" by blast
  moreover from send_request_frame [of E C1 r] obtain rs' hs' where
    "fst (send_request E C1 r) = C1\<lparr>cn_requests := rs', cn_request_hashes := hs'\<rparr>" by blast
  ultimately show ?case by (intro exI [of _ rs'] exI [of _ hs']) simp
qed

lemma sends_then_do:
  "sends E P C (fst p) \<Longrightarrow> (\<And>s a. p = (s, Inr a) \<Longrightarrow> sends E P s (fst (f s a))) \<Longrightarrow> sends E P C (fst (then_do p f))"
  by (cases p; cases "snd p") (auto intro: sends_trans)

lemma sends_lift: "(\<And>a. r = Inr a \<Longrightarrow> sends E P C (fst (f C a))) \<Longrightarrow> sends E P C (fst (then_do (C, r) f))"
  by (cases r) (simp_all add: sends_refl)

lemma sends_if:
  "(b \<Longrightarrow> sends E P C (fst x)) \<Longrightarrow> (\<not> b \<Longrightarrow> sends E P C (fst y)) \<Longrightarrow> sends E P C (fst (if b then x else y))"
  by simp

lemma sends_same: "sends E P C (fst (C, x))"
  by (simp add: sends_refl)

text \<open>
  A request on behalf of the tip that a peer state claims. The fields besides the hashes are not sent; they come back with the response
  and the net task needs them.
\<close>

definition asks_for :: "peer_state_id \<Rightarrow> tip_info \<Rightarrow> 'pf request \<Rightarrow> bool" where
  "asks_for psid i r \<longleftrightarrow>
     (case r of GetBlock g \<Rightarrow> gb_peer_state_id g = Some psid \<and> descendant_tip g = Some (ti_tip i)
      | GetHeaders g \<Rightarrow> gh_peer_state_id g = Some psid \<and> gh_end g = tip_block_hash (ti_tip i)
          \<and> gh_height g = Some (block_height i) \<and> block_height i < 2 ^ 32
      | PushTransaction _ \<Rightarrow> False)"

lemma request_headers_sends:
  "block_height p < 2 ^ 32 \<Longrightarrow> sends E (asks_for psid p) C (fst (request_headers E C start p psid))"
  unfolding request_headers_def by (intro sends_then_do sends_one sends_same) (simp add: asks_for_def)

lemma headers_or_request_sends:
  "block_height p < 2 ^ 32 \<Longrightarrow> sends E (asks_for psid p) C (fst (headers_or_request E A C t p psid k))"
  unfolding headers_or_request_def by (intro sends_if sends_lift request_headers_sends sends_same)

lemma check_peer_tip_sends:
  assumes "block_height p < 2 ^ 32"
  shows "sends E (asks_for psid p) C (fst (check_peer_tip_and_request_headers E A C t p psid))"
proof (cases t)
  case None
  then show ?thesis
    unfolding check_peer_tip_and_request_headers_def
    by (simp only: option.case) (intro sends_if request_headers_sends [OF assms] sends_same)
next
  case (Some i)
  show ?thesis
    unfolding check_peer_tip_and_request_headers_def Some Let_def option.case
    by (intro sends_if sends_lift headers_or_request_sends [OF assms] sends_same)
qed

lemma request_bodies_sends:
  assumes "\<And>b. gb_peer_state_id (req b) = Some psid \<and> descendant_tip (req b) = Some (ti_tip i)"
  shows "sends E (asks_for psid i) C (fst (request_bodies E req C bs))"
proof (induction bs arbitrary: C)
  case Nil
  then show ?case by (simp add: sends_refl)
next
  case (Cons b bs)
  show ?case unfolding request_bodies.simps by (rule sends_then_do [OF sends_one Cons.IH]) (simp add: asks_for_def assms)
qed

text \<open>What a connection tells the net task while it handles the state of a peer.\<close>

definition tip_is_ready ::
  "('acc, 'fr, 'pf) archive \<Rightarrow> ('acc, 'fr) state \<Rightarrow> tip_info \<Rightarrow> bool" where
  "tip_is_ready A S i \<longleftrightarrow>
     get_total_work A (tip_main_block_hash (ti_tip i)) = Inr (ti_total_work i)
     \<and> map_ok bmm_commitment (get_main_block_info A (tip_main_block_hash (ti_tip i))) = Inr (Some (tip_block_hash (ti_tip i)))
     \<and> try_get_bmm_result A (tip_block_hash (ti_tip i)) (tip_main_block_hash (ti_tip i)) = Some BmmVerified
     \<and> (\<exists>tip common. state_tip_info A S = Inr tip \<and> peer_missing_bodies A tip i = Inr (common, [])
          \<and> (\<exists>(E :: ('acc, 'fr, 'pf) ext) (C :: 'pf connection) psid.
               snd (check_peer_tip_and_request_headers E A C tip i psid) = Inr (Some True)))"

definition info_ok ::
  "('acc, 'fr, 'pf) archive \<Rightarrow> ('acc, 'fr) state \<Rightarrow> tip_info \<Rightarrow> peer_state_id \<Rightarrow> 'pf info \<Rightarrow> bool" where
  "info_ok A S i psid msg \<longleftrightarrow>
     msg = NeedMainchainAncestors (tip_main_block_hash (ti_tip i)) psid
     \<or> msg = NewTipReady (ti_tip i) \<and> tip_is_ready A S i"

lemma send_info_eq:
  "send_info e C i = (C', x) \<Longrightarrow> C' = C \<or> C' = C\<lparr>cn_infos := cn_infos C @ [i]\<rparr>"
  by (auto simp: send_info_def split: if_splits)

lemma then_do_cases:
  assumes "then_do p f = (s, x)"
  obtains e where "p = (s, Inl e)" "x = Inl e" | s1 a where "p = (s1, Inr a)" "f s1 a = (s, x)"
  using assms by (cases p; cases "snd p") auto

lemma check_peer_claims_True:
  assumes "check_peer_claims A i = Inr True"
  shows "get_total_work A (tip_main_block_hash (ti_tip i)) = Inr (ti_total_work i)"
    "map_ok bmm_commitment (get_main_block_info A (tip_main_block_hash (ti_tip i))) = Inr (Some (tip_block_hash (ti_tip i)))"
  using assms by (auto simp: check_peer_claims_def archive_task_def Let_def result_simps split: if_splits)

lemma handle_peer_state_effect:
  assumes "handle_peer_state E A S C ps = (C', x)" and "\<forall>i. ps_tip_info ps = Some i \<longrightarrow> block_height i < 2 ^ 32"
  shows "\<exists>C1. sends E (\<lambda>r. \<exists>i. ps_tip_info ps = Some i \<and> asks_for (peer_state_id_of E ps) i r) C C1
    \<and> (C' = C1 \<or> (\<exists>i msg. ps_tip_info ps = Some i \<and> info_ok A S i (peer_state_id_of E ps) msg
        \<and> C' = C1\<lparr>cn_infos := cn_infos C1 @ [msg]\<rparr>))"
proof (cases "ps_tip_info ps")
  case None
  with assms(1) show ?thesis by (auto simp: handle_peer_state_def intro: sends_refl)
next
  case (Some i)
  let ?id = "peer_state_id_of E ps" and ?P = "\<lambda>r. \<exists>i. ps_tip_info ps = Some i \<and> asks_for (peer_state_id_of E ps) i r"
  have asks: "?P = asks_for ?id i" by (simp add: fun_eq_iff Some)
  have small: "block_height i < 2 ^ 32" using assms(2) Some by simp
  have refl: ?thesis if "C' = C" using that sends_refl by blast
  have info: ?thesis if "send_info TaSendInfo C1 msg = (C', x)" "info_ok A S i ?id msg" "sends E ?P C C1" for C1 msg
    using send_info_eq [OF that(1)] that(2,3) Some by blast
  show ?thesis
  proof (cases "state_tip_info A S")
    case (Inl e)
    with assms(1) Some show ?thesis by (intro refl) (cases e, simp_all add: handle_peer_state_def Let_def)
  next
    case tip: (Inr tip)
    show ?thesis
    proof (cases "check_peer_claims A i")
      case (Inl e)
      with assms(1) Some tip show ?thesis by (intro refl) (simp add: handle_peer_state_def Let_def)
    next
      case claims: (Inr known)
      note run0 = assms(1) [unfolded handle_peer_state_def Let_def]
    show ?thesis
    proof (cases known)
      case False
      with run0 Some tip claims show ?thesis by (intro info [OF _ _ sends_refl]) (auto simp: info_ok_def)
    next
      case known: True
      with claims have ok: "check_peer_claims A i = Inr True" by simp
      obtain C2 better where check: "check_peer_tip_and_request_headers E A C tip i ?id = (C2, better)" by fastforce
      have sent: "sends E ?P C C2" using check_peer_tip_sends [OF small, of E ?id C A tip] check unfolding asks by simp
      have stop: ?thesis if "C' = C2" using that sent by blast
      note run = run0 Some tip ok check
      show ?thesis
      proof (cases better)
        case (Inl e)
        with run show ?thesis by (intro stop) simp
      next
        case b: (Inr bt)
        let ?bmm = "try_get_bmm_result A (tip_block_hash (ti_tip i)) (tip_main_block_hash (ti_tip i)) = Some BmmVerified"
        show ?thesis
        proof (cases "bt = Some True \<and> ?bmm")
          case False
          with run b show ?thesis by (intro stop) (auto split: if_splits)
        next
          case go: True
          show ?thesis
          proof (cases "peer_missing_bodies A tip i")
            case (Inl e)
            with run b go show ?thesis by (intro stop) (cases e, simp_all)
          next
            case missing: (Inr cm)
            obtain common bs where cm: "cm = (common, bs)" by (cases cm)
            show ?thesis
            proof (cases "bs = []")
              case True
              have "tip_is_ready A S i" unfolding tip_is_ready_def
                using check_peer_claims_True [OF ok] go tip missing cm True check b
                by (intro conjI exI [of _ tip] exI [of _ common] exI [of _ E] exI [of _ C] exI [of _ ?id]) auto
              with run b go missing cm True show ?thesis by (intro info [OF _ _ sent]) (auto simp: info_ok_def)
            next
              case False
              let ?req = "\<lambda>b. \<lparr>gb_block_hash = b, descendant_tip = Some (ti_tip i), gb_ancestor = common, gb_peer_state_id = Some ?id\<rparr>"
              have "sends E ?P C2 (fst (request_bodies E ?req C2 bs))"
                unfolding asks by (rule request_bodies_sends) simp
              moreover have "request_bodies E ?req C2 bs = (C', x)" using run b go missing cm False by simp
              ultimately show ?thesis using sends_trans [OF _ sent] by auto
            qed
          qed
        qed
      qed
    qed
    qed
  qed
qed

section \<open>A tip is ready\<close>

lemma iter_missing_bodies_height:
  assumes "iter_missing_bodies A b s n = Inr xs" and "0 < n"
  obtains h where "get_height A b = Inr h"
proof (cases "get_height A b")
  case (Inl e)
  with assms show thesis
    by (simp add: iter_missing_bodies_def ancestor_fuel_def ancestors_rev_next_def ancestors_rev_new_def)
next
  case (Inr h)
  then show thesis by (rule that)
qed

lemma ready_tip_bodies:
  assumes inv: "archive_inv A" and small: "\<forall>b h. try_get_height A b = Some h \<longrightarrow> h < 2 ^ 31"
    and tip: "\<forall>t. st_tip S = Some t \<longrightarrow> t \<in> side_known A" and ready: "tip_is_ready A S i"
  shows "tip_block_hash (ti_tip i) \<in> side_known A"
    and "is_ancestor (side_parent A) a (tip_block_hash (ti_tip i)) \<Longrightarrow>
      try_get_body A a \<noteq> None \<or> (\<exists>t. st_tip S = Some t \<and> is_ancestor (side_parent A) a t)"
proof -
  let ?b = "tip_block_hash (ti_tip i)"
  note ok = side_index_ok [OF inv]
  from ready obtain t common where t: "state_tip_info A S = Inr t" and run: "peer_missing_bodies A t i = Inr (common, [])"
    by (auto simp: tip_is_ready_def)
  from run obtain start where
    common: "(case t of Some ti \<Rightarrow> last_common_ancestor A (tip_block_hash (ti_tip ti)) ?b | None \<Rightarrow> Inr None) = Inr common"
    and start: "(case common of Some c \<Rightarrow> get_height A c | None \<Rightarrow> Inr 0) = Inr start"
    and missing: "iter_missing_bodies A ?b start MAX_BLOCK_REQUESTS = Inr []"
    by (auto simp: peer_missing_bodies_def result_simps MAX_BLOCK_REQUESTS_def)
  from missing show b: "?b \<in> side_known A" by (rule iter_missing_bodies_height) (auto simp: MAX_BLOCK_REQUESTS_def intro: known_height [OF inv])
  assume a: "is_ancestor (side_parent A) a ?b"
  obtain h where h: "try_get_height A ?b = Some h" using side.height_known [OF ok b] by blast
  obtain n where n: "nth_parent (side_parent A) ?b n = Some a" "try_get_height A a = Some (h - n)"
    using side.ancestor_depth [OF ok b h a] by blast
  show "try_get_body A a \<noteq> None \<or> (\<exists>t. st_tip S = Some t \<and> is_ancestor (side_parent A) a t)"
  proof (cases "start \<le> h - n")
    case True
    with no_missing_bodies [OF inv b missing _ a n(2)] show ?thesis by (simp add: MAX_BLOCK_REQUESTS_def)
  next
    case False
    then obtain c where c: "common = Some c" "get_height A c = Inr start" using start by (cases common) auto
    with common obtain ti where ti: "t = Some ti" "last_common_ancestor A (tip_block_hash (ti_tip ti)) ?b = Inr (Some c)"
      by (cases t) auto
    then have tip': "st_tip S = Some (tip_block_hash (ti_tip ti))"
      using t by (auto simp: state_tip_info_def result_simps split: option.splits)
    with tip have "tip_block_hash (ti_tip ti) \<in> side_known A" by blast
    from last_common_ancestor_found [OF inv this b small] ti(2)
    have lc: "last_common (side_parent A) (tip_block_hash (ti_tip ti)) ?b c" by auto
    then obtain m where m: "nth_parent (side_parent A) ?b m = Some c" by (auto simp: last_common_def is_ancestor_def)
    have "try_get_height A c = Some (h - m)" using side.nth_parent_height [OF ok b h m] by simp
    moreover have "try_get_height A c = Some start" using known_height [OF inv c(2)] by simp
    ultimately have "h - n \<le> h - m" using False by simp
    from side.last_common_below [OF ok b h m a n(2) this] lc tip' show ?thesis
      by (auto simp: last_common_def intro: is_ancestor_trans)
  qed
qed

text \<open>A tip that was taken as better is better, unless one of the tips is a genesis block or the peer claims a wrong height.\<close>

lemma ready_tip_better:
  assumes tip: "\<forall>t. st_tip S = Some t \<longrightarrow> t \<in> side_known A \<and> try_get_height A t = st_height S"
    and ready: "tip_is_ready A S i" and known: "tip_block_hash (ti_tip i) \<in> side_known A"
    and own: "state_tip_info A S = Inr (Some own)" and pos: "0 < block_height own" "0 < block_height i"
    and height: "get_height A (tip_block_hash (ti_tip i)) = Inr (block_height i)"
  shows "better_tip A (ti_tip own) (ti_tip i) = Inr (Some (ti_tip i))"
proof -
  from own have t: "st_tip S = Some (tip_block_hash (ti_tip own))" "st_height S = Some (block_height own)"
    "get_total_work A (tip_main_block_hash (ti_tip own)) = Inr (ti_total_work own)"
    by (auto simp: state_tip_info_def result_simps split: option.splits)
  with tip have "knows_tip A own" by (auto simp: knows_tip_def side_known_iff try_get_header_def get_height_def ok_or_def)
  moreover have "knows_tip A i"
    using ready known height by (auto simp: knows_tip_def tip_is_ready_def side_known_iff try_get_header_def)
  moreover obtain E :: "('a, 'b, 'c) ext" and C :: "'c connection" and psid where
    "snd (check_peer_tip_and_request_headers E A C (Some own) i psid) = Inr (Some True)"
    using ready own by (auto simp: tip_is_ready_def)
  ultimately have "map_ok (prefers (ti_tip i)) (archive_task (better_tip A (ti_tip own) (ti_tip i))) = Inr (Some True)"
    using check_peer_tip_eq [of A own i E C psid] pos by simp
  then show ?thesis by (auto simp: result_simps archive_task_def prefers_def split: if_splits)
qed

text \<open>
  C8. A connection announces a tip as ready to apply only if it is: the header is stored, the total work is what the peer claims, the
  mainchain block of the tip commits to it and its blind merged mining is verified, every block of its chain
  is stored with its body or belongs to the chain of the own tip, and \<open>better_tip\<close> of the archive prefers it to the own tip. The last
  holds if neither tip is a genesis block and the height that the peer claims, which the connection does not check, is right.
\<close>

theorem new_tip_ready_sound:
  assumes "handle_peer_state E A S C ps = (C', r)" and "NewTipReady t \<in> set (cn_infos C')" and "NewTipReady t \<notin> set (cn_infos C)"
    and inv: "archive_inv A" and small: "\<forall>b h. try_get_height A b = Some h \<longrightarrow> h < 2 ^ 31"
    and tip: "\<forall>t. st_tip S = Some t \<longrightarrow> t \<in> side_known A \<and> try_get_height A t = st_height S"
    and wire: "\<forall>i. ps_tip_info ps = Some i \<longrightarrow> block_height i < 2 ^ 32"
  shows "(\<exists>i. ps_tip_info ps = Some i \<and> ti_tip i = t \<and> get_total_work A (tip_main_block_hash t) = Inr (ti_total_work i)
        \<and> (\<forall>own. state_tip_info A S = Inr (Some own) \<and> 0 < block_height own \<and> 0 < block_height i
             \<and> get_height A (tip_block_hash t) = Inr (block_height i) \<longrightarrow> better_tip A (ti_tip own) t = Inr (Some t)))
    \<and> map_ok bmm_commitment (get_main_block_info A (tip_main_block_hash t)) = Inr (Some (tip_block_hash t))
    \<and> try_get_bmm_result A (tip_block_hash t) (tip_main_block_hash t) = Some BmmVerified
    \<and> try_get_header A (tip_block_hash t) \<noteq> None
    \<and> (\<forall>a. is_ancestor (side_parent A) a (tip_block_hash t) \<longrightarrow>
         try_get_body A a \<noteq> None \<or> (\<exists>t. st_tip S = Some t \<and> is_ancestor (side_parent A) a t))"
proof -
  from handle_peer_state_effect [OF assms(1) wire] assms(2,3) sends_frame obtain i where
    i: "ps_tip_info ps = Some i" "ti_tip i = t" "tip_is_ready A S i"
    by (fastforce simp: info_ok_def)
  from tip have tip': "\<forall>t. st_tip S = Some t \<longrightarrow> t \<in> side_known A" by blast
  note bodies = ready_tip_bodies [OF inv small tip' i(3)]
  note better = ready_tip_better [OF tip i(3) bodies(1)]
  from i(3) show ?thesis unfolding i(2) [symmetric]
    by (intro conjI exI [of _ i] i(1) refl)
      (use bodies better in \<open>auto simp: tip_is_ready_def side_known_iff try_get_header_def\<close>)
qed

section \<open>The requests of a connection\<close>

definition asked_by :: "('acc, 'fr, 'pf) ext \<Rightarrow> 'pf connection \<Rightarrow> 'pf request \<Rightarrow> bool" where
  "asked_by E C r \<longleftrightarrow> (\<exists>at. r = PushTransaction at) \<or> (\<exists>ps i. ps_tip_info ps = Some i \<and> asks_for (peer_state_id_of E ps) i r
     \<and> fmlookup (cn_peer_states C) (peer_state_id_of E ps) \<noteq> None)"

definition small_state :: "peer_state \<Rightarrow> bool" where
  "small_state ps \<longleftrightarrow> (\<forall>i. ps_tip_info ps = Some i \<longrightarrow> block_height i < 2 ^ 32)"

definition connection_ok :: "('acc, 'fr, 'pf) ext \<Rightarrow> 'pf connection \<Rightarrow> bool" where
  "connection_ok E C \<longleftrightarrow>
     distinct (map (request_hash E) (cn_requests C)) \<and> request_hash E ` set (cn_requests C) \<subseteq> fset (cn_request_hashes C)
     \<and> (\<forall>r\<in>set (cn_requests C). asked_by E C r)
     \<and> (\<forall>ps\<in>set (cn_blocking_tasks C). small_state ps \<and> fmlookup (cn_peer_states C) (peer_state_id_of E ps) \<noteq> None)
     \<and> (\<forall>psid ps. fmlookup (cn_peer_states C) psid = Some ps \<longrightarrow> psid = peer_state_id_of E ps \<and> small_state ps)
     \<and> (\<forall>m psid. NeedMainchainAncestors m psid \<in> set (cn_infos C) \<longrightarrow> fmlookup (cn_peer_states C) psid \<noteq> None)"

lemma send_request_ok:
  assumes "connection_ok E C" and "asked_by E C r"
  shows "connection_ok E (fst (send_request E C r))"
  using assms by (auto simp: connection_ok_def send_request_def Let_def asked_by_def)

lemma sends_ok:
  assumes "sends E (\<lambda>r. \<exists>i. ps_tip_info ps = Some i \<and> asks_for (peer_state_id_of E ps) i r) C C'" and "connection_ok E C"
    and "fmlookup (cn_peer_states C) (peer_state_id_of E ps) \<noteq> None"
  shows "connection_ok E C'"
  using assms(1)
proof (induction rule: sends.induct)
  case sends_refl
  show ?case by (fact assms(2))
next
  case (sends_step C1 r)
  from sends_frame [OF sends_step.hyps(1)] have "cn_peer_states C1 = cn_peer_states C" by auto
  with sends_step assms(3) show ?case by (intro send_request_ok) (auto simp: asked_by_def)
qed

lemma connection_ok_frame:
  assumes "connection_ok E C" and "cn_requests C' = cn_requests C" "cn_request_hashes C' = cn_request_hashes C"
    "set (cn_blocking_tasks C') \<subseteq> set (cn_blocking_tasks C)" "cn_peer_states C' = cn_peer_states C"
    and "\<forall>m psid. NeedMainchainAncestors m psid \<in> set (cn_infos C') \<longrightarrow>
      NeedMainchainAncestors m psid \<in> set (cn_infos C) \<or> fmlookup (cn_peer_states C) psid \<noteq> None"
  shows "connection_ok E C'"
  using assms unfolding connection_ok_def asked_by_def by (simp add: subset_iff) blast

lemma handle_peer_state_ok:
  assumes ok: "connection_ok E C" and ps: "small_state ps" "fmlookup (cn_peer_states C) (peer_state_id_of E ps) \<noteq> None"
    and run: "handle_peer_state E A S C ps = (C', x)"
  shows "connection_ok E C'"
proof -
  from handle_peer_state_effect [OF run] ps(1) obtain C1 where
    C1: "sends E (\<lambda>r. \<exists>i. ps_tip_info ps = Some i \<and> asks_for (peer_state_id_of E ps) i r) C C1"
      "C' = C1 \<or> (\<exists>i msg. ps_tip_info ps = Some i \<and> info_ok A S i (peer_state_id_of E ps) msg
        \<and> C' = C1\<lparr>cn_infos := cn_infos C1 @ [msg]\<rparr>)"
    unfolding small_state_def by blast
  have ok1: "connection_ok E C1" by (rule sends_ok [OF C1(1) ok ps(2)])
  have known: "fmlookup (cn_peer_states C1) (peer_state_id_of E ps) \<noteq> None" using sends_frame [OF C1(1)] ps(2) by auto
  from C1(2) show ?thesis
  proof (elim disjE exE conjE)
    fix i msg
    assume "info_ok A S i (peer_state_id_of E ps) msg" "C' = C1\<lparr>cn_infos := cn_infos C1 @ [msg]\<rparr>"
    then show ?thesis using known by (intro connection_ok_frame [OF ok1]) (auto simp: info_ok_def)
  qed (simp add: ok1)
qed

lemma send_blocking_task_ok:
  assumes "connection_ok E C" and "small_state ps" "fmlookup (cn_peer_states C) (peer_state_id_of E ps) \<noteq> None"
  shows "connection_ok E (fst (send_blocking_task C ps))"
  using assms by (auto simp: connection_ok_def send_blocking_task_def asked_by_def)

lemma known_state_task_ok:
  assumes "connection_ok E C"
  shows "connection_ok E (fst (known_state_task C psid))"
proof (cases "fmlookup (cn_peer_states C) psid")
  case (Some ps)
  with assms have "psid = peer_state_id_of E ps" "small_state ps" by (auto simp: connection_ok_def)
  with Some assms show ?thesis by (simp add: known_state_task_def send_blocking_task_ok)
qed (simp add: known_state_task_def assms)

lemma add_peer_state_ok:
  assumes "connection_ok E C" and "small_state ps"
  shows "connection_ok E (C\<lparr>cn_peer_states := fmupd (peer_state_id_of E ps) ps (cn_peer_states C)\<rparr>)"
  using assms unfolding connection_ok_def asked_by_def by (auto 0 3)

lemma heartbeat_received_ok:
  assumes "connection_ok E C" and "small_state ps"
  shows "connection_ok E (fst (handle_peer_request E A S sent C (Heartbeat ps)))"
proof -
  let ?C = "C\<lparr>cn_peer_states := fmupd (peer_state_id_of E ps) ps (cn_peer_states C)\<rparr>"
  have ok: "connection_ok E ?C" by (rule add_peer_state_ok [OF assms])
  obtain C1 x where sb: "send_blocking_task ?C ps = (C1, x)" by fastforce
  with send_blocking_task_ok [OF ok assms(2)] have ok1: "connection_ok E C1" by simp
  have "connection_ok E (C1\<lparr>cn_peer_state := p\<rparr>)" for p by (rule connection_ok_frame [OF ok1]) auto
  with ok ok1 sb show ?thesis by (cases x) (auto simp: handle_peer_request_def Let_def)
qed

lemma other_request_ok:
  assumes "connection_ok E C" and "\<forall>ps. msg \<noteq> Heartbeat ps"
  shows "connection_ok E (fst (handle_peer_request E A S sent C msg))"
proof (rule connection_ok_frame [OF assms(1)])
  let ?C = "fst (handle_peer_request E A S sent C msg)"
  have "cn_requests ?C = cn_requests C \<and> cn_request_hashes ?C = cn_request_hashes C
    \<and> cn_blocking_tasks ?C = cn_blocking_tasks C \<and> cn_peer_states ?C = cn_peer_states C
    \<and> (\<forall>m psid. NeedMainchainAncestors m psid \<in> set (cn_infos ?C) \<longrightarrow> NeedMainchainAncestors m psid \<in> set (cn_infos C))"
    using assms(2)
    by (auto simp: handle_peer_request_def send_response_def handle_push_tx_def send_info_def then_do_def Let_def
        split: request_message.splits request.splits sum.splits if_splits)
  then show "cn_requests ?C = cn_requests C" "cn_request_hashes ?C = cn_request_hashes C"
    "set (cn_blocking_tasks ?C) \<subseteq> set (cn_blocking_tasks C)" "cn_peer_states ?C = cn_peer_states C"
    "\<forall>m psid. NeedMainchainAncestors m psid \<in> set (cn_infos ?C) \<longrightarrow>
      NeedMainchainAncestors m psid \<in> set (cn_infos C) \<or> fmlookup (cn_peer_states C) psid \<noteq> None"
    by auto
qed

lemma internal_message_ok:
  assumes "connection_ok E C" and "mailbox_item_ok (MbInternalMessage msg)"
  shows "connection_ok E (fst (handle_internal_message E C msg))"
proof (cases msg)
  case (ForwardRequest r)
  with assms(2) have "asked_by E C r" by (cases r) (simp_all add: asked_by_def)
  with send_request_ok [OF assms(1)] ForwardRequest show ?thesis by (simp add: case_prod_beta)
next
  case (BmmVerification res psid)
  with assms(1) known_state_task_ok show ?thesis by (cases res) auto
qed (use assms(1) known_state_task_ok in auto)

lemma connection_step_ok:
  assumes "connection_ok E C" and "mailbox_item_ok item"
  shows "connection_ok E (fst (connection_step v E A S C item))"
proof (cases item)
  case (MbInternalMessage msg)
  with internal_message_ok [OF assms(1)] assms(2) show ?thesis by simp
next
  case MbHeartbeat
  have "connection_ok E (C\<lparr>cn_heartbeats := hs\<rparr>)" for hs by (rule connection_ok_frame [OF assms(1)]) auto
  with MbHeartbeat assms(1) show ?thesis by (auto simp: heartbeat_def send_heartbeat_def then_do_def split: sum.splits)
next
  case MbBlockingTask
  show ?thesis
  proof (cases "cn_blocking_tasks C")
    case Nil
    with MbBlockingTask assms(1) show ?thesis by simp
  next
    case (Cons ps tasks)
    let ?C = "C\<lparr>cn_blocking_tasks := tasks\<rparr>"
    have ok: "connection_ok E ?C" by (rule connection_ok_frame [OF assms(1)]) (auto simp: Cons)
    obtain C' x where run: "handle_peer_state E A S ?C ps = (C', x)" by fastforce
    have "small_state ps" "fmlookup (cn_peer_states ?C) (peer_state_id_of E ps) \<noteq> None"
      using assms(1) Cons by (auto simp: connection_ok_def)
    from handle_peer_state_ok [OF ok this run] MbBlockingTask Cons run show ?thesis by simp
  qed
next
  case (MbPeerRequest msg sent)
  show ?thesis
  proof (cases msg)
    case (Heartbeat ps)
    with assms(2) MbPeerRequest have "small_state ps" by (auto simp: small_state_def split: option.splits)
    with heartbeat_received_ok [OF assms(1)] MbPeerRequest Heartbeat show ?thesis by simp
  next
    case (RequestMessage r)
    with other_request_ok [OF assms(1), of msg] MbPeerRequest show ?thesis by simp
  qed
next
  case (MbPeerResponse r resp)
  have "connection_ok E (C\<lparr>cn_infos := cn_infos C @ [case resp of Some resp \<Rightarrow> InfoResponse resp r | None \<Rightarrow> InfoError PeReceiveResponse]\<rparr>)"
    by (rule connection_ok_frame [OF assms(1)]) (auto split: option.splits)
  with MbPeerResponse assms(1) show ?thesis by (simp add: send_info_def)
qed (use assms(1) in simp)

lemma connected_ok: "connected v E C \<Longrightarrow> connection_ok E C"
proof (induction rule: connected.induct)
  case connected_new
  show ?case by (simp add: connection_ok_def connection_new_def)
next
  case (connected_step C item A S C')
  with connection_step_ok [of E C item v A S] show ?case by simp
next
  case (connected_drop C a b c d)
  then show ?case by (intro connection_ok_frame [OF connected_drop.IH]) auto
qed

text \<open>
  C39. Whatever messages arrive, in whatever order and with whatever changes of the databases in between: a connection sends no two requests with
  the same hash. Every request for a block or for headers is made for the tip that a peer state claims and carries all that the net task needs
  to handle the response: the id of this peer state, and for a block the tip, for headers the height of the tip, so that the \<open>expect\<close>
  on this height never fails. The peer states that requests and calls for mainchain headers refer to are known, so
  the answer is never met with \<open>MissingPeerState\<close>.
\<close>

theorem connection_requests:
  assumes "connected v E C"
  shows "distinct (map (request_hash E) (cn_requests C))
    \<and> (\<forall>r\<in>set (cn_requests C). (\<exists>at. r = PushTransaction at)
         \<or> (\<exists>ps i. ps_tip_info ps = Some i \<and> asks_for (peer_state_id_of E ps) i r
              \<and> snd (handle_internal_message E C (HeadersAvailable (peer_state_id_of E ps))) \<noteq> Inl (Err (PeMissingPeerState (peer_state_id_of E ps)))
              \<and> snd (handle_internal_message E C (BodiesAvailable (peer_state_id_of E ps))) \<noteq> Inl (Err (PeMissingPeerState (peer_state_id_of E ps)))))
    \<and> (\<forall>r\<in>set (cn_requests C). \<exists>limit. read_response_limit r = (Inr limit :: (peer_error, nat) result))
    \<and> (\<forall>m psid. NeedMainchainAncestors m psid \<in> set (cn_infos C) \<longrightarrow>
         snd (handle_internal_message E C (MainchainAncestors psid)) \<noteq> Inl (Err (PeMissingPeerState psid)))"
proof -
  note ok = connected_ok [OF assms, unfolded connection_ok_def]
  have known: "snd (known_state_task C psid) \<noteq> Inl (Err (PeMissingPeerState psid))" if "fmlookup (cn_peer_states C) psid \<noteq> None" for psid
    using that by (auto simp: known_state_task_def send_blocking_task_def split: if_splits)
  have limit: "\<exists>limit. read_response_limit r = (Inr limit :: (peer_error, nat) result)" if "asked_by E C r" for r :: "'c request"
    using that by (cases r) (auto simp: asked_by_def asks_for_def Let_def)
  have "(\<exists>at. r = PushTransaction at)
      \<or> (\<exists>ps i. ps_tip_info ps = Some i \<and> asks_for (peer_state_id_of E ps) i r
          \<and> snd (handle_internal_message E C (HeadersAvailable (peer_state_id_of E ps))) \<noteq> Inl (Err (PeMissingPeerState (peer_state_id_of E ps)))
          \<and> snd (handle_internal_message E C (BodiesAvailable (peer_state_id_of E ps))) \<noteq> Inl (Err (PeMissingPeerState (peer_state_id_of E ps))))"
    if "r \<in> set (cn_requests C)" for r
  proof -
    from ok that have "asked_by E C r" by blast
    then show ?thesis using known by (fastforce simp: asked_by_def)
  qed
  moreover have "snd (handle_internal_message E C (MainchainAncestors psid)) \<noteq> Inl (Err (PeMissingPeerState psid))"
    if "NeedMainchainAncestors m psid \<in> set (cn_infos C)" for m psid
    using known ok that by auto
  ultimately show ?thesis using ok limit by blast
qed

section \<open>An exchange\<close>

text \<open>A peer at the example block, seen by a node without a tip, first with and then without the header.\<close>

definition peer_tip :: tip_info where
  "peer_tip = \<lparr>block_height = 0, ti_tip = \<lparr>tip_block_hash = ex_hash, tip_main_block_hash = MainHash 1\<rparr>, ti_total_work = 1\<rparr>"

definition peer_at_tip :: peer_state where
  "peer_at_tip = \<lparr>ps_tip_info = Some peer_tip, ps_version = \<lparr>major = 0, minor = 1, patch = 0\<rparr>\<rparr>"

lemma ex_archive_inv: "archive_inv ex_archive"
proof -
  have "side_index ex_archive"
    by (auto simp: side_index_def index_ok_def node_ok_def side_known_def ex_archive_def try_get_height_def side_parent_def
        ex_header_fields fmdom'_fmupd split: if_splits)
  moreover have "ilog2 (Suc 0) = 0" by (rule ilog2_unique) auto
  then have "main_index ex_archive"
    by (auto simp: main_index_def index_ok_def node_ok_def main_known_def ex_archive_def try_get_main_height_def main_parent_def
        fmdom'_fmupd expo_entry_def all_zeros_def split: if_splits)
  moreover have "successors_ok ex_archive"
    by (auto simp: successors_ok_def succ_ok_def side_known_def ex_archive_def ex_header_fields split: if_splits)
  moreover have "main_successors_ok ex_archive"
    by (auto simp: main_successors_ok_def succ_ok_def main_known_def ex_archive_def all_zeros_def split: if_splits)
  moreover have "total_work_ok ex_archive"
    by (auto simp: total_work_ok_def ex_archive_def split: if_splits)
  ultimately show ?thesis by (simp add: archive_inv_def)
qed

lemma peer_claims:
  assumes "A = ex_archive \<or> A = ex_archive\<lparr>headers := fmempty\<rparr>"
  shows "check_peer_claims A peer_tip = Inr True"
  using assms by (auto simp: check_peer_claims_def peer_tip_def ex_archive_def lookup_defs get_main_block_info_def
      try_get_main_block_info_def Let_def)

lemma no_tip_info: "state_tip_info A example_state = Inr None"
  by (simp add: state_tip_info_def example_state_def)

lemma ready_exchange:
  "handle_peer_state example_ext ex_archive example_state connection_new peer_at_tip
    = (connection_new\<lparr>cn_infos := [NewTipReady (ti_tip peer_tip)]\<rparr>, Inr ())"
proof -
  have height: "try_get_height ex_archive ex_hash = Some 0" by (simp add: ex_archive_def try_get_height_def)
  have known: "ex_hash \<in> side_known ex_archive" by (simp add: side_known_iff ex_archive_def)
  have "iter_missing_bodies ex_archive ex_hash 0 MAX_BLOCK_REQUESTS = Inr []"
    unfolding iter_missing_bodies_ok [OF ex_archive_inv known height]
    by (simp add: chain_from_def try_get_body_def ex_archive_def)
  then have "peer_missing_bodies ex_archive None peer_tip = Inr (None, [])"
    by (simp add: peer_missing_bodies_def peer_tip_def)
  moreover have "try_get_header ex_archive ex_hash \<noteq> None" "try_get_bmm_result ex_archive ex_hash (MainHash 1) = Some BmmVerified"
    by (simp_all add: ex_archive_def try_get_header_def try_get_bmm_result_def get_bmm_results_def)
  moreover have "ps_tip_info peer_at_tip = Some peer_tip" by (simp add: peer_at_tip_def)
  ultimately show ?thesis
    using peer_claims [of ex_archive] no_tip_info [of ex_archive]
    by (auto simp: handle_peer_state_def check_peer_tip_and_request_headers_def Let_def send_info_def connection_new_def)
      (simp_all add: peer_tip_def)
qed

theorem new_tip_ready_sound_witness:
  "NewTipReady (ti_tip peer_tip)
      \<in> set (cn_infos (fst (handle_peer_state example_ext ex_archive example_state connection_new peer_at_tip)))
    \<and> try_get_bmm_result ex_archive ex_hash (MainHash 1) = Some BmmVerified"
proof -
  have small: "\<forall>b h. try_get_height ex_archive b = Some h \<longrightarrow> h < 2 ^ 31"
    by (auto simp: ex_archive_def try_get_height_def split: if_splits)
  have tip: "\<forall>t. st_tip example_state = Some t \<longrightarrow> t \<in> side_known ex_archive \<and> try_get_height ex_archive t = st_height example_state" by (simp add: example_state_def)
  have wire: "\<forall>i. ps_tip_info peer_at_tip = Some i \<longrightarrow> block_height i < 2 ^ 32" by (simp add: peer_at_tip_def peer_tip_def)
  have new: "NewTipReady (ti_tip peer_tip) \<notin> set (cn_infos connection_new)" by (simp add: connection_new_def)
  have sent: "NewTipReady (ti_tip peer_tip) \<in> set (cn_infos (connection_new\<lparr>cn_infos := [NewTipReady (ti_tip peer_tip)]\<rparr>))" by simp
  from new_tip_ready_sound [OF ready_exchange sent new ex_archive_inv small tip wire] sent
  show ?thesis by (simp add: ready_exchange peer_tip_def)
qed

definition peer_request :: "unit request" where
  "peer_request = GetHeaders \<lparr>gh_start = {||}, gh_end = ex_hash, gh_height = Some 0,
     gh_peer_state_id = Some (peer_state_id_of example_ext peer_at_tip)\<rparr>"

theorem connection_requests_witness:
  "\<exists>C. connected (ps_version peer_at_tip) example_ext C \<and> cn_requests C = [peer_request]
    \<and> snd (handle_internal_message example_ext C (HeadersAvailable (peer_state_id_of example_ext peer_at_tip)))
        \<noteq> Inl (Err (PeMissingPeerState (peer_state_id_of example_ext peer_at_tip)))"
proof -
  let ?v = "ps_version peer_at_tip" and ?E = "example_ext" and ?A = "ex_archive\<lparr>headers := fmempty\<rparr>"
  let ?id = "peer_state_id_of ?E peer_at_tip"
  let ?C1 = "connection_new\<lparr>cn_peer_states := fmupd ?id peer_at_tip fmempty, cn_blocking_tasks := [peer_at_tip], cn_peer_state := Some ?id\<rparr>"
  let ?C2 = "?C1\<lparr>cn_blocking_tasks := [], cn_requests := [peer_request], cn_request_hashes := {|request_hash ?E peer_request|}\<rparr>"
  have "connection_step ?v ?E ?A example_state connection_new (MbPeerRequest (Heartbeat peer_at_tip) True) = (?C1, Inr ())"
    by (simp add: handle_peer_request_def Let_def connection_new_def send_blocking_task_def)
  moreover have "mailbox_item_ok (MbPeerRequest (Heartbeat peer_at_tip) True)" by (simp add: peer_at_tip_def peer_tip_def)
  ultimately have C1: "connected ?v ?E ?C1" by (blast intro: connected.intros)
  have "connection_step ?v ?E ?A example_state ?C1 MbBlockingTask = (?C2, Inr ())"
    using peer_claims [of ?A]
    by (simp add: handle_peer_state_def no_tip_info check_peer_tip_and_request_headers_def Let_def request_headers_def
        send_request_def connection_new_def peer_at_tip_def try_get_header_def)
      (simp add: peer_tip_def peer_request_def peer_at_tip_def)
  from connected_step [OF C1 _ this] have C2: "connected ?v ?E ?C2" by simp
  have req: "cn_requests ?C2 = [peer_request]" by simp
  have "snd (handle_internal_message ?E ?C2 (HeadersAvailable ?id)) \<noteq> Inl (Err (PeMissingPeerState ?id))"
    using connection_requests [OF C2, THEN conjunct2, THEN conjunct1, rule_format, of peer_request]
    by (auto simp: asks_for_def peer_request_def)
  with C2 req show ?thesis by blast
qed

text \<open>Two tips on one mainchain block, the own at height 1 and the one of the peer at height 2.\<close>

definition two_tips :: "(hash list, cmx list, unit) archive" where
  "two_tips = ex_archive\<lparr>headers := fmupd (BlockHash 2) ex_header (fmupd (BlockHash 1) ex_header fmempty),
     block_hash_to_height := fmupd (BlockHash 2) 2 (fmupd (BlockHash 1) 1 fmempty)\<rparr>"

definition tip_at :: "nat \<Rightarrow> tip_info" where
  "tip_at n = \<lparr>block_height = n, ti_tip = \<lparr>tip_block_hash = BlockHash (word_of_nat n), tip_main_block_hash = MainHash 1\<rparr>, ti_total_work = 1\<rparr>"

theorem check_peer_tip_agrees_witness:
  "check_peer_tip_and_request_headers example_ext two_tips connection_new (Some (tip_at 1)) (tip_at 2) (PeerStateId 0)
      = (connection_new, Inr (Some True))
    \<and> better_tip two_tips (ti_tip (tip_at 1)) (ti_tip (tip_at 2)) = Inr (Some (ti_tip (tip_at 2)))"
proof -
  have "knows_tip two_tips (tip_at 1)" "knows_tip two_tips (tip_at 2)"
    by (simp_all add: knows_tip_def two_tips_def tip_at_def lookup_defs ex_archive_def)
  moreover have "better_tip two_tips (ti_tip (tip_at 1)) (ti_tip (tip_at 2)) = Inr (Some (ti_tip (tip_at 2)))"
    by (simp add: better_tip_def two_tips_def tip_at_def lookup_defs ex_archive_def)
  ultimately show ?thesis
    using check_peer_tip_agrees [of two_tips "tip_at 1" "tip_at 2" example_ext connection_new "PeerStateId 0"] by (simp add: tip_at_def)
qed

end
