(* ===== verification/Net_Sync.thy ===== *)
theory Net_Sync
  imports Net_Task Peer_Sync
begin

text \<open>
  What the net task makes of the responses of peers. The headers that a peer serves for a request are accepted by the node that asked, and complete
  its archive up to the requested block; and whatever peers send, in any order, the archive keeps its invariant and loses no header.
\<close>

section \<open>Serving headers\<close>

lemma sequential_snoc:
  "sequential E p (xs @ [x]) \<longleftrightarrow> sequential E p xs \<and> prev_side_hash x = (if xs = [] then p else Some (header_hash E (last xs)))"
  by (induction xs arbitrary: p) auto

lemma sequential_hd: "sequential E p xs \<Longrightarrow> xs \<noteq> [] \<Longrightarrow> prev_side_hash (hd xs) = p"
  by (cases xs) auto

text \<open>What \<open>headers_until\<close> collects from a block at height \<open>h\<close>, in ascending order.\<close>

definition header_chain ::
  "('acc, 'fr, 'pf) ext \<Rightarrow> ('acc, 'fr, 'pf) archive \<Rightarrow> block_hash fset \<Rightarrow> block_hash \<Rightarrow> nat \<Rightarrow> header list \<Rightarrow> bool" where
  "header_chain E B start b h hs \<longleftrightarrow> hs \<noteq> [] \<and> header_hash E (last hs) = b \<and> set hs \<subseteq> fmran' (headers B)
     \<and> sequential E (prev_side_hash (hd hs)) hs
     \<and> (case prev_side_hash (hd hs) of
          None \<Rightarrow> length hs = Suc h
        | Some s \<Rightarrow> s |\<in>| start \<and> s \<in> side_known B \<and> length hs \<le> h \<and> try_get_height B s = Some (h - length hs))"

lemma headers_until_chain:
  assumes inv: "archive_inv B" and keyed: "headers_keyed E B"
  shows "b \<in> side_known B \<Longrightarrow> try_get_height B b = Some h \<Longrightarrow> Suc h < fuel \<Longrightarrow>
    \<exists>hs. headers_until fuel B start (Some b) = Inr (rev hs)
      \<and> (if b |\<in>| start then hs = [] else header_chain E B start b h hs)"
proof (induction fuel arbitrary: b h)
  case 0
  then show ?case by simp
next
  case (Suc fuel)
  from Suc.prems(1) obtain hdr where hdr: "fmlookup (headers B) b = Some hdr" by (auto simp: side_known_iff)
  then have get: "get_header B b = Inr hdr" and par: "side_parent B b = prev_side_hash hdr"
    by (simp_all add: get_header_def try_get_header_def side_parent_def)
  have hash: "header_hash E hdr = b" and ran: "hdr \<in> fmran' (headers B)"
    using keyed hdr by (auto simp: headers_keyed_def fmran'I)
  show ?case
  proof (cases "b |\<in>| start")
    case True
    with get show ?thesis by simp
  next
    case new: False
    show ?thesis
    proof (cases h)
      case 0
      have "prev_side_hash hdr = None"
        using side.genesis [OF side_index_ok [OF inv] Suc.prems(1)] Suc.prems(2) 0 par by simp
      moreover obtain n where "fuel = Suc n" using Suc.prems(3) by (cases fuel) auto
      ultimately show ?thesis using get new hash ran 0 by (intro exI [of _ "[hdr]"]) (simp add: header_chain_def)
    next
      case (Suc k)
      then obtain p where p: "p \<in> side_known B" "prev_side_hash hdr = Some p" "try_get_height B p = Some k"
        using side.parent [OF side_index_ok [OF inv] Suc.prems(1)] Suc.prems(2) par by metis
      from Suc.IH [OF p(1,3)] Suc.prems(3) Suc obtain hs where
        hs: "headers_until fuel B start (Some p) = Inr (rev hs)"
          "if p |\<in>| start then hs = [] else header_chain E B start p k hs" by auto
      have "header_chain E B start b h (hs @ [hdr])"
      proof (cases "p |\<in>| start")
        case True
        with hs(2) p Suc hash ran show ?thesis by (simp add: header_chain_def)
      next
        case False
        with hs(2) p Suc hash ran show ?thesis
          by (auto simp: header_chain_def sequential_snoc split: option.splits)
      qed
      then show ?thesis using get new hs(1) p(2) by (intro exI [of _ "hs @ [hdr]"]) simp
    qed
  qed
qed

lemma handle_get_headers_chain:
  assumes inv: "archive_inv B" and keyed: "headers_keyed E B" and b: "b \<in> side_known B" "try_get_height B b = Some h"
    and new: "b |\<notin>| start"
  obtains hs where "handle_get_headers B start b = Inr (RespHeaders hs)" "header_chain E B start b h hs"
proof -
  have "Suc h < ancestor_fuel B" using height_bound [OF inv b] by (simp add: ancestor_fuel_def)
  from headers_until_chain [OF inv keyed b this, of start] new obtain hs where
    "headers_until (ancestor_fuel B) B start (Some b) = Inr (rev hs)" "header_chain E B start b h hs" by auto
  with b(1) show thesis
    by (intro that [of hs]) (simp_all add: handle_get_headers_def try_get_header_def side_known_iff)
qed

section \<open>Accepting headers\<close>

lemma parents_agree:
  assumes agree: "\<forall>b x y. fmlookup (headers A) b = Some x \<longrightarrow> fmlookup (headers B) b = Some y \<longrightarrow> x = y"
    and "b \<in> side_known A" "b \<in> side_known B"
  shows "side_parent A b = side_parent B b"
proof -
  obtain x y where "fmlookup (headers A) b = Some x" "fmlookup (headers B) b = Some y"
    using assms(2,3) by (auto simp: side_known_iff)
  moreover from this have "x = y" using agree by blast
  ultimately show ?thesis by (simp add: side_parent_def)
qed

lemma heights_agree:
  assumes inv: "archive_inv A" "archive_inv B"
    and agree: "\<forall>b x y. fmlookup (headers A) b = Some x \<longrightarrow> fmlookup (headers B) b = Some y \<longrightarrow> x = y"
  shows "b \<in> side_known A \<Longrightarrow> b \<in> side_known B \<Longrightarrow> try_get_height B b = Some h \<Longrightarrow> try_get_height A b = Some h"
proof (induction h arbitrary: b)
  case 0
  note okA = side_index_ok [OF inv(1)] and okB = side_index_ok [OF inv(2)]
  have same: "side_parent A b = side_parent B b" by (rule parents_agree [OF agree 0(1,2)])
  obtain k where k: "try_get_height A b = Some k" using side.height_known [OF okA 0(1)] by blast
  show ?case
  proof (cases k)
    case 0
    with k show ?thesis by simp
  next
    case (Suc j)
    then obtain p where "side_parent A b = Some p" using side.parent [OF okA 0(1)] k by metis
    with same side.genesis [OF okB 0(2,3)] show ?thesis by simp
  qed
next
  case (Suc h)
  note okA = side_index_ok [OF inv(1)] and okB = side_index_ok [OF inv(2)]
  have same: "side_parent A b = side_parent B b" by (rule parents_agree [OF agree Suc.prems(1,2)])
  obtain p where p: "p \<in> side_known B" "side_parent B b = Some p" "try_get_height B p = Some h"
    using side.parent [OF okB Suc.prems(2,3)] by metis
  have "p \<in> side_known A" using same p(2) Suc.prems(1) side_parent_known [OF inv(1)]
    by (auto simp: side_known_iff side_parent_def)
  from side.parent_height [OF okA Suc.prems(1) _ Suc.IH [OF this p(1,3)]] same p(2) show ?case by simp
qed

lemma check_headers_chain:
  assumes inv: "archive_inv A" "archive_inv B"
    and agree: "\<forall>b x y. fmlookup (headers A) b = Some x \<longrightarrow> fmlookup (headers B) b = Some y \<longrightarrow> x = y"
    and start: "fset start \<subseteq> side_known A" and chain: "header_chain E B start b h hs" and h: "Suc h < 2 ^ 32"
  shows "check_headers E A start b h hs = Inr True"
proof (cases "prev_side_hash (hd hs)")
  case None
  with chain have "hs \<noteq> []" "header_hash E (last hs) = b" "sequential E None hs" "length hs = Suc h"
    by (auto simp: header_chain_def)
  then show ?thesis using None h by (simp add: check_headers_def end_height_of_def sub_u32_def checked_sub_def)
next
  case (Some s)
  with chain have c: "hs \<noteq> []" "header_hash E (last hs) = b" "sequential E (Some s) hs"
    "s |\<in>| start" "s \<in> side_known B" "length hs \<le> h" "try_get_height B s = Some (h - length hs)"
    by (auto simp: header_chain_def)
  from heights_agree [OF inv agree _ c(5,7)] start c(4) have "get_height A s = Inr (h - length hs)"
    by (auto simp: get_height_def)
  then show ?thesis using c Some h by (simp add: check_headers_def end_height_of_def add_u32_def checked_add_def)
qed

section \<open>Storing headers\<close>

lemma put_header_main: "put_header E A h = Inr A' \<Longrightarrow> main_header_infos A' = main_header_infos A"
  using put_header_bmm_frame put_header_index_main by (fastforce simp: put_header_def result_simps)

text \<open>
  What holds of an archive whose headers come from a set \<open>H\<close> without collisions of hashes and whose mainchain blocks are those of a remote node.
\<close>

definition archive_ok ::
  "('acc, 'fr, 'pf) ext \<Rightarrow> header set \<Rightarrow> (main_hash \<Rightarrow> (block_header_info \<times> block_info) option)
    \<Rightarrow> ('acc, 'fr, 'pf) archive \<Rightarrow> bool" where
  "archive_ok E H R A \<longleftrightarrow> archive_inv A \<and> headers_keyed E A \<and> fmran' (headers A) \<subseteq> H \<and> agrees A R"

definition extends :: "('acc, 'fr, 'pf) archive \<Rightarrow> ('acc, 'fr, 'pf) archive \<Rightarrow> bool" where
  "extends A A' \<longleftrightarrow> (\<forall>b h. fmlookup (headers A) b = Some h \<longrightarrow> fmlookup (headers A') b = Some h)"

lemma extends_trans: "extends A B \<Longrightarrow> extends B C \<Longrightarrow> extends A C"
  by (auto simp: extends_def)

lemma extends_refl [simp]: "extends A A"
  by (simp add: extends_def)

lemma same_hash_same_header:
  assumes "inj_on (header_hash E) H" and "headers_keyed E A" "fmran' (headers A) \<subseteq> H" and "h \<in> H"
    and x: "fmlookup (headers A) (header_hash E h) = Some x"
  shows "x = h"
proof -
  have "x \<in> H" "header_hash E x = header_hash E h" using assms fmran'I [OF x] by (auto simp: headers_keyed_def)
  with assms(1,4) show ?thesis by (auto simp: inj_on_def)
qed

lemma put_header_ok:
  assumes coll: "inj_on (header_hash E) H" and A: "archive_ok E H R A" and h: "h \<in> H" and put: "put_header E A h = Inr A'"
  shows "archive_ok E H R A'" "extends A A'" "fmlookup (headers A') (header_hash E h) = Some h"
proof -
  have nocoll: "h' = h" if "fmlookup (headers A) (header_hash E h) = Some h'" for h'
    using same_hash_same_header [OF coll _ _ h that] A by (simp add: archive_ok_def)
  have inv: "archive_inv A" using A by (simp add: archive_ok_def)
  note f = put_header_inv [OF inv put nocoll]
  show "fmlookup (headers A') (header_hash E h) = Some h" by (simp add: f(4))
  have "fmran' (headers A') \<subseteq> H"
    using A h by (auto simp: archive_ok_def f(4) fmlookup_ran'_iff subset_iff split: if_splits)
  moreover have "headers_keyed E A'" using A by (simp add: archive_ok_def headers_keyed_def f(4))
  moreover have "agrees A' R" using A put_header_main [OF put] by (simp add: archive_ok_def agrees_def)
  ultimately show "archive_ok E H R A'" using f(1) by (simp add: archive_ok_def)
  show "extends A A'" using nocoll by (auto simp: extends_def f(4))
qed

lemma store_headers_ok:
  assumes coll: "inj_on (header_hash E) H"
  shows "archive_ok E H R A \<Longrightarrow> set hs \<subseteq> H \<Longrightarrow> store_headers E A hs = Inr A' \<Longrightarrow> archive_ok E H R A' \<and> extends A A'"
proof (induction hs arbitrary: A)
  case Nil
  then show ?case by simp
next
  case (Cons h hs)
  then have rest: "set hs \<subseteq> H" "h \<in> H" by simp_all
  show ?case
  proof (cases "try_get_header A (header_hash E h)")
    case (Some x)
    with Cons rest show ?thesis by simp
  next
    case None
    show ?thesis
    proof (cases "case prev_side_hash h of None \<Rightarrow> False | Some parent \<Rightarrow> try_get_header A parent = None")
      case True
      with None Cons.prems show ?thesis by simp
    next
      case False
      with None Cons.prems(3) obtain B where B: "put_header E A h = Inr B" "store_headers E B hs = Inr A'"
        by (auto simp: result_simps)
      note put = put_header_ok [OF coll Cons.prems(1) rest(2) B(1)]
      from Cons.IH [OF put(1) rest(1) B(2)] put(2) show ?thesis using extends_trans by blast
    qed
  qed
qed

lemma store_sequential_knows:
  assumes coll: "inj_on (header_hash E) H"
  shows "archive_ok E H R A \<Longrightarrow> set hs \<subseteq> H \<Longrightarrow> store_headers E A hs = Inr A' \<Longrightarrow> sequential E p hs \<Longrightarrow>
    (case p of None \<Rightarrow> True | Some b \<Rightarrow> b \<in> side_known A) \<Longrightarrow> \<forall>h\<in>set hs. fmlookup (headers A') (header_hash E h) = Some h"
proof (induction hs arbitrary: A p)
  case Nil
  then show ?case by simp
next
  case (Cons h hs)
  have next_ok: "\<forall>x\<in>set (h # hs). fmlookup (headers A') (header_hash E x) = Some x"
    if B: "archive_ok E H R B" "store_headers E B hs = Inr A'" "fmlookup (headers B) (header_hash E h) = Some h" for B
  proof -
    have "header_hash E h \<in> side_known B" using B(3) by (simp add: side_known_iff)
    with Cons.IH [OF B(1) _ B(2), of "Some (header_hash E h)"] Cons.prems(2,4)
    have "\<forall>x\<in>set hs. fmlookup (headers A') (header_hash E x) = Some x" by simp
    moreover have "extends B A'" using store_headers_ok [OF coll B(1) _ B(2)] Cons.prems(2) by simp
    ultimately show ?thesis using B(3) by (auto simp: extends_def)
  qed
  show ?case
  proof (cases "try_get_header A (header_hash E h)")
    case (Some x)
    then have x: "fmlookup (headers A) (header_hash E h) = Some x" by (simp add: try_get_header_def)
    then have "x = h" using same_hash_same_header [OF coll _ _ _ x] Cons.prems(1,2) by (simp add: archive_ok_def)
    with x Some Cons.prems(1,3) show ?thesis by (intro next_ok [of A]) simp_all
  next
    case None
    from Cons.prems(4,5) have "\<not> (case prev_side_hash h of None \<Rightarrow> False | Some parent \<Rightarrow> try_get_header A parent = None)"
      by (auto simp: side_known_iff try_get_header_def split: option.splits)
    with None Cons.prems(3) obtain B where B: "put_header E A h = Inr B" "store_headers E B hs = Inr A'"
      by (auto simp: result_simps)
    with put_header_ok [OF coll Cons.prems(1) _ B(1)] Cons.prems(2) show ?thesis by (intro next_ok [of B]) simp_all
  qed
qed

text \<open>
  C5. Headers are synchronised: a node that lacks a block asks a peer for the headers from blocks of its own chain to that block. The peer, whose archive is well formed,
  serves them; the node accepts the response (the end, the start, the height and the links are as it checks), and when they are
  stored it has the header of the block and of all its ancestors, keeps every header it had, and its archive is well formed.
  No two headers of the two nodes have the same hash.
\<close>

theorem header_sync:
  assumes A: "archive_ok E H R A" and B: "archive_inv B" "headers_keyed E B" "fmran' (headers B) \<subseteq> H"
    and coll: "inj_on (header_hash E) H"
    and start: "fset start \<subseteq> side_known A" and b: "b \<in> side_known B" "b \<notin> side_known A"
    and h: "try_get_height B b = Some h" "Suc h < 2 ^ 32"
  shows "\<exists>hs. handle_get_headers B start b = Inr (RespHeaders hs) \<and> check_headers E A start b h hs = Inr True
    \<and> (\<forall>A'. store_headers E A hs = Inr A' \<longrightarrow> archive_ok E H R A' \<and> extends A A' \<and> try_get_height A' b = Some h)"
proof -
  have inv: "archive_inv A" using A by (simp add: archive_ok_def)
  have agree: "\<forall>c x y. fmlookup (headers A) c = Some x \<longrightarrow> fmlookup (headers B) c = Some y \<longrightarrow> x = y"
    if "archive_ok E H R A" for A
  proof (intro allI impI)
    fix c x y
    assume x: "fmlookup (headers A) c = Some x" and y: "fmlookup (headers B) c = Some y"
    have "y \<in> H" "header_hash E y = c" using B(2,3) y fmran'I [OF y] by (auto simp: headers_keyed_def)
    with same_hash_same_header [OF coll, of A y x] that x show "x = y" by (simp add: archive_ok_def)
  qed
  have "b |\<notin>| start" using start b(2) by auto
  from handle_get_headers_chain [OF B(1,2) b(1) h(1) this] obtain hs where
    hs: "handle_get_headers B start b = Inr (RespHeaders hs)" "header_chain E B start b h hs" .
  have sub: "set hs \<subseteq> H" using hs(2) B(3) by (auto simp: header_chain_def)
  have "archive_ok E H R A' \<and> extends A A' \<and> try_get_height A' b = Some h" if run: "store_headers E A hs = Inr A'" for A'
  proof -
    from store_headers_ok [OF coll A sub run] have ok: "archive_ok E H R A'" "extends A A'" by auto
    from hs(2) have "sequential E (prev_side_hash (hd hs)) hs" "last hs \<in> set hs" "header_hash E (last hs) = b"
      "case prev_side_hash (hd hs) of None \<Rightarrow> True | Some s \<Rightarrow> s \<in> side_known A"
      using start by (auto simp: header_chain_def split: option.splits)
    with store_sequential_knows [OF coll A sub run] have "fmlookup (headers A') b = Some (last hs)" by blast
    then have known: "b \<in> side_known A'" by (simp add: side_known_iff)
    have "archive_inv A'" using ok(1) by (simp add: archive_ok_def)
    from heights_agree [OF this B(1) agree [OF ok(1)] known b(1) h(1)] have "try_get_height A' b = Some h" by blast
    with ok show ?thesis by simp
  qed
  with hs(1) check_headers_chain [OF inv B(1) agree [OF A] start hs(2) h(2)] show ?thesis by blast
qed

section \<open>The archive during a run of the net task\<close>

lemma archive_ok_other_fields [simp]:
  "archive_ok E H R (put_orchard_frontier A b f) \<longleftrightarrow> archive_ok E H R A"
  "archive_ok E H R (put_accumulator A b acc) \<longleftrightarrow> archive_ok E H R A"
  "archive_ok E H R (A\<lparr>bodies := bs, txid_to_inclusions := t\<rparr>) \<longleftrightarrow> archive_ok E H R A"
  using archive_frame [of "put_orchard_frontier A b f" A] archive_frame [of "put_accumulator A b acc" A]
    archive_frame [of "A\<lparr>bodies := bs, txid_to_inclusions := t\<rparr>" A]
  by (simp_all add: archive_ok_def headers_keyed_def agrees_def put_orchard_frontier_def put_accumulator_def)

lemma extends_other_fields [simp]:
  "extends B (put_orchard_frontier A b f) \<longleftrightarrow> extends B A"
  "extends B (put_accumulator A b acc) \<longleftrightarrow> extends B A"
  "extends B (A\<lparr>bodies := bs, txid_to_inclusions := t\<rparr>) \<longleftrightarrow> extends B A"
  by (simp_all add: extends_def put_orchard_frontier_def put_accumulator_def)

lemma put_body_ok:
  assumes "archive_ok E H R A" and "put_body E A b body = Inr A'"
  shows "archive_ok E H R A'" "extends A A'"
  using assms(1) by (auto intro: put_body_Inr [OF assms(2)])

lemma node_connect_tip_archive:
  assumes coll: "inj_on (header_hash E) H" and N: "archive_ok E H R (nd_archive N)" and h: "h \<in> H"
    and run: "node_connect_tip E N h b data = Inr N'"
  shows "archive_ok E H R (nd_archive N')" "extends (nd_archive N) (nd_archive N')"
proof -
  from run obtain A1 acc A2 A3 where
    A1: "A1 = nd_archive N \<or> (\<exists>f. A1 = put_orchard_frontier (nd_archive N) (header_hash E h) f)"
    and A2: "put_header E A1 h = Inr A2" and A3: "put_body E A2 (header_hash E h) b = Inr A3"
    and A': "nd_archive N' = put_accumulator A3 (header_hash E h) acc"
    by (rule node_connect_tip_Inr)
  have ok1: "archive_ok E H R A1" "extends (nd_archive N) A1" using A1 N by auto
  note ok2 = put_header_ok [OF coll ok1(1) h A2]
  note ok3 = put_body_ok [OF ok2(1) A3]
  show "archive_ok E H R (nd_archive N')" using A' ok3(1) by simp
  show "extends (nd_archive N) (nd_archive N')"
    using A' extends_trans [OF extends_trans [OF ok1(2) ok2(2)] ok3(2)] by simp
qed

lemma apply_step_archive:
  assumes coll: "inj_on (header_hash E) H" and N: "archive_ok E H R (nd_archive N)" and h: "fst hb \<in> H"
    and run: "apply_step E tip N batch hb = Inr (N', batch', c)"
  shows "archive_ok E H R (nd_archive N')" "extends (nd_archive N) (nd_archive N')"
proof -
  obtain data rest where "fill_2wpd (prev_main_hash (fst hb)) [] batch = (data, rest)" by fastforce
  with run have "node_connect_tip E N (fst hb) (snd hb) data = Inr N'"
    by (cases hb) (auto simp: apply_step_def Let_def result_simps split: option.split_asm)
  from node_connect_tip_archive [OF coll N h this]
  show "archive_ok E H R (nd_archive N')" "extends (nd_archive N) (nd_archive N')" .
qed

lemma apply_blocks_archive:
  assumes coll: "inj_on (header_hash E) H"
  shows "archive_ok E H R (nd_archive C) \<and> extends A (nd_archive C) \<Longrightarrow> archive_ok E H R (nd_archive N) \<and> extends A (nd_archive N) \<Longrightarrow>
    fst ` set hbs \<subseteq> H \<Longrightarrow> apply_blocks E tip new_tip C N batch hbs = (N', r) \<Longrightarrow>
    archive_ok E H R (nd_archive N') \<and> extends A (nd_archive N')"
proof (induction hbs arbitrary: C N batch)
  case Nil
  then show ?case by (auto split: if_splits)
next
  case (Cons hb hbs)
  show ?case
  proof (cases "apply_step E tip N batch hb")
    case (Inl e)
    with Cons.prems show ?thesis by auto
  next
    case (Inr x)
    then obtain M batch' c where x: "apply_step E tip N batch hb = Inr (M, batch', c)" by (cases x) auto
    have N: "archive_ok E H R (nd_archive N)" and hb: "fst hb \<in> H" using Cons.prems by auto
    note step = apply_step_archive [OF coll N hb x]
    from step extends_trans [OF _ step(2)] Cons.prems(2)
    have M: "archive_ok E H R (nd_archive M) \<and> extends A (nd_archive M)" by blast
    then have "archive_ok E H R (nd_archive (if c then M else C)) \<and> extends A (nd_archive (if c then M else C))"
      using Cons.prems(1) by simp
    from Cons.IH [OF this M] Cons.prems(3,4) x show ?thesis by simp
  qed
qed

lemma disconnect_tips_archive: "disconnect_tips E n N = Inr N' \<Longrightarrow> nd_archive N' = nd_archive N"
proof (induction n arbitrary: N)
  case (Suc n)
  then obtain M where "node_disconnect_tip E N = Inr M" "disconnect_tips E n M = Inr N'" by (auto simp: result_simps)
  moreover from this(1) have "nd_archive M = nd_archive N" by (auto simp: node_disconnect_tip_def Let_def result_simps)
  ultimately show ?case using Suc.IH by simp
qed simp

lemma header_and_body_ran: "header_and_body A b = Inr hb \<Longrightarrow> fst hb \<in> fmran' (headers A)"
  by (auto simp: header_and_body_def get_header_def try_get_header_def result_simps intro: fmran'I)

lemma ancestors_to_ran: "ancestors_to fuel A common b = Inr hbs \<Longrightarrow> fst ` set hbs \<subseteq> fmran' (headers A)"
proof (induction fuel arbitrary: b hbs)
  case (Suc fuel)
  show ?case
  proof (cases b)
    case None
    with Suc.prems show ?thesis by simp
  next
    case (Some x)
    with Suc.prems obtain header where "get_header A x = Inr header" and
      "hbs = [] \<or> (\<exists>hb rest. header_and_body A x = Inr hb \<and> ancestors_to fuel A common (prev_side_hash header) = Inr rest
        \<and> hbs = hb # rest)"
      by (auto simp: result_simps split: if_splits)
    then show ?thesis by (fastforce dest!: header_and_body_ran Suc.IH)
  qed
qed simp

lemma reorg_to_tip_archive:
  assumes coll: "inj_on (header_hash E) H" and N: "archive_ok E H R (nd_archive N)" and run: "reorg_to_tip E N new_tip = (N', r)"
  shows "archive_ok E H R (nd_archive N') \<and> extends (nd_archive N) (nd_archive N')"
proof (cases "reorg_prepare E N new_tip")
  case (Inl e)
  with run N show ?thesis by (auto simp: reorg_to_tip_def)
next
  case (Inr x)
  show ?thesis
  proof (cases x)
    case None
    with Inr run N show ?thesis by (auto simp: reorg_to_tip_def)
  next
    case (Some y)
    then obtain tip N1 blocks batch where prep: "reorg_prepare E N new_tip = Inr (Some (tip, N1, blocks, batch))"
      using Inr by (cases y) auto
    then obtain common n where
      "blocks_to_apply (nd_archive N) common (tip_block_hash new_tip) = Inr blocks" and disc: "disconnect_tips E n N = Inr N1"
      by (auto simp: reorg_prepare_def result_simps split: option.splits if_splits)
    then have "fst ` set blocks \<subseteq> fmran' (headers (nd_archive N))"
      using header_and_body_ran ancestors_to_ran by (fastforce simp: blocks_to_apply_def result_simps)
    then have blocks: "fst ` set (rev blocks) \<subseteq> H" using N by (auto simp: archive_ok_def)
    have N1: "archive_ok E H R (nd_archive N1) \<and> extends (nd_archive N) (nd_archive N1)"
      using disconnect_tips_archive [OF disc] N by simp
    from run prep have "apply_blocks E tip new_tip N N1 batch (rev blocks) = (N', r)" by (simp add: reorg_to_tip_def)
    from apply_blocks_archive [OF coll _ N1 blocks this] N show ?thesis by simp
  qed
qed

text \<open>The mainchain task, with any fuel.\<close>

lemma collect_infos_linked:
  assumes serves: "serves remote R"
  shows "collect_infos fuel A remote m infos = Inr (Some infos') \<Longrightarrow> linked R start infos \<Longrightarrow>
    m = (if infos = [] then start else prev_block_hash (fst (last infos))) \<Longrightarrow> linked R start infos'"
proof (induction fuel arbitrary: m infos)
  case 0
  then show ?case by simp
next
  case (Suc fuel)
  show ?case
  proof (cases "R m")
    case None
    then show ?thesis using servesD(1) [OF serves None] Suc.prems(1) by simp
  next
    case (Some z)
    from servesD(2) [OF serves Some] obtain y ys where
      resp: "remote m (BATCH_REQUEST_SIZE - 1) = Inr (Some (y, ys))" "linked R m (y # ys)" by blast
    have link: "linked R start (infos @ y # ys)" using Suc.prems(2,3) resp(2) by (auto simp: linked_append)
    from Suc.prems(1) resp(1) have "infos' = infos @ y # ys
        \<or> collect_infos fuel A remote (prev_block_hash (fst (last (y # ys)))) (infos @ y # ys) = Inr (Some infos')"
      by (auto simp: Let_def split: if_splits)
    with Suc.IH [OF _ link] link show ?thesis by auto
  qed
qed

lemma request_ancestor_infos_archive:
  assumes serves: "serves remote R" and A: "archive_ok E H R A" and run: "request_ancestor_infos fuel remote A m = (A', r)"
  shows "archive_ok E H R A' \<and> extends A A'"
proof (cases "A' = A")
  case True
  with A show ?thesis by simp
next
  case False
  with run obtain infos where infos: "collect_infos fuel A remote m [] = Inr (Some infos)"
    and store: "fold_res store_main_info A (rev infos) = Inr A'"
    by (auto simp: request_ancestor_infos_def map_err_eq_Inr split: if_splits sum.splits option.splits)
  have ok: "main_blocks_ok R" using serves by (simp add: serves_def)
  from collect_infos_linked [OF serves infos, of m] have "linked R m infos" by simp
  from store_chain_inv [OF ok _ _ this store] A show ?thesis by (simp add: archive_ok_def extends_def headers_keyed_def)
qed

lemma mainchain_step_archive:
  assumes "serves remote R" and "archive_ok E H R A" and "mainchain_step fuel remote A M = ((A', M'), r)"
  shows "archive_ok E H R A' \<and> extends A A'"
proof (cases "mt_requests M")
  case Nil
  with assms show ?thesis by simp
next
  case (Cons x rest)
  obtain m oneshot where x: "x = (RequestAncestorInfos m, oneshot)" by (cases x; cases "fst x") auto
  obtain B res where B: "request_ancestor_infos fuel remote A m = (B, res)" by fastforce
  then have "A' = B" using assms(3) Cons x by (auto simp: Let_def split: option.splits if_splits)
  with request_ancestor_infos_archive [OF assms(1,2) B] show ?thesis by simp
qed

text \<open>Steps of the net task that only touch queues and peers.\<close>

lemma nt_dbs_frame [simp]:
  "nt_dbs (add_descendant_tip b tip sources T) = nt_dbs T"
  "nt_dbs (send_new_tip tip source resp T) = nt_dbs T"
  "nt_dbs (push_message T message addr) = nt_dbs T"
  "nt_dbs (fst (invalid_response T addr)) = nt_dbs T"
  "nt_dbs (heartbeat_timeout T addr) = nt_dbs T"
  by (simp_all add: add_descendant_tip_def send_new_tip_def push_message_def invalid_response_def heartbeat_timeout_def
      Let_def split: option.split)

lemma fold_nt_dbs: "(\<And>x T. nt_dbs (f x T) = nt_dbs T) \<Longrightarrow> nt_dbs (fold f xs T) = nt_dbs T"
  by (induction xs arbitrary: T) auto

lemma fold_send_dbs [simp]: "nt_dbs (fold (\<lambda>addr. send_new_tip tip (Some addr) None) xs T) = nt_dbs T"
  by (rule fold_nt_dbs) simp

lemma then_do_frame:
  assumes "g (fst p) = c" and "\<And>s a. g s = c \<Longrightarrow> g (fst (f s a)) = c"
  shows "g (fst (then_do p f)) = c"
  using assms by (cases p; cases "snd p") (auto simp: then_do_def)

lemma apply_descendant_tip_dbs: "nt_dbs (fst (apply_descendant_tip tip T x)) = nt_dbs T"
  unfolding apply_descendant_tip_def
  by (cases x) (auto intro!: then_do_frame [where g = nt_dbs] simp: Let_def split: option.splits)

lemma apply_descendant_tips_dbs: "nt_dbs (fst (apply_descendant_tips tip T xs)) = nt_dbs T"
  by (induction xs arbitrary: T) (auto intro!: then_do_frame [where g = nt_dbs] simp: apply_descendant_tip_dbs)

lemma check_new_tips_dbs: "nt_dbs (fst (check_new_tips T addr h b tip)) = nt_dbs T"
  unfolding check_new_tips_def
  by (auto intro!: then_do_frame [where g = nt_dbs] simp: apply_descendant_tips_dbs Let_def split: option.splits)

lemma notify_bodies_dbs: "nt_dbs (fst (notify_bodies T addr b ancestor tip psid)) = nt_dbs T"
  by (simp add: notify_bodies_def split: sum.split option.split)

text \<open>The headers that an item carries.\<close>

fun item_headers :: "'pf net_item \<Rightarrow> header set" where
  "item_headers (PeerInfo (Some (addr, Some (InfoResponse (RespHeaders hs) req)))) = set hs"
| "item_headers item = {}"

definition keeps_archive ::
  "('acc, 'fr, 'pf) ext \<Rightarrow> header set \<Rightarrow> (main_hash \<Rightarrow> (block_header_info \<times> block_info) option)
    \<Rightarrow> ('acc, 'fr, 'pf) net_task \<Rightarrow> ('acc, 'fr, 'pf) net_task \<Rightarrow> bool" where
  "keeps_archive E H R T T' \<longleftrightarrow> (archive_ok E H R (nt_archive T) \<longrightarrow>
     archive_ok E H R (nt_archive T') \<and> extends (nt_archive T) (nt_archive T'))"

lemma keeps_archive_dbs: "nt_dbs T' = nt_dbs T \<Longrightarrow> keeps_archive E H R T T'"
  by (simp add: keeps_archive_def)

lemma keeps_archive_trans: "keeps_archive E H R T T' \<Longrightarrow> keeps_archive E H R T' T'' \<Longrightarrow> keeps_archive E H R T T''"
  using extends_trans by (auto simp: keeps_archive_def)

lemma handle_block_keeps: "keeps_archive E H R T (fst (handle_block E T addr req tip psid h body))"
proof (cases "header_hash E h \<noteq> gb_block_hash req")
  case True
  then show ?thesis by (simp add: handle_block_def keeps_archive_dbs)
next
  case False
  show ?thesis
  proof (cases "put_body E (nt_archive T) (gb_block_hash req) body")
    case (Inl e)
    with False show ?thesis by (simp add: handle_block_def keeps_archive_dbs)
  next
    case (Inr A)
    have "keeps_archive E H R T (set_archive A T)" using put_body_ok [OF _ Inr] by (simp add: keeps_archive_def set_archive_def)
    moreover have "nt_dbs (fst (handle_block E T addr req tip psid h body)) = nt_dbs (set_archive A T)"
      using False Inr by (auto intro!: then_do_frame [where g = nt_dbs] simp: handle_block_def Let_def notify_bodies_dbs check_new_tips_dbs)
    ultimately show ?thesis by (simp add: keeps_archive_def)
  qed
qed

lemma handle_headers_keeps:
  assumes coll: "inj_on (header_hash E) H" and hs: "set hs \<subseteq> H"
  shows "keeps_archive E H R T (fst (handle_headers E T addr start b height psid hs))"
proof (cases "check_headers E (nt_archive T) start b height hs = Inr True")
  case False
  then show ?thesis
    by (cases "check_headers E (nt_archive T) start b height hs") (auto simp: handle_headers_def map_err_def split: fail.split intro!: keeps_archive_dbs)
next
  case True
  show ?thesis
  proof (cases "store_headers E (nt_archive T) hs")
    case (Inl e)
    with True show ?thesis by (auto simp: handle_headers_def map_err_def split: fail.split intro!: keeps_archive_dbs)
  next
    case (Inr A)
    with True store_headers_ok [OF coll _ hs Inr] show ?thesis
      by (simp add: handle_headers_def keeps_archive_def set_archive_def)
  qed
qed

lemma handle_response_keeps:
  assumes coll: "inj_on (header_hash E) H" and hs: "\<And>hs. resp = RespHeaders hs \<Longrightarrow> set hs \<subseteq> H"
  shows "keeps_archive E H R T (fst (handle_response E T addr resp req))"
  using handle_block_keeps handle_headers_keeps [OF coll hs]
  by (cases resp; cases req) (auto simp: keeps_archive_dbs split: option.split)

lemma apply_new_tip_keeps:
  assumes coll: "inj_on (header_hash E) H"
  shows "keeps_archive E H R T (fst (apply_new_tip E T))"
proof (cases "nt_new_tips T")
  case Nil
  then show ?thesis by (simp add: apply_new_tip_def keeps_archive_dbs)
next
  case (Cons x rest)
  obtain tip addr resp where x: "x = (tip, addr, resp)" by (cases x)
  obtain N r where run: "reorg_to_tip E (nt_dbs T) tip = (N, r)" by fastforce
  then have "nt_dbs (fst (apply_new_tip E T)) = N"
    using Cons x by (auto simp: apply_new_tip_def Let_def intro!: then_do_frame [where g = nt_dbs] split: option.split)
  with reorg_to_tip_archive [OF coll _ run] show ?thesis by (simp add: keeps_archive_def)
qed

lemma fold_push_dbs [simp]: "nt_dbs (fold (\<lambda>(addr, psid) T. push_message T (f psid) addr) xs T) = nt_dbs T"
  by (rule fold_nt_dbs) auto

lemma queue_steps_dbs:
  "nt_dbs (fst (forward_mainchain_request T)) = nt_dbs T"
  "nt_dbs (fst (receive_mainchain_response T)) = nt_dbs T"
proof -
  show "nt_dbs (fst (forward_mainchain_request T)) = nt_dbs T"
    by (auto simp: forward_mainchain_request_def Let_def split: list.split sum.split)
  show "nt_dbs (fst (receive_mainchain_response T)) = nt_dbs T"
    by (auto simp: receive_mainchain_response_def Let_def split: list.split main_response.split option.split)
qed

lemma new_transaction_archive: "nt_archive (fst (receive_new_transaction E T addr tx)) = nt_archive T"
  unfolding receive_new_transaction_def Let_def
  by (auto intro!: then_do_frame [where g = nt_archive])

lemma net_step_keeps:
  assumes coll: "inj_on (header_hash E) H" and hs: "item_headers item \<subseteq> H"
  shows "keeps_archive E H R T (fst (net_step quinn E T item))"
proof (cases "(quinn, E, T, item)" rule: net_step.cases)
  case (7 quinn' E' T' addr i)
  show ?thesis
  proof (cases i)
    case (InfoResponse resp req)
    have "set hs \<subseteq> H" if "resp = RespHeaders hs" for hs using hs 7 InfoResponse that by simp
    from handle_response_keeps [OF coll this] show ?thesis using 7 InfoResponse by simp
  next
    case (NewTransaction tx)
    with 7 new_transaction_archive [of E T addr tx] show ?thesis by (simp add: keeps_archive_def)
  qed (use 7 in \<open>simp_all add: keeps_archive_dbs\<close>)
qed (use apply_new_tip_keeps [OF coll] in \<open>auto simp: keeps_archive_dbs queue_steps_dbs split: list.split\<close>)

text \<open>
  A run of the node: items of the net task, requests of the mainchain task, tips submitted by the node itself, and anything that happens to
  the table of peers, in any order.
\<close>

inductive net_run ::
  "(socket_addr \<Rightarrow> connect_error option) \<Rightarrow> ('acc, 'fr, 'pf) ext \<Rightarrow> header set \<Rightarrow> remote_infos
    \<Rightarrow> ('acc, 'fr, 'pf) net_task \<Rightarrow> ('acc, 'fr, 'pf) net_task \<Rightarrow> bool"
  for quinn E H remote T where
  net_run_start: "net_run quinn E H remote T T"
| net_run_item: "net_run quinn E H remote T U \<Longrightarrow> item_headers item \<subseteq> H \<Longrightarrow> net_step quinn E U item = (V, r) \<Longrightarrow>
    net_run quinn E H remote T V"
| net_run_mainchain: "net_run quinn E H remote T U \<Longrightarrow>
    mainchain_step fuel remote (nt_archive U) (nt_mainchain U) = ((A, M), r) \<Longrightarrow>
    net_run quinn E H remote T ((set_archive A U)\<lparr>nt_mainchain := M\<rparr>)"
| net_run_confirm: "net_run quinn E H remote T U \<Longrightarrow> net_run quinn E H remote T (push_new_tip_confirm tip U)"
| net_run_peers: "net_run quinn E H remote T U \<Longrightarrow> net_run quinn E H remote T (U\<lparr>nt_net := net\<rparr>)"

text \<open>
  C6. Whatever peers send and however the steps of the net task, of the mainchain task and of the node interleave, errors included, the archive keeps its
  invariant, stores headers under their hashes, agrees with the mainchain of the validator, and never loses a header.
  No two of the headers that occur have the same hash, and the validator answers with chains of its own blocks.
\<close>

theorem net_run_keeps_archive:
  assumes run: "net_run quinn E H remote T T'" and coll: "inj_on (header_hash E) H" and serves: "serves remote R"
    and ok: "archive_ok E H R (nt_archive T)"
  shows "archive_ok E H R (nt_archive T') \<and> extends (nt_archive T) (nt_archive T')"
proof -
  from run have "keeps_archive E H R T T'"
  proof (induction rule: net_run.induct)
    case (net_run_item U item V r)
    with net_step_keeps [OF coll net_run_item(2), of R U quinn] show ?case by (auto intro: keeps_archive_trans)
  next
    case (net_run_mainchain U fuel A M r)
    have "keeps_archive E H R U ((set_archive A U)\<lparr>nt_mainchain := M\<rparr>)"
      using mainchain_step_archive [OF serves _ net_run_mainchain(2)] by (simp add: keeps_archive_def set_archive_def)
    with net_run_mainchain show ?case by (auto intro: keeps_archive_trans)
  qed (auto simp: push_new_tip_confirm_def keeps_archive_def)
  with ok show ?thesis by (simp add: keeps_archive_def)
qed

section \<open>A transaction from a peer\<close>

text \<open>
  C11. A transaction that a peer pushed and that is not in the pool: the net task goes on if and only if its proof can be generated and it conflicts with no transaction of
  the pool; then it is in the pool and pushed to every other connected peer. Otherwise the error ends the net task, and nothing has changed.
\<close>

theorem new_transaction_from_peer:
  assumes ok: "mempool_ok E (nd_mempool (nt_dbs T))"
    and new: "fmlookup (mp_transactions (nd_mempool (nt_dbs T))) (tx_txid E (transaction at)) = None"
    and step: "net_step quinn E T (PeerInfo (Some (addr, Some (NewTransaction at)))) = (T', r)"
  shows "(r = Inr () \<longleftrightarrow> (\<exists>tx. regenerate_proof E (nd_state (nt_dbs T)) (transaction at) = Inr tx)
        \<and> distinct (map fst (inputs (transaction at))) \<and> distinct (tx_nullifiers (transaction at))
        \<and> conflict_free (nd_mempool (nt_dbs T)) (transaction at))
    \<and> (r = Inr () \<longrightarrow> mempool_ok E (nd_mempool (nt_dbs T')) \<and> (\<exists>p.
          fmlookup (mp_transactions (nd_mempool (nt_dbs T'))) (tx_txid E (transaction at)) = Some (with_proof at p)
          \<and> (\<forall>peer h. peer \<noteq> addr \<longrightarrow> fmlookup (active_peers (nt_net T)) peer = Some h \<longrightarrow> connection_status h = Connected \<longrightarrow>
               ch_listening h \<longrightarrow> fmlookup (active_peers (nt_net T')) peer
                 = Some (h\<lparr>ch_messages := ch_messages h @ [ForwardRequest (PushTransaction (with_proof at p))]\<rparr>))))
    \<and> (r \<noteq> Inr () \<longrightarrow> T' = T)"
proof (cases "regenerate_proof E (nd_state (nt_dbs T)) (transaction at)")
  case (Inl e)
  with step show ?thesis by (cases e) (auto simp: receive_new_transaction_def Let_def map_err_def)
next
  case (Inr tx)
  then obtain p where p: "tx = (transaction at)\<lparr>utreexo_proof := p\<rparr>" by (auto simp: regenerate_proof_def result_simps)
  let ?at = "with_proof at p" and ?M = "nd_mempool (nt_dbs T)" and ?N = "nt_dbs T"
  have at: "at\<lparr>transaction := tx\<rparr> = ?at" by (simp add: p with_proof_def)
  have cf: "conflict_free ?M (transaction ?at) \<longleftrightarrow> conflict_free ?M (transaction at)" by (simp add: conflict_free_def)
  have run: "then_do (T, map_err NtMemPool (mempool_put E ?M ?at)) (\<lambda>T M.
      (T\<lparr>nt_dbs := ?N\<lparr>nd_mempool := M\<rparr>, nt_net := push_tx (nt_net T) {|addr|} ?at\<rparr>, Inr ())) = (T', r)"
    using step Inr at by (simp add: receive_new_transaction_def Let_def)
  let ?fits = "distinct (map fst (inputs (transaction at))) \<and> distinct (tx_nullifiers (transaction at))
    \<and> conflict_free ?M (transaction at)"
  show ?thesis
  proof (cases ?fits)
    case True
    let ?M' = "with_entry ?M (tx_txid E (transaction at)) ?at"
    have put: "mempool_put E ?M ?at = Inr ?M'" using mempool_put_Inr [OF ok, of ?at ?M'] True cf new by simp
    with run have T': "r = Inr ()" "T' = T\<lparr>nt_dbs := ?N\<lparr>nd_mempool := ?M'\<rparr>, nt_net := push_tx (nt_net T) {|addr|} ?at\<rparr>" by auto
    have "mempool_ok E ?M'" using with_entry_ok [OF ok, of _ ?at] True cf new by simp
    moreover have "fmlookup (mp_transactions ?M') (tx_txid E (transaction at)) = Some ?at" by (simp add: with_entry_def)
    moreover have "fmlookup (active_peers (push_tx (nt_net T) {|addr|} ?at)) peer
        = Some (h\<lparr>ch_messages := ch_messages h @ [ForwardRequest (PushTransaction ?at)]\<rparr>)"
      if "peer \<noteq> addr" "fmlookup (active_peers (nt_net T)) peer = Some h" "connection_status h = Connected" "ch_listening h" for peer h
      using that by (simp add: push_tx_def)
    ultimately show ?thesis using T' True Inr by auto
  next
    case False
    have "\<exists>e. mempool_put E ?M ?at = Inl e"
    proof (cases "mempool_put E ?M ?at")
      case (Inr M)
      with mempool_put_Inr [OF ok, of ?at M] False cf new show ?thesis by simp
    qed simp
    then obtain e where "mempool_put E ?M ?at = Inl e" ..
    with run False show ?thesis by (cases e) (auto simp: map_err_def)
  qed
qed

section \<open>An example\<close>

text \<open>A new node with one peer, which has a block.\<close>

definition example_peer :: socket_addr where
  "example_peer = SocketAddr (Ipv4 1) 4098"

definition example_net_task :: "unit mempool \<Rightarrow> (hash list, cmx list, unit) net_task" where
  "example_net_task M = \<lparr>nt_dbs = (ex_node example_archive)\<lparr>nd_mempool := M\<rparr>,
     nt_net = \<lparr>net_network = Regtest, active_peers = fmupd example_peer peer_handle fmempty, known_peers = {|example_peer|}\<rparr>,
     nt_mainchain = \<lparr>mt_requests = [], mt_request_rx = True, mt_responses = [], mt_response_rx = True, mt_oneshots = []\<rparr>,
     nt_forward_requests = [], nt_new_tips = [], nt_reorg_results = [], nt_descendant_tips = fmempty,
     nt_request_sources = fmempty, nt_reconnects = []\<rparr>"

lemma example_archive_ok: "archive_ok example_ext {ex_header} (\<lambda>_. None) example_archive"
  using example_archive_inv
  by (auto simp: archive_ok_def headers_keyed_def agrees_def example_archive_def empty_archive_def fmlookup_ran'_iff)

lemma example_store:
  obtains A where "store_headers example_ext example_archive [ex_header] = Inr A"
proof -
  obtain A where "put_header example_ext example_archive ex_header = Inr A"
    using ex_put_header [of example_archive example_archive] by auto
  moreover have "headers example_archive = fmempty" by (simp add: example_archive_def empty_archive_def)
  ultimately show thesis by (intro that [of A]) (simp add: ex_header_fields try_get_header_def)
qed

theorem header_sync_witness:
  "\<exists>hs A. handle_get_headers ex_archive {||} ex_hash = Inr (RespHeaders hs :: unit response_message)
     \<and> store_headers example_ext example_archive hs = Inr A \<and> try_get_height A ex_hash = Some 0"
proof -
  have B: "headers_keyed example_ext ex_archive" "fmran' (headers ex_archive) \<subseteq> {ex_header}" "ex_hash \<in> side_known ex_archive"
    "try_get_height ex_archive ex_hash = Some 0" "ex_hash \<notin> side_known example_archive"
    by (auto simp: headers_keyed_def ex_archive_def ex_header_fields side_known_iff try_get_height_def fmlookup_ran'_iff
        example_archive_def empty_archive_def split: if_splits)
  have resp: "handle_get_headers ex_archive {||} ex_hash = Inr (RespHeaders [ex_header] :: unit response_message)"
    by (simp add: handle_get_headers_def ancestor_fuel_def get_header_def try_get_header_def ex_archive_def ex_header_fields
        fcard.rep_eq)
  obtain A where A: "store_headers example_ext example_archive [ex_header] = Inr A" by (rule example_store)
  from header_sync [OF example_archive_ok ex_archive_inv B(1,2) _ _ B(3,5,4), of "{||}"] resp A
  show ?thesis by auto
qed

definition example_headers_item :: "unit net_item" where
  "example_headers_item = PeerInfo (Some (example_peer, Some (InfoResponse (RespHeaders [ex_header])
     (GetHeaders \<lparr>gh_start = {||}, gh_end = ex_hash, gh_height = Some 0, gh_peer_state_id = Some (PeerStateId 0)\<rparr>))))"

theorem net_run_keeps_archive_witness:
  "\<exists>T. net_run (\<lambda>_. None) example_ext {ex_header} (\<lambda>_ _. Inr None) (example_net_task mempool_new) T
     \<and> fmlookup (headers (nt_archive T)) ex_hash = Some ex_header \<and> archive_inv (nt_archive T)"
proof -
  let ?T = "example_net_task mempool_new"
  obtain A where A: "store_headers example_ext example_archive [ex_header] = Inr A" by (rule example_store)
  have ok: "archive_ok example_ext {ex_header} (\<lambda>_. None) (nt_archive ?T)"
    using example_archive_ok by (simp add: example_net_task_def ex_node_def)
  have "check_headers example_ext example_archive {||} ex_hash 0 [ex_header] = Inr True"
    by (simp add: check_headers_def ex_header_fields end_height_of_def sub_u32_def checked_sub_def)
  with A obtain T where T: "net_step (\<lambda>_. None) example_ext ?T example_headers_item = (T, Inr ())" "nt_archive T = A"
    by (simp add: example_headers_item_def handle_headers_def example_net_task_def ex_node_def set_archive_def)
  have run: "net_run (\<lambda>_. None) example_ext {ex_header} (\<lambda>_ _. Inr None) ?T T"
    by (rule net_run_item [OF net_run_start _ T(1)]) (simp add: example_headers_item_def)
  have "serves (\<lambda>_ _. Inr None) (\<lambda>_. None)" by (simp add: serves_def main_blocks_ok_def)
  from net_run_keeps_archive [OF run _ this ok] have "archive_inv (nt_archive T)" by (simp add: archive_ok_def)
  moreover have "fmlookup (headers A) ex_hash = Some ex_header"
    using store_sequential_knows [OF _ example_archive_ok _ A, of None] by (simp add: ex_header_fields)
  ultimately show ?thesis using run T(2) by auto
qed

theorem new_transaction_from_peer_witness:
  "\<exists>e. net_step (\<lambda>_. None) example_ext (example_net_task example_pool)
     (PeerInfo (Some (example_peer, Some (NewTransaction pool_rival)))) = (example_net_task example_pool, Inl e)"
proof -
  let ?T = "example_net_task example_pool"
  obtain T r where step: "net_step (\<lambda>_. None) example_ext ?T (PeerInfo (Some (example_peer, Some (NewTransaction pool_rival)))) = (T, r)"
    by fastforce
  have pool: "nd_mempool (nt_dbs ?T) = example_pool" by (simp add: example_net_task_def)
  have "\<not> conflict_free example_pool (transaction pool_rival)" by (simp add: conflict_free_def example_pool_simps)
  moreover have "fmlookup (mp_transactions (nd_mempool (nt_dbs ?T))) (tx_txid example_ext (transaction pool_rival)) = None"
    unfolding pool by (simp add: example_pool_simps)
  ultimately have "r \<noteq> Inr () \<and> T = ?T"
    using new_transaction_from_peer [OF _ _ step] example_pool_ok unfolding pool by blast
  with step show ?thesis by (cases r) auto
qed

end
