(* ===== verification/Proto.thy ===== *)
theory Proto
  imports Address Mainchain_Task Mining
begin

text \<open>
  The messages of the mainchain node, \<open>lib/types/proto.rs\<close>: conversions to the types of the node, with an error for a missing or
  malformed field, and the calls of the validator. The message types are generated from schemas that are not part of the repository; the
  records here have the fields that the conversions name. A hash arrives as \<open>ConsensusHex\<close> or \<open>ReverseHex\<close>, whichever the schema says, so
  the model keeps both forms. Hexadecimal digits and Bitcoin's consensus encoding are code of other crates, and the answers of the
  service are arguments.
\<close>

record 'o proto_ext = "'o address_ext" +
  hex_decode :: "u8 list \<Rightarrow> u8 list option"
  consensus_deserialize :: "u8 list \<Rightarrow> hash option"
  address_parse :: "u8 list \<Rightarrow> main_address option"

datatype proto_error =
    Grpc
  | InvalidEnumVariant string string
  | InvalidFieldValue string string "u8 list"
  | InvalidRepeatedValue string string block_header_info
  | MissingField string string
  | UnknownEnumTag string int

type_synonym 'a proto_result = "(proto_error, 'a) result"

section \<open>Hexadecimal fields\<close>

datatype hex_message = ConsensusHex "u8 list option" | ReverseHex "u8 list option"

definition consensus_hex_decode :: "'o proto_ext \<Rightarrow> string \<Rightarrow> string \<Rightarrow> u8 list option \<Rightarrow> hash proto_result" where
  "consensus_hex_decode X msg field h =
     and_then (ok_or (MissingField ''ConsensusHex'' ''hex'') h) (\<lambda>h.
     ok_or (InvalidFieldValue msg field h) (Option.bind (hex_decode X h) (consensus_deserialize X)))"

definition reverse_hex_decode :: "'o proto_ext \<Rightarrow> string \<Rightarrow> string \<Rightarrow> u8 list option \<Rightarrow> hash proto_result" where
  "reverse_hex_decode X msg field h =
     and_then (ok_or (MissingField ''ReverseHex'' ''hex'') h) (\<lambda>h.
     and_then (ok_or (InvalidFieldValue msg field h) (hex_decode X h)) (\<lambda>bytes.
     ok_or (InvalidFieldValue msg field h) (consensus_deserialize X (rev bytes))))"

fun hash_decode :: "'o proto_ext \<Rightarrow> string \<Rightarrow> string \<Rightarrow> hex_message \<Rightarrow> hash proto_result" where
  "hash_decode X msg field (ConsensusHex h) = consensus_hex_decode X msg field h"
| "hash_decode X msg field (ReverseHex h) = reverse_hex_decode X msg field h"

definition consensus_hex_encode :: "'o proto_ext \<Rightarrow> hash \<Rightarrow> hex_message" where
  "consensus_hex_encode X h = ConsensusHex (Some (hex_encode X (hash_bytes h)))"

definition reverse_hex_encode :: "'o proto_ext \<Rightarrow> hash \<Rightarrow> hex_message" where
  "reverse_hex_encode X h = ReverseHex (Some (hex_encode X (rev (hash_bytes h))))"

text \<open>\<open>Hex::decode_bytes\<close>.\<close>

definition decode_bytes :: "'o proto_ext \<Rightarrow> string \<Rightarrow> string \<Rightarrow> u8 list option \<Rightarrow> u8 list proto_result" where
  "decode_bytes X msg field h =
     and_then (ok_or (MissingField ''Hex'' ''hex'') h) (\<lambda>h. ok_or (InvalidFieldValue msg field h) (hex_decode X h))"

text \<open>A field that must be there.\<close>

definition required :: "string \<Rightarrow> string \<Rightarrow> 'a option \<Rightarrow> 'a proto_result" where
  "required msg field x = ok_or (MissingField msg field) x"

section \<open>Deposits\<close>

text \<open>\<open>str::from_utf8\<close>: the well-formed sequences of the Unicode standard.\<close>

definition continuation :: "u8 \<Rightarrow> bool" where
  "continuation c \<longleftrightarrow> 0x80 \<le> c \<and> c \<le> 0xBF"

definition second_of_three :: "u8 \<Rightarrow> u8 \<Rightarrow> bool" where
  "second_of_three b c \<longleftrightarrow> (b = 0xE0 \<and> 0xA0 \<le> c \<and> c \<le> 0xBF) \<or> (0xE1 \<le> b \<and> b \<le> 0xEC \<and> continuation c)
     \<or> (b = 0xED \<and> 0x80 \<le> c \<and> c \<le> 0x9F) \<or> (0xEE \<le> b \<and> b \<le> 0xEF \<and> continuation c)"

definition second_of_four :: "u8 \<Rightarrow> u8 \<Rightarrow> bool" where
  "second_of_four b c \<longleftrightarrow> (b = 0xF0 \<and> 0x90 \<le> c \<and> c \<le> 0xBF) \<or> (0xF1 \<le> b \<and> b \<le> 0xF3 \<and> continuation c)
     \<or> (b = 0xF4 \<and> 0x80 \<le> c \<and> c \<le> 0x8F)"

fun from_utf8 :: "u8 list \<Rightarrow> bool" where
  "from_utf8 [] \<longleftrightarrow> True"
| "from_utf8 (b # bs) \<longleftrightarrow>
     (if b < 0x80 then from_utf8 bs
      else case bs of [] \<Rightarrow> False | c # cs \<Rightarrow>
        if 0xC2 \<le> b \<and> b \<le> 0xDF then continuation c \<and> from_utf8 cs
        else case cs of [] \<Rightarrow> False | d # ds \<Rightarrow>
          if 0xE0 \<le> b \<and> b \<le> 0xEF then second_of_three b c \<and> continuation d \<and> from_utf8 ds
          else case ds of [] \<Rightarrow> False | e # es \<Rightarrow>
            second_of_four b c \<and> continuation d \<and> continuation e \<and> from_utf8 es)"

record gen_out_point =
  go_txid :: "hex_message option"
  go_vout :: "32 word option"

record gen_output =
  gen_address :: "u8 list option option"
  gen_value_sats :: "64 word option"

record gen_deposit =
  gen_sequence_number :: "64 word option"
  gen_outpoint :: "gen_out_point option"
  gen_output :: "gen_output option"

definition out_point_try_from :: "'o proto_ext \<Rightarrow> gen_out_point \<Rightarrow> (hash \<times> 32 word) proto_result" where
  "out_point_try_from X m =
     and_then (and_then (required ''OutPoint'' ''txid'' (go_txid m)) (hash_decode X ''OutPoint'' ''txid'')) (\<lambda>txid.
     and_then (required ''OutPoint'' ''vout'' (go_vout m)) (\<lambda>vout. Inr (txid, vout)))"

definition deposit_address :: "'o proto_ext \<Rightarrow> u8 list \<Rightarrow> transparent_address" where
  "deposit_address X bytes =
     (if \<not> from_utf8 bytes then ALL_ZEROS
      else case transparent_from_str (address_ext.truncate X) bytes of Inr a \<Rightarrow> a | Inl _ \<Rightarrow> ALL_ZEROS)"

definition output_try_from :: "'o proto_ext \<Rightarrow> gen_output \<Rightarrow> tx_output proto_result" where
  "output_try_from X m =
     and_then (and_then (required ''Output'' ''address'' (gen_address m)) (decode_bytes X ''Output'' ''address'')) (\<lambda>bytes.
     and_then (required ''Output'' ''value_sats'' (gen_value_sats m)) (\<lambda>v.
     Inr \<lparr>address = deposit_address X bytes, content = Value (unat v)\<rparr>))"

definition deposit_try_from :: "'o proto_ext \<Rightarrow> gen_deposit \<Rightarrow> deposit proto_result" where
  "deposit_try_from X m =
     and_then (required ''Deposit'' ''sequence_number'' (gen_sequence_number m)) (\<lambda>sequence_number.
     and_then (required ''Deposit'' ''outpoint'' (gen_outpoint m)) (\<lambda>outpoint.
     and_then (required ''Deposit'' ''output'' (gen_output m)) (\<lambda>output.
     and_then (out_point_try_from X outpoint) (\<lambda>(txid, vout).
     and_then (output_try_from X output) (\<lambda>output.
     Inr \<lparr>tx_index = unat sequence_number, dep_txid = txid, dep_vout = vout, dep_output = output\<rparr>)))))"

section \<open>Blocks\<close>

datatype gen_bundle_status = GenFailed | GenSubmitted | GenSucceeded

record gen_bundle_event =
  gen_m6id :: "hex_message option"
  gen_status :: "gen_bundle_status option option"

fun bundle_status_from :: "gen_bundle_status \<Rightarrow> withdrawal_bundle_event_status" where
  "bundle_status_from GenFailed = EvFailed"
| "bundle_status_from GenSubmitted = EvSubmitted"
| "bundle_status_from GenSucceeded = EvConfirmed"

definition bundle_event_try_from :: "'o proto_ext \<Rightarrow> gen_bundle_event \<Rightarrow> block_event proto_result" where
  "bundle_event_try_from X m =
     and_then (and_then (required ''WithdrawalBundleEvent'' ''m6id'' (gen_m6id m))
         (hash_decode X ''WithdrawalBundleEvent'' ''m6id'')) (\<lambda>m6id.
     and_then (required ''WithdrawalBundleEvent'' ''event'' (gen_status m)) (\<lambda>event.
     and_then (required ''Event'' ''event'' event) (\<lambda>event.
     Inr (WithdrawalBundleEvent (M6id m6id) (bundle_status_from event)))))"

datatype gen_block_event = GenDeposit gen_deposit | GenWithdrawalBundle gen_bundle_event

fun block_event_try_from :: "'o proto_ext \<Rightarrow> gen_block_event \<Rightarrow> block_event proto_result" where
  "block_event_try_from X (GenDeposit d) = map_ok DepositEvent (deposit_try_from X d)"
| "block_event_try_from X (GenWithdrawalBundle e) = bundle_event_try_from X e"

record gen_block_info =
  gen_bmm_commitment :: "hex_message option"
  gen_events :: "gen_block_event option list"

definition block_info_try_from :: "'o proto_ext \<Rightarrow> gen_block_info \<Rightarrow> block_info proto_result" where
  "block_info_try_from X m =
     and_then
       (case gen_bmm_commitment m of
          None \<Rightarrow> Inr None
        | Some h \<Rightarrow> map_ok (\<lambda>h. Some (BlockHash h)) (hash_decode X ''BlockInfo'' ''bmm_commitment'' h)) (\<lambda>bmm_commitment.
     and_then (map_res (\<lambda>e. and_then (required ''Event'' ''event'' e) (block_event_try_from X)) (gen_events m)) (\<lambda>events.
     Inr \<lparr>bmm_commitment = bmm_commitment, events = events\<rparr>))"

record gen_header_info =
  gen_block_hash :: "hex_message option"
  gen_prev_block_hash :: "hex_message option"
  gen_height :: "32 word"
  gen_work :: "hex_message option"

definition header_info_try_from :: "'o proto_ext \<Rightarrow> gen_header_info \<Rightarrow> block_header_info proto_result" where
  "header_info_try_from X m =
     (let field = (\<lambda>name x. and_then (required ''BlockHeaderInfo'' name x) (hash_decode X ''BlockHeaderInfo'' name))
      in and_then (field ''block_hash'' (gen_block_hash m)) (\<lambda>block_hash.
         and_then (field ''prev_block_hash'' (gen_prev_block_hash m)) (\<lambda>prev.
         and_then (field ''work'' (gen_work m)) (\<lambda>work.
         Inr \<lparr>info_block_hash = MainHash block_hash, prev_block_hash = MainHash prev, info_height = unat (gen_height m),
              work = le_nat (hash_bytes work)\<rparr>))))"

record gen_info =
  gen_header :: "gen_header_info option"
  gen_block :: "gen_block_info option"

definition info_try_from :: "'o proto_ext \<Rightarrow> string \<Rightarrow> gen_info \<Rightarrow> (block_header_info \<times> block_info) proto_result" where
  "info_try_from X msg m =
     and_then (and_then (required msg ''header_info'' (gen_header m)) (header_info_try_from X)) (\<lambda>header_info.
     and_then (and_then (required msg ''block_info'' (gen_block m)) (block_info_try_from X)) (\<lambda>block_info.
     Inr (header_info, block_info)))"

text \<open>\<open>LinkedHashMap\<close> moves a key that is inserted again to the back.\<close>

definition two_way_peg_data_try_from :: "'o proto_ext \<Rightarrow> gen_info list \<Rightarrow> two_way_peg_data proto_result" where
  "two_way_peg_data_try_from X blocks =
     map_ok (foldl (\<lambda>data (b, info). AList.delete b data @ [(b, info)]) [])
       (map_res (\<lambda>item.
          and_then (and_then (required ''ResponseItem'' ''block_header_info'' (gen_header item)) (header_info_try_from X)) (\<lambda>h.
          and_then (and_then (required ''ResponseItem'' ''block_info'' (gen_block item)) (block_info_try_from X)) (\<lambda>info.
          Inr (info_block_hash h, info)))) blocks)"

section \<open>Events\<close>

datatype gen_event = GenConnectBlock gen_info | GenDisconnectBlock "hex_message option"

definition event_try_from :: "'o proto_ext \<Rightarrow> gen_event \<Rightarrow> mainchain_event proto_result" where
  "event_try_from X event =
     (case event of
        GenConnectBlock m \<Rightarrow>
          and_then (required ''ConnectBlock'' ''header_info'' (gen_header m)) (\<lambda>header_info.
          and_then (required ''ConnectBlock'' ''block_info'' (gen_block m)) (\<lambda>block_info.
          and_then (header_info_try_from X header_info) (\<lambda>header_info.
          and_then (block_info_try_from X block_info) (\<lambda>block_info.
          Inr (ConnectBlock header_info block_info)))))
      | GenDisconnectBlock h \<Rightarrow>
          and_then (required ''DisconnectBlock'' ''disconnect_block'' h) (\<lambda>h.
          map_ok (\<lambda>h. DisconnectBlock (MainHash h)) (hash_decode X ''DisconnectBlock'' ''disconnect_block'' h)))"

text \<open>\<open>SubscribeEventsResponse\<close> wraps an event twice; an item of the stream may be an error of the transport.\<close>

definition subscribed_event :: "'o proto_ext \<Rightarrow> gen_event option option option \<Rightarrow> mainchain_event proto_result" where
  "subscribed_event X item =
     and_then (ok_or Grpc item) (\<lambda>event.
     and_then (required ''SubscribeEventsResponse'' ''event'' event) (\<lambda>event.
     and_then (required ''Event'' ''event'' event) (event_try_from X)))"

section \<open>Calls of the validator\<close>

record gen_info_request =
  req_block_hash :: "hex_message option"
  req_sidechain_id :: "nat option"
  req_max_ancestors :: "nat option"

text \<open>Ancestors must follow one another.\<close>

fun check_sequential :: "string \<Rightarrow> string \<Rightarrow> ('a \<Rightarrow> block_header_info) \<Rightarrow> main_hash \<Rightarrow> 'a list \<Rightarrow> unit proto_result" where
  "check_sequential msg field hdr expected_block_hash [] = Inr ()"
| "check_sequential msg field hdr expected_block_hash (x # xs) =
     (if info_block_hash (hdr x) = expected_block_hash then check_sequential msg field hdr (prev_block_hash (hdr x)) xs
      else Inl (Err (InvalidRepeatedValue msg field (hdr x))))"

fun main_hash_bits :: "main_hash \<Rightarrow> hash" where
  "main_hash_bits (MainHash h) = h"

definition get_block_header_infos ::
  "'o proto_ext \<Rightarrow> (gen_info_request \<Rightarrow> gen_header_info list option) \<Rightarrow> main_hash \<Rightarrow> nat
    \<Rightarrow> (block_header_info \<times> block_header_info list) option proto_result" where
  "get_block_header_infos X service m max_ancestors =
     and_then (ok_or Grpc (service \<lparr>req_block_hash = Some (reverse_hex_encode X (main_hash_bits m)), req_sidechain_id = None,
         req_max_ancestors = Some max_ancestors\<rparr>)) (\<lambda>header_infos.
     if header_infos = [] then Inr None
     else
       and_then (map_res (header_info_try_from X) header_infos) (\<lambda>infos.
       and_then (check_sequential ''GetBlockHeaderInfoResponse'' ''header_infos'' (\<lambda>x. x) (prev_block_hash (hd infos)) (tl infos))
         (\<lambda>_. Inr (Some (hd infos, tl infos)))))"

definition get_block_header_info ::
  "'o proto_ext \<Rightarrow> (gen_info_request \<Rightarrow> gen_header_info list option) \<Rightarrow> main_hash \<Rightarrow> block_header_info option proto_result" where
  "get_block_header_info X service m =
     and_then (ok_or Grpc (service \<lparr>req_block_hash = Some (reverse_hex_encode X (main_hash_bits m)), req_sidechain_id = None,
         req_max_ancestors = Some 0\<rparr>)) (\<lambda>header_infos.
     case header_infos of [] \<Rightarrow> Inr None | i # _ \<Rightarrow> map_ok Some (header_info_try_from X i))"

definition info_request :: "'o proto_ext \<Rightarrow> main_hash \<Rightarrow> nat \<Rightarrow> gen_info_request" where
  "info_request X m max_ancestors = \<lparr>req_block_hash = Some (reverse_hex_encode X (main_hash_bits m)),
     req_sidechain_id = Some THIS_SIDECHAIN, req_max_ancestors = Some max_ancestors\<rparr>"

definition get_block_infos ::
  "'o proto_ext \<Rightarrow> (gen_info_request \<Rightarrow> gen_info list option) \<Rightarrow> main_hash \<Rightarrow> nat
    \<Rightarrow> ((block_header_info \<times> block_info) \<times> main_infos) option proto_result" where
  "get_block_infos X service m max_ancestors =
     and_then (ok_or Grpc (service (info_request X m max_ancestors))) (\<lambda>infos.
     if infos = [] then Inr None
     else
       and_then (map_res (info_try_from X ''Info'') infos) (\<lambda>infos.
       and_then (check_sequential ''GetBlockInfoResponse'' ''infos'' fst (prev_block_hash (fst (hd infos))) (tl infos))
         (\<lambda>_. Inr (Some (hd infos, tl infos)))))"

definition get_chain_tip :: "'o proto_ext \<Rightarrow> gen_header_info option option \<Rightarrow> block_header_info proto_result" where
  "get_chain_tip X response =
     and_then (ok_or Grpc response) (\<lambda>block_header_info.
     and_then (required ''GetChainTipResponse'' ''block_header_info'' block_header_info) (header_info_try_from X))"

datatype gen_network = NetUnknown | NetUnspecified | NetMainnet | NetRegtest | NetSignet | NetTestnet

datatype bitcoin_network = BitcoinMain | BitcoinRegtest | BitcoinSignet | BitcoinTestnet

fun network_decode :: "string \<Rightarrow> gen_network \<Rightarrow> bitcoin_network proto_result" where
  "network_decode field NetUnknown = Inl (Err (InvalidEnumVariant field ''Unknown''))"
| "network_decode field NetUnspecified = Inl (Err (InvalidEnumVariant field ''Unspecified''))"
| "network_decode field NetMainnet = Inr BitcoinMain"
| "network_decode field NetRegtest = Inr BitcoinRegtest"
| "network_decode field NetSignet = Inr BitcoinSignet"
| "network_decode field NetTestnet = Inr BitcoinTestnet"

text \<open>\<open>tag\<close> maps the tags of the enumeration.\<close>

definition get_chain_info :: "(int \<Rightarrow> gen_network option) \<Rightarrow> int option \<Rightarrow> bitcoin_network proto_result" where
  "get_chain_info tag response =
     and_then (ok_or Grpc response) (\<lambda>network.
     and_then (ok_or (UnknownEnumTag ''network'' network) (tag network)) (network_decode ''network''))"

datatype gen_commitments =
    GenBlockNotFound "hex_message option"
  | GenCommitment "hex_message option" "hex_message option list"

definition optional_commitment :: "'o proto_ext \<Rightarrow> string \<Rightarrow> hex_message option \<Rightarrow> block_hash option proto_result" where
  "optional_commitment X msg c =
     (case c of None \<Rightarrow> Inr None | Some h \<Rightarrow> map_ok (\<lambda>h. Some (BlockHash h)) (hash_decode X msg ''commitment'' h))"

definition get_bmm_hstar_commitments ::
  "'o proto_ext \<Rightarrow> gen_commitments option option \<Rightarrow> (main_hash + block_hash option \<times> block_hash option list) proto_result" where
  "get_bmm_hstar_commitments X response =
     and_then (ok_or Grpc response) (\<lambda>result.
     and_then (required ''GetBmmHStarCommitmentResponse'' ''result'' result) (\<lambda>result.
     case result of
       GenBlockNotFound h \<Rightarrow>
         and_then (required ''BlockNotFoundError'' ''block_hash'' h) (\<lambda>h.
         map_ok (\<lambda>h. Inl (MainHash h)) (hash_decode X ''BlockNotFoundError'' ''block_hash'' h))
     | GenCommitment c ancestors \<Rightarrow>
         and_then (optional_commitment X ''Commitment'' c) (\<lambda>commitment.
         and_then (map_res (optional_commitment X ''OptionalCommitment'') ancestors) (\<lambda>ancestor_commitments.
         Inr (Inr (commitment, ancestor_commitments))))))"

section \<open>Calls of the mainchain wallet\<close>

text \<open>The transaction id in the answer to a request for a transaction.\<close>

definition created_txid :: "'o proto_ext \<Rightarrow> string \<Rightarrow> hex_message option option \<Rightarrow> hash proto_result" where
  "created_txid X msg response =
     and_then (ok_or Grpc response) (\<lambda>txid. and_then (required msg ''txid'' txid) (hash_decode X msg ''txid''))"

definition create_new_address :: "'o proto_ext \<Rightarrow> u8 list option \<Rightarrow> main_address proto_result" where
  "create_new_address X response =
     and_then (ok_or Grpc response) (\<lambda>addr.
     ok_or (InvalidFieldValue ''CreateNewAddressResponse'' ''address'' addr) (address_parse X addr))"

section \<open>What arrives is well formed\<close>

definition event_typed :: "block_event \<Rightarrow> bool" where
  "event_typed e \<longleftrightarrow> (case e of WithdrawalBundleEvent _ _ \<Rightarrow> True
     | DepositEvent d \<Rightarrow> tx_index d < 2 ^ 64 \<and> (\<exists>v. content (dep_output d) = Value v \<and> v < 2 ^ 64))"

definition info_typed :: "block_header_info \<times> block_info \<Rightarrow> bool" where
  "info_typed x \<longleftrightarrow> info_height (fst x) < 2 ^ 32 \<and> work (fst x) < 2 ^ 256 \<and> list_all event_typed (events (snd x))"

fun follows :: "main_infos \<Rightarrow> bool" where
  "follows (x # y # xs) \<longleftrightarrow> info_block_hash (fst y) = prev_block_hash (fst x) \<and> follows (y # xs)"
| "follows xs \<longleftrightarrow> True"

lemma unat_bounds:
  fixes w :: "64 word" and v :: "32 word" and h :: hash
  shows "unat w < 2 ^ 64" "unat v < 2 ^ 32" "le_nat (hash_bytes h) < 2 ^ 256"
proof -
  show "unat w < 2 ^ 64" "unat v < 2 ^ 32"
    using unsigned_less [of w, where ?'a = nat] unsigned_less [of v, where ?'a = nat] by simp_all
  have "le_nat (hash_bytes h) < 256 ^ 32" using le_nat_bound [of "hash_bytes h"] by simp
  then show "le_nat (hash_bytes h) < 2 ^ 256" by (simp add: power_mult [symmetric])
qed

lemma header_info_typed:
  "header_info_try_from X m = Inr i \<Longrightarrow> info_height i < 2 ^ 32 \<and> work i < 2 ^ 256"
  using unat_bounds(2,3) by (auto simp: header_info_try_from_def Let_def result_simps)

lemma block_event_typed: "block_event_try_from X m = Inr e \<Longrightarrow> event_typed e"
  using unat_bounds(1)
  by (cases m) (auto simp: event_typed_def deposit_try_from_def output_try_from_def bundle_event_try_from_def result_simps)

lemma map_res_all: "map_res f xs = Inr ys \<Longrightarrow> (\<And>x y. f x = Inr y \<Longrightarrow> P y) \<Longrightarrow> list_all P ys"
  by (induction xs arbitrary: ys) (auto simp: result_simps)

lemma block_info_typed:
  assumes "block_info_try_from X m = Inr b"
  shows "list_all event_typed (events b)"
proof -
  from assms obtain es where
    "map_res (\<lambda>e. and_then (required ''Event'' ''event'' e) (block_event_try_from X)) (gen_events m) = Inr es" "events b = es"
    by (auto simp: block_info_try_from_def result_simps)
  with map_res_all [OF this(1), of event_typed] show ?thesis by (auto simp: result_simps dest: block_event_typed)
qed

lemma info_try_from_typed:
  assumes "info_try_from X msg m = Inr x"
  shows "info_typed x"
proof -
  from assms obtain h b where "header_info_try_from X h = Inr (fst x)" "block_info_try_from X b = Inr (snd x)"
    by (auto simp: info_try_from_def result_simps)
  from header_info_typed [OF this(1)] block_info_typed [OF this(2)] show ?thesis by (simp add: info_typed_def)
qed

lemma check_sequential_follows:
  "check_sequential msg field fst (prev_block_hash (fst x)) xs = Inr () \<longleftrightarrow> follows (x # xs)"
  by (induction xs arbitrary: x) auto

text \<open>
  C12. Whatever the validator answers, the infos that \<open>get_block_infos\<close> returns are within the ranges of their types, and each is the info of the
  parent of the block before it.
\<close>

theorem get_block_infos_well_formed:
  assumes "get_block_infos X service m n = Inr (Some (x, xs))"
  shows "list_all info_typed (x # xs) \<and> follows (x # xs)"
proof -
  from assms obtain msgs infos where infos: "map_res (info_try_from X ''Info'') msgs = Inr infos" "msgs \<noteq> []"
    and x: "x = hd infos" "xs = tl infos"
    and seq: "check_sequential ''GetBlockInfoResponse'' ''infos'' fst (prev_block_hash (fst (hd infos))) (tl infos) = Inr ()"
    by (auto simp: get_block_infos_def result_simps split: if_splits)
  have "infos \<noteq> []" using infos map_res_eq_Inr_length [OF infos(1)] by auto
  then have "infos = x # xs" using x by simp
  moreover have "follows (x # xs)" using seq unfolding x [symmetric] check_sequential_follows .
  moreover have "list_all info_typed infos" using map_res_all [OF infos(1)] info_try_from_typed by blast
  ultimately show ?thesis by simp
qed

lemma linked_follows:
  assumes "main_blocks_ok R"
  shows "linked R m (x # xs) \<Longrightarrow> follows (x # xs)"
proof (induction xs arbitrary: m x)
  case (Cons y ys)
  then have "R (prev_block_hash (fst x)) = Some y" "linked R (prev_block_hash (fst x)) (y # ys)" by auto
  with Cons.IH main_blocks_okD(2) [OF assms] show ?case by auto
qed simp

section \<open>What a message says\<close>

text \<open>
  The meaning of the messages as the schema gives it: a hash is the hexadecimal text of its bytes, in consensus order or reversed, the work
  is a 256 bit number with its low byte first, the address of a deposit is the hexadecimal text of its Base58 text.
\<close>

definition carries_hash :: "'o proto_ext \<Rightarrow> hex_message option \<Rightarrow> hash \<Rightarrow> bool" where
  "carries_hash X m h \<longleftrightarrow> m = Some (ConsensusHex (Some (hex_encode X (hash_bytes h))))
     \<or> m = Some (ReverseHex (Some (hex_encode X (rev (hash_bytes h)))))"

definition describes_header :: "'o proto_ext \<Rightarrow> block_header_info \<Rightarrow> gen_header_info \<Rightarrow> bool" where
  "describes_header X i m \<longleftrightarrow>
     (\<exists>h p w. info_block_hash i = MainHash h \<and> carries_hash X (gen_block_hash m) h
        \<and> prev_block_hash i = MainHash p \<and> carries_hash X (gen_prev_block_hash m) p
        \<and> info_height i = unat (gen_height m) \<and> carries_hash X (gen_work m) w \<and> work i = le_nat (hash_bytes w))"

fun describes_event :: "'o proto_ext \<Rightarrow> block_event \<Rightarrow> gen_block_event \<Rightarrow> bool" where
  "describes_event X (DepositEvent d) (GenDeposit m) \<longleftrightarrow>
     (\<exists>n op out v. gen_sequence_number m = Some n \<and> tx_index d = unat n
        \<and> gen_outpoint m = Some op \<and> carries_hash X (go_txid op) (dep_txid d) \<and> go_vout op = Some (dep_vout d)
        \<and> gen_output m = Some out \<and> gen_value_sats out = Some v \<and> content (dep_output d) = Value (unat v)
        \<and> gen_address out = Some (Some (hex_encode X (as_base58 (address_ext.truncate X) (address (dep_output d))))))"
| "describes_event X (WithdrawalBundleEvent (M6id h) status) (GenWithdrawalBundle m) \<longleftrightarrow>
     carries_hash X (gen_m6id m) h
     \<and> (\<exists>g. gen_status m = Some (Some g) \<and> (status, g) \<in> {(EvFailed, GenFailed), (EvSubmitted, GenSubmitted), (EvConfirmed, GenSucceeded)})"
| "describes_event X _ _ \<longleftrightarrow> False"

definition describes_block :: "'o proto_ext \<Rightarrow> block_info \<Rightarrow> gen_block_info \<Rightarrow> bool" where
  "describes_block X b m \<longleftrightarrow>
     (case bmm_commitment b of None \<Rightarrow> gen_bmm_commitment m = None
      | Some (BlockHash h) \<Rightarrow> carries_hash X (gen_bmm_commitment m) h)
     \<and> list_all2 (\<lambda>e g. \<exists>x. g = Some x \<and> describes_event X e x) (events b) (gen_events m)"

definition describes_info :: "'o proto_ext \<Rightarrow> block_header_info \<times> block_info \<Rightarrow> gen_info \<Rightarrow> bool" where
  "describes_info X x m \<longleftrightarrow>
     (\<exists>h b. gen_header m = Some h \<and> describes_header X (fst x) h \<and> gen_block m = Some b \<and> describes_block X (snd x) b)"

definition asks_infos :: "'o proto_ext \<Rightarrow> main_hash \<Rightarrow> nat \<Rightarrow> gen_info_request \<Rightarrow> bool" where
  "asks_infos X m n req \<longleftrightarrow>
     (\<exists>h. m = MainHash h \<and> req_block_hash req = Some (ReverseHex (Some (hex_encode X (rev (hash_bytes h))))))
     \<and> req_sidechain_id req = Some 98 \<and> req_max_ancestors req = Some n"

text \<open>What the conversions rely on of hexadecimal text, of Bitcoin's encoding of a hash and of Base58.\<close>

definition proto_laws :: "'o proto_ext \<Rightarrow> bool" where
  "proto_laws X \<longleftrightarrow> address_laws (address_ext.truncate X) \<and> (\<forall>bs. hex_decode X (hex_encode X bs) = Some bs)
     \<and> (\<forall>h. consensus_deserialize X (hash_bytes h) = Some h) \<and> (\<forall>bs. \<forall>c\<in>set (base58_encode X bs). c < 0x80)"

lemma carries_hash_decode:
  assumes "proto_laws X" and "carries_hash X (Some m) h"
  shows "hash_decode X msg field m = Inr h"
  using assms by (auto simp: carries_hash_def proto_laws_def ok_or_def consensus_hex_decode_def reverse_hex_decode_def)

lemma carries_hash_decodes:
  assumes "proto_laws X" and "carries_hash X m h"
  shows "and_then (required msg field m) (hash_decode X msg' field') = Inr h"
proof -
  from assms(2) obtain x where "m = Some x" by (auto simp: carries_hash_def)
  with assms carries_hash_decode [of X x h] show ?thesis by (simp add: required_def ok_or_def)
qed

lemma ascii_utf8: "\<forall>c\<in>set bs. c < 0x80 \<Longrightarrow> from_utf8 bs"
  by (induction bs) auto

lemma deposit_address_base58:
  assumes "address_laws (address_ext.truncate X)" and "\<forall>bs. \<forall>c\<in>set (base58_encode X bs). c < 0x80"
  shows "deposit_address X (as_base58 (address_ext.truncate X) a) = a"
proof -
  let ?X = "address_ext.truncate X"
  have "base58_decode ?X (as_base58 ?X a) = Some (address_bytes a)"
    using assms(1) by (simp add: address_laws_def as_base58_def)
  from transparent_from_str_base58 [OF this] have "transparent_from_str ?X (as_base58 ?X a) = Inr a" .
  moreover have "from_utf8 (as_base58 ?X a)"
    unfolding as_base58_def using assms(2) by (intro ascii_utf8) (simp add: address_ext.truncate_def)
  ultimately show ?thesis by (simp add: deposit_address_def)
qed

lemma header_decodes: "proto_laws X \<Longrightarrow> describes_header X i m \<Longrightarrow> header_info_try_from X m = Inr i"
  by (auto simp: describes_header_def header_info_try_from_def carries_hash_decodes)

lemma event_decodes: "proto_laws X \<Longrightarrow> describes_event X e m \<Longrightarrow> block_event_try_from X m = Inr e"
proof (induction X e m rule: describes_event.induct)
  case (1 X d m)
  then obtain n op out v where
    m: "gen_sequence_number m = Some n" "tx_index d = unat n" "gen_outpoint m = Some op" "carries_hash X (go_txid op) (dep_txid d)"
      "go_vout op = Some (dep_vout d)" "gen_output m = Some out" "gen_value_sats out = Some v" "content (dep_output d) = Value (unat v)"
      "gen_address out = Some (Some (hex_encode X (as_base58 (address_ext.truncate X) (address (dep_output d)))))"
    by auto
  have "output_try_from X out = Inr (dep_output d)"
    using 1(1) m(7-9) deposit_address_base58 [of X]
    by (simp add: output_try_from_def decode_bytes_def required_def ok_or_def proto_laws_def)
  with m(1-6) carries_hash_decodes [OF 1(1) m(4)] show ?case
    by (simp add: deposit_try_from_def out_point_try_from_def) (simp add: required_def ok_or_def)
next
  case (2 X h status m)
  then show ?case
    by (auto simp: bundle_event_try_from_def carries_hash_decodes) (auto simp: required_def ok_or_def)
qed simp_all

lemma map_res_list_all2: "list_all2 (\<lambda>y x. f x = Inr y) ys xs \<Longrightarrow> map_res f xs = Inr ys"
  by (induction rule: list_all2_induct) simp_all

lemma block_decodes:
  assumes laws: "proto_laws X" and m: "describes_block X b m"
  shows "block_info_try_from X m = Inr b"
proof -
  from m have "list_all2 (\<lambda>e g. and_then (required ''Event'' ''event'' g) (block_event_try_from X) = Inr e) (events b) (gen_events m)"
    unfolding describes_block_def by (auto elim!: list_all2_mono simp: required_def ok_or_def event_decodes [OF laws])
  note events = map_res_list_all2 [OF this]
  have "(case gen_bmm_commitment m of None \<Rightarrow> Inr None
      | Some h \<Rightarrow> map_ok (\<lambda>h. Some (BlockHash h)) (hash_decode X ''BlockInfo'' ''bmm_commitment'' h)) = Inr (bmm_commitment b)"
  proof (cases "bmm_commitment b")
    case None
    with m show ?thesis by (simp add: describes_block_def)
  next
    case (Some c)
    then obtain h where "c = BlockHash h" "carries_hash X (gen_bmm_commitment m) h"
      using m by (cases c) (simp add: describes_block_def)
    moreover from this obtain x where "gen_bmm_commitment m = Some x" by (auto simp: carries_hash_def)
    ultimately show ?thesis using Some carries_hash_decode [OF laws, of x h] by simp
  qed
  with events show ?thesis by (simp add: block_info_try_from_def)
qed

lemma info_decodes: "proto_laws X \<Longrightarrow> describes_info X x m \<Longrightarrow> info_try_from X msg m = Inr x"
  by (cases x) (auto simp: describes_info_def info_try_from_def required_def ok_or_def header_decodes block_decodes)

lemma infos_decode:
  assumes "proto_laws X" and "list_all2 (describes_info X) infos msgs"
  shows "map_res (info_try_from X msg) msgs = Inr infos"
  using assms by (auto intro!: map_res_list_all2 elim!: list_all2_mono simp: info_decodes)

lemma check_sequential_error:
  "\<not> follows (x # xs) \<Longrightarrow>
    \<exists>y\<in>set xs. check_sequential msg field fst (prev_block_hash (fst x)) xs = Inl (Err (InvalidRepeatedValue msg field (fst y)))"
  by (induction xs arbitrary: x) auto

text \<open>
  C13. The client of the validator understands its answers: if the service answers the request that the schema describes with messages
  about some infos, then these infos are what \<open>get_block_infos\<close> returns, with every field: hashes, heights, work, commitments, deposits
  with their out points, values and addresses, and bundle events with their status. No message is an unknown block, and infos that do not
  follow one another are rejected.
\<close>

theorem get_block_infos_decodes:
  assumes laws: "proto_laws X" and answer: "\<forall>req. asks_infos X m n req \<longrightarrow> service req = Some msgs"
    and msgs: "list_all2 (describes_info X) infos msgs"
  shows "(infos = [] \<longrightarrow> get_block_infos X service m n = Inr None)
    \<and> (\<forall>x xs. infos = x # xs \<and> follows infos \<longrightarrow> get_block_infos X service m n = Inr (Some (x, xs)))
    \<and> (infos \<noteq> [] \<and> \<not> follows infos \<longrightarrow> (\<exists>y\<in>set infos.
         get_block_infos X service m n = Inl (Err (InvalidRepeatedValue ''GetBlockInfoResponse'' ''infos'' (fst y)))))"
proof -
  have "asks_infos X m n (info_request X m n)"
    by (cases m) (simp add: asks_infos_def info_request_def reverse_hex_encode_def THIS_SIDECHAIN_def)
  with answer have "service (info_request X m n) = Some msgs" by blast
  with infos_decode [OF laws msgs, of "''Info''"] msgs have run: "get_block_infos X service m n =
      (if infos = [] then Inr None
       else and_then (check_sequential ''GetBlockInfoResponse'' ''infos'' fst (prev_block_hash (fst (hd infos))) (tl infos))
         (\<lambda>_. Inr (Some (hd infos, tl infos))))"
    by (auto simp: get_block_infos_def ok_or_def)
  show ?thesis
  proof (cases infos)
    case Nil
    with run show ?thesis by simp
  next
    case (Cons x xs)
    show ?thesis
    proof (cases "follows infos")
      case True
      then have "check_sequential ''GetBlockInfoResponse'' ''infos'' fst (prev_block_hash (fst x)) xs = Inr ()"
        unfolding Cons check_sequential_follows .
      with run Cons True show ?thesis by simp
    next
      case False
      then obtain y where "y \<in> set xs" "check_sequential ''GetBlockInfoResponse'' ''infos'' fst (prev_block_hash (fst x)) xs
          = Inl (Err (InvalidRepeatedValue ''GetBlockInfoResponse'' ''infos'' (fst y)))"
        using check_sequential_error unfolding Cons by blast
      with run Cons False show ?thesis by (intro conjI impI bexI [of _ y]) auto
    qed
  qed
qed

text \<open>
  So a service that answers with messages about chains of its blocks, and with none for a block that it does not know, is the validator that the
  mainchain task relies on.
\<close>

lemma get_block_infos_serves:
  assumes laws: "proto_laws X" and ok: "main_blocks_ok R"
    and unknown: "\<And>m n req. R m = None \<Longrightarrow> asks_infos X m n req \<Longrightarrow> service req = Some []"
    and known: "\<And>m n y. R m = Some y \<Longrightarrow> \<exists>msgs x xs. (\<forall>req. asks_infos X m n req \<longrightarrow> service req = Some msgs)
      \<and> list_all2 (describes_info X) (x # xs) msgs \<and> linked R m (x # xs)"
  shows "serves (\<lambda>m n. map_err (\<lambda>_. RespMainchain) (get_block_infos X service m n)) R"
proof -
  have request: "asks_infos X m n (info_request X m n)" for m n
    by (cases m) (simp add: asks_infos_def info_request_def reverse_hex_encode_def THIS_SIDECHAIN_def)
  have "case R m of None \<Rightarrow> map_err (\<lambda>_. RespMainchain) (get_block_infos X service m n) = Inr None
      | Some _ \<Rightarrow> \<exists>x xs. map_err (\<lambda>_. RespMainchain) (get_block_infos X service m n) = Inr (Some (x, xs)) \<and> linked R m (x # xs)" for m n
  proof (cases "R m")
    case None
    with unknown [OF None request, of n] show ?thesis by (simp add: get_block_infos_def ok_or_def)
  next
    case (Some y)
    from known [OF Some, of n] obtain msgs x xs where s: "\<forall>req. asks_infos X m n req \<longrightarrow> service req = Some msgs"
      "list_all2 (describes_info X) (x # xs) msgs" "linked R m (x # xs)" by blast
    have "check_sequential ''GetBlockInfoResponse'' ''infos'' fst (prev_block_hash (fst x)) xs = Inr ()"
      using linked_follows [OF ok s(3)] check_sequential_follows by blast
    with s(1) request [of m n] infos_decode [OF laws s(2), of "''Info''"] s(2)
    have "get_block_infos X service m n = Inr (Some (x, xs))" by (auto simp: get_block_infos_def ok_or_def)
    with s(3) Some show ?thesis by simp
  qed
  with ok show ?thesis by (simp add: serves_def)
qed

section \<open>Deposits to unreadable addresses\<close>

text \<open>
  C14. No address makes the conversion fail: whatever bytes the address has, the output decodes with the
  value of the deposit; if they are the text of an address it goes to that address. The comment in the code says that a deposit whose
  address is not UTF-8 should be ignored, and the log calls it ignored, but it is not: bytes that are no text or no Base58 give an output
  with the full value at the address of zeros.
\<close>

theorem deposit_output_decodes:
  assumes laws: "address_laws (address_ext.truncate X)" and hex: "\<forall>bs. hex_decode X (hex_encode X bs) = Some bs"
    and ascii: "\<forall>bs. \<forall>c\<in>set (base58_encode X bs). c < 0x80"
  shows "\<exists>a. output_try_from X \<lparr>gen_address = Some (Some (hex_encode X bs)), gen_value_sats = Some v\<rparr>
      = Inr \<lparr>address = a, content = Value (unat v)\<rparr>
    \<and> (\<forall>b. bs = as_base58 (address_ext.truncate X) b \<longrightarrow> a = b)
    \<and> (\<not> from_utf8 bs \<or> base58_decode X bs = None \<longrightarrow> a = ALL_ZEROS)"
proof -
  have "output_try_from X \<lparr>gen_address = Some (Some (hex_encode X bs)), gen_value_sats = Some v\<rparr>
      = Inr \<lparr>address = deposit_address X bs, content = Value (unat v)\<rparr>"
    using hex by (simp add: output_try_from_def decode_bytes_def required_def ok_or_def)
  moreover have "deposit_address X bs = b" if "bs = as_base58 (address_ext.truncate X) b" for b
    using that deposit_address_base58 [OF laws ascii] by simp
  moreover have "deposit_address X bs = ALL_ZEROS" if "\<not> from_utf8 bs \<or> base58_decode X bs = None"
    using that by (auto simp: deposit_address_def transparent_from_str_def ok_or_def address_ext.truncate_def)
  ultimately show ?thesis by (intro exI [of _ "deposit_address X bs"]) auto
qed

section \<open>An example\<close>

definition example_proto_ext :: "unit proto_ext" where
  "example_proto_ext = address_ext.extend example_address_ext \<lparr>hex_decode = unletters,
     consensus_deserialize = (\<lambda>bs. if length bs = 32 then Some (hash_of_bytes bs) else None),
     address_parse = (\<lambda>s. Some (MainAddress s))\<rparr>"

lemma example_proto_fields:
  "hex_encode example_proto_ext = letters" "hex_decode example_proto_ext = unletters"
  "consensus_deserialize example_proto_ext = (\<lambda>bs. if length bs = 32 then Some (hash_of_bytes bs) else None)"
  "base58_encode example_proto_ext = letters" "address_ext.truncate example_proto_ext = example_address_ext"
  by (simp_all add: example_proto_ext_def address_ext.defs example_address_ext_def)

lemma example_hash_decode:
  "hash_decode example_proto_ext msg field (reverse_hex_encode example_proto_ext h) = Inr h"
  "hash_decode example_proto_ext msg field (consensus_hex_encode example_proto_ext h) = Inr h"
  by (simp_all add: reverse_hex_encode_def consensus_hex_encode_def reverse_hex_decode_def consensus_hex_decode_def
      example_proto_fields ok_or_def)

definition example_message :: gen_info where
  "example_message = \<lparr>gen_header = Some \<lparr>gen_block_hash = Some (reverse_hex_encode example_proto_ext 1),
       gen_prev_block_hash = Some (reverse_hex_encode example_proto_ext 0), gen_height = 1,
       gen_work = Some (consensus_hex_encode example_proto_ext (hash_of_bytes (1 # replicate 31 0)))\<rparr>,
     gen_block = Some \<lparr>gen_bmm_commitment = None, gen_events = []\<rparr>\<rparr>"

lemma example_message_decodes: "info_try_from example_proto_ext msg example_message = Inr example_remote_infos"
proof -
  have "length (1 # replicate 31 (0 :: u8)) = 32" by simp
  from hash_bytes_hash_of_bytes [OF this]
  have "le_nat (hash_bytes (hash_of_bytes (1 # replicate 31 0))) = 1" by (simp add: numeral_eq_Suc)
  then show ?thesis
    by (simp add: info_try_from_def example_message_def header_info_try_from_def block_info_try_from_def required_def ok_or_def
        example_hash_decode example_remote_infos_def example_main_info_def)
qed

definition example_service :: "gen_info_request \<Rightarrow> gen_info list option" where
  "example_service req =
     Some (if req_block_hash req = Some (reverse_hex_encode example_proto_ext 1) then [example_message] else [])"

lemma example_request:
  "example_service (info_request example_proto_ext m n) = Some (if m = MainHash 1 then [example_message] else [])"
proof -
  have "letters a = letters b \<longleftrightarrow> a = b" for a b by (metis unletters_letters option.inject)
  then show ?thesis
    by (cases m) (auto simp: example_service_def info_request_def reverse_hex_encode_def example_proto_fields)
qed

theorem get_block_infos_well_formed_witness:
  "get_block_infos example_proto_ext example_service (MainHash 1) 0 = Inr (Some (example_remote_infos, []))
     \<and> info_typed example_remote_infos"
proof -
  have run: "get_block_infos example_proto_ext example_service (MainHash 1) 0 = Inr (Some (example_remote_infos, []))"
    by (simp add: get_block_infos_def example_request example_message_decodes ok_or_def)
  with get_block_infos_well_formed [OF run] show ?thesis by simp
qed

lemma letters_ascii: "c \<in> set (letters bs) \<Longrightarrow> c < 0x80"
proof -
  assume "c \<in> set (letters bs)"
  then obtain b :: u8 and n where "n = unat b div 16 \<or> n = unat b mod 16" and c: "c = word_of_nat (97 + n)"
    by (auto simp: letters_def simp del: of_nat_add)
  then have "n < 16" using letter_range by auto
  then have "unat c < 128" unfolding c unat_letter [OF \<open>n < 16\<close>] by simp
  then show ?thesis by (simp add: word_less_nat_alt)
qed

lemma example_proto_laws: "proto_laws example_proto_ext"
  using example_address_laws letters_ascii by (auto simp: proto_laws_def example_proto_fields)

lemma example_describes: "describes_info example_proto_ext example_remote_infos example_message"
proof -
  have "length (1 # replicate 31 (0 :: u8)) = 32" by simp
  from hash_bytes_hash_of_bytes [OF this]
  have "le_nat (hash_bytes (hash_of_bytes (1 # replicate 31 0))) = 1" by (simp add: numeral_eq_Suc)
  then show ?thesis
    by (auto simp: describes_info_def describes_header_def describes_block_def example_message_def example_remote_infos_def
        example_main_info_def carries_hash_def reverse_hex_encode_def consensus_hex_encode_def)
qed

theorem get_block_infos_decodes_witness:
  "get_block_infos example_proto_ext example_service (MainHash 1) 5 = Inr (Some (example_remote_infos, []))"
proof -
  have "\<forall>req. asks_infos example_proto_ext (MainHash 1) 5 req \<longrightarrow> example_service req = Some [example_message]"
    by (auto simp: asks_infos_def example_service_def reverse_hex_encode_def)
  from get_block_infos_decodes [OF example_proto_laws this, of "[example_remote_infos]"] example_describes
  show ?thesis by simp
qed

theorem deposit_output_decodes_witness:
  "output_try_from example_proto_ext \<lparr>gen_address = Some (Some (letters [0xFF])), gen_value_sats = Some 5\<rparr>
     = Inr \<lparr>address = ALL_ZEROS, content = Value 5\<rparr>"
proof -
  have "\<not> from_utf8 [0xFF]" by simp
  then show ?thesis
    using deposit_output_decodes [of example_proto_ext "[0xFF]" 5] example_address_laws letters_ascii
    by (simp add: example_proto_fields)
qed

end
