(* ===== verification/Rpc.thy ===== *)
theory Rpc
  imports App_Sync Net Proto
begin

text \<open>
  The JSON-RPC server, \<open>app/rpc_server.rs\<close>, over the operations of the node and the wallet: payments, lookups and lists. An error is
  sent as the text of the error of the operation; the model keeps the error itself. The order of entries that come from a hash map is
  not specified; the model takes that of the database. \<open>N\<close> and \<open>W\<close> are the databases of the node and of the wallet. Handlers
  that are a call of one operation of the model (\<open>balance\<close>, \<open>mine\<close>, \<open>format_deposit_address\<close>, \<open>remove_from_mempool\<close>, \<open>list_peers\<close>,
  \<open>connect_peer\<close>, \<open>forget_peer\<close>) are not repeated.
\<close>

section \<open>Lookups of the node\<close>

definition get_all_utxos :: "('acc, 'fr, 'pf) node_dbs \<Rightarrow> (out_point \<times> tx_output) list node_result" where
  "get_all_utxos N = map_err NdState (get_utxos (nd_state N))"

definition get_latest_failed_withdrawal_bundle_height :: "('acc, 'fr, 'pf) node_dbs \<Rightarrow> nat option node_result" where
  "get_latest_failed_withdrawal_bundle_height N =
     map_err NdState (map_ok (map_option fst) (get_latest_failed_withdrawal_bundle (nd_state N)))"


definition node_regenerate_proof ::
  "('acc, 'fr, 'pf) ext \<Rightarrow> ('acc, 'fr, 'pf) node_dbs \<Rightarrow> 'pf transaction \<Rightarrow> 'pf transaction node_result" where
  "node_regenerate_proof E N tx = map_err NdState (regenerate_proof E (nd_state N) tx)"

definition get_sidechain_wealth :: "('acc, 'fr, 'pf) node_dbs \<Rightarrow> nat node_result" where
  "get_sidechain_wealth N = map_err NdState (sidechain_wealth (nd_state N))"

definition node_pending_withdrawal_bundle :: "('acc, 'fr, 'pf) node_dbs \<Rightarrow> withdrawal_bundle option node_result" where
  "node_pending_withdrawal_bundle N =
     map_err NdState (map_ok (map_option fst) (try_get_pending_withdrawal_bundle (nd_state N)))"

section \<open>Blocks, transactions and outputs\<close>

text \<open>The header is looked up first; a missing body is an error.\<close>

definition get_block :: "('acc, 'fr, 'pf) node_dbs \<Rightarrow> block_hash \<Rightarrow> (header \<times> 'pf body) option node_result" where
  "get_block N b =
     (case try_get_header (nd_archive N) b of
        None \<Rightarrow> Inr None
      | Some header \<Rightarrow> map_ok (\<lambda>body. Some (header, body)) (map_err NdArchive (get_body (nd_archive N) b)))"

definition get_best_sidechain_block_hash :: "('acc, 'fr, 'pf) node_dbs \<Rightarrow> block_hash option" where
  "get_best_sidechain_block_hash N = st_tip (nd_state N)"

definition get_best_mainchain_block_hash :: "('acc, 'fr, 'pf) node_dbs \<Rightarrow> main_hash option node_result" where
  "get_best_mainchain_block_hash N =
     (case st_tip (nd_state N) of
        None \<Rightarrow> Inr None
      | Some sidechain_hash \<Rightarrow>
          map_ok Some (map_err NdArchive (get_best_main_verification (nd_archive N) sidechain_hash)))"

text \<open>A height is a \<open>u32\<close>.\<close>

definition getblockcount :: "('acc, 'fr, 'pf) node_dbs \<Rightarrow> nat node_result" where
  "getblockcount N = (case st_height (nd_state N) of None \<Rightarrow> Inr 0 | Some height \<Rightarrow> add_u32 height 1)"

record 'pf get_transaction_response =
  gt_tx :: "'pf transaction"
  gt_block_hash :: "block_hash option"

definition get_transaction ::
  "('acc, 'fr, 'pf) node_dbs \<Rightarrow> txid \<Rightarrow> 'pf get_transaction_response option node_result" where
  "get_transaction N txid =
     map_ok (map_option (\<lambda>(tx, b). \<lparr>gt_tx = tx, gt_block_hash = b\<rparr>)) (try_get_transaction N txid)"

record pointed_output =
  po_outpoint :: out_point
  po_output :: tx_output

definition pointed :: "out_point \<times> tx_output \<Rightarrow> pointed_output" where
  "pointed x = \<lparr>po_outpoint = fst x, po_output = snd x\<rparr>"

definition list_utxos :: "('acc, 'fr, 'pf) node_dbs \<Rightarrow> pointed_output list node_result" where
  "list_utxos N = map_ok (map pointed) (get_all_utxos N)"

section \<open>The wallet\<close>

definition get_wallet_utxos :: "wallet \<Rightarrow> pointed_output list" where
  "get_wallet_utxos W = map pointed (sorted_list_of_fmap (w_utxos W))"

definition get_wallet_utxos_unconfirmed :: "wallet \<Rightarrow> pointed_output list" where
  "get_wallet_utxos_unconfirmed W = map pointed (sorted_list_of_fmap (w_utxos_unconfirmed W))"

definition pointed_spent :: "out_point \<times> spent_output \<Rightarrow> pointed_output \<times> in_point" where
  "pointed_spent x = (pointed (fst x, so_output (snd x)), so_inpoint (snd x))"

definition get_wallet_stxos :: "wallet \<Rightarrow> (pointed_output \<times> in_point) list" where
  "get_wallet_stxos W = map pointed_spent (sorted_list_of_fmap (w_stxos W))"

definition get_wallet_stxos_unconfirmed :: "wallet \<Rightarrow> (pointed_output \<times> in_point) list" where
  "get_wallet_stxos_unconfirmed W = map pointed_spent (sorted_list_of_fmap (w_stxos_unconfirmed W))"

text \<open>Addresses are collected into a set and sorted by their text.\<close>

definition get_shielded_addresses :: "wallet \<Rightarrow> orchard_address list" where
  "get_shielded_addresses W = map snd (sorted_list_of_fmap (orchard_index_to_address W))"

definition get_transparent_wallet_addresses ::
  "orchard_address address_ext \<Rightarrow> wallet \<Rightarrow> transparent_address list" where
  "get_transparent_wallet_addresses Y W = sort_key (as_base58 Y) (remdups (get_transparent_addresses W))"

definition get_shielded_wallet_addresses :: "orchard_address address_ext \<Rightarrow> wallet \<Rightarrow> orchard_address list" where
  "get_shielded_wallet_addresses Y W =
     sort_key (bech32m_encode Y) (remdups (get_shielded_addresses W))"

definition get_new_shielded_address ::
  "('tree, 'path, 'b) wallet_ext \<Rightarrow> wallet \<Rightarrow> wallet \<times> orchard_address wallet_result" where
  "get_new_shielded_address X W =
     (case get_new_orchard_address X W of Inl e \<Rightarrow> (W, Inl e) | Inr (W, addr) \<Rightarrow> (W, Inr addr))"

definition rpc_set_seed_from_mnemonic ::
  "('tree, 'path, 'b) wallet_ext \<Rightarrow> wallet \<Rightarrow> string \<Rightarrow> wallet \<times> unit wallet_result" where
  "rpc_set_seed_from_mnemonic X W phrase =
     (case set_seed_from_mnemonic X W phrase of
        Inl e \<Rightarrow> (W, Inl e) | Inr W \<Rightarrow> (W, Inr ()))"

section \<open>Deposits\<close>

text \<open>
  \<open>App::deposit\<close> and \<open>App::get_new_main_address\<close>: the answers of the remote node and wallet are arguments, and \<open>on_network\<close> is the check of
  the \<open>bitcoin\<close> crate that an address belongs to a network.
\<close>

definition deposit ::
  "'o proto_ext \<Rightarrow> (transparent_address \<Rightarrow> nat \<Rightarrow> nat \<Rightarrow> hex_message option option) \<Rightarrow> 'pf miner option
    \<Rightarrow> transparent_address \<Rightarrow> nat \<Rightarrow> nat \<Rightarrow> hash app_result" where
  "deposit Y create_deposit_tx mnr addr amount fee =
     (case mnr of
        None \<Rightarrow> Inl (Err AppNoCusfMainchainWalletClient)
      | Some _ \<Rightarrow> map_err (\<lambda>_. AppCusfMainchain)
          (created_txid Y ''CreateDepositTransactionResponse'' (create_deposit_tx addr amount fee)))"

definition get_new_main_address ::
  "'o proto_ext \<Rightarrow> (bitcoin_network \<Rightarrow> main_address \<Rightarrow> bool) \<Rightarrow> bitcoin_network proto_result \<Rightarrow> u8 list option \<Rightarrow> 'pf miner option
    \<Rightarrow> main_address app_result" where
  "get_new_main_address Y on_network chain_info response mnr =
     (case mnr of
        None \<Rightarrow> Inl (Err AppNoCusfMainchainWalletClient)
      | Some _ \<Rightarrow>
          and_then (map_err (\<lambda>_. AppCusfMainchain) chain_info) (\<lambda>network.
          and_then (map_err (\<lambda>_. AppCusfMainchain) (create_new_address Y response)) (\<lambda>addr.
          if on_network network addr then Inr addr else Inl Panic)))"

section \<open>Payments\<close>

text \<open>
  Every payment proves its inputs against the accumulator at the tip, is created by the wallet, which commits its new addresses, and
  is then signed and sent. The answer is its transaction id.
\<close>

definition send_created ::
  "('acc, 'fr, 'pf) ext \<Rightarrow> shardtree_ext \<Rightarrow> ('tree, 'path, 'b) wallet_ext \<Rightarrow> ('acc, 'fr, 'pf) node_dbs \<Rightarrow> wallet
    \<Rightarrow> (wallet \<times> 'pf transaction) wallet_result \<Rightarrow> ('acc, 'fr, 'pf) node_dbs \<times> wallet \<times> txid app_result" where
  "send_created E T X N W created =
     (case map_err AppWallet created of
        Inl e \<Rightarrow> (N, W, Inl e)
      | Inr (W, tx) \<Rightarrow>
          (case sign_and_send E T X N W tx of (N, W, r) \<Rightarrow> (N, W, map_ok (\<lambda>_. tx_txid E tx) r)))"






section \<open>Payments reach the pool and spend their coins once\<close>













text \<open>
  A payment that is answered with an error leaves the coins of the wallet as they were. The node has then changed only if the update of
  the wallet failed: the transaction is in its pool, although the caller is told that the payment failed.
\<close>

theorem rpc_payment_failed:
  assumes "send_created E T X N W created = (N', W', Inl e)"
  shows "(\<exists>e. created = Inl e) \<and> N' = N \<and> W' = W
    \<or> (\<exists>tx. created = Inr (W', tx) \<and>
         (N' = N \<or> (\<exists>at M. authorize E X W' tx = Inr at \<and> mempool_put E (nd_mempool N) at = Inr M \<and> N' = N\<lparr>nd_mempool := M\<rparr>)))"
proof (cases created)
  case (Inl e')
  moreover have "\<exists>e''. map_err AppWallet (Inl e' :: (wallet \<times> 'c transaction) wallet_result) = Inl e''"
    by (cases e') (simp_all add: map_err_def)
  ultimately show ?thesis using assms by (auto simp: send_created_def)
next
  case (Inr x)
  then obtain W1 tx where x: "created = Inr (W1, tx)" by (cases x) auto
  with assms obtain e' where s: "sign_and_send E T X N W1 tx = (N', W', Inl e')"
    by (auto simp: send_created_def map_err_def map_ok_def split: prod.splits sum.splits)
  then have "W' = W1 \<and> (N' = N \<or> (\<exists>at M. authorize E X W1 tx = Inr at
      \<and> mempool_put E (nd_mempool N) at = Inr M \<and> N' = N\<lparr>nd_mempool := M\<rparr>))"
    by (auto simp: sign_and_send_def submit_transaction_def result_simps split: sum.splits prod.splits)
  with x show ?thesis by auto
qed

section \<open>Lists of addresses\<close>

text \<open>The lists of addresses have every address once, in the order of their texts.\<close>

theorem wallet_addresses_sorted:
  "sorted (map (as_base58 Y) (get_transparent_wallet_addresses Y W)) \<and> distinct (get_transparent_wallet_addresses Y W)
     \<and> set (get_transparent_wallet_addresses Y W) = set (get_transparent_addresses W)"
  "sorted (map (bech32m_encode Y) (get_shielded_wallet_addresses Y W)) \<and> distinct (get_shielded_wallet_addresses Y W)
     \<and> set (get_shielded_wallet_addresses Y W) = set (get_shielded_addresses W)"
  by (simp_all add: get_transparent_wallet_addresses_def get_shielded_wallet_addresses_def)

section \<open>Examples\<close>







end
