(* ===== verification/Spec2Isabelle.thy ===== *)
theory Spec2Isabelle
  imports Rollback Codec Archive_Index Peg_Undo Node Shard_Store Wallet_Coins Wallet_Notes Bills App_Sync Mining_Valid Net_Sync Rpc
begin

text \<open>
  Verification of thunder-orchard, a Bitcoin sidechain node with transparent outputs and an Orchard shielded pool.

  \<^bold>\<open>The program.\<close> A node (\<open>src/lib\<close>) keeps an archive of sidechain headers, bodies and mainchain headers, a state
  (unspent and spent outputs, Orchard roots and nullifiers, two-way peg data, a Utreexo accumulator) at the tip of one
  chain of the archive, and a mempool. Blocks are valid when the mainchain commits to them (blind merged mining, BMM).
  Connection tasks compare the tip of a peer with the own one and ask for headers and bodies, the net task stores what peers
  send and reorganises to better tips, the mainchain task stores mainchain headers. A wallet follows the tip of the node,
  creates and signs transactions, and the application (\<open>src/app/app.rs\<close>) mines blocks from the mempool.

  \<^bold>\<open>Theories and sources.\<close> Definitions carry the names of the source where they can.
  \<^item> \<open>Prelude\<close>: results. An operation returns \<open>Inr\<close> a value or \<open>Inl\<close> a failure: \<open>Err e\<close> the error of its component,
    \<open>Panic\<close> a failed assertion, \<open>unwrap\<close> or checked arithmetic overflow, \<open>Diverge\<close> a loop that runs out of fuel. LMDB
    databases are finite maps, iterated in the order of their keys.
  \<^item> \<open>Types\<close>, \<open>Codec\<close>, \<open>Accumulator\<close>: \<open>lib/types\<close>: data, canonical encodings and decoders, database keys, hashes,
    \<open>AccumulatorDiff\<close>. Keys decode exactly from what is encoded, hashes bind what they hash (for an injective hash function), the diff
    implements one cell per leaf.
  \<^item> \<open>Authorization\<close>: \<open>lib/authorization.rs\<close>. \<open>Rollback\<close>: \<open>lib/state/rollback.rs\<close>.
  \<^item> \<open>Chain_Index\<close>, \<open>Archive\<close>, \<open>Archive_Index\<close>: \<open>lib/archive.rs\<close>. The locale \<open>chain_index\<close> is the contract of the
    exponential ancestor index, interpreted for sidechain and for mainchain headers. Lookup of the n-th ancestor, descendance and
    last common ancestor are correct, and storing headers keeps the invariant \<open>archive_inv\<close>.
  \<^item> \<open>State\<close>, \<open>Block\<close>, \<open>Block_Valid\<close>, \<open>Block_Connect\<close>, \<open>Block_Undo\<close>: \<open>lib/state/mod.rs\<close>, \<open>orchard.rs\<close> and \<open>block.rs\<close>.
    Accepted blocks create no value and are authorized, both ways to connect a block agree, and disconnecting undoes
    connecting.
  \<^item> \<open>Bundle\<close>, \<open>Two_Way_Peg\<close>, \<open>Peg_Invariant\<close>, \<open>Peg_Undo\<close>, \<open>Ledger\<close>: \<open>lib/state/two_way_peg_data.rs\<close>. Withdrawal
    bundles pay what they spend, events conserve outputs and can be undone, blocks keep the invariant \<open>peg_inv\<close>.
  \<^item> \<open>Mempool\<close>: \<open>lib/mempool.rs\<close>. The work list of \<open>delete\<close> ends (the pool shrinks or the queue does), and the indexes
    of the pool stay exact (\<open>mempool_ok\<close>).
  \<^item> \<open>Reorg\<close>, \<open>Node_Invariant\<close>: \<open>connect_tip_\<close>, \<open>disconnect_tip_\<close> and \<open>reorg_to_tip\<close> of \<open>lib/node/net_task.rs\<close>. A
    reorganisation commits only better tips, and completes when the blocks can be connected. \<open>Node\<close>: \<open>lib/node/mod.rs\<close>.
  \<^item> \<open>Archive_Iter\<close>: ancestors are shorter than the archive, and the batches of \<open>AncestorsRev\<close> give every missing body.
  \<^item> \<open>Peer\<close>, \<open>Peer_Sync\<close>: \<open>lib/net/peer\<close>. Messages, the request queue, the handlers and the mailbox of a connection task. Its
    comparison of tips agrees with \<open>better_tip\<close>, a tip is reported as ready only when its chain is stored, no request is sent twice.
  \<^item> \<open>Net\<close>, \<open>Mainchain_Task\<close>, \<open>Net_Task\<close>, \<open>Net_Sync\<close>: \<open>lib/net/mod.rs\<close>, \<open>lib/node/mainchain_task.rs\<close> and the responses of
    peers and mailbox loop of \<open>lib/node/net_task.rs\<close>. Headers that a peer serves are accepted and complete the archive; in every run
    (\<open>net_run\<close>) the archive keeps its invariant. The loop of the mainchain task takes fuel beyond the height of the requested block.
  \<^item> \<open>Address\<close>, \<open>Proto\<close>: \<open>lib/types/address.rs\<close> and \<open>lib/types/proto.rs\<close>. Text forms of addresses, and the messages of the mainchain node:
    what arrives is well formed, answers decode to exactly the infos that they describe, and deposits decode whatever their address is.
  \<^item> \<open>Shard_Tree\<close>, \<open>Shard_Store\<close>: \<open>lib/types/orchard/shardtree_db.rs\<close>. The databases implement one list of checkpoints.
  \<^item> \<open>Wallet\<close>, \<open>Wallet_Coins\<close>, \<open>Wallet_Notes\<close>, \<open>Bills\<close>: \<open>lib/wallet/mod.rs\<close>. Created transactions pay the fee, are
    accepted by a node with the same coins, and spent notes are recorded and put back.
  \<^item> \<open>App\<close>, \<open>App_Sync\<close>, \<open>Mining\<close>, \<open>Mining_Valid\<close>: \<open>app/app.rs\<close> and \<open>lib/miner.rs\<close>. The wallet reaches the tip of the
    node, and a mined block passes validation. \<open>Rpc\<close>: \<open>app/rpc_server.rs\<close>. A payment that is answered with a transaction id is in
    the pool of the node, and its coins are spent in the wallet.

  \<^bold>\<open>State and effects.\<close> Every database is a field of a record; a write transaction passes the record and returns the new
  one, a failed transaction returns no record, and commits in the middle of an operation (\<open>reorg_to_tip\<close>, \<open>submit_block\<close>, \<open>mine\<close>)
  are pairs of the committed record and the result. Amounts and heights are natural numbers with the
  bound checks of \<open>checked_add\<close> and \<open>checked_sub\<close> written out; hashes are words; arithmetic that would overflow in the source is \<open>Panic\<close>.

  \<^bold>\<open>Code outside the repository\<close> is a parameter: \<open>ext\<close> holds the hash functions, the Utreexo forest, the Orchard frontier,
  signature verification and Bitcoin transaction weights; \<open>wallet_ext\<close> key derivation, note decryption, the Orchard builder,
  the commitment tree, sorting and random choices; \<open>address_ext\<close> and \<open>proto_ext\<close> Base58, Bech32 and hexadecimal text;
  \<open>shardtree_ext\<close> the iteration order of checkpoints. A theorem that needs a law of them states it as
  a hypothesis, and its witness instantiates the parameters with concrete functions. Answers of remote services are arguments.

  \<^bold>\<open>Fuel.\<close> Walks along parent links take \<open>ancestor_fuel\<close>, one step more than there are stored headers: heights decrease
  along stored links, so a walk ends before. Walks on the mainchain have one step more than mainchain headers.
  Theorems on these loops show that they return, not only what a returned value satisfies.

  \<^bold>\<open>Not modelled.\<close> QUIC transport, message framing, the channel pool, rate limits, timers and the spawning of tasks: third-party
  calls and scheduling; the tasks themselves are steps on records. The graphical interface, the command line, and the transport, middleware and JSON forms of the RPC
  server: input and output around the operations above.
  Serde forms, OpenAPI schemas and the code generated for protobuf messages: derived or generated code. The wrappers of the Orchard crate in
  \<open>lib/types/orchard/mod.rs\<close>: their cryptography is third-party code. Opening databases, version records, watch streams and logging.
\<close>

end
